(* ===== verification/Prelude.thy ===== *)
theory Prelude
  imports Main "HOL-Library.AList" "HOL-Library.List_Lexorder" "HOL-Library.Char_ord"
    "HOL-Library.Word" "HOL-Library.Multiset" "HOL-Library.Sublist"
begin

text \<open>
  Shared vocabulary of the development: Go maps as association lists, results of
  fallible Go functions, strictly ascending lists, and the library of generic lemmas
  the components use.
\<close>

section \<open>Collections of facts\<close>

named_theorems gomap_simps \<open>lookup after update and delete on Go maps\<close>
named_theorems asc_simps \<open>facts about strictly ascending lists\<close>

section \<open>Results of Go functions\<close>

text \<open>
  A Go function that returns \<open>(T, error)\<close> returns a value of \<open>'e + 'a\<close> here: \<open>Inl\<close>
  the error, \<open>Inr\<close> the value.
\<close>

fun is_ok :: "'e + 'a \<Rightarrow> bool" where
  "is_ok (Inl e) = False"
| "is_ok (Inr a) = True"

lemma is_ok_iff: "is_ok r \<longleftrightarrow> (\<exists>a. r = Inr a)"
  by (cases r) auto

section \<open>Go maps\<close>

text \<open>
  A Go map \<open>map[K]V\<close> is an association list whose keys are distinct. The order of the
  list stands for the order in which one \<open>range\<close> loop of the program happens to visit
  the map; the language leaves that order open, so a theorem about a loop over a map holds
  for every list with the same lookups. \<open>gm_get\<close> is \<open>m[k]\<close> with its \<open>ok\<close> flag.
\<close>

type_synonym ('k, 'v) gomap = "('k \<times> 'v) list"

abbreviation gm_get :: "('k, 'v) gomap \<Rightarrow> 'k \<Rightarrow> 'v option" where
  "gm_get \<equiv> map_of"

abbreviation gm_keys :: "('k, 'v) gomap \<Rightarrow> 'k list" where
  "gm_keys m \<equiv> map fst m"

definition gm_put :: "('k, 'v) gomap \<Rightarrow> 'k \<Rightarrow> 'v \<Rightarrow> ('k, 'v) gomap" where
  "gm_put m k v = AList.update k v m"

definition gm_delete :: "('k, 'v) gomap \<Rightarrow> 'k \<Rightarrow> ('k, 'v) gomap" where
  "gm_delete m k = AList.delete k m"

definition gm_inv :: "('k, 'v) gomap \<Rightarrow> bool" where
  "gm_inv m \<longleftrightarrow> distinct (gm_keys m)"

lemma gm_get_put [simp, gomap_simps]: "gm_get (gm_put m k v) = (gm_get m)(k \<mapsto> v)"
  by (simp add: gm_put_def update_conv')

lemma gm_get_delete [simp, gomap_simps]: "gm_get (gm_delete m k) = (gm_get m)(k := None)"
  by (simp add: gm_delete_def delete_conv')

lemma gm_keys_put: "gm_keys (gm_put m k v) = (if k \<in> set (gm_keys m) then gm_keys m else gm_keys m @ [k])"
  by (simp add: gm_put_def update_keys)

lemma set_gm_keys_put [simp]: "fst ` set (gm_put m k v) = insert k (fst ` set m)"
proof -
  have "set (gm_keys (gm_put m k v)) = insert k (set (gm_keys m))"
    unfolding gm_keys_put by auto
  then show ?thesis by simp
qed

lemma gm_keys_delete: "gm_keys (gm_delete m k) = removeAll k (gm_keys m)"
  by (simp add: gm_delete_def delete_keys)

lemma set_gm_keys_delete [simp]: "fst ` set (gm_delete m k) = fst ` set m - {k}"
proof -
  have "set (gm_keys (gm_delete m k)) = set (gm_keys m) - {k}"
    unfolding gm_keys_delete by auto
  then show ?thesis by simp
qed

lemma gm_inv_Nil [simp, intro]: "gm_inv []"
  by (simp add: gm_inv_def)

lemma gm_inv_Cons [simp]: "gm_inv ((k, v) # m) \<longleftrightarrow> k \<notin> set (gm_keys m) \<and> gm_inv m"
  by (simp add: gm_inv_def)

lemma gm_inv_put [simp, intro]: "gm_inv m \<Longrightarrow> gm_inv (gm_put m k v)"
  unfolding gm_inv_def gm_keys_put by auto

lemma gm_inv_delete [simp, intro]: "gm_inv m \<Longrightarrow> gm_inv (gm_delete m k)"
  unfolding gm_inv_def gm_keys_delete by (simp add: distinct_removeAll)

lemma gm_get_None_iff: "gm_get m k = None \<longleftrightarrow> k \<notin> set (gm_keys m)"
  by (simp add: map_of_eq_None_iff)

lemma gm_get_Some_key: "gm_get m k = Some v \<Longrightarrow> k \<in> set (gm_keys m)"
  by (metis gm_get_None_iff option.distinct(1))

lemma gm_get_Some_iff: "gm_inv m \<Longrightarrow> gm_get m k = Some v \<longleftrightarrow> (k, v) \<in> set m"
  by (simp add: gm_inv_def map_of_eq_Some_iff)

lemma gm_key_get: "k \<in> set (gm_keys m) \<Longrightarrow> \<exists>v. gm_get m k = Some v"
  by (metis gm_get_None_iff not_None_eq)

lemma gm_put_nonempty [simp]: "gm_put m k v \<noteq> []"
  using set_gm_keys_put [of m k v] by (metis empty_iff empty_set image_empty insertI1)

lemma length_gm_delete:
  "gm_inv m \<Longrightarrow> k \<in> set (gm_keys m) \<Longrightarrow> Suc (length (gm_delete m k)) = length m"
proof -
  assume a: "gm_inv m" "k \<in> set (gm_keys m)"
  have "length (gm_delete m k) = length (removeAll k (gm_keys m))"
    by (metis gm_keys_delete length_map)
  also have "\<dots> = length (remove1 k (gm_keys m))"
    using a by (simp add: gm_inv_def distinct_remove1_removeAll)
  also have "\<dots> = length m - 1" using a(2) by (simp add: length_remove1)
  finally have "length (gm_delete m k) = length m - 1" .
  moreover have "0 < length m" using a(2) by (cases m) simp_all
  ultimately show ?thesis by linarith
qed

text \<open>A loop that rewrites every value of a map keeps its keys.\<close>

lemma fst_comp_map_snd [simp]: "fst \<circ> (\<lambda>(k, v). (k, f k v)) = fst"
  by (simp add: fun_eq_iff)

lemma gm_keys_map_val: "gm_keys (map (\<lambda>(k, v). (k, f k v)) m) = gm_keys m"
  by simp

lemma gm_inv_map_val [simp]: "gm_inv (map (\<lambda>(k, v). (k, f k v)) m) \<longleftrightarrow> gm_inv m"
  by (simp add: gm_inv_def)

lemma gm_get_map_val [simp]: "gm_get (map (\<lambda>(k, v). (k, f k v)) m) k = map_option (f k) (gm_get m k)"
  by (induction m) auto

section \<open>Strictly ascending lists\<close>

text \<open>The representation of a set of identifiers: a slice that is strictly ascending.\<close>

abbreviation asc :: "'a::linorder list \<Rightarrow> bool" where
  "asc \<equiv> sorted_wrt (<)"

lemma asc_distinct [asc_simps]: "asc xs \<Longrightarrow> distinct xs"
  by (induction xs) auto

lemma asc_sorted: "asc xs \<Longrightarrow> sorted xs"
  by (simp add: strict_sorted_imp_sorted)

lemma asc_nth_less: "asc xs \<Longrightarrow> i < j \<Longrightarrow> j < length xs \<Longrightarrow> xs ! i < xs ! j"
  by (simp add: sorted_wrt_iff_nth_less)

lemma asc_nth_mono: "asc xs \<Longrightarrow> i \<le> j \<Longrightarrow> j < length xs \<Longrightarrow> xs ! i \<le> xs ! j"
  by (cases "i = j") (auto dest: asc_nth_less [of xs i j] simp: order_less_imp_le)

lemma asc_set_unique: "asc xs \<Longrightarrow> asc ys \<Longrightarrow> set xs = set ys \<Longrightarrow> xs = ys"
  by (simp add: strict_sorted_equal)

lemma asc_insert_at:
  assumes "asc xs" and "\<forall>x \<in> set (take p xs). x < z" and "\<forall>x \<in> set (drop p xs). z < x"
  shows "asc (take p xs @ z # drop p xs)"
proof -
  have "asc (take p xs)" "asc (drop p xs)"
    using assms(1) by (simp_all add: sorted_wrt_take sorted_wrt_drop)
  then show ?thesis using assms(2,3) by (fastforce simp: sorted_wrt_append)
qed

lemma drop_eq_Cons: "i < length xs \<Longrightarrow> drop i xs = xs ! i # drop (Suc i) xs"
  by (simp add: Cons_nth_drop_Suc)

lemma take_list_update_last:
  "i < length xs \<Longrightarrow> take (Suc i) (xs[i := x]) = take i xs @ [x]"
  by (simp add: take_Suc_conv_app_nth)

end
