(* ===== verification/Zid.thy ===== *)
theory Zid
  imports Prelude
begin

text \<open>
  Zettel identifiers, \<open>zettel/id/id.go\<close>: the 14-digit identifier \<open>Zid\<close> (a \<open>uint64\<close>) and
  the four-character base-36 identifier \<open>ZidN\<close> (a \<open>uint32\<close>), their parsers, printers and
  validity tests. Parsing and printing are inverse to each other, and the textual order of
  printed identifiers is their numeric order.
\<close>

section \<open>The standard library: \<open>strconv.ParseUint\<close>\<close>

datatype strconv_error = ErrSyntax | ErrRange

text \<open>The value of a digit in any base up to 36, letters in either case.\<close>

definition digit_val :: "char \<Rightarrow> nat option" where
  "digit_val c = (let k = of_char c :: nat in
     if 48 \<le> k \<and> k \<le> 57 then Some (k - 48)
     else if 97 \<le> k \<and> k \<le> 122 then Some (k - 97 + 10)
     else if 65 \<le> k \<and> k \<le> 90 then Some (k - 65 + 10)
     else None)"

text \<open>
  The loop of \<open>strconv.ParseUint\<close>: a bad digit is a syntax error, exceeding the largest
  value of the bit size a range error; the first of the two that occurs from the left
  counts. For the bit sizes the program asks for (47 and 21) the multiplication in
  \<open>uint64\<close> cannot overflow, since the value so far is at most \<open>maxVal\<close>.
\<close>

fun parse_uint_loop :: "nat \<Rightarrow> nat \<Rightarrow> nat \<Rightarrow> string \<Rightarrow> strconv_error + nat" where
  "parse_uint_loop base maxVal n [] = Inr n"
| "parse_uint_loop base maxVal n (c # cs) =
     (case digit_val c of
        None \<Rightarrow> Inl ErrSyntax
      | Some d \<Rightarrow>
          if base \<le> d then Inl ErrSyntax
          else if maxVal < n * base + d then Inl ErrRange
          else parse_uint_loop base maxVal (n * base + d) cs)"

definition strconv_ParseUint :: "string \<Rightarrow> nat \<Rightarrow> nat \<Rightarrow> strconv_error + nat" where
  "strconv_ParseUint s base bits =
     (if s = [] then Inl ErrSyntax else parse_uint_loop base (2 ^ bits - 1) 0 s)"

section \<open>\<open>Zid\<close>: fourteen decimal digits\<close>

type_synonym zid = "64 word"

definition Invalid :: zid where
  "Invalid = 0"

definition maxZid :: nat where
  "maxZid = 99999999999999"

definition ParseUint :: "string \<Rightarrow> strconv_error + nat" where
  "ParseUint s =
     (case strconv_ParseUint s 10 47 of
        Inl err \<Rightarrow> Inl err
      | Inr res \<Rightarrow> if res = 0 \<or> maxZid < res then Inl ErrRange else Inr res)"

definition Parse :: "string \<Rightarrow> strconv_error + zid" where
  "Parse s =
     (if length s \<noteq> 14 then Inl ErrSyntax
      else case ParseUint s of
             Inl err \<Rightarrow> Inl err
           | Inr res \<Rightarrow> Inr (of_nat res))"

text \<open>\<open>MustParse\<close> panics where \<open>Parse\<close> fails: \<open>None\<close> is the panic.\<close>

definition MustParse :: "string \<Rightarrow> zid option" where
  "MustParse s = (case Parse s of Inl err \<Rightarrow> None | Inr zid \<Rightarrow> Some zid)"

definition IsValid :: "zid \<Rightarrow> bool" where
  "IsValid zid \<longleftrightarrow> 0 < zid \<and> zid \<le> 99999999999999"

text \<open>\<open>byte(d) + '0'\<close>: the conversion keeps the low eight bits, and the sum wraps.\<close>

definition digit_byte :: "64 word \<Rightarrow> char" where
  "digit_byte d = char_of (unat ((ucast d :: 8 word) + 48))"

definition toByteArray :: "zid \<Rightarrow> string" where
  "toByteArray zid =
     (let date = zid div 1000000;
          fullyear = date div 10000;
          century = fullyear div 100; year = fullyear mod 100;
          monthday = date mod 10000;
          month = monthday div 100; day = monthday mod 100;
          time = zid mod 1000000;
          hmtime = time div 100; second = time mod 100;
          hour = hmtime div 100; minute = hmtime mod 100
      in [digit_byte (century div 10), digit_byte (century mod 10),
          digit_byte (year div 10), digit_byte (year mod 10),
          digit_byte (month div 10), digit_byte (month mod 10),
          digit_byte (day div 10), digit_byte (day mod 10),
          digit_byte (hour div 10), digit_byte (hour mod 10),
          digit_byte (minute div 10), digit_byte (minute mod 10),
          digit_byte (second div 10), digit_byte (second mod 10)])"

definition zid_String :: "zid \<Rightarrow> string" where
  "zid_String zid = toByteArray zid"

definition zid_Bytes :: "zid \<Rightarrow> string" where
  "zid_Bytes zid = toByteArray zid"

text \<open>
  \<open>New\<close> formats the local time with the layout \<open>20060102150405\<close> (or with the seconds
  forced to \<open>00\<close>) and parses the result; the clock's two readings are the parameter
  \<open>now\<close>, which takes the \<open>withSeconds\<close> flag. \<open>None\<close> is the panic.
\<close>

definition zid_New :: "(bool \<Rightarrow> string) \<Rightarrow> bool \<Rightarrow> zid option" where
  "zid_New now withSeconds =
     (case Parse (now withSeconds) of Inl err \<Rightarrow> None | Inr res \<Rightarrow> Some res)"

section \<open>\<open>ZidN\<close>: four base-36 digits\<close>

type_synonym zidN = "32 word"

definition InvalidN :: zidN where
  "InvalidN = 0"

definition maxZidN :: nat where
  "maxZidN = 36 * 36 * 36 * 36 - 1"

definition ParseUintN :: "string \<Rightarrow> strconv_error + nat" where
  "ParseUintN s =
     (case strconv_ParseUint s 36 21 of
        Inl err \<Rightarrow> Inl err
      | Inr res \<Rightarrow> if res = 0 \<or> maxZidN < res then Inl ErrRange else Inr res)"

definition ParseN :: "string \<Rightarrow> strconv_error + zidN" where
  "ParseN s =
     (if length s \<noteq> 4 then Inl ErrSyntax
      else case ParseUintN s of
             Inl err \<Rightarrow> Inl err
           | Inr res \<Rightarrow> Inr (of_nat res))"

definition MustParseN :: "string \<Rightarrow> zidN option" where
  "MustParseN s = (case ParseN s of Inl err \<Rightarrow> None | Inr zid \<Rightarrow> Some zid)"

definition IsValidN :: "zidN \<Rightarrow> bool" where
  "IsValidN zid \<longleftrightarrow> 0 < zid \<and> zid \<le> 36 * 36 * 36 * 36 - 1"

definition digitsN :: string where
  "digitsN = ''0123456789ABCDEFGHIJKLMNOPQRSTUVWXYZ''"

text \<open>\<open>digits[d]\<close>: an index outside the string panics (\<open>None\<close>).\<close>

definition digitN :: "zidN \<Rightarrow> char option" where
  "digitN d = (if unat d < length digitsN then Some (digitsN ! unat d) else None)"

definition toByteArrayN :: "zidN \<Rightarrow> string option" where
  "toByteArrayN zid =
     (let d12 = zid div (36 * 36);
          d1 = d12 div 36; d2 = d12 mod 36;
          d34 = zid mod (36 * 36);
          d3 = d34 div 36; d4 = d34 mod 36
      in those [digitN d1, digitN d2, digitN d3, digitN d4])"

definition zidN_String :: "zidN \<Rightarrow> string option" where
  "zidN_String zid = toByteArrayN zid"

section \<open>Positional notation\<close>

text \<open>The reference: \<open>k\<close> digits of a number in a base, most significant first.\<close>

fun digits :: "nat \<Rightarrow> nat \<Rightarrow> nat \<Rightarrow> nat list" where
  "digits b 0 n = []"
| "digits b (Suc k) n = digits b k (n div b) @ [n mod b]"

definition horner :: "nat \<Rightarrow> nat \<Rightarrow> nat list \<Rightarrow> nat" where
  "horner b n ds = foldl (\<lambda>a d. a * b + d) n ds"

lemma horner_simps [simp]:
  "horner b n [] = n"
  "horner b n (d # ds) = horner b (n * b + d) ds"
  "horner b n (ds @ es) = horner b (horner b n ds) es"
  by (simp_all add: horner_def)

lemma length_digits [simp]: "length (digits b k n) = k"
  by (induction k arbitrary: n) auto

lemma digits_less: "0 < b \<Longrightarrow> d \<in> set (digits b k n) \<Longrightarrow> d < b"
  by (induction k arbitrary: n) auto

lemma horner_digits: "0 < b \<Longrightarrow> horner b 0 (digits b k n) = n mod b ^ k"
proof (induction k arbitrary: n)
  case 0
  then show ?case by simp
next
  case (Suc k)
  then have "horner b 0 (digits b (Suc k) n) = (n div b) mod b ^ k * b + n mod b" by simp
  also have "\<dots> = n mod (b * b ^ k)" by (simp add: mod_mult2_eq mult.commute)
  finally show ?case by simp
qed

lemma horner_bound: "\<forall>d \<in> set ds. d < b \<Longrightarrow> horner b 0 ds < b ^ length ds"
proof (induction ds rule: rev_induct)
  case Nil
  then show ?case by simp
next
  case (snoc d ds)
  then have "horner b 0 ds + 1 \<le> b ^ length ds" "d < b" by auto
  then have "(horner b 0 ds + 1) * b \<le> b ^ length ds * b" by (intro mult_le_mono1)
  then show ?case using \<open>d < b\<close> by (simp add: algebra_simps)
qed

lemma digits_horner: "\<forall>d \<in> set ds. d < b \<Longrightarrow> digits b (length ds) (horner b 0 ds) = ds"
  by (induction ds rule: rev_induct) auto

lemma horner_mono: "0 < b \<Longrightarrow> n \<le> horner b n ds"
proof (induction ds arbitrary: n)
  case Nil
  then show ?case by simp
next
  case (Cons d ds)
  have "n \<le> n * b + d" using Cons.prems by (simp add: trans_le_add1)
  then show ?case using Cons by (metis horner_simps(2) le_trans)
qed

section \<open>The parser computes positional values\<close>

lemma parse_uint_loop_horner:
  assumes "\<And>c. c \<in> set s \<Longrightarrow> \<exists>d. digit_val c = Some d \<and> d < b"
    and "horner b n (map (the \<circ> digit_val) s) \<le> mx" and "0 < b"
  shows "parse_uint_loop b mx n s = Inr (horner b n (map (the \<circ> digit_val) s))"
  using assms
proof (induction s arbitrary: n)
  case Nil
  then show ?case by simp
next
  case (Cons c s)
  then obtain d where d: "digit_val c = Some d" "d < b" by auto
  have "n * b + d \<le> horner b (n * b + d) (map (the \<circ> digit_val) s)"
    by (rule horner_mono) (rule Cons.prems(3))
  with Cons d show ?case by (auto simp: not_le comp_def)
qed

lemma parse_uint_loop_Inr:
  assumes "parse_uint_loop b mx n s = Inr r"
  shows "(\<forall>c \<in> set s. \<exists>d. digit_val c = Some d \<and> d < b) \<and> r = horner b n (map (the \<circ> digit_val) s)"
  using assms
  by (induction b mx n s rule: parse_uint_loop.induct) (auto split: option.splits if_splits)

lemma parse_uint_loop_ok:
  "parse_uint_loop b mx n s = Inr r \<Longrightarrow> n \<le> mx \<Longrightarrow> r \<le> mx"
  by (induction b mx n s rule: parse_uint_loop.induct) (auto split: option.splits if_splits)

subsection \<open>Digits as characters\<close>

definition char10 :: "nat \<Rightarrow> char" where
  "char10 d = char_of (48 + d)"

definition char36 :: "nat \<Rightarrow> char" where
  "char36 d = (if d < 10 then char_of (48 + d) else char_of (55 + d))"

lemma of_char_char_of: "n < 256 \<Longrightarrow> of_char (char_of n :: char) = (n :: nat)"
  by (simp add: of_char_of)

lemma digit_val_char10 [simp]: "d < 10 \<Longrightarrow> digit_val (char10 d) = Some d"
  by (simp add: digit_val_def char10_def of_char_char_of)

lemma digit_val_char36 [simp]: "d < 36 \<Longrightarrow> digit_val (char36 d) = Some d"
  by (auto simp: digit_val_def char36_def of_char_char_of Let_def)

lemma digit_val_10D: "digit_val c = Some d \<Longrightarrow> d < 10 \<Longrightarrow> c = char10 d"
  by (auto simp: digit_val_def char10_def Let_def split: if_splits)

lemma digit_vals_10: 
  "\<forall>c \<in> set s. \<exists>d. digit_val c = Some d \<and> d < 10 \<Longrightarrow> s = map char10 (map (the \<circ> digit_val) s)"
  by (induction s) (auto dest: digit_val_10D)

lemma map_digit_val_char10 [simp]:
  "\<forall>d \<in> set ds. d < 10 \<Longrightarrow> map (the \<circ> digit_val) (map char10 ds) = ds"
  by (induction ds) auto

lemma map_digit_val_char36 [simp]:
  "\<forall>d \<in> set ds. d < 36 \<Longrightarrow> map (the \<circ> digit_val) (map char36 ds) = ds"
  by (induction ds) auto

lemma digit_byte_char10: "unat d < 10 \<Longrightarrow> digit_byte d = char10 (unat d)"
proof -
  assume d: "unat d < 10"
  have u: "unat (ucast d :: 8 word) = unat d"
    using d by (simp add: unsigned_ucast_eq take_bit_nat_eq_self)
  have "unat ((ucast d :: 8 word) + 48) = unat d + 48"
    using d u by (subst unat_add_lem [THEN iffD1]) simp_all
  then show ?thesis by (simp add: digit_byte_def char10_def add.commute)
qed

subsection \<open>The printer produces the decimal digits\<close>

lemma digits_add: "digits b (j + k) n = digits b j (n div b ^ k) @ digits b k n"
  by (induction k arbitrary: n) (auto simp: div_mult2_eq)

lemma digits_mod: "digits b k (n mod b ^ k) = digits b k n"
proof (induction k arbitrary: n)
  case 0
  then show ?case by simp
next
  case (Suc k)
  have "n mod (b * b ^ k) div b = n div b mod b ^ k"
    by (cases "b = 0") (simp_all add: mod_mult2_eq)
  moreover have "n mod (b * b ^ k) mod b = n mod b"
    by (simp add: mod_mod_cancel)
  ultimately show ?case using Suc [of "n div b"] by simp
qed

lemma digits_2: "c < 100 \<Longrightarrow> digits 10 2 c = [c div 10, c mod 10]"
  by (simp add: numeral_2_eq_2)

text \<open>Splitting a number of \<open>2 * k\<close> digits into its two halves, as the printer does.\<close>

lemma digits_split:
  "n < b ^ (j + k) \<Longrightarrow> 0 < b \<Longrightarrow> m = j + k \<Longrightarrow>
   digits b m n = digits b j (n div b ^ k) @ digits b k (n mod b ^ k)"
  by (simp add: digits_add digits_mod)

text \<open>
  The powers of ten are spelled out: with many divisions by numerals in one goal, the
  arithmetic of the simplifier would split each of them.
\<close>

lemma digits_halves:
  assumes "n < p * q" and "p = b ^ j" and "q = b ^ k" and "0 < b" and "m = j + k"
  shows "digits b m n = digits b j (n div q) @ digits b k (n mod q)"
  unfolding assms(3,5) by (simp only: digits_add digits_mod)

lemma digits_4:
  assumes "c < 10000"
  shows "digits 10 4 c = [c div 100 div 10, c div 100 mod 10, c mod 100 div 10, c mod 100 mod 10]"
proof -
  have c: "c < 100 * 100" using assms by simp
  have h: "digits 10 4 c = digits 10 2 (c div 100) @ digits 10 2 (c mod 100)"
    by (rule digits_halves [OF c]) simp_all
  have "c div 100 < 100" "c mod 100 < 100"
    using c by (simp_all only: less_mult_imp_div_less mod_less_divisor zero_less_numeral)
  then show ?thesis by (simp only: h digits_2 append.simps)
qed

lemma digits_6:
  assumes "c < 1000000"
  shows "digits 10 6 c =
    [c div 100 div 100 div 10, c div 100 div 100 mod 10, c div 100 mod 100 div 10,
     c div 100 mod 100 mod 10, c mod 100 div 10, c mod 100 mod 10]"
proof -
  have c: "c < 10000 * 100" using assms by simp
  have h: "digits 10 6 c = digits 10 4 (c div 100) @ digits 10 2 (c mod 100)"
    by (rule digits_halves [OF c]) simp_all
  have "c div 100 < 10000" "c mod 100 < 100"
    using c by (simp_all only: less_mult_imp_div_less mod_less_divisor zero_less_numeral)
  then show ?thesis by (simp only: h digits_2 digits_4 append.simps)
qed

lemma digits_8:
  assumes "c < 100000000"
  shows "digits 10 8 c = digits 10 4 (c div 10000) @ digits 10 4 (c mod 10000)"
  by (rule digits_halves [of c 10000 10000]) (use assms in simp_all)

lemma digits_14:
  assumes "c < 100000000000000"
  shows "digits 10 14 c = digits 10 8 (c div 1000000) @ digits 10 6 (c mod 1000000)"
  by (rule digits_halves [of c 100000000 1000000]) (use assms in simp_all)

lemma date_bounds:
  fixes n :: nat
  assumes "n < 100000000000000"
  shows "n div 1000000 < 100000000" and "n div 1000000 div 10000 < 10000"
    and "n div 1000000 div 10000 div 100 < 100" and "n mod 1000000 < 1000000"
    and "n mod 1000000 div 100 div 100 < 100" and "m mod 10000 div 100 < (100::nat)"
    and "m mod 10000 < (10000::nat)"
proof -
  show a: "n div 1000000 < 100000000" by (rule less_mult_imp_div_less) (use assms in simp)
  show b: "n div 1000000 div 10000 < 10000" by (rule less_mult_imp_div_less) (use a in simp)
  show "n div 1000000 div 10000 div 100 < 100" by (rule less_mult_imp_div_less) (use b in simp)
  show c: "n mod 1000000 < 1000000" by simp
  show "n mod 1000000 div 100 div 100 < 100"
    by (rule less_mult_imp_div_less)+ (use c in simp)
  show d: "m mod 10000 < 10000" by simp
  show "m mod 10000 div 100 < 100" by (rule less_mult_imp_div_less) (use d in simp)
qed

lemma unat_IsValid: "IsValid z \<longleftrightarrow> 0 < unat z \<and> unat z \<le> maxZid"
  by (auto simp: IsValid_def maxZid_def word_less_nat_alt word_le_nat_alt)

lemma digit_byte_mod: "digit_byte (z mod 10) = char10 (unat z mod 10)"
proof -
  have "unat (z mod 10) = unat z mod 10" by (simp only: unat_mod unat_numeral take_bit_numeral_numeral) simp
  then show ?thesis using digit_byte_char10 [of "z mod 10"] by simp
qed

lemma digit_byte_div:
  assumes "unat z < 100"
  shows "digit_byte (z div 10) = char10 (unat z div 10)"
proof -
  have u: "unat (z div 10) = unat z div 10" by (simp add: unat_div)
  have "unat z div 10 < 10" by (rule less_mult_imp_div_less) (use assms in simp)
  then show ?thesis using digit_byte_char10 [of "z div 10"] u by (simp only:)
qed

lemma unat_div_mod_consts:
  fixes z :: "64 word"
  shows "unat (z div 1000000) = unat z div 1000000" "unat (z mod 1000000) = unat z mod 1000000"
    "unat (z div 10000) = unat z div 10000" "unat (z mod 10000) = unat z mod 10000"
    "unat (z div 100) = unat z div 100" "unat (z mod 100) = unat z mod 100"
  by (simp_all add: unat_div unat_mod)

lemma zid_String_digits:
  assumes "unat z < 100000000000000"
  shows "zid_String z = map char10 (digits 10 14 (unat z))"
proof -
  note b = date_bounds [OF assms]
  have m: "\<And>x. x mod 100 < (100::nat)" by simp
  show ?thesis
    unfolding zid_String_def toByteArray_def Let_def digit_byte_mod
    by (simp only: digit_byte_div unat_div_mod_consts b m digits_14 [OF assms] digits_8 digits_4
        digits_6 append.simps list.map)
qed

lemma zid_String_length: "length (zid_String z) = 14"
  by (simp add: zid_String_def toByteArray_def Let_def)

section \<open>Round trips\<close>

lemma parse_char10_digits:
  assumes "0 < n" and "n \<le> maxZid"
  shows "ParseUint (map char10 (digits 10 14 n)) = Inr n"
proof -
  let ?s = "map char10 (digits 10 14 n)"
  have d: "\<forall>d \<in> set (digits 10 14 n). d < 10" by (auto intro: digits_less)
  have v: "map (the \<circ> digit_val) ?s = digits 10 14 n" using d by (rule map_digit_val_char10)
  have h: "horner 10 0 (digits 10 14 n) = n"
    using assms by (simp add: horner_digits maxZid_def)
  have "parse_uint_loop 10 (2 ^ 47 - 1) 0 ?s = Inr (horner 10 0 (map (the \<circ> digit_val) ?s))"
    by (rule parse_uint_loop_horner) (use d v h assms in \<open>auto simp: maxZid_def\<close>)
  then have "parse_uint_loop 10 (2 ^ 47 - 1) 0 ?s = Inr n" by (simp only: v h)
  moreover have "?s \<noteq> []" by (metis length_digits length_map list.size(3) zero_neq_numeral)
  ultimately show ?thesis
    using assms by (simp add: ParseUint_def strconv_ParseUint_def)
qed

lemma Parse_String:
  assumes "IsValid z"
  shows "Parse (zid_String z) = Inr z"
proof -
  have z: "0 < unat z" "unat z \<le> maxZid" using assms by (auto simp: unat_IsValid)
  then have s: "zid_String z = map char10 (digits 10 14 (unat z))"
    by (intro zid_String_digits) (simp add: maxZid_def)
  show ?thesis using parse_char10_digits [OF z] by (simp add: Parse_def s)
qed

lemma ParseUint_Inr:
  assumes "ParseUint s = Inr n"
  shows "0 < n" "n \<le> maxZid" "s = map char10 (map (the \<circ> digit_val) s)"
    "n = horner 10 0 (map (the \<circ> digit_val) s)"
    "\<forall>d \<in> set (map (the \<circ> digit_val) s). d < 10"
proof -
  have l: "parse_uint_loop 10 (2 ^ 47 - 1) 0 s = Inr n" and "0 < n" "n \<le> maxZid"
    using assms by (auto simp: ParseUint_def strconv_ParseUint_def split: sum.splits if_splits)
  then show "0 < n" "n \<le> maxZid" by simp_all
  note p = parse_uint_loop_Inr [OF l]
  show "s = map char10 (map (the \<circ> digit_val) s)" using p digit_vals_10 by blast
  show "n = horner 10 0 (map (the \<circ> digit_val) s)" using p by simp
  show "\<forall>d \<in> set (map (the \<circ> digit_val) s). d < 10" using p by fastforce
qed

lemma unat_of_nat_zid: "n \<le> maxZid \<Longrightarrow> unat (of_nat n :: zid) = n"
  by (simp add: maxZid_def unat_of_nat)

lemma String_Parse:
  assumes "Parse s = Inr z"
  shows "zid_String z = s" and "IsValid z"
proof -
  obtain n where n: "ParseUint s = Inr n" "z = of_nat n" "length s = 14"
    using assms by (auto simp: Parse_def split: sum.splits if_splits)
  note p = ParseUint_Inr [OF n(1)]
  have u: "unat z = n" using unat_of_nat_zid [OF p(2)] n(2) by simp
  show "IsValid z" using p(1,2) u by (simp add: unat_IsValid)
  have "unat z < 100000000000000" using p(2) u by (simp add: maxZid_def)
  then have "zid_String z = map char10 (digits 10 14 n)" using u zid_String_digits by simp
  also have "digits 10 14 n = map (the \<circ> digit_val) s"
    using digits_horner [OF p(5)] p(4) n(3) by simp
  finally show "zid_String z = s" using p(3) by simp
qed

text \<open>
  C1: the parser accepts exactly the printed forms of the valid identifiers: \<open>Parse\<close> returns
  \<open>z\<close> on \<open>s\<close> if and only if \<open>z\<close> is valid and \<open>s\<close> is the 14-digit string that \<open>String\<close>
  prints for it. So printing and parsing are inverse to each other in both directions.
\<close>

theorem Parse_iff: "Parse s = Inr z \<longleftrightarrow> IsValid z \<and> zid_String z = s"
  using Parse_String String_Parse by blast

subsection \<open>Base 36\<close>

lemma digitsN_char36: "k < 36 \<Longrightarrow> digitsN ! k = char36 k"
proof -
  have "\<forall>k \<in> set [0..<36]. digitsN ! k = char36 k" by code_simp
  then show "k < 36 \<Longrightarrow> digitsN ! k = char36 k" by auto
qed

lemma digitN_less: "unat d < 36 \<Longrightarrow> digitN d = Some (char36 (unat d))"
  by (simp add: digitN_def digitsN_char36) (simp add: digitsN_def)

lemma unat_IsValidN: "IsValidN z \<longleftrightarrow> 0 < unat z \<and> unat z \<le> maxZidN"
  by (auto simp: IsValidN_def maxZidN_def word_less_nat_alt word_le_nat_alt)

lemma digits36_2: "c < 1296 \<Longrightarrow> digits 36 2 c = [c div 36, c mod 36]"
proof -
  assume c: "c < 1296"
  have "c div 36 < 36" by (rule less_mult_imp_div_less) (use c in simp)
  then show ?thesis by (simp add: numeral_2_eq_2)
qed

lemma digits36_4:
  assumes "c < 1679616"
  shows "digits 36 4 c = [c div 1296 div 36, c div 1296 mod 36, c mod 1296 div 36, c mod 1296 mod 36]"
proof -
  have c: "c < 1296 * 1296" using assms by simp
  have h: "digits 36 4 c = digits 36 2 (c div 1296) @ digits 36 2 (c mod 1296)"
    by (rule digits_halves [OF c]) simp_all
  have "c div 1296 < 1296" "c mod 1296 < 1296"
    using c by (simp_all only: less_mult_imp_div_less mod_less_divisor zero_less_numeral)
  then show ?thesis by (simp only: h digits36_2 append.simps)
qed

lemma zidN_String_digits:
  assumes "unat z < 1679616"
  shows "zidN_String z = Some (map char36 (digits 36 4 (unat z)))"
proof -
  have u: "unat (z div 1296) = unat z div 1296" "unat (z mod 1296) = unat z mod 1296"
    "\<And>y::zidN. unat (y div 36) = unat y div 36" "\<And>y::zidN. unat (y mod 36) = unat y mod 36"
    by (simp_all add: unat_div unat_mod)
  have b: "unat z div 1296 div 36 < 36" "unat z mod 1296 div 36 < 36" "\<And>x. x mod 36 < (36::nat)"
  proof -
    have "unat z div 1296 < 36 * 36" by (rule less_mult_imp_div_less) (use assms in simp)
    then show "unat z div 1296 div 36 < 36" by (rule less_mult_imp_div_less)
    have "unat z mod 1296 < 36 * 36" by simp
    then show "unat z mod 1296 div 36 < 36" by (rule less_mult_imp_div_less)
  qed simp
  have sq: "(36 * 36 :: zidN) = 1296" by simp
  show ?thesis
    unfolding zidN_String_def toByteArrayN_def Let_def sq
    by (simp only: digitN_less u b digits36_4 [OF assms] list.map those.simps option.case option.map)
qed

lemma ParseN_StringN:
  assumes "IsValidN z"
  shows "\<exists>s. zidN_String z = Some s \<and> length s = 4 \<and> ParseN s = Inr z"
proof -
  let ?n = "unat z" and ?s = "map char36 (digits 36 4 (unat z))"
  have n: "0 < ?n" "?n \<le> maxZidN" using assms by (auto simp: unat_IsValidN)
  have d: "\<forall>d \<in> set (digits 36 4 ?n). d < 36" by (auto intro: digits_less)
  have v: "map (the \<circ> digit_val) ?s = digits 36 4 ?n" using d by (rule map_digit_val_char36)
  have h: "horner 36 0 (digits 36 4 ?n) = ?n"
    using n by (simp add: horner_digits maxZidN_def)
  have "parse_uint_loop 36 (2 ^ 21 - 1) 0 ?s = Inr (horner 36 0 (map (the \<circ> digit_val) ?s))"
    by (rule parse_uint_loop_horner) (use d v h n in \<open>auto simp: maxZidN_def\<close>)
  then have "parse_uint_loop 36 (2 ^ 21 - 1) 0 ?s = Inr ?n" by (simp only: v h)
  moreover have "?s \<noteq> []" by (metis length_digits length_map list.size(3) zero_neq_numeral)
  ultimately have "ParseUintN ?s = Inr ?n"
    using n by (simp add: ParseUintN_def strconv_ParseUint_def)
  then have "ParseN ?s = Inr z" by (simp add: ParseN_def)
  moreover have "zidN_String z = Some ?s" using n by (intro zidN_String_digits) (simp add: maxZidN_def)
  ultimately show ?thesis by simp
qed

text \<open>The ASCII upper case of a character.\<close>

definition ascii_upper :: "char \<Rightarrow> char" where
  "ascii_upper c = (if 97 \<le> (of_char c :: nat) \<and> (of_char c :: nat) \<le> 122
     then char_of ((of_char c :: nat) - 32) else c)"

lemma digit_val_upper: "digit_val (ascii_upper c) = digit_val c"
  by (auto simp: digit_val_def ascii_upper_def Let_def of_char_char_of)

lemma upper_char36: "digit_val c = Some d \<Longrightarrow> d < 36 \<and> ascii_upper c = char36 d"
  by (auto simp: digit_val_def ascii_upper_def char36_def Let_def split: if_splits)

lemma upper_digit_vals:
  "\<forall>c \<in> set s. \<exists>d. digit_val c = Some d \<and> d < 36 \<Longrightarrow>
   map ascii_upper s = map char36 (map (the \<circ> digit_val) s)"
  by (induction s) (auto dest: upper_char36)

lemma parse_uint_loop_upper: "parse_uint_loop b mx n (map ascii_upper s) = parse_uint_loop b mx n s"
  by (induction b mx n s rule: parse_uint_loop.induct)
    (auto simp: digit_val_upper split: option.splits)

lemma ParseN_upper: "ParseN (map ascii_upper s) = ParseN s"
  by (simp add: ParseN_def ParseUintN_def strconv_ParseUint_def parse_uint_loop_upper)

lemma String_ParseN:
  assumes "ParseN s = Inr z"
  shows "IsValidN z \<and> zidN_String z = Some (map ascii_upper s)"
proof -
  obtain n where n: "ParseUintN s = Inr n" "z = of_nat n" "length s = 4"
    using assms by (auto simp: ParseN_def split: sum.splits if_splits)
  then have l: "parse_uint_loop 36 (2 ^ 21 - 1) 0 s = Inr n" and r: "0 < n" "n \<le> maxZidN"
    by (auto simp: ParseUintN_def strconv_ParseUint_def split: sum.splits if_splits)
  note p = parse_uint_loop_Inr [OF l]
  have u: "unat z = n" using r(2) n(2) by (simp add: maxZidN_def unat_of_nat)
  have "unat z < 1679616" using r(2) u by (simp add: maxZidN_def)
  then have "zidN_String z = Some (map char36 (digits 36 4 n))" using u zidN_String_digits by simp
  also have "digits 36 4 n = map (the \<circ> digit_val) s"
    using digits_horner [of "map (the \<circ> digit_val) s" 36] p n(3) by fastforce
  also have "map char36 (map (the \<circ> digit_val) s) = map ascii_upper s"
    using upper_digit_vals p by metis
  finally show ?thesis using r u by (simp add: unat_IsValidN)
qed

text \<open>
  the four-character identifiers round trip up to letter case: \<open>ParseN\<close> returns \<open>z\<close> on
  \<open>s\<close> if and only if \<open>z\<close> is valid and its printed form, which never panics for a valid
  identifier, is \<open>s\<close> in upper case.
\<close>

lemma ParseN_iff: "ParseN s = Inr z \<longleftrightarrow> IsValidN z \<and> zidN_String z = Some (map ascii_upper s)"
  using ParseN_StringN [of z] String_ParseN [of s z] ParseN_upper [of s] by auto

section \<open>The textual order is the numeric order\<close>

lemma char10_less [simp]: "d < 10 \<Longrightarrow> e < 10 \<Longrightarrow> char10 d < char10 e \<longleftrightarrow> d < e"
  by (simp add: char10_def less_char_def of_char_char_of)

lemma char10_eq [simp]: "d < 10 \<Longrightarrow> e < 10 \<Longrightarrow> char10 d = char10 e \<longleftrightarrow> d = e"
  by (metis digit_val_char10 option.inject)

lemma append_less_same_length:
  fixes xs ys :: "'a::linorder list"
  assumes "length xs = length ys"
  shows "xs @ [x] < ys @ [y] \<longleftrightarrow> xs < ys \<or> xs = ys \<and> x < y"
  using assms by (induction xs ys rule: list_induct2) auto

lemma less_by_digits:
  "(r::nat) < 10 \<Longrightarrow> t < 10 \<Longrightarrow> q * 10 + r < p * 10 + t \<longleftrightarrow> q < p \<or> q = p \<and> r < t"
  by linarith

lemma digits_less_iff:
  "n < 10 ^ k \<Longrightarrow> m < 10 ^ k \<Longrightarrow> map char10 (digits 10 k n) < map char10 (digits 10 k m) \<longleftrightarrow> n < m"
proof (induction k arbitrary: n m)
  case 0
  then show ?case by simp
next
  case (Suc k)
  have b: "n div 10 < 10 ^ k" "m div 10 < 10 ^ k"
    using Suc.prems by (auto intro!: less_mult_imp_div_less simp: mult.commute)
  have inj: "map char10 (digits 10 k (n div 10)) = map char10 (digits 10 k (m div 10)) \<longleftrightarrow> n div 10 = m div 10"
    using Suc.IH [OF b] Suc.IH [OF b(2) b(1)] by (metis less_irrefl linorder_neqE_nat)
  have "map char10 (digits 10 (Suc k) n) < map char10 (digits 10 (Suc k) m) \<longleftrightarrow>
      n div 10 < m div 10 \<or> n div 10 = m div 10 \<and> n mod 10 < m mod 10"
    by (simp add: append_less_same_length Suc.IH [OF b] inj)
  also have "\<dots> \<longleftrightarrow> n < m"
    using less_by_digits [of "n mod 10" "m mod 10" "n div 10" "m div 10"]
    by (simp only: div_mult_mod_eq mod_less_divisor zero_less_numeral simp_thms)
  finally show ?case .
qed

text \<open>
  comparing the printed forms of two valid identifiers as strings, as the query language
  does, gives the order of their numbers.
\<close>

lemma String_less_iff:
  assumes "IsValid y" and "IsValid z"
  shows "zid_String y < zid_String z \<longleftrightarrow> y < z"
proof -
  have "unat y < 100000000000000" "unat z < 100000000000000"
    using assms by (auto simp: unat_IsValid maxZid_def)
  then show ?thesis
    by (simp add: zid_String_digits digits_less_iff word_less_nat_alt)
qed

theorem String_less_iff_witness:
  "zid_String 20240101000000 < zid_String 20241231235959"
proof -
  have "IsValid 20240101000000" "IsValid 20241231235959" by (simp_all add: IsValid_def)
  then show ?thesis using String_less_iff [of 20240101000000 20241231235959] by simp
qed

end
