(* ===== verification/IdSet.thy ===== *)
theory IdSet
  imports Zid "HOL-Library.Product_Lexorder"
begin

text \<open>
  Sets of zettel identifiers, \<open>zettel/id/set.go\<close>, and the slices and edge slices of
  \<open>slice.go\<close> and \<open>edge.go\<close>. A \<open>*Set\<close> is \<open>nil\<close> (\<open>None\<close>) or points to a slice that every
  operation keeps strictly ascending; binary search and the in-place merge loops are
  translated with their indices. The interface locales \<open>zid_set\<close> and \<open>zid_set_algebra\<close>
  state what the other components rely on.
\<close>

type_synonym idset = "zid list option"

section \<open>Slices, \<open>slice.go\<close>\<close>

type_synonym idslice = "zid list"

definition Slice_Sort :: "idslice \<Rightarrow> idslice" where
  "Slice_Sort zs = sort zs"

definition Slice_Equal :: "idslice \<Rightarrow> idslice \<Rightarrow> bool" where
  "Slice_Equal zs other \<longleftrightarrow> zs = other"

text \<open>The loop of \<open>MetaString\<close>: a space before every element but the first.\<close>

fun meta_string_loop :: "bool \<Rightarrow> zid list \<Rightarrow> string" where
  "meta_string_loop first [] = []"
| "meta_string_loop first (zid # zids) =
     (if first then [] else '' '') @ zid_String zid @ meta_string_loop False zids"

definition Slice_MetaString :: "idslice \<Rightarrow> string" where
  "Slice_MetaString zs = (if zs = [] then [] else meta_string_loop True zs)"

section \<open>Base operations, \<open>set.go\<close>\<close>

text \<open>\<open>find\<close>: binary search in \<open>[lo, hi)\<close>; the position and whether it was found.\<close>

function find_loop :: "zid list \<Rightarrow> zid \<Rightarrow> nat \<Rightarrow> nat \<Rightarrow> nat \<times> bool" where
  "find_loop seq zid lo hi =
     (if lo < hi then
        let m = lo + (hi - lo) div 2; z = seq ! m in
        if z = zid then (m, True)
        else if z < zid then find_loop seq zid (m + 1) hi
        else find_loop seq zid lo m
      else (hi, False))"
  by pat_completeness auto
termination
  by (relation "measure (\<lambda>(seq, zid, lo, hi). hi - lo)") auto

declare find_loop.simps [simp del]

definition Set_find :: "zid list \<Rightarrow> zid \<Rightarrow> nat \<times> bool" where
  "Set_find seq zid = find_loop seq zid 0 (length seq)"

definition Set_contains :: "zid list \<Rightarrow> zid \<Rightarrow> bool" where
  "Set_contains seq zid = (let (pos, found) = Set_find seq zid in found)"

text \<open>\<open>slices.Insert(s, i, v)\<close>.\<close>

definition slices_Insert :: "'a list \<Rightarrow> nat \<Rightarrow> 'a \<Rightarrow> 'a list" where
  "slices_Insert s i v = take i s @ v # drop i s"

definition Set_add :: "zid list \<Rightarrow> zid \<Rightarrow> zid list" where
  "Set_add seq zid =
     (let (pos, found) = Set_find seq zid in if \<not> found then slices_Insert seq pos zid else seq)"

fun add_all :: "zid list \<Rightarrow> zid list \<Rightarrow> zid list" where
  "add_all seq [] = seq"
| "add_all seq (zid # zids) = add_all (Set_add seq zid) zids"

section \<open>The methods of \<open>*Set\<close>\<close>

definition NewSet :: "zid list \<Rightarrow> idset" where
  "NewSet zids = (case zids of [] \<Rightarrow> Some [] | [z] \<Rightarrow> Some [z] | _ \<Rightarrow> Some (add_all [] zids))"

definition NewSetCap :: "zid list \<Rightarrow> idset" where
  "NewSetCap zids = Some (add_all [] zids)"

definition Set_MetaString :: "idset \<Rightarrow> string" where
  "Set_MetaString s =
     (case s of None \<Rightarrow> [] | Some seq \<Rightarrow> if seq = [] then [] else meta_string_loop True seq)"

definition Set_String :: "idset \<Rightarrow> string" where
  "Set_String s = ''{'' @ Set_MetaString s @ ''}''"

definition Set_IsEmpty :: "idset \<Rightarrow> bool" where
  "Set_IsEmpty s \<longleftrightarrow> (case s of None \<Rightarrow> True | Some seq \<Rightarrow> length seq = 0)"

definition Set_Length :: "idset \<Rightarrow> nat" where
  "Set_Length s = (case s of None \<Rightarrow> 0 | Some seq \<Rightarrow> length seq)"

definition Set_Clone :: "idset \<Rightarrow> idset" where
  "Set_Clone s = (case s of None \<Rightarrow> None | Some seq \<Rightarrow> if length seq = 0 then None else Some seq)"

definition Set_Add :: "idset \<Rightarrow> zid \<Rightarrow> idset" where
  "Set_Add s zid = (case s of None \<Rightarrow> NewSet [zid] | Some seq \<Rightarrow> Some (Set_add seq zid))"

definition Set_Contains :: "idset \<Rightarrow> zid \<Rightarrow> bool" where
  "Set_Contains s zid \<longleftrightarrow> (case s of None \<Rightarrow> False | Some seq \<Rightarrow> Set_contains seq zid)"

definition Set_ContainsOrNil :: "idset \<Rightarrow> zid \<Rightarrow> bool" where
  "Set_ContainsOrNil s zid \<longleftrightarrow> (case s of None \<Rightarrow> True | Some seq \<Rightarrow> Set_contains seq zid)"

definition Set_AddSlice :: "idset \<Rightarrow> idslice \<Rightarrow> idset" where
  "Set_AddSlice s sl = (case s of None \<Rightarrow> NewSet sl | Some seq \<Rightarrow> Some (add_all seq sl))"

definition Set_SafeSorted :: "idset \<Rightarrow> idslice" where
  "Set_SafeSorted s = (case s of None \<Rightarrow> [] | Some seq \<Rightarrow> seq)"

text \<open>
  The loop of \<open>IntersectOrSet\<close> writes the common elements to the front of the receiver's
  slice while it reads it, and cuts the slice at \<open>topos\<close> at the end.
\<close>

function intersect_loop :: "zid list \<Rightarrow> zid list \<Rightarrow> nat \<Rightarrow> nat \<Rightarrow> nat \<Rightarrow> zid list" where
  "intersect_loop seq oseq topos spos opos =
     (if spos < length seq \<and> opos < length oseq then
        let sz = seq ! spos; oz = oseq ! opos in
        if sz < oz then intersect_loop seq oseq topos (spos + 1) opos
        else if sz > oz then intersect_loop seq oseq topos spos (opos + 1)
        else intersect_loop (seq[topos := sz]) oseq (topos + 1) (spos + 1) (opos + 1)
      else take topos seq)"
  by pat_completeness auto
termination
  by (relation "measure (\<lambda>(seq, oseq, topos, spos, opos).
        (length seq - spos) + (length oseq - opos))") auto

declare intersect_loop.simps [simp del]

definition Set_IntersectOrSet :: "idset \<Rightarrow> idset \<Rightarrow> idset" where
  "Set_IntersectOrSet s other =
     (case s of None \<Rightarrow> other
      | Some seq \<Rightarrow> (case other of None \<Rightarrow> other
                     | Some oseq \<Rightarrow> Some (intersect_loop seq oseq 0 0 0)))"

definition Set_IUnion :: "idset \<Rightarrow> idset \<Rightarrow> idset" where
  "Set_IUnion s other =
     (case other of None \<Rightarrow> s
      | Some oseq \<Rightarrow> if length oseq = 0 then s else Set_AddSlice s oseq)"

text \<open>The two loops of \<open>ISubstract\<close>.\<close>

function copy_rest :: "zid list \<Rightarrow> nat \<Rightarrow> nat \<Rightarrow> zid list" where
  "copy_rest seq topos spos =
     (if spos < length seq then copy_rest (seq[topos := seq ! spos]) (topos + 1) (spos + 1)
      else take topos seq)"
  by pat_completeness auto
termination
  by (relation "measure (\<lambda>(seq, topos, spos). length seq - spos)") auto

declare copy_rest.simps [simp del]

function substract_loop :: "zid list \<Rightarrow> zid list \<Rightarrow> nat \<Rightarrow> nat \<Rightarrow> nat \<Rightarrow> zid list" where
  "substract_loop seq oseq topos spos opos =
     (if spos < length seq \<and> opos < length oseq then
        let sz = seq ! spos; oz = oseq ! opos in
        if sz < oz then substract_loop (seq[topos := sz]) oseq (topos + 1) (spos + 1) opos
        else substract_loop seq oseq topos (if sz = oz then spos + 1 else spos) (opos + 1)
      else copy_rest seq topos spos)"
  by pat_completeness auto
termination
  by (relation "measure (\<lambda>(seq, oseq, topos, spos, opos).
        (length seq - spos) + (length oseq - opos))") auto

declare substract_loop.simps [simp del]

text \<open>\<open>ISubstract\<close> changes its receiver: the value is the receiver afterwards.\<close>

definition Set_ISubstract :: "idset \<Rightarrow> idset \<Rightarrow> idset" where
  "Set_ISubstract s other =
     (case (s, other) of
        (Some seq, Some oseq) \<Rightarrow>
          if length seq = 0 \<or> length oseq = 0 then s else Some (substract_loop seq oseq 0 0 0)
      | _ \<Rightarrow> s)"

definition newFromSlice :: "idslice \<Rightarrow> idset" where
  "newFromSlice seq = (if length seq = 0 then None else Some seq)"

text \<open>The loop of \<open>Diff\<close>: elements of \<open>seqO\<close> only, elements of \<open>seqS\<close> only.\<close>

function diff_loop :: "zid list \<Rightarrow> zid list \<Rightarrow> nat \<Rightarrow> nat \<Rightarrow> zid list \<Rightarrow> zid list
    \<Rightarrow> zid list \<times> zid list" where
  "diff_loop seqO seqS npos opos newRefs remRefs =
     (if npos < length seqO \<and> opos < length seqS then
        let rn = seqO ! npos; ro = seqS ! opos in
        if rn = ro then diff_loop seqO seqS (npos + 1) (opos + 1) newRefs remRefs
        else if rn < ro then diff_loop seqO seqS (npos + 1) opos (newRefs @ [rn]) remRefs
        else diff_loop seqO seqS npos (opos + 1) newRefs (remRefs @ [ro])
      else (if npos < length seqO then newRefs @ drop npos seqO else newRefs,
            if opos < length seqS then remRefs @ drop opos seqS else remRefs))"
  by pat_completeness auto
termination
  by (relation "measure (\<lambda>(seqO, seqS, npos, opos, newRefs, remRefs).
        (length seqO - npos) + (length seqS - opos))") auto

declare diff_loop.simps [simp del]

definition Set_Diff :: "idset \<Rightarrow> idset \<Rightarrow> idset \<times> idset" where
  "Set_Diff s other =
     (if Set_IsEmpty s then (Set_Clone other, None)
      else if Set_IsEmpty other then (None, Set_Clone s)
      else let (newRefs, remRefs) =
             diff_loop (Set_SafeSorted other) (Set_SafeSorted s) 0 0 [] []
           in (newFromSlice newRefs, newFromSlice remRefs))"

text \<open>
  \<open>Remove\<close> returns the receiver, or \<open>nil\<close> when nothing is left; \<open>copy\<close> and the cut take the
  element at \<open>pos\<close> out.
\<close>

definition Set_Remove :: "idset \<Rightarrow> zid \<Rightarrow> idset" where
  "Set_Remove s zid =
     (case s of None \<Rightarrow> None
      | Some seq \<Rightarrow>
          if length seq = 0 then None
          else let (pos, found) = Set_find seq zid;
                   seq' = (if found then take pos seq @ drop (pos + 1) seq else seq)
               in if length seq' = 0 then None else Some seq')"

definition Set_Equal :: "idset \<Rightarrow> idset \<Rightarrow> bool" where
  "Set_Equal s other \<longleftrightarrow>
     (case s of None \<Rightarrow> other = None
      | Some seq \<Rightarrow> (case other of None \<Rightarrow> False | Some oseq \<Rightarrow> seq = oseq))"

text \<open>\<open>ForEach\<close> calls the function on every element in ascending order.\<close>

definition Set_ForEach :: "idset \<Rightarrow> (zid \<Rightarrow> 's \<Rightarrow> 's) \<Rightarrow> 's \<Rightarrow> 's" where
  "Set_ForEach s fn st = (case s of None \<Rightarrow> st | Some seq \<Rightarrow> fold fn seq st)"

text \<open>\<open>Pop\<close>: the identifier, whether there was one, and the receiver afterwards.\<close>

definition Set_Pop :: "idset \<Rightarrow> zid \<times> bool \<times> idset" where
  "Set_Pop s =
     (case s of None \<Rightarrow> (Invalid, False, s)
      | Some seq \<Rightarrow>
          let l = length seq in
          if l > 0 then (seq ! (l - 1), True, Some (take (l - 1) seq)) else (Invalid, False, s))"

section \<open>Edges, \<open>edge.go\<close>\<close>

type_synonym edge = "zid \<times> zid"

text \<open>\<open>EdgeSlice.Sort\<close> compares the origin first, then the target.\<close>

definition edge_cmp :: "edge \<Rightarrow> edge \<Rightarrow> int" where
  "edge_cmp e1 e2 =
     (if fst e1 < fst e2 then -1 else if fst e1 > fst e2 then 1
      else if snd e1 < snd e2 then -1 else if snd e1 > snd e2 then 1 else 0)"

definition EdgeSlice_Sort :: "edge list \<Rightarrow> edge list" where
  "EdgeSlice_Sort es = sort es"

definition EdgeSlice_Equal :: "edge list \<Rightarrow> edge list \<Rightarrow> bool" where
  "EdgeSlice_Equal es other \<longleftrightarrow> es = other"

lemma edge_cmp_order: "edge_cmp e1 e2 < 0 \<longleftrightarrow> e1 < e2" "edge_cmp e1 e2 = 0 \<longleftrightarrow> e1 = e2"
  by (auto simp: edge_cmp_def less_prod_def prod_eq_iff)

section \<open>Representation invariant and abstraction\<close>

definition set_inv :: "idset \<Rightarrow> bool" where
  "set_inv s \<longleftrightarrow> (case s of None \<Rightarrow> True | Some seq \<Rightarrow> asc seq)"

definition elems :: "idset \<Rightarrow> zid set" where
  "elems s = (case s of None \<Rightarrow> {} | Some seq \<Rightarrow> set seq)"

lemma set_inv_simps [simp]: "set_inv None" "set_inv (Some seq) \<longleftrightarrow> asc seq"
  by (simp_all add: set_inv_def)

lemma elems_simps [simp]: "elems None = {}" "elems (Some seq) = set seq"
  by (simp_all add: elems_def)

lemma finite_elems [simp]: "finite (elems s)"
  by (cases s) auto

section \<open>Binary search\<close>

lemma find_loop_step:
  assumes "lo < hi"
  obtains m where "lo \<le> m" "m < hi"
    "find_loop seq zid lo hi =
       (if seq ! m = zid then (m, True)
        else if seq ! m < zid then find_loop seq zid (m + 1) hi else find_loop seq zid lo m)"
proof
  show "lo \<le> lo + (hi - lo) div 2" "lo + (hi - lo) div 2 < hi" using assms by auto
  show "find_loop seq zid lo hi =
    (if seq ! (lo + (hi - lo) div 2) = zid then (lo + (hi - lo) div 2, True)
     else if seq ! (lo + (hi - lo) div 2) < zid then find_loop seq zid (lo + (hi - lo) div 2 + 1) hi
     else find_loop seq zid lo (lo + (hi - lo) div 2))"
    using assms by (subst find_loop.simps) (simp only: Let_def if_True)
qed

lemma asc_take_less:
  assumes "asc seq" and "m < length seq" and "seq ! m < (z::'a::linorder)"
  shows "\<forall>x \<in> set (take (Suc m) seq). x < z"
proof
  fix x assume "x \<in> set (take (Suc m) seq)"
  then obtain i where "i \<le> m" "x = seq ! i" by (auto simp: in_set_conv_nth less_Suc_eq_le)
  then show "x < z" using asc_nth_mono [OF assms(1) _ assms(2)] assms(3) by (auto intro: le_less_trans)
qed

lemma asc_drop_greater:
  assumes "asc seq" and "m < length seq" and "(z::'a::linorder) < seq ! m"
  shows "\<forall>x \<in> set (drop m seq). z < x"
proof
  fix x assume "x \<in> set (drop m seq)"
  then obtain i where "i < length seq - m" "x = seq ! (m + i)"
    by (auto simp: in_set_conv_nth)
  then show "z < x" using asc_nth_mono [OF assms(1), of m "m + i"] assms(3) by (auto intro: less_le_trans)
qed

lemma find_loop_correct:
  assumes "asc seq" and "lo \<le> hi" and "hi \<le> length seq"
    and "\<forall>x \<in> set (take lo seq). x < zid" and "\<forall>x \<in> set (drop hi seq). zid < x"
    and "find_loop seq zid lo hi = (p, found)"
  shows "(found \<longrightarrow> p < length seq \<and> seq ! p = zid) \<and>
    (\<not> found \<longrightarrow> p \<le> length seq \<and> (\<forall>x \<in> set (take p seq). x < zid) \<and> (\<forall>x \<in> set (drop p seq). zid < x))"
  using assms(2-)
proof (induction "hi - lo" arbitrary: lo hi rule: less_induct)
  case less
  show ?case
  proof (cases "lo < hi")
    case False
    then have "p = hi" "\<not> found" "lo = hi" using less.prems(1,5) by (auto simp: find_loop.simps)
    with less.prems show ?thesis by simp
  next
    case True
    then obtain m where m: "lo \<le> m" "m < hi" and eq: "find_loop seq zid lo hi =
       (if seq ! m = zid then (m, True)
        else if seq ! m < zid then find_loop seq zid (m + 1) hi else find_loop seq zid lo m)"
      by (rule find_loop_step)
    consider "seq ! m = zid" | "seq ! m < zid" | "zid < seq ! m" by fastforce
    then show ?thesis
    proof cases
      case 1
      with less.prems m eq show ?thesis by auto
    next
      case 2
      then have "find_loop seq zid (m + 1) hi = (p, found)"
        using less.prems(5) eq less_imp_neq [OF 2] by simp
      moreover have "\<forall>x \<in> set (take (m + 1) seq). x < zid"
        using asc_take_less [OF assms(1) _ 2] less.prems m by simp
      moreover have "hi - (m + 1) < hi - lo" "m + 1 \<le> hi" using m by arith+
      ultimately show ?thesis using less.hyps less.prems(2,4) by blast
    next
      case 3
      then have "find_loop seq zid lo m = (p, found)"
        using less.prems(5) eq less_not_sym [OF 3] less_imp_neq [OF 3, symmetric] by simp
      moreover have "\<forall>x \<in> set (drop m seq). zid < x"
        using asc_drop_greater [OF assms(1) _ 3] less.prems m by simp
      moreover have "m - lo < hi - lo" "m \<le> length seq" using m less.prems(2) by arith+
      ultimately show ?thesis using less.hyps less.prems(3) m(1) by blast
    qed
  qed
qed

lemma Set_find_cases:
  assumes "asc seq" and "Set_find seq zid = (p, found)"
  shows "found \<Longrightarrow> p < length seq \<and> seq ! p = zid"
    and "\<not> found \<Longrightarrow> p \<le> length seq \<and> (\<forall>x \<in> set (take p seq). x < zid) \<and> (\<forall>x \<in> set (drop p seq). zid < x)"
  using find_loop_correct [of seq 0 "length seq" zid p found] assms by (auto simp: Set_find_def)

lemma Set_find_found: "asc seq \<Longrightarrow> snd (Set_find seq zid) \<longleftrightarrow> zid \<in> set seq"
proof -
  assume a: "asc seq"
  obtain p found where f: "Set_find seq zid = (p, found)" by force
  have "zid \<notin> set seq" if "\<not> found"
  proof
    assume "zid \<in> set seq"
    then have "zid \<in> set (take p seq) \<union> set (drop p seq)" by (metis append_take_drop_id set_append)
    with Set_find_cases(2) [OF a f that] show False by auto
  qed
  with Set_find_cases(1) [OF a f] f show ?thesis by auto
qed

lemma Set_contains_iff [simp]: "asc seq \<Longrightarrow> Set_contains seq zid \<longleftrightarrow> zid \<in> set seq"
  using Set_find_found [of seq zid] by (auto simp: Set_contains_def Let_def split: prod.splits)

lemma Set_add_correct:
  assumes "asc seq"
  shows "asc (Set_add seq zid) \<and> set (Set_add seq zid) = insert zid (set seq)"
proof -
  obtain p found where f: "Set_find seq zid = (p, found)" by force
  show ?thesis
  proof (cases found)
    case True
    then show ?thesis using Set_find_cases(1) [OF assms f] assms f by (auto simp: Set_add_def)
  next
    case False
    have "set (take p seq) \<union> set (drop p seq) = set seq" by (metis append_take_drop_id set_append)
    then show ?thesis
      using Set_find_cases(2) [OF assms f False] assms f False
      by (auto simp: Set_add_def slices_Insert_def intro!: asc_insert_at)
  qed
qed

lemma add_all_correct:
  "asc seq \<Longrightarrow> asc (add_all seq zs) \<and> set (add_all seq zs) = set seq \<union> set zs"
  by (induction seq zs rule: add_all.induct) (auto simp: Set_add_correct)

section \<open>The merge loops\<close>

lemma intersect_loop_eq:
  assumes "asc (drop spos seq)" and "asc (drop opos oseq)" and "topos \<le> spos"
  shows "intersect_loop seq oseq topos spos opos =
    take topos seq @ filter (\<lambda>x. x \<in> set (drop opos oseq)) (drop spos seq)"
  using assms
proof (induction seq oseq topos spos opos rule: intersect_loop.induct)
  case (1 seq oseq topos spos opos)
  show ?case
  proof (cases "spos < length seq \<and> opos < length oseq")
    case False
    then show ?thesis by (auto simp: intersect_loop.simps [of seq oseq topos spos opos])
  next
    case True
    note d = drop_eq_Cons [of spos seq] drop_eq_Cons [of opos oseq]
    have asc': "asc (drop (Suc spos) seq)" "asc (drop (Suc opos) oseq)"
      using "1.prems"(1,2) True by (auto simp: d)
    note unf = intersect_loop.simps [of seq oseq topos spos opos] Let_def
    consider "seq ! spos < oseq ! opos" | "seq ! spos > oseq ! opos" | "seq ! spos = oseq ! opos"
      by fastforce
    then show ?thesis
    proof cases
      case 1
      then have "seq ! spos \<notin> set (drop opos oseq)"
        using "1.prems"(2) True by (auto simp: d)
      then show ?thesis
        using "1.IH"(1) [OF True refl refl 1] "1.prems" asc' True 1 by (simp add: unf d)
    next
      case 2
      have "\<forall>x \<in> set (drop spos seq). x \<noteq> oseq ! opos"
        using "1.prems"(1) True 2 by (auto simp: d)
      then have "filter (\<lambda>x. x \<in> set (drop opos oseq)) (drop spos seq) =
          filter (\<lambda>x. x \<in> set (drop (Suc opos) oseq)) (drop spos seq)"
        using True by (auto simp: d(2) intro!: filter_cong)
      then show ?thesis
        using "1.IH"(2) [OF True refl refl less_not_sym [OF 2] 2] "1.prems" asc' True 2 less_not_sym [OF 2]
        by (simp add: unf)
    next
      case 3
      have "filter (\<lambda>x. x \<in> set (drop opos oseq)) (drop (Suc spos) seq) =
          filter (\<lambda>x. x \<in> set (drop (Suc opos) oseq)) (drop (Suc spos) seq)"
        using "1.prems"(1) True 3 by (auto simp: d intro!: filter_cong)
      then show ?thesis
        using "1.IH"(3) [OF True refl refl] "1.prems" asc' True 3
        by (simp add: unf take_list_update_last d)
    qed
  qed
qed

lemma copy_rest_eq: "topos \<le> spos \<Longrightarrow> copy_rest seq topos spos = take topos seq @ drop spos seq"
proof (induction seq topos spos rule: copy_rest.induct)
  case (1 seq topos spos)
  then show ?case
    by (auto simp: copy_rest.simps [of seq topos spos] take_list_update_last drop_eq_Cons)
qed

lemma substract_loop_eq:
  assumes "asc (drop spos seq)" and "asc (drop opos oseq)" and "topos \<le> spos"
  shows "substract_loop seq oseq topos spos opos =
    take topos seq @ filter (\<lambda>x. x \<notin> set (drop opos oseq)) (drop spos seq)"
  using assms
proof (induction seq oseq topos spos opos rule: substract_loop.induct)
  case (1 seq oseq topos spos opos)
  show ?case
  proof (cases "spos < length seq \<and> opos < length oseq")
    case False
    then show ?thesis using 1
      by (auto simp: substract_loop.simps [of seq oseq topos spos opos] copy_rest_eq)
  next
    case True
    note d = drop_eq_Cons [of spos seq] drop_eq_Cons [of opos oseq]
    have asc': "asc (drop (Suc spos) seq)" "asc (drop (Suc opos) oseq)"
      using "1.prems"(1,2) True by (auto simp: d)
    note unf = substract_loop.simps [of seq oseq topos spos opos] Let_def
    consider "seq ! spos < oseq ! opos" | "seq ! spos > oseq ! opos" | "seq ! spos = oseq ! opos"
      by fastforce
    then show ?thesis
    proof cases
      case 1
      then have "seq ! spos \<notin> set (drop opos oseq)"
        using "1.prems"(2) True by (auto simp: d)
      then show ?thesis
        using "1.IH"(1) [OF True refl refl 1] "1.prems" asc' True 1
        by (simp add: unf take_list_update_last d)
    next
      case 2
      have "\<forall>x \<in> set (drop spos seq). x \<noteq> oseq ! opos"
        using "1.prems"(1) True 2 by (auto simp: d)
      then have "filter (\<lambda>x. x \<notin> set (drop opos oseq)) (drop spos seq) =
          filter (\<lambda>x. x \<notin> set (drop (Suc opos) oseq)) (drop spos seq)"
        using True by (auto simp: d(2) intro!: filter_cong)
      then show ?thesis
        using "1.IH"(2) [OF True refl refl less_not_sym [OF 2]] "1.prems" asc' True less_not_sym [OF 2]
          less_imp_neq [OF 2] by (simp add: unf)
    next
      case 3
      have "filter (\<lambda>x. x \<notin> set (drop opos oseq)) (drop (Suc spos) seq) =
          filter (\<lambda>x. x \<notin> set (drop (Suc opos) oseq)) (drop (Suc spos) seq)"
        using "1.prems"(1) True 3 by (auto simp: d intro!: filter_cong)
      then show ?thesis
        using "1.IH"(2) [OF True refl refl] "1.prems" asc' True 3 by (simp add: unf d)
    qed
  qed
qed

lemma diff_loop_eq:
  assumes "asc (drop npos seqO)" and "asc (drop opos seqS)"
  shows "diff_loop seqO seqS npos opos nr rr =
    (nr @ filter (\<lambda>x. x \<notin> set (drop opos seqS)) (drop npos seqO),
     rr @ filter (\<lambda>x. x \<notin> set (drop npos seqO)) (drop opos seqS))"
  using assms
proof (induction seqO seqS npos opos nr rr rule: diff_loop.induct)
  case (1 seqO seqS npos opos nr rr)
  show ?case
  proof (cases "npos < length seqO \<and> opos < length seqS")
    case False
    then show ?thesis by (auto simp: diff_loop.simps [of seqO seqS npos opos])
  next
    case True
    note d = drop_eq_Cons [of npos seqO] drop_eq_Cons [of opos seqS]
    have asc': "asc (drop (Suc npos) seqO)" "asc (drop (Suc opos) seqS)"
      using "1.prems" True by (auto simp: d)
    note unf = diff_loop.simps [of seqO seqS npos opos] Let_def
    consider "seqO ! npos = seqS ! opos" | "seqO ! npos < seqS ! opos" | "seqO ! npos > seqS ! opos"
      by fastforce
    then show ?thesis
    proof cases
      case 1
      have "filter (\<lambda>x. x \<notin> set (drop opos seqS)) (drop (Suc npos) seqO) =
          filter (\<lambda>x. x \<notin> set (drop (Suc opos) seqS)) (drop (Suc npos) seqO)"
        "filter (\<lambda>x. x \<notin> set (drop npos seqO)) (drop (Suc opos) seqS) =
          filter (\<lambda>x. x \<notin> set (drop (Suc npos) seqO)) (drop (Suc opos) seqS)"
        using "1.prems" True 1 by (auto simp: d intro!: filter_cong)
      then show ?thesis
        using "1.IH"(1) [OF True refl refl 1] asc' True 1 by (simp add: unf d)
    next
      case 2
      have "seqO ! npos \<notin> set (drop opos seqS)" using "1.prems"(2) True 2 by (auto simp: d)
      moreover have "filter (\<lambda>x. x \<notin> set (drop npos seqO)) (drop opos seqS) =
          filter (\<lambda>x. x \<notin> set (drop (Suc npos) seqO)) (drop opos seqS)"
        using "1.prems"(2) True 2 by (auto simp: d intro!: filter_cong)
      ultimately show ?thesis
        using "1.IH"(2) [OF True refl refl less_imp_neq [OF 2] 2] "1.prems" asc' True 2 less_imp_neq [OF 2]
        by (simp add: unf d(1))
    next
      case 3
      have "seqS ! opos \<notin> set (drop npos seqO)" using "1.prems"(1) True 3 by (auto simp: d)
      moreover have "filter (\<lambda>x. x \<notin> set (drop opos seqS)) (drop npos seqO) =
          filter (\<lambda>x. x \<notin> set (drop (Suc opos) seqS)) (drop npos seqO)"
        using "1.prems"(1) True 3 by (auto simp: d intro!: filter_cong)
      ultimately show ?thesis
        using "1.IH"(3) [OF True refl refl less_imp_neq [OF 3, symmetric] less_not_sym [OF 3]] "1.prems" asc'
          True 3 less_imp_neq [OF 3] less_not_sym [OF 3] by (simp add: unf d(2))
    qed
  qed
qed

section \<open>Every operation keeps the invariant and computes the set operation\<close>

named_theorems idset_correct \<open>what the set operations compute\<close>

lemma NewSet_correct [simp, idset_correct]: "set_inv (NewSet zs)" "elems (NewSet zs) = set zs"
  by (auto simp: NewSet_def add_all_correct Set_add_correct split: list.splits)

lemma NewSetCap_correct [simp, idset_correct]: "set_inv (NewSetCap zs)" "elems (NewSetCap zs) = set zs"
  by (simp_all add: NewSetCap_def add_all_correct)

lemma Set_IsEmpty_correct [idset_correct]: "Set_IsEmpty s \<longleftrightarrow> elems s = {}"
  by (auto simp: Set_IsEmpty_def split: option.splits)

lemma Set_Length_correct [idset_correct]: "set_inv s \<Longrightarrow> Set_Length s = card (elems s)"
  by (auto simp: Set_Length_def distinct_card [symmetric] asc_distinct split: option.splits)

lemma Set_Clone_correct [simp, idset_correct]:
  "elems (Set_Clone s) = elems s" "set_inv s \<Longrightarrow> set_inv (Set_Clone s)"
  by (auto simp: Set_Clone_def split: option.splits)

lemma Set_Add_correct [idset_correct]:
  "set_inv s \<Longrightarrow> set_inv (Set_Add s z)" "set_inv s \<Longrightarrow> elems (Set_Add s z) = insert z (elems s)"
  by (auto simp: Set_Add_def Set_add_correct split: option.splits)

lemma Set_Contains_correct [idset_correct]: "set_inv s \<Longrightarrow> Set_Contains s z \<longleftrightarrow> z \<in> elems s"
  by (auto simp: Set_Contains_def split: option.splits)

lemma Set_ContainsOrNil_correct [idset_correct]:
  "set_inv s \<Longrightarrow> Set_ContainsOrNil s z \<longleftrightarrow> s = None \<or> z \<in> elems s"
  by (auto simp: Set_ContainsOrNil_def split: option.splits)

lemma Set_AddSlice_correct [idset_correct]:
  "set_inv s \<Longrightarrow> set_inv (Set_AddSlice s zs)"
  "set_inv s \<Longrightarrow> elems (Set_AddSlice s zs) = elems s \<union> set zs"
  by (auto simp: Set_AddSlice_def add_all_correct split: option.splits)

lemma Set_SafeSorted_correct [idset_correct]:
  "set (Set_SafeSorted s) = elems s" "set_inv s \<Longrightarrow> asc (Set_SafeSorted s)"
  by (cases s; simp add: Set_SafeSorted_def)+

lemma Set_IntersectOrSet_correct [idset_correct]:
  "set_inv s \<Longrightarrow> set_inv t \<Longrightarrow> set_inv (Set_IntersectOrSet s t)"
  "set_inv s \<Longrightarrow> set_inv t \<Longrightarrow>
     elems (Set_IntersectOrSet s t) = (if s = None then elems t else elems s \<inter> elems t)"
  by (auto simp: Set_IntersectOrSet_def intersect_loop_eq sorted_wrt_filter split: option.splits)

lemma Set_IUnion_correct [idset_correct]:
  "set_inv s \<Longrightarrow> set_inv (Set_IUnion s t)"
  "set_inv s \<Longrightarrow> elems (Set_IUnion s t) = elems s \<union> elems t"
  by (auto simp: Set_IUnion_def Set_AddSlice_correct split: option.splits)

lemma Set_ISubstract_correct [idset_correct]:
  "set_inv s \<Longrightarrow> set_inv t \<Longrightarrow> set_inv (Set_ISubstract s t)"
  "set_inv s \<Longrightarrow> set_inv t \<Longrightarrow> elems (Set_ISubstract s t) = elems s - elems t"
  by (auto simp: Set_ISubstract_def substract_loop_eq sorted_wrt_filter split: option.splits)

lemma newFromSlice_correct [simp]: "elems (newFromSlice xs) = set xs" "asc xs \<Longrightarrow> set_inv (newFromSlice xs)"
  by (auto simp: newFromSlice_def)

lemma Set_Diff_correct:
  assumes "set_inv s" and "set_inv t" and "Set_Diff s t = (n, r)"
  shows "set_inv n" "set_inv r" "elems n = elems t - elems s" "elems r = elems s - elems t"
proof -
  note dl = diff_loop_eq [of 0 "Set_SafeSorted t" 0 "Set_SafeSorted s" "[]" "[]"]
  show "set_inv n" "set_inv r" "elems n = elems t - elems s" "elems r = elems s - elems t"
    using assms dl
    by (auto simp: Set_Diff_def Set_IsEmpty_correct Set_SafeSorted_correct sorted_wrt_filter
        split: if_splits)
qed

lemma Set_Remove_correct [idset_correct]:
  assumes "set_inv s"
  shows "set_inv (Set_Remove s z)" and "elems (Set_Remove s z) = elems s - {z}"
proof -
  have "set_inv (Set_Remove s z) \<and> elems (Set_Remove s z) = elems s - {z}"
  proof (cases s)
    case None
    then show ?thesis by (simp add: Set_Remove_def)
  next
    case (Some seq)
    then have a: "asc seq" using assms by simp
    obtain p found where f: "Set_find seq z = (p, found)" by force
    show ?thesis
    proof (cases found)
      case True
      with Set_find_cases(1) [OF a f] have p: "p < length seq" "seq ! p = z" by auto
      then have split: "seq = take p seq @ z # drop (p + 1) seq"
        using id_take_nth_drop [OF p(1)] by simp
      then have "asc (take p seq @ z # drop (p + 1) seq)" using a by simp
      then have "asc (take p seq @ drop (p + 1) seq)" "z \<notin> set (take p seq @ drop (p + 1) seq)"
        by (auto simp: sorted_wrt_append)
      moreover have "set seq = insert z (set (take p seq @ drop (p + 1) seq))"
        by (subst split) simp
      ultimately show ?thesis using Some f True
        by (auto simp: Set_Remove_def Let_def)
    next
      case False
      then have "z \<notin> set seq" using Set_find_found [OF a, of z] f by simp
      then show ?thesis using Some f False a by (auto simp: Set_Remove_def Let_def)
    qed
  qed
  then show "set_inv (Set_Remove s z)" and "elems (Set_Remove s z) = elems s - {z}" by simp_all
qed

lemma Set_Equal_correct [idset_correct]: "Set_Equal s t \<longleftrightarrow> s = t"
  by (auto simp: Set_Equal_def split: option.splits)

lemma set_eq_elems:
  "set_inv s \<Longrightarrow> set_inv t \<Longrightarrow> elems s = elems t \<Longrightarrow> elems s \<noteq> {} \<Longrightarrow> s = t"
  by (cases s; cases t) (auto dest: asc_set_unique)

lemma Set_Pop_correct:
  assumes "set_inv s" and "Set_Pop s = (z, found, s')"
  shows "found \<longleftrightarrow> elems s \<noteq> {}" and "set_inv s'"
    and "found \<Longrightarrow> elems s = insert z (elems s') \<and> z \<notin> elems s' \<and> (\<forall>y \<in> elems s'. y < z)"
    and "\<not> found \<Longrightarrow> s' = s"
proof -
  have *: "asc xs \<Longrightarrow> xs \<noteq> [] \<Longrightarrow> asc (butlast xs) \<and> set xs = insert (last xs) (set (butlast xs)) \<and>
      (\<forall>y \<in> set (butlast xs). y < last xs)" for xs :: "zid list"
    by (induction xs rule: rev_induct) (auto simp: sorted_wrt_append)
  have **: "xs ! (length xs - 1) = last xs" "take (length xs - 1) xs = butlast xs"
    if "xs \<noteq> []" for xs :: "zid list"
    using that by (simp_all add: last_conv_nth butlast_conv_take)
  show "found \<longleftrightarrow> elems s \<noteq> {}" and "set_inv s'" and "\<not> found \<Longrightarrow> s' = s"
    using assms * ** by (auto simp: Set_Pop_def Let_def split: option.splits if_splits)
  show "found \<Longrightarrow> elems s = insert z (elems s') \<and> z \<notin> elems s' \<and> (\<forall>y \<in> elems s'. y < z)"
    using assms * ** by (fastforce simp: Set_Pop_def Let_def split: option.splits if_splits)
qed

section \<open>The interfaces the other components use\<close>

text \<open>
  \<open>zid_set\<close>: what a client that adds, removes and asks for identifiers relies on, with its
  loops proved once. \<open>zid_set_algebra\<close> adds the operations on two sets.
\<close>

locale zid_set =
  fixes add :: "'s \<Rightarrow> zid \<Rightarrow> 's"
    and remove :: "'s \<Rightarrow> zid \<Rightarrow> 's"
    and contains :: "'s \<Rightarrow> zid \<Rightarrow> bool"
    and is_empty :: "'s \<Rightarrow> bool"
    and els :: "'s \<Rightarrow> zid set"
    and inv :: "'s \<Rightarrow> bool"
  assumes inv_add: "inv s \<Longrightarrow> inv (add s z)"
    and els_add: "inv s \<Longrightarrow> els (add s z) = insert z (els s)"
    and inv_remove: "inv s \<Longrightarrow> inv (remove s z)"
    and els_remove: "inv s \<Longrightarrow> els (remove s z) = els s - {z}"
    and contains_iff: "inv s \<Longrightarrow> contains s z \<longleftrightarrow> z \<in> els s"
    and is_empty_iff: "is_empty s \<longleftrightarrow> els s = {}"
begin

lemmas set_laws = inv_add els_add inv_remove els_remove contains_iff is_empty_iff

lemma fold_add_if:
  "inv s \<Longrightarrow> inv (fold (\<lambda>x s. if P x then add s (f x) else s) xs s) \<and>
     els (fold (\<lambda>x s. if P x then add s (f x) else s) xs s) = els s \<union> f ` {x \<in> set xs. P x}"
  by (induction xs arbitrary: s) (auto simp: set_laws)

lemma fold_add:
  "inv s \<Longrightarrow> inv (fold (\<lambda>x s. add s (f x)) xs s) \<and>
     els (fold (\<lambda>x s. add s (f x)) xs s) = els s \<union> f ` set xs"
  using fold_add_if [of s "\<lambda>_. True" f xs] by simp

lemma fold_remove:
  "inv s \<Longrightarrow> inv (fold (\<lambda>x s. remove s x) xs s) \<and>
     els (fold (\<lambda>x s. remove s x) xs s) = els s - set xs"
  by (induction xs arbitrary: s) (auto simp: set_laws)

lemma add_remove_absorb: "inv s \<Longrightarrow> els (remove (add s z) z) = els s - {z}"
  by (simp add: set_laws)

end

locale zid_set_algebra = zid_set add remove contains is_empty els inv
  for add :: "'s \<Rightarrow> zid \<Rightarrow> 's"
    and remove :: "'s \<Rightarrow> zid \<Rightarrow> 's"
    and contains :: "'s \<Rightarrow> zid \<Rightarrow> bool"
    and is_empty :: "'s \<Rightarrow> bool"
    and els :: "'s \<Rightarrow> zid set"
    and inv :: "'s \<Rightarrow> bool" +
  fixes union :: "'s \<Rightarrow> 's \<Rightarrow> 's"
    and subtract :: "'s \<Rightarrow> 's \<Rightarrow> 's"
    and diff :: "'s \<Rightarrow> 's \<Rightarrow> 's \<times> 's"
  assumes inv_union: "inv s \<Longrightarrow> inv t \<Longrightarrow> inv (union s t)"
    and els_union: "inv s \<Longrightarrow> inv t \<Longrightarrow> els (union s t) = els s \<union> els t"
    and inv_subtract: "inv s \<Longrightarrow> inv t \<Longrightarrow> inv (subtract s t)"
    and els_subtract: "inv s \<Longrightarrow> inv t \<Longrightarrow> els (subtract s t) = els s - els t"
    and inv_diff: "inv s \<Longrightarrow> inv t \<Longrightarrow> inv (fst (diff s t)) \<and> inv (snd (diff s t))"
    and els_diff: "inv s \<Longrightarrow> inv t \<Longrightarrow>
      els (fst (diff s t)) = els t - els s \<and> els (snd (diff s t)) = els s - els t"
begin

lemmas algebra_laws = inv_union els_union inv_subtract els_subtract inv_diff els_diff

lemma fold_union:
  "inv s \<Longrightarrow> \<forall>x \<in> set xs. inv (f x) \<Longrightarrow>
   inv (fold (\<lambda>x s. union s (f x)) xs s) \<and>
   els (fold (\<lambda>x s. union s (f x)) xs s) = els s \<union> (\<Union>x \<in> set xs. els (f x))"
  by (induction xs arbitrary: s) (auto simp: algebra_laws)

lemma fold_subtract:
  "inv s \<Longrightarrow> \<forall>x \<in> set xs. inv (f x) \<Longrightarrow>
   inv (fold (\<lambda>x s. subtract s (f x)) xs s) \<and>
   els (fold (\<lambda>x s. subtract s (f x)) xs s) = els s - (\<Union>x \<in> set xs. els (f x))"
  by (induction xs arbitrary: s) (auto simp: algebra_laws)

text \<open>Applying a difference: add what is new, remove what is gone.\<close>

lemma apply_diff:
  "inv s \<Longrightarrow> inv t \<Longrightarrow> els (subtract (union s (fst (diff s t))) (snd (diff s t))) = els t"
  by (auto simp: algebra_laws)

end

interpretation ids: zid_set_algebra Set_Add Set_Remove Set_Contains Set_IsEmpty elems set_inv
  Set_IUnion Set_ISubstract Set_Diff
proof (unfold_locales, goal_cases)
  case (11 s t)
  then show ?case by (metis Set_Diff_correct(1,2) prod.collapse)
next
  case (12 s t)
  then show ?case by (metis Set_Diff_correct(3,4) prod.collapse)
qed (simp_all add: idset_correct)

section \<open>Properties\<close>

text \<open>
  C28: the in-place and binary-search operations of \<open>*Set\<close> compute the operations on
  mathematical sets and keep the slice strictly ascending, \<open>nil\<close> receivers and arguments
  included; the intersection of a \<open>nil\<close> receiver is the other set.
\<close>

theorem set_operations_refine:
  assumes "set_inv s" and "set_inv t"
  shows "set_inv (Set_Add s z) \<and> elems (Set_Add s z) = insert z (elems s) \<and>
    set_inv (Set_Remove s z) \<and> elems (Set_Remove s z) = elems s - {z} \<and>
    (Set_Contains s z \<longleftrightarrow> z \<in> elems s) \<and>
    (Set_ContainsOrNil s z \<longleftrightarrow> s = None \<or> z \<in> elems s) \<and>
    Set_Length s = card (elems s) \<and>
    set_inv (Set_IUnion s t) \<and> elems (Set_IUnion s t) = elems s \<union> elems t \<and>
    set_inv (Set_ISubstract s t) \<and> elems (Set_ISubstract s t) = elems s - elems t \<and>
    set_inv (Set_IntersectOrSet s t) \<and>
    elems (Set_IntersectOrSet s t) = (if s = None then elems t else elems s \<inter> elems t)"
  using assms by (simp add: idset_correct)

theorem set_operations_refine_witness:
  "elems (Set_ISubstract (Some [1, 2, 5]) (Some [2, 4])) = {1, 5} \<and>
   elems (Set_IntersectOrSet (Some [1, 2, 5]) (Some [2, 4])) = {2}"
proof -
  have "set_inv (Some [1, 2, 5])" "set_inv (Some [2, 4])" by simp_all
  then show ?thesis using set_operations_refine [of "Some [1, 2, 5]" "Some [2, 4]" 0] by auto
qed

text \<open>
  \<open>Diff\<close> returns exactly what has to be added to the receiver and what has to be removed
  from it to make it equal to the other set; the two parts are disjoint from what stays.
\<close>

lemma Set_Diff_exact:
  assumes "set_inv s" and "set_inv t"
  shows "elems (fst (Set_Diff s t)) = elems t - elems s \<and> elems (snd (Set_Diff s t)) = elems s - elems t \<and>
    elems (Set_ISubstract (Set_IUnion s (fst (Set_Diff s t))) (snd (Set_Diff s t))) = elems t"
  using assms ids.els_diff [OF assms] ids.apply_diff [OF assms] by simp

theorem Set_Diff_exact_witness:
  "elems (fst (Set_Diff (Some [1, 2, 5]) (Some [2, 7]))) = {7}"
proof -
  have "set_inv (Some [1, 2, 5])" "set_inv (Some [2, 7])" by simp_all
  then show ?thesis using Set_Diff_exact [of "Some [1, 2, 5]" "Some [2, 7]"] by auto
qed

end
