(* ===== verification/Digraph.thy ===== *)
theory Digraph
  imports IdSet
begin

text \<open>
  Directed graphs of zettel identifiers, \<open>zettel/id/digraph.go\<close>. A \<open>Digraph\<close> is a Go map
  from a vertex to the set of its successors; \<open>nil\<close> is \<open>None\<close>. Loops over the map visit the
  association list in its order, which stands for any order the language may choose. The
  worklist loops are partial functions: that they return is a theorem.
\<close>

type_synonym digraph = "(zid, idset) gomap option"

section \<open>Operations, \<open>digraph.go\<close>\<close>

definition dg_map :: "digraph \<Rightarrow> (zid, idset) gomap" where
  "dg_map dg = (case dg of None \<Rightarrow> [] | Some m \<Rightarrow> m)"

text \<open>\<open>dg[zid]\<close>: a missing vertex gives the zero value \<open>nil\<close>.\<close>

definition dg_get :: "digraph \<Rightarrow> zid \<Rightarrow> idset" where
  "dg_get dg zid = (case gm_get (dg_map dg) zid of None \<Rightarrow> None | Some closure \<Rightarrow> closure)"

definition AddVertex :: "digraph \<Rightarrow> zid \<Rightarrow> digraph" where
  "AddVertex dg zid =
     (case dg of
        None \<Rightarrow> Some [(zid, None)]
      | Some m \<Rightarrow> (case gm_get m zid of None \<Rightarrow> Some (gm_put m zid None) | Some _ \<Rightarrow> Some m))"

definition RemoveVertex :: "digraph \<Rightarrow> zid \<Rightarrow> digraph" where
  "RemoveVertex dg zid =
     (case dg of
        None \<Rightarrow> None
      | Some m \<Rightarrow>
          if length m > 0
          then Some (map (\<lambda>(vertex, closure). (vertex, Set_Remove closure zid)) (gm_delete m zid))
          else Some m)"

text \<open>
  The map literal of the \<open>nil\<close> case stores its two entries one after the other, so for
  \<open>fromZid = toZid\<close> the second one wins.
\<close>

definition AddEdge :: "digraph \<Rightarrow> zid \<Rightarrow> zid \<Rightarrow> digraph" where
  "AddEdge dg fromZid toZid =
     (case dg of
        None \<Rightarrow> Some (gm_put (gm_put [] fromZid (Set_Add None toZid)) toZid None)
      | Some m \<Rightarrow> Some (gm_put m fromZid (Set_Add (dg_get dg fromZid) toZid)))"

fun add_edges_loop :: "digraph \<Rightarrow> edge list \<Rightarrow> digraph" where
  "add_edges_loop dg [] = dg"
| "add_edges_loop dg (edge # edges) =
     add_edges_loop (AddEdge (AddVertex (AddVertex dg (fst edge)) (snd edge)) (fst edge) (snd edge)) edges"

definition AddEgdes :: "digraph \<Rightarrow> edge list \<Rightarrow> digraph" where
  "AddEgdes dg edges =
     (case dg of
        None \<Rightarrow> if length edges = 0 then None else add_edges_loop (Some []) edges
      | Some m \<Rightarrow> add_edges_loop dg edges)"

text \<open>\<open>maps.EqualFunc\<close>: equal sizes, and every entry of the first has an equal one in the second.\<close>

definition Digraph_Equal :: "digraph \<Rightarrow> digraph \<Rightarrow> bool" where
  "Digraph_Equal dg other \<longleftrightarrow>
     length (dg_map dg) = length (dg_map other) \<and>
     list_all (\<lambda>(v, cg). case gm_get (dg_map other) v of None \<Rightarrow> False | Some co \<Rightarrow> Set_Equal cg co)
       (dg_map dg)"

definition Digraph_Clone :: "digraph \<Rightarrow> digraph" where
  "Digraph_Clone dg =
     (if length (dg_map dg) = 0 then None
      else Some (map (\<lambda>(vertex, closure). (vertex, Set_Clone closure)) (dg_map dg)))"

definition HasVertex :: "digraph \<Rightarrow> zid \<Rightarrow> bool" where
  "HasVertex dg zid \<longleftrightarrow>
     (if length (dg_map dg) = 0 then False else gm_get (dg_map dg) zid \<noteq> None)"

definition Vertices :: "digraph \<Rightarrow> idset" where
  "Vertices dg =
     (if length (dg_map dg) = 0 then None
      else fold (\<lambda>(vert, closure) verts. Set_Add verts vert) (dg_map dg) (NewSetCap []))"

definition Edges :: "digraph \<Rightarrow> edge list" where
  "Edges dg =
     fold (\<lambda>(vert, closure) es. Set_ForEach closure (\<lambda>next es. es @ [(vert, next)]) es) (dg_map dg) []"

definition Originators :: "digraph \<Rightarrow> idset" where
  "Originators dg =
     (if length (dg_map dg) = 0 then None
      else fold (\<lambda>(vert, closure) origs. Set_ISubstract origs closure) (dg_map dg) (Vertices dg))"

definition Terminators :: "digraph \<Rightarrow> idset" where
  "Terminators dg =
     fold (\<lambda>(vert, closure) terms. if Set_IsEmpty closure then Set_Add terms vert else terms)
       (dg_map dg) None"

text \<open>The body of \<open>TransitiveClosure\<close>'s inner loop, and the loop over the stack.\<close>

definition tc_visit :: "zid \<Rightarrow> zid \<Rightarrow> digraph \<times> idslice \<Rightarrow> digraph \<times> idslice" where
  "tc_visit cur next st =
     (let (tc, stack) = st in (AddEdge (AddVertex tc next) cur next, stack @ [next]))"

partial_function (option) tc_loop :: "digraph \<Rightarrow> digraph \<Rightarrow> idset \<Rightarrow> idslice \<Rightarrow> digraph option" where
  "tc_loop dg tc marked stack =
     (if stack = [] then Some tc
      else let cur = last stack; stack1 = butlast stack in
        if Set_Contains marked cur then tc_loop dg tc marked stack1
        else let (tc2, stack2) =
               Set_ForEach (dg_get dg cur) (tc_visit cur) (AddVertex tc cur, stack1)
             in tc_loop dg tc2 (Set_Add marked cur) stack2)"

definition TransitiveClosure :: "digraph \<Rightarrow> zid \<Rightarrow> digraph option" where
  "TransitiveClosure dg zid =
     (if length (dg_map dg) = 0 then Some None else tc_loop dg None None [zid])"

partial_function (option) reach_loop :: "digraph \<Rightarrow> idset \<Rightarrow> idslice \<Rightarrow> idset option" where
  "reach_loop dg tc stack =
     (if stack = [] then Some tc
      else let cur = last stack; stack1 = butlast stack in
        if Set_Contains tc cur then reach_loop dg tc stack1
        else case gm_get (dg_map dg) cur of
            None \<Rightarrow> reach_loop dg tc stack1
          | Some closure \<Rightarrow>
              reach_loop dg (Set_Add tc cur)
                (Set_ForEach closure (\<lambda>next stack. stack @ [next]) stack1))"

definition ReachableVertices :: "digraph \<Rightarrow> zid \<Rightarrow> idset option" where
  "ReachableVertices dg zid =
     (if length (dg_map dg) = 0 then Some None
      else reach_loop dg None (Set_SafeSorted (dg_get dg zid)))"

fun is_dag_loop :: "digraph \<Rightarrow> (zid \<times> idset) list \<Rightarrow> (zid \<times> bool) option" where
  "is_dag_loop dg [] = Some (Invalid, True)"
| "is_dag_loop dg ((vertex, closure) # rest) =
     (case ReachableVertices dg vertex of
        None \<Rightarrow> None
      | Some reachable \<Rightarrow>
          if Set_Contains reachable vertex then Some (vertex, False) else is_dag_loop dg rest)"

definition IsDAG :: "digraph \<Rightarrow> (zid \<times> bool) option" where
  "IsDAG dg = is_dag_loop dg (dg_map dg)"

definition Reverse :: "digraph \<Rightarrow> digraph" where
  "Reverse dg =
     fold (\<lambda>(vertex, closure) revDg.
        Set_ForEach closure (\<lambda>next revDg. AddEdge (AddVertex revDg next) next vertex)
          (AddVertex revDg vertex)) (dg_map dg) None"

partial_function (option) sort_reverse_loop :: "digraph \<Rightarrow> idslice \<Rightarrow> idslice option" where
  "sort_reverse_loop tempDg sl =
     (if length (dg_map tempDg) > 0 then
        let terms = Terminators tempDg in
        if Set_IsEmpty terms then Some sl
        else sort_reverse_loop (Set_ForEach terms (\<lambda>t tempDg. RemoveVertex tempDg t) tempDg)
               (sl @ rev (Set_SafeSorted terms))
      else Some sl)"

definition SortReverse :: "digraph \<Rightarrow> idslice option" where
  "SortReverse dg =
     (if length (dg_map dg) = 0 then Some [] else sort_reverse_loop (Digraph_Clone dg) [])"

section \<open>Abstraction: vertices, successors, edges\<close>

definition dg_inv :: "digraph \<Rightarrow> bool" where
  "dg_inv dg \<longleftrightarrow> gm_inv (dg_map dg) \<and> (\<forall>(v, c) \<in> set (dg_map dg). set_inv c)"

definition verts :: "digraph \<Rightarrow> zid set" where
  "verts dg = set (gm_keys (dg_map dg))"

definition succs :: "digraph \<Rightarrow> zid \<Rightarrow> zid set" where
  "succs dg v = elems (dg_get dg v)"

definition edge_rel :: "digraph \<Rightarrow> (zid \<times> zid) set" where
  "edge_rel dg = {(u, v). v \<in> succs dg u}"

named_theorems dg_simps \<open>vertices, successors and invariant after an operation\<close>

lemma dg_map_simps [simp]: "dg_map None = []" "dg_map (Some m) = m"
  by (simp_all add: dg_map_def)

lemma dg_inv_None [simp]: "dg_inv None" "verts None = {}" "succs None v = {}"
  by (simp_all add: dg_inv_def verts_def succs_def dg_get_def)

lemma finite_verts [simp]: "finite (verts dg)"
  by (simp add: verts_def)

lemma finite_succs [simp]: "finite (succs dg v)"
  by (simp add: succs_def)

lemma succs_verts: "v \<in> succs dg u \<Longrightarrow> u \<in> verts dg"
  by (auto simp: succs_def dg_get_def verts_def split: option.splits dest: gm_get_Some_key)

lemma edge_relI [simp]: "(u, v) \<in> edge_rel dg \<longleftrightarrow> v \<in> succs dg u"
  by (simp add: edge_rel_def)

lemma dg_get_inv: "dg_inv dg \<Longrightarrow> set_inv (dg_get dg v)"
  by (auto simp: dg_inv_def dg_get_def split: option.splits dest!: map_of_SomeD)

lemma succs_entry: "dg_inv dg \<Longrightarrow> (v, c) \<in> set (dg_map dg) \<Longrightarrow> succs dg v = elems c"
  by (simp add: succs_def dg_get_def dg_inv_def flip: gm_get_Some_iff)

lemma succs_entry': "dg_inv dg \<Longrightarrow> x \<in> set (dg_map dg) \<Longrightarrow> succs dg (fst x) = elems (snd x)"
  using succs_entry [of dg "fst x" "snd x"] by simp

lemma entry_inv: "dg_inv dg \<Longrightarrow> (v, c) \<in> set (dg_map dg) \<Longrightarrow> set_inv c"
  by (auto simp: dg_inv_def)

lemma dg_inv_put: "dg_inv (Some m) \<Longrightarrow> set_inv c \<Longrightarrow> dg_inv (Some (gm_put m v c))"
  unfolding dg_inv_def
  by (auto simp: gm_get_Some_iff [symmetric] split: if_splits)

lemma verts_put [simp]: "verts (Some (gm_put m v c)) = insert v (verts (Some m))"
  by (simp add: verts_def)

lemma succs_put [simp]: "succs (Some (gm_put m v c)) u = (if u = v then elems c else succs (Some m) u)"
  by (simp add: succs_def dg_get_def)

lemma AddVertex_correct [dg_simps]:
  "dg_inv dg \<Longrightarrow> dg_inv (AddVertex dg z)"
  "verts (AddVertex dg z) = insert z (verts dg)"
  "succs (AddVertex dg z) u = succs dg u"
proof -
  show "dg_inv dg \<Longrightarrow> dg_inv (AddVertex dg z)"
    by (cases dg) (auto simp: AddVertex_def dg_inv_put dg_inv_def [of "Some [(z, None)]"] split: option.splits)
  show "verts (AddVertex dg z) = insert z (verts dg)"
    by (cases dg) (auto simp: AddVertex_def verts_def split: option.splits dest: gm_get_Some_key)
  show "succs (AddVertex dg z) u = succs dg u"
    by (cases dg) (auto simp: AddVertex_def succs_def dg_get_def split: option.splits)
qed

lemma AddVertex_Some [simp]: "\<exists>m. AddVertex dg z = Some m"
  by (cases dg) (auto simp: AddVertex_def split: option.splits)

lemma AddEdge_correct [dg_simps]:
  assumes "dg \<noteq> None"
  shows "dg_inv dg \<Longrightarrow> dg_inv (AddEdge dg a b)"
    and "verts (AddEdge dg a b) = insert a (verts dg)"
    and "dg_inv dg \<Longrightarrow> succs (AddEdge dg a b) u = (if u = a then insert b (succs dg a) else succs dg u)"
  using assms dg_get_inv [of dg a]
  by (auto simp: AddEdge_def dg_inv_put Set_Add_correct succs_def [of dg a] split: option.splits)

lemma AddEdge_Some [simp]: "\<exists>m. AddEdge dg a b = Some m"
  by (cases dg) (auto simp: AddEdge_def)

lemma case_prod_fst_snd: "(\<lambda>(v, c). f v c) = (\<lambda>x. f (fst x) (snd x))"
  by (simp add: fun_eq_iff)

lemma verts_Nil: "length (dg_map dg) = 0 \<Longrightarrow> verts dg = {} \<and> succs dg u = {}"
  by (simp add: verts_def succs_def dg_get_def)

lemma Clone_correct [dg_simps]:
  "dg_inv dg \<Longrightarrow> dg_inv (Digraph_Clone dg)"
  "verts (Digraph_Clone dg) = verts dg"
  "succs (Digraph_Clone dg) u = succs dg u"
proof -
  let ?m = "map (\<lambda>(vertex, closure). (vertex, Set_Clone closure)) (dg_map dg)"
  have k: "fst ` set ?m = fst ` set (dg_map dg)" by (simp add: image_image case_prod_beta)
  have g: "gm_get ?m u = map_option Set_Clone (gm_get (dg_map dg) u)" by simp
  show "dg_inv dg \<Longrightarrow> dg_inv (Digraph_Clone dg)"
    by (auto simp: dg_inv_def Digraph_Clone_def)
  show "verts (Digraph_Clone dg) = verts dg"
    using k verts_Nil [of dg] by (auto simp: Digraph_Clone_def verts_def)
  show "succs (Digraph_Clone dg) u = succs dg u"
    using g verts_Nil [of dg]
    by (auto simp: Digraph_Clone_def succs_def dg_get_def split: option.splits)
qed

lemma RemoveVertex_correct [dg_simps]:
  assumes "dg_inv dg"
  shows "dg_inv (RemoveVertex dg z)" and "verts (RemoveVertex dg z) = verts dg - {z}"
    and "succs (RemoveVertex dg z) u = (if u = z then {} else succs dg u - {z})"
proof -
  let ?m = "map (\<lambda>(vertex, closure). (vertex, Set_Remove closure z)) (gm_delete (dg_map dg) z)"
  have r: "RemoveVertex dg z = (if length (dg_map dg) > 0 then Some ?m else dg)"
    by (cases dg) (auto simp: RemoveVertex_def)
  have k: "fst ` set ?m = fst ` set (gm_delete (dg_map dg) z)"
    by (simp add: image_image case_prod_beta)
  have inv: "gm_inv (gm_delete (dg_map dg) z)" using assms by (simp add: dg_inv_def)
  have e: "\<forall>(v, c) \<in> set (gm_delete (dg_map dg) z). set_inv c"
    using assms inv by (auto simp: dg_inv_def simp flip: gm_get_Some_iff split: if_splits)
  show "dg_inv (RemoveVertex dg z)"
    using assms inv e by (auto simp: r dg_inv_def Set_Remove_correct)
  have "fst ` set ?m = fst ` set (dg_map dg) - {z}"
    using k by simp
  then show "verts (RemoveVertex dg z) = verts dg - {z}"
    using verts_Nil [of dg] by (auto simp: r verts_def)
  have "gm_get ?m u = map_option (\<lambda>c. Set_Remove c z) (gm_get (gm_delete (dg_map dg) z) u)"
    by simp
  then show "succs (RemoveVertex dg z) u = (if u = z then {} else succs dg u - {z})"
    using verts_Nil [of dg] dg_get_inv [OF assms, of u]
    by (auto simp: r succs_def dg_get_def Set_Remove_correct split: option.splits)
qed

lemma Vertices_correct: "set_inv (Vertices dg)" "elems (Vertices dg) = verts dg"
  using ids.fold_add [of "NewSetCap []" fst "dg_map dg"] verts_Nil [of dg]
  by (auto simp: Vertices_def case_prod_fst_snd verts_def)

lemma Terminators_correct:
  assumes "dg_inv dg"
  shows "set_inv (Terminators dg)" and "elems (Terminators dg) = {v \<in> verts dg. succs dg v = {}}"
proof -
  have "Terminators dg = fold (\<lambda>x terms. if Set_IsEmpty (snd x) then Set_Add terms (fst x) else terms)
      (dg_map dg) None"
    by (simp add: Terminators_def case_prod_fst_snd)
  moreover have "fst ` {x \<in> set (dg_map dg). Set_IsEmpty (snd x)} = {v \<in> verts dg. succs dg v = {}}"
  proof -
    have "{x \<in> set (dg_map dg). Set_IsEmpty (snd x)} = {x \<in> set (dg_map dg). succs dg (fst x) = {}}"
      using succs_entry' [OF assms] by (auto simp: Set_IsEmpty_correct)
    then show ?thesis by (auto simp: verts_def)
  qed
  ultimately show "set_inv (Terminators dg)"
    and "elems (Terminators dg) = {v \<in> verts dg. succs dg v = {}}"
    using ids.fold_add_if [of None "\<lambda>x. Set_IsEmpty (snd x)" fst "dg_map dg"] by simp_all
qed

lemma Union_succs: "dg_inv dg \<Longrightarrow> (\<Union>x \<in> set (dg_map dg). elems (snd x)) = Range (edge_rel dg)"
proof (intro equalityI subsetI)
  fix v assume "dg_inv dg" "v \<in> (\<Union>x \<in> set (dg_map dg). elems (snd x))"
  then obtain x where "x \<in> set (dg_map dg)" "v \<in> succs dg (fst x)" by (auto simp: succs_entry')
  then show "v \<in> Range (edge_rel dg)" by (auto simp: Range_iff)
next
  fix v assume d: "dg_inv dg" "v \<in> Range (edge_rel dg)"
  then obtain u where u: "v \<in> succs dg u" by auto
  then obtain c where "(u, c) \<in> set (dg_map dg)"
    using succs_verts [OF u] by (auto simp: verts_def)
  then show "v \<in> (\<Union>x \<in> set (dg_map dg). elems (snd x))"
    using u succs_entry [OF d(1)] by force
qed

lemma finite_Range_edge_rel [simp]: "dg_inv dg \<Longrightarrow> finite (Range (edge_rel dg))"
  by (simp flip: Union_succs)

lemma Originators_correct:
  assumes "dg_inv dg"
  shows "set_inv (Originators dg)" and "elems (Originators dg) = verts dg - Range (edge_rel dg)"
proof -
  have "\<forall>x \<in> set (dg_map dg). set_inv (snd x)" using assms by (auto simp: dg_inv_def)
  then have "set_inv (fold (\<lambda>x s. Set_ISubstract s (snd x)) (dg_map dg) (Vertices dg)) \<and>
      elems (fold (\<lambda>x s. Set_ISubstract s (snd x)) (dg_map dg) (Vertices dg)) = verts dg - Range (edge_rel dg)"
    using ids.fold_subtract [of "Vertices dg" "dg_map dg" snd] assms
    by (simp add: Vertices_correct Union_succs)
  then show "set_inv (Originators dg)" and "elems (Originators dg) = verts dg - Range (edge_rel dg)"
    using verts_Nil [of dg] by (auto simp: Originators_def case_prod_fst_snd)
qed

lemma add_edges_loop_correct:
  "dg_inv dg \<Longrightarrow> dg_inv (add_edges_loop dg es) \<and>
   verts (add_edges_loop dg es) = verts dg \<union> fst ` set es \<union> snd ` set es \<and>
   edge_rel (add_edges_loop dg es) = edge_rel dg \<union> set es"
proof (induction dg es rule: add_edges_loop.induct)
  case (1 dg)
  then show ?case by simp
next
  case (2 dg edge edges)
  let ?v = "AddVertex (AddVertex dg (fst edge)) (snd edge)"
  have ne: "?v \<noteq> None" using AddVertex_Some [of "AddVertex dg (fst edge)" "snd edge"] by auto
  have i: "dg_inv ?v" using 2(2) by (simp add: AddVertex_correct)
  note e = AddEdge_correct [OF ne, of "fst edge" "snd edge"]
  have "edge_rel (AddEdge ?v (fst edge) (snd edge)) = insert edge (edge_rel dg)"
    using e(3) [OF i] by (cases edge) (auto simp: edge_rel_def AddVertex_correct split: if_splits)
  moreover have "verts (AddEdge ?v (fst edge) (snd edge)) = insert (fst edge) (insert (snd edge) (verts dg))"
    using e(2) by (auto simp: AddVertex_correct)
  ultimately show ?case using 2(1) [OF e(1) [OF i]] by auto
qed

lemma AddEgdes_correct:
  assumes "dg_inv dg"
  shows "dg_inv (AddEgdes dg es) \<and> verts (AddEgdes dg es) = verts dg \<union> fst ` set es \<union> snd ` set es \<and>
    edge_rel (AddEgdes dg es) = edge_rel dg \<union> set es"
proof (cases dg)
  case None
  have "dg_inv (Some [])" "verts (Some []) = {}" "edge_rel (Some []) = {}" "edge_rel None = {}"
    by (auto simp: dg_inv_def verts_def edge_rel_def succs_def dg_get_def)
  then show ?thesis using None add_edges_loop_correct [of "Some []" es]
    by (auto simp: AddEgdes_def)
next
  case (Some m)
  then show ?thesis using assms add_edges_loop_correct [of dg es] by (simp add: AddEgdes_def)
qed

lemma HasVertex_correct: "HasVertex dg z \<longleftrightarrow> z \<in> verts dg"
  using verts_Nil [of dg] by (auto simp: HasVertex_def verts_def gm_get_None_iff)

lemma fold_edges: "fold (\<lambda>next es. es @ [(v, next)]) ys es = es @ map (Pair v) ys"
  by (induction ys arbitrary: es) auto

lemma Edges_correct:
  assumes "dg_inv dg"
  shows "set (Edges dg) = edge_rel dg"
proof -
  have *: "set (fold (\<lambda>x es. Set_ForEach (snd x) (\<lambda>next es. es @ [(fst x, next)]) es) xs es) =
      set es \<union> {(u, v). \<exists>x \<in> set xs. u = fst x \<and> v \<in> elems (snd x)}" for xs es
  proof (induction xs arbitrary: es)
    case Nil
    then show ?case by simp
  next
    case (Cons x xs)
    then show ?case
      by (cases "snd x") (auto simp: Set_ForEach_def fold_edges)
  qed
  have "{(u, v). \<exists>x \<in> set (dg_map dg). u = fst x \<and> v \<in> elems (snd x)} = edge_rel dg"
    using succs_entry' [OF assms] succs_verts by (force simp: edge_rel_def verts_def)
  then show ?thesis using * [of "dg_map dg" "[]"] by (simp add: Edges_def case_prod_fst_snd)
qed

section \<open>Transitive closure\<close>

lemma Set_ForEach_fold: "Set_ForEach s f st = fold f (Set_SafeSorted s) st"
  by (cases s) (simp_all add: Set_ForEach_def Set_SafeSorted_def)

lemma tc_visit_fold:
  assumes "dg_inv tc" and "tc \<noteq> None" and "cur \<in> verts tc"
    and "fold (tc_visit cur) xs (tc, stack) = (tc', stack')"
  shows "dg_inv tc' \<and> tc' \<noteq> None \<and> stack' = stack @ xs \<and> verts tc' = verts tc \<union> set xs \<and>
    (\<forall>u. succs tc' u = (if u = cur then succs tc cur \<union> set xs else succs tc u))"
  using assms
proof (induction xs arbitrary: tc stack)
  case Nil
  then show ?case by auto
next
  case (Cons x xs)
  let ?tc = "AddEdge (AddVertex tc x) cur x"
  have ne: "AddVertex tc x \<noteq> None" "?tc \<noteq> None"
    using AddVertex_Some [of tc x] AddEdge_Some [of "AddVertex tc x" cur x] by auto
  have a: "dg_inv ?tc" "verts ?tc = insert x (verts tc)"
    "\<And>u. succs ?tc u = (if u = cur then insert x (succs tc cur) else succs tc u)"
    using AddEdge_correct [OF ne(1)] AddVertex_correct Cons.prems(1,3) by auto
  have "fold (tc_visit cur) xs (?tc, stack @ [x]) = (tc', stack')"
    using Cons.prems(4) by (simp add: tc_visit_def [of cur x])
  then show ?case using Cons.IH [OF a(1) ne(2), of "stack @ [x]"] a Cons.prems(3) by auto
qed

definition tc_state :: "digraph \<Rightarrow> zid \<Rightarrow> digraph \<Rightarrow> idset \<Rightarrow> idslice \<Rightarrow> bool" where
  "tc_state dg zid tc marked stack \<longleftrightarrow>
     dg_inv tc \<and> set_inv marked \<and>
     elems marked \<union> set stack \<subseteq> (edge_rel dg)\<^sup>* `` {zid} \<and>
     zid \<in> elems marked \<union> set stack \<and>
     edge_rel dg `` elems marked \<subseteq> elems marked \<union> set stack \<and>
     verts tc = elems marked \<union> edge_rel dg `` elems marked \<and>
     (\<forall>u. succs tc u = (if u \<in> elems marked then succs dg u else {}))"

lemma tc_state_visit:
  assumes inv: "dg_inv dg" and st: "tc_state dg zid tc marked stack"
    and ne: "stack \<noteq> []" and nm: "last stack \<notin> elems marked"
    and f: "fold (tc_visit (last stack)) (Set_SafeSorted (dg_get dg (last stack)))
              (AddVertex tc (last stack), butlast stack) = (tc2, stack2)"
  shows "tc_state dg zid tc2 (Set_Add marked (last stack)) stack2"
    and "set stack2 = set (butlast stack) \<union> succs dg (last stack)"
proof -
  let ?c = "last stack"
  have ss: "set (Set_SafeSorted (dg_get dg ?c)) = succs dg ?c"
    by (simp add: Set_SafeSorted_correct succs_def)
  have sl: "set stack = insert ?c (set (butlast stack))"
    using ne by (metis append_butlast_last_id insert_is_Un list.simps(15) rotate1.simps(2) set_rotate1 sup_bot.right_neutral)
  have "dg_inv (AddVertex tc ?c)" "AddVertex tc ?c \<noteq> None" "?c \<in> verts (AddVertex tc ?c)"
    using st AddVertex_Some [of tc ?c] by (auto simp: tc_state_def AddVertex_correct)
  from tc_visit_fold [OF this f]
  have v: "dg_inv tc2" "set stack2 = set (butlast stack) \<union> succs dg ?c"
    "verts tc2 = insert ?c (verts tc) \<union> succs dg ?c"
    "\<And>u. succs tc2 u = (if u = ?c then succs tc ?c \<union> succs dg ?c else succs tc u)"
    using ss by (auto simp: AddVertex_correct)
  then show "set stack2 = set (butlast stack) \<union> succs dg ?c" by simp
  have r: "?c \<in> (edge_rel dg)\<^sup>* `` {zid}" using st sl by (auto simp: tc_state_def)
  have "succs dg ?c \<subseteq> (edge_rel dg)\<^sup>* `` {zid}"
    using r by (auto intro: rtrancl_into_rtrancl)
  moreover have "succs tc ?c = {}" using st nm by (simp add: tc_state_def)
  ultimately show "tc_state dg zid tc2 (Set_Add marked ?c) stack2"
    using st v sl r unfolding tc_state_def by (auto simp: Set_Add_correct)
qed

lemma tc_loop_correct:
  assumes "dg_inv dg" and "tc_state dg zid tc marked stack"
  shows "\<exists>tc'. tc_loop dg tc marked stack = Some tc' \<and> dg_inv tc' \<and>
    verts tc' = (edge_rel dg)\<^sup>* `` {zid} \<and>
    (\<forall>u. succs tc' u = (if (zid, u) \<in> (edge_rel dg)\<^sup>* then succs dg u else {}))"
  using assms(2)
proof (induction "(marked, stack)" arbitrary: tc marked stack
    rule: wf_induct_rule [OF wf_measures [of
      "[\<lambda>(marked, stack). card ((Range (edge_rel dg) \<union> set stack) - elems marked),
        \<lambda>(marked, stack). length stack]"]])
  case (1 marked stack tc)
  note st = "1.prems"
  let ?R = "(edge_rel dg)\<^sup>* `` {zid}" and ?c = "last stack" and ?b = "butlast stack"
  show ?case
  proof (cases "stack = []")
    case True
    have cl: "edge_rel dg `` elems marked \<subseteq> elems marked" "zid \<in> elems marked"
      using st True by (auto simp: tc_state_def)
    have "?R \<subseteq> elems marked"
    proof
      fix v assume "v \<in> ?R"
      then have "(zid, v) \<in> (edge_rel dg)\<^sup>*" by simp
      then show "v \<in> elems marked"
        by (induction rule: rtrancl_induct) (use cl in blast)+
    qed
    then have "elems marked = ?R" using st by (auto simp: tc_state_def)
    moreover have "edge_rel dg `` ?R \<subseteq> ?R" by (auto intro: rtrancl_into_rtrancl)
    ultimately show ?thesis
      using st True by (subst tc_loop.simps) (auto simp: tc_state_def)
  next
    case False
    then have sl: "set stack = insert ?c (set ?b)"
      by (metis append_butlast_last_id insert_is_Un list.simps(15) rotate1.simps(2) set_rotate1 sup_bot.right_neutral)
    have mi: "set_inv marked" using st by (simp add: tc_state_def)
    show ?thesis
    proof (cases "Set_Contains marked ?c")
      case True
      then have c: "?c \<in> elems marked" using mi by (simp add: Set_Contains_correct)
      then have "tc_state dg zid tc marked ?b" using st sl by (auto simp: tc_state_def)
      moreover have "(Range (edge_rel dg) \<union> set ?b) - elems marked =
          (Range (edge_rel dg) \<union> set stack) - elems marked" using c sl by auto
      ultimately have "\<exists>tc'. tc_loop dg tc marked ?b = Some tc' \<and> dg_inv tc' \<and> verts tc' = ?R \<and>
          (\<forall>u. succs tc' u = (if (zid, u) \<in> (edge_rel dg)\<^sup>* then succs dg u else {}))"
        using False by (intro "1.hyps") (auto simp: length_butlast)
      then show ?thesis using False True by (subst tc_loop.simps) (simp add: Let_def)
    next
      case nc: False
      then have c: "?c \<notin> elems marked" using mi by (simp add: Set_Contains_correct)
      obtain tc2 stack2 where f: "fold (tc_visit ?c) (Set_SafeSorted (dg_get dg ?c))
          (AddVertex tc ?c, ?b) = (tc2, stack2)" by force
      note v = tc_state_visit [OF assms(1) st False c f]
      have "Range (edge_rel dg) \<union> set stack2 - elems (Set_Add marked ?c) \<subset>
          Range (edge_rel dg) \<union> set stack - elems marked"
        using v(2) sl c mi by (auto simp: Set_Add_correct)
      then have "card (Range (edge_rel dg) \<union> set stack2 - elems (Set_Add marked ?c)) <
          card (Range (edge_rel dg) \<union> set stack - elems marked)"
        using assms(1) by (intro psubset_card_mono) simp_all
      then have "\<exists>tc'. tc_loop dg tc2 (Set_Add marked ?c) stack2 = Some tc' \<and> dg_inv tc' \<and>
          verts tc' = ?R \<and>
          (\<forall>u. succs tc' u = (if (zid, u) \<in> (edge_rel dg)\<^sup>* then succs dg u else {}))"
        using v(1) by (intro "1.hyps") auto
      then show ?thesis using False nc f
        by (subst tc_loop.simps) (simp add: Let_def Set_ForEach_fold)
    qed
  qed
qed

section \<open>Reachable vertices and cycles\<close>

lemma set_last_butlast: "xs \<noteq> [] \<Longrightarrow> set xs = insert (last xs) (set (butlast xs))"
  by (induction xs rule: rev_induct) auto

lemma fold_snoc: "fold (\<lambda>x xs. xs @ [x]) ys xs = xs @ ys"
  by (induction ys arbitrary: xs) auto

definition reach_state :: "digraph \<Rightarrow> zid \<Rightarrow> idset \<Rightarrow> idslice \<Rightarrow> bool" where
  "reach_state dg zid tc stack \<longleftrightarrow>
     set_inv tc \<and> elems tc \<subseteq> verts dg \<and>
     elems tc \<union> set stack \<subseteq> (edge_rel dg)\<^sup>+ `` {zid} \<and>
     edge_rel dg `` insert zid (elems tc) \<inter> verts dg \<subseteq> elems tc \<union> set stack"

lemma reach_state_skip:
  assumes "reach_state dg zid tc stack" and "stack \<noteq> []"
    and "last stack \<in> elems tc \<or> last stack \<notin> verts dg"
  shows "reach_state dg zid tc (butlast stack)"
  using assms set_last_butlast [OF assms(2)] unfolding reach_state_def by auto

lemma reach_state_visit:
  assumes "dg_inv dg" and "reach_state dg zid tc stack" and "stack \<noteq> []"
    and "last stack \<in> verts dg"
  shows "reach_state dg zid (Set_Add tc (last stack)) (butlast stack @ Set_SafeSorted (dg_get dg (last stack)))"
proof -
  have "set (Set_SafeSorted (dg_get dg (last stack))) = succs dg (last stack)"
    by (simp add: Set_SafeSorted_correct succs_def)
  moreover have "(zid, last stack) \<in> (edge_rel dg)\<^sup>+"
    using assms(2) set_last_butlast [OF assms(3)] by (auto simp: reach_state_def)
  then have "succs dg (last stack) \<subseteq> (edge_rel dg)\<^sup>+ `` {zid}"
    by (auto intro: trancl_into_trancl)
  ultimately show ?thesis
    using assms set_last_butlast [OF assms(3)] unfolding reach_state_def
    by (auto simp: Set_Add_correct)
qed

lemma reach_loop_correct:
  assumes "dg_inv dg" and "reach_state dg zid tc stack"
  shows "\<exists>tc'. reach_loop dg tc stack = Some tc' \<and> set_inv tc' \<and>
    elems tc' = {v \<in> verts dg. (zid, v) \<in> (edge_rel dg)\<^sup>+}"
  using assms(2)
proof (induction "(tc, stack)" arbitrary: tc stack
    rule: wf_induct_rule [OF wf_measures [of
      "[\<lambda>(tc, stack). card (verts dg - elems tc), \<lambda>(tc, stack). length stack]"]])
  case (1 tc stack)
  note st = "1.prems"
  let ?c = "last stack"
  have ti: "set_inv tc" using st by (simp add: reach_state_def)
  show ?case
  proof (cases "stack = []")
    case True
    have cl: "edge_rel dg `` insert zid (elems tc) \<inter> verts dg \<subseteq> elems tc"
      using st True by (auto simp: reach_state_def)
    have "v \<in> verts dg \<longrightarrow> v \<in> elems tc" if "(zid, v) \<in> (edge_rel dg)\<^sup>+" for v
      using that
    proof (induction rule: trancl_induct)
      case (base y)
      then show ?case using cl by blast
    next
      case (step y z)
      then have "y \<in> elems tc" using succs_verts [of z dg y] by simp
      then show ?case using step(2) cl by blast
    qed
    then show ?thesis using st True by (subst reach_loop.simps) (auto simp: reach_state_def)
  next
    case False
    show ?thesis
    proof (cases "?c \<in> elems tc \<or> ?c \<notin> verts dg")
      case True
      have "\<exists>tc'. reach_loop dg tc (butlast stack) = Some tc' \<and> set_inv tc' \<and>
          elems tc' = {v \<in> verts dg. (zid, v) \<in> (edge_rel dg)\<^sup>+}"
        using False reach_state_skip [OF st False True] by (intro "1.hyps") auto
      moreover have "gm_get (dg_map dg) ?c = None" if "?c \<notin> verts dg"
        using that by (simp add: gm_get_None_iff verts_def)
      ultimately show ?thesis using False True ti
        by (subst reach_loop.simps) (auto simp: Let_def Set_Contains_correct)
    next
      case vis: False
      then obtain closure where cl: "gm_get (dg_map dg) ?c = Some closure"
        by (metis gm_get_None_iff list.set_map not_None_eq verts_def)
      let ?st = "butlast stack @ Set_SafeSorted (dg_get dg ?c)"
      have "verts dg - elems (Set_Add tc ?c) \<subset> verts dg - elems tc"
        using vis ti by (auto simp: Set_Add_correct)
      then have "card (verts dg - elems (Set_Add tc ?c)) < card (verts dg - elems tc)"
        by (intro psubset_card_mono) simp_all
      then have "\<exists>tc'. reach_loop dg (Set_Add tc ?c) ?st = Some tc' \<and> set_inv tc' \<and>
          elems tc' = {v \<in> verts dg. (zid, v) \<in> (edge_rel dg)\<^sup>+}"
        using reach_state_visit [OF assms(1) st False] vis by (intro "1.hyps") auto
      moreover have "dg_get dg ?c = closure" using cl by (simp add: dg_get_def)
      ultimately show ?thesis using False vis ti cl
        by (subst reach_loop.simps)
          (simp add: Let_def Set_Contains_correct Set_ForEach_fold fold_snoc)
    qed
  qed
qed

lemma ReachableVertices_correct:
  assumes "dg_inv dg"
  shows "\<exists>s. ReachableVertices dg zid = Some s \<and> set_inv s \<and>
    elems s = {v \<in> verts dg. (zid, v) \<in> (edge_rel dg)\<^sup>+}"
proof (cases "length (dg_map dg) = 0")
  case True
  then show ?thesis using verts_Nil by (auto simp: ReachableVertices_def)
next
  case False
  have "reach_state dg zid None (Set_SafeSorted (dg_get dg zid))"
    by (auto simp: reach_state_def Set_SafeSorted_correct simp flip: succs_def)
  then show ?thesis using False reach_loop_correct [OF assms] by (simp add: ReachableVertices_def)
qed

lemma is_dag_loop_correct:
  assumes "dg_inv dg" and "set xs \<subseteq> set (dg_map dg)"
  shows "\<exists>v b. is_dag_loop dg xs = Some (v, b) \<and> (b \<longleftrightarrow> (\<forall>u \<in> fst ` set xs. (u, u) \<notin> (edge_rel dg)\<^sup>+)) \<and>
    (\<not> b \<longrightarrow> (v, v) \<in> (edge_rel dg)\<^sup>+)"
  using assms(2)
proof (induction xs)
  case Nil
  then show ?case by (intro exI [of _ Invalid] exI [of _ True]) simp
next
  case (Cons x xs)
  obtain v c where x: "x = (v, c)" by force
  obtain s where s: "ReachableVertices dg v = Some s" "set_inv s"
    "elems s = {u \<in> verts dg. (v, u) \<in> (edge_rel dg)\<^sup>+}"
    using ReachableVertices_correct [OF assms(1)] by blast
  have "v \<in> verts dg" using Cons.prems x by (force simp: verts_def)
  then have "Set_Contains s v \<longleftrightarrow> (v, v) \<in> (edge_rel dg)\<^sup>+" using s by (simp add: Set_Contains_correct)
  then show ?case using Cons s(1) x by auto
qed

section \<open>Reversed graph\<close>

lemma reverse_inner:
  assumes "dg_inv rv" and "rv \<noteq> None"
  shows "let rv' = fold (\<lambda>next rv. AddEdge (AddVertex rv next) next vertex) xs rv in
    dg_inv rv' \<and> rv' \<noteq> None \<and> verts rv' = verts rv \<union> set xs \<and>
    (\<forall>u. succs rv' u = (if u \<in> set xs then insert vertex (succs rv u) else succs rv u))"
  using assms
proof (induction xs arbitrary: rv)
  case Nil
  then show ?case by simp
next
  case (Cons x xs)
  let ?rv = "AddEdge (AddVertex rv x) x vertex"
  have ne: "AddVertex rv x \<noteq> None" "?rv \<noteq> None"
    using AddVertex_Some [of rv x] AddEdge_Some [of "AddVertex rv x" x vertex] by auto
  have "dg_inv ?rv" "verts ?rv = insert x (verts rv)"
    "\<And>u. succs ?rv u = (if u = x then insert vertex (succs rv x) else succs rv u)"
    using AddEdge_correct [OF ne(1)] AddVertex_correct Cons.prems(1) by auto
  then show ?case using Cons.IH [OF _ ne(2)] by (auto simp: Let_def)
qed

definition reverse_step :: "zid \<times> idset \<Rightarrow> digraph \<Rightarrow> digraph" where
  "reverse_step x revDg =
     Set_ForEach (snd x) (\<lambda>next revDg. AddEdge (AddVertex revDg next) next (fst x))
       (AddVertex revDg (fst x))"

lemma Reverse_fold: "Reverse dg = fold reverse_step (dg_map dg) None"
  by (simp add: Reverse_def reverse_step_def [abs_def] case_prod_fst_snd)

lemma reverse_step_correct:
  assumes "dg_inv rv"
  shows "dg_inv (reverse_step x rv)" and "verts (reverse_step x rv) = insert (fst x) (verts rv \<union> elems (snd x))"
    and "succs (reverse_step x rv) u = (if u \<in> elems (snd x) then insert (fst x) (succs rv u) else succs rv u)"
proof -
  have "dg_inv (AddVertex rv (fst x))" "AddVertex rv (fst x) \<noteq> None"
    using assms AddVertex_Some [of rv "fst x"] by (auto simp: AddVertex_correct)
  from reverse_inner [OF this, of "fst x" "Set_SafeSorted (snd x)"]
  show "dg_inv (reverse_step x rv)" "verts (reverse_step x rv) = insert (fst x) (verts rv \<union> elems (snd x))"
    "succs (reverse_step x rv) u = (if u \<in> elems (snd x) then insert (fst x) (succs rv u) else succs rv u)"
    by (simp_all add: reverse_step_def Set_ForEach_fold Set_SafeSorted_correct AddVertex_correct Let_def)
qed

lemma reverse_steps:
  "dg_inv rv \<Longrightarrow>
   dg_inv (fold reverse_step xs rv) \<and>
   verts (fold reverse_step xs rv) = verts rv \<union> fst ` set xs \<union> (\<Union>x \<in> set xs. elems (snd x)) \<and>
   (\<forall>u. succs (fold reverse_step xs rv) u = succs rv u \<union> {fst x |x. x \<in> set xs \<and> u \<in> elems (snd x)})"
proof (induction xs arbitrary: rv)
  case Nil
  then show ?case by simp
next
  case (Cons x xs)
  from Cons.IH [OF reverse_step_correct(1) [OF Cons.prems, of x]]
  show ?case by (cases x) (auto simp: reverse_step_correct [OF Cons.prems])
qed

lemma Reverse_correct:
  assumes "dg_inv dg"
  shows "dg_inv (Reverse dg)" and "verts (Reverse dg) = verts dg \<union> Range (edge_rel dg)"
    and "edge_rel (Reverse dg) = (edge_rel dg)\<inverse>"
proof -
  note r = reverse_steps [of None "dg_map dg", simplified, folded Reverse_fold]
  show "dg_inv (Reverse dg)" using r by simp
  show "verts (Reverse dg) = verts dg \<union> Range (edge_rel dg)"
    using r Union_succs [OF assms] by (simp add: verts_def [of dg])
  have "succs (Reverse dg) u = {v. u \<in> succs dg v}" for u
  proof -
    have "succs (Reverse dg) u = {fst x |x. x \<in> set (dg_map dg) \<and> u \<in> succs dg (fst x)}"
      using r succs_entry' [OF assms] by auto
    also have "\<dots> = {v. u \<in> succs dg v}"
      using succs_verts [of u dg] by (force simp: verts_def)
    finally show ?thesis .
  qed
  then show "edge_rel (Reverse dg) = (edge_rel dg)\<inverse>" by (auto simp: edge_rel_def)
qed

section \<open>Reverse topological sort\<close>

lemma fold_RemoveVertex:
  "dg_inv dg \<Longrightarrow>
   dg_inv (fold (\<lambda>t dg. RemoveVertex dg t) ts dg) \<and>
   verts (fold (\<lambda>t dg. RemoveVertex dg t) ts dg) = verts dg - set ts \<and>
   (\<forall>u. succs (fold (\<lambda>t dg. RemoveVertex dg t) ts dg) u = (if u \<in> set ts then {} else succs dg u - set ts))"
proof (induction ts arbitrary: dg)
  case Nil
  then show ?case by simp
next
  case (Cons t ts)
  from Cons.IH [OF RemoveVertex_correct(1) [OF Cons.prems, of t]]
  show ?case by (auto simp: RemoveVertex_correct [OF Cons.prems])
qed

definition sort_state :: "digraph \<Rightarrow> digraph \<Rightarrow> idslice \<Rightarrow> bool" where
  "sort_state dg tempDg sl \<longleftrightarrow>
     dg_inv tempDg \<and> verts tempDg = verts dg - set sl \<and>
     (\<forall>u \<in> verts tempDg. succs tempDg u = succs dg u - set sl) \<and>
     distinct sl \<and> set sl \<subseteq> verts dg \<and> edge_rel dg `` set sl \<subseteq> set sl \<and>
     sorted_wrt (\<lambda>x y. (x, y) \<notin> edge_rel dg) sl"

lemma no_terminator_cycle:
  assumes "dg_inv dg" and "A \<subseteq> verts dg" and "A \<noteq> {}" and "\<forall>v \<in> A. succs dg v \<inter> A \<noteq> {}"
  shows "\<not> acyclic (edge_rel dg)"
proof
  assume "acyclic (edge_rel dg)"
  moreover have "finite (edge_rel dg)"
    using assms(1) by (intro finite_subset [of "edge_rel dg" "verts dg \<times> Range (edge_rel dg)"])
      (auto dest: succs_verts)
  ultimately have "wf ((edge_rel dg)\<inverse>)" by (simp add: finite_acyclic_wf_converse)
  then obtain z where "z \<in> A" "\<forall>y. (y, z) \<in> (edge_rel dg)\<inverse> \<longrightarrow> y \<notin> A"
    using assms(3) by (metis equals0I wf_eq_minimal)
  with assms(4) show False by auto
qed

lemma sort_state_step:
  assumes "dg_inv dg" and st: "sort_state dg tempDg sl"
  defines "terms \<equiv> Terminators tempDg"
  shows "sort_state dg (Set_ForEach terms (\<lambda>t tempDg. RemoveVertex tempDg t) tempDg)
    (sl @ rev (Set_SafeSorted terms))"
proof -
  have ti: "dg_inv tempDg" using st by (simp add: sort_state_def)
  have t: "set (Set_SafeSorted terms) = {v \<in> verts tempDg. succs tempDg v = {}}"
    "distinct (Set_SafeSorted terms)"
    using Terminators_correct [OF ti] asc_distinct [OF Set_SafeSorted_correct(2)]
    by (simp_all add: terms_def Set_SafeSorted_correct)
  let ?T = "set (Set_SafeSorted terms)"
  have te: "edge_rel dg `` ?T \<subseteq> set sl" using st t(1) by (auto simp: sort_state_def)
  have tn: "?T \<inter> set sl = {}" "?T \<subseteq> verts dg" using st t(1) by (auto simp: sort_state_def)
  have "sorted_wrt (\<lambda>x y. (x, y) \<notin> edge_rel dg) (rev (Set_SafeSorted terms))"
  proof (rule sorted_wrt_mono_rel [OF _ sorted_wrt_true])
    show "(x, y) \<notin> edge_rel dg"
      if "x \<in> set (rev (Set_SafeSorted terms))" "y \<in> set (rev (Set_SafeSorted terms))" for x y
      using that te tn(1) by fastforce
  qed
  moreover have "(x, y) \<notin> edge_rel dg" if "x \<in> set sl" "y \<in> ?T" for x y
    using that st tn(1) unfolding sort_state_def by blast
  ultimately have "sorted_wrt (\<lambda>x y. (x, y) \<notin> edge_rel dg) (sl @ rev (Set_SafeSorted terms))"
    using st by (simp add: sorted_wrt_append sort_state_def)
  moreover have "distinct (sl @ rev (Set_SafeSorted terms))"
    using st t(2) tn(1) by (auto simp: sort_state_def)
  moreover have "edge_rel dg `` (set sl \<union> ?T) \<subseteq> set sl \<union> ?T"
    using st te unfolding sort_state_def by blast
  moreover note fold_RemoveVertex [OF ti, of "Set_SafeSorted terms"]
  ultimately show ?thesis
    using st tn(2) unfolding sort_state_def Set_ForEach_fold by auto
qed

lemma sort_reverse_loop_correct:
  assumes "dg_inv dg" and "sort_state dg tempDg sl"
  shows "\<exists>sl'. sort_reverse_loop tempDg sl = Some sl' \<and> distinct sl' \<and> set sl' \<subseteq> verts dg \<and>
    sorted_wrt (\<lambda>x y. (x, y) \<notin> edge_rel dg) sl' \<and>
    (acyclic (edge_rel dg) \<and> Range (edge_rel dg) \<subseteq> verts dg \<longrightarrow> set sl' = verts dg)"
  using assms(2)
proof (induction "card (verts tempDg)" arbitrary: tempDg sl rule: less_induct)
  case less
  note st = less.prems
  have ti: "dg_inv tempDg" using st by (simp add: sort_state_def)
  show ?case
  proof (cases "length (dg_map tempDg) > 0")
    case False
    then have "verts tempDg = {}" using verts_Nil [of tempDg] by simp
    then show ?thesis using st False
      by (subst sort_reverse_loop.simps) (auto simp: sort_state_def)
  next
    case True
    let ?T = "Terminators tempDg"
    note T = Terminators_correct [OF ti]
    show ?thesis
    proof (cases "Set_IsEmpty ?T")
      case True
      have "set sl = verts dg" if "acyclic (edge_rel dg)" "Range (edge_rel dg) \<subseteq> verts dg"
      proof (rule ccontr)
        assume "set sl \<noteq> verts dg"
        then have "verts tempDg \<noteq> {}" using st by (auto simp: sort_state_def)
        moreover have "\<forall>v \<in> verts tempDg. succs dg v \<inter> verts tempDg \<noteq> {}"
          using st that(2) T(2) True unfolding sort_state_def Set_IsEmpty_correct by fastforce
        ultimately show False
          using no_terminator_cycle [OF assms(1), of "verts tempDg"] that(1) st
          by (auto simp: sort_state_def)
      qed
      then show ?thesis using st True
        by (subst sort_reverse_loop.simps) (auto simp: sort_state_def Let_def)
    next
      case ne: False
      let ?d = "Set_ForEach ?T (\<lambda>t tempDg. RemoveVertex tempDg t) tempDg"
      have v: "verts ?d = verts tempDg - elems ?T"
        using fold_RemoveVertex [OF ti, of "Set_SafeSorted ?T"]
        by (simp add: Set_ForEach_fold Set_SafeSorted_correct)
      have "verts tempDg - elems ?T \<subset> verts tempDg"
        using T(2) ne by (auto simp: Set_IsEmpty_correct)
      then have "card (verts ?d) < card (verts tempDg)" by (simp add: v psubset_card_mono)
      from less.hyps [OF this sort_state_step [OF assms(1) st]]
      show ?thesis using True ne by (subst sort_reverse_loop.simps) (simp add: Let_def)
    qed
  qed
qed

section \<open>Properties\<close>

text \<open>
  C29: \<open>TransitiveClosure\<close> always returns, and its result is the subgraph that is reachable
  from the start: its vertices are the vertices reachable in any number of steps, and every
  one of them keeps exactly its successors.
\<close>

theorem TransitiveClosure_reachable:
  assumes "dg_inv dg" and "verts dg \<noteq> {}"
  shows "\<exists>tc. TransitiveClosure dg zid = Some tc \<and> dg_inv tc \<and>
    verts tc = {v. (zid, v) \<in> (edge_rel dg)\<^sup>*} \<and>
    (\<forall>u. succs tc u = (if (zid, u) \<in> (edge_rel dg)\<^sup>* then succs dg u else {}))"
proof -
  have "length (dg_map dg) \<noteq> 0" using assms(2) verts_Nil [of dg] by auto
  moreover have "tc_state dg zid None None [zid]" by (simp add: tc_state_def)
  ultimately show ?thesis
    using tc_loop_correct [OF assms(1), of zid None None "[zid]"]
    by (auto simp: TransitiveClosure_def Image_singleton)
qed

text \<open>The graph \<open>1 \<rightarrow> 2 \<rightarrow> 3\<close> with the extra vertex \<open>4\<close>, used by the witnesses.\<close>

definition chain3 :: digraph where
  "chain3 = AddEgdes None [(1, 2), (2, 3), (4, 2)]"

lemma chain3_eval: "chain3 = Some [(1, Some [2]), (2, Some [3]), (3, None), (4, Some [2])]"
  by code_simp

lemma chain3_inv: "dg_inv chain3" "verts chain3 = {1, 2, 3, 4}"
  by (auto simp: chain3_eval dg_inv_def verts_def)

theorem TransitiveClosure_reachable_witness:
  "\<exists>tc. TransitiveClosure chain3 2 = Some tc \<and> 3 \<in> verts tc"
proof -
  have "verts chain3 \<noteq> {}" by (simp add: chain3_inv)
  from TransitiveClosure_reachable [OF chain3_inv(1) this, of 2] obtain tc where
    tc: "TransitiveClosure chain3 2 = Some tc" "verts tc = {v. (2, v) \<in> (edge_rel chain3)\<^sup>*}" by blast
  have "(2, 3) \<in> edge_rel chain3" by (simp add: chain3_eval succs_def dg_get_def)
  then have "3 \<in> verts tc" unfolding tc(2) by (intro CollectI r_into_rtrancl)
  with tc(1) show ?thesis by blast
qed

text \<open>
  C30: \<open>ReachableVertices\<close> always returns the vertices of the graph that are reachable in at
  least one step.
\<close>

theorem ReachableVertices_trancl:
  assumes "dg_inv dg"
  shows "\<exists>s. ReachableVertices dg zid = Some s \<and> set_inv s \<and>
    elems s = {v \<in> verts dg. (zid, v) \<in> (edge_rel dg)\<^sup>+}"
  using assms by (rule ReachableVertices_correct)

theorem ReachableVertices_trancl_witness:
  "\<exists>s. ReachableVertices chain3 1 = Some s \<and> 2 \<in> elems s"
proof -
  have "(1, 2) \<in> edge_rel chain3" "2 \<in> verts chain3"
    by (simp_all add: chain3_eval succs_def dg_get_def verts_def)
  then show ?thesis using ReachableVertices_trancl [OF chain3_inv(1), of 1] by blast
qed

text \<open>
  C31: \<open>IsDAG\<close> decides acyclicity, whatever the order in which it visits the map: it always
  returns, its flag is true exactly for acyclic graphs, and with a false flag it names a
  vertex that lies on a cycle.
\<close>

theorem IsDAG_acyclic:
  assumes "dg_inv dg"
  shows "\<exists>v b. IsDAG dg = Some (v, b) \<and> (b \<longleftrightarrow> acyclic (edge_rel dg)) \<and>
    (\<not> b \<longrightarrow> (v, v) \<in> (edge_rel dg)\<^sup>+)"
proof -
  have "(\<forall>u \<in> verts dg. (u, u) \<notin> (edge_rel dg)\<^sup>+) \<longleftrightarrow> acyclic (edge_rel dg)"
    unfolding acyclic_def by (metis DomainE DomainI edge_relI succs_verts trancl_domain)
  then show ?thesis
    using is_dag_loop_correct [OF assms, of "dg_map dg"] by (simp add: IsDAG_def verts_def)
qed

theorem IsDAG_acyclic_witness:
  "dg_inv (AddEgdes None [(1, 2), (2, 1)]) \<and>
   (\<exists>v b. IsDAG (AddEgdes None [(1, 2), (2, 1)]) = Some (v, b) \<and> \<not> b)"
proof -
  let ?g = "AddEgdes None [(1, 2), (2, 1)]"
  have g: "?g = Some [(1, Some [2]), (2, Some [1])]" by code_simp
  then have i: "dg_inv ?g" by (simp add: dg_inv_def)
  have "(1, 2) \<in> edge_rel ?g" "(2, 1) \<in> edge_rel ?g" by (simp_all add: g succs_def dg_get_def)
  then have "\<not> acyclic (edge_rel ?g)"
    unfolding acyclic_def by (meson r_into_trancl trancl_into_trancl)
  then show ?thesis using IsDAG_acyclic [OF i] i by auto
qed

text \<open>
  C32: \<open>SortReverse\<close> always terminates, also on cyclic graphs; it returns distinct vertices in
  which no vertex has an edge to a later one, and for an acyclic graph whose edges end in
  vertices these are all vertices: a reverse topological sort.
\<close>

theorem SortReverse_topological:
  assumes "dg_inv dg"
  shows "\<exists>sl. SortReverse dg = Some sl \<and> distinct sl \<and> set sl \<subseteq> verts dg \<and>
    sorted_wrt (\<lambda>x y. (x, y) \<notin> edge_rel dg) sl \<and>
    (acyclic (edge_rel dg) \<and> Range (edge_rel dg) \<subseteq> verts dg \<longrightarrow> set sl = verts dg)"
proof (cases "length (dg_map dg) = 0")
  case True
  then show ?thesis using verts_Nil [of dg] by (simp add: SortReverse_def)
next
  case False
  have "sort_state dg (Digraph_Clone dg) []"
    using assms by (simp add: sort_state_def Clone_correct)
  then show ?thesis
    using sort_reverse_loop_correct [OF assms] False by (simp add: SortReverse_def)
qed

theorem SortReverse_topological_witness:
  "\<exists>sl. SortReverse chain3 = Some sl \<and> distinct sl"
  using SortReverse_topological [OF chain3_inv(1)] by blast

text \<open>
  \<open>Reverse\<close> keeps the vertices and turns every edge around, and \<open>Originators\<close> and
  \<open>Terminators\<close> are the vertices without an incoming and without an outgoing edge.
\<close>

lemma Reverse_converse:
  assumes "dg_inv dg"
  shows "edge_rel (Reverse dg) = (edge_rel dg)\<inverse> \<and> verts (Reverse dg) = verts dg \<union> Range (edge_rel dg) \<and>
    elems (Originators dg) = verts dg - Range (edge_rel dg) \<and>
    elems (Terminators dg) = verts dg - Domain (edge_rel dg)"
  using Reverse_correct [OF assms] Originators_correct [OF assms] Terminators_correct [OF assms]
  by auto

theorem Reverse_converse_witness: "(3, 2) \<in> edge_rel (Reverse chain3)"
proof -
  have "(2, 3) \<in> edge_rel chain3" by (simp add: chain3_eval succs_def dg_get_def)
  then show ?thesis using Reverse_converse [OF chain3_inv(1)] by auto
qed

section \<open>The map literal of \<open>AddEdge\<close>\<close>

text \<open>
  On a \<open>nil\<close> digraph, \<open>AddEdge\<close> with equal end points builds a map literal with a repeated
  key, in which the empty entry wins: the loop edge is lost. On any other digraph it is kept.
\<close>

lemma AddEdge_nil_loop: "succs (AddEdge None z z) z = {}"
  by (simp add: AddEdge_def)

lemma AddEdge_loop: "dg_inv (Some m) \<Longrightarrow> z \<in> succs (AddEdge (Some m) z z) z"
  using AddEdge_correct(3) [of "Some m" z z z] by simp

end
