(* ===== verification/Anteroom.thy ===== *)
theory Anteroom
  imports IdSet
begin

text \<open>
  The queue of zettel that wait for the indexer, \<open>box/manager/anteroom.go\<close>. The chain of
  \<open>*anteroom\<close> from \<open>first\<close> to \<open>last\<close> is the list of its rooms: \<open>first\<close> is \<open>nil\<close> where the
  list is empty, and every operation leaves \<open>last\<close> pointing to the end of the chain. The
  mutex makes each operation one atomic step. The queue refines a pending set with an
  optional reload in front, and draining it delivers every waiting zettel exactly once.
\<close>

section \<open>State\<close>

datatype arAction = arNothing | arReload | arZettel

record anteroom =
  waiting :: idset
  curLoad :: int
  reload :: bool

record anteroomQueue =
  rooms :: "anteroom list"
  maxLoad :: int

section \<open>Operations\<close>

definition newAnteroomQueue :: "int \<Rightarrow> anteroomQueue" where
  "newAnteroomQueue ml = \<lparr>rooms = [], maxLoad = ml\<rparr>"

text \<open>\<open>None\<close> is the panic for the invalid identifier.\<close>

definition makeAnteroom :: "zid \<Rightarrow> anteroom option" where
  "makeAnteroom zid =
     (if zid = Invalid then None
      else Some \<lparr>waiting = NewSetCap [zid], curLoad = 1, reload = False\<rparr>)"

text \<open>The scan over all rooms: is the zettel waiting in a room that is no reload room?\<close>

fun already_waiting :: "anteroom list \<Rightarrow> zid \<Rightarrow> bool" where
  "already_waiting [] zid = False"
| "already_waiting (room # next) zid =
     (if reload room then already_waiting next zid
      else if Set_Contains (waiting room) zid then True
      else already_waiting next zid)"

text \<open>
  \<open>room.waiting.Add(zid)\<close> drops the result of \<open>Add\<close>: for a \<open>nil\<close> set nothing would be stored.
\<close>

definition add_in_place :: "idset \<Rightarrow> zid \<Rightarrow> idset" where
  "add_in_place s zid = (case s of None \<Rightarrow> None | Some seq \<Rightarrow> Set_Add s zid)"

text \<open>
  \<open>mappingZid\<close> is \<open>id.MappingZid\<close>, a constant of the client library.
\<close>

definition EnqueueZettel :: "zid \<Rightarrow> anteroomQueue \<Rightarrow> zid \<Rightarrow> anteroomQueue option" where
  "EnqueueZettel mappingZid ar zid =
     (if \<not> IsValid zid \<or> zid = mappingZid \<or> zid = 9999999996 then Some ar
      else if rooms ar = [] then
        (case makeAnteroom zid of None \<Rightarrow> None | Some room \<Rightarrow> Some (ar\<lparr>rooms := [room]\<rparr>))
      else if already_waiting (rooms ar) zid then Some ar
      else let room = last (rooms ar) in
        if \<not> reload room \<and> (maxLoad ar = 0 \<or> curLoad room < maxLoad ar) then
          Some (ar\<lparr>rooms := butlast (rooms ar) @
            [room\<lparr>waiting := add_in_place (waiting room) zid, curLoad := curLoad room + 1\<rparr>]\<rparr>)
        else
          (case makeAnteroom zid of None \<Rightarrow> None
           | Some room \<Rightarrow> Some (ar\<lparr>rooms := rooms ar @ [room]\<rparr>)))"

definition Reset :: "anteroomQueue \<Rightarrow> anteroomQueue" where
  "Reset ar = ar\<lparr>rooms := [\<lparr>waiting = None, curLoad = 0, reload = True\<rparr>]\<rparr>"

fun deleteReloadedRooms :: "anteroom list \<Rightarrow> anteroom list" where
  "deleteReloadedRooms [] = []"
| "deleteReloadedRooms (room # next) = (if reload room then deleteReloadedRooms next else room # next)"

definition Reload :: "anteroomQueue \<Rightarrow> idset \<Rightarrow> anteroomQueue" where
  "Reload ar allZids =
     (let rest = deleteReloadedRooms (rooms ar) in
      if \<not> Set_IsEmpty allZids then
        ar\<lparr>rooms := \<lparr>waiting = allZids, curLoad = int (Set_Length allZids), reload = True\<rparr> # rest\<rparr>
      else ar\<lparr>rooms := []\<rparr>)"

definition removeFirst :: "anteroomQueue \<Rightarrow> anteroomQueue" where
  "removeFirst ar = ar\<lparr>rooms := tl (rooms ar)\<rparr>"

definition Dequeue :: "anteroomQueue \<Rightarrow> arAction \<times> zid \<times> bool \<times> anteroomQueue" where
  "Dequeue ar =
     (case rooms ar of
        [] \<Rightarrow> (arNothing, Invalid, False, ar)
      | first # next \<Rightarrow>
          if waiting first = None \<and> reload first then (arReload, Invalid, False, removeFirst ar)
          else
            let (zid, found, waiting') = Set_Pop (waiting first) in
            if found then
              (arZettel, zid, reload first,
               if Set_IsEmpty waiting' then removeFirst ar
               else ar\<lparr>rooms := first\<lparr>waiting := waiting'\<rparr> # next\<rparr>)
            else (arNothing, Invalid, False, removeFirst ar))"

section \<open>Invariant and abstraction\<close>

definition room_inv :: "anteroom \<Rightarrow> bool" where
  "room_inv room \<longleftrightarrow> set_inv (waiting room) \<and>
     (if reload room then waiting room = None \<or> elems (waiting room) \<noteq> {}
      else elems (waiting room) \<noteq> {})"

text \<open>
  Only the first room may be a reload room, no waiting set is empty, and no zettel waits in
  two ordinary rooms.
\<close>

definition ar_inv :: "anteroomQueue \<Rightarrow> bool" where
  "ar_inv ar \<longleftrightarrow> list_all room_inv (rooms ar) \<and>
     list_all (\<lambda>room. \<not> reload room) (tl (rooms ar)) \<and>
     sorted_wrt (\<lambda>r q. \<not> reload r \<longrightarrow> elems (waiting r) \<inter> elems (waiting q) = {}) (rooms ar)"

text \<open>The specification: a requested or running reload, and the set of pending zettel.\<close>

datatype reload_state = NoReload | ReloadRequested | Reloading "zid set"

fun abs_reload :: "anteroom list \<Rightarrow> reload_state" where
  "abs_reload [] = NoReload"
| "abs_reload (room # next) =
     (if \<not> reload room then NoReload
      else if waiting room = None then ReloadRequested else Reloading (elems (waiting room)))"

definition pending :: "anteroom list \<Rightarrow> zid set" where
  "pending rs = \<Union> (elems ` waiting ` {room \<in> set rs. \<not> reload room})"

definition abs_queue :: "anteroomQueue \<Rightarrow> reload_state \<times> zid set" where
  "abs_queue ar = (abs_reload (rooms ar), pending (rooms ar))"

fun abs_enqueue :: "zid \<Rightarrow> reload_state \<times> zid set \<Rightarrow> zid \<Rightarrow> reload_state \<times> zid set" where
  "abs_enqueue mappingZid (rl, pend) zid =
     (if IsValid zid \<and> zid \<noteq> mappingZid \<and> zid \<noteq> 9999999996 then (rl, insert zid pend) else (rl, pend))"

fun abs_set_reload :: "reload_state \<times> zid set \<Rightarrow> zid set \<Rightarrow> reload_state \<times> zid set" where
  "abs_set_reload (rl, pend) zids = (if zids = {} then (NoReload, {}) else (Reloading zids, pend))"

lemma pending_simps [simp]:
  "pending [] = {}"
  "pending (room # rs) = (if reload room then {} else elems (waiting room)) \<union> pending rs"
  "pending (rs @ qs) = pending rs \<union> pending qs"
  by (auto simp: pending_def)

lemma already_waiting_iff:
  "list_all room_inv rs \<Longrightarrow> already_waiting rs zid \<longleftrightarrow> zid \<in> pending rs"
  by (induction rs) (auto simp: room_inv_def Set_Contains_correct)

lemma abs_reload_append: "rs \<noteq> [] \<Longrightarrow> abs_reload (rs @ qs) = abs_reload rs"
  by (cases rs) auto

lemma room_inv_make: "makeAnteroom zid = Some room \<Longrightarrow>
    room_inv room \<and> \<not> reload room \<and> elems (waiting room) = {zid}"
  by (auto simp: makeAnteroom_def room_inv_def split: if_splits)

lemma makeAnteroom_valid: "IsValid zid \<Longrightarrow> \<exists>room. makeAnteroom zid = Some room"
  by (auto simp: makeAnteroom_def IsValid_def Invalid_def)

section \<open>Enqueue\<close>

lemma enqueue_new_room:
  assumes "ar_inv ar" and "zid \<notin> pending (rooms ar)" and "makeAnteroom zid = Some room"
  shows "ar_inv (ar\<lparr>rooms := rooms ar @ [room]\<rparr>)"
    and "pending (rooms ar @ [room]) = insert zid (pending (rooms ar))"
proof -
  note r = room_inv_make [OF assms(3)]
  show "pending (rooms ar @ [room]) = insert zid (pending (rooms ar))" using r by auto
  have "\<forall>q \<in> set (rooms ar). \<not> reload q \<longrightarrow> elems (waiting q) \<inter> elems (waiting room) = {}"
    using assms(2) r by (auto simp: pending_def)
  then show "ar_inv (ar\<lparr>rooms := rooms ar @ [room]\<rparr>)"
    using assms(1) r by (cases "rooms ar") (auto simp: ar_inv_def sorted_wrt_append)
qed

lemma enqueue_last_room:
  assumes "ar_inv ar" and "rooms ar = rs @ [room]" and "\<not> reload room"
    and "zid \<notin> pending (rooms ar)"
  defines "room' \<equiv> room\<lparr>waiting := add_in_place (waiting room) zid, curLoad := curLoad room + 1\<rparr>"
  shows "ar_inv (ar\<lparr>rooms := rs @ [room']\<rparr>)"
    and "pending (rs @ [room']) = insert zid (pending (rooms ar))"
    and "abs_reload (rs @ [room']) = abs_reload (rooms ar)"
proof -
  have i: "room_inv room" using assms(1,2) by (simp add: ar_inv_def)
  then have w: "set_inv (waiting room)" "waiting room \<noteq> None"
    using assms(3) by (auto simp: room_inv_def)
  then have e: "elems (waiting room') = insert zid (elems (waiting room))" "set_inv (waiting room')"
    by (auto simp: room'_def add_in_place_def Set_Add_correct)
  have r: "\<not> reload room'" using assms(3) by (simp add: room'_def)
  show "pending (rs @ [room']) = insert zid (pending (rooms ar))"
    using e(1) r assms(2,3) by auto
  have "\<forall>q \<in> set rs. \<not> reload q \<longrightarrow> zid \<notin> elems (waiting q)"
    using assms(2,4) by (auto simp: pending_def)
  then show "ar_inv (ar\<lparr>rooms := rs @ [room']\<rparr>)"
    using assms(1,2) e r i by (cases rs) (auto simp: ar_inv_def sorted_wrt_append room_inv_def)
  show "abs_reload (rs @ [room']) = abs_reload (rooms ar)"
    using assms(2,3) r by (cases rs) auto
qed

lemma EnqueueZettel_refines:
  assumes "ar_inv ar"
  shows "\<exists>ar'. EnqueueZettel mz ar zid = Some ar' \<and> ar_inv ar' \<and>
    abs_queue ar' = abs_enqueue mz (abs_queue ar) zid"
proof -
  have li: "list_all room_inv (rooms ar)" using assms by (simp add: ar_inv_def)
  note aw = already_waiting_iff [OF li, of zid]
  consider (ignored) "\<not> IsValid zid \<or> zid = mz \<or> zid = 9999999996"
    | (waiting) "IsValid zid" "zid \<noteq> mz" "zid \<noteq> 9999999996" "zid \<in> pending (rooms ar)"
    | (new) "IsValid zid" "zid \<noteq> mz" "zid \<noteq> 9999999996" "zid \<notin> pending (rooms ar)"
    by blast
  then show ?thesis
  proof cases
    case ignored
    then show ?thesis using assms by (auto simp: EnqueueZettel_def abs_queue_def)
  next
    case waiting
    then show ?thesis using assms aw by (auto simp: EnqueueZettel_def abs_queue_def insert_absorb)
  next
    case new
    obtain room where room: "makeAnteroom zid = Some room" using makeAnteroom_valid [OF new(1)] by blast
    note nr = enqueue_new_room [OF assms new(4) room]
    have nr': "abs_reload (rooms ar @ [room]) = abs_reload (rooms ar)"
      using room_inv_make [OF room] by (cases "rooms ar") auto
    show ?thesis
    proof (cases "rooms ar = []")
      case True
      then show ?thesis using new room nr nr' by (auto simp: EnqueueZettel_def abs_queue_def)
    next
      case False
      let ?l = "last (rooms ar)"
      have b: "rooms ar = butlast (rooms ar) @ [?l]" using False by simp
      show ?thesis
      proof (cases "\<not> reload ?l \<and> (maxLoad ar = 0 \<or> curLoad ?l < maxLoad ar)")
        case True
        note lr = enqueue_last_room [OF assms b conjunct1 [OF True] new(4)]
        have "EnqueueZettel mz ar zid = Some (ar\<lparr>rooms := butlast (rooms ar) @
            [?l\<lparr>waiting := add_in_place (waiting ?l) zid, curLoad := curLoad ?l + 1\<rparr>]\<rparr>)"
          using False True new aw by (simp add: EnqueueZettel_def Let_def)
        then show ?thesis using lr new by (simp add: abs_queue_def)
      next
        case full: False
        then have "EnqueueZettel mz ar zid = Some (ar\<lparr>rooms := rooms ar @ [room]\<rparr>)"
          using False new aw room by (auto simp: EnqueueZettel_def Let_def)
        then show ?thesis using nr nr' new by (simp add: abs_queue_def)
      qed
    qed
  qed
qed

section \<open>Reset and reload\<close>

lemma Reset_refines: "ar_inv (Reset ar) \<and> abs_queue (Reset ar) = (ReloadRequested, {})"
  by (simp add: Reset_def ar_inv_def room_inv_def abs_queue_def)

lemma deleteReloadedRooms_inv:
  assumes "ar_inv ar"
  shows "deleteReloadedRooms (rooms ar) = (if rooms ar \<noteq> [] \<and> reload (hd (rooms ar)) then tl (rooms ar) else rooms ar)"
proof (cases "rooms ar")
  case (Cons r rs)
  have "list_all (\<lambda>room. \<not> reload room) rs" using assms Cons by (simp add: ar_inv_def)
  then have "deleteReloadedRooms rs = rs" by (cases rs) auto
  then show ?thesis using Cons by simp
qed simp

lemma Reload_refines:
  assumes "ar_inv ar" and "set_inv zids"
  shows "ar_inv (Reload ar zids) \<and> abs_queue (Reload ar zids) = abs_set_reload (abs_queue ar) (elems zids)"
proof (cases "elems zids = {}")
  case True
  then show ?thesis by (simp add: Reload_def Set_IsEmpty_correct ar_inv_def abs_queue_def)
next
  case False
  then have z: "zids \<noteq> None" by auto
  let ?r = "deleteReloadedRooms (rooms ar)"
  have "list_all room_inv ?r \<and> list_all (\<lambda>room. \<not> reload room) ?r \<and> pending ?r = pending (rooms ar) \<and>
    sorted_wrt (\<lambda>r q. \<not> reload r \<longrightarrow> elems (waiting r) \<inter> elems (waiting q) = {}) ?r"
    using assms(1) deleteReloadedRooms_inv [OF assms(1)]
    by (cases "rooms ar") (auto simp: ar_inv_def)
  then show ?thesis using assms(2) False z
    by (auto simp: Reload_def Let_def Set_IsEmpty_correct ar_inv_def abs_queue_def room_inv_def)
qed

section \<open>Dequeue\<close>

text \<open>What a dequeue may do to the abstract queue.\<close>

fun abs_dequeue :: "reload_state \<times> zid set \<Rightarrow> arAction \<Rightarrow> zid \<Rightarrow> bool \<Rightarrow> reload_state \<times> zid set \<Rightarrow> bool" where
  "abs_dequeue (rl, pend) act zid fromReload (rl', pend') =
     (case rl of
        ReloadRequested \<Rightarrow> act = arReload \<and> rl' = NoReload \<and> pend' = pend
      | Reloading zids \<Rightarrow> act = arZettel \<and> fromReload \<and> zid \<in> zids \<and> pend' = pend \<and>
          rl' = (if zids = {zid} then NoReload else Reloading (zids - {zid}))
      | NoReload \<Rightarrow>
          if pend = {} then act = arNothing \<and> rl' = NoReload \<and> pend' = {}
          else act = arZettel \<and> \<not> fromReload \<and> zid \<in> pend \<and> rl' = NoReload \<and> pend' = pend - {zid})"

lemma ar_inv_tl: "ar_inv ar \<Longrightarrow> ar_inv (removeFirst ar)"
  by (cases "rooms ar"; cases "tl (rooms ar)")
     (auto simp: ar_inv_def removeFirst_def list_all_iff)

lemma abs_reload_tl: "ar_inv ar \<Longrightarrow> abs_reload (tl (rooms ar)) = NoReload"
  by (cases "tl (rooms ar)") (auto simp: ar_inv_def)

lemma Dequeue_refines:
  assumes "ar_inv ar" and "Dequeue ar = (act, zid, fr, ar')"
  shows "ar_inv ar' \<and> abs_dequeue (abs_queue ar) act zid fr (abs_queue ar')"
proof (cases "rooms ar")
  case Nil
  then show ?thesis using assms by (auto simp: Dequeue_def abs_queue_def)
next
  case (Cons r rs)
  note tl = ar_inv_tl [OF assms(1)] abs_reload_tl [OF assms(1)]
  have ri: "room_inv r" "set_inv (waiting r)" using assms(1) Cons by (auto simp: ar_inv_def room_inv_def)
  show ?thesis
  proof (cases "waiting r = None \<and> reload r")
    case True
    then show ?thesis using assms Cons tl by (auto simp: Dequeue_def abs_queue_def removeFirst_def)
  next
    case False
    obtain z f w where p: "Set_Pop (waiting r) = (z, f, w)" by (metis prod_cases3)
    note pop = Set_Pop_correct [OF ri(2) p]
    have ne: "elems (waiting r) \<noteq> {}" using ri(1) False by (auto simp: room_inv_def split: if_splits)
    then have f: f and w: "set_inv w" "elems (waiting r) = insert z (elems w)" "z \<notin> elems w"
      using pop by auto
    have d: "act = arZettel" "zid = z" "fr = reload r"
      "ar' = (if Set_IsEmpty w then removeFirst ar else ar\<lparr>rooms := r\<lparr>waiting := w\<rparr> # rs\<rparr>)"
      using assms(2) Cons False p f by (auto simp: Dequeue_def)
    have disj: "\<not> reload r \<Longrightarrow> z \<notin> pending rs"
      using assms(1) Cons w(2) by (fastforce simp: ar_inv_def pending_def)
    show ?thesis
    proof (cases "Set_IsEmpty w")
      case True
      then have "elems w = {}" by (simp add: Set_IsEmpty_correct)
      then show ?thesis using d True tl Cons w disj False
        by (auto simp: abs_queue_def removeFirst_def)
    next
      case nonempty: False
      then have "elems w \<noteq> {}" by (simp add: Set_IsEmpty_correct)
      moreover then have "w \<noteq> None" by auto
      moreover have "ar_inv ar'"
        using assms(1) Cons d(4) nonempty w calculation by (auto simp: ar_inv_def room_inv_def)
      ultimately show ?thesis using d(1-3) d(4) nonempty Cons w disj False
        by (auto simp: abs_queue_def)
    qed
  qed
qed

section \<open>Sequences of operations\<close>

text \<open>
  Watchers enqueue, the indexer dequeues and reloads: any interleaving is a sequence of atomic
  operations, because each holds the mutex.
\<close>

datatype ar_op = OpEnqueue zid | OpReset | OpReload idset | OpDequeue

fun ar_exec :: "zid \<Rightarrow> ar_op \<Rightarrow> anteroomQueue \<Rightarrow> ((arAction \<times> zid \<times> bool) option \<times> anteroomQueue) option" where
  "ar_exec mz (OpEnqueue zid) ar = map_option (\<lambda>ar'. (None, ar')) (EnqueueZettel mz ar zid)"
| "ar_exec mz OpReset ar = Some (None, Reset ar)"
| "ar_exec mz (OpReload zids) ar = Some (None, Reload ar zids)"
| "ar_exec mz OpDequeue ar = (case Dequeue ar of (act, zid, fr, ar') \<Rightarrow> Some (Some (act, zid, fr), ar'))"

fun ar_run :: "zid \<Rightarrow> ar_op list \<Rightarrow> anteroomQueue \<Rightarrow> ((arAction \<times> zid \<times> bool) option list \<times> anteroomQueue) option" where
  "ar_run mz [] ar = Some ([], ar)"
| "ar_run mz (op # ops) ar =
     (case ar_exec mz op ar of None \<Rightarrow> None
      | Some (out, ar') \<Rightarrow> map_option (\<lambda>(outs, q). (out # outs, q)) (ar_run mz ops ar'))"

text \<open>The same operations on the specification.\<close>

fun abs_exec :: "zid \<Rightarrow> ar_op \<Rightarrow> (arAction \<times> zid \<times> bool) option \<Rightarrow> reload_state \<times> zid set \<Rightarrow> reload_state \<times> zid set \<Rightarrow> bool" where
  "abs_exec mz (OpEnqueue zid) out a a' \<longleftrightarrow> out = None \<and> a' = abs_enqueue mz a zid"
| "abs_exec mz OpReset out a a' \<longleftrightarrow> out = None \<and> a' = (ReloadRequested, {})"
| "abs_exec mz (OpReload zids) out a a' \<longleftrightarrow> out = None \<and> a' = abs_set_reload a (elems zids)"
| "abs_exec mz OpDequeue None a a' \<longleftrightarrow> False"
| "abs_exec mz OpDequeue (Some (act, zid, fr)) a a' \<longleftrightarrow> abs_dequeue a act zid fr a'"

fun abs_trace :: "zid \<Rightarrow> ar_op list \<Rightarrow> (arAction \<times> zid \<times> bool) option list \<Rightarrow> reload_state \<times> zid set \<Rightarrow> reload_state \<times> zid set \<Rightarrow> bool" where
  "abs_trace mz (op # ops) (out # outs) a b \<longleftrightarrow> (\<exists>a'. abs_exec mz op out a a' \<and> abs_trace mz ops outs a' b)"
| "abs_trace mz [] [] a b \<longleftrightarrow> a = b"
| "abs_trace mz _ _ a b \<longleftrightarrow> False"

definition op_ok :: "ar_op \<Rightarrow> bool" where
  "op_ok op = (case op of OpReload zids \<Rightarrow> set_inv zids | _ \<Rightarrow> True)"

lemma ar_exec_refines:
  assumes "ar_inv ar" and "op_ok op"
  shows "\<exists>out ar'. ar_exec mz op ar = Some (out, ar') \<and> ar_inv ar' \<and>
    abs_exec mz op out (abs_queue ar) (abs_queue ar')"
proof (cases op)
  case (OpEnqueue zid)
  then show ?thesis using EnqueueZettel_refines [OF assms(1), of mz zid] by auto
next
  case OpReset
  then show ?thesis using Reset_refines [of ar] by auto
next
  case (OpReload zids)
  then show ?thesis using Reload_refines [OF assms(1), of zids] assms(2) by (auto simp: op_ok_def)
next
  case OpDequeue
  obtain act zid fr ar' where d: "Dequeue ar = (act, zid, fr, ar')" by (metis prod_cases4)
  then show ?thesis using Dequeue_refines [OF assms(1) d] OpDequeue by auto
qed

lemma ar_run_refines_from:
  assumes "ar_inv ar" and "list_all op_ok ops"
  shows "\<exists>outs ar'. ar_run mz ops ar = Some (outs, ar') \<and> ar_inv ar' \<and>
    abs_trace mz ops outs (abs_queue ar) (abs_queue ar')"
  using assms
proof (induction ops arbitrary: ar)
  case (Cons op ops)
  then have "op_ok op" "list_all op_ok ops" by auto
  obtain out ar1 where 1: "ar_exec mz op ar = Some (out, ar1)" "ar_inv ar1"
      "abs_exec mz op out (abs_queue ar) (abs_queue ar1)"
    using ar_exec_refines [OF Cons.prems(1) \<open>op_ok op\<close>] by blast
  obtain outs ar2 where 2: "ar_run mz ops ar1 = Some (outs, ar2)" "ar_inv ar2"
      "abs_trace mz ops outs (abs_queue ar1) (abs_queue ar2)"
    using Cons.IH [OF 1(2) \<open>list_all op_ok ops\<close>] by blast
  have "ar_run mz (op # ops) ar = Some (out # outs, ar2)" using 1(1) 2(1) by simp
  moreover have "abs_trace mz (op # ops) (out # outs) (abs_queue ar) (abs_queue ar2)"
    unfolding abs_trace.simps using 1(3) 2(3) by blast
  ultimately show ?case using 2(2) by blast
qed simp

text \<open>
  C26: Any sequence of enqueue, reset, reload and dequeue operations on a fresh indexer queue
  runs without a panic, and every answer it gives is one the specification allows: a reload
  request first, then the zettel of the reload set, then each pending zettel once, and nothing
  only when nothing waits.
\<close>

theorem ar_run_refines:
  assumes "list_all op_ok ops"
  shows "\<exists>outs ar'. ar_run mz ops (newAnteroomQueue ml) = Some (outs, ar') \<and> ar_inv ar' \<and>
    abs_trace mz ops outs (NoReload, {}) (abs_queue ar')"
  using ar_run_refines_from [OF _ assms, of "newAnteroomQueue ml" mz]
  by (simp add: newAnteroomQueue_def ar_inv_def abs_queue_def)

lemma ar_run_refines_witness:
  "\<exists>outs ar'. ar_run 9 [OpEnqueue 3, OpReload (Some [4, 7]), OpDequeue] (newAnteroomQueue 1) = Some (outs, ar') \<and>
    ar_inv ar' \<and> abs_trace 9 [OpEnqueue 3, OpReload (Some [4, 7]), OpDequeue] outs (NoReload, {}) (abs_queue ar')"
  by (rule ar_run_refines) (simp add: op_ok_def set_inv_def)



end
