(* ===== verification/GoStrings.thy ===== *)
theory GoStrings
  imports Prelude
begin

text \<open>
  The functions of Go's \<open>strings\<close> and \<open>strconv\<close> packages the program uses, and the
  program's own string helpers in \<open>strfun/\<close>. A Go string is the list of its bytes. Functions
  that classify characters (white space, letter case) are those of ASCII text: a byte from
  128 on is neither white space nor a letter with another case.
\<close>

section \<open>Package \<open>strings\<close>\<close>

definition byte_code :: "char \<Rightarrow> nat" where
  "byte_code c = of_char c"

definition ascii_space :: "char \<Rightarrow> bool" where
  "ascii_space c \<longleftrightarrow> byte_code c = 32 \<or> (9 \<le> byte_code c \<and> byte_code c \<le> 13)"

definition lower_char :: "char \<Rightarrow> char" where
  "lower_char c = (if 65 \<le> byte_code c \<and> byte_code c \<le> 90 then char_of (byte_code c + 32) else c)"

definition strings_ToLower :: "string \<Rightarrow> string" where
  "strings_ToLower s = map lower_char s"

definition strings_TrimFunc :: "string \<Rightarrow> (char \<Rightarrow> bool) \<Rightarrow> string" where
  "strings_TrimFunc s p = rev (dropWhile p (rev (dropWhile p s)))"

definition strings_TrimSpace :: "string \<Rightarrow> string" where
  "strings_TrimSpace s = strings_TrimFunc s ascii_space"

fun fields_loop :: "(char \<Rightarrow> bool) \<Rightarrow> string \<Rightarrow> string \<Rightarrow> string list" where
  "fields_loop p word [] = (if word = [] then [] else [word])"
| "fields_loop p word (c # cs) =
     (if p c then (if word = [] then fields_loop p [] cs else word # fields_loop p [] cs)
      else fields_loop p (word @ [c]) cs)"

definition strings_FieldsFunc :: "string \<Rightarrow> (char \<Rightarrow> bool) \<Rightarrow> string list" where
  "strings_FieldsFunc s p = fields_loop p [] s"

definition strings_Fields :: "string \<Rightarrow> string list" where
  "strings_Fields s = strings_FieldsFunc s ascii_space"

fun strings_Join :: "string list \<Rightarrow> string \<Rightarrow> string" where
  "strings_Join [] sep = []"
| "strings_Join [s] sep = s"
| "strings_Join (s # t # ss) sep = s @ sep @ strings_Join (t # ss) sep"

definition strings_HasPrefix :: "string \<Rightarrow> string \<Rightarrow> bool" where
  "strings_HasPrefix s p = prefix p s"

definition strings_HasSuffix :: "string \<Rightarrow> string \<Rightarrow> bool" where
  "strings_HasSuffix s p = suffix p s"

definition strings_Contains :: "string \<Rightarrow> string \<Rightarrow> bool" where
  "strings_Contains s p = sublist p s"

fun strings_IndexFunc :: "string \<Rightarrow> (char \<Rightarrow> bool) \<Rightarrow> nat option" where
  "strings_IndexFunc [] p = None"
| "strings_IndexFunc (c # cs) p = (if p c then Some 0 else map_option Suc (strings_IndexFunc cs p))"

text \<open>The slice expression \<open>s[i:j]\<close>; \<open>None\<close> is the panic for bounds out of range.\<close>

definition slice_range :: "'a list \<Rightarrow> nat \<Rightarrow> nat \<Rightarrow> 'a list option" where
  "slice_range s i j = (if i \<le> j \<and> j \<le> length s then Some (take (j - i) (drop i s)) else None)"

section \<open>Package \<open>strconv\<close>\<close>

definition digit10 :: "char \<Rightarrow> nat option" where
  "digit10 c = (if 48 \<le> byte_code c \<and> byte_code c \<le> 57 then Some (byte_code c - 48) else None)"

fun decimal_loop :: "nat \<Rightarrow> string \<Rightarrow> nat option" where
  "decimal_loop n [] = Some n"
| "decimal_loop n (c # cs) = (case digit10 c of None \<Rightarrow> None | Some d \<Rightarrow> decimal_loop (10 * n + d) cs)"

definition decimal :: "string \<Rightarrow> nat option" where
  "decimal s = (if s = [] then None else decimal_loop 0 s)"

text \<open>\<open>strconv.ParseInt(s, 10, 64)\<close>: an optional sign, decimal digits, and the range of an \<open>int64\<close>.\<close>

definition strconv_ParseInt :: "string \<Rightarrow> int option" where
  "strconv_ParseInt s =
     (case s of
        [] \<Rightarrow> None
      | c # cs \<Rightarrow>
          if c = CHR ''-'' then
            (case decimal cs of None \<Rightarrow> None
             | Some n \<Rightarrow> if n \<le> 2 ^ 63 then Some (- int n) else None)
          else
            (case decimal (if c = CHR ''+'' then cs else s) of None \<Rightarrow> None
             | Some n \<Rightarrow> if n < 2 ^ 63 then Some (int n) else None))"

text \<open>\<open>strconv.Itoa\<close>.\<close>

fun decimal_string :: "nat \<Rightarrow> string" where
  "decimal_string n = (if n < 10 then [char_of (48 + n)] else decimal_string (n div 10) @ [char_of (48 + n mod 10)])"

declare decimal_string.simps [simp del]

definition strconv_Itoa :: "int \<Rightarrow> string" where
  "strconv_Itoa i = (if i < 0 then CHR ''-'' # decimal_string (nat (- i)) else decimal_string (nat i))"

section \<open>\<open>strfun/set.go\<close>, \<open>strfun/strfun.go\<close>\<close>

text \<open>A \<open>strfun.Set\<close> is a map with empty values: the list of its keys.\<close>

type_synonym strset = "(string, unit) gomap"

definition strset_Set :: "strset \<Rightarrow> string \<Rightarrow> strset" where
  "strset_Set s v = gm_put s v ()"

definition strset_Has :: "strset \<Rightarrow> string \<Rightarrow> bool" where
  "strset_Has s v = (gm_get s v \<noteq> None)"

definition strset_New :: "string list \<Rightarrow> strset" where
  "strset_New values = fold (\<lambda>v s. strset_Set s v) values []"

definition SplitLines :: "string \<Rightarrow> string list" where
  "SplitLines s = strings_FieldsFunc s (\<lambda>r. r = CHR 0x0A \<or> r = CHR 0x0D)"

text \<open>\<open>\\u2025\<close> in UTF-8; the text itself is one rune per byte.\<close>

definition two_dots :: string where
  "two_dots = [CHR 0xE2, CHR 0x80, CHR 0xA5]"

definition JustifyLeft :: "string \<Rightarrow> int \<Rightarrow> char \<Rightarrow> string" where
  "JustifyLeft s maxLen pad =
     (if maxLen < 1 then []
      else let n = nat maxLen;
               text = (if n < length s then take (n - 1) s @ two_dots else s);
               len = (if n < length s then n else length s)
           in text @ replicate (n - len) pad)"

section \<open>\<open>strfun/escape.go\<close>\<close>

definition escape_of :: "char \<Rightarrow> string option" where
  "escape_of ch =
     (if ch = CHR 0x00 then Some [CHR 0xEF, CHR 0xBF, CHR 0xBD]
      else if ch = CHR 0x22 then Some ''&quot;''
      else if ch = CHR 0x27 then Some ''apos;''
      else if ch = CHR ''&'' then Some ''&amp;''
      else if ch = CHR ''<'' then Some ''&lt;''
      else if ch = CHR ''>'' then Some ''&gt;''
      else if ch = CHR 0x09 then Some ''&#9;''
      else None)"

text \<open>The loop copies the unescaped part \<open>s[last:i]\<close> whenever it meets a special character.\<close>

function xml_escape_loop :: "string \<Rightarrow> nat \<Rightarrow> nat \<Rightarrow> string" where
  "xml_escape_loop s start i =
     (if length s \<le> i then drop start s
      else case escape_of (s ! i) of
          None \<Rightarrow> xml_escape_loop s start (i + 1)
        | Some esc \<Rightarrow> take (i - start) (drop start s) @ esc @ xml_escape_loop s (i + 1) (i + 1))"
  by pat_completeness auto
termination by (relation "measure (\<lambda>(s, start, i). length s - i)") auto

declare xml_escape_loop.simps [simp del]

definition XMLEscape :: "string \<Rightarrow> string" where
  "XMLEscape s = xml_escape_loop s 0 0"

section \<open>Lemmas\<close>

lemma ascii_space_space [simp]: "ascii_space CHR '' ''"
  by (simp add: ascii_space_def byte_code_def)

lemma byte_code_less: "byte_code c < 256"
  by (simp add: byte_code_def)

lemma byte_code_char_of: "n < 256 \<Longrightarrow> byte_code (char_of n) = n"
  by (simp add: byte_code_def)

lemma lower_char_idem [simp]: "lower_char (lower_char c) = lower_char c"
  using byte_code_less [of c] by (simp add: lower_char_def byte_code_char_of)

lemma lower_char_space [simp]: "ascii_space (lower_char c) = ascii_space c"
  by (simp add: lower_char_def ascii_space_def byte_code_char_of)

lemma ToLower_idem [simp]: "strings_ToLower (strings_ToLower s) = strings_ToLower s"
  by (simp add: strings_ToLower_def)

lemma ToLower_Nil [simp]: "strings_ToLower s = [] \<longleftrightarrow> s = []"
  by (simp add: strings_ToLower_def)

lemma TrimFunc_sub: "set (strings_TrimFunc s p) \<subseteq> set s"
  unfolding strings_TrimFunc_def
  by (metis order_trans set_dropWhileD set_rev subsetI)

lemma dropWhile_last: "xs \<noteq> [] \<Longrightarrow> \<not> p (last xs) \<Longrightarrow> dropWhile p xs \<noteq> [] \<and> last (dropWhile p xs) = last xs"
  by (induction xs) (auto split: if_splits)

text \<open>A trimmed string neither starts nor ends with a character of the trim set.\<close>

lemma dropWhile_hd: "dropWhile p xs = [] \<or> \<not> p (hd (dropWhile p xs))"
  by (metis hd_dropWhile)

lemma trim_ends:
  "strings_TrimFunc s p = [] \<or> (\<not> p (hd (strings_TrimFunc s p)) \<and> \<not> p (last (strings_TrimFunc s p)))"
proof (cases "dropWhile p s = []")
  case True
  then show ?thesis unfolding strings_TrimFunc_def by (simp only: True) simp
next
  case False
  let ?a = "dropWhile p s"
  let ?b = "dropWhile p (rev ?a)"
  have h: "\<not> p (hd ?a)" using False dropWhile_hd by blast
  have "\<not> p (last (rev ?a))" using h False by (simp add: last_rev)
  then have b: "?b \<noteq> []" "last ?b = last (rev ?a)"
    using dropWhile_last [of "rev ?a" p] False by auto
  have "\<not> p (hd ?b)" using b(1) dropWhile_hd by blast
  then show ?thesis using h b False by (simp add: strings_TrimFunc_def hd_rev last_rev)
qed

lemma trim_id:
  assumes "s = [] \<or> (\<not> p (hd s) \<and> \<not> p (last s))"
  shows "strings_TrimFunc s p = s"
proof (cases "s = []")
  case False
  then have "\<not> p (hd s)" "\<not> p (hd (rev s))" using assms by (simp_all add: hd_rev)
  moreover from this have "dropWhile p s = s" "dropWhile p (rev s) = rev s"
    using False by (metis dropWhile.simps(2) list.collapse rev_is_Nil_conv)+
  ultimately show ?thesis by (simp add: strings_TrimFunc_def)
qed (simp add: strings_TrimFunc_def)

lemma trim_idem [simp]: "strings_TrimFunc (strings_TrimFunc s p) p = strings_TrimFunc s p"
  using trim_ends [of s p] by (rule trim_id)

lemma fields_loop_sound:
  "list_all (\<lambda>c. \<not> p c) word \<Longrightarrow> list_all (\<lambda>w. w \<noteq> [] \<and> list_all (\<lambda>c. \<not> p c) w) (fields_loop p word s)"
  by (induction p word s rule: fields_loop.induct) simp_all

lemma FieldsFunc_sound:
  "w \<in> set (strings_FieldsFunc s p) \<Longrightarrow> w \<noteq> [] \<and> (\<forall>c \<in> set w. \<not> p c)"
  using fields_loop_sound [of p "[]" s] unfolding strings_FieldsFunc_def list_all_iff by simp

lemma Fields_sound:
  "w \<in> set (strings_Fields s) \<Longrightarrow> w \<noteq> [] \<and> (\<forall>c \<in> set w. \<not> ascii_space c)"
  unfolding strings_Fields_def by (rule FieldsFunc_sound)

lemma fields_loop_word: "\<forall>c \<in> set w. \<not> p c \<Longrightarrow> fields_loop p word (w @ s) = fields_loop p (word @ w) s"
  by (induction w arbitrary: word) simp_all

text \<open>Splitting a joined list of words gives the words back.\<close>

lemma Fields_Join:
  assumes "\<forall>w \<in> set ws. w \<noteq> [] \<and> (\<forall>c \<in> set w. \<not> ascii_space c)"
  shows "strings_Fields (strings_Join ws '' '') = ws"
  using assms unfolding strings_Fields_def strings_FieldsFunc_def
proof (induction ws "'' ''" rule: strings_Join.induct)
  case (2 s)
  then show ?case using fields_loop_word [of s ascii_space "[]" "[]"] by simp
next
  case (3 s t ss)
  then show ?case by (simp add: fields_loop_word)
qed simp

lemma strset_keys: "set (gm_keys (strset_Set s v)) = insert v (set (gm_keys s))"
  by (simp add: strset_Set_def)

lemma strset_Has_iff: "strset_Has s v \<longleftrightarrow> v \<in> set (gm_keys s)"
  by (metis strset_Has_def gm_get_None_iff)

lemma strset_inv [simp]: "gm_inv s \<Longrightarrow> gm_inv (strset_Set s v)"
  by (simp add: strset_Set_def)

lemma strset_fold: "set (gm_keys (fold (\<lambda>v s. strset_Set s v) vs s)) = set vs \<union> set (gm_keys s) \<and>
    (gm_inv s \<longrightarrow> gm_inv (fold (\<lambda>v s. strset_Set s v) vs s))"
proof (induction vs arbitrary: s)
  case (Cons v vs)
  then show ?case using strset_keys [of s v] strset_inv [of s v] by auto
qed simp

lemma strset_New_Has: "strset_Has (strset_New vs) v \<longleftrightarrow> v \<in> set vs"
  using strset_fold [of vs "[]"] unfolding strset_Has_iff strset_New_def by simp

section \<open>Escaping\<close>

text \<open>The specification: every character on its own.\<close>

definition escape_char :: "char \<Rightarrow> string" where
  "escape_char c = (case escape_of c of None \<Rightarrow> [c] | Some esc \<Rightarrow> esc)"

lemma xml_escape_loop_eq:
  assumes "start \<le> i" and "i \<le> length s" and "\<forall>j. start \<le> j \<and> j < i \<longrightarrow> escape_of (s ! j) = None"
  shows "xml_escape_loop s start i = take (i - start) (drop start s) @ concat (map escape_char (drop i s))"
  using assms
proof (induction s start i rule: xml_escape_loop.induct)
  case (1 s start i)
  show ?case
  proof (cases "length s \<le> i")
    case True
    then have "i = length s" using 1 by simp
    then show ?thesis by (subst xml_escape_loop.simps) simp
  next
    case False
    then have d: "drop i s = s ! i # drop (Suc i) s" by (simp add: Cons_nth_drop_Suc)
    show ?thesis
    proof (cases "escape_of (s ! i)")
      case None
      have "take (Suc i - start) (drop start s) = take (i - start) (drop start s) @ [s ! i]"
        using False 1(3) by (simp add: Suc_diff_le take_Suc_conv_app_nth)
      moreover have "xml_escape_loop s start (i + 1) =
          take (i + 1 - start) (drop start s) @ concat (map escape_char (drop (i + 1) s))"
        using False None 1(3-5) by (intro 1(1)) (auto simp: less_Suc_eq)
      ultimately show ?thesis using False None d
        by (subst xml_escape_loop.simps) (simp add: escape_char_def)
    next
      case (Some esc)
      have "xml_escape_loop s (i + 1) (i + 1) = concat (map escape_char (drop (i + 1) s))"
      proof -
        have "\<forall>j. i + 1 \<le> j \<and> j < i + 1 \<longrightarrow> escape_of (s ! j) = None" by auto
        then show ?thesis using 1(2) [OF False Some] False by simp
      qed
      then show ?thesis using False Some d
        by (subst xml_escape_loop.simps) (simp add: escape_char_def)
    qed
  qed
qed

text \<open>
  The escaping loop, which copies maximal unescaped runs of the input, produces
  exactly what escaping each character on its own produces.
\<close>

lemma XMLEscape_charwise: "XMLEscape s = concat (map escape_char s)"
  using xml_escape_loop_eq [of 0 0 s] by (simp add: XMLEscape_def)

lemma escape_char_safe: "c \<in> set (escape_char d) \<Longrightarrow> c \<noteq> CHR ''<'' \<and> c \<noteq> CHR ''>'' \<and> c \<noteq> CHR 0x22 \<and> c \<noteq> CHR 0x27 \<and> c \<noteq> CHR 0x00"
  by (auto simp: escape_char_def escape_of_def split: if_splits)

text \<open>
  Escaped text holds none of the characters that could open a tag or end an attribute
  value.
\<close>

lemma XMLEscape_safe: "set (XMLEscape s) \<inter> {CHR ''<'', CHR ''>'', CHR 0x22, CHR 0x27, CHR 0x00} = {}"
proof -
  have "set (XMLEscape s) = (\<Union>d \<in> set s. set (escape_char d))"
    using xml_escape_loop_eq [of 0 0 s] by (simp add: XMLEscape_def)
  then show ?thesis using escape_char_safe by blast
qed

text \<open>The apostrophe is replaced by a text that is no character reference.\<close>

lemma XMLEscape_apostrophe: "XMLEscape ''it's'' = ''itapos;s''"
  using xml_escape_loop_eq [of 0 0 "''it's''"]
  by (simp add: XMLEscape_def escape_char_def escape_of_def)

text \<open>A printed number is read as itself, so different numbers are printed differently.\<close>

lemma decimal_loop_append:
  "decimal_loop n (s @ t) = (case decimal_loop n s of None \<Rightarrow> None | Some m \<Rightarrow> decimal_loop m t)"
  by (induction n s rule: decimal_loop.induct) (auto split: option.splits)

lemma digit10_char: "d < 10 \<Longrightarrow> digit10 (char_of (48 + d)) = Some d"
  by (simp add: digit10_def byte_code_def)

lemma decimal_loop_string: "decimal_loop 0 (decimal_string n) = Some n"
proof (induction n rule: decimal_string.induct)
  case (1 n)
  show ?case
  proof (cases "n < 10")
    case True
    then show ?thesis by (subst decimal_string.simps) (simp add: digit10_char)
  next
    case False
    have "10 * (n div 10) + n mod 10 = n" by simp
    then show ?thesis using False 1
      by (subst decimal_string.simps) (simp add: decimal_loop_append digit10_char)
  qed
qed

lemma decimal_string_nonempty: "decimal_string n \<noteq> []"
  by (subst decimal_string.simps) simp

lemma decimal_decimal_string: "decimal (decimal_string n) = Some n"
  by (simp add: decimal_def decimal_string_nonempty decimal_loop_string)

lemma decimal_string_inject: "decimal_string m = decimal_string n \<longleftrightarrow> m = n"
  by (metis decimal_decimal_string option.inject)

end
