(* ===== verification/Meta.thy ===== *)
theory Meta
  imports Zid GoStrings
begin

text \<open>
  Zettel metadata, package \<open>zettel/meta\<close>: the registry of keys and their types
  (\<open>meta.go\<close>, \<open>type.go\<close>), the metadata value itself with its accessors and orderings
  (\<open>meta.go\<close>), the typed insertion the parsers use (\<open>parse.go\<close>), visibility and user role
  values (\<open>values.go\<close>), serialisation (\<open>write.go\<close>) and arrangements (\<open>collection.go\<close>).
\<close>

section \<open>The client library\<close>

text \<open>
  Key and value names are constants of the client library \<open>t73f.de/r/zsc/api\<close>; the model
  takes them as the parameter \<open>z\<close>, together with the functions of that library.
\<close>

datatype api_key =
    KeyID | KeyTitle | KeyRole | KeyTags | KeySyntax | KeyFolge | KeySuccessors
  | KeySubordinates | KeyAuthor | KeyBack | KeyBackward | KeyBoxNumber | KeyCopyright
  | KeyCreated | KeyCredential | KeyDead | KeyExpire | KeyFolgeRole | KeyForward | KeyLang
  | KeyLicense | KeyModified | KeyPrecursor | KeyPredecessor | KeyPublished | KeyQuery
  | KeyReadOnly | KeySummary | KeySuperior | KeyURL | KeyUselessFiles | KeyUserID
  | KeyUserRole | KeyVisibility

datatype api_value =
    ValueVisibilityPublic | ValueVisibilityCreator | ValueVisibilityLogin
  | ValueVisibilityOwner | ValueVisibilityExpert
  | ValueUserRoleCreator | ValueUserRoleReader | ValueUserRoleWriter | ValueUserRoleOwner

record zsc =
  api_key :: "api_key \<Rightarrow> string"
  api_value :: "api_value \<Rightarrow> string"
  input_IsSpace :: "char \<Rightarrow> bool"
  maps_Keys :: "string list \<Rightarrow> string list"

section \<open>Types of keys\<close>

datatype DescriptionType =
    TypeCredential | TypeEmpty | TypeID | TypeIDSet | TypeNumber | TypeString | TypeTagSet
  | TypeTimestamp | TypeURL | TypeWord | TypeZettelmarkup

definition IsSet :: "DescriptionType \<Rightarrow> bool" where
  "IsSet t \<longleftrightarrow> t = TypeIDSet \<or> t = TypeTagSet"

datatype keyUsage = usageUser | usageComputed | usageProperty

record DescriptionKey =
  Name :: string
  KeyType :: DescriptionType
  usage :: keyUsage
  Inverse_of :: string

definition kd_IsComputed :: "DescriptionKey \<Rightarrow> bool" where
  "kd_IsComputed kd \<longleftrightarrow> usage kd = usageComputed \<or> usage kd = usageProperty"

definition kd_IsProperty :: "DescriptionKey \<Rightarrow> bool" where
  "kd_IsProperty kd \<longleftrightarrow> usage kd = usageProperty"

type_synonym keymap = "(string, DescriptionKey) gomap"

text \<open>\<open>registerKey\<close>, every panic being \<open>None\<close>.\<close>

definition registerKey :: "keymap \<Rightarrow> DescriptionKey \<Rightarrow> keymap option" where
  "registerKey m kd =
     (if gm_get m (Name kd) \<noteq> None then None
      else if Inverse_of kd \<noteq> [] \<and> KeyType kd \<noteq> TypeID \<and> KeyType kd \<noteq> TypeIDSet then None
      else if Inverse_of kd \<noteq> [] \<and>
          (case gm_get m (Inverse_of kd) of
             None \<Rightarrow> True | Some kdi \<Rightarrow> \<not> kd_IsComputed kdi \<or> KeyType kdi \<noteq> TypeIDSet) then None
      else Some (gm_put m (Name kd) kd))"

fun registerKeys :: "keymap \<Rightarrow> DescriptionKey list \<Rightarrow> keymap option" where
  "registerKeys m [] = Some m"
| "registerKeys m (kd # kds) = (case registerKey m kd of None \<Rightarrow> None | Some m' \<Rightarrow> registerKeys m' kds)"

definition KeyCreatedMissing :: string where
  "KeyCreatedMissing = ''created-missing''"

definition mkKey :: "string \<Rightarrow> DescriptionType \<Rightarrow> keyUsage \<Rightarrow> string \<Rightarrow> DescriptionKey" where
  "mkKey name t u ivk = \<lparr>Name = name, KeyType = t, usage = u, Inverse_of = ivk\<rparr>"

text \<open>The calls of \<open>init\<close>, in their order.\<close>

definition supportedKeys :: "zsc \<Rightarrow> DescriptionKey list" where
  "supportedKeys z = (let k = api_key z in
    [mkKey (k KeyID) TypeID usageComputed [],
     mkKey (k KeyTitle) TypeEmpty usageUser [],
     mkKey (k KeyRole) TypeWord usageUser [],
     mkKey (k KeyTags) TypeTagSet usageUser [],
     mkKey (k KeySyntax) TypeWord usageUser [],
     mkKey (k KeyFolge) TypeIDSet usageProperty [],
     mkKey (k KeySuccessors) TypeIDSet usageProperty [],
     mkKey (k KeySubordinates) TypeIDSet usageProperty [],
     mkKey (k KeyAuthor) TypeString usageUser [],
     mkKey (k KeyBack) TypeIDSet usageProperty [],
     mkKey (k KeyBackward) TypeIDSet usageProperty [],
     mkKey (k KeyBoxNumber) TypeNumber usageProperty [],
     mkKey (k KeyCopyright) TypeString usageUser [],
     mkKey (k KeyCreated) TypeTimestamp usageComputed [],
     mkKey (k KeyCredential) TypeCredential usageUser [],
     mkKey KeyCreatedMissing TypeWord usageProperty [],
     mkKey (k KeyDead) TypeIDSet usageProperty [],
     mkKey (k KeyExpire) TypeTimestamp usageUser [],
     mkKey (k KeyFolgeRole) TypeWord usageUser [],
     mkKey (k KeyForward) TypeIDSet usageProperty [],
     mkKey (k KeyLang) TypeWord usageUser [],
     mkKey (k KeyLicense) TypeEmpty usageUser [],
     mkKey (k KeyModified) TypeTimestamp usageComputed [],
     mkKey (k KeyPrecursor) TypeIDSet usageUser (k KeyFolge),
     mkKey (k KeyPredecessor) TypeID usageUser (k KeySuccessors),
     mkKey (k KeyPublished) TypeTimestamp usageProperty [],
     mkKey (k KeyQuery) TypeEmpty usageUser [],
     mkKey (k KeyReadOnly) TypeWord usageUser [],
     mkKey (k KeySummary) TypeZettelmarkup usageUser [],
     mkKey (k KeySuperior) TypeIDSet usageUser (k KeySubordinates),
     mkKey (k KeyURL) TypeURL usageUser [],
     mkKey (k KeyUselessFiles) TypeString usageProperty [],
     mkKey (k KeyUserID) TypeWord usageUser [],
     mkKey (k KeyUserRole) TypeWord usageUser [],
     mkKey (k KeyVisibility) TypeWord usageUser []])"

definition registeredKeys :: "zsc \<Rightarrow> keymap" where
  "registeredKeys z = (case registerKeys [] (supportedKeys z) of None \<Rightarrow> [] | Some m \<Rightarrow> m)"

definition IsComputed :: "zsc \<Rightarrow> string \<Rightarrow> bool" where
  "IsComputed z name = (case gm_get (registeredKeys z) name of Some kd \<Rightarrow> kd_IsComputed kd | None \<Rightarrow> False)"

definition IsProperty :: "zsc \<Rightarrow> string \<Rightarrow> bool" where
  "IsProperty z name = (case gm_get (registeredKeys z) name of Some kd \<Rightarrow> kd_IsProperty kd | None \<Rightarrow> False)"

definition Inverse :: "zsc \<Rightarrow> string \<Rightarrow> string" where
  "Inverse z name = (case gm_get (registeredKeys z) name of Some kd \<Rightarrow> Inverse_of kd | None \<Rightarrow> [])"

definition suffixTypes :: "(string \<times> DescriptionType) list" where
  "suffixTypes =
    [(''-date'', TypeTimestamp), (''-number'', TypeNumber), (''-role'', TypeWord),
     (''-time'', TypeTimestamp), (''-title'', TypeZettelmarkup), (''-url'', TypeURL),
     (''-zettel'', TypeID), (''-zid'', TypeID), (''-zids'', TypeIDSet)]"

fun suffix_lookup :: "string \<Rightarrow> (string \<times> DescriptionType) list \<Rightarrow> DescriptionType option" where
  "suffix_lookup key [] = None"
| "suffix_lookup key ((sfx, t) # rest) =
     (if strings_HasSuffix key sfx then Some t else suffix_lookup key rest)"

text \<open>
  \<open>Type\<close> with its cache of keys whose type came from a suffix. \<open>order\<close> is the order in which
  the \<open>range\<close> loop visits the map \<open>suffixTypes\<close>.
\<close>

type_synonym typecache = "(string, DescriptionType) gomap"

definition Type_cached :: "zsc \<Rightarrow> (string \<times> DescriptionType) list \<Rightarrow> typecache \<Rightarrow> string \<Rightarrow> DescriptionType \<times> typecache" where
  "Type_cached z order cache key =
     (case gm_get (registeredKeys z) key of
        Some k \<Rightarrow> (KeyType k, cache)
      | None \<Rightarrow>
          (case gm_get cache key of
             Some t \<Rightarrow> (t, cache)
           | None \<Rightarrow>
               (case suffix_lookup key order of
                  Some t \<Rightarrow> (t, gm_put cache key t)
                | None \<Rightarrow> (TypeEmpty, cache))))"

text \<open>The type of a key, which the theorem on \<open>Type_cached\<close> below justifies as a pure function.\<close>

definition TypeOf :: "zsc \<Rightarrow> string \<Rightarrow> DescriptionType" where
  "TypeOf z key =
     (case gm_get (registeredKeys z) key of
        Some k \<Rightarrow> KeyType k
      | None \<Rightarrow> (case suffix_lookup key suffixTypes of Some t \<Rightarrow> t | None \<Rightarrow> TypeEmpty))"

definition GetDescription :: "zsc \<Rightarrow> string \<Rightarrow> DescriptionKey" where
  "GetDescription z name =
     (case gm_get (registeredKeys z) name of
        Some d \<Rightarrow> d | None \<Rightarrow> mkKey [] (TypeOf z name) usageUser [])"

section \<open>The metadata value\<close>

record meta =
  m_Zid :: zid
  m_ZidN :: zidN
  pairs :: "(string, string) gomap"
  YamlSep :: bool

definition meta_New :: "zid \<Rightarrow> meta" where
  "meta_New zid = \<lparr>m_Zid = zid, m_ZidN = 0, pairs = [], YamlSep = False\<rparr>"

definition NewWithData :: "zid \<Rightarrow> (string, string) gomap \<Rightarrow> meta" where
  "NewWithData zid data = \<lparr>m_Zid = zid, m_ZidN = 0, pairs = fold (\<lambda>(k, v) m. gm_put m k v) data [], YamlSep = False\<rparr>"

definition meta_Map :: "meta \<Rightarrow> (string, string) gomap" where
  "meta_Map m = fold (\<lambda>(k, v) ps. gm_put ps k v) (pairs m) []"

definition meta_Clone :: "meta \<Rightarrow> meta" where
  "meta_Clone m = \<lparr>m_Zid = m_Zid m, m_ZidN = m_ZidN m, pairs = meta_Map m, YamlSep = YamlSep m\<rparr>"

fun meta_Length :: "meta option \<Rightarrow> nat" where
  "meta_Length None = 0"
| "meta_Length (Some m) = fold (\<lambda>(k, v) result. result + (length k + length v + 1)) (pairs m) 6"

text \<open>The regular expression \<open>^[0-9a-z][-0-9a-z]{0,254}$\<close>.\<close>

definition key_start :: "char \<Rightarrow> bool" where
  "key_start c \<longleftrightarrow> (48 \<le> byte_code c \<and> byte_code c \<le> 57) \<or> (97 \<le> byte_code c \<and> byte_code c \<le> 122)"

definition KeyIsValid :: "string \<Rightarrow> bool" where
  "KeyIsValid s =
     (case s of [] \<Rightarrow> False
      | c # cs \<Rightarrow> key_start c \<and> list_all (\<lambda>c. key_start c \<or> c = CHR ''-'') cs \<and> length cs \<le> 254)"

definition firstKeys :: "zsc \<Rightarrow> string list" where
  "firstKeys z = [api_key z KeyTitle, api_key z KeyRole, api_key z KeyTags, api_key z KeySyntax]"

definition firstKeySet :: "zsc \<Rightarrow> strset" where
  "firstKeySet z = strset_New (firstKeys z)"

definition trimValue :: "zsc \<Rightarrow> string \<Rightarrow> string" where
  "trimValue z value = strings_TrimFunc value (input_IsSpace z)"

definition meta_Set :: "zsc \<Rightarrow> meta \<Rightarrow> string \<Rightarrow> string \<Rightarrow> meta" where
  "meta_Set z m key value =
     (if key \<noteq> api_key z KeyID then m\<lparr>pairs := gm_put (pairs m) key (trimValue z value)\<rparr> else m)"

definition SetNonEmpty :: "zsc \<Rightarrow> meta \<Rightarrow> string \<Rightarrow> string \<Rightarrow> meta" where
  "SetNonEmpty z m key value =
     (if value = [] then m\<lparr>pairs := gm_delete (pairs m) key\<rparr>
      else meta_Set z m key (trimValue z value))"

fun meta_GetPtr :: "zsc \<Rightarrow> meta option \<Rightarrow> string \<Rightarrow> string option" where
  "meta_GetPtr z None key = None"
| "meta_GetPtr z (Some m) key =
     (if key = api_key z KeyID then Some (zid_String (m_Zid m)) else gm_get (pairs m) key)"

abbreviation meta_Get :: "zsc \<Rightarrow> meta \<Rightarrow> string \<Rightarrow> string option" where
  "meta_Get z m \<equiv> meta_GetPtr z (Some m)"

definition GetDefault :: "zsc \<Rightarrow> meta option \<Rightarrow> string \<Rightarrow> string \<Rightarrow> string" where
  "GetDefault z m key def = (case meta_GetPtr z m key of Some value \<Rightarrow> value | None \<Rightarrow> def)"

definition GetTitle :: "zsc \<Rightarrow> meta \<Rightarrow> string" where
  "GetTitle z m =
     (case meta_Get z m (api_key z KeyTitle) of Some title \<Rightarrow> title | None \<Rightarrow> zid_String (m_Zid m))"

type_synonym meta_pair = "string \<times> string"

definition getFirstKeys :: "zsc \<Rightarrow> meta \<Rightarrow> meta_pair list" where
  "getFirstKeys z m = List.map_filter
     (\<lambda>key. case gm_get (pairs m) key of Some value \<Rightarrow> Some (key, value) | None \<Rightarrow> None) (firstKeys z)"

definition getKeysRest :: "zsc \<Rightarrow> meta \<Rightarrow> (string \<Rightarrow> bool) \<Rightarrow> string list" where
  "getKeysRest z m addKeyPred =
     sort (filter (\<lambda>k. \<not> strset_Has (firstKeySet z) k \<and> addKeyPred k) (gm_keys (pairs m)))"

definition doPairs :: "zsc \<Rightarrow> meta \<Rightarrow> meta_pair list \<Rightarrow> (string \<Rightarrow> bool) \<Rightarrow> meta_pair list" where
  "doPairs z m first addKeyPred =
     first @ map (\<lambda>k. (k, case gm_get (pairs m) k of Some v \<Rightarrow> v | None \<Rightarrow> [])) (getKeysRest z m addKeyPred)"

definition notComputedKey :: "zsc \<Rightarrow> string \<Rightarrow> bool" where
  "notComputedKey z key = (\<not> IsComputed z key)"

definition meta_Pairs :: "zsc \<Rightarrow> meta \<Rightarrow> meta_pair list" where
  "meta_Pairs z m = doPairs z m (getFirstKeys z m) (notComputedKey z)"

definition ComputedPairs :: "zsc \<Rightarrow> meta \<Rightarrow> meta_pair list" where
  "ComputedPairs z m = doPairs z m (getFirstKeys z m) (\<lambda>key. True)"

definition PairsRest :: "zsc \<Rightarrow> meta \<Rightarrow> meta_pair list" where
  "PairsRest z m = doPairs z m [] (notComputedKey z)"

definition ComputedPairsRest :: "zsc \<Rightarrow> meta \<Rightarrow> meta_pair list" where
  "ComputedPairsRest z m = doPairs z m [] (\<lambda>key. True)"

definition meta_Delete :: "zsc \<Rightarrow> meta \<Rightarrow> string \<Rightarrow> meta" where
  "meta_Delete z m key =
     (if key \<noteq> api_key z KeyID then m\<lparr>pairs := gm_delete (pairs m) key\<rparr> else m)"

definition equalValue :: "zsc \<Rightarrow> string \<Rightarrow> string \<Rightarrow> meta \<Rightarrow> bool \<Rightarrow> bool" where
  "equalValue z key val other allowComputed =
     (if allowComputed \<or> \<not> IsComputed z key then gm_get (pairs other) key = Some val else True)"

fun equal_loop :: "zsc \<Rightarrow> meta_pair list \<Rightarrow> strset \<Rightarrow> meta \<Rightarrow> bool \<Rightarrow> strset option" where
  "equal_loop z [] tested other allowComputed = Some tested"
| "equal_loop z ((k, v) # ps) tested other allowComputed =
     (if equalValue z k v other allowComputed
      then equal_loop z ps (strset_Set tested k) other allowComputed else None)"

fun meta_Equal :: "zsc \<Rightarrow> meta option \<Rightarrow> meta option \<Rightarrow> bool \<Rightarrow> bool" where
  "meta_Equal z None None allowComputed = True"
| "meta_Equal z (Some m) (Some other) allowComputed =
     (if m_Zid m \<noteq> m_Zid other then False
      else (case equal_loop z (pairs m) [] other allowComputed of
          None \<Rightarrow> False
        | Some tested \<Rightarrow>
            list_all (\<lambda>(k, v). strset_Has tested k \<or> equalValue z k v m allowComputed) (pairs other)))"
| "meta_Equal z _ _ allowComputed = False"

text \<open>
  \<open>RemoveNonGraphic\<close>; \<open>isGraphic\<close> is \<open>unicode.IsGraphic\<close>, all runes are one byte, and \<open>None\<close>
  is the panic of a slice expression. \<open>nextPos\<close> counts from \<open>pos\<close>, but the code uses it as a
  position in \<open>s\<close>.
\<close>

function nongraphic_loop :: "(char \<Rightarrow> bool) \<Rightarrow> string \<Rightarrow> nat \<Rightarrow> string \<Rightarrow> (nat \<times> string) option" where
  "nongraphic_loop isGraphic s pos sb =
     (if length s \<le> pos then Some (pos, sb)
      else case strings_IndexFunc (drop pos s) (\<lambda>r. \<not> isGraphic r) of
          None \<Rightarrow> Some (pos, sb)
        | Some nextPos \<Rightarrow>
            (case slice_range s pos nextPos of
               None \<Rightarrow> None
             | Some part \<Rightarrow> nongraphic_loop isGraphic s (nextPos + 1) (sb @ part @ '' '')))"
  by pat_completeness auto
termination
  by (relation "measure (\<lambda>(g, s, pos, sb). length s - pos)") (auto simp: slice_range_def split: if_splits)

declare nongraphic_loop.simps [simp del]

definition RemoveNonGraphic :: "(char \<Rightarrow> bool) \<Rightarrow> string \<Rightarrow> string option" where
  "RemoveNonGraphic isGraphic s =
     (if s = [] then Some []
      else case nongraphic_loop isGraphic s 0 [] of
          None \<Rightarrow> None
        | Some (pos, sb) \<Rightarrow>
            if pos = 0 then Some (strings_TrimSpace s)
            else Some (strings_TrimSpace (sb @ drop pos s)))"

definition Sanitize :: "(char \<Rightarrow> bool) \<Rightarrow> meta option \<Rightarrow> meta option option" where
  "Sanitize isGraphic m =
     (case m of None \<Rightarrow> Some None
      | Some m \<Rightarrow>
          map_option (\<lambda>ps. Some (m\<lparr>pairs := ps\<rparr>))
            (fold (\<lambda>k acc. case acc of None \<Rightarrow> None
               | Some ps \<Rightarrow>
                   (case gm_get ps k of None \<Rightarrow> Some ps
                    | Some v \<Rightarrow>
                        (case (RemoveNonGraphic isGraphic k, RemoveNonGraphic isGraphic v) of
                           (Some k', Some v') \<Rightarrow> Some (gm_put ps k' v') | _ \<Rightarrow> None)))
              (gm_keys (pairs m)) (Some (pairs m))))"

section \<open>Typed accessors, \<open>type.go\<close>\<close>

definition ListFromValue :: "string \<Rightarrow> string list" where
  "ListFromValue value = strings_Fields value"

definition SetList :: "zsc \<Rightarrow> meta \<Rightarrow> string \<Rightarrow> string list \<Rightarrow> meta" where
  "SetList z m key values =
     (if key \<noteq> api_key z KeyID
      then m\<lparr>pairs := gm_put (pairs m) key (strings_Join (map (trimValue z) values) '' '')\<rparr> else m)"

definition SetWord :: "zsc \<Rightarrow> meta \<Rightarrow> string \<Rightarrow> string \<Rightarrow> meta" where
  "SetWord z m key word = (case ListFromValue word of [] \<Rightarrow> m | w # ws \<Rightarrow> meta_Set z m key w)"

text \<open>\<open>now\<close> is the formatted local time.\<close>

definition SetNow :: "zsc \<Rightarrow> string \<Rightarrow> meta \<Rightarrow> string \<Rightarrow> meta" where
  "SetNow z now m key = meta_Set z m key now"

definition BoolValue :: "string \<Rightarrow> bool" where
  "BoolValue value = (case value of [] \<Rightarrow> True | c # cs \<Rightarrow> c \<notin> set ''0fFnN'')"

definition GetBool :: "zsc \<Rightarrow> meta option \<Rightarrow> string \<Rightarrow> bool" where
  "GetBool z m key = (case meta_GetPtr z m key of Some value \<Rightarrow> BoolValue value | None \<Rightarrow> False)"

definition ExpandTimestamp :: "string \<Rightarrow> string" where
  "ExpandTimestamp value =
     (let l = length value in
      if l = 4 then value @ ''0101000000''
      else if l = 6 then value @ ''01000000''
      else if l = 8 \<or> l = 10 \<or> l = 12 then value @ take (14 - l) ''000000''
      else if l = 14 then value
      else if 14 < l then take 14 value
      else value)"

text \<open>
  \<open>time.Parse\<close> with the layout \<open>20060102150405\<close>: fourteen digits that are a date of the
  proleptic Gregorian calendar and a time of day.
\<close>

definition is_leap :: "nat \<Rightarrow> bool" where
  "is_leap y \<longleftrightarrow> 4 dvd y \<and> (\<not> 100 dvd y \<or> 400 dvd y)"

definition days_in :: "nat \<Rightarrow> nat \<Rightarrow> nat" where
  "days_in m y = (if m = 2 then (if is_leap y then 29 else 28)
     else if m = 4 \<or> m = 6 \<or> m = 9 \<or> m = 11 then 30 else 31)"

type_synonym timestamp = "nat \<times> nat \<times> nat \<times> nat \<times> nat \<times> nat"

definition time_Parse :: "string \<Rightarrow> timestamp option" where
  "time_Parse s =
     (if length s \<noteq> 14 \<or> \<not> list_all (\<lambda>c. digit10 c \<noteq> None) s then None
      else
        let num = (\<lambda>i n. (case decimal (take n (drop i s)) of Some k \<Rightarrow> k | None \<Rightarrow> 0));
            y = num 0 4; mo = num 4 2; d = num 6 2; h = num 8 2; mi = num 10 2; sc = num 12 2 in
        if 1 \<le> mo \<and> mo \<le> 12 \<and> 1 \<le> d \<and> d \<le> days_in mo y \<and> h < 24 \<and> mi < 60 \<and> sc < 60
        then Some (y, mo, d, h, mi, sc) else None)"

definition TimeValue :: "string \<Rightarrow> timestamp option" where
  "TimeValue value = time_Parse (ExpandTimestamp value)"

definition GetList :: "zsc \<Rightarrow> meta option \<Rightarrow> string \<Rightarrow> string list option" where
  "GetList z m key = map_option ListFromValue (meta_GetPtr z m key)"

definition CleanTag :: "string \<Rightarrow> string" where
  "CleanTag tag = (if 1 < length tag \<and> hd tag = CHR ''#'' then tl tag else tag)"

definition TagsFromValue :: "string \<Rightarrow> string list" where
  "TagsFromValue value =
     map (\<lambda>tag. if 1 < length tag \<and> hd tag = CHR ''#'' then tl tag else tag)
       (ListFromValue (strings_ToLower value))"

definition NormalizeTag :: "string \<Rightarrow> string" where
  "NormalizeTag tag = (if 0 < length tag \<and> hd tag = CHR ''#'' then tag else ''#'' @ tag)"

definition GetNumber :: "zsc \<Rightarrow> meta option \<Rightarrow> string \<Rightarrow> int \<Rightarrow> int" where
  "GetNumber z m key def =
     (case meta_GetPtr z m key of
        None \<Rightarrow> def
      | Some value \<Rightarrow> (case strconv_ParseInt value of Some num \<Rightarrow> num | None \<Rightarrow> def))"

section \<open>Values, \<open>values.go\<close>\<close>

datatype Visibility = VisibilityUnknown | VisibilityPublic | VisibilityCreator
  | VisibilityLogin | VisibilityOwner | VisibilityExpert

definition GetVisibility :: "zsc \<Rightarrow> string \<Rightarrow> Visibility" where
  "GetVisibility z val =
     (case map_of
        [(api_value z ValueVisibilityPublic, VisibilityPublic),
         (api_value z ValueVisibilityCreator, VisibilityCreator),
         (api_value z ValueVisibilityLogin, VisibilityLogin),
         (api_value z ValueVisibilityOwner, VisibilityOwner),
         (api_value z ValueVisibilityExpert, VisibilityExpert)] val of
        Some vis \<Rightarrow> vis | None \<Rightarrow> VisibilityUnknown)"

datatype UserRole = UserRoleUnknown | UserRoleCreator | UserRoleReader | UserRoleWriter | UserRoleOwner

definition GetUserRole :: "zsc \<Rightarrow> string \<Rightarrow> UserRole" where
  "GetUserRole z val =
     (case map_of
        [(api_value z ValueUserRoleCreator, UserRoleCreator),
         (api_value z ValueUserRoleReader, UserRoleReader),
         (api_value z ValueUserRoleWriter, UserRoleWriter),
         (api_value z ValueUserRoleOwner, UserRoleOwner)] val of
        Some ur \<Rightarrow> ur | None \<Rightarrow> UserRoleUnknown)"

section \<open>Parsed headers, \<open>parse.go\<close>\<close>

definition isHeader :: "char \<Rightarrow> bool" where
  "isHeader ch \<longleftrightarrow> (97 \<le> byte_code ch \<and> byte_code ch \<le> 122) \<or> (48 \<le> byte_code ch \<and> byte_code ch \<le> 57) \<or>
     ch = CHR ''-'' \<or> (65 \<le> byte_code ch \<and> byte_code ch \<le> 90)"

definition addToSet :: "strset \<Rightarrow> string list \<Rightarrow> (string \<Rightarrow> bool) \<Rightarrow> strset" where
  "addToSet set0 elems useElem =
     fold (\<lambda>s set1. if 0 < length s \<and> useElem s then strset_Set set1 s else set1) elems set0"

definition addSet :: "zsc \<Rightarrow> meta \<Rightarrow> string \<Rightarrow> string \<Rightarrow> (string \<Rightarrow> bool) \<Rightarrow> meta" where
  "addSet z m key val useElem =
     (let newElems = strings_Fields val;
          oldElems = (case GetList z (Some m) key of Some old \<Rightarrow> old | None \<Rightarrow> []);
          set1 = addToSet [] newElems useElem
      in if length set1 = 0 then m
         else let set2 = addToSet set1 oldElems useElem
              in SetList z m key (maps_Keys z (gm_keys set2)))"

definition addData :: "zsc \<Rightarrow> meta \<Rightarrow> string \<Rightarrow> string \<Rightarrow> meta" where
  "addData z m k v =
     (case meta_Get z m k of
        None \<Rightarrow> meta_Set z m k v
      | Some old \<Rightarrow>
          if old = [] then meta_Set z m k v
          else if v \<noteq> [] then meta_Set z m k (old @ '' '' @ v)
          else m)"

definition addToMeta :: "zsc \<Rightarrow> meta \<Rightarrow> string \<Rightarrow> string \<Rightarrow> meta" where
  "addToMeta z m key0 val =
     (let v = trimValue z val; key = strings_ToLower key0 in
      if \<not> KeyIsValid key then m
      else if key = [] \<or> key = api_key z KeyID then m
      else case TypeOf z key of
          TypeTagSet \<Rightarrow> addSet z m key (strings_ToLower v) (\<lambda>s. hd s = CHR ''#'' \<and> 1 < length s)
        | TypeWord \<Rightarrow> meta_Set z m key (strings_ToLower v)
        | TypeID \<Rightarrow> if is_ok (Parse v) then meta_Set z m key v else m
        | TypeIDSet \<Rightarrow> addSet z m key v (\<lambda>s. is_ok (Parse s))
        | TypeTimestamp \<Rightarrow> if TimeValue v \<noteq> None then meta_Set z m key v else m
        | _ \<Rightarrow> addData z m key v)"

section \<open>Serialisation, \<open>write.go\<close>\<close>

text \<open>
  A writer that accepts \<open>cap\<close> more bytes and fails afterwards; \<open>None\<close> never fails. A write
  returns the number of bytes written and whether it failed.
\<close>

record writer =
  written :: string
  capacity :: "nat option"

definition io_WriteString :: "writer \<Rightarrow> string \<Rightarrow> writer \<times> nat \<times> bool" where
  "io_WriteString w s =
     (case capacity w of
        None \<Rightarrow> (w\<lparr>written := written w @ s\<rparr>, length s, False)
      | Some n \<Rightarrow>
          if length s \<le> n then (\<lparr>written = written w @ s, capacity = Some (n - length s)\<rparr>, length s, False)
          else (\<lparr>written = written w @ take n s, capacity = Some 0\<rparr>, n, True))"

definition write_next :: "string \<Rightarrow> writer \<times> nat \<times> bool \<Rightarrow> writer \<times> nat \<times> bool" where
  "write_next s st =
     (case st of (w, len, err) \<Rightarrow>
        if err then st else (case io_WriteString w s of (w', l, err') \<Rightarrow> (w', len + l, err')))"

fun write_pairs :: "(string \<Rightarrow> bool) \<Rightarrow> meta_pair list \<Rightarrow> writer \<times> nat \<times> bool \<Rightarrow> writer \<times> nat \<times> bool" where
  "write_pairs ignoreKeyPred [] st = st"
| "write_pairs ignoreKeyPred ((key, value) # ps) st =
     (if ignoreKeyPred key then write_pairs ignoreKeyPred ps st
      else if snd (snd st) then st
      else write_pairs ignoreKeyPred ps
        (write_next [CHR 0x0A] (write_next value (write_next '': '' (write_next key st)))))"

definition doWrite :: "zsc \<Rightarrow> meta \<Rightarrow> writer \<Rightarrow> (string \<Rightarrow> bool) \<Rightarrow> writer \<times> nat \<times> bool" where
  "doWrite z m w ignoreKeyPred = write_pairs ignoreKeyPred (ComputedPairs z m) (w, 0, False)"

definition meta_Write :: "zsc \<Rightarrow> meta \<Rightarrow> writer \<Rightarrow> writer \<times> nat \<times> bool" where
  "meta_Write z m w = doWrite z m w (IsComputed z)"

definition WriteComputed :: "zsc \<Rightarrow> meta \<Rightarrow> writer \<Rightarrow> writer \<times> nat \<times> bool" where
  "WriteComputed z m w = doWrite z m w (IsProperty z)"

section \<open>Arrangements, \<open>collection.go\<close>\<close>

type_synonym arrangement = "(string, meta list) gomap"

definition arr_append :: "arrangement \<Rightarrow> string \<Rightarrow> meta \<Rightarrow> arrangement" where
  "arr_append a val m = gm_put a val ((case gm_get a val of Some ms \<Rightarrow> ms | None \<Rightarrow> []) @ [m])"

definition createSetArrangement :: "zsc \<Rightarrow> meta list \<Rightarrow> string \<Rightarrow> arrangement" where
  "createSetArrangement z metaList key =
     fold (\<lambda>m a. case GetList z (Some m) key of
         Some vals \<Rightarrow> fold (\<lambda>val a. arr_append a val m) vals a | None \<Rightarrow> a) metaList []"

definition createSimplearrangement :: "zsc \<Rightarrow> meta list \<Rightarrow> string \<Rightarrow> arrangement" where
  "createSimplearrangement z metaList key =
     fold (\<lambda>m a. case meta_Get z m key of
         Some val \<Rightarrow> if val \<noteq> [] then arr_append a val m else a | None \<Rightarrow> a) metaList []"

definition CreateArrangement :: "zsc \<Rightarrow> meta list \<Rightarrow> string \<Rightarrow> arrangement" where
  "CreateArrangement z metaList key =
     (if metaList = [] then []
      else if IsSet (TypeOf z key) then createSetArrangement z metaList key
      else createSimplearrangement z metaList key)"

text \<open>A counted category: its name and its count.\<close>

type_synonym counted = "string \<times> nat"

definition arr_Counted :: "arrangement \<Rightarrow> counted list" where
  "arr_Counted a = map (\<lambda>(cat, metas). (cat, length metas)) a"

definition count_cmp :: "counted \<Rightarrow> counted \<Rightarrow> int" where
  "count_cmp i j =
     (if snd i > snd j then -1
      else if snd i = snd j then (if fst i < fst j then -1 else if fst i = fst j then 0 else 1)
      else 1)"

definition name_cmp :: "counted \<Rightarrow> counted \<Rightarrow> int" where
  "name_cmp i j = (if fst i < fst j then -1 else if fst i = fst j then 0 else 1)"

text \<open>
  \<open>slices.SortFunc\<close>: a stable insertion sort stands for it, which is exact here because the
  comparison tells different categories apart.
\<close>

fun insert_func :: "('a \<Rightarrow> 'a \<Rightarrow> int) \<Rightarrow> 'a \<Rightarrow> 'a list \<Rightarrow> 'a list" where
  "insert_func cmp x [] = [x]"
| "insert_func cmp x (y # ys) = (if cmp x y \<le> 0 then x # y # ys else y # insert_func cmp x ys)"

fun slices_SortFunc :: "('a \<Rightarrow> 'a \<Rightarrow> int) \<Rightarrow> 'a list \<Rightarrow> 'a list" where
  "slices_SortFunc cmp [] = []"
| "slices_SortFunc cmp (x # xs) = insert_func cmp x (slices_SortFunc cmp xs)"

definition SortByName :: "counted list \<Rightarrow> counted list" where
  "SortByName ccs = slices_SortFunc name_cmp ccs"

definition SortByCount :: "counted list \<Rightarrow> counted list" where
  "SortByCount ccs = slices_SortFunc count_cmp ccs"

definition Categories :: "counted list \<Rightarrow> string list" where
  "Categories ccs = map fst ccs"

end
