(* ===== verification/MetaLaws.thy ===== *)
theory MetaLaws
  imports Meta
begin

text \<open>
  What the metadata operations guarantee: the key registry can be built, the type cache is
  transparent, the listings are complete and ordered, comparison is equality of the maps,
  and the typed insertion of the parsers keeps every stored value well typed.
\<close>

section \<open>Documented behaviour of the client library\<close>

definition all_keys :: "api_key list" where
  "all_keys =
    [KeyID, KeyTitle, KeyRole, KeyTags, KeySyntax, KeyFolge, KeySuccessors, KeySubordinates,
     KeyAuthor, KeyBack, KeyBackward, KeyBoxNumber, KeyCopyright, KeyCreated, KeyCredential,
     KeyDead, KeyExpire, KeyFolgeRole, KeyForward, KeyLang, KeyLicense, KeyModified,
     KeyPrecursor, KeyPredecessor, KeyPublished, KeyQuery, KeyReadOnly, KeySummary,
     KeySuperior, KeyURL, KeyUselessFiles, KeyUserID, KeyUserRole, KeyVisibility]"

text \<open>
  Key names differ from each other and from the program's own key, the values of one
  enumeration differ from each other, a blank is a space, and \<open>maps.Keys\<close> sorts.
\<close>

definition zsc_ok :: "zsc \<Rightarrow> bool" where
  "zsc_ok z \<longleftrightarrow>
     distinct (KeyCreatedMissing # map (api_key z) all_keys) \<and>
     distinct (map (api_value z) [ValueVisibilityPublic, ValueVisibilityCreator, ValueVisibilityLogin,
       ValueVisibilityOwner, ValueVisibilityExpert]) \<and>
     distinct (map (api_value z) [ValueUserRoleCreator, ValueUserRoleReader, ValueUserRoleWriter,
       ValueUserRoleOwner]) \<and>
     input_IsSpace z CHR '' '' \<and>
     (\<forall>c. input_IsSpace z c \<longrightarrow> ascii_space c) \<and>
     (\<forall>ks. distinct ks \<longrightarrow> maps_Keys z ks = sort ks)"

text \<open>The names the manual documents, for the witnesses.\<close>

fun doc_key :: "api_key \<Rightarrow> string" where
  "doc_key KeyID = ''id''" | "doc_key KeyTitle = ''title''" | "doc_key KeyRole = ''role''"
| "doc_key KeyTags = ''tags''" | "doc_key KeySyntax = ''syntax''" | "doc_key KeyFolge = ''folge''"
| "doc_key KeySuccessors = ''successors''" | "doc_key KeySubordinates = ''subordinates''"
| "doc_key KeyAuthor = ''author''" | "doc_key KeyBack = ''back''"
| "doc_key KeyBackward = ''backward''" | "doc_key KeyBoxNumber = ''box-number''"
| "doc_key KeyCopyright = ''copyright''" | "doc_key KeyCreated = ''created''"
| "doc_key KeyCredential = ''credential''" | "doc_key KeyDead = ''dead''"
| "doc_key KeyExpire = ''expire''" | "doc_key KeyFolgeRole = ''folge-role''"
| "doc_key KeyForward = ''forward''" | "doc_key KeyLang = ''lang''"
| "doc_key KeyLicense = ''license''" | "doc_key KeyModified = ''modified''"
| "doc_key KeyPrecursor = ''precursor''" | "doc_key KeyPredecessor = ''predecessor''"
| "doc_key KeyPublished = ''published''" | "doc_key KeyQuery = ''query''"
| "doc_key KeyReadOnly = ''read-only''" | "doc_key KeySummary = ''summary''"
| "doc_key KeySuperior = ''superior''" | "doc_key KeyURL = ''url''"
| "doc_key KeyUselessFiles = ''useless-files''" | "doc_key KeyUserID = ''user-id''"
| "doc_key KeyUserRole = ''user-role''" | "doc_key KeyVisibility = ''visibility''"

fun doc_value :: "api_value \<Rightarrow> string" where
  "doc_value ValueVisibilityPublic = ''public''" | "doc_value ValueVisibilityCreator = ''creator''"
| "doc_value ValueVisibilityLogin = ''login''" | "doc_value ValueVisibilityOwner = ''owner''"
| "doc_value ValueVisibilityExpert = ''expert''" | "doc_value ValueUserRoleCreator = ''creator''"
| "doc_value ValueUserRoleReader = ''reader''" | "doc_value ValueUserRoleWriter = ''writer''"
| "doc_value ValueUserRoleOwner = ''owner''"

definition doc_zsc :: zsc where
  "doc_zsc = \<lparr>api_key = doc_key, api_value = doc_value, input_IsSpace = ascii_space, maps_Keys = sort\<rparr>"

lemma doc_zsc_ok: "zsc_ok doc_zsc"
  by (simp add: zsc_ok_def doc_zsc_def all_keys_def KeyCreatedMissing_def)

lemma all_keys_UNIV: "set all_keys = UNIV"
proof -
  have "k \<in> set all_keys" for k by (cases k) (simp_all add: all_keys_def)
  then show ?thesis by blast
qed

lemma api_key_inject [simp]: "zsc_ok z \<Longrightarrow> api_key z j = api_key z k \<longleftrightarrow> j = k"
  using all_keys_UNIV unfolding zsc_ok_def by (auto simp: distinct_map inj_on_def)

lemma api_key_missing [simp]: "zsc_ok z \<Longrightarrow> api_key z k \<noteq> KeyCreatedMissing"
  using all_keys_UNIV unfolding zsc_ok_def by (metis UNIV_I distinct.simps(2) image_eqI list.set_map)

section \<open>The registry\<close>

text \<open>A registration succeeds when its name is new and its inverse key is registered before.\<close>

fun reg_chain :: "DescriptionKey list \<Rightarrow> DescriptionKey list \<Rightarrow> bool" where
  "reg_chain done_kds [] \<longleftrightarrow> True"
| "reg_chain done_kds (kd # kds) \<longleftrightarrow>
     (Inverse_of kd = [] \<or> ((KeyType kd = TypeID \<or> KeyType kd = TypeIDSet) \<and>
        list_ex (\<lambda>d. Name d = Inverse_of kd \<and> kd_IsComputed d \<and> KeyType d = TypeIDSet) done_kds)) \<and>
     reg_chain (done_kds @ [kd]) kds"

lemma gm_put_new: "k \<notin> fst ` set m \<Longrightarrow> gm_put m k v = m @ [(k, v)]"
  by (induction m) (auto simp: gm_put_def)

lemma register_chain:
  assumes "distinct (map Name (ds @ kds))" and "reg_chain ds kds"
  shows "registerKeys (map (\<lambda>d. (Name d, d)) ds) kds = Some (map (\<lambda>d. (Name d, d)) (ds @ kds))"
  using assms
proof (induction kds arbitrary: ds)
  case (Cons kd kds)
  let ?m = "map (\<lambda>d. (Name d, d)) ds"
  have get: "gm_get ?m (Name d) = Some d" if "d \<in> set ds" for d
    using Cons.prems(1) that by (auto simp: comp_def intro!: map_of_is_SomeI)
  have fresh: "Name kd \<notin> fst ` set ?m" using Cons.prems(1) by auto
  then have new: "gm_get ?m (Name kd) = None" by (simp add: map_of_eq_None_iff)
  have ok: "Inverse_of kd = [] \<or> ((KeyType kd = TypeID \<or> KeyType kd = TypeIDSet) \<and>
      (\<exists>d. gm_get ?m (Inverse_of kd) = Some d \<and> kd_IsComputed d \<and> KeyType d = TypeIDSet))"
    using Cons.prems(2) get by (auto simp: list_ex_iff) metis+
  have "registerKey ?m kd = Some (gm_put ?m (Name kd) kd)"
    using ok new by (auto simp: registerKey_def)
  moreover have "gm_put ?m (Name kd) kd = map (\<lambda>d. (Name d, d)) (ds @ [kd])"
    using gm_put_new [OF fresh] by simp
  ultimately show ?case using Cons.IH [of "ds @ [kd]"] Cons.prems by simp
qed simp

lemma Name_mkKey [simp]: "Name (mkKey n t u i) = n" "KeyType (mkKey n t u i) = t"
    "usage (mkKey n t u i) = u" "Inverse_of (mkKey n t u i) = i"
  by (simp_all add: mkKey_def)

lemma supported_distinct: "zsc_ok z \<Longrightarrow> distinct (map Name (supportedKeys z))"
  by (simp add: supportedKeys_def Let_def) (simp add: KeyCreatedMissing_def [symmetric] api_key_missing [THEN not_sym])

lemma supported_chain: "reg_chain [] (supportedKeys z)"
  by (simp add: supportedKeys_def Let_def kd_IsComputed_def)

lemma registerKeys_supported:
  "zsc_ok z \<Longrightarrow> registerKeys [] (supportedKeys z) = Some (map (\<lambda>d. (Name d, d)) (supportedKeys z))"
  using register_chain [of "[]" "supportedKeys z"] supported_distinct [of z] supported_chain [of z] by simp

lemma registered_get:
  assumes "zsc_ok z" and "kd \<in> set (supportedKeys z)"
  shows "gm_get (registeredKeys z) (Name kd) = Some kd"
  using assms registerKeys_supported [OF assms(1)] supported_distinct [OF assms(1)]
  by (auto simp: registeredKeys_def comp_def intro!: map_of_is_SomeI)

lemma registered_set:
  assumes "zsc_ok z" and "gm_get (registeredKeys z) name = Some kd"
  shows "kd \<in> set (supportedKeys z) \<and> Name kd = name"
  using assms(2) registerKeys_supported [OF assms(1)]
  by (auto simp: registeredKeys_def dest!: map_of_SomeD)

text \<open>
  With the documented key names, the registration of all supported keys at program
  start never panics.
\<close>

lemma registry_total:
  assumes "zsc_ok z"
  shows "\<exists>m. registerKeys [] (supportedKeys z) = Some m"
  using registerKeys_supported [OF assms] by blast

lemma registry_total_witness: "\<exists>m. registerKeys [] (supportedKeys doc_zsc) = Some m"
  by (rule registry_total [OF doc_zsc_ok])

text \<open>The usage and type of the single keys.\<close>

lemma registered_key:
  assumes "zsc_ok z" and "mkKey (api_key z k) t u i \<in> set (supportedKeys z)"
  shows "gm_get (registeredKeys z) (api_key z k) = Some (mkKey (api_key z k) t u i)"
  using registered_get [OF assms] by simp

section \<open>The type of a key\<close>

text \<open>No suffix of the table is a suffix of another one: at most one matches a key.\<close>

lemma suffix_unique:
  assumes "(s, t) \<in> set suffixTypes" and "(s', t') \<in> set suffixTypes"
    and "suffix s key" and "suffix s' key"
  shows "s = s'"
proof -
  have "suffix s s' \<or> suffix s' s" using assms(3,4) suffix_same_cases by blast
  then show ?thesis using assms(1,2) by (auto simp: suffixTypes_def suffix_def)
qed

lemma suffix_lookup_None: "suffix_lookup key order = None \<longleftrightarrow> (\<forall>(s, t) \<in> set order. \<not> suffix s key)"
  by (induction key order rule: suffix_lookup.induct) (auto simp: strings_HasSuffix_def)

lemma suffix_lookup_Some: "suffix_lookup key order = Some t \<Longrightarrow> \<exists>s. (s, t) \<in> set order \<and> suffix s key"
  by (induction key order rule: suffix_lookup.induct) (auto simp: strings_HasSuffix_def split: if_splits)

lemma suffix_lookup_order:
  assumes "set order = set suffixTypes"
  shows "suffix_lookup key order = suffix_lookup key suffixTypes"
proof (cases "suffix_lookup key order")
  case None
  then show ?thesis using assms by (metis suffix_lookup_None)
next
  case (Some t)
  then obtain s where s: "(s, t) \<in> set suffixTypes" "suffix s key"
    using suffix_lookup_Some assms by blast
  then have "suffix_lookup key suffixTypes \<noteq> None" by (auto simp: suffix_lookup_None)
  then obtain t' where t': "suffix_lookup key suffixTypes = Some t'" by blast
  then obtain s' where s': "(s', t') \<in> set suffixTypes" "suffix s' key"
    using suffix_lookup_Some by blast
  have "s = s'" using suffix_unique [OF s(1) s'(1) s(2) s'(2)] .
  moreover have "distinct (map fst suffixTypes)" by (simp add: suffixTypes_def)
  ultimately have "t = t'" using s(1) s'(1) by (metis eq_key_imp_eq_value)
  then show ?thesis using Some t' by simp
qed

definition cache_ok :: "zsc \<Rightarrow> typecache \<Rightarrow> bool" where
  "cache_ok z cache \<longleftrightarrow> (\<forall>key t. gm_get cache key = Some t \<longrightarrow>
     gm_get (registeredKeys z) key = None \<longrightarrow> suffix_lookup key suffixTypes = Some t)"

fun cached_run :: "zsc \<Rightarrow> (string \<times> (string \<times> DescriptionType) list) list \<Rightarrow> typecache \<Rightarrow> DescriptionType list" where
  "cached_run z [] cache = []"
| "cached_run z ((key, order) # qs) cache =
     (case Type_cached z order cache key of (t, cache') \<Rightarrow> t # cached_run z qs cache')"

lemma Type_cached_step:
  assumes "cache_ok z cache" and "set order = set suffixTypes"
  shows "fst (Type_cached z order cache key) = TypeOf z key \<and> cache_ok z (snd (Type_cached z order cache key))"
  using assms suffix_lookup_order [OF assms(2), of key]
  by (auto simp: Type_cached_def TypeOf_def cache_ok_def split: option.splits)

lemma cached_run_from:
  "cache_ok z cache \<Longrightarrow> list_all (\<lambda>(key, order). set order = set suffixTypes) qs \<Longrightarrow>
   cached_run z qs cache = map (\<lambda>(key, order). TypeOf z key) qs"
proof (induction qs arbitrary: cache)
  case (Cons q qs)
  obtain key order where q: "q = (key, order)" by (cases q)
  obtain t c where r: "Type_cached z order cache key = (t, c)" by (cases "Type_cached z order cache key")
  show ?case using Cons Type_cached_step [OF Cons.prems(1), of order key] q r by simp
qed simp

text \<open>
  The type of a key depends neither on the order in which a map iteration visits the
  suffix table nor on the cache: any sequence of queries, each with its own iteration
  order, gets the types of the pure function.
\<close>

lemma Type_cache_transparent:
  assumes "list_all (\<lambda>(key, order). set order = set suffixTypes) qs"
  shows "cached_run z qs [] = map (\<lambda>(key, order). TypeOf z key) qs"
  using cached_run_from [OF _ assms] by (simp add: cache_ok_def)

lemma Type_cache_transparent_witness:
  "cached_run doc_zsc [(''x-zids'', rev suffixTypes), (''x-zids'', suffixTypes)] [] = [TypeOf doc_zsc ''x-zids'', TypeOf doc_zsc ''x-zids'']"
  by (subst Type_cache_transparent) simp_all

section \<open>Listing the pairs\<close>

lemma firstKeys_Has: "strset_Has (firstKeySet z) k \<longleftrightarrow> k \<in> set (firstKeys z)"
  by (simp add: firstKeySet_def strset_New_Has)

lemma getFirstKeys_set:
  "set (getFirstKeys z m) = {(k, v). k \<in> set (firstKeys z) \<and> gm_get (pairs m) k = Some v}"
  by (auto simp: getFirstKeys_def map_filter_def split: option.splits) force

lemma getFirstKeys_keys:
  "map fst (getFirstKeys z m) = filter (\<lambda>k. gm_get (pairs m) k \<noteq> None) (firstKeys z)"
proof -
  have "map fst (List.map_filter (\<lambda>key. case gm_get ps key of Some value \<Rightarrow> Some (key, value) | None \<Rightarrow> None) ks) =
      filter (\<lambda>k. gm_get ps k \<noteq> None) ks" for ps :: "(string \<times> string) list" and ks
    by (induction ks) (auto simp: List.map_filter_simps split: option.splits)
  then show ?thesis by (simp add: getFirstKeys_def)
qed

lemma getKeysRest_set: "set (getKeysRest z m p) = {k \<in> fst ` set (pairs m). k \<notin> set (firstKeys z) \<and> p k}"
  by (auto simp: getKeysRest_def firstKeys_Has)

lemma doPairs_set:
  assumes "gm_inv (pairs m)"
  shows "set (doPairs z m (getFirstKeys z m) p) =
    {(k, v). gm_get (pairs m) k = Some v \<and> (k \<in> set (firstKeys z) \<or> p k)}"
proof -
  have "(k, v) \<in> set (map (\<lambda>k. (k, case gm_get (pairs m) k of Some v \<Rightarrow> v | None \<Rightarrow> [])) (getKeysRest z m p)) \<longleftrightarrow>
      gm_get (pairs m) k = Some v \<and> k \<notin> set (firstKeys z) \<and> p k" for k v
    unfolding set_map image_iff Bex_def getKeysRest_set
    using gm_get_None_iff [of "pairs m" k] by (cases "gm_get (pairs m) k") (auto, force)
  then show ?thesis by (auto simp: doPairs_def getFirstKeys_set simp del: set_map)
qed

lemma firstKeys_distinct: "zsc_ok z \<Longrightarrow> distinct (firstKeys z)"
  by (simp add: firstKeys_def)

lemma doPairs_keys:
  "map fst (doPairs z m (getFirstKeys z m) p) =
     filter (\<lambda>k. gm_get (pairs m) k \<noteq> None) (firstKeys z) @ getKeysRest z m p"
  by (simp add: doPairs_def getFirstKeys_keys comp_def)

lemma getKeysRest_distinct: "gm_inv (pairs m) \<Longrightarrow> distinct (getKeysRest z m p)"
  by (simp add: getKeysRest_def gm_inv_def)

lemma doPairs_distinct:
  assumes "zsc_ok z" and "gm_inv (pairs m)"
  shows "distinct (map fst (doPairs z m (getFirstKeys z m) p))"
  using firstKeys_distinct [OF assms(1)] getKeysRest_distinct [OF assms(2)]
  by (auto simp: doPairs_keys getKeysRest_set)

text \<open>
  The listing of all pairs of a zettel is complete and in the documented order: every
  stored pair once, first the predefined keys in their order, then all other keys in
  ascending order.
\<close>

lemma ComputedPairs_complete:
  assumes "zsc_ok z" and "gm_inv (pairs m)"
  shows "mset (ComputedPairs z m) = mset (pairs m) \<and>
    (\<exists>rest. map fst (ComputedPairs z m) =
      filter (\<lambda>k. k \<in> fst ` set (pairs m)) (firstKeys z) @ rest \<and> sorted rest)"
proof
  have d: "distinct (ComputedPairs z m)"
    using doPairs_distinct [OF assms, of "\<lambda>key. True"] unfolding ComputedPairs_def
    by (simp add: distinct_map)
  have "distinct (pairs m)" using assms(2) by (simp add: gm_inv_def distinct_map)
  moreover have "set (ComputedPairs z m) = set (pairs m)"
    unfolding ComputedPairs_def doPairs_set [OF assms(2)]
    using gm_get_Some_iff [OF assms(2)] by auto
  ultimately show "mset (ComputedPairs z m) = mset (pairs m)"
    using d set_eq_iff_mset_eq_distinct by blast
  have "gm_get (pairs m) k \<noteq> None \<longleftrightarrow> k \<in> fst ` set (pairs m)" for k
    using gm_get_None_iff [of "pairs m" k] by simp
  then show "\<exists>rest. map fst (ComputedPairs z m) =
      filter (\<lambda>k. k \<in> fst ` set (pairs m)) (firstKeys z) @ rest \<and> sorted rest"
    unfolding ComputedPairs_def doPairs_keys by (auto simp: getKeysRest_def)
qed

lemma ComputedPairs_complete_witness:
  "mset (ComputedPairs doc_zsc (NewWithData 7 [(''zz'', ''1''), (''role'', ''r''), (''aa'', ''2'')])) =
     {#(''zz'', ''1''), (''role'', ''r''), (''aa'', ''2'')#}"
  by (subst ComputedPairs_complete [OF doc_zsc_ok, THEN conjunct1]) (simp_all add: NewWithData_def gm_put_def)

section \<open>Comparison\<close>

lemma equal_loop_Some:
  "equal_loop z ps tested other ac = Some t \<longleftrightarrow>
     (\<forall>(k, v) \<in> set ps. equalValue z k v other ac) \<and> t = fold (\<lambda>(k, v) s. strset_Set s k) ps tested"
  by (induction z ps tested other ac rule: equal_loop.induct) auto

lemma fold_strset_keys:
  "fold (\<lambda>(k, v) s. strset_Set s k) ps s = fold (\<lambda>k s. strset_Set s k) (map fst ps) s"
  by (induction ps arbitrary: s) auto

lemma equal_loop_keys:
  "equal_loop z ps [] other ac = Some t \<Longrightarrow> strset_Has t k \<longleftrightarrow> k \<in> fst ` set ps"
  using strset_fold [of "map fst ps" "[]"]
  by (auto simp: equal_loop_Some fold_strset_keys strset_Has_iff)

text \<open>
  Two metadata values compare as equal exactly when they belong to the same zettel and
  store the same value under every key that takes part in the comparison.
\<close>

lemma meta_Equal_iff:
  assumes "gm_inv (pairs m)" and "gm_inv (pairs n)"
  shows "meta_Equal z (Some m) (Some n) ac \<longleftrightarrow>
    m_Zid m = m_Zid n \<and> (\<forall>k. ac \<or> \<not> IsComputed z k \<longrightarrow> gm_get (pairs m) k = gm_get (pairs n) k)"
    (is "?L \<longleftrightarrow> ?R")
proof
  assume ?L
  then obtain t where z: "m_Zid m = m_Zid n" and t: "equal_loop z (pairs m) [] n ac = Some t"
      and r: "list_all (\<lambda>(k, v). strset_Has t k \<or> equalValue z k v m ac) (pairs n)"
    by (auto split: if_splits option.splits)
  have "gm_get (pairs m) k = gm_get (pairs n) k" if c: "ac \<or> \<not> IsComputed z k" for k
  proof (cases "gm_get (pairs m) k")
    case (Some v)
    then have "(k, v) \<in> set (pairs m)" by (rule map_of_SomeD)
    then have "equalValue z k v n ac" using t by (auto simp: equal_loop_Some)
    then show ?thesis using c Some by (simp add: equalValue_def)
  next
    case None
    show ?thesis
    proof (cases "gm_get (pairs n) k")
      case (Some v)
      then have "(k, v) \<in> set (pairs n)" by (rule map_of_SomeD)
      moreover have "\<not> strset_Has t k" using None equal_loop_keys [OF t] gm_get_None_iff [of "pairs m" k] by simp
      ultimately have "equalValue z k v m ac" using r by (auto simp: list_all_iff)
      then show ?thesis using c None by (simp add: equalValue_def)
    qed (simp add: None)
  qed
  then show ?R using z by blast
next
  assume R: ?R
  have "equalValue z k v n ac" if "(k, v) \<in> set (pairs m)" for k v
    using R that gm_get_Some_iff [OF assms(1), THEN iffD2, OF that] by (metis equalValue_def)
  then have m: "\<forall>(k, v) \<in> set (pairs m). equalValue z k v n ac" by blast
  have "equalValue z k v m ac" if "(k, v) \<in> set (pairs n)" for k v
    using R that gm_get_Some_iff [OF assms(2), THEN iffD2, OF that] by (metis equalValue_def)
  then have n: "\<forall>(k, v) \<in> set (pairs n). equalValue z k v m ac" by blast
  obtain t where "equal_loop z (pairs m) [] n ac = Some t" using m by (auto simp: equal_loop_Some)
  then show ?L using R n by (auto simp: list_all_iff)
qed

lemma meta_Equal_iff_witness:
  "meta_Equal doc_zsc (Some (NewWithData 7 [(''a'', ''1''), (''b'', ''2'')])) (Some (NewWithData 7 [(''b'', ''2''), (''a'', ''1'')])) True"
  by (subst meta_Equal_iff) (simp_all add: NewWithData_def gm_put_def fun_eq_iff)

section \<open>Typed insertion\<close>

text \<open>
  Which value a key may hold after the parsers: trimmed, of the form its type asks for, a set
  value being the sorted list of its elements.
\<close>

definition blank_set :: "(string \<Rightarrow> bool) \<Rightarrow> string \<Rightarrow> bool" where
  "blank_set p v \<longleftrightarrow> (\<exists>ws. v = strings_Join ws '' '' \<and> ws \<noteq> [] \<and> asc ws \<and>
     (\<forall>w \<in> set ws. w \<noteq> [] \<and> (\<forall>c \<in> set w. \<not> ascii_space c) \<and> p w))"

definition value_ok :: "zsc \<Rightarrow> string \<Rightarrow> string \<Rightarrow> bool" where
  "value_ok z key v \<longleftrightarrow>
     (case TypeOf z key of
        TypeTagSet \<Rightarrow> blank_set (\<lambda>w. hd w = CHR ''#'' \<and> 1 < length w) v
      | TypeIDSet \<Rightarrow> blank_set (\<lambda>w. is_ok (Parse w)) v
      | TypeID \<Rightarrow> is_ok (Parse v)
      | TypeTimestamp \<Rightarrow> TimeValue v \<noteq> None
      | TypeWord \<Rightarrow> strings_ToLower v = v \<and> trimValue z v = v
      | _ \<Rightarrow> trimValue z v = v)"

definition meta_ok :: "zsc \<Rightarrow> meta \<Rightarrow> bool" where
  "meta_ok z m \<longleftrightarrow> gm_inv (pairs m) \<and>
     (\<forall>k v. gm_get (pairs m) k = Some v \<longrightarrow> KeyIsValid k \<and> k \<noteq> api_key z KeyID \<and> value_ok z k v)"

lemma meta_ok_put:
  "meta_ok z m \<Longrightarrow> KeyIsValid k \<Longrightarrow> k \<noteq> api_key z KeyID \<Longrightarrow> value_ok z k v \<Longrightarrow>
   meta_ok z (m\<lparr>pairs := gm_put (pairs m) k v\<rparr>)"
  by (auto simp: meta_ok_def)

lemma trimValue_idem [simp]: "trimValue z (trimValue z v) = trimValue z v"
  by (simp add: trimValue_def)

lemma trim_nonspace:
  assumes "zsc_ok z" and "\<forall>c \<in> set w. \<not> ascii_space c"
  shows "trimValue z w = w"
proof -
  have "w = [] \<or> (\<not> input_IsSpace z (hd w) \<and> \<not> input_IsSpace z (last w))"
    using assms by (metis hd_in_set last_in_set zsc_ok_def)
  then show ?thesis unfolding trimValue_def by (rule trim_id)
qed

lemma addToSet_keys:
  "set (gm_keys (addToSet s ws p)) = set (gm_keys s) \<union> {w \<in> set ws. w \<noteq> [] \<and> p w}"
  "gm_inv s \<Longrightarrow> gm_inv (addToSet s ws p)"
proof -
  have "set (gm_keys (addToSet s ws p)) = set (gm_keys s) \<union> {w \<in> set ws. w \<noteq> [] \<and> p w} \<and>
      (gm_inv s \<longrightarrow> gm_inv (addToSet s ws p))" for s
  proof (induction ws arbitrary: s)
    case (Cons w ws)
    show ?case using Cons [of "if 0 < length w \<and> p w then strset_Set s w else s"] strset_keys [of s w]
      by (auto simp: addToSet_def)
  qed (simp add: addToSet_def)
  then show "set (gm_keys (addToSet s ws p)) = set (gm_keys s) \<union> {w \<in> set ws. w \<noteq> [] \<and> p w}"
    "gm_inv s \<Longrightarrow> gm_inv (addToSet s ws p)" by blast+
qed

lemma asc_sort: "distinct ws \<Longrightarrow> asc (sort ws)"
  by (simp add: strict_sorted_iff)

lemma addSet_ok:
  assumes "zsc_ok z" and "meta_ok z m" and "KeyIsValid k" and "k \<noteq> api_key z KeyID"
    and v: "\<And>v. value_ok z k v \<longleftrightarrow> blank_set p v"
  shows "meta_ok z (addSet z m k val p)"
proof -
  let ?old = "case GetList z (Some m) k of Some old \<Rightarrow> old | None \<Rightarrow> []"
  let ?s1 = "addToSet [] (strings_Fields val) p"
  let ?s2 = "addToSet ?s1 ?old p"
  let ?ws = "maps_Keys z (gm_keys ?s2)"
  show ?thesis
  proof (cases "?s1 = []")
    case True
    then show ?thesis using assms(2) by (simp add: addSet_def Let_def)
  next
    case False
    have i: "gm_inv ?s2" by (intro addToSet_keys(2)) simp
    have ws: "?ws = sort (gm_keys ?s2)" using assms(1) i by (simp add: zsc_ok_def gm_inv_def)
    have old: "\<forall>w \<in> set ?old. \<forall>c \<in> set w. \<not> ascii_space c"
      using Fields_sound by (auto simp: GetList_def ListFromValue_def split: option.splits)
    have el: "w \<noteq> [] \<and> (\<forall>c \<in> set w. \<not> ascii_space c) \<and> p w" if "w \<in> set ?ws" for w
      using that old Fields_sound [of w val] unfolding ws addToSet_keys set_sort by auto
    have "set (gm_keys ?s1) \<noteq> {}" using False by simp
    then have "set (gm_keys ?s2) \<noteq> {}" unfolding addToSet_keys(1) [of ?s1] by blast
    then have "?ws \<noteq> []" using ws by (metis set_empty set_sort)
    moreover have "asc ?ws" unfolding ws by (rule asc_sort) (use i in \<open>simp add: gm_inv_def\<close>)
    ultimately have "blank_set p (strings_Join ?ws '' '')"
      using el unfolding blank_set_def by blast
    moreover have "map (trimValue z) ?ws = ?ws"
      using el trim_nonspace [OF assms(1)] by (simp add: map_idI)
    ultimately show ?thesis
      using False meta_ok_put [OF assms(2,3,4)] v assms(4) by (simp add: addSet_def SetList_def Let_def)
  qed
qed

lemma meta_Set_ok:
  "meta_ok z m \<Longrightarrow> KeyIsValid k \<Longrightarrow> value_ok z k (trimValue z v) \<Longrightarrow> meta_ok z (meta_Set z m k v)"
  by (simp add: meta_Set_def meta_ok_put)

lemma lower_trim:
  assumes "zsc_ok z"
  shows "strings_ToLower (trimValue z (strings_ToLower v)) = trimValue z (strings_ToLower v)"
proof -
  have "map lower_char s = s" if "set s \<subseteq> set (strings_ToLower v)" for s
    using that by (induction s) (auto simp: strings_ToLower_def)
  then show ?thesis using TrimFunc_sub [of "strings_ToLower v"]
    by (simp add: trimValue_def strings_ToLower_def [of "strings_TrimFunc _ _"])
qed

lemma addToMeta_cases:
  assumes "KeyIsValid (strings_ToLower key)" and "strings_ToLower key \<noteq> api_key z KeyID"
  shows "addToMeta z m key val = (case TypeOf z (strings_ToLower key) of
      TypeTagSet \<Rightarrow> addSet z m (strings_ToLower key) (strings_ToLower (trimValue z val))
        (\<lambda>s. hd s = CHR ''#'' \<and> 1 < length s)
    | TypeWord \<Rightarrow> meta_Set z m (strings_ToLower key) (strings_ToLower (trimValue z val))
    | TypeID \<Rightarrow> if is_ok (Parse (trimValue z val)) then meta_Set z m (strings_ToLower key) (trimValue z val) else m
    | TypeIDSet \<Rightarrow> addSet z m (strings_ToLower key) (trimValue z val) (\<lambda>s. is_ok (Parse s))
    | TypeTimestamp \<Rightarrow> if TimeValue (trimValue z val) \<noteq> None
        then meta_Set z m (strings_ToLower key) (trimValue z val) else m
    | _ \<Rightarrow> addData z m (strings_ToLower key) (trimValue z val))"
proof -
  have nil: "\<not> KeyIsValid []" by (simp add: KeyIsValid_def)
  have a: "\<not> \<not> KeyIsValid (strings_ToLower key)" using assms(1) by blast
  have b: "\<not> (strings_ToLower key = [] \<or> strings_ToLower key = api_key z KeyID)"
    using nil assms by metis
  show ?thesis unfolding addToMeta_def Let_def if_not_P [OF a] if_not_P [OF b] by (rule refl)
qed

lemma addToMeta_rejected:
  "\<not> (KeyIsValid (strings_ToLower key) \<and> strings_ToLower key \<noteq> api_key z KeyID) \<Longrightarrow> addToMeta z m key val = m"
  unfolding addToMeta_def Let_def by presburger

lemma addData_ok:
  assumes "meta_ok z m" and "KeyIsValid k" and "\<And>w. value_ok z k (trimValue z w)"
  shows "meta_ok z (addData z m k v)"
proof (cases "meta_Get z m k")
  case None
  then show ?thesis using meta_Set_ok [OF assms(1,2) assms(3)] unfolding addData_def by simp
next
  case (Some old)
  then show ?thesis using meta_Set_ok [OF assms(1,2) assms(3)] assms(1) unfolding addData_def by simp
qed



section \<open>Clones and maps\<close>

lemma fold_put_get:
  "gm_inv ps \<Longrightarrow> gm_get (fold (\<lambda>(k, v) m. gm_put m k v) ps qs) = gm_get qs ++ gm_get ps"
proof (induction ps arbitrary: qs)
  case (Cons p ps)
  obtain k v where p: "p = (k, v)" by (cases p)
  have "gm_get ps k = None" using Cons.prems p by (simp add: gm_get_None_iff)
  then show ?case using Cons p by (auto simp: fun_eq_iff map_add_def split: option.splits)
qed simp

lemma fold_put_inv: "gm_inv qs \<Longrightarrow> gm_inv (fold (\<lambda>(k, v) m. gm_put m k v) ps qs)"
  by (induction ps arbitrary: qs) auto

lemma meta_Clone_get [simp]:
  "gm_inv (pairs m) \<Longrightarrow> gm_get (pairs (meta_Clone m)) = gm_get (pairs m)"
  by (simp add: meta_Clone_def meta_Map_def fold_put_get)

lemma meta_Clone_inv [simp]: "gm_inv (pairs (meta_Clone m))"
  by (simp add: meta_Clone_def meta_Map_def fold_put_inv)

lemma meta_Clone_Zid [simp]: "m_Zid (meta_Clone m) = m_Zid m"
  by (simp add: meta_Clone_def)

lemma meta_Set_get:
  "meta_Get z (meta_Set z m k v) j =
     (if j = k \<and> k \<noteq> api_key z KeyID then Some (trimValue z v) else meta_Get z m j)"
  by (auto simp: meta_Set_def)

lemma meta_Set_inv [simp]: "gm_inv (pairs m) \<Longrightarrow> gm_inv (pairs (meta_Set z m k v))"
  by (simp add: meta_Set_def)

lemma meta_Set_Zid [simp]: "m_Zid (meta_Set z m k v) = m_Zid m"
  by (simp add: meta_Set_def)

lemma meta_Delete_get:
  "meta_Get z (meta_Delete z m k) j = (if j = k \<and> k \<noteq> api_key z KeyID then None else meta_Get z m j)"
  by (auto simp: meta_Delete_def)

section \<open>Control characters in values\<close>

text \<open>
  One character that is not graphic is replaced by a blank; a second one makes the code slice
  with a start behind the end.
\<close>

lemma RemoveNonGraphic_panic:
  "RemoveNonGraphic (\<lambda>c. c \<noteq> CHR 0x0A) [CHR ''a'', CHR 0x0A, CHR ''b'', CHR 0x0A, CHR ''c''] = None"
  by (simp add: RemoveNonGraphic_def nongraphic_loop.simps slice_range_def)

section \<open>Arrangements\<close>

lemma arr_append_get:
  "(case gm_get (arr_append a val m) cat of Some ms \<Rightarrow> ms | None \<Rightarrow> []) =
     (case gm_get a cat of Some ms \<Rightarrow> ms | None \<Rightarrow> []) @ (if cat = val then [m] else [])"
  by (simp add: arr_append_def)

definition arr_list :: "arrangement \<Rightarrow> string \<Rightarrow> meta list" where
  "arr_list a cat = (case gm_get a cat of Some ms \<Rightarrow> ms | None \<Rightarrow> [])"

lemma arr_list_append [simp]: "arr_list (arr_append a val m) cat = arr_list a cat @ (if cat = val then [m] else [])"
  unfolding arr_list_def by (rule arr_append_get)

lemma simple_arr_list:
  "arr_list (fold (\<lambda>m a. case meta_Get z m key of
      Some val \<Rightarrow> if val \<noteq> [] then arr_append a val m else a | None \<Rightarrow> a) ms a) cat =
   arr_list a cat @ filter (\<lambda>m. meta_Get z m key = Some cat \<and> cat \<noteq> []) ms"
  by (induction ms arbitrary: a) (auto simp del: meta_GetPtr.simps split: option.splits)

lemma set_arr_vals:
  "arr_list (fold (\<lambda>val a. arr_append a val m) vals a) cat = arr_list a cat @ replicate (count_list vals cat) m"
  by (induction vals arbitrary: a) (auto simp: replicate_append_same [symmetric])

lemma set_arr_list:
  "arr_list (fold (\<lambda>m a. case GetList z (Some m) key of
      Some vals \<Rightarrow> fold (\<lambda>val a. arr_append a val m) vals a | None \<Rightarrow> a) ms a) cat =
   arr_list a cat @ concat (map (\<lambda>m. replicate
     (case GetList z (Some m) key of Some vals \<Rightarrow> count_list vals cat | None \<Rightarrow> 0) m) ms)"
  by (induction ms arbitrary: a) (auto simp: set_arr_vals split: option.splits)

text \<open>
  An arrangement lists under each category exactly the zettel that have it, in their
  given order: those whose value is the category, or for a key with a set value those whose
  list holds it, as often as it does.
\<close>

lemma CreateArrangement_exact:
  "arr_list (CreateArrangement z ms key) cat =
    (if IsSet (TypeOf z key)
     then concat (map (\<lambda>m. replicate
       (case GetList z (Some m) key of Some vals \<Rightarrow> count_list vals cat | None \<Rightarrow> 0) m) ms)
     else filter (\<lambda>m. meta_Get z m key = Some cat \<and> cat \<noteq> []) ms)"
proof -
  have e: "arr_list [] cat = []" by (simp add: arr_list_def)
  show ?thesis using simple_arr_list [of z key ms "[]" cat] set_arr_list [of z key ms "[]" cat] e
    by (simp add: CreateArrangement_def createSetArrangement_def createSimplearrangement_def
        del: meta_GetPtr.simps)
qed

lemma insert_func_mset [simp]: "mset (insert_func cmp x ys) = add_mset x (mset ys)"
  by (induction ys) simp_all

lemma SortFunc_mset [simp]: "mset (slices_SortFunc cmp xs) = mset xs"
  by (induction xs) simp_all

lemma insert_func_sorted:
  assumes "sorted_wrt (\<lambda>a b. cmp a b \<le> 0) ys"
    and "\<And>a b. \<not> cmp a b \<le> 0 \<Longrightarrow> cmp b a \<le> 0"
    and "\<And>a b c. cmp a b \<le> 0 \<Longrightarrow> cmp b c \<le> 0 \<Longrightarrow> cmp a c \<le> (0::int)"
  shows "sorted_wrt (\<lambda>a b. cmp a b \<le> 0) (insert_func cmp x ys)"
  using assms(1)
proof (induction ys)
  case (Cons y ys)
  have s: "set (insert_func cmp x ys) = insert x (set ys)"
    using insert_func_mset [of cmp x ys] by (metis set_mset_add_mset_insert set_mset_mset)
  have y: "\<forall>b \<in> set ys. cmp y b \<le> 0" using Cons.prems by simp
  show ?case
  proof (cases "cmp x y \<le> 0")
    case True
    then have "\<forall>b \<in> set ys. cmp x b \<le> 0" using y assms(3) by blast
    then show ?thesis using True Cons.prems by simp
  next
    case False
    then have "cmp y x \<le> 0" by (rule assms(2))
    then show ?thesis using False y s Cons by simp
  qed
qed simp

lemma SortFunc_sorted:
  assumes "\<And>a b. \<not> cmp a b \<le> 0 \<Longrightarrow> cmp b a \<le> 0"
    and "\<And>a b c. cmp a b \<le> 0 \<Longrightarrow> cmp b c \<le> 0 \<Longrightarrow> cmp a c \<le> (0::int)"
  shows "sorted_wrt (\<lambda>a b. cmp a b \<le> 0) (slices_SortFunc cmp xs)"
  by (induction xs) (auto intro: insert_func_sorted assms)

text \<open>
  Sorting counted categories by count permutes them into descending counts, equal counts
  in the ascending order of the names.
\<close>

lemma SortByCount_sorted:
  "mset (SortByCount ccs) = mset ccs \<and>
   sorted_wrt (\<lambda>i j. snd i > snd j \<or> (snd i = snd j \<and> fst i \<le> fst j)) (SortByCount ccs)"
proof -
  have cmp: "count_cmp i j \<le> 0 \<longleftrightarrow> snd i > snd j \<or> (snd i = snd j \<and> fst i \<le> fst j)" for i j
    by (auto simp: count_cmp_def)
  have "sorted_wrt (\<lambda>a b. count_cmp a b \<le> 0) (slices_SortFunc count_cmp ccs)"
    by (rule SortFunc_sorted) (unfold cmp, auto)
  then show ?thesis unfolding cmp by (simp add: SortByCount_def)
qed

end
