(* ===== verification/MapStore.thy ===== *)
theory MapStore
  imports MetaLaws IdSet
begin

text \<open>
  The index of all zettel, packages \<open>box/manager/store\<close> (\<open>wordset.go\<close>, \<open>zettel.go\<close>) and
  \<open>box/manager/mapstore\<close>: what one zettel contributes (\<open>ZettelIndex\<close>), the store with its
  forward and backward references, dead references and word lists, its updates and its
  searches. Every exported operation holds the store's lock, so it is one atomic step.
\<close>

section \<open>Word sets, \<open>wordset.go\<close>\<close>

type_synonym wordset = "(string, nat) gomap"

definition NewWordSet :: wordset where
  "NewWordSet = []"

definition WordSet_Add :: "wordset \<Rightarrow> string \<Rightarrow> wordset" where
  "WordSet_Add ws s = gm_put ws s ((case gm_get ws s of Some n \<Rightarrow> n | None \<Rightarrow> 0) + 1)"

definition WordSet_Words :: "wordset \<Rightarrow> string list" where
  "WordSet_Words ws = gm_keys ws"

definition WordSet_Diff :: "wordset \<Rightarrow> string list \<Rightarrow> string list \<times> string list" where
  "WordSet_Diff ws oldWords =
     (if length ws = 0 then ([], oldWords)
      else if length oldWords = 0 then (WordSet_Words ws, [])
      else
        let (oldSet, removeWords) = fold (\<lambda>ow (oldSet, removeWords).
              if gm_get ws ow \<noteq> None then (gm_put oldSet ow (1::nat), removeWords)
              else (oldSet, removeWords @ [ow])) oldWords ([], [])
        in (filter (\<lambda>w. gm_get oldSet w = None) (gm_keys ws), removeWords))"

section \<open>The contribution of one zettel, \<open>store/zettel.go\<close>\<close>

record ZettelIndex =
  zi_Zid :: zid
  zi_meta :: meta
  zi_backrefs :: idset
  zi_inverseRefs :: "(string, idset) gomap"
  zi_deadrefs :: idset
  zi_words :: wordset
  zi_urls :: wordset

definition NewZettelIndex :: "meta \<Rightarrow> ZettelIndex" where
  "NewZettelIndex m = \<lparr>zi_Zid = m_Zid m, zi_meta = m, zi_backrefs = NewSet [], zi_inverseRefs = [],
     zi_deadrefs = NewSet [], zi_words = [], zi_urls = []\<rparr>"

definition AddBackRef :: "ZettelIndex \<Rightarrow> zid \<Rightarrow> ZettelIndex" where
  "AddBackRef zi zid = zi\<lparr>zi_backrefs := Set_Add (zi_backrefs zi) zid\<rparr>"

definition AddInverseRef :: "ZettelIndex \<Rightarrow> string \<Rightarrow> zid \<Rightarrow> ZettelIndex" where
  "AddInverseRef zi key zid =
     (case gm_get (zi_inverseRefs zi) key of
        Some zids \<Rightarrow> zi\<lparr>zi_inverseRefs := gm_put (zi_inverseRefs zi) key (Set_Add zids zid)\<rparr>
      | None \<Rightarrow> zi\<lparr>zi_inverseRefs := gm_put (zi_inverseRefs zi) key (NewSet [zid])\<rparr>)"

definition AddDeadRef :: "ZettelIndex \<Rightarrow> zid \<Rightarrow> ZettelIndex" where
  "AddDeadRef zi zid = zi\<lparr>zi_deadrefs := Set_Add (zi_deadrefs zi) zid\<rparr>"

definition SetWords :: "ZettelIndex \<Rightarrow> wordset \<Rightarrow> ZettelIndex" where
  "SetWords zi ws = zi\<lparr>zi_words := ws\<rparr>"

definition SetUrls :: "ZettelIndex \<Rightarrow> wordset \<Rightarrow> ZettelIndex" where
  "SetUrls zi us = zi\<lparr>zi_urls := us\<rparr>"

definition GetInverseRefs :: "ZettelIndex \<Rightarrow> (string, idset) gomap" where
  "GetInverseRefs zi =
     (if length (zi_inverseRefs zi) = 0 then []
      else fold (\<lambda>(key, refs) result. gm_put result key refs) (zi_inverseRefs zi) [])"

section \<open>State of the store\<close>

record bidiRefs =
  forward :: idset
  backward :: idset

record zettelData =
  zd_meta :: "meta option"
  zd_dead :: idset
  zd_forward :: idset
  zd_backward :: idset
  zd_otherRefs :: "(string, bidiRefs) gomap"
  zd_words :: "string list"
  zd_urls :: "string list"

text \<open>
  The zero value of the struct. A \<open>nil\<close> map \<open>otherRefs\<close> is the empty map here: the code makes
  a map before every assignment to a \<open>nil\<close> one.
\<close>

definition zd_zero :: zettelData where
  "zd_zero = \<lparr>zd_meta = None, zd_dead = None, zd_forward = None, zd_backward = None,
     zd_otherRefs = [], zd_words = [], zd_urls = []\<rparr>"

definition bidi_zero :: bidiRefs where
  "bidi_zero = \<lparr>forward = None, backward = None\<rparr>"

type_synonym stringRefs = "(string, idset) gomap"

record mapStore =
  ms_intern :: "(string, string) gomap"
  ms_idx :: "(zid, zettelData) gomap"
  ms_dead :: "(zid, idset) gomap"
  ms_words :: stringRefs
  ms_urls :: stringRefs
  ms_updates :: nat

definition mapstore_New :: mapStore where
  "mapstore_New = \<lparr>ms_intern = [], ms_idx = [], ms_dead = [], ms_words = [], ms_urls = [], ms_updates = 0\<rparr>"

text \<open>A map access without a test of the key: a missing set is \<open>nil\<close>.\<close>

definition gm_set :: "('k, idset) gomap \<Rightarrow> 'k \<Rightarrow> idset" where
  "gm_set m k = (case gm_get m k of Some s \<Rightarrow> s | None \<Rightarrow> None)"

definition other_at :: "zettelData \<Rightarrow> string \<Rightarrow> bidiRefs" where
  "other_at zd key = (case gm_get (zd_otherRefs zd) key of Some b \<Rightarrow> b | None \<Rightarrow> bidi_zero)"

section \<open>Reading the store\<close>

definition GetMeta :: "mapStore \<Rightarrow> zid \<Rightarrow> meta option" where
  "GetMeta ms zid =
     (case gm_get (ms_idx ms) zid of
        None \<Rightarrow> None
      | Some zi \<Rightarrow> (case zd_meta zi of None \<Rightarrow> None | Some m \<Rightarrow> Some (meta_Clone m)))"

fun removeOther_loop :: "zsc \<Rightarrow> meta_pair list \<Rightarrow> idset \<Rightarrow> idset" where
  "removeOther_loop z [] back = back"
| "removeOther_loop z ((key, value) # ps) back =
     (case TypeOf z key of
        TypeID \<Rightarrow>
          (case Parse value of Inr zid \<Rightarrow> removeOther_loop z ps (Set_Remove back zid)
           | Inl err \<Rightarrow> removeOther_loop z ps back)
      | TypeIDSet \<Rightarrow>
          removeOther_loop z ps (fold (\<lambda>val back.
            case Parse val of Inr zid \<Rightarrow> Set_Remove back zid | Inl err \<Rightarrow> back) (ListFromValue value) back)
      | _ \<Rightarrow> removeOther_loop z ps back)"

definition removeOtherMetaRefs :: "zsc \<Rightarrow> meta \<Rightarrow> idset \<Rightarrow> idset" where
  "removeOtherMetaRefs z m back = removeOther_loop z (PairsRest z m) back"

fun enrich_others :: "zsc \<Rightarrow> (string \<times> bidiRefs) list \<Rightarrow> meta \<times> idset \<times> bool \<Rightarrow> meta \<times> idset \<times> bool" where
  "enrich_others z [] st = st"
| "enrich_others z ((k, refs) # rest) (m, back, updated) =
     (if \<not> Set_IsEmpty (backward refs)
      then enrich_others z rest (meta_Set z m k (Set_MetaString (backward refs)),
             Set_ISubstract back (backward refs), True)
      else enrich_others z rest (m, back, updated))"

definition doEnrich :: "zsc \<Rightarrow> mapStore \<Rightarrow> meta \<Rightarrow> meta \<times> bool" where
  "doEnrich z ms m =
     (case gm_get (ms_idx ms) (m_Zid m) of
        None \<Rightarrow> (m, False)
      | Some zi \<Rightarrow>
          let (m, updated) =
                (if \<not> Set_IsEmpty (zd_dead zi)
                 then (meta_Set z m (api_key z KeyDead) (Set_MetaString (zd_dead zi)), True) else (m, False));
              back = removeOtherMetaRefs z m (Set_Clone (zd_backward zi));
              (m, updated) =
                (if \<not> Set_IsEmpty (zd_backward zi)
                 then (meta_Set z m (api_key z KeyBackward) (Set_MetaString (zd_backward zi)), True)
                 else (m, updated));
              (m, back, updated) =
                (if \<not> Set_IsEmpty (zd_forward zi)
                 then (meta_Set z m (api_key z KeyForward) (Set_MetaString (zd_forward zi)),
                       Set_ISubstract back (zd_forward zi), True)
                 else (m, back, updated));
              (m, back, updated) = enrich_others z (zd_otherRefs zi) (m, back, updated)
          in if \<not> Set_IsEmpty back
             then (meta_Set z m (api_key z KeyBack) (Set_MetaString back), True) else (m, updated))"

definition Enrich :: "zsc \<Rightarrow> mapStore \<Rightarrow> meta \<Rightarrow> meta \<times> mapStore" where
  "Enrich z ms m =
     (case doEnrich z ms m of (m', updated) \<Rightarrow>
        (m', if updated then ms\<lparr>ms_updates := ms_updates ms + 1\<rparr> else ms))"

definition addBackwardZids :: "idset \<Rightarrow> zid \<Rightarrow> zettelData \<Rightarrow> idset" where
  "addBackwardZids result zid zi =
     fold (\<lambda>(key, mref) result. Set_IUnion result (backward mref)) (zd_otherRefs zi)
       (Set_IUnion (Set_Add result zid) (zd_backward zi))"

definition SearchEqual :: "mapStore \<Rightarrow> string \<Rightarrow> idset" where
  "SearchEqual ms word =
     (let result = NewSet [];
          result = (case gm_get (ms_words ms) word of Some refs \<Rightarrow> Set_IUnion result refs | None \<Rightarrow> result);
          result = (case gm_get (ms_urls ms) word of Some refs \<Rightarrow> Set_IUnion result refs | None \<Rightarrow> result)
      in case Parse word of
           Inl err \<Rightarrow> result
         | Inr zid \<Rightarrow>
             (case gm_get (ms_idx ms) zid of None \<Rightarrow> result | Some zi \<Rightarrow> addBackwardZids result zid zi))"

definition selectWithPred :: "mapStore \<Rightarrow> string \<Rightarrow> (string \<Rightarrow> string \<Rightarrow> bool) \<Rightarrow> idset" where
  "selectWithPred ms s pred =
     (let add = (\<lambda>(word, refs) result. if \<not> pred word s then result else Set_IUnion result refs)
      in fold add (ms_urls ms) (fold add (ms_words ms) (NewSet [])))"

definition add_matching :: "(zid \<Rightarrow> bool) \<Rightarrow> (zid, zettelData) gomap \<Rightarrow> idset \<Rightarrow> idset" where
  "add_matching p idx result =
     fold (\<lambda>(zid, zi) result. if p zid then addBackwardZids result zid zi else result) idx result"

definition SearchPrefix :: "mapStore \<Rightarrow> string \<Rightarrow> idset" where
  "SearchPrefix ms prfx =
     (let result = selectWithPred ms prfx strings_HasPrefix; l = length prfx in
      if 14 < l then result
      else case Parse (prfx @ take (14 - l) (replicate 14 CHR ''9'')) of
          Inl err \<Rightarrow> result
        | Inr maxZ \<Rightarrow>
            (case (if l < 14 \<and> prfx = take l (replicate 13 CHR ''0'') then Inr 1
                   else Parse (prfx @ take (14 - l) (replicate 14 CHR ''0''))) of
               Inl err \<Rightarrow> result
             | Inr minZ \<Rightarrow> add_matching (\<lambda>zid. minZ \<le> zid \<and> zid \<le> maxZ) (ms_idx ms) result))"

definition SearchSuffix :: "mapStore \<Rightarrow> string \<Rightarrow> idset" where
  "SearchSuffix ms sfx =
     (let result = selectWithPred ms sfx strings_HasSuffix; l = length sfx in
      if 14 < l then result
      else case ParseUint sfx of
          Inl err \<Rightarrow> result
        | Inr val \<Rightarrow> add_matching (\<lambda>zid. unat zid mod 10 ^ l = val) (ms_idx ms) result)"

definition SearchContains :: "mapStore \<Rightarrow> string \<Rightarrow> idset" where
  "SearchContains ms s =
     (let result = selectWithPred ms s strings_Contains in
      if 14 < length s then result
      else case ParseUint s of
          Inl err \<Rightarrow> result
        | Inr val \<Rightarrow> add_matching (\<lambda>zid. strings_Contains (zid_String zid) s) (ms_idx ms) result)"

section \<open>Updating the store\<close>

definition internString :: "mapStore \<Rightarrow> string \<Rightarrow> string \<times> mapStore" where
  "internString ms s =
     (case gm_get (ms_intern ms) s of
        Some is \<Rightarrow> (is, ms)
      | None \<Rightarrow> (s, ms\<lparr>ms_intern := gm_put (ms_intern ms) s s\<rparr>))"

definition isInternableValue :: "zsc \<Rightarrow> string \<Rightarrow> bool" where
  "isInternableValue z key =
     (if key \<in> set (map (api_key z) [KeyRole, KeySyntax, KeyFolgeRole, KeyLang, KeyReadOnly]) then True
      else strings_HasSuffix key ''-role'')"

fun makeMeta_loop :: "zsc \<Rightarrow> meta_pair list \<Rightarrow> meta \<times> mapStore \<Rightarrow> meta \<times> mapStore" where
  "makeMeta_loop z [] st = st"
| "makeMeta_loop z ((k, v) # ps) (copyM, ms) =
     (case internString ms k of (key, ms) \<Rightarrow>
        if isInternableValue z key then
          (case internString ms v of (val, ms) \<Rightarrow> makeMeta_loop z ps (meta_Set z copyM key val, ms))
        else if key = api_key z KeyBoxNumber \<or> \<not> IsComputed z key
          then makeMeta_loop z ps (meta_Set z copyM key v, ms)
        else makeMeta_loop z ps (copyM, ms))"

definition makeMeta :: "zsc \<Rightarrow> mapStore \<Rightarrow> ZettelIndex \<Rightarrow> meta \<times> mapStore" where
  "makeMeta z ms zidx = makeMeta_loop z (meta_Pairs z (zi_meta zidx)) (meta_New (m_Zid (zi_meta zidx)), ms)"

text \<open>
  The updates work on the pair of the store and \<open>zi\<close>, as long as \<open>zi\<close> is not yet in
  \<open>ms.idx\<close>: \<open>Some zd\<close> is an object of its own, \<open>None\<close> means \<open>zi\<close> is the entry of the index, so
  that an update of that entry by its identifier is seen by \<open>zi\<close> as well.
\<close>

type_synonym upd = "mapStore \<times> zettelData option"

definition entry_at :: "mapStore \<Rightarrow> zid \<Rightarrow> zettelData" where
  "entry_at ms zid = (case gm_get (ms_idx ms) zid of Some zd \<Rightarrow> zd | None \<Rightarrow> zd_zero)"

definition zi_get :: "zid \<Rightarrow> upd \<Rightarrow> zettelData" where
  "zi_get zid st = (case snd st of Some zd \<Rightarrow> zd | None \<Rightarrow> entry_at (fst st) zid)"

definition zi_put :: "zid \<Rightarrow> zettelData \<Rightarrow> upd \<Rightarrow> upd" where
  "zi_put zid zd st =
     (case snd st of
        Some old \<Rightarrow> (fst st, Some zd)
      | None \<Rightarrow> ((fst st)\<lparr>ms_idx := gm_put (ms_idx (fst st)) zid zd\<rparr>, None))"

definition getOrCreateEntry :: "mapStore \<Rightarrow> zid \<Rightarrow> zettelData \<times> mapStore" where
  "getOrCreateEntry ms zid =
     (case gm_get (ms_idx ms) zid of
        Some zi \<Rightarrow> (zi, ms)
      | None \<Rightarrow> (zd_zero, ms\<lparr>ms_idx := gm_put (ms_idx ms) zid zd_zero\<rparr>))"

definition updateDeadReferences :: "ZettelIndex \<Rightarrow> upd \<Rightarrow> upd" where
  "updateDeadReferences zidx st =
     (let zi = zi_get (zi_Zid zidx) st;
          drefs = zi_deadrefs zidx;
          (newRefs, remRefs) = Set_Diff (zd_dead zi) drefs;
          st = zi_put (zi_Zid zidx) (zi\<lparr>zd_dead := drefs\<rparr>) st;
          dead = Set_ForEach remRefs (\<lambda>ref dead. gm_put dead ref (Set_Remove (gm_set dead ref) (zi_Zid zidx)))
            (ms_dead (fst st));
          dead = Set_ForEach newRefs (\<lambda>ref dead. gm_put dead ref (Set_Add (gm_set dead ref) (zi_Zid zidx))) dead
      in ((fst st)\<lparr>ms_dead := dead\<rparr>, snd st))"

text \<open>The body of both loops of \<open>updateForwardBackwardReferences\<close>.\<close>

definition touch_entry :: "(zettelData \<Rightarrow> zettelData) \<Rightarrow> zid \<Rightarrow> mapStore \<times> idset \<Rightarrow> mapStore \<times> idset" where
  "touch_entry f ref st =
     (case getOrCreateEntry (fst st) ref of (bzi, ms) \<Rightarrow>
        (ms\<lparr>ms_idx := gm_put (ms_idx ms) ref (f bzi)\<rparr>,
         if zd_meta bzi = None then Set_Add (snd st) ref else snd st))"

definition updateForwardBackwardReferences :: "ZettelIndex \<Rightarrow> upd \<Rightarrow> upd \<times> idset" where
  "updateForwardBackwardReferences zidx st =
     (let zid = zi_Zid zidx;
          zi = zi_get zid st;
          brefs = zi_backrefs zidx;
          (newRefs, remRefs) = Set_Diff (zd_forward zi) brefs;
          st = zi_put zid (zi\<lparr>zd_forward := brefs\<rparr>) st;
          r = Set_ForEach remRefs (touch_entry (\<lambda>bzi. bzi\<lparr>zd_backward := Set_Remove (zd_backward bzi) zid\<rparr>))
            (fst st, None);
          r = Set_ForEach newRefs (touch_entry (\<lambda>bzi. bzi\<lparr>zd_backward := Set_Add (zd_backward bzi) zid\<rparr>)) r
      in ((fst r, snd st), snd r))"

definition add_inverse :: "string \<Rightarrow> zid \<Rightarrow> zettelData \<Rightarrow> zettelData" where
  "add_inverse key zid bzi =
     (let bmr = other_at bzi key in
      bzi\<lparr>zd_otherRefs := gm_put (zd_otherRefs bzi) key (bmr\<lparr>backward := Set_Add (backward bmr) zid\<rparr>)\<rparr>)"

definition remove_inverse :: "string \<Rightarrow> zid \<Rightarrow> zettelData \<Rightarrow> zettelData" where
  "remove_inverse key zid bzi =
     (case gm_get (zd_otherRefs bzi) key of
        None \<Rightarrow> bzi
      | Some bmr \<Rightarrow>
          let bmr = bmr\<lparr>backward := Set_Remove (backward bmr) zid\<rparr> in
          if \<not> Set_IsEmpty (backward bmr) \<or> \<not> Set_IsEmpty (forward bmr)
          then bzi\<lparr>zd_otherRefs := gm_put (zd_otherRefs bzi) key bmr\<rparr>
          else bzi\<lparr>zd_otherRefs := gm_delete (zd_otherRefs bzi) key\<rparr>)"

definition removeInverseMeta :: "zid \<Rightarrow> string \<Rightarrow> idset \<Rightarrow> mapStore \<Rightarrow> mapStore" where
  "removeInverseMeta zid key fwd ms =
     Set_ForEach fwd (\<lambda>ref ms.
       case gm_get (ms_idx ms) ref of
         None \<Rightarrow> ms
       | Some bzi \<Rightarrow> ms\<lparr>ms_idx := gm_put (ms_idx ms) ref (remove_inverse key zid bzi)\<rparr>) ms"

fun update_inverse_loop :: "zid \<Rightarrow> (string \<times> idset) list \<Rightarrow> upd \<times> idset \<Rightarrow> upd \<times> idset" where
  "update_inverse_loop zid [] r = r"
| "update_inverse_loop zid ((key, mrefs) # rest) (st, toCheck) =
     (let zi = zi_get zid st;
          mr = other_at zi key;
          (newRefs, remRefs) = Set_Diff (forward mr) mrefs;
          st = zi_put zid (zi\<lparr>zd_otherRefs := gm_put (zd_otherRefs zi) key (mr\<lparr>forward := mrefs\<rparr>)\<rparr>) st;
          r = Set_ForEach newRefs (touch_entry (add_inverse key zid)) (fst st, toCheck);
          ms = removeInverseMeta zid key remRefs (fst r)
      in update_inverse_loop zid rest ((ms, snd st), snd r))"

definition updateMetadataReferences :: "ZettelIndex \<Rightarrow> upd \<Rightarrow> upd \<times> idset" where
  "updateMetadataReferences zidx st =
     (let zid = zi_Zid zidx;
          inverseRefs = GetInverseRefs zidx;
          ms = fold (\<lambda>(key, mr) ms.
                 if gm_get inverseRefs key \<noteq> None then ms else removeInverseMeta zid key (forward mr) ms)
               (zd_otherRefs (zi_get zid st)) (fst st)
      in update_inverse_loop zid inverseRefs ((ms, snd st), None))"

text \<open>One step of the loops that take a zettel out of a word list.\<close>

definition remove_word :: "zid \<Rightarrow> string \<Rightarrow> stringRefs \<Rightarrow> stringRefs" where
  "remove_word zid word srefs =
     (case gm_get srefs word of
        None \<Rightarrow> srefs
      | Some refs \<Rightarrow>
          let refs = Set_Remove refs zid in
          if Set_IsEmpty refs then gm_delete srefs word else gm_put srefs word refs)"

definition updateStrings :: "zid \<Rightarrow> stringRefs \<Rightarrow> string list \<Rightarrow> wordset \<Rightarrow> string list \<times> stringRefs" where
  "updateStrings zid srefs prev next =
     (let (newWords, removeWords) = WordSet_Diff next prev;
          srefs = fold (\<lambda>word srefs. gm_put srefs word (Set_Add (gm_set srefs word) zid)) newWords srefs;
          srefs = fold (remove_word zid) removeWords srefs
      in (WordSet_Words next, srefs))"

definition UpdateReferences :: "zsc \<Rightarrow> mapStore \<Rightarrow> ZettelIndex \<Rightarrow> mapStore \<times> idset" where
  "UpdateReferences z ms zidx =
     (let zid = zi_Zid zidx;
          (m, ms) = makeMeta z ms zidx;
          loc = (if gm_get (ms_idx ms) zid = None then Some zd_zero else None);
          (toCheck, ms) =
            (case gm_get (ms_dead ms) zid of
               Some refs \<Rightarrow> (refs, ms\<lparr>ms_dead := gm_delete (ms_dead ms) zid\<rparr>)
             | None \<Rightarrow> (None, ms));
          st = zi_put zid ((zi_get zid (ms, loc))\<lparr>zd_meta := Some m\<rparr>) (ms, loc);
          st = updateDeadReferences zidx st;
          (st, ids) = updateForwardBackwardReferences zidx st;
          toCheck = Set_IUnion toCheck ids;
          (st, ids) = updateMetadataReferences zidx st;
          toCheck = Set_IUnion toCheck ids;
          (ws, wrefs) = updateStrings zid (ms_words (fst st)) (zd_words (zi_get zid st)) (zi_words zidx);
          st = zi_put zid ((zi_get zid st)\<lparr>zd_words := ws\<rparr>) ((fst st)\<lparr>ms_words := wrefs\<rparr>, snd st);
          (us, urefs) = updateStrings zid (ms_urls (fst st)) (zd_urls (zi_get zid st)) (zi_urls zidx);
          st = zi_put zid ((zi_get zid st)\<lparr>zd_urls := us\<rparr>) ((fst st)\<lparr>ms_urls := urefs\<rparr>, snd st);
          ms = (case snd st of
                  Some zd \<Rightarrow> (fst st)\<lparr>ms_idx := gm_put (ms_idx (fst st)) zid zd\<rparr>
                | None \<Rightarrow> fst st)
      in (ms, toCheck))"

definition remove_dead :: "zid \<Rightarrow> zid \<Rightarrow> (zid, idset) gomap \<Rightarrow> (zid, idset) gomap" where
  "remove_dead zid ref dead =
     (case gm_get dead ref of
        None \<Rightarrow> dead
      | Some drefs \<Rightarrow>
          let drefs = Set_Remove drefs zid in
          if Set_IsEmpty drefs then gm_delete dead ref else gm_put dead ref drefs)"

definition deleteDeadSources :: "zid \<Rightarrow> zettelData \<Rightarrow> mapStore \<Rightarrow> mapStore" where
  "deleteDeadSources zid zi ms = ms\<lparr>ms_dead := Set_ForEach (zd_dead zi) (remove_dead zid) (ms_dead ms)\<rparr>"

definition update_existing :: "(zettelData \<Rightarrow> zettelData) \<Rightarrow> zid \<Rightarrow> mapStore \<Rightarrow> mapStore" where
  "update_existing f ref ms =
     (case gm_get (ms_idx ms) ref of
        None \<Rightarrow> ms | Some zd \<Rightarrow> ms\<lparr>ms_idx := gm_put (ms_idx ms) ref (f zd)\<rparr>)"

definition deleteForwardBackward :: "zid \<Rightarrow> mapStore \<Rightarrow> mapStore \<times> idset" where
  "deleteForwardBackward zid ms =
     (let ms = Set_ForEach (zd_forward (entry_at ms zid))
            (update_existing (\<lambda>fzi. fzi\<lparr>zd_backward := Set_Remove (zd_backward fzi) zid\<rparr>)) ms
      in Set_ForEach (zd_backward (entry_at ms zid)) (\<lambda>ref (ms, toCheck).
           if gm_get (ms_idx ms) ref = None then (ms, toCheck)
           else (update_existing (\<lambda>bzi. bzi\<lparr>zd_forward := Set_Remove (zd_forward bzi) zid\<rparr>) ref ms,
                 Set_Add toCheck ref)) (ms, None))"

definition deleteStrings :: "stringRefs \<Rightarrow> string list \<Rightarrow> zid \<Rightarrow> stringRefs" where
  "deleteStrings srefs curStrings zid = fold (remove_word zid) curStrings srefs"

definition doDeleteZettel :: "mapStore \<Rightarrow> zid \<Rightarrow> mapStore \<times> idset" where
  "doDeleteZettel ms zid =
     (case gm_get (ms_idx ms) zid of
        None \<Rightarrow> (ms, None)
      | Some zi \<Rightarrow>
          let ms = deleteDeadSources zid zi ms;
              (ms, toCheck) = deleteForwardBackward zid ms;
              ms = fold (\<lambda>(key, mrefs). removeInverseMeta zid key (forward mrefs))
                     (zd_otherRefs (entry_at ms zid)) ms;
              ms = ms\<lparr>ms_words := deleteStrings (ms_words ms) (zd_words (entry_at ms zid)) zid\<rparr>;
              ms = ms\<lparr>ms_urls := deleteStrings (ms_urls ms) (zd_urls (entry_at ms zid)) zid\<rparr>
          in (ms\<lparr>ms_idx := gm_delete (ms_idx ms) zid\<rparr>, toCheck))"

definition DeleteZettel :: "mapStore \<Rightarrow> zid \<Rightarrow> mapStore \<times> idset" where
  "DeleteZettel ms zid = doDeleteZettel ms zid"

text \<open>\<open>Stats\<close> of the store: zettel, updates, words, urls.\<close>

definition ReadStats :: "mapStore \<Rightarrow> nat \<times> nat \<times> nat \<times> nat" where
  "ReadStats ms = (length (ms_idx ms), ms_updates ms, length (ms_words ms), length (ms_urls ms))"

end
