(* ===== verification/MapStoreLaws.thy ===== *)
theory MapStoreLaws
  imports MapStore
begin

text \<open>
  Invariants of the index and what its operations compute: the reference sets of two zettel
  mirror each other, the word lists and the word sets of the entries agree, and the searches
  return exactly the matching zettel. The proofs look at the store through \<open>entry_at\<close>, a total
  view in which a missing entry is the empty one.
\<close>

section \<open>Word sets\<close>

lemma WordSet_fold:
  "fold (\<lambda>ow (os, rw). if gm_get ws ow \<noteq> None then (gm_put os ow (1::nat), rw) else (os, rw @ [ow])) ows (os, rw) =
   (fold (\<lambda>ow os. gm_put os ow 1) (filter (\<lambda>w. gm_get ws w \<noteq> None) ows) os,
    rw @ filter (\<lambda>w. gm_get ws w = None) ows)"
proof (induction ows arbitrary: os rw)
  case (Cons ow ows)
  then show ?case by (cases "gm_get ws ow") simp_all
qed simp

lemma fold_put_const: "gm_get (fold (\<lambda>ow os. gm_put os ow v) ws os) w = (if w \<in> set ws then Some v else gm_get os w)"
  by (induction ws arbitrary: os) auto

text \<open>
  The difference of a word set to a list of old words is exactly the words to add and the
  words to remove.
\<close>

lemma WordSet_Diff_exact:
  assumes "WordSet_Diff ws oldWords = (new, rem)"
  shows "set new = fst ` set ws - set oldWords \<and> set rem = set oldWords - fst ` set ws"
proof -
  consider "ws = []" | "ws \<noteq> []" "oldWords = []" | "ws \<noteq> []" "oldWords \<noteq> []" by blast
  then show ?thesis
  proof cases
    case 3
    then have r: "new = filter (\<lambda>w. gm_get (fold (\<lambda>ow os. gm_put os ow (1::nat)) (filter (\<lambda>w. gm_get ws w \<noteq> None) oldWords) []) w = None) (gm_keys ws)"
      "rem = filter (\<lambda>w. gm_get ws w = None) oldWords"
      using assms unfolding WordSet_Diff_def WordSet_fold by (simp_all add: Let_def)
    then show ?thesis using gm_get_None_iff [of ws] by (auto simp: fold_put_const split: if_splits)
  qed (use assms in \<open>simp_all add: WordSet_Diff_def WordSet_Words_def split: if_splits\<close>, force+)
qed

section \<open>The view of the entries\<close>

definition in_idx :: "mapStore \<Rightarrow> zid \<Rightarrow> bool" where
  "in_idx ms z \<longleftrightarrow> gm_get (ms_idx ms) z \<noteq> None"

definition entry_ok :: "zettelData \<Rightarrow> bool" where
  "entry_ok zd \<longleftrightarrow> set_inv (zd_dead zd) \<and> set_inv (zd_forward zd) \<and> set_inv (zd_backward zd) \<and>
     (\<forall>k. set_inv (forward (other_at zd k)) \<and> set_inv (backward (other_at zd k)))"

definition idx_ok :: "mapStore \<Rightarrow> bool" where
  "idx_ok ms \<longleftrightarrow> gm_inv (ms_idx ms) \<and> (\<forall>z. entry_ok (entry_at ms z) \<and> gm_inv (zd_otherRefs (entry_at ms z)))"

lemma zd_zero_simps [simp]:
  "zd_meta zd_zero = None" "zd_dead zd_zero = None" "zd_forward zd_zero = None"
  "zd_backward zd_zero = None" "zd_otherRefs zd_zero = []" "zd_words zd_zero = []" "zd_urls zd_zero = []"
  "other_at zd_zero k = bidi_zero" "forward bidi_zero = None" "backward bidi_zero = None"
  by (simp_all add: zd_zero_def other_at_def bidi_zero_def)

lemma other_at_upd [simp]:
  "other_at (zd\<lparr>zd_meta := m\<rparr>) = other_at zd" "other_at (zd\<lparr>zd_dead := s\<rparr>) = other_at zd"
  "other_at (zd\<lparr>zd_forward := s\<rparr>) = other_at zd" "other_at (zd\<lparr>zd_backward := s\<rparr>) = other_at zd"
  "other_at (zd\<lparr>zd_words := l\<rparr>) = other_at zd" "other_at (zd\<lparr>zd_urls := l\<rparr>) = other_at zd"
  by (simp_all add: other_at_def fun_eq_iff)

lemma other_at_put [simp]:
  "other_at (zd\<lparr>zd_otherRefs := gm_put (zd_otherRefs zd) k b\<rparr>) j = (if j = k then b else other_at zd j)"
  by (simp add: other_at_def)

lemma entry_ok_zero [simp]: "entry_ok zd_zero"
  by (simp add: entry_ok_def)

lemma entry_at_put [simp]:
  "entry_at (ms\<lparr>ms_idx := gm_put (ms_idx ms) z zd\<rparr>) y = (if y = z then zd else entry_at ms y)"
  by (simp add: entry_at_def)

lemma entry_at_delete [simp]:
  "entry_at (ms\<lparr>ms_idx := gm_delete (ms_idx ms) z\<rparr>) y = (if y = z then zd_zero else entry_at ms y)"
  by (simp add: entry_at_def)

lemma entry_at_other [simp]:
  "entry_at (ms\<lparr>ms_dead := d\<rparr>) = entry_at ms" "entry_at (ms\<lparr>ms_words := w\<rparr>) = entry_at ms"
  "entry_at (ms\<lparr>ms_urls := w\<rparr>) = entry_at ms" "entry_at (ms\<lparr>ms_intern := i\<rparr>) = entry_at ms"
  by (simp_all add: entry_at_def fun_eq_iff)

text \<open>What a loop over references leaves alone.\<close>

definition same_rest :: "mapStore \<Rightarrow> mapStore \<Rightarrow> bool" where
  "same_rest ms ms' \<longleftrightarrow> ms_dead ms' = ms_dead ms \<and> ms_words ms' = ms_words ms \<and>
     ms_urls ms' = ms_urls ms \<and> ms_intern ms' = ms_intern ms \<and> ms_updates ms' = ms_updates ms"

lemma same_rest_refl [simp]: "same_rest ms ms"
  by (simp add: same_rest_def)

lemma same_rest_trans: "same_rest a b \<Longrightarrow> same_rest b c \<Longrightarrow> same_rest a c"
  by (simp add: same_rest_def)

lemma same_rest_idx [simp]: "same_rest ms (ms\<lparr>ms_idx := i\<rparr>)"
  by (simp add: same_rest_def)

lemma touch_entry_eq:
  "fst (touch_entry f ref st) = (if in_idx (fst st) ref then (fst st)\<lparr>ms_idx := gm_put (ms_idx (fst st)) ref (f (entry_at (fst st) ref))\<rparr>
     else (fst st)\<lparr>ms_idx := gm_put (gm_put (ms_idx (fst st)) ref zd_zero) ref (f zd_zero)\<rparr>)"
  "snd (touch_entry f ref st) = (if zd_meta (entry_at (fst st) ref) = None then Set_Add (snd st) ref else snd st)"
  by (auto simp: touch_entry_def getOrCreateEntry_def entry_at_def in_idx_def split: option.splits)

lemma touch_entry_facts:
  "entry_at (fst (touch_entry f ref st)) z = (if z = ref then f (entry_at (fst st) z) else entry_at (fst st) z)"
  "in_idx (fst (touch_entry f ref st)) z \<longleftrightarrow> in_idx (fst st) z \<or> z = ref"
  "gm_inv (ms_idx (fst st)) \<Longrightarrow> gm_inv (ms_idx (fst (touch_entry f ref st)))"
  "same_rest (fst st) (fst (touch_entry f ref st))"
  unfolding touch_entry_eq by (auto simp: entry_at_def in_idx_def same_rest_def split: option.splits)

lemma touch_fold:
  assumes "distinct refs"
  shows "entry_at (fst (fold (touch_entry f) refs st)) z =
      (if z \<in> set refs then f (entry_at (fst st) z) else entry_at (fst st) z)"
    and "in_idx (fst (fold (touch_entry f) refs st)) z \<longleftrightarrow> in_idx (fst st) z \<or> z \<in> set refs"
    and "gm_inv (ms_idx (fst st)) \<Longrightarrow> gm_inv (ms_idx (fst (fold (touch_entry f) refs st)))"
    and "same_rest (fst st) (fst (fold (touch_entry f) refs st))"
  using assms
proof (induction refs arbitrary: st)
  case (Cons r refs)
  {
    case 1 then show ?case using Cons.IH(1) [of "touch_entry f r st"] by (auto simp: touch_entry_facts)
  next
    case 2 then show ?case using Cons.IH(2) [of "touch_entry f r st"] by (auto simp: touch_entry_facts)
  next
    case 3 then show ?case using Cons.IH(3) [of "touch_entry f r st"] touch_entry_facts(3) by simp
  next
    case 4 then show ?case
      using Cons.IH(4) [of "touch_entry f r st"] touch_entry_facts(4) [of st f r] same_rest_trans by simp
  }
qed simp_all

lemma touch_fold_toCheck:
  assumes "distinct refs" and "set_inv (snd st)"
  shows "set_inv (snd (fold (touch_entry f) refs st)) \<and>
    elems (snd (fold (touch_entry f) refs st)) =
      elems (snd st) \<union> {z \<in> set refs. zd_meta (entry_at (fst st) z) = None}"
  using assms
proof (induction refs arbitrary: st)
  case (Cons r refs)
  have i: "set_inv (snd (touch_entry f r st))" using Cons.prems by (simp add: touch_entry_eq Set_Add_correct)
  have "elems (snd (touch_entry f r st)) = elems (snd st) \<union> {z. z = r \<and> zd_meta (entry_at (fst st) z) = None}"
    using Cons.prems by (auto simp: touch_entry_eq Set_Add_correct)
  moreover have "zd_meta (entry_at (fst (touch_entry f r st)) z) = zd_meta (entry_at (fst st) z)"
    if "z \<in> set refs" for z
    using that Cons.prems(1) by (auto simp: touch_entry_facts)
  ultimately show ?case using Cons.IH [OF _ i] Cons.prems(1) by auto
qed simp

lemma ForEach_fold: "Set_ForEach s f st = fold f (Set_SafeSorted s) st"
  by (simp add: Set_ForEach_def Set_SafeSorted_def split: option.splits)

lemma SafeSorted_distinct: "set_inv s \<Longrightarrow> distinct (Set_SafeSorted s)"
  by (simp add: Set_SafeSorted_correct asc_distinct)

lemma update_existing_facts:
  "entry_at (update_existing f ref ms) z = (if z = ref \<and> in_idx ms z then f (entry_at ms z) else entry_at ms z)"
  "in_idx (update_existing f ref ms) z \<longleftrightarrow> in_idx ms z"
  "gm_inv (ms_idx ms) \<Longrightarrow> gm_inv (ms_idx (update_existing f ref ms))"
  "same_rest ms (update_existing f ref ms)"
  by (auto simp: update_existing_def entry_at_def in_idx_def same_rest_def split: option.splits)

lemma existing_fold:
  assumes "distinct refs"
  shows "entry_at (fold (update_existing f) refs ms) z =
      (if z \<in> set refs \<and> in_idx ms z then f (entry_at ms z) else entry_at ms z)"
    and "in_idx (fold (update_existing f) refs ms) z \<longleftrightarrow> in_idx ms z"
    and "gm_inv (ms_idx ms) \<Longrightarrow> gm_inv (ms_idx (fold (update_existing f) refs ms))"
    and "same_rest ms (fold (update_existing f) refs ms)"
  using assms
proof (induction refs arbitrary: ms)
  case (Cons r refs)
  {
    case 1 then show ?case using Cons.IH(1) [of "update_existing f r ms"] by (auto simp: update_existing_facts)
  next
    case 2 then show ?case using Cons.IH(2) [of "update_existing f r ms"] by (auto simp: update_existing_facts)
  next
    case 3 then show ?case using Cons.IH(3) [of "update_existing f r ms"] update_existing_facts(3) by simp
  next
    case 4 then show ?case
      using Cons.IH(4) [of "update_existing f r ms"] update_existing_facts(4) [of ms f r] same_rest_trans by simp
  }
qed simp_all

lemma entry_missing: "\<not> in_idx ms z \<Longrightarrow> entry_at ms z = zd_zero"
  by (simp add: in_idx_def entry_at_def)

lemma removeInverseMeta_existing:
  "removeInverseMeta zid key fwd = Set_ForEach fwd (update_existing (remove_inverse key zid))"
proof -
  have e: "update_existing (remove_inverse key zid) = (\<lambda>ref ms.
       case gm_get (ms_idx ms) ref of
         None \<Rightarrow> ms
       | Some bzi \<Rightarrow> ms\<lparr>ms_idx := gm_put (ms_idx ms) ref (remove_inverse key zid bzi)\<rparr>)"
    by (simp add: update_existing_def fun_eq_iff)
  show ?thesis unfolding e by (rule ext) (simp only: removeInverseMeta_def)
qed

lemma remove_inverse_zero [simp]: "remove_inverse key zid zd_zero = zd_zero"
  by (simp add: remove_inverse_def)

text \<open>Taking a zettel out of the inverse references, seen from every key.\<close>

lemma remove_inverse_facts:
  "zd_meta (remove_inverse key zid e) = zd_meta e" "zd_dead (remove_inverse key zid e) = zd_dead e"
  "zd_forward (remove_inverse key zid e) = zd_forward e" "zd_backward (remove_inverse key zid e) = zd_backward e"
  "zd_words (remove_inverse key zid e) = zd_words e" "zd_urls (remove_inverse key zid e) = zd_urls e"
  by (simp_all add: remove_inverse_def Let_def split: option.splits)

lemma other_at_delete [simp]:
  "other_at (zd\<lparr>zd_otherRefs := gm_delete (zd_otherRefs zd) k\<rparr>) j = (if j = k then bidi_zero else other_at zd j)"
  by (simp add: other_at_def)

lemma remove_inverse_other:
  assumes "set_inv (backward (other_at e key))"
  shows "elems (forward (other_at (remove_inverse key zid e) k)) = elems (forward (other_at e k))"
    and "elems (backward (other_at (remove_inverse key zid e) k)) =
      elems (backward (other_at e k)) - (if k = key then {zid} else {})"
proof -
  show "elems (forward (other_at (remove_inverse key zid e) k)) = elems (forward (other_at e k))"
    by (auto simp: remove_inverse_def Let_def Set_IsEmpty_correct other_at_def bidi_zero_def split: option.splits)
  show "elems (backward (other_at (remove_inverse key zid e) k)) =
      elems (backward (other_at e k)) - (if k = key then {zid} else {})"
  proof (cases "gm_get (zd_otherRefs e) key")
    case (Some b)
    have s: "set_inv (backward b)" using assms Some by (simp add: other_at_def)
    have r: "elems (Set_Remove (backward b) zid) = elems (backward b) - {zid}"
      using Set_Remove_correct [OF s] by blast
    show ?thesis using Some r
      by (auto simp: remove_inverse_def Let_def Set_IsEmpty_correct other_at_def bidi_zero_def)
  qed (simp add: remove_inverse_def other_at_def bidi_zero_def)
qed

lemma remove_inverse_ok:
  assumes "entry_ok e"
  shows "entry_ok (remove_inverse key zid e)"
    and "gm_inv (zd_otherRefs e) \<Longrightarrow> gm_inv (zd_otherRefs (remove_inverse key zid e))"
proof -
  have b: "set_inv (backward (other_at e key))" "set_inv (forward (other_at e key))"
    using assms by (simp_all add: entry_ok_def)
  show "entry_ok (remove_inverse key zid e)"
  proof (cases "gm_get (zd_otherRefs e) key")
    case (Some bm)
    then have "set_inv (Set_Remove (backward bm) zid)"
      using b Set_Remove_correct [of "backward bm" zid] by (simp add: other_at_def)
    moreover have "other_at e key = bm" using Some by (simp add: other_at_def)
    ultimately show ?thesis using assms b Some
      by (auto simp: entry_ok_def remove_inverse_def Let_def other_at_def bidi_zero_def)
  qed (use assms in \<open>simp add: remove_inverse_def\<close>)
  show "gm_inv (zd_otherRefs e) \<Longrightarrow> gm_inv (zd_otherRefs (remove_inverse key zid e))"
    by (auto simp: remove_inverse_def Let_def split: option.splits)
qed

lemma add_inverse_facts:
  "zd_meta (add_inverse key zid e) = zd_meta e" "zd_dead (add_inverse key zid e) = zd_dead e"
  "zd_forward (add_inverse key zid e) = zd_forward e" "zd_backward (add_inverse key zid e) = zd_backward e"
  "zd_words (add_inverse key zid e) = zd_words e" "zd_urls (add_inverse key zid e) = zd_urls e"
  "forward (other_at (add_inverse key zid e) k) = forward (other_at e k)"
  "backward (other_at (add_inverse key zid e) k) =
     (if k = key then Set_Add (backward (other_at e k)) zid else backward (other_at e k))"
  "gm_inv (zd_otherRefs e) \<Longrightarrow> gm_inv (zd_otherRefs (add_inverse key zid e))"
  by (auto simp: add_inverse_def Let_def)

lemma add_inverse_ok: "entry_ok e \<Longrightarrow> entry_ok (add_inverse key zid e)"
  by (simp add: entry_ok_def add_inverse_facts Set_Add_correct)

section \<open>Word lists and dead references as sets\<close>

abbreviation refs_of :: "('k, idset) gomap \<Rightarrow> 'k \<Rightarrow> zid set" where
  "refs_of m k \<equiv> elems (gm_set m k)"

text \<open>No word is stored with an empty set.\<close>

definition srefs_ok :: "stringRefs \<Rightarrow> bool" where
  "srefs_ok s \<longleftrightarrow> gm_inv s \<and> (\<forall>w x. gm_get s w = Some x \<longrightarrow> set_inv x \<and> elems x \<noteq> {})"

definition sets_ok :: "('k, idset) gomap \<Rightarrow> bool" where
  "sets_ok d \<longleftrightarrow> gm_inv d \<and> (\<forall>k. set_inv (gm_set d k))"

lemma gm_set_put [simp]: "gm_set (gm_put m k s) j = (if j = k then s else gm_set m j)"
  by (simp add: gm_set_def)

lemma gm_set_delete [simp]: "gm_set (gm_delete m k) j = (if j = k then None else gm_set m j)"
  by (simp add: gm_set_def)

lemma srefs_set_inv: "srefs_ok s \<Longrightarrow> set_inv (gm_set s w)"
  by (auto simp: srefs_ok_def gm_set_def split: option.splits)

lemma sets_fold:
  assumes "distinct ks"
  shows "gm_set (fold (\<lambda>k d. gm_put d k (g (gm_set d k))) ks d) j =
      (if j \<in> set ks then g (gm_set d j) else gm_set d j)"
    and "gm_inv d \<Longrightarrow> gm_inv (fold (\<lambda>k d. gm_put d k (g (gm_set d k))) ks d)"
  using assms by (induction ks arbitrary: d) auto

lemma add_words:
  assumes "srefs_ok s"
  shows "srefs_ok (fold (\<lambda>w s. gm_put s w (Set_Add (gm_set s w) zid)) ws s) \<and>
    refs_of (fold (\<lambda>w s. gm_put s w (Set_Add (gm_set s w) zid)) ws s) v =
      refs_of s v \<union> (if v \<in> set ws then {zid} else {})"
  using assms
proof (induction ws arbitrary: s)
  case (Cons w ws)
  have s: "srefs_ok (gm_put s w (Set_Add (gm_set s w) zid))"
    using Cons.prems srefs_set_inv [OF Cons.prems, of w] Set_Add_correct [of "gm_set s w" zid]
    by (auto simp: srefs_ok_def)
  have e: "elems (Set_Add (gm_set s w) zid) = insert zid (refs_of s w)"
    using srefs_set_inv [OF Cons.prems] by (rule Set_Add_correct)
  show ?case using Cons.IH [OF s] e by auto
qed simp

lemma remove_word_facts:
  assumes "srefs_ok s"
  shows "srefs_ok (remove_word zid w s)"
    and "refs_of (remove_word zid w s) v = refs_of s v - (if v = w then {zid} else {})"
proof -
  have "srefs_ok (remove_word zid w s) \<and> refs_of (remove_word zid w s) v = refs_of s v - (if v = w then {zid} else {})"
  proof (cases "gm_get s w")
    case None
    then have "gm_set s w = None" by (simp add: gm_set_def)
    then show ?thesis using assms None by (simp add: remove_word_def)
  next
    case (Some x)
    then have g: "gm_set s w = x" and x: "set_inv x" using assms by (auto simp: gm_set_def srefs_ok_def)
    have r: "set_inv (Set_Remove x zid)" "elems (Set_Remove x zid) = elems x - {zid}"
      using Set_Remove_correct [OF x] by blast+
    show ?thesis
    proof (cases "Set_IsEmpty (Set_Remove x zid)")
      case True
      then have "remove_word zid w s = gm_delete s w" using Some by (simp add: remove_word_def Let_def)
      moreover have "elems x - {zid} = {}" using True r by (simp add: Set_IsEmpty_correct)
      ultimately show ?thesis using assms g by (simp add: srefs_ok_def)
    next
      case False
      then have "remove_word zid w s = gm_put s w (Set_Remove x zid)" using Some by (simp add: remove_word_def Let_def)
      moreover have "elems (Set_Remove x zid) \<noteq> {}" using False by (simp add: Set_IsEmpty_correct)
      ultimately show ?thesis using assms g r by (simp add: srefs_ok_def)
    qed
  qed
  then show "srefs_ok (remove_word zid w s)"
    "refs_of (remove_word zid w s) v = refs_of s v - (if v = w then {zid} else {})" by blast+
qed

lemma remove_words:
  assumes "srefs_ok s"
  shows "srefs_ok (fold (remove_word zid) ws s)"
    and "refs_of (fold (remove_word zid) ws s) v = refs_of s v - (if v \<in> set ws then {zid} else {})"
  using assms
proof (induction ws arbitrary: s)
  case (Cons w ws)
  {
    case 1 then show ?case using Cons.IH(1) remove_word_facts(1) by simp
  next
    case 2 then show ?case using Cons.IH(2) [OF remove_word_facts(1) [OF 2]] remove_word_facts(2) [OF 2] by auto
  }
qed simp_all

lemma updateStrings_facts:
  assumes "srefs_ok s" and "updateStrings zid s prev next = (ws, s')"
  shows "srefs_ok s'" and "set ws = fst ` set next"
    and "refs_of s' v = (if v \<in> fst ` set next then refs_of s v \<union> (if v \<in> set prev then {} else {zid})
      else if v \<in> set prev then refs_of s v - {zid} else refs_of s v)"
proof -
  obtain nw rw where d: "WordSet_Diff next prev = (nw, rw)" by (cases "WordSet_Diff next prev")
  let ?a = "fold (\<lambda>w s. gm_put s w (Set_Add (gm_set s w) zid)) nw s"
  have r: "ws = WordSet_Words next" "s' = fold (remove_word zid) rw ?a"
    using assms(2) d by (auto simp: updateStrings_def)
  note de = WordSet_Diff_exact [OF d]
  note a = add_words [OF assms(1), of zid nw, THEN conjunct1] add_words [OF assms(1), THEN conjunct2]
  note b = remove_words [OF a(1)]
  show "srefs_ok s'" unfolding r by (rule b)
  show "set ws = fst ` set next" by (simp add: r WordSet_Words_def)
  show "refs_of s' v = (if v \<in> fst ` set next then refs_of s v \<union> (if v \<in> set prev then {} else {zid})
      else if v \<in> set prev then refs_of s v - {zid} else refs_of s v)"
    unfolding r b a using de by auto
qed

section \<open>The view of an update\<close>

text \<open>While \<open>zi\<close> is outside the index, its own object counts, not the entry of the index.\<close>

definition view :: "zid \<Rightarrow> upd \<Rightarrow> zid \<Rightarrow> zettelData" where
  "view zid st z = (if z = zid then zi_get zid st else entry_at (fst st) z)"

definition hit :: "zid \<Rightarrow> upd \<Rightarrow> zid \<Rightarrow> bool" where
  "hit zid st z \<longleftrightarrow> z \<noteq> zid \<or> snd st = None"

definition upd_ok :: "zid \<Rightarrow> upd \<Rightarrow> bool" where
  "upd_ok zid st \<longleftrightarrow> gm_inv (ms_idx (fst st)) \<and>
     (\<forall>z. entry_ok (view zid st z) \<and> gm_inv (zd_otherRefs (view zid st z)))"

lemma view_zi_get: "zi_get zid st = view zid st zid"
  by (simp add: view_def)

lemma view_zi_put [simp]: "view zid (zi_put zid zd st) z = (if z = zid then zd else view zid st z)"
  by (auto simp: view_def zi_put_def zi_get_def split: option.splits)

lemma zi_put_facts [simp]:
  "snd (zi_put zid zd st) = None \<longleftrightarrow> snd st = None"
  "gm_inv (ms_idx (fst st)) \<Longrightarrow> gm_inv (ms_idx (fst (zi_put zid zd st)))"
  "ms_dead (fst (zi_put zid zd st)) = ms_dead (fst st)"
  "ms_words (fst (zi_put zid zd st)) = ms_words (fst st)"
  "ms_urls (fst (zi_put zid zd st)) = ms_urls (fst st)"
  by (auto simp: zi_put_def split: option.splits)

lemma view_other [simp]:
  "view zid ((fst st)\<lparr>ms_dead := d\<rparr>, snd st) = view zid st"
  "view zid ((fst st)\<lparr>ms_words := w\<rparr>, snd st) = view zid st"
  "view zid ((fst st)\<lparr>ms_urls := w\<rparr>, snd st) = view zid st"
  by (simp_all add: view_def zi_get_def fun_eq_iff split: option.split)

lemma hit_zi_put [simp]: "hit zid (zi_put zid zd st) z \<longleftrightarrow> hit zid st z"
  by (simp add: hit_def)

lemma view_loop:
  assumes "\<And>z. entry_at ms' z = (if z \<in> R then f (entry_at (fst st) z) else entry_at (fst st) z)"
  shows "view zid (ms', snd st) z = (if z \<in> R \<and> hit zid st z then f (view zid st z) else view zid st z)"
  using assms by (auto simp: view_def hit_def zi_get_def split: option.splits)

text \<open>A loop of \<open>ForEach\<close> over references that touches entries.\<close>

lemma touch_loop:
  assumes "set_inv s"
  shows "view zid (fst (Set_ForEach s (touch_entry f) (fst st, tc)), snd st) z =
      (if z \<in> elems s \<and> hit zid st z then f (view zid st z) else view zid st z)"
    and "gm_inv (ms_idx (fst st)) \<Longrightarrow> gm_inv (ms_idx (fst (Set_ForEach s (touch_entry f) (fst st, tc))))"
    and "same_rest (fst st) (fst (Set_ForEach s (touch_entry f) (fst st, tc)))"
    and "set_inv tc \<Longrightarrow> set_inv (snd (Set_ForEach s (touch_entry f) (fst st, tc)))"
    and "entry_at (fst (Set_ForEach s (touch_entry f) (fst st, tc))) z =
      (if z \<in> elems s then f (entry_at (fst st) z) else entry_at (fst st) z)"
proof -
  note r = SafeSorted_distinct [OF assms] Set_SafeSorted_correct(1) [of s] ForEach_fold
  note t = touch_fold [OF r(1), where f = f and st = "(fst st, tc)", unfolded fst_conv r(2)]
  show e: "entry_at (fst (Set_ForEach s (touch_entry f) (fst st, tc))) z =
      (if z \<in> elems s then f (entry_at (fst st) z) else entry_at (fst st) z)" for z
    unfolding r(3) by (rule t(1))
  show "view zid (fst (Set_ForEach s (touch_entry f) (fst st, tc)), snd st) z =
      (if z \<in> elems s \<and> hit zid st z then f (view zid st z) else view zid st z)"
    by (rule view_loop) (rule e)
  show "gm_inv (ms_idx (fst st)) \<Longrightarrow> gm_inv (ms_idx (fst (Set_ForEach s (touch_entry f) (fst st, tc))))"
    unfolding r(3) by (rule t(3))
  show "same_rest (fst st) (fst (Set_ForEach s (touch_entry f) (fst st, tc)))"
    unfolding r(3) by (rule t(4))
  show "set_inv tc \<Longrightarrow> set_inv (snd (Set_ForEach s (touch_entry f) (fst st, tc)))"
    unfolding r(3) using touch_fold_toCheck [OF r(1), where f = f and st = "(fst st, tc)"] by simp
qed

lemma removeInverse_loop:
  assumes "set_inv s"
  shows "view zid (removeInverseMeta y key s (fst st), snd st) z =
      (if z \<in> elems s \<and> hit zid st z then remove_inverse key y (view zid st z) else view zid st z)"
    and "gm_inv (ms_idx (fst st)) \<Longrightarrow> gm_inv (ms_idx (removeInverseMeta y key s (fst st)))"
    and "same_rest (fst st) (removeInverseMeta y key s (fst st))"
    and "entry_at (removeInverseMeta y key s ms) z =
      (if z \<in> elems s then remove_inverse key y (entry_at ms z) else entry_at ms z)"
    and "gm_inv (ms_idx ms) \<Longrightarrow> gm_inv (ms_idx (removeInverseMeta y key s ms))"
    and "same_rest ms (removeInverseMeta y key s ms)"
proof -
  note r = SafeSorted_distinct [OF assms] Set_SafeSorted_correct(1) [of s] ForEach_fold
  note t = existing_fold [OF r(1), where f = "remove_inverse key y", unfolded r(2)]
  have e: "entry_at (removeInverseMeta y key s ms) z =
      (if z \<in> elems s then remove_inverse key y (entry_at ms z) else entry_at ms z)" for ms z
    unfolding removeInverseMeta_existing r(3) t(1) using entry_missing [of ms z] by auto
  show "view zid (removeInverseMeta y key s (fst st), snd st) z =
      (if z \<in> elems s \<and> hit zid st z then remove_inverse key y (view zid st z) else view zid st z)"
    by (rule view_loop) (rule e)
  have g: "gm_inv (ms_idx ms) \<Longrightarrow> gm_inv (ms_idx (removeInverseMeta y key s ms))" for ms
    unfolding removeInverseMeta_existing r(3) by (rule t(3))
  have sr: "same_rest ms (removeInverseMeta y key s ms)" for ms
    unfolding removeInverseMeta_existing r(3) by (rule t(4))
  show "gm_inv (ms_idx (fst st)) \<Longrightarrow> gm_inv (ms_idx (removeInverseMeta y key s (fst st)))" by (rule g)
  show "same_rest (fst st) (removeInverseMeta y key s (fst st))" by (rule sr)
  show "entry_at (removeInverseMeta y key s ms) z =
      (if z \<in> elems s then remove_inverse key y (entry_at ms z) else entry_at ms z)" by (rule e)
  show "gm_inv (ms_idx ms) \<Longrightarrow> gm_inv (ms_idx (removeInverseMeta y key s ms))" by (rule g)
  show "same_rest ms (removeInverseMeta y key s ms)" by (rule sr)
qed

section \<open>The steps of an update\<close>

text \<open>The two reference sets under a key, as sets.\<close>

abbreviation ofwd :: "zettelData \<Rightarrow> string \<Rightarrow> zid set" where
  "ofwd e k \<equiv> elems (forward (other_at e k))"

abbreviation obwd :: "zettelData \<Rightarrow> string \<Rightarrow> zid set" where
  "obwd e k \<equiv> elems (backward (other_at e k))"

definition same_core :: "zettelData \<Rightarrow> zettelData \<Rightarrow> bool" where
  "same_core e e' \<longleftrightarrow> zd_meta e' = zd_meta e \<and> zd_dead e' = zd_dead e \<and> zd_forward e' = zd_forward e \<and>
     zd_backward e' = zd_backward e \<and> zd_words e' = zd_words e \<and> zd_urls e' = zd_urls e"

lemma same_core_refl [simp]: "same_core e e"
  by (simp add: same_core_def)

lemma same_core_trans: "same_core a b \<Longrightarrow> same_core b c \<Longrightarrow> same_core a c"
  by (simp add: same_core_def)

text \<open>An index contribution as the indexer builds it.\<close>

definition zidx_ok :: "ZettelIndex \<Rightarrow> bool" where
  "zidx_ok zx \<longleftrightarrow> set_inv (zi_backrefs zx) \<and> set_inv (zi_deadrefs zx) \<and> gm_inv (zi_inverseRefs zx) \<and>
     (\<forall>k. set_inv (gm_set (zi_inverseRefs zx) k)) \<and> m_Zid (zi_meta zx) = zi_Zid zx"

lemma GetInverseRefs_facts:
  assumes "zidx_ok zx"
  shows "gm_get (GetInverseRefs zx) = gm_get (zi_inverseRefs zx)" and "gm_inv (GetInverseRefs zx)"
proof -
  have "fold (\<lambda>(key, refs) result. gm_put result key refs) = fold (\<lambda>(k, v) m. gm_put m k v)" by simp
  then show "gm_get (GetInverseRefs zx) = gm_get (zi_inverseRefs zx)" and "gm_inv (GetInverseRefs zx)"
    using assms fold_put_get [of "zi_inverseRefs zx" "[]"] fold_put_inv [of "[]" "zi_inverseRefs zx"]
    by (simp_all add: GetInverseRefs_def zidx_ok_def)
qed

lemma dead_step:
  assumes "upd_ok (zi_Zid zx) st" and "zidx_ok zx" and "sets_ok (ms_dead (fst st))"
    and st': "st' = updateDeadReferences zx st"
  shows "view (zi_Zid zx) st' z =
      (if z = zi_Zid zx then (view (zi_Zid zx) st z)\<lparr>zd_dead := zi_deadrefs zx\<rparr> else view (zi_Zid zx) st z)"
    and "upd_ok (zi_Zid zx) st'" and "hit (zi_Zid zx) st' y \<longleftrightarrow> hit (zi_Zid zx) st y"
    and "ms_words (fst st') = ms_words (fst st)" and "ms_urls (fst st') = ms_urls (fst st)"
    and "sets_ok (ms_dead (fst st'))"
    and "refs_of (ms_dead (fst st')) r =
      (let old = elems (zd_dead (view (zi_Zid zx) st (zi_Zid zx))); new = elems (zi_deadrefs zx) in
       if r \<in> new - old then insert (zi_Zid zx) (refs_of (ms_dead (fst st)) r)
       else if r \<in> old - new then refs_of (ms_dead (fst st)) r - {zi_Zid zx}
       else refs_of (ms_dead (fst st)) r)"
proof -
  let ?z = "zi_Zid zx"
  let ?zi = "view ?z st ?z"
  obtain n r0 where d: "Set_Diff (zd_dead ?zi) (zi_deadrefs zx) = (n, r0)" by force
  let ?st1 = "zi_put ?z (?zi\<lparr>zd_dead := zi_deadrefs zx\<rparr>) st"
  let ?d = "ms_dead (fst st)"
  let ?d1 = "fold (\<lambda>k d. gm_put d k (Set_Remove (gm_set d k) ?z)) (Set_SafeSorted r0) ?d"
  let ?d2 = "fold (\<lambda>k d. gm_put d k (Set_Add (gm_set d k) ?z)) (Set_SafeSorted n) ?d1"
  have e: "st' = ((fst ?st1)\<lparr>ms_dead := ?d2\<rparr>, snd ?st1)"
    unfolding st' updateDeadReferences_def Let_def view_zi_get d by (simp add: ForEach_fold)
  have eo: "entry_ok ?zi" "gm_inv (zd_otherRefs ?zi)" using assms(1) by (auto simp: upd_ok_def)
  have inv: "set_inv (zd_dead ?zi)" "set_inv (zi_deadrefs zx)"
    using eo assms(2) by (auto simp: entry_ok_def zidx_ok_def)
  note df = Set_Diff_correct [OF inv d]
  note dn = SafeSorted_distinct [OF df(1)] and dr = SafeSorted_distinct [OF df(2)]
  note f1 = sets_fold(1) [OF dr, where g = "\<lambda>s. Set_Remove s ?z" and d = ?d, unfolded Set_SafeSorted_correct(1)]
  note f2 = sets_fold(1) [OF dn, where g = "\<lambda>s. Set_Add s ?z" and d = ?d1, unfolded Set_SafeSorted_correct(1)]
  have si: "set_inv (gm_set ?d k)" for k using assms(3) by (simp add: sets_ok_def)
  have v: "view ?z st' y = view ?z ?st1 y" for y
    unfolding e by (simp only: view_other)
  show "view ?z st' z = (if z = ?z then (view ?z st z)\<lparr>zd_dead := zi_deadrefs zx\<rparr> else view ?z st z)"
    unfolding v by simp
  show "hit ?z st' y \<longleftrightarrow> hit ?z st y" unfolding e by (simp add: hit_def)
  show "ms_words (fst st') = ms_words (fst st)" "ms_urls (fst st') = ms_urls (fst st)" unfolding e by simp_all
  show "upd_ok ?z st'" using assms(1,2) eo unfolding upd_ok_def v
    by (simp add: e entry_ok_def zidx_ok_def)
  have "gm_inv ?d" using assms(3) by (simp add: sets_ok_def)
  then have "gm_inv ?d2"
    by (rule sets_fold(2) [OF dr, where g = "\<lambda>s. Set_Remove s ?z",
          THEN sets_fold(2) [OF dn, where g = "\<lambda>s. Set_Add s ?z"]])
  then show "sets_ok (ms_dead (fst st'))"
    unfolding e sets_ok_def using si Set_Add_correct(1) Set_Remove_correct(1) by (simp add: f1 f2)
  show "refs_of (ms_dead (fst st')) r = (let old = elems (zd_dead (view ?z st ?z)); new = elems (zi_deadrefs zx) in
       if r \<in> new - old then insert ?z (refs_of (ms_dead (fst st)) r)
       else if r \<in> old - new then refs_of (ms_dead (fst st)) r - {?z}
       else refs_of (ms_dead (fst st)) r)"
    using si Set_Add_correct Set_Remove_correct df(3,4) by (auto simp: e f1 f2 Let_def)
qed

lemma forward_step:
  assumes "upd_ok (zi_Zid zx) st" and "zidx_ok zx"
    and r: "updateForwardBackwardReferences zx st = (st', toCheck)"
  shows "zd_forward (view (zi_Zid zx) st' z) =
      (if z = zi_Zid zx then zi_backrefs zx else zd_forward (view (zi_Zid zx) st z))"
    and "elems (zd_backward (view (zi_Zid zx) st' z)) =
      (let old = elems (zd_forward (view (zi_Zid zx) st (zi_Zid zx))); new = elems (zi_backrefs zx);
           b = elems (zd_backward (view (zi_Zid zx) st z)) in
       if \<not> hit (zi_Zid zx) st z then b
       else if z \<in> new - old then insert (zi_Zid zx) b
       else if z \<in> old - new then b - {zi_Zid zx} else b)"
    and "zd_meta (view (zi_Zid zx) st' z) = zd_meta (view (zi_Zid zx) st z)"
    and "zd_dead (view (zi_Zid zx) st' z) = zd_dead (view (zi_Zid zx) st z)"
    and "zd_otherRefs (view (zi_Zid zx) st' z) = zd_otherRefs (view (zi_Zid zx) st z)"
    and "zd_words (view (zi_Zid zx) st' z) = zd_words (view (zi_Zid zx) st z)"
    and "zd_urls (view (zi_Zid zx) st' z) = zd_urls (view (zi_Zid zx) st z)"
    and "upd_ok (zi_Zid zx) st'" and "hit (zi_Zid zx) st' y \<longleftrightarrow> hit (zi_Zid zx) st y"
    and "same_rest (fst st) (fst st')" and "set_inv toCheck"
proof -
  let ?z = "zi_Zid zx"
  let ?zi = "view ?z st ?z"
  obtain n r0 where d: "Set_Diff (zd_forward ?zi) (zi_backrefs zx) = (n, r0)" by force
  let ?st1 = "zi_put ?z (?zi\<lparr>zd_forward := zi_backrefs zx\<rparr>) st"
  let ?rem = "\<lambda>bzi. bzi\<lparr>zd_backward := Set_Remove (zd_backward bzi) ?z\<rparr>"
  let ?add = "\<lambda>bzi. bzi\<lparr>zd_backward := Set_Add (zd_backward bzi) ?z\<rparr>"
  let ?r1 = "Set_ForEach r0 (touch_entry ?rem) (fst ?st1, None)"
  let ?st2 = "(fst ?r1, snd ?st1)"
  let ?r2 = "Set_ForEach n (touch_entry ?add) (fst ?st2, snd ?r1)"
  have e: "st' = (fst ?r2, snd ?st2)" "toCheck = snd ?r2"
    using r unfolding updateForwardBackwardReferences_def Let_def view_zi_get d by simp_all
  have eo: "entry_ok (view ?z st y)" "gm_inv (zd_otherRefs (view ?z st y))" for y
    using assms(1) by (auto simp: upd_ok_def)
  have inv: "set_inv (zd_forward ?zi)" "set_inv (zi_backrefs zx)"
    using eo assms(2) by (auto simp: entry_ok_def zidx_ok_def)
  note df = Set_Diff_correct [OF inv d]
  note l1 = touch_loop [OF df(2), where f = ?rem and st = ?st1 and tc = None]
  note l2 = touch_loop [OF df(1), where f = ?add and st = ?st2 and tc = "snd ?r1"]
  have h: "hit ?z ?st2 y \<longleftrightarrow> hit ?z st y" "hit ?z ?st1 y \<longleftrightarrow> hit ?z st y" for y by (simp_all add: hit_def)
  have v: "view ?z st' y = (if y \<in> elems n \<and> hit ?z st y then ?add (view ?z ?st2 y) else view ?z ?st2 y)" for y
    unfolding e(1) using l2(1) [of ?z y] h by simp
  have v2: "view ?z ?st2 y = (if y \<in> elems r0 \<and> hit ?z st y then ?rem (view ?z ?st1 y) else view ?z ?st1 y)" for y
    using l1(1) [of ?z y] h by simp
  have v1: "view ?z ?st1 y = (if y = ?z then (view ?z st y)\<lparr>zd_forward := zi_backrefs zx\<rparr> else view ?z st y)" for y
    by simp
  have bi: "set_inv (zd_backward (view ?z st z))" for z using eo by (simp add: entry_ok_def)
  show "zd_forward (view ?z st' z) = (if z = ?z then zi_backrefs zx else zd_forward (view ?z st z))"
    "zd_meta (view ?z st' z) = zd_meta (view ?z st z)" "zd_dead (view ?z st' z) = zd_dead (view ?z st z)"
    "zd_otherRefs (view ?z st' z) = zd_otherRefs (view ?z st z)"
    "zd_words (view ?z st' z) = zd_words (view ?z st z)" "zd_urls (view ?z st' z) = zd_urls (view ?z st z)"
    unfolding v v2 v1 by simp_all
  show "elems (zd_backward (view ?z st' z)) =
      (let old = elems (zd_forward (view ?z st ?z)); new = elems (zi_backrefs zx);
           b = elems (zd_backward (view ?z st z)) in
       if \<not> hit ?z st z then b else if z \<in> new - old then insert ?z b
       else if z \<in> old - new then b - {?z} else b)"
    unfolding v v2 v1 Let_def using bi [of z] df(3,4) by (auto simp: Set_Add_correct Set_Remove_correct)
  show "hit ?z st' y \<longleftrightarrow> hit ?z st y" unfolding e using h by (simp add: hit_def)
  show "same_rest (fst st) (fst st')"
    unfolding e using l1(3) l2(3) by (auto simp: same_rest_def zi_put_def split: option.splits)
  show "set_inv toCheck" unfolding e using l1(4) l2(4) by simp
  have g: "gm_inv (ms_idx (fst st'))" unfolding e using l1(2) l2(2) assms(1) by (simp add: upd_ok_def)
  have "entry_ok (view ?z st' y) \<and> gm_inv (zd_otherRefs (view ?z st' y))" for y
    unfolding v v2 v1 using eo [of y] inv(2) by (auto simp: entry_ok_def Set_Add_correct Set_Remove_correct)
  then show "upd_ok ?z st'" unfolding upd_ok_def using g by blast
qed

text \<open>The first loop of \<open>updateMetadataReferences\<close>: keys the zettel does not use any more.\<close>

lemma other_ok: "upd_ok zid st \<Longrightarrow> set_inv (forward (other_at (view zid st z) k)) \<and> set_inv (backward (other_at (view zid st z) k))"
  by (simp add: upd_ok_def entry_ok_def)

definition others_removed :: "zid \<Rightarrow> (zid \<Rightarrow> string \<Rightarrow> bool) \<Rightarrow> upd \<Rightarrow> upd \<Rightarrow> bool" where
  "others_removed zid p st st' \<longleftrightarrow> snd st' = snd st \<and> upd_ok zid st' \<and> same_rest (fst st) (fst st') \<and>
     (\<forall>z k. same_core (view zid st z) (view zid st' z) \<and>
        ofwd (view zid st' z) k = ofwd (view zid st z) k \<and>
        obwd (view zid st' z) k = obwd (view zid st z) k - (if hit zid st z \<and> p z k then {zid} else {}))"

lemma others_removed_one:
  assumes "upd_ok zid st" and "set_inv fwd"
  shows "others_removed zid (\<lambda>z k. k = key \<and> z \<in> elems fwd) st (removeInverseMeta zid key fwd (fst st), snd st)"
proof -
  note l = removeInverse_loop(1-3) [OF assms(2), where st = st and y = zid and key = key]
  have ok: "entry_ok (view zid st z)" "gm_inv (zd_otherRefs (view zid st z))" for z
    using assms(1) by (auto simp: upd_ok_def)
  have b: "set_inv (backward (other_at (view zid st z) k))" for z k using ok by (simp add: entry_ok_def)
  show ?thesis unfolding others_removed_def l(1)
    using ok l(2,3) assms(1) remove_inverse_ok remove_inverse_facts b
    by (auto simp: upd_ok_def l(1) same_core_def remove_inverse_other)
qed

lemma others_removed_trans:
  assumes "others_removed zid p st st1" and "others_removed zid q st1 st2"
  shows "others_removed zid (\<lambda>z k. p z k \<or> q z k) st st2"
proof -
  have "hit zid st1 z \<longleftrightarrow> hit zid st z" for z using assms(1) by (simp add: others_removed_def hit_def)
  then show ?thesis using assms same_core_trans same_rest_trans
    unfolding others_removed_def by (smt (verit) Diff_empty Diff_idemp)
qed

lemma remove_keys_loop:
  assumes "upd_ok zid st" and "\<forall>(k, mr) \<in> set L. set_inv (forward mr)"
  shows "others_removed zid (\<lambda>z k. gm_get inv_refs k = None \<and> (\<exists>mr. (k, mr) \<in> set L \<and> z \<in> elems (forward mr))) st
    (fold (\<lambda>(key, mr) ms. if gm_get inv_refs key \<noteq> None then ms else removeInverseMeta zid key (forward mr) ms) L (fst st), snd st)"
  using assms
proof (induction L arbitrary: st)
  case Nil
  then show ?case by (simp add: others_removed_def)
next
  case (Cons x L)
  obtain key mr where x: "x = (key, mr)" by (cases x)
  show ?case
  proof (cases "gm_get inv_refs key")
    case None
    let ?st1 = "(removeInverseMeta zid key (forward mr) (fst st), snd st)"
    have 1: "others_removed zid (\<lambda>z k. k = key \<and> z \<in> elems (forward mr)) st ?st1"
      by (rule others_removed_one) (use Cons.prems x in auto)
    then have "upd_ok zid ?st1" by (simp add: others_removed_def)
    from others_removed_trans [OF 1 Cons.IH [OF this]] Cons.prems(2) x None show ?thesis
      by (auto elim!: back_subst [of "\<lambda>p. others_removed zid p _ _"])
  next
    case (Some y)
    then show ?thesis using Cons.IH [OF Cons.prems(1)] Cons.prems(2) x
      by (auto simp: fun_eq_iff elim!: back_subst [of "\<lambda>p. others_removed zid p _ _"])
  qed
qed

text \<open>The second loop: the keys the zettel uses now.\<close>

definition ref_change :: "zid \<Rightarrow> bool \<Rightarrow> zid set \<Rightarrow> zid set \<Rightarrow> zid \<Rightarrow> zid set \<Rightarrow> zid set" where
  "ref_change zid h old new z b =
     (if \<not> h then b else if z \<in> new - old then insert zid b else if z \<in> old - new then b - {zid} else b)"

definition others_set :: "zid \<Rightarrow> (string \<times> idset) list \<Rightarrow> upd \<Rightarrow> upd \<Rightarrow> bool" where
  "others_set zid L st st' \<longleftrightarrow> (snd st' = None \<longleftrightarrow> snd st = None) \<and> upd_ok zid st' \<and> same_rest (fst st) (fst st') \<and>
     (\<forall>z. same_core (view zid st z) (view zid st' z) \<and>
        (\<forall>k. k \<notin> fst ` set L \<longrightarrow> ofwd (view zid st' z) k = ofwd (view zid st z) k \<and>
           obwd (view zid st' z) k = obwd (view zid st z) k) \<and>
        (\<forall>k new. (k, new) \<in> set L \<longrightarrow>
           ofwd (view zid st' z) k = (if z = zid then elems new else ofwd (view zid st z) k) \<and>
           obwd (view zid st' z) k = ref_change zid (hit zid st z) (ofwd (view zid st zid) k) (elems new) z
             (obwd (view zid st z) k)))"

definition inverse_step :: "zid \<Rightarrow> string \<Rightarrow> idset \<Rightarrow> upd \<times> idset \<Rightarrow> upd \<times> idset" where
  "inverse_step zid key mrefs r =
     (let (st, toCheck) = r;
          zi = zi_get zid st;
          mr = other_at zi key;
          (newRefs, remRefs) = Set_Diff (forward mr) mrefs;
          st = zi_put zid (zi\<lparr>zd_otherRefs := gm_put (zd_otherRefs zi) key (mr\<lparr>forward := mrefs\<rparr>)\<rparr>) st;
          r = Set_ForEach newRefs (touch_entry (add_inverse key zid)) (fst st, toCheck);
          ms = removeInverseMeta zid key remRefs (fst r)
      in ((ms, snd st), snd r))"

lemma update_inverse_loop_step:
  "update_inverse_loop zid ((key, mrefs) # rest) r = update_inverse_loop zid rest (inverse_step zid key mrefs r)"
  by (cases r) (simp add: inverse_step_def Let_def split: prod.split)

lemma others_set_one:
  assumes "upd_ok zid st" and "set_inv mrefs" and "set_inv tc"
    and r: "inverse_step zid key mrefs (st, tc) = (st', tc')"
  shows "others_set zid [(key, mrefs)] st st' \<and> set_inv tc'"
proof -
  let ?zi = "view zid st zid"
  let ?mr = "other_at ?zi key"
  have ok: "entry_ok (view zid st z)" "gm_inv (zd_otherRefs (view zid st z))" for z
    using assms(1) by (auto simp: upd_ok_def)
  have fb: "set_inv (forward (other_at (view zid st z) k))" "set_inv (backward (other_at (view zid st z) k))" for z k
    using ok by (auto simp: entry_ok_def)
  obtain n r0 where d: "Set_Diff (forward ?mr) mrefs = (n, r0)" by force
  note df = Set_Diff_correct [OF fb(1) assms(2) d]
  let ?st1 = "zi_put zid (?zi\<lparr>zd_otherRefs := gm_put (zd_otherRefs ?zi) key (?mr\<lparr>forward := mrefs\<rparr>)\<rparr>) st"
  let ?r2 = "Set_ForEach n (touch_entry (add_inverse key zid)) (fst ?st1, tc)"
  let ?st2 = "(fst ?r2, snd ?st1)"
  have e: "st' = (removeInverseMeta zid key r0 (fst ?st2), snd ?st2)" "tc' = snd ?r2"
    using r unfolding inverse_step_def view_zi_get Let_def prod.case d by simp_all
  note l1 = touch_loop [OF df(1), where f = "add_inverse key zid" and st = ?st1 and tc = tc]
  have v1: "view zid ?st1 z = (if z = zid then ?zi\<lparr>zd_otherRefs := gm_put (zd_otherRefs ?zi) key (?mr\<lparr>forward := mrefs\<rparr>)\<rparr> else view zid st z)" for z
    by simp
  have ok1: "entry_ok (view zid ?st1 z)" "gm_inv (zd_otherRefs (view zid ?st1 z))" for z
    unfolding v1 using ok [of z] fb assms(2) by (auto simp: entry_ok_def)
  have h: "hit zid ?st1 z \<longleftrightarrow> hit zid st z" "hit zid ?st2 z \<longleftrightarrow> hit zid st z" for z by (simp_all add: hit_def)
  have v2: "view zid ?st2 z = (if z \<in> elems n \<and> hit zid st z then add_inverse key zid (view zid ?st1 z) else view zid ?st1 z)" for z
    using l1(1) h by simp
  have ok2: "upd_ok zid ?st2"
    unfolding upd_ok_def v2 using ok1 add_inverse_ok add_inverse_facts(9) l1(2) assms(1) by (auto simp: upd_ok_def)
  have o3: "others_removed zid (\<lambda>z k. k = key \<and> z \<in> elems r0) ?st2 st'"
    unfolding e(1) by (rule others_removed_one [OF ok2 df(2)])
  have s1: "same_core (view zid st z) (view zid ?st2 z)" for z
    unfolding v2 v1 by (simp add: same_core_def add_inverse_facts)
  have f2: "ofwd (view zid ?st2 z) k = (if k = key \<and> z = zid then elems mrefs else ofwd (view zid st z) k)" for z k
    unfolding v2 v1 by (simp add: add_inverse_facts)
  have b2: "obwd (view zid ?st2 z) k =
      (if k = key \<and> z \<in> elems n \<and> hit zid st z then insert zid (obwd (view zid st z) k) else obwd (view zid st z) k)" for z k
    unfolding v2 v1 using fb by (simp add: add_inverse_facts Set_Add_correct)
  have f3: "ofwd (view zid st' z) k = ofwd (view zid ?st2 z) k"
    and b3: "obwd (view zid st' z) k = obwd (view zid ?st2 z) k - (if hit zid st z \<and> k = key \<and> z \<in> elems r0 then {zid} else {})"
    and s3: "same_core (view zid ?st2 z) (view zid st' z)" for z k
    using o3 h unfolding others_removed_def by auto
  have "ofwd (view zid st' z) k = (if k = key \<and> z = zid then elems mrefs else ofwd (view zid st z) k)" for z k
    unfolding f3 by (rule f2)
  moreover have "obwd (view zid st' z) k = (if k = key
      then ref_change zid (hit zid st z) (ofwd ?zi k) (elems mrefs) z (obwd (view zid st z) k)
      else obwd (view zid st z) k)" for z k
    unfolding b3 b2 using df(3,4) by (auto simp: ref_change_def)
  moreover have "same_rest (fst st) (fst st')"
    using o3 l1(3) by (auto simp: others_removed_def same_rest_def zi_put_def split: option.splits)
  moreover have "snd st' = None \<longleftrightarrow> snd st = None" "upd_ok zid st'" using o3 by (simp_all add: others_removed_def)
  moreover have "set_inv tc'" unfolding e(2) using l1(4) assms(3) by simp
  ultimately show ?thesis unfolding others_set_def using same_core_trans [OF s1 s3] by simp
qed

lemma others_set_cons:
  assumes "others_set zid [(key, new)] st st1" and "others_set zid L st1 st2" and "key \<notin> fst ` set L"
  shows "others_set zid ((key, new) # L) st st2"
proof -
  have h: "hit zid st1 z \<longleftrightarrow> hit zid st z" for z using assms(1) by (simp add: others_set_def hit_def)
  have a: "same_core (view zid st z) (view zid st1 z)"
    "k \<noteq> key \<Longrightarrow> ofwd (view zid st1 z) k = ofwd (view zid st z) k \<and> obwd (view zid st1 z) k = obwd (view zid st z) k"
    "ofwd (view zid st1 z) key = (if z = zid then elems new else ofwd (view zid st z) key)"
    "obwd (view zid st1 z) key = ref_change zid (hit zid st z) (ofwd (view zid st zid) key) (elems new) z (obwd (view zid st z) key)"
    for z k using assms(1) by (simp_all add: others_set_def)
  have b: "same_core (view zid st1 z) (view zid st2 z)"
    "k \<notin> fst ` set L \<Longrightarrow> ofwd (view zid st2 z) k = ofwd (view zid st1 z) k \<and> obwd (view zid st2 z) k = obwd (view zid st1 z) k"
    "(k, n) \<in> set L \<Longrightarrow> ofwd (view zid st2 z) k = (if z = zid then elems n else ofwd (view zid st1 z) k) \<and>
       obwd (view zid st2 z) k = ref_change zid (hit zid st z) (ofwd (view zid st1 zid) k) (elems n) z (obwd (view zid st1 z) k)"
    for z k n using assms(2) unfolding others_set_def h by blast+
  have ne: "k \<noteq> key" if "(k, n) \<in> set L" for k n using assms(3) that by force
  show ?thesis unfolding others_set_def
  proof (intro conjI allI impI)
    show "snd st2 = None \<longleftrightarrow> snd st = None" "upd_ok zid st2"
      using assms(1,2) by (simp_all add: others_set_def)
    show "same_rest (fst st) (fst st2)" using assms(1,2) same_rest_trans unfolding others_set_def by blast
    show "same_core (view zid st z) (view zid st2 z)" for z by (rule same_core_trans [OF a(1) b(1)])
  next
    fix z k assume k: "k \<notin> fst ` set ((key, new) # L)"
    then show "ofwd (view zid st2 z) k = ofwd (view zid st z) k" "obwd (view zid st2 z) k = obwd (view zid st z) k"
      using a(2) b(2) by simp_all
  next
    fix z k n assume m: "(k, n) \<in> set ((key, new) # L)"
    show "ofwd (view zid st2 z) k = (if z = zid then elems n else ofwd (view zid st z) k)"
      "obwd (view zid st2 z) k = ref_change zid (hit zid st z) (ofwd (view zid st zid) k) (elems n) z (obwd (view zid st z) k)"
      using m a b(2) [OF assms(3)] b(3) [of k n] ne [of k n] by auto
  qed
qed

lemma others_set_all:
  assumes "upd_ok zid st" and "set_inv tc" and "distinct (map fst L)" and "\<forall>(k, s) \<in> set L. set_inv s"
    and "update_inverse_loop zid L (st, tc) = (st', tc')"
  shows "others_set zid L st st' \<and> set_inv tc'"
  using assms
proof (induction L arbitrary: st tc)
  case Nil
  then show ?case by (simp add: others_set_def)
next
  case (Cons x L)
  obtain key s where x: "x = (key, s)" by (cases x)
  obtain st1 tc1 where 1: "inverse_step zid key s (st, tc) = (st1, tc1)" by (metis surj_pair)
  have o1: "others_set zid [(key, s)] st st1 \<and> set_inv tc1"
    using Cons.prems x by (intro others_set_one [OF _ _ _ 1]) auto
  then have "upd_ok zid st1" by (simp add: others_set_def)
  then have "others_set zid L st1 st' \<and> set_inv tc'"
    using Cons.prems x 1 o1 by (intro Cons.IH) (auto simp: update_inverse_loop_step simp del: update_inverse_loop.simps)
  then show ?case using o1 Cons.prems(3) x by (auto intro: others_set_cons)
qed

section \<open>The whole update\<close>

lemma internString_frame: "\<exists>i. snd (internString ms s) = ms\<lparr>ms_intern := i\<rparr>"
proof (cases "gm_get (ms_intern ms) s")
  case None
  then have "snd (internString ms s) = ms\<lparr>ms_intern := gm_put (ms_intern ms) s s\<rparr>"
    by (simp add: internString_def)
  then show ?thesis by blast
next
  case (Some t)
  then have "snd (internString ms s) = ms\<lparr>ms_intern := ms_intern ms\<rparr>" by (simp add: internString_def)
  then show ?thesis by blast
qed

lemma makeMeta_loop_frame: "\<exists>i. snd (makeMeta_loop z ps (m, ms)) = ms\<lparr>ms_intern := i\<rparr>"
proof (induction ps arbitrary: m ms)
  case Nil
  have "ms = ms\<lparr>ms_intern := ms_intern ms\<rparr>" by simp
  then show ?case by (metis makeMeta_loop.simps(1) snd_conv)
next
  case (Cons p ps)
  obtain k v where p: "p = (k, v)" by (cases p)
  obtain k' ms1 where 1: "internString ms k = (k', ms1)" by force
  obtain v' ms2 where 2: "internString ms1 v = (v', ms2)" by force
  obtain i1 where i1: "ms1 = ms\<lparr>ms_intern := i1\<rparr>" using internString_frame [of ms k] 1 by auto
  obtain i2 where "ms2 = ms1\<lparr>ms_intern := i2\<rparr>" using internString_frame [of ms1 v] 2 by auto
  then have i2: "ms2 = ms\<lparr>ms_intern := i2\<rparr>" using i1 by simp
  have "\<exists>i. snd (makeMeta_loop z ps (m', ms1)) = ms\<lparr>ms_intern := i\<rparr>" for m' using Cons [of m' ms1] i1 by auto
  moreover have "\<exists>i. snd (makeMeta_loop z ps (m', ms2)) = ms\<lparr>ms_intern := i\<rparr>" for m' using Cons [of m' ms2] i2 by auto
  ultimately show ?case using p 1 2 by simp
qed

lemma makeMeta_frame:
  assumes "makeMeta z ms zx = (m, ms')"
  shows "\<exists>i. ms' = ms\<lparr>ms_intern := i\<rparr>"
  using makeMeta_loop_frame assms unfolding makeMeta_def by (metis snd_conv)

lemma makeMeta_loop_Zid: "m_Zid (fst (makeMeta_loop z ps (m, ms))) = m_Zid m"
  by (induction ps arbitrary: m ms) (auto split: prod.split)

lemma makeMeta_Zid: "makeMeta z ms zx = (m, ms') \<Longrightarrow> m_Zid m = m_Zid (zi_meta zx)"
  using makeMeta_loop_Zid unfolding makeMeta_def by (metis fst_conv meta_New_def select_convs(1) meta.select_convs(1))

text \<open>The word part: the new lists of \<open>zi\<close> and the sets of the store.\<close>

definition word_change :: "zid \<Rightarrow> string set \<Rightarrow> string set \<Rightarrow> string \<Rightarrow> zid set \<Rightarrow> zid set" where
  "word_change zid old new w b = (if w \<in> new then (if w \<in> old then b else insert zid b) else if w \<in> old then b - {zid} else b)"

lemma updateStrings_change:
  assumes "srefs_ok s" and "updateStrings zid s prev next = (ws, s')"
  shows "srefs_ok s'" and "set ws = fst ` set next"
    and "refs_of s' v = word_change zid (set prev) (fst ` set next) v (refs_of s v)"
  using updateStrings_facts [OF assms] by (auto simp: word_change_def)

text \<open>What one update does to every entry and every list.\<close>

definition update_effect :: "mapStore \<Rightarrow> ZettelIndex \<Rightarrow> meta \<Rightarrow> mapStore \<Rightarrow> bool" where
  "update_effect ms zx m ms' \<longleftrightarrow>
     (let zid = zi_Zid zx; old = entry_at ms zid; h = (\<lambda>z. z \<noteq> zid \<or> in_idx ms zid) in
      (\<forall>z. let e = entry_at ms z; e' = entry_at ms' z in
         zd_meta e' = (if z = zid then Some m else zd_meta e) \<and>
         zd_dead e' = (if z = zid then zi_deadrefs zx else zd_dead e) \<and>
         zd_forward e' = (if z = zid then zi_backrefs zx else zd_forward e) \<and>
         elems (zd_backward e') = ref_change zid (h z) (elems (zd_forward old)) (elems (zi_backrefs zx)) z (elems (zd_backward e)) \<and>
         (\<forall>k. ofwd e' k = (if z = zid \<and> gm_get (zi_inverseRefs zx) k \<noteq> None then refs_of (zi_inverseRefs zx) k else ofwd e k) \<and>
              obwd e' k = (if gm_get (zi_inverseRefs zx) k \<noteq> None
                 then ref_change zid (h z) (ofwd old k) (refs_of (zi_inverseRefs zx) k) z (obwd e k)
                 else obwd e k - (if h z \<and> z \<in> ofwd old k then {zid} else {}))) \<and>
         set (zd_words e') = (if z = zid then fst ` set (zi_words zx) else set (zd_words e)) \<and>
         set (zd_urls e') = (if z = zid then fst ` set (zi_urls zx) else set (zd_urls e))) \<and>
      (\<forall>w. refs_of (ms_words ms') w = word_change zid (set (zd_words old)) (fst ` set (zi_words zx)) w (refs_of (ms_words ms) w)) \<and>
      (\<forall>w. refs_of (ms_urls ms') w = word_change zid (set (zd_urls old)) (fst ` set (zi_urls zx)) w (refs_of (ms_urls ms) w)) \<and>
      (\<forall>r. refs_of (ms_dead ms') r = ref_change zid True (elems (zd_dead old)) (elems (zi_deadrefs zx)) r
         (if r = zid then {} else refs_of (ms_dead ms) r)))"

definition store_ok :: "mapStore \<Rightarrow> bool" where
  "store_ok ms \<longleftrightarrow> idx_ok ms \<and> srefs_ok (ms_words ms) \<and> srefs_ok (ms_urls ms) \<and> sets_ok (ms_dead ms)"

text \<open>The last two assignments, to the words and the URLs of \<open>zi\<close>.\<close>

definition words_step :: "ZettelIndex \<Rightarrow> upd \<Rightarrow> upd" where
  "words_step zx st =
     (case updateStrings (zi_Zid zx) (ms_words (fst st)) (zd_words (zi_get (zi_Zid zx) st)) (zi_words zx) of
        (ws, wrefs) \<Rightarrow> zi_put (zi_Zid zx) ((zi_get (zi_Zid zx) st)\<lparr>zd_words := ws\<rparr>) ((fst st)\<lparr>ms_words := wrefs\<rparr>, snd st))"

definition urls_step :: "ZettelIndex \<Rightarrow> upd \<Rightarrow> upd" where
  "urls_step zx st =
     (case updateStrings (zi_Zid zx) (ms_urls (fst st)) (zd_urls (zi_get (zi_Zid zx) st)) (zi_urls zx) of
        (us, urefs) \<Rightarrow> zi_put (zi_Zid zx) ((zi_get (zi_Zid zx) st)\<lparr>zd_urls := us\<rparr>) ((fst st)\<lparr>ms_urls := urefs\<rparr>, snd st))"

definition first_steps :: "zsc \<Rightarrow> mapStore \<Rightarrow> ZettelIndex \<Rightarrow> idset \<times> upd" where
  "first_steps z ms zx =
     (case makeMeta z ms zx of (m, ms) \<Rightarrow>
        let loc = (if gm_get (ms_idx ms) (zi_Zid zx) = None then Some zd_zero else None) in
        case (case gm_get (ms_dead ms) (zi_Zid zx) of
               Some refs \<Rightarrow> (refs, ms\<lparr>ms_dead := gm_delete (ms_dead ms) (zi_Zid zx)\<rparr>)
             | None \<Rightarrow> (None, ms)) of (toCheck, ms) \<Rightarrow>
          (toCheck, zi_put (zi_Zid zx) ((zi_get (zi_Zid zx) (ms, loc))\<lparr>zd_meta := Some m\<rparr>) (ms, loc)))"

definition insert_zi :: "zid \<Rightarrow> upd \<Rightarrow> mapStore" where
  "insert_zi zid st =
     (case snd st of Some zd \<Rightarrow> (fst st)\<lparr>ms_idx := gm_put (ms_idx (fst st)) zid zd\<rparr> | None \<Rightarrow> fst st)"

lemma UpdateReferences_steps:
  assumes "first_steps z ms zx = (tc1, st0)"
    and "updateForwardBackwardReferences zx (updateDeadReferences zx st0) = (st2, ids2)"
    and "updateMetadataReferences zx st2 = (st3, ids3)"
  shows "UpdateReferences z ms zx =
    (insert_zi (zi_Zid zx) (urls_step zx (words_step zx st3)), Set_IUnion (Set_IUnion tc1 ids2) ids3)"
  using assms unfolding UpdateReferences_def first_steps_def words_step_def urls_step_def insert_zi_def Let_def
  by (simp only: split_def fst_conv snd_conv prod.inject)

lemma first_steps_facts:
  assumes ok: "store_ok ms" and f: "first_steps z ms zx = (tc, st)"
  shows "view (zi_Zid zx) st y =
      (if y = zi_Zid zx then (entry_at ms y)\<lparr>zd_meta := Some (fst (makeMeta z ms zx))\<rparr> else entry_at ms y)"
    and "hit (zi_Zid zx) st y \<longleftrightarrow> y \<noteq> zi_Zid zx \<or> in_idx ms (zi_Zid zx)"
    and "ms_words (fst st) = ms_words ms" and "ms_urls (fst st) = ms_urls ms"
    and "refs_of (ms_dead (fst st)) r = (if r = zi_Zid zx then {} else refs_of (ms_dead ms) r)"
    and "sets_ok (ms_dead (fst st))" and "set_inv tc" and "upd_ok (zi_Zid zx) st"
proof -
  let ?zid = "zi_Zid zx"
  obtain m ms1 where mm: "makeMeta z ms zx = (m, ms1)" by (rule prod.exhaust)
  obtain i where i: "ms1 = ms\<lparr>ms_intern := i\<rparr>" using makeMeta_frame [OF mm] by blast
  let ?loc = "if gm_get (ms_idx ms1) ?zid = None then Some zd_zero else None"
  obtain tc1 ms2 where d: "(case gm_get (ms_dead ms1) ?zid of
      Some refs \<Rightarrow> (refs, ms1\<lparr>ms_dead := gm_delete (ms_dead ms1) ?zid\<rparr>) | None \<Rightarrow> (None, ms1)) = (tc1, ms2)"
    by (rule prod.exhaust)
  have r: "tc = tc1" "st = zi_put ?zid ((zi_get ?zid (ms2, ?loc))\<lparr>zd_meta := Some m\<rparr>) (ms2, ?loc)"
    using f unfolding first_steps_def mm Let_def prod.case d by simp_all
  have idx2: "ms_idx ms2 = ms_idx ms" "ms_words ms2 = ms_words ms" "ms_urls ms2 = ms_urls ms"
    using d i by (auto split: option.splits)
  have "set_inv (gm_set (ms_dead ms) k)" for k using ok by (simp add: store_ok_def sets_ok_def)
  then have si: "gm_get (ms_dead ms) k = Some s \<Longrightarrow> set_inv s" for k s
    unfolding gm_set_def by (metis option.simps(5))
  have v0: "view ?zid (ms2, ?loc) y = entry_at ms y" for y
    using idx2 i by (simp add: view_def zi_get_def entry_at_def)
  show v: "view ?zid st y = (if y = ?zid then (entry_at ms y)\<lparr>zd_meta := Some (fst (makeMeta z ms zx))\<rparr> else entry_at ms y)" for y
    unfolding r view_zi_put view_zi_get v0 mm by simp
  show "hit ?zid st y \<longleftrightarrow> y \<noteq> ?zid \<or> in_idx ms ?zid"
    unfolding r hit_zi_put using i by (simp add: hit_def in_idx_def)
  show "ms_words (fst st) = ms_words ms" "ms_urls (fst st) = ms_urls ms"
    unfolding r zi_put_facts fst_conv using idx2 by simp_all
  show "refs_of (ms_dead (fst st)) r = (if r = ?zid then {} else refs_of (ms_dead ms) r)"
    unfolding r zi_put_facts fst_conv using d i by (auto simp: gm_set_def split: option.splits)
  have "gm_inv (ms_dead ms)" "\<And>k. set_inv (gm_set (ms_dead ms) k)" using ok by (auto simp: store_ok_def sets_ok_def)
  then show "sets_ok (ms_dead (fst st))"
    unfolding r zi_put_facts fst_conv using d i by (auto simp: sets_ok_def split: option.splits)
  show "set_inv tc" unfolding r using d i si by (auto split: option.splits)
  have "gm_inv (ms_idx (fst st))" unfolding r using ok idx2 by (simp add: store_ok_def idx_ok_def)
  moreover have "entry_ok (entry_at ms y)" "gm_inv (zd_otherRefs (entry_at ms y))" for y
    using ok by (auto simp: store_ok_def idx_ok_def)
  ultimately show "upd_ok ?zid st" unfolding upd_ok_def v by (simp add: entry_ok_def)
qed

lemma meta_step:
  assumes ok: "upd_ok (zi_Zid zx) st" and zx: "zidx_ok zx" and r: "updateMetadataReferences zx st = (st', tc)"
  shows "same_core (view (zi_Zid zx) st y) (view (zi_Zid zx) st' y)"
    and "ofwd (view (zi_Zid zx) st' y) k =
      (if y = zi_Zid zx \<and> gm_get (zi_inverseRefs zx) k \<noteq> None then refs_of (zi_inverseRefs zx) k
       else ofwd (view (zi_Zid zx) st y) k)"
    and "obwd (view (zi_Zid zx) st' y) k =
      (if gm_get (zi_inverseRefs zx) k \<noteq> None
       then ref_change (zi_Zid zx) (hit (zi_Zid zx) st y) (ofwd (view (zi_Zid zx) st (zi_Zid zx)) k)
         (refs_of (zi_inverseRefs zx) k) y (obwd (view (zi_Zid zx) st y) k)
       else obwd (view (zi_Zid zx) st y) k -
         (if hit (zi_Zid zx) st y \<and> y \<in> ofwd (view (zi_Zid zx) st (zi_Zid zx)) k then {zi_Zid zx} else {}))"
    and "upd_ok (zi_Zid zx) st'" and "same_rest (fst st) (fst st')" and "set_inv tc"
proof -
  let ?zid = "zi_Zid zx"
  let ?zi = "view ?zid st ?zid"
  let ?L = "zd_otherRefs ?zi"
  let ?I = "GetInverseRefs zx"
  let ?st1 = "(fold (\<lambda>(key, mr) ms. if gm_get ?I key \<noteq> None then ms else removeInverseMeta ?zid key (forward mr) ms) ?L (fst st), snd st)"
  have e: "update_inverse_loop ?zid ?I (?st1, None) = (st', tc)"
    using r unfolding updateMetadataReferences_def Let_def view_zi_get by simp
  note gi = GetInverseRefs_facts [OF zx]
  have gl: "gm_inv ?L" "entry_ok ?zi" using ok by (auto simp: upd_ok_def)
  have fi: "set_inv (forward mr)" if "(k, mr) \<in> set ?L" for k mr
  proof -
    have "gm_get ?L k = Some mr" using gm_get_Some_iff [OF gl(1)] that by blast
    then have "other_at ?zi k = mr" by (simp add: other_at_def)
    then show ?thesis using gl(2) by (auto simp: entry_ok_def)
  qed
  have L: "(\<exists>mr. (k, mr) \<in> set ?L \<and> y \<in> elems (forward mr)) \<longleftrightarrow> y \<in> ofwd ?zi k" for k y
    unfolding gm_get_Some_iff [OF gl(1), symmetric] by (auto simp: other_at_def bidi_zero_def split: option.splits)
  have o1: "others_removed ?zid (\<lambda>y k. gm_get ?I k = None \<and> (\<exists>mr. (k, mr) \<in> set ?L \<and> y \<in> elems (forward mr))) st ?st1"
    by (rule remove_keys_loop [OF ok]) (use fi in blast)
  then have ok1: "upd_ok ?zid ?st1" by (simp add: others_removed_def)
  have si: "\<forall>(k, s) \<in> set ?I. set_inv s"
  proof (clarify)
    fix k s assume "(k, s) \<in> set ?I"
    then have "gm_get (zi_inverseRefs zx) k = Some s" using gm_get_Some_iff [OF gi(2)] gi(1) by metis
    then have "gm_set (zi_inverseRefs zx) k = s" by (simp add: gm_set_def)
    then show "set_inv s" using zx unfolding zidx_ok_def by metis
  qed
  have o2: "others_set ?zid ?I ?st1 st' \<and> set_inv tc"
    by (rule others_set_all [OF ok1 _ _ si e]) (use gi(2) in \<open>simp_all add: gm_inv_def\<close>)
  have h: "hit ?zid ?st1 y \<longleftrightarrow> hit ?zid st y" for y by (simp add: hit_def)
  have a: "same_core (view ?zid st y) (view ?zid ?st1 y)" "ofwd (view ?zid ?st1 y) k = ofwd (view ?zid st y) k"
    "obwd (view ?zid ?st1 y) k = obwd (view ?zid st y) k -
       (if hit ?zid st y \<and> gm_get ?I k = None \<and> y \<in> ofwd ?zi k then {?zid} else {})" for y k
    using o1 unfolding others_removed_def L by blast+
  have b: "same_core (view ?zid ?st1 y) (view ?zid st' y)"
    "k \<notin> fst ` set ?I \<Longrightarrow> ofwd (view ?zid st' y) k = ofwd (view ?zid ?st1 y) k \<and> obwd (view ?zid st' y) k = obwd (view ?zid ?st1 y) k"
    "(k, n) \<in> set ?I \<Longrightarrow> ofwd (view ?zid st' y) k = (if y = ?zid then elems n else ofwd (view ?zid ?st1 y) k) \<and>
       obwd (view ?zid st' y) k = ref_change ?zid (hit ?zid st y) (ofwd (view ?zid ?st1 ?zid) k) (elems n) y (obwd (view ?zid ?st1 y) k)"
    for y k n using o2 unfolding others_set_def h by blast+
  show "same_core (view ?zid st y) (view ?zid st' y)" by (rule same_core_trans [OF a(1) b(1)])
  show "upd_ok ?zid st'" "set_inv tc" using o2 by (simp_all add: others_set_def)
  show "same_rest (fst st) (fst st')"
    using o1 o2 same_rest_trans unfolding others_set_def others_removed_def by blast
  have keys: "k \<in> fst ` set ?I \<longleftrightarrow> gm_get (zi_inverseRefs zx) k \<noteq> None"
    using gm_get_None_iff [of ?I k] gi(1) by simp
  have mem: "gm_get (zi_inverseRefs zx) k = Some s \<Longrightarrow> (k, s) \<in> set ?I \<and> gm_set (zi_inverseRefs zx) k = s" for s
    using gi(1) by (metis map_of_SomeD gm_set_def option.simps(5))
  show "ofwd (view ?zid st' y) k = (if y = ?zid \<and> gm_get (zi_inverseRefs zx) k \<noteq> None
      then refs_of (zi_inverseRefs zx) k else ofwd (view ?zid st y) k)"
    using b(2) [of k y] b(3) [of k _ y] a(2) keys mem by (cases "gm_get (zi_inverseRefs zx) k") auto
  show "obwd (view ?zid st' y) k =
      (if gm_get (zi_inverseRefs zx) k \<noteq> None
       then ref_change ?zid (hit ?zid st y) (ofwd ?zi k) (refs_of (zi_inverseRefs zx) k) y (obwd (view ?zid st y) k)
       else obwd (view ?zid st y) k - (if hit ?zid st y \<and> y \<in> ofwd ?zi k then {?zid} else {}))"
    using b(2) [of k y] b(3) [of k _ y] a(2,3) keys mem gi(1) by (cases "gm_get (zi_inverseRefs zx) k") auto
qed

lemma words_step_facts:
  assumes "upd_ok (zi_Zid zx) st" and "srefs_ok (ms_words (fst st))"
  shows "\<exists>ws. set ws = fst ` set (zi_words zx) \<and> (\<forall>y. view (zi_Zid zx) (words_step zx st) y =
      (if y = zi_Zid zx then (view (zi_Zid zx) st y)\<lparr>zd_words := ws\<rparr> else view (zi_Zid zx) st y))"
    and "srefs_ok (ms_words (fst (words_step zx st)))"
    and "refs_of (ms_words (fst (words_step zx st))) w =
      word_change (zi_Zid zx) (set (zd_words (view (zi_Zid zx) st (zi_Zid zx)))) (fst ` set (zi_words zx)) w (refs_of (ms_words (fst st)) w)"
    and "upd_ok (zi_Zid zx) (words_step zx st)"
    and "ms_urls (fst (words_step zx st)) = ms_urls (fst st)" and "ms_dead (fst (words_step zx st)) = ms_dead (fst st)"
proof -
  let ?zid = "zi_Zid zx"
  let ?zi = "view ?zid st ?zid"
  obtain ws wrefs where u: "updateStrings ?zid (ms_words (fst st)) (zd_words ?zi) (zi_words zx) = (ws, wrefs)" by (rule prod.exhaust)
  have e: "words_step zx st = zi_put ?zid (?zi\<lparr>zd_words := ws\<rparr>) ((fst st)\<lparr>ms_words := wrefs\<rparr>, snd st)"
    unfolding words_step_def view_zi_get u by simp
  note c = updateStrings_change [OF assms(2) u]
  have v: "view ?zid (words_step zx st) y = (if y = ?zid then (view ?zid st y)\<lparr>zd_words := ws\<rparr> else view ?zid st y)" for y
    unfolding e by simp
  then show "\<exists>ws. set ws = fst ` set (zi_words zx) \<and> (\<forall>y. view ?zid (words_step zx st) y =
      (if y = ?zid then (view ?zid st y)\<lparr>zd_words := ws\<rparr> else view ?zid st y))" using c(2) by blast
  show "srefs_ok (ms_words (fst (words_step zx st)))" unfolding e using c(1) by simp
  show "refs_of (ms_words (fst (words_step zx st))) w = word_change ?zid (set (zd_words ?zi)) (fst ` set (zi_words zx)) w (refs_of (ms_words (fst st)) w)"
    unfolding e using c(3) by simp
  show "ms_urls (fst (words_step zx st)) = ms_urls (fst st)" "ms_dead (fst (words_step zx st)) = ms_dead (fst st)"
    unfolding e by simp_all
  have "gm_inv (ms_idx (fst (words_step zx st)))" unfolding e using assms(1) by (simp add: upd_ok_def)
  then show "upd_ok ?zid (words_step zx st)" using assms(1) unfolding upd_ok_def v by (simp add: entry_ok_def)
qed

lemma urls_step_facts:
  assumes "upd_ok (zi_Zid zx) st" and "srefs_ok (ms_urls (fst st))"
  shows "\<exists>us. set us = fst ` set (zi_urls zx) \<and> (\<forall>y. view (zi_Zid zx) (urls_step zx st) y =
      (if y = zi_Zid zx then (view (zi_Zid zx) st y)\<lparr>zd_urls := us\<rparr> else view (zi_Zid zx) st y))"
    and "srefs_ok (ms_urls (fst (urls_step zx st)))"
    and "refs_of (ms_urls (fst (urls_step zx st))) w =
      word_change (zi_Zid zx) (set (zd_urls (view (zi_Zid zx) st (zi_Zid zx)))) (fst ` set (zi_urls zx)) w (refs_of (ms_urls (fst st)) w)"
    and "upd_ok (zi_Zid zx) (urls_step zx st)"
    and "ms_words (fst (urls_step zx st)) = ms_words (fst st)" and "ms_dead (fst (urls_step zx st)) = ms_dead (fst st)"
proof -
  let ?zid = "zi_Zid zx"
  let ?zi = "view ?zid st ?zid"
  obtain us urefs where u: "updateStrings ?zid (ms_urls (fst st)) (zd_urls ?zi) (zi_urls zx) = (us, urefs)" by (rule prod.exhaust)
  have e: "urls_step zx st = zi_put ?zid (?zi\<lparr>zd_urls := us\<rparr>) ((fst st)\<lparr>ms_urls := urefs\<rparr>, snd st)"
    unfolding urls_step_def view_zi_get u by simp
  note c = updateStrings_change [OF assms(2) u]
  have v: "view ?zid (urls_step zx st) y = (if y = ?zid then (view ?zid st y)\<lparr>zd_urls := us\<rparr> else view ?zid st y)" for y
    unfolding e by simp
  then show "\<exists>us. set us = fst ` set (zi_urls zx) \<and> (\<forall>y. view ?zid (urls_step zx st) y =
      (if y = ?zid then (view ?zid st y)\<lparr>zd_urls := us\<rparr> else view ?zid st y))" using c(2) by blast
  show "srefs_ok (ms_urls (fst (urls_step zx st)))" unfolding e using c(1) by simp
  show "refs_of (ms_urls (fst (urls_step zx st))) w = word_change ?zid (set (zd_urls ?zi)) (fst ` set (zi_urls zx)) w (refs_of (ms_urls (fst st)) w)"
    unfolding e using c(3) by simp
  show "ms_words (fst (urls_step zx st)) = ms_words (fst st)" "ms_dead (fst (urls_step zx st)) = ms_dead (fst st)"
    unfolding e by simp_all
  have "gm_inv (ms_idx (fst (urls_step zx st)))" unfolding e using assms(1) by (simp add: upd_ok_def)
  then show "upd_ok ?zid (urls_step zx st)" using assms(1) unfolding upd_ok_def v by (simp add: entry_ok_def)
qed

lemma insert_zi_facts:
  "entry_at (insert_zi zid st) y = view zid st y"
  "gm_inv (ms_idx (fst st)) \<Longrightarrow> gm_inv (ms_idx (insert_zi zid st))"
  "ms_words (insert_zi zid st) = ms_words (fst st)" "ms_urls (insert_zi zid st) = ms_urls (fst st)"
  "ms_dead (insert_zi zid st) = ms_dead (fst st)"
  by (auto simp: insert_zi_def view_def zi_get_def split: option.split)

lemma UpdateReferences_effect:
  assumes ok: "store_ok ms" and zx: "zidx_ok zx" and u: "UpdateReferences z ms zx = (ms', toCheck)"
  shows "store_ok ms' \<and> set_inv toCheck \<and> update_effect ms zx (fst (makeMeta z ms zx)) ms'"
proof -
  let ?zid = "zi_Zid zx"
  obtain tc1 st0 where s0: "first_steps z ms zx = (tc1, st0)" by (rule prod.exhaust)
  let ?st1 = "updateDeadReferences zx st0"
  obtain st2 ids2 where s2: "updateForwardBackwardReferences zx ?st1 = (st2, ids2)" by (rule prod.exhaust)
  obtain st3 ids3 where s3: "updateMetadataReferences zx st2 = (st3, ids3)" by (rule prod.exhaust)
  let ?st4 = "words_step zx st3"
  let ?st5 = "urls_step zx ?st4"
  have r: "ms' = insert_zi ?zid ?st5" "toCheck = Set_IUnion (Set_IUnion tc1 ids2) ids3"
    using u UpdateReferences_steps [OF s0 s2 s3] by simp_all
  have io: "srefs_ok (ms_words ms)" "srefs_ok (ms_urls ms)" using ok by (auto simp: store_ok_def)
  note F = first_steps_facts [OF ok s0]
  note D = dead_step [OF F(8) zx F(6) refl]
  note B = forward_step [OF D(2) zx s2]
  note M = meta_step [OF B(8) zx s3]
  have wu: "ms_words (fst st3) = ms_words ms" "ms_urls (fst st3) = ms_urls ms" "ms_dead (fst st3) = ms_dead (fst ?st1)"
    using M(5) B(10) D(4,5) F(3,4) by (simp_all add: same_rest_def)
  have sw: "srefs_ok (ms_words (fst st3))" using wu io by simp
  note W = words_step_facts [OF M(4) sw]
  have su: "srefs_ok (ms_urls (fst ?st4))" using W(5) wu io by simp
  note U = urls_step_facts [OF W(4) su]
  obtain ws where ws: "set ws = fst ` set (zi_words zx)"
    "\<And>y. view ?zid ?st4 y = (if y = ?zid then (view ?zid st3 y)\<lparr>zd_words := ws\<rparr> else view ?zid st3 y)"
    using W(1) by blast
  obtain us where us: "set us = fst ` set (zi_urls zx)"
    "\<And>y. view ?zid ?st5 y = (if y = ?zid then (view ?zid ?st4 y)\<lparr>zd_urls := us\<rparr> else view ?zid ?st4 y)"
    using U(1) by blast
  have core: "zd_meta (view ?zid st3 y) = zd_meta (view ?zid st2 y)" "zd_dead (view ?zid st3 y) = zd_dead (view ?zid st2 y)"
    "zd_forward (view ?zid st3 y) = zd_forward (view ?zid st2 y)" "zd_backward (view ?zid st3 y) = zd_backward (view ?zid st2 y)"
    "zd_words (view ?zid st3 y) = zd_words (view ?zid st2 y)" "zd_urls (view ?zid st3 y) = zd_urls (view ?zid st2 y)" for y
    using M(1) [of y] by (simp_all add: same_core_def)
  have h: "hit ?zid ?st1 y \<longleftrightarrow> y \<noteq> ?zid \<or> in_idx ms ?zid" "hit ?zid st2 y \<longleftrightarrow> y \<noteq> ?zid \<or> in_idx ms ?zid" for y
    using D(3) B(9) F(2) by simp_all
  have o1: "zd_otherRefs (view ?zid st2 y) = zd_otherRefs (entry_at ms y)" for y
    using B(5) D(1) F(1) by simp
  then have o2: "other_at (view ?zid st2 y) k = other_at (entry_at ms y) k" for y k by (simp add: other_at_def)
  have ok5: "store_ok ms'"
    unfolding store_ok_def idx_ok_def r(1) insert_zi_facts
    using U(2,4,5,6) W(2,6) wu D(6) by (simp add: upd_ok_def insert_zi_facts)
  have tc: "set_inv toCheck" unfolding r using F(7) B(11) M(6) by (simp add: Set_IUnion_correct)
  have w5: "refs_of (ms_words ms') w = word_change ?zid (set (zd_words (entry_at ms ?zid))) (fst ` set (zi_words zx)) w (refs_of (ms_words ms) w)" for w
    unfolding r insert_zi_facts U(5) W(3) wu core B(6) D(1) F(1) by simp
  have u5: "refs_of (ms_urls ms') w = word_change ?zid (set (zd_urls (entry_at ms ?zid))) (fst ` set (zi_urls zx)) w (refs_of (ms_urls ms) w)" for w
    unfolding r insert_zi_facts U(3) W(5) wu ws(2) core by (simp add: core B(7) D(1) F(1))
  have d5: "refs_of (ms_dead ms') q = ref_change ?zid True (elems (zd_dead (entry_at ms ?zid))) (elems (zi_deadrefs zx)) q
      (if q = ?zid then {} else refs_of (ms_dead ms) q)" for q
    unfolding r insert_zi_facts U(6) W(6) wu D(7) F(5) F(1) by (simp add: ref_change_def Let_def)
  have e5: "entry_at ms' y = view ?zid ?st5 y" for y unfolding r insert_zi_facts ..
  have "update_effect ms zx (fst (makeMeta z ms zx)) ms'"
    unfolding update_effect_def Let_def
  proof (intro conjI allI)
    show "refs_of (ms_words ms') w = word_change ?zid (set (zd_words (entry_at ms ?zid))) (fst ` set (zi_words zx)) w (refs_of (ms_words ms) w)" for w by (rule w5)
    show "refs_of (ms_urls ms') w = word_change ?zid (set (zd_urls (entry_at ms ?zid))) (fst ` set (zi_urls zx)) w (refs_of (ms_urls ms) w)" for w by (rule u5)
    show "refs_of (ms_dead ms') q = ref_change ?zid True (elems (zd_dead (entry_at ms ?zid))) (elems (zi_deadrefs zx)) q
      (if q = ?zid then {} else refs_of (ms_dead ms) q)" for q by (rule d5)
  next
    fix y
    note e = e5 us(2) ws(2)
    show "zd_meta (entry_at ms' y) = (if y = ?zid then Some (fst (makeMeta z ms zx)) else zd_meta (entry_at ms y))"
      by (simp add: e core B(3) D(1) F(1))
    show "zd_dead (entry_at ms' y) = (if y = ?zid then zi_deadrefs zx else zd_dead (entry_at ms y))"
      by (simp add: e core B(4) D(1) F(1))
    show "zd_forward (entry_at ms' y) = (if y = ?zid then zi_backrefs zx else zd_forward (entry_at ms y))"
      by (simp add: e core B(1) D(1) F(1))
    show "elems (zd_backward (entry_at ms' y)) = ref_change ?zid (y \<noteq> ?zid \<or> in_idx ms ?zid)
        (elems (zd_forward (entry_at ms ?zid))) (elems (zi_backrefs zx)) y (elems (zd_backward (entry_at ms y)))"
      by (simp add: e core B(2) h(1) D(1) F(1) ref_change_def Let_def)
    show "set (zd_words (entry_at ms' y)) = (if y = ?zid then fst ` set (zi_words zx) else set (zd_words (entry_at ms y)))"
      using ws(1) by (simp add: e core B(6) D(1) F(1))
    show "set (zd_urls (entry_at ms' y)) = (if y = ?zid then fst ` set (zi_urls zx) else set (zd_urls (entry_at ms y)))"
      using us(1) by (simp add: e core B(7) D(1) F(1))
  next
    fix y k
    have x: "other_at (entry_at ms' y) k = other_at (view ?zid st3 y) k" by (simp add: e5 us(2) ws(2))
    show "ofwd (entry_at ms' y) k = (if y = ?zid \<and> gm_get (zi_inverseRefs zx) k \<noteq> None then refs_of (zi_inverseRefs zx) k else ofwd (entry_at ms y) k)"
      unfolding x M(2) o2 by (rule refl)
    show "obwd (entry_at ms' y) k = (if gm_get (zi_inverseRefs zx) k \<noteq> None
        then ref_change ?zid (y \<noteq> ?zid \<or> in_idx ms ?zid) (ofwd (entry_at ms ?zid) k) (refs_of (zi_inverseRefs zx) k) y (obwd (entry_at ms y) k)
        else obwd (entry_at ms y) k - (if (y \<noteq> ?zid \<or> in_idx ms ?zid) \<and> y \<in> ofwd (entry_at ms ?zid) k then {?zid} else {}))"
      unfolding x M(3) o2 h(2) by (rule refl)
  qed
  then show ?thesis using ok5 tc by blast
qed

end
