(* ===== verification/MapStoreInv.thy ===== *)
theory MapStoreInv
  imports MapStoreLaws
begin

text \<open>
  The consistency invariant of the index, its preservation by updates and deletions in any
  order, and the searches as set comprehensions over the entries.
\<close>

section \<open>Consistency\<close>

abbreviation fwd :: "mapStore \<Rightarrow> zid \<Rightarrow> zid set" where
  "fwd ms z \<equiv> elems (zd_forward (entry_at ms z))"

abbreviation bwd :: "mapStore \<Rightarrow> zid \<Rightarrow> zid set" where
  "bwd ms z \<equiv> elems (zd_backward (entry_at ms z))"

text \<open>
  Forward and backward references mirror each other, where a zettel that references itself
  may miss its own backward reference; a backward reference under a key has its forward
  reference; a dead reference is known to the zettel it is in; the sets of a word hold exactly
  the zettel with that word.
\<close>

definition consistent :: "mapStore \<Rightarrow> bool" where
  "consistent ms \<longleftrightarrow>
     (\<forall>a b. b \<in> bwd ms a \<longrightarrow> a \<in> fwd ms b) \<and>
     (\<forall>a b. a \<noteq> b \<longrightarrow> a \<in> fwd ms b \<longrightarrow> b \<in> bwd ms a) \<and>
     (\<forall>k a b. b \<in> obwd (entry_at ms a) k \<longrightarrow> a \<in> ofwd (entry_at ms b) k) \<and>
     (\<forall>r b. b \<in> refs_of (ms_dead ms) r \<longrightarrow> r \<in> elems (zd_dead (entry_at ms b))) \<and>
     (\<forall>w b. b \<in> refs_of (ms_words ms) w \<longleftrightarrow> w \<in> set (zd_words (entry_at ms b))) \<and>
     (\<forall>w b. b \<in> refs_of (ms_urls ms) w \<longleftrightarrow> w \<in> set (zd_urls (entry_at ms b)))"

definition ms_inv :: "mapStore \<Rightarrow> bool" where
  "ms_inv ms \<longleftrightarrow> store_ok ms \<and> consistent ms"

lemma ms_inv_New: "ms_inv mapstore_New"
proof -
  have "entry_at mapstore_New z = zd_zero" for z by (simp add: entry_at_def mapstore_New_def)
  moreover have "gm_set [] k = None" for k :: "'k" by (simp add: gm_set_def)
  ultimately show ?thesis
    by (simp add: ms_inv_def store_ok_def consistent_def idx_ok_def srefs_ok_def sets_ok_def)
       (simp add: mapstore_New_def gm_set_def)
qed

section \<open>Updates keep the invariant\<close>

lemma word_change_iff:
  assumes "\<And>b. b \<in> B \<longleftrightarrow> w \<in> old b"
  shows "b \<in> word_change zid (old zid) new w B \<longleftrightarrow> w \<in> (if b = zid then new else old b)"
  using assms by (auto simp: word_change_def)

lemma update_consistent:
  assumes "consistent ms" and "update_effect ms zx m ms'"
  shows "consistent ms'"
proof -
  let ?zid = "zi_Zid zx"
  let ?h = "\<lambda>z. z \<noteq> ?zid \<or> in_idx ms ?zid"
  note e = assms(2)[unfolded update_effect_def Let_def]
  have f: "fwd ms' z = (if z = ?zid then elems (zi_backrefs zx) else fwd ms z)" for z
    using e by presburger
  have b: "bwd ms' z = ref_change ?zid (?h z) (fwd ms ?zid) (elems (zi_backrefs zx)) z (bwd ms z)" for z
    using e by presburger
  have d: "elems (zd_dead (entry_at ms' z)) = (if z = ?zid then elems (zi_deadrefs zx) else elems (zd_dead (entry_at ms z)))" for z
    using e by presburger
  have fk: "ofwd (entry_at ms' z) k = (if z = ?zid \<and> gm_get (zi_inverseRefs zx) k \<noteq> None then refs_of (zi_inverseRefs zx) k else ofwd (entry_at ms z) k)" for z k
    using e by blast
  have bk: "obwd (entry_at ms' z) k = (if gm_get (zi_inverseRefs zx) k \<noteq> None
       then ref_change ?zid (?h z) (ofwd (entry_at ms ?zid) k) (refs_of (zi_inverseRefs zx) k) z (obwd (entry_at ms z) k)
       else obwd (entry_at ms z) k - (if ?h z \<and> z \<in> ofwd (entry_at ms ?zid) k then {?zid} else {}))" for z k
    using e by blast
  have dd: "refs_of (ms_dead ms') r = ref_change ?zid True (elems (zd_dead (entry_at ms ?zid))) (elems (zi_deadrefs zx)) r
       (if r = ?zid then {} else refs_of (ms_dead ms) r)" for r using e by blast
  note c = assms(1)[unfolded consistent_def]
  have c1: "y \<in> bwd ms x \<Longrightarrow> x \<in> fwd ms y" for x y using c by blast
  have c2: "x \<noteq> y \<Longrightarrow> x \<in> fwd ms y \<Longrightarrow> y \<in> bwd ms x" for x y using c by blast
  have c3: "y \<in> obwd (entry_at ms x) k \<Longrightarrow> x \<in> ofwd (entry_at ms y) k" for x y k using c by blast
  have c4: "y \<in> refs_of (ms_dead ms) r \<Longrightarrow> r \<in> elems (zd_dead (entry_at ms y))" for r y using c by blast
  have gone: "\<not> in_idx ms ?zid \<Longrightarrow> bwd ms ?zid = {} \<and> obwd (entry_at ms ?zid) k = {}" for k
    by (simp add: entry_missing)
  show ?thesis
    unfolding consistent_def
  proof (intro conjI allI impI)
    fix x y assume "y \<in> bwd ms' x"
    then show "x \<in> fwd ms' y" unfolding b f ref_change_def using c1 gone by (auto split: if_splits)
  next
    fix x y assume "x \<noteq> y" "x \<in> fwd ms' y"
    then show "y \<in> bwd ms' x" unfolding b f ref_change_def using c2 by (auto split: if_splits)
  next
    fix k x y assume "y \<in> obwd (entry_at ms' x) k"
    then show "x \<in> ofwd (entry_at ms' y) k"
      unfolding bk fk ref_change_def using c3 [of y x k] gone [of k] by (auto split: if_splits)
  next
    fix r y assume "y \<in> refs_of (ms_dead ms') r"
    then show "r \<in> elems (zd_dead (entry_at ms' y))"
      unfolding dd d ref_change_def using c4 by (auto split: if_splits)
  next
    fix w y
    have "refs_of (ms_words ms') w = word_change ?zid (set (zd_words (entry_at ms ?zid))) (fst ` set (zi_words zx)) w (refs_of (ms_words ms) w)"
      "set (zd_words (entry_at ms' y)) = (if y = ?zid then fst ` set (zi_words zx) else set (zd_words (entry_at ms y)))"
      using e by blast+
    then show "y \<in> refs_of (ms_words ms') w \<longleftrightarrow> w \<in> set (zd_words (entry_at ms' y))"
      using word_change_iff [of "refs_of (ms_words ms) w" w "\<lambda>y. set (zd_words (entry_at ms y))" y] c by simp
  next
    fix w y
    have "refs_of (ms_urls ms') w = word_change ?zid (set (zd_urls (entry_at ms ?zid))) (fst ` set (zi_urls zx)) w (refs_of (ms_urls ms) w)"
      "set (zd_urls (entry_at ms' y)) = (if y = ?zid then fst ` set (zi_urls zx) else set (zd_urls (entry_at ms y)))"
      using e by blast+
    then show "y \<in> refs_of (ms_urls ms') w \<longleftrightarrow> w \<in> set (zd_urls (entry_at ms' y))"
      using word_change_iff [of "refs_of (ms_urls ms) w" w "\<lambda>y. set (zd_urls (entry_at ms y))" y] c by simp
  qed
qed

lemma UpdateReferences_inv:
  assumes "ms_inv ms" and "zidx_ok zx" and "UpdateReferences z ms zx = (ms', tc)"
  shows "ms_inv ms' \<and> set_inv tc"
  using UpdateReferences_effect [OF _ assms(2,3)] update_consistent assms(1) unfolding ms_inv_def by blast

section \<open>Deletion\<close>

lemma dead_delete:
  assumes "sets_ok d" and "distinct rs"
  shows "sets_ok (fold (remove_dead zid) rs d) \<and>
    refs_of (fold (remove_dead zid) rs d) r = refs_of d r - (if r \<in> set rs then {zid} else {})"
  using assms
proof (induction rs arbitrary: d)
  case (Cons x rs)
  have s: "sets_ok (remove_dead zid x d) \<and> refs_of (remove_dead zid x d) r = refs_of d r - (if r = x then {zid} else {})" for r
  proof (cases "gm_get d x")
    case None
    then have "gm_set d x = None" by (simp add: gm_set_def)
    then show ?thesis using None Cons.prems by (simp add: remove_dead_def)
  next
    case (Some s)
    then have g: "gm_set d x = s" by (simp add: gm_set_def)
    then have si: "set_inv s" using Cons.prems(1) unfolding sets_ok_def by metis
    have rm: "set_inv (Set_Remove s zid)" "elems (Set_Remove s zid) = elems s - {zid}"
      using Set_Remove_correct [OF si] by blast+
    show ?thesis using Some g Cons.prems(1) rm
      by (auto simp: remove_dead_def Let_def Set_IsEmpty_correct sets_ok_def)
  qed
  show ?case using Cons.IH [of "remove_dead zid x d"] Cons.prems s by auto
qed simp

text \<open>What a deletion does to the entries and lists.\<close>

definition delete_effect :: "mapStore \<Rightarrow> zid \<Rightarrow> mapStore \<Rightarrow> idset \<Rightarrow> bool" where
  "delete_effect ms zid ms' toCheck \<longleftrightarrow>
     (let old = entry_at ms zid in
      entry_at ms' zid = zd_zero \<and>
      (\<forall>z. z \<noteq> zid \<longrightarrow> (let e = entry_at ms z; e' = entry_at ms' z in
         zd_meta e' = zd_meta e \<and> zd_dead e' = zd_dead e \<and> zd_words e' = zd_words e \<and> zd_urls e' = zd_urls e \<and>
         elems (zd_forward e') = elems (zd_forward e) - (if z \<in> elems (zd_backward old) then {zid} else {}) \<and>
         elems (zd_backward e') = elems (zd_backward e) - (if z \<in> elems (zd_forward old) then {zid} else {}) \<and>
         (\<forall>k. ofwd e' k = ofwd e k \<and> obwd e' k = obwd e k - (if z \<in> ofwd old k then {zid} else {})))) \<and>
      (\<forall>r. refs_of (ms_dead ms') r = refs_of (ms_dead ms) r - (if r \<in> elems (zd_dead old) then {zid} else {})) \<and>
      (\<forall>w. refs_of (ms_words ms') w = refs_of (ms_words ms) w - (if w \<in> set (zd_words old) then {zid} else {})) \<and>
      (\<forall>w. refs_of (ms_urls ms') w = refs_of (ms_urls ms) w - (if w \<in> set (zd_urls old) then {zid} else {})) \<and>
      elems toCheck - {zid} = {z \<in> elems (zd_backward old) - {zid}. in_idx ms z})"

lemma diff_if: "A = B - (if p then {z} else {}) \<Longrightarrow> (z \<in> B \<Longrightarrow> p) \<Longrightarrow> A = B - {z}"
  by auto

lemma delete_consistent:
  assumes c: "consistent ms" and e: "delete_effect ms zid ms' tc"
  shows "consistent ms'"
proof -
  note e = e[unfolded delete_effect_def Let_def]
  note c = c[unfolded consistent_def]
  have c1: "y \<in> bwd ms x \<Longrightarrow> x \<in> fwd ms y" for x y using c by blast
  have c2: "x \<noteq> y \<Longrightarrow> x \<in> fwd ms y \<Longrightarrow> y \<in> bwd ms x" for x y using c by blast
  have c3: "y \<in> obwd (entry_at ms x) k \<Longrightarrow> x \<in> ofwd (entry_at ms y) k" for x y k using c by blast
  have c4: "y \<in> refs_of (ms_dead ms) r \<Longrightarrow> r \<in> elems (zd_dead (entry_at ms y))" for r y using c by blast
  have c5: "y \<in> refs_of (ms_words ms) w \<longleftrightarrow> w \<in> set (zd_words (entry_at ms y))" for y w using c by blast
  have c6: "y \<in> refs_of (ms_urls ms) w \<longleftrightarrow> w \<in> set (zd_urls (entry_at ms y))" for y w using c by blast
  have z: "entry_at ms' zid = zd_zero" using e by blast
  note eA = e[THEN conjunct2, THEN conjunct1, rule_format]
  note eB = e[THEN conjunct2, THEN conjunct2]
  have ef: "fwd ms' x = fwd ms x - (if x \<in> bwd ms zid then {zid} else {})"
    and eb: "bwd ms' x = bwd ms x - (if x \<in> fwd ms zid then {zid} else {})"
    and ek: "\<forall>k. ofwd (entry_at ms' x) k = ofwd (entry_at ms x) k \<and>
      obwd (entry_at ms' x) k = obwd (entry_at ms x) k - (if x \<in> ofwd (entry_at ms zid) k then {zid} else {})"
    and same: "zd_dead (entry_at ms' x) = zd_dead (entry_at ms x)" "zd_words (entry_at ms' x) = zd_words (entry_at ms x)"
      "zd_urls (entry_at ms' x) = zd_urls (entry_at ms x)"
    if "x \<noteq> zid" for x
    using eA [OF that] by - (elim conjE, assumption)+
  have f: "fwd ms' x = fwd ms x - {zid}" if "x \<noteq> zid" for x
    by (rule diff_if [OF ef [OF that]]) (use that c2 [of zid x] in blast)
  have b: "bwd ms' x = bwd ms x - {zid}" if "x \<noteq> zid" for x
    by (rule diff_if [OF eb [OF that]]) (use that c1 [of zid x] in blast)
  have fk: "x \<noteq> zid \<Longrightarrow> ofwd (entry_at ms' x) k = ofwd (entry_at ms x) k" for x k
    using ek [of x, THEN spec, THEN conjunct1] .
  have bk: "obwd (entry_at ms' x) k = obwd (entry_at ms x) k - {zid}" if "x \<noteq> zid" for x k
    by (rule diff_if [OF ek [OF that, THEN spec, THEN conjunct2]]) (use c3 [of zid x k] in blast)
  have d: "refs_of (ms_dead ms') r = refs_of (ms_dead ms) r - {zid}" for r
    by (rule diff_if [OF eB [THEN conjunct1, THEN spec]]) (use c4 [of zid r] in blast)
  have w: "refs_of (ms_words ms') r = refs_of (ms_words ms) r - {zid}" for r
    by (rule diff_if [OF eB [THEN conjunct2, THEN conjunct1, THEN spec]]) (use c5 [of zid r] in blast)
  have u: "refs_of (ms_urls ms') r = refs_of (ms_urls ms) r - {zid}" for r
    by (rule diff_if [OF eB [THEN conjunct2, THEN conjunct2, THEN conjunct1, THEN spec]]) (use c6 [of zid r] in blast)
  show ?thesis unfolding consistent_def
  proof (intro conjI allI impI)
    fix x y assume "y \<in> bwd ms' x"
    then show "x \<in> fwd ms' y" using z f [of y] b [of x] c1 [of y x] by (cases "x = zid"; cases "y = zid") auto
  next
    fix x y assume "x \<noteq> y" "x \<in> fwd ms' y"
    then show "y \<in> bwd ms' x" using z f [of y] b [of x] c2 [of x y] by (cases "x = zid"; cases "y = zid") auto
  next
    fix k x y assume "y \<in> obwd (entry_at ms' x) k"
    then show "x \<in> ofwd (entry_at ms' y) k"
      using z fk [of y k] bk [of x k] c3 [of y x k] by (cases "x = zid"; cases "y = zid") auto
  next
    fix r y assume "y \<in> refs_of (ms_dead ms') r"
    then show "r \<in> elems (zd_dead (entry_at ms' y))" using d [of r] same [of y] c4 [of y r] by auto
  next
    fix r y
    show "y \<in> refs_of (ms_words ms') r \<longleftrightarrow> r \<in> set (zd_words (entry_at ms' y))"
      using w [of r] z same [of y] c5 [of y r] by (cases "y = zid") auto
    show "y \<in> refs_of (ms_urls ms') r \<longleftrightarrow> r \<in> set (zd_urls (entry_at ms' y))"
      using u [of r] z same [of y] c6 [of y r] by (cases "y = zid") auto
  qed
qed

lemma view_None [simp]: "view zid (ms, None) = entry_at ms"
  by (simp add: view_def zi_get_def fun_eq_iff)

lemma hit_None [simp]: "hit zid (ms, None) z"
  by (simp add: hit_def)

lemma upd_ok_None: "upd_ok zid (ms, None) \<longleftrightarrow> idx_ok ms"
  by (simp add: upd_ok_def idx_ok_def)

text \<open>The second loop of \<open>deleteForwardBackward\<close>, which also collects the referring zettel.\<close>

lemma backward_loop:
  assumes "distinct refs" and "set_inv tc"
  defines "step \<equiv> \<lambda>f ref (ms, toCheck). if gm_get (ms_idx ms) ref = None then (ms, toCheck)
           else (update_existing f ref ms, Set_Add toCheck ref)"
  shows "fst (fold (step f) refs (ms, tc)) = fold (update_existing f) refs ms \<and>
    set_inv (snd (fold (step f) refs (ms, tc))) \<and>
    elems (snd (fold (step f) refs (ms, tc))) = elems tc \<union> {z \<in> set refs. in_idx ms z}"
  using assms(1,2)
proof (induction refs arbitrary: ms tc)
  case (Cons r refs)
  show ?case
  proof (cases "gm_get (ms_idx ms) r")
    case None
    then have "update_existing f r ms = ms" "step f r (ms, tc) = (ms, tc)" "\<not> in_idx ms r"
      by (simp_all add: update_existing_def step_def in_idx_def)
    then show ?thesis using Cons.IH [of tc ms] Cons.prems by auto
  next
    case (Some zd)
    then have s: "step f r (ms, tc) = (update_existing f r ms, Set_Add tc r)" "in_idx ms r"
      by (simp_all add: step_def in_idx_def)
    have "set_inv (Set_Add tc r)" "elems (Set_Add tc r) = insert r (elems tc)"
      using Cons.prems by (simp_all add: Set_Add_correct)
    then show ?thesis using Cons.IH [of "Set_Add tc r" "update_existing f r ms"] Cons.prems s
      by (auto simp: update_existing_facts)
  qed
qed simp

lemma entry_ok_removed:
  "entry_ok e \<Longrightarrow> entry_ok (e\<lparr>zd_backward := Set_Remove (zd_backward e) z\<rparr>)"
  "entry_ok e \<Longrightarrow> entry_ok (e\<lparr>zd_forward := Set_Remove (zd_forward e) z\<rparr>)"
  by (auto simp: entry_ok_def Set_Remove_correct)

lemma deleteForwardBackward_facts:
  assumes ok: "idx_ok ms" and r: "deleteForwardBackward zid ms = (ms', tc)"
  shows "idx_ok ms'" and "same_rest ms ms'" and "in_idx ms' z \<longleftrightarrow> in_idx ms z"
    and "elems (zd_forward (entry_at ms' z)) = fwd ms z - (if z \<in> bwd ms zid - (if zid \<in> fwd ms zid then {zid} else {}) then {zid} else {})"
    and "elems (zd_backward (entry_at ms' z)) = bwd ms z - (if z \<in> fwd ms zid then {zid} else {})"
    and "zd_meta (entry_at ms' z) = zd_meta (entry_at ms z)" and "zd_dead (entry_at ms' z) = zd_dead (entry_at ms z)"
    and "zd_otherRefs (entry_at ms' z) = zd_otherRefs (entry_at ms z)"
    and "zd_words (entry_at ms' z) = zd_words (entry_at ms z)" and "zd_urls (entry_at ms' z) = zd_urls (entry_at ms z)"
    and "elems tc = {z \<in> bwd ms zid - (if zid \<in> fwd ms zid then {zid} else {}). in_idx ms z}"
    and "set_inv tc"
proof -
  let ?rb = "\<lambda>fzi. fzi\<lparr>zd_backward := Set_Remove (zd_backward fzi) zid\<rparr>"
  let ?rf = "\<lambda>bzi. bzi\<lparr>zd_forward := Set_Remove (zd_forward bzi) zid\<rparr>"
  let ?F = "Set_SafeSorted (zd_forward (entry_at ms zid))"
  let ?ms1 = "fold (update_existing ?rb) ?F ms"
  let ?B = "Set_SafeSorted (zd_backward (entry_at ?ms1 zid))"
  have eo: "entry_ok (entry_at ms z)" "gm_inv (zd_otherRefs (entry_at ms z))" for z using ok by (auto simp: idx_ok_def)
  have si: "set_inv (zd_forward (entry_at ms z))" "set_inv (zd_backward (entry_at ms z))" for z
    using eo by (auto simp: entry_ok_def)
  note l1 = existing_fold [OF SafeSorted_distinct [OF si(1) [of zid]], where f = ?rb and ms = ms, unfolded Set_SafeSorted_correct(1)]
  have e1: "entry_at ?ms1 z = (if z \<in> fwd ms zid \<and> in_idx ms z then ?rb (entry_at ms z) else entry_at ms z)" for z by (rule l1(1))
  have sb: "set_inv (zd_backward (entry_at ?ms1 zid))" unfolding e1 using si Set_Remove_correct by simp
  have b1: "elems (zd_backward (entry_at ?ms1 z)) = bwd ms z - (if z \<in> fwd ms zid then {zid} else {})" for z
    unfolding e1 using si [of z] entry_missing [of ms z] by (auto simp: Set_Remove_correct)
  note bl = backward_loop [OF SafeSorted_distinct [OF sb], where tc = None and f = ?rf and ms = ?ms1, unfolded Set_SafeSorted_correct(1) b1 l1(2)]
  note l2 = existing_fold [OF SafeSorted_distinct [OF sb], where f = ?rf and ms = ?ms1, unfolded Set_SafeSorted_correct(1) b1 l1(2)]
  have e: "ms' = fold (update_existing ?rf) ?B ?ms1" "elems tc = {z \<in> bwd ms zid - (if zid \<in> fwd ms zid then {zid} else {}). in_idx ms z}" "set_inv tc"
    using r bl unfolding deleteForwardBackward_def Let_def ForEach_fold by auto
  have e2: "entry_at ms' z = (if z \<in> bwd ms zid - (if zid \<in> fwd ms zid then {zid} else {}) \<and> in_idx ms z
      then ?rf (entry_at ?ms1 z) else entry_at ?ms1 z)" for z
    unfolding e(1) by (rule l2(1))
  have eo1: "entry_ok (entry_at ?ms1 z)" "gm_inv (zd_otherRefs (entry_at ?ms1 z))" for z
    unfolding e1 using eo entry_ok_removed by simp_all
  have "gm_inv (ms_idx ms')" unfolding e(1) using ok l1(3) l2(3) by (simp add: idx_ok_def)
  then show "idx_ok ms'" unfolding idx_ok_def e2 using eo1 entry_ok_removed by simp
  show "same_rest ms ms'" unfolding e(1) using l1(4) l2(4) same_rest_trans by blast
  show "in_idx ms' z \<longleftrightarrow> in_idx ms z" unfolding e(1) by (rule l2(2))
  have f1: "zd_forward (entry_at ?ms1 z) = zd_forward (entry_at ms z)" for z unfolding e1 by simp
  show "elems (zd_forward (entry_at ms' z)) = fwd ms z - (if z \<in> bwd ms zid - (if zid \<in> fwd ms zid then {zid} else {}) then {zid} else {})"
    unfolding e2 using f1 si [of z] entry_missing [of ms z] by (auto simp: Set_Remove_correct)
  show "elems (zd_backward (entry_at ms' z)) = bwd ms z - (if z \<in> fwd ms zid then {zid} else {})"
    unfolding e2 b1 [symmetric] by simp
  show "zd_meta (entry_at ms' z) = zd_meta (entry_at ms z)" "zd_dead (entry_at ms' z) = zd_dead (entry_at ms z)"
    "zd_otherRefs (entry_at ms' z) = zd_otherRefs (entry_at ms z)" "zd_words (entry_at ms' z) = zd_words (entry_at ms z)"
    "zd_urls (entry_at ms' z) = zd_urls (entry_at ms z)"
    unfolding e2 e1 by simp_all
  show "elems tc = {z \<in> bwd ms zid - (if zid \<in> fwd ms zid then {zid} else {}). in_idx ms z}" by (rule e(2))
  show "set_inv tc" by (rule e(3))
qed

text \<open>The loop over the keys of the deleted zettel.\<close>

lemma delete_keys_loop:
  assumes ok: "idx_ok ms" and "ms' = fold (\<lambda>(key, mrefs). removeInverseMeta zid key (forward mrefs)) (zd_otherRefs (entry_at ms zid)) ms"
  shows "idx_ok ms'" and "same_rest ms ms'" and "same_core (entry_at ms z) (entry_at ms' z)"
    and "ofwd (entry_at ms' z) k = ofwd (entry_at ms z) k"
    and "obwd (entry_at ms' z) k = obwd (entry_at ms z) k - (if z \<in> ofwd (entry_at ms zid) k then {zid} else {})"
proof -
  let ?L = "zd_otherRefs (entry_at ms zid)"
  have gl: "gm_inv ?L" "entry_ok (entry_at ms zid)" using ok by (auto simp: idx_ok_def)
  have fi: "set_inv (forward mr)" if "(k, mr) \<in> set ?L" for k mr
  proof -
    have "gm_get ?L k = Some mr" using gm_get_Some_iff [OF gl(1)] that by blast
    then have "other_at (entry_at ms zid) k = mr" by (simp add: other_at_def)
    then show ?thesis using gl(2) by (auto simp: entry_ok_def)
  qed
  have L: "(\<exists>mr. (k, mr) \<in> set ?L \<and> z \<in> elems (forward mr)) \<longleftrightarrow> z \<in> ofwd (entry_at ms zid) k" for k z
    unfolding gm_get_Some_iff [OF gl(1), symmetric] by (auto simp: other_at_def bidi_zero_def split: option.splits)
  have fi': "\<forall>(k, mr) \<in> set ?L. set_inv (forward mr)" using fi by blast
  have "(\<lambda>(key, mr) ms. if gm_get ([] :: (string \<times> idset) list) key \<noteq> None then ms else removeInverseMeta zid key (forward mr) ms) =
      (\<lambda>(key, mrefs). removeInverseMeta zid key (forward mrefs))"
    by (simp add: fun_eq_iff)
  then have o: "others_removed zid (\<lambda>z k. gm_get ([] :: (string \<times> idset) list) k = None \<and> z \<in> ofwd (entry_at ms zid) k) (ms, None) (ms', None)"
    using remove_keys_loop [of zid "(ms, None)" ?L "[]"] ok fi' unfolding L assms(2) upd_ok_None by simp
  show "idx_ok ms'" "same_rest ms ms'" using o by (simp_all add: others_removed_def upd_ok_None)
  show "same_core (entry_at ms z) (entry_at ms' z)" "ofwd (entry_at ms' z) k = ofwd (entry_at ms z) k"
    "obwd (entry_at ms' z) k = obwd (entry_at ms z) k - (if z \<in> ofwd (entry_at ms zid) k then {zid} else {})"
    using o unfolding others_removed_def by simp_all
qed

lemma DeleteZettel_effect:
  assumes ok: "store_ok ms" and i: "in_idx ms zid" and r: "DeleteZettel ms zid = (ms', tc)"
  shows "store_ok ms' \<and> set_inv tc \<and> delete_effect ms zid ms' tc"
proof -
  obtain zi where zi: "gm_get (ms_idx ms) zid = Some zi" using i by (auto simp: in_idx_def)
  then have zi_at: "entry_at ms zid = zi" by (simp add: entry_at_def)
  let ?ms1 = "deleteDeadSources zid zi ms"
  obtain ms2 tc2 where d2: "deleteForwardBackward zid ?ms1 = (ms2, tc2)" by (rule prod.exhaust)
  let ?ms3 = "fold (\<lambda>(key, mrefs). removeInverseMeta zid key (forward mrefs)) (zd_otherRefs (entry_at ms2 zid)) ms2"
  let ?ms4 = "?ms3\<lparr>ms_words := deleteStrings (ms_words ?ms3) (zd_words (entry_at ?ms3 zid)) zid\<rparr>"
  let ?ms5 = "?ms4\<lparr>ms_urls := deleteStrings (ms_urls ?ms4) (zd_urls (entry_at ?ms4 zid)) zid\<rparr>"
  have e: "ms' = ?ms5\<lparr>ms_idx := gm_delete (ms_idx ?ms5) zid\<rparr>" "tc = tc2"
    using r unfolding DeleteZettel_def doDeleteZettel_def zi Let_def option.case d2 prod.case by simp_all
  have e1: "entry_at ?ms1 = entry_at ms" by (simp add: deleteDeadSources_def)
  have io1: "idx_ok ?ms1" using ok e1 by (simp add: store_ok_def idx_ok_def) (simp add: deleteDeadSources_def)
  note D = deleteForwardBackward_facts [OF io1 d2, unfolded e1]
  note K = delete_keys_loop [OF D(1) refl]
  have oa: "other_at (entry_at ms2 z) k = other_at (entry_at ms z) k" for z k using D(8) by (simp add: other_at_def)
  have core: "zd_meta (entry_at ?ms3 z) = zd_meta (entry_at ms z)" "zd_dead (entry_at ?ms3 z) = zd_dead (entry_at ms z)"
    "zd_forward (entry_at ?ms3 z) = zd_forward (entry_at ms2 z)" "zd_backward (entry_at ?ms3 z) = zd_backward (entry_at ms2 z)"
    "zd_words (entry_at ?ms3 z) = zd_words (entry_at ms z)" "zd_urls (entry_at ?ms3 z) = zd_urls (entry_at ms z)" for z
    using K(3) [of z] D(6,7,9,10) by (simp_all add: same_core_def)
  have sr: "same_rest ?ms1 ?ms3" using D(2) K(2) same_rest_trans by blast
  have e5: "entry_at ms' z = (if z = zid then zd_zero else entry_at ?ms3 z)" for z
    unfolding e(1) by (simp add: entry_at_def)
  have rest: "ms_words ms' = fold (remove_word zid) (zd_words zi) (ms_words ms)"
    "ms_urls ms' = fold (remove_word zid) (zd_urls zi) (ms_urls ms)"
    "ms_dead ms' = fold (remove_dead zid) (Set_SafeSorted (zd_dead zi)) (ms_dead ms)"
    unfolding e(1) using sr core(5,6) [of zid] zi_at
    by (simp_all add: same_rest_def deleteStrings_def deleteDeadSources_def ForEach_fold)
  have zo: "set_inv (zd_dead zi)" using ok zi_at by (auto simp: store_ok_def idx_ok_def entry_ok_def)
  have so: "srefs_ok (ms_words ms)" "srefs_ok (ms_urls ms)" "sets_ok (ms_dead ms)" using ok by (auto simp: store_ok_def)
  note W = remove_words [OF so(1), of zid "zd_words zi"] and U = remove_words [OF so(2), of zid "zd_urls zi"]
  note DD = dead_delete [OF so(3) SafeSorted_distinct [OF zo], of zid, unfolded Set_SafeSorted_correct(1)]
  have "gm_inv (ms_idx ms')" unfolding e(1) using K(1) by (simp add: idx_ok_def)
  then have "store_ok ms'"
    unfolding store_ok_def idx_ok_def rest e5 using K(1) W(1) U(1) DD by (simp add: idx_ok_def)
  moreover have "set_inv tc" unfolding e(2) by (rule D(12))
  moreover have "delete_effect ms zid ms' tc"
    unfolding delete_effect_def Let_def zi_at
  proof (intro conjI allI impI)
    show "entry_at ms' zid = zd_zero" by (simp add: e5)
    show "refs_of (ms_dead ms') q = refs_of (ms_dead ms) q - (if q \<in> elems (zd_dead zi) then {zid} else {})" for q
      unfolding rest using DD by blast
    show "refs_of (ms_words ms') w = refs_of (ms_words ms) w - (if w \<in> set (zd_words zi) then {zid} else {})" for w
      unfolding rest by (rule W(2))
    show "refs_of (ms_urls ms') w = refs_of (ms_urls ms) w - (if w \<in> set (zd_urls zi) then {zid} else {})" for w
      unfolding rest by (rule U(2))
    have "in_idx ?ms1 z \<longleftrightarrow> in_idx ms z" for z by (simp add: in_idx_def deleteDeadSources_def)
    then show "elems tc - {zid} = {z \<in> elems (zd_backward zi) - {zid}. in_idx ms z}"
      unfolding e(2) D(11) zi_at by auto
  next
    fix z assume z: "z \<noteq> zid"
    then have ez: "entry_at ms' z = entry_at ?ms3 z" by (simp add: e5)
    show "zd_meta (entry_at ms' z) = zd_meta (entry_at ms z)" "zd_dead (entry_at ms' z) = zd_dead (entry_at ms z)"
      "zd_words (entry_at ms' z) = zd_words (entry_at ms z)" "zd_urls (entry_at ms' z) = zd_urls (entry_at ms z)"
      unfolding ez core by (rule refl)+
    show "fwd ms' z = fwd ms z - (if z \<in> elems (zd_backward zi) then {zid} else {})"
      unfolding ez core D(4) zi_at using z by auto
    show "bwd ms' z = bwd ms z - (if z \<in> elems (zd_forward zi) then {zid} else {})"
      unfolding ez core D(5) zi_at by (rule refl)
    fix k
    show "ofwd (entry_at ms' z) k = ofwd (entry_at ms z) k" unfolding ez K(4) oa by (rule refl)
    show "obwd (entry_at ms' z) k = obwd (entry_at ms z) k - (if z \<in> ofwd zi k then {zid} else {})"
      unfolding ez K(5) oa zi_at by (rule refl)
  qed
  ultimately show ?thesis by blast
qed

end
