(* ===== verification/IndexSearch.thy ===== *)
theory IndexSearch
  imports MapStoreInv
begin

text \<open>
  The index as its clients see it: any sequence of updates and deletions keeps it consistent,
  an update records exactly the contribution of the zettel, a deletion leaves no trace, the
  searches are exact, and enriching a zettel computes its back references.
\<close>

section \<open>Any sequence of updates and deletions\<close>

text \<open>The calls the indexer makes to build the contribution of one zettel.\<close>

datatype zi_item = ItemBack zid | ItemInverse string zid | ItemDead zid

fun add_item :: "zi_item \<Rightarrow> ZettelIndex \<Rightarrow> ZettelIndex" where
  "add_item (ItemBack zid) zx = AddBackRef zx zid"
| "add_item (ItemInverse key zid) zx = AddInverseRef zx key zid"
| "add_item (ItemDead zid) zx = AddDeadRef zx zid"

definition build_zidx :: "meta \<Rightarrow> zi_item list \<Rightarrow> string list \<Rightarrow> string list \<Rightarrow> ZettelIndex" where
  "build_zidx m items words urls =
     SetUrls (SetWords (fold add_item items (NewZettelIndex m))
       (fold (\<lambda>w ws. WordSet_Add ws w) words NewWordSet)) (fold (\<lambda>w ws. WordSet_Add ws w) urls NewWordSet)"

lemma add_item_ok: "zidx_ok zx \<Longrightarrow> zidx_ok (add_item it zx)"
proof (cases it)
  case (ItemInverse k zid)
  moreover assume "zidx_ok zx"
  moreover from this have "gm_get (zi_inverseRefs zx) k = Some s \<Longrightarrow> set_inv s" for s
    unfolding zidx_ok_def gm_set_def by (metis option.simps(5))
  ultimately show ?thesis
    by (auto simp: AddInverseRef_def zidx_ok_def Set_Add_correct split: option.splits)
qed (auto simp: AddBackRef_def AddDeadRef_def zidx_ok_def Set_Add_correct)

lemma NewZettelIndex_ok: "zidx_ok (NewZettelIndex m)"
  by (simp add: NewZettelIndex_def zidx_ok_def gm_set_def)

lemma fold_items_ok: "zidx_ok zx \<Longrightarrow> zidx_ok (fold add_item items zx)"
  by (induction items arbitrary: zx) (auto simp: add_item_ok)

lemma build_zidx_ok: "zidx_ok (build_zidx m items words urls)"
proof -
  have "zidx_ok (fold add_item items (NewZettelIndex m))"
    by (rule fold_items_ok [OF NewZettelIndex_ok])
  then show ?thesis by (simp add: build_zidx_def SetWords_def SetUrls_def zidx_ok_def)
qed

datatype ms_op = OpUpdate meta "zi_item list" "string list" "string list" | OpDelete zid

fun ms_step :: "zsc \<Rightarrow> ms_op \<Rightarrow> mapStore \<Rightarrow> mapStore" where
  "ms_step z (OpUpdate m items words urls) ms = fst (UpdateReferences z ms (build_zidx m items words urls))"
| "ms_step z (OpDelete zid) ms = fst (DeleteZettel ms zid)"

lemma DeleteZettel_inv:
  assumes "ms_inv ms" and r: "DeleteZettel ms zid = (ms', tc)"
  shows "ms_inv ms'"
proof (cases "in_idx ms zid")
  case True
  then show ?thesis using DeleteZettel_effect [OF _ True r] delete_consistent assms(1) unfolding ms_inv_def by blast
next
  case False
  then have "ms' = ms" using r by (simp add: DeleteZettel_def doDeleteZettel_def in_idx_def)
  then show ?thesis using assms(1) by simp
qed

lemma ms_step_inv: "ms_inv ms \<Longrightarrow> ms_inv (ms_step z op ms)"
proof (cases op)
  case (OpUpdate m items words urls)
  moreover assume i: "ms_inv ms"
  obtain ms' tc where "UpdateReferences z ms (build_zidx m items words urls) = (ms', tc)" by (rule prod.exhaust)
  ultimately show ?thesis using UpdateReferences_inv [OF i build_zidx_ok] by simp
next
  case (OpDelete zid)
  moreover assume i: "ms_inv ms"
  obtain ms' tc where "DeleteZettel ms zid = (ms', tc)" by (rule prod.exhaust)
  ultimately show ?thesis using DeleteZettel_inv [OF i] by simp
qed

lemma ms_run_inv: "ms_inv ms \<Longrightarrow> ms_inv (fold (ms_step z) ops ms)"
  by (induction ops arbitrary: ms) (auto simp: ms_step_inv)

text \<open>
  C3: After any sequence of index updates and deletions the index is consistent: forward and
  backward references of different zettel mirror each other, a backward reference under a
  metadata key stems from a reference under that key, a recorded dead reference is one of its
  zettel, and a word's set holds exactly the zettel that contain the word.
\<close>

theorem index_consistent: "consistent (fold (ms_step z) ops mapstore_New)"
  using ms_run_inv [OF ms_inv_New] unfolding ms_inv_def by blast

section \<open>What a single operation does\<close>

lemma update_records:
  assumes "ms_inv ms" and "zidx_ok zx" and "UpdateReferences z ms zx = (ms', tc)" and "y \<noteq> zi_Zid zx"
  shows "fwd ms' (zi_Zid zx) = elems (zi_backrefs zx) \<and>
    (zi_Zid zx \<in> bwd ms' y \<longleftrightarrow> y \<in> elems (zi_backrefs zx)) \<and>
    (zi_Zid zx \<in> refs_of (ms_words ms') w \<longleftrightarrow> w \<in> fst ` set (zi_words zx)) \<and>
    zd_dead (entry_at ms' (zi_Zid zx)) = zi_deadrefs zx \<and>
    fwd ms' y = fwd ms y \<and> (y \<in> refs_of (ms_words ms') w \<longleftrightarrow> y \<in> refs_of (ms_words ms) w)"
proof -
  let ?zid = "zi_Zid zx"
  have so: "store_ok ms" using assms(1) by (simp add: ms_inv_def)
  note e = UpdateReferences_effect [OF so assms(2,3), THEN conjunct2, THEN conjunct2, unfolded update_effect_def Let_def]
  have i: "ms_inv ms'" using UpdateReferences_inv [OF assms(1,2,3)] by blast
  have f: "fwd ms' x = (if x = ?zid then elems (zi_backrefs zx) else fwd ms x)" for x using e by presburger
  have d: "zd_dead (entry_at ms' ?zid) = zi_deadrefs zx" using e by presburger
  have ws: "set (zd_words (entry_at ms' x)) = (if x = ?zid then fst ` set (zi_words zx) else set (zd_words (entry_at ms x)))" for x
    using e by blast
  have c: "x \<in> refs_of (ms_words ms') w \<longleftrightarrow> w \<in> set (zd_words (entry_at ms' x))" for x
    using i unfolding ms_inv_def consistent_def by blast
  have c0: "x \<in> refs_of (ms_words ms) w \<longleftrightarrow> w \<in> set (zd_words (entry_at ms x))" for x
    using assms(1) unfolding ms_inv_def consistent_def by blast
  have "?zid \<in> bwd ms' y \<longleftrightarrow> y \<in> fwd ms' ?zid"
    using i assms(4) unfolding ms_inv_def consistent_def by blast
  then show ?thesis using f [of ?zid] f [of y] d c [of ?zid] c [of y] c0 [of y] ws [of ?zid] ws [of y] assms(4) by simp
qed





section \<open>Searches\<close>

text \<open>A zettel together with all zettel that refer to it.\<close>

definition related :: "mapStore \<Rightarrow> zid \<Rightarrow> zid set" where
  "related ms z = insert z (bwd ms z \<union> (\<Union>k. obwd (entry_at ms z) k))"

definition search_spec :: "mapStore \<Rightarrow> (string \<Rightarrow> bool) \<Rightarrow> (zid \<Rightarrow> bool) \<Rightarrow> zid set" where
  "search_spec ms p q =
     {b. \<exists>w \<in> set (zd_words (entry_at ms b)) \<union> set (zd_urls (entry_at ms b)). p w} \<union>
     (\<Union>z \<in> {z. in_idx ms z \<and> q z}. related ms z)"

lemma fold_union_sets:
  assumes "set_inv s"
  shows "set_inv (fold (\<lambda>x r. if p x then Set_IUnion r (g x) else r) xs s) \<and>
    elems (fold (\<lambda>x r. if p x then Set_IUnion r (g x) else r) xs s) = elems s \<union> (\<Union>x \<in> {x \<in> set xs. p x}. elems (g x))"
  using assms by (induction xs arbitrary: s) (auto simp: Set_IUnion_correct)

lemma addBackwardZids_correct:
  assumes "set_inv s" and "gm_inv (zd_otherRefs zi)"
  shows "set_inv (addBackwardZids s z zi)"
    and "elems (addBackwardZids s z zi) = elems s \<union> insert z (elems (zd_backward zi) \<union> (\<Union>k. obwd zi k))"
proof -
  let ?L = "zd_otherRefs zi"
  have s1: "set_inv (Set_IUnion (Set_Add s z) (zd_backward zi))"
    "elems (Set_IUnion (Set_Add s z) (zd_backward zi)) = insert z (elems s) \<union> elems (zd_backward zi)"
    using assms(1) by (simp_all add: Set_IUnion_correct Set_Add_correct)
  have f: "(\<lambda>(key, mref) r. Set_IUnion r (backward mref)) = (\<lambda>x r. if True then Set_IUnion r (backward (snd x)) else r)"
    by (simp add: fun_eq_iff)
  have "(\<Union>x \<in> set ?L. elems (backward (snd x))) = (\<Union>k. obwd zi k)" (is "?A = ?B")
  proof
    show "?A \<subseteq> ?B"
    proof
      fix b assume "b \<in> ?A"
      then obtain k mr where "(k, mr) \<in> set ?L" "b \<in> elems (backward mr)" by auto
      then have "gm_get ?L k = Some mr" using gm_get_Some_iff [OF assms(2)] by blast
      then have "b \<in> obwd zi k" using \<open>b \<in> elems (backward mr)\<close> by (simp add: other_at_def)
      then show "b \<in> ?B" by blast
    qed
    show "?B \<subseteq> ?A"
    proof
      fix b assume "b \<in> ?B"
      then obtain k where k: "b \<in> obwd zi k" by blast
      then obtain mr where "gm_get ?L k = Some mr" "b \<in> elems (backward mr)"
        by (auto simp: other_at_def bidi_zero_def split: option.splits)
      then show "b \<in> ?A" using map_of_SomeD by force
    qed
  qed
  then show "set_inv (addBackwardZids s z zi)"
    "elems (addBackwardZids s z zi) = elems s \<union> insert z (elems (zd_backward zi) \<union> (\<Union>k. obwd zi k))"
    using fold_union_sets [OF s1(1), of "\<lambda>x. True" "\<lambda>x. backward (snd x)" ?L] s1(2)
    unfolding addBackwardZids_def f by auto
qed

lemma add_matching_correct:
  assumes "gm_inv L" and "\<forall>(z, zi) \<in> set L. gm_inv (zd_otherRefs zi)" and "set_inv s"
  shows "set_inv (add_matching p L s) \<and> elems (add_matching p L s) =
    elems s \<union> (\<Union>(z, zi) \<in> {(z, zi) \<in> set L. p z}. insert z (elems (zd_backward zi) \<union> (\<Union>k. obwd zi k)))"
  using assms
proof (induction L arbitrary: s)
  case (Cons x L)
  obtain z zi where x: "x = (z, zi)" by (cases x)
  let ?s = "if p z then addBackwardZids s z zi else s"
  have a: "set_inv ?s" "elems ?s = elems s \<union> (if p z then insert z (elems (zd_backward zi) \<union> (\<Union>k. obwd zi k)) else {})"
    using addBackwardZids_correct [OF Cons.prems(3), of zi z] Cons.prems(2,3) x by auto
  have "add_matching p (x # L) s = add_matching p L ?s" by (simp add: add_matching_def x)
  moreover have "set_inv (add_matching p L ?s) \<and> elems (add_matching p L ?s) =
    elems ?s \<union> (\<Union>(z, zi) \<in> {(z, zi) \<in> set L. p z}. insert z (elems (zd_backward zi) \<union> (\<Union>k. obwd zi k)))"
    using Cons.IH [OF _ _ a(1)] Cons.prems by (auto simp: x)
  ultimately show ?case using a(2) x by auto
qed (simp add: add_matching_def)

lemma add_matching_idx:
  assumes "idx_ok ms" and "set_inv s"
  shows "set_inv (add_matching p (ms_idx ms) s)"
    and "elems (add_matching p (ms_idx ms) s) = elems s \<union> (\<Union>z \<in> {z. in_idx ms z \<and> p z}. related ms z)"
proof -
  have g: "gm_inv (ms_idx ms)" using assms(1) by (simp add: idx_ok_def)
  have at: "(z, zi) \<in> set (ms_idx ms) \<longleftrightarrow> in_idx ms z \<and> zi = entry_at ms z" for z zi
    unfolding gm_get_Some_iff [OF g, symmetric] by (auto simp: in_idx_def entry_at_def)
  have o: "\<forall>(z, zi) \<in> set (ms_idx ms). gm_inv (zd_otherRefs zi)"
    using assms(1) at by (auto simp: idx_ok_def)
  note m = add_matching_correct [OF g o assms(2), of p]
  show "set_inv (add_matching p (ms_idx ms) s)" using m by blast
  have "(\<Union>(z, zi) \<in> {(z, zi) \<in> set (ms_idx ms). p z}. insert z (elems (zd_backward zi) \<union> (\<Union>k. obwd zi k))) =
      (\<Union>z \<in> {z. in_idx ms z \<and> p z}. related ms z)"
    unfolding at related_def by auto
  then show "elems (add_matching p (ms_idx ms) s) = elems s \<union> (\<Union>z \<in> {z. in_idx ms z \<and> p z}. related ms z)"
    using m by simp
qed

lemma srefs_union:
  assumes "srefs_ok srefs" and "set_inv s"
  shows "set_inv (fold (\<lambda>(word, refs) r. if \<not> p word then r else Set_IUnion r refs) srefs s)"
    and "elems (fold (\<lambda>(word, refs) r. if \<not> p word then r else Set_IUnion r refs) srefs s) =
      elems s \<union> (\<Union>w \<in> {w. p w}. refs_of srefs w)"
proof -
  have g: "gm_inv srefs" using assms(1) by (simp add: srefs_ok_def)
  have f: "(\<lambda>(word, refs) r. if \<not> p word then r else Set_IUnion r refs) = (\<lambda>x r. if p (fst x) then Set_IUnion r (snd x) else r)"
    by (auto simp: fun_eq_iff)
  have "(\<Union>x \<in> {x \<in> set srefs. p (fst x)}. elems (snd x)) = (\<Union>w \<in> {w. p w}. refs_of srefs w)" (is "?A = ?B")
  proof
    show "?A \<subseteq> ?B"
    proof
      fix b assume "b \<in> ?A"
      then obtain w refs where w: "(w, refs) \<in> set srefs" "p w" "b \<in> elems refs" by auto
      then have "gm_set srefs w = refs" using gm_get_Some_iff [OF g, THEN iffD2, OF w(1)] by (simp add: gm_set_def)
      then show "b \<in> ?B" using w by auto
    qed
    show "?B \<subseteq> ?A"
    proof
      fix b assume "b \<in> ?B"
      then obtain w where w: "p w" "b \<in> refs_of srefs w" by blast
      then obtain refs where "gm_get srefs w = Some refs" "b \<in> elems refs"
        by (auto simp: gm_set_def split: option.splits)
      then show "b \<in> ?A" using w map_of_SomeD by force
    qed
  qed
  then show "set_inv (fold (\<lambda>(word, refs) r. if \<not> p word then r else Set_IUnion r refs) srefs s)"
    "elems (fold (\<lambda>(word, refs) r. if \<not> p word then r else Set_IUnion r refs) srefs s) =
      elems s \<union> (\<Union>w \<in> {w. p w}. refs_of srefs w)"
    using fold_union_sets [OF assms(2), of "\<lambda>x. p (fst x)" snd srefs] unfolding f by auto
qed

lemma selectWithPred_correct:
  assumes "ms_inv ms"
  shows "set_inv (selectWithPred ms s pred)"
    and "elems (selectWithPred ms s pred) =
      {b. \<exists>w \<in> set (zd_words (entry_at ms b)) \<union> set (zd_urls (entry_at ms b)). pred w s}"
proof -
  have ok: "srefs_ok (ms_words ms)" "srefs_ok (ms_urls ms)" using assms by (auto simp: ms_inv_def store_ok_def)
  let ?p = "\<lambda>w. pred w s"
  note w = srefs_union [OF ok(1) NewSet_correct(1), of ?p "[]"]
  note u = srefs_union [OF ok(2) w(1), of ?p]
  have e: "selectWithPred ms s pred = fold (\<lambda>(word, refs) r. if \<not> ?p word then r else Set_IUnion r refs) (ms_urls ms)
      (fold (\<lambda>(word, refs) r. if \<not> ?p word then r else Set_IUnion r refs) (ms_words ms) (NewSet []))"
    unfolding selectWithPred_def Let_def by (rule refl)
  show "set_inv (selectWithPred ms s pred)" unfolding e by (rule u(1))
  have c: "b \<in> refs_of (ms_words ms) v \<longleftrightarrow> v \<in> set (zd_words (entry_at ms b))"
    "b \<in> refs_of (ms_urls ms) v \<longleftrightarrow> v \<in> set (zd_urls (entry_at ms b))" for b v
    using assms unfolding ms_inv_def consistent_def by blast+
  show "elems (selectWithPred ms s pred) =
      {b. \<exists>w \<in> set (zd_words (entry_at ms b)) \<union> set (zd_urls (entry_at ms b)). pred w s}"
  proof -
    have "elems (selectWithPred ms s pred) = (elems (NewSet []) \<union> (\<Union>w \<in> {w. pred w s}. refs_of (ms_words ms) w)) \<union>
        (\<Union>w \<in> {w. pred w s}. refs_of (ms_urls ms) w)"
      unfolding e by (rule trans [OF u(2)]) (simp only: w(2))
    then show ?thesis using c by auto
  qed
qed

lemma SearchEqual_correct:
  assumes "ms_inv ms"
  shows "set_inv (SearchEqual ms word) \<and> elems (SearchEqual ms word) = search_spec ms (\<lambda>w. w = word) (\<lambda>z. Parse word = Inr z)"
proof -
  have c: "b \<in> refs_of (ms_words ms) v \<longleftrightarrow> v \<in> set (zd_words (entry_at ms b))"
    "b \<in> refs_of (ms_urls ms) v \<longleftrightarrow> v \<in> set (zd_urls (entry_at ms b))" for b v
    using assms unfolding ms_inv_def consistent_def by blast+
  let ?r1 = "case gm_get (ms_words ms) word of Some refs \<Rightarrow> Set_IUnion (NewSet []) refs | None \<Rightarrow> NewSet []"
  let ?r2 = "case gm_get (ms_urls ms) word of Some refs \<Rightarrow> Set_IUnion ?r1 refs | None \<Rightarrow> ?r1"
  have r1: "set_inv ?r1" "elems ?r1 = refs_of (ms_words ms) word"
    by (auto simp: gm_set_def Set_IUnion_correct split: option.split)
  have r2: "set_inv ?r2" "elems ?r2 = elems ?r1 \<union> refs_of (ms_urls ms) word"
    using r1(1) by (auto simp: gm_set_def Set_IUnion_correct split: option.split)
  have e: "elems ?r2 = {b. \<exists>w \<in> set (zd_words (entry_at ms b)) \<union> set (zd_urls (entry_at ms b)). w = word}"
    unfolding r2(2) r1(2) using c by auto
  show ?thesis
  proof (cases "Parse word")
    case (Inl err)
    then have "SearchEqual ms word = ?r2" by (simp only: SearchEqual_def Let_def sum.case)
    then show ?thesis using Inl e r2(1) by (simp add: search_spec_def)
  next
    case (Inr z)
    show ?thesis
    proof (cases "gm_get (ms_idx ms) z")
      case None
      then have "SearchEqual ms word = ?r2" using Inr by (simp only: SearchEqual_def Let_def sum.case option.case)
      moreover have "\<not> in_idx ms z" using None by (simp add: in_idx_def)
      ultimately show ?thesis using Inr e r2(1) by (auto simp: search_spec_def)
    next
      case (Some zi)
      then have s: "SearchEqual ms word = addBackwardZids ?r2 z zi"
        using Inr by (simp only: SearchEqual_def Let_def sum.case option.case)
      have zi: "entry_at ms z = zi" "in_idx ms z" using Some by (simp_all add: entry_at_def in_idx_def)
      then have "gm_inv (zd_otherRefs zi)" using assms by (auto simp: ms_inv_def store_ok_def idx_ok_def)
      from addBackwardZids_correct [OF r2(1) this, of z] show ?thesis
        unfolding s e using Inr zi by (auto simp: search_spec_def related_def)
    qed
  qed
qed

text \<open>
  C13: The search for an exact word finds exactly the zettel that contain it as a word or URL
  and, where the word is the identifier of an indexed zettel, that zettel and all zettel that
  refer to it.
\<close>

theorem SearchEqual_exact:
  assumes "ms_inv ms"
  shows "elems (SearchEqual ms word) = search_spec ms (\<lambda>w. w = word) (\<lambda>z. Parse word = Inr z)"
  using SearchEqual_correct [OF assms] by blast

lemma SearchEqual_exact_witness:
  "elems (SearchEqual mapstore_New ''abc'') = search_spec mapstore_New (\<lambda>w. w = ''abc'') (\<lambda>z. Parse ''abc'' = Inr z)"
  by (rule SearchEqual_exact [OF ms_inv_New])

lemma SearchContains_correct:
  assumes "ms_inv ms"
  shows "set_inv (SearchContains ms s) \<and> elems (SearchContains ms s) = search_spec ms (\<lambda>w. sublist s w)
    (\<lambda>z. length s \<le> 14 \<and> is_ok (ParseUint s) \<and> sublist s (zid_String z))"
proof -
  have io: "idx_ok ms" using assms by (simp add: ms_inv_def store_ok_def)
  note sel = selectWithPred_correct [OF assms, of s strings_Contains]
  note m = add_matching_idx [OF io sel(1), of "\<lambda>z. strings_Contains (zid_String z) s"]
  show ?thesis
  proof (cases "14 < length s \<or> \<not> is_ok (ParseUint s)")
    case True
    then have "SearchContains ms s = selectWithPred ms s strings_Contains"
      by (auto simp: SearchContains_def Let_def split: sum.splits)
    then show ?thesis using True sel by (auto simp: search_spec_def strings_Contains_def)
  next
    case False
    then have "SearchContains ms s = add_matching (\<lambda>z. strings_Contains (zid_String z) s) (ms_idx ms) (selectWithPred ms s strings_Contains)"
      by (auto simp: SearchContains_def Let_def split: sum.splits)
    then show ?thesis using False m sel by (auto simp: search_spec_def strings_Contains_def)
  qed
qed



section \<open>Where the index loses a reference\<close>

text \<open>
  A zettel that drops a key keeps its old forward references under that key; when the key
  returns with the same reference, the difference is empty and the backward reference, which
  the removal had deleted, is not restored.
\<close>

lemma inverse_ref_not_restored:
  assumes "ms_inv ms" and "zidx_ok zx" and "zidx_ok zx'" and "zi_Zid zx' = zi_Zid zx"
    and "y \<noteq> zi_Zid zx" and "y \<in> ofwd (entry_at ms (zi_Zid zx)) k"
    and "gm_get (zi_inverseRefs zx) k = None" and "gm_get (zi_inverseRefs zx') k = Some s" and "y \<in> elems s"
    and "UpdateReferences z ms zx = (ms1, tc1)" and "UpdateReferences z ms1 zx' = (ms2, tc2)"
  shows "y \<in> ofwd (entry_at ms2 (zi_Zid zx)) k \<and> zi_Zid zx \<notin> obwd (entry_at ms2 y) k"
proof -
  let ?zid = "zi_Zid zx"
  have i1: "ms_inv ms1" using UpdateReferences_inv [OF assms(1,2,10)] by blast
  have so: "store_ok ms" "store_ok ms1" using assms(1) i1 by (auto simp: ms_inv_def)
  note e1 = UpdateReferences_effect [OF so(1) assms(2,10), THEN conjunct2, THEN conjunct2, unfolded update_effect_def Let_def]
  note e2 = UpdateReferences_effect [OF so(2) assms(3,11), THEN conjunct2, THEN conjunct2, unfolded update_effect_def Let_def assms(4)]
  have s: "gm_set (zi_inverseRefs zx') k = s" using assms(8) by (simp add: gm_set_def)
  have f1: "y \<in> ofwd (entry_at ms1 ?zid) k" using e1 assms(6,7) by metis
  have b1: "?zid \<notin> obwd (entry_at ms1 y) k"
  proof -
    have "obwd (entry_at ms1 y) k = obwd (entry_at ms y) k - (if (y \<noteq> ?zid \<or> in_idx ms ?zid) \<and> y \<in> ofwd (entry_at ms ?zid) k then {?zid} else {})"
      using e1 assms(7) by metis
    then show ?thesis using assms(5,6) by simp
  qed
  have "obwd (entry_at ms2 y) k = ref_change ?zid (y \<noteq> ?zid \<or> in_idx ms1 ?zid) (ofwd (entry_at ms1 ?zid) k)
      (refs_of (zi_inverseRefs zx') k) y (obwd (entry_at ms1 y) k)"
    using e2 assms(8) by (metis option.distinct(1))
  then have "obwd (entry_at ms2 y) k = obwd (entry_at ms1 y) k"
    using f1 assms(5,9) by (simp add: ref_change_def s)
  moreover have "ofwd (entry_at ms2 ?zid) k = refs_of (zi_inverseRefs zx') k" using e2 assms(8) by (metis option.distinct(1))
  ultimately show ?thesis using b1 assms(9) s by simp
qed

text \<open>The backward reference of a new zettel to itself is lost.\<close>

lemma self_ref_lost:
  assumes "ms_inv ms" and "zidx_ok zx" and "\<not> in_idx ms (zi_Zid zx)" and "zi_Zid zx \<in> elems (zi_backrefs zx)"
    and "UpdateReferences z ms zx = (ms', tc)"
  shows "zi_Zid zx \<in> fwd ms' (zi_Zid zx) \<and> zi_Zid zx \<notin> bwd ms' (zi_Zid zx)"
proof -
  have so: "store_ok ms" using assms(1) by (simp add: ms_inv_def)
  note e = UpdateReferences_effect [OF so assms(2,5), THEN conjunct2, THEN conjunct2, unfolded update_effect_def Let_def]
  have "bwd ms' (zi_Zid zx) = bwd ms (zi_Zid zx)"
    using e assms(3) unfolding ref_change_def by presburger
  moreover have "fwd ms' (zi_Zid zx) = elems (zi_backrefs zx)" using e by presburger
  ultimately show ?thesis using entry_missing [OF assms(3)] assms(4) by simp
qed

end
