(* ===== verification/ZidMapper.thy ===== *)
theory ZidMapper
  imports IdSet Meta
begin

text \<open>
  The mapping from old to new zettel identifiers (\<open>box/manager/zidmapper.go\<close>): predefined numbers,
  the assignment of new ones, and the two maps that have to stay inverse to each other. The mutex
  is left out, every operation is atomic. Stored mappings are read line by line; the scanner of a line is external.
\<close>

section \<open>The mapper\<close>

record zidMapper =
  zm_defined :: "(zid, zidN) gomap"
  zm_toNew :: "(zid, zidN) gomap"
  zm_toOld :: "(zidN, zid) gomap"
  zm_nextZidM :: zidN
  zm_hadManual :: bool
  zm_nextZidN :: zidN

definition predefined :: "(zid \<times> string) list" where
  "predefined =
    [(1, ''0001''), (2, ''0002''), (3, ''0003''), (4, ''0004''), (5, ''0005''), (6, ''0006''), (7, ''0007''),
     (8, ''0008''), (9, ''0009''), (10, ''000a''), (11, ''000b''), (12, ''000c''), (13, ''000d''), (20, ''000e''),
     (21, ''000f''), (22, ''000g''), (23, ''000h''), (90, ''000i''), (92, ''000j''), (96, ''000k''), (100, ''000l''),
     (101, ''000m''), (102, ''000n''), (10100, ''000s''), (10200, ''000t''), (10300, ''000u''), (10401, ''000v''),
     (10402, ''000w''), (10403, ''000x''), (10405, ''000y''), (10700, ''000z''), (19000, ''000q''), (19990, ''000r''),
     (20001, ''0010''), (25001, ''0011''), (40001, ''000o''), (59900, ''000p''), (60010, ''0012''), (60020, ''0013''),
     (60030, ''0014''), (60040, ''0015''), (90000, ''0016''), (90001, ''0017''), (90002, ''0018''), (90003, ''0019''),
     (90004, ''001a''), (9999999996, ''00zw''), (9999999997, ''00zx''), (9999999998, ''00zy''), (9999999999, ''00zz''),
     (10000000000, ''0100'')]"

text \<open>The loop that builds the inverse of the predefined mapping: a duplicate panics.\<close>

fun invert :: "(zid, zidN) gomap \<Rightarrow> (zidN, zid) gomap \<Rightarrow> (zidN, zid) gomap option" where
  "invert [] toOld = Some toOld"
| "invert ((o', n) # rest) toOld =
     (if gm_get toOld n \<noteq> None then None else invert rest (gm_put toOld n o'))"

definition NewZidMapper :: "zidMapper option" where
  "NewZidMapper =
     (case (those (map (\<lambda>(o', s). map_option (Pair o') (MustParseN s)) predefined), MustParseN ''0020'', MustParseN ''0101'') of
        (Some defs, Some nextM, Some nextN) \<Rightarrow>
          (let defs = (Invalid, InvalidN) # defs in
           map_option (\<lambda>toOld. \<lparr>zm_defined = defs, zm_toNew = defs, zm_toOld = toOld,
             zm_nextZidM = nextM, zm_hadManual = False, zm_nextZidN = nextN\<rparr>) (invert defs []))
      | _ \<Rightarrow> None)"

definition isManual :: "zid \<Rightarrow> bool" where
  "isManual zid \<longleftrightarrow> 1000000000 \<le> zid \<and> zid \<le> 1099999999"

definition isWellDefined :: "zidMapper \<Rightarrow> zid \<Rightarrow> bool" where
  "isWellDefined zm zid \<longleftrightarrow>
     (if gm_get (zm_defined zm) zid \<noteq> None \<or> isManual zid then True
      else if time_Parse (zid_String zid) = None then False
      else 19700000000000 \<le> zid)"

definition Warnings :: "zidMapper \<Rightarrow> idset \<Rightarrow> idset" where
  "Warnings zm allZids =
     Set_ForEach allZids (\<lambda>zid warnings. if \<not> isWellDefined zm zid then Set_Add warnings zid else warnings) (NewSet [])"

text \<open>An invalid identifier panics.\<close>

definition LookupZidN :: "zidMapper \<Rightarrow> zid \<Rightarrow> zidN option option" where
  "LookupZidN zm zidO = (if \<not> IsValid zidO then None else Some (gm_get (zm_toNew zm) zidO))"

definition assign :: "zid \<Rightarrow> zidN \<Rightarrow> zidMapper \<Rightarrow> zidMapper" where
  "assign zidO zidN zm =
     zm\<lparr>zm_toNew := gm_put (zm_toNew zm) zidO zidN, zm_toOld := gm_put (zm_toOld zm) zidN zidO\<rparr>"

definition GetZidN :: "zidMapper \<Rightarrow> zid \<Rightarrow> (zidN \<times> zidMapper) option" where
  "GetZidN zm zidO =
     (case LookupZidN zm zidO of
        None \<Rightarrow> None
      | Some (Some zidN) \<Rightarrow> Some (zidN, zm)
      | Some None \<Rightarrow>
          let zm = (if isManual zidO \<and> zidO = 1000000000 then zm\<lparr>zm_hadManual := True\<rparr> else zm) in
          if isManual zidO \<and> zm_hadManual zm then
            (let zidN = zm_nextZidM zm in Some (zidN, assign zidO zidN (zm\<lparr>zm_nextZidM := zidN + 1\<rparr>)))
          else
            (let zidN = zm_nextZidN zm in Some (zidN, assign zidO zidN (zm\<lparr>zm_nextZidN := zidN + 1\<rparr>))))"

definition DeleteO :: "zidMapper \<Rightarrow> zid \<Rightarrow> zidMapper" where
  "DeleteO zm zidO =
     (if gm_get (zm_defined zm) zidO \<noteq> None then zm
      else case gm_get (zm_toNew zm) zidO of
          None \<Rightarrow> zm
        | Some zidN \<Rightarrow>
            (let zm = zm\<lparr>zm_toNew := gm_delete (zm_toNew zm) zidO, zm_toOld := gm_delete (zm_toOld zm) zidN\<rparr>;
                 lastZidN = zm_nextZidN zm - 1
             in if zidN = lastZidN then zm\<lparr>zm_nextZidN := lastZidN\<rparr> else zm))"

text \<open>The printed mapping; \<open>None\<close> is the panic of \<open>String\<close> for a number out of range.\<close>

definition mapping_line :: "zidMapper \<Rightarrow> zid \<Rightarrow> string option" where
  "mapping_line zm zidO =
     (let zidN = (case gm_get (zm_toNew zm) zidO of Some n \<Rightarrow> n | None \<Rightarrow> 0) in
      map_option (\<lambda>s. zid_String zidO @ '' '' @ s) (zidN_String zidN))"

definition AsBytes :: "zidMapper \<Rightarrow> string option" where
  "AsBytes zm =
     (let allZidsO = fold (\<lambda>zidO s. Set_Add s zidO) (gm_keys (zm_toNew zm)) (NewSetCap []) in
      map_option (\<lambda>ls. strings_Join ls [CHR 0x0A]) (those (map (mapping_line zm) (Set_SafeSorted allZidsO))))"

fun get_all :: "zidMapper \<Rightarrow> zid list \<Rightarrow> zidMapper option" where
  "get_all zm [] = Some zm"
| "get_all zm (zidO # zids) = (case GetZidN zm zidO of None \<Rightarrow> None | Some (zidN, zm) \<Rightarrow> get_all zm zids)"

definition drop_missing :: "idset \<Rightarrow> zidMapper \<Rightarrow> zidMapper" where
  "drop_missing allZids zm =
     fold (\<lambda>(zidO, zidN) zm. if Set_Contains allZids zidO then zm
         else zm\<lparr>zm_toNew := gm_delete (zm_toNew zm) zidO, zm_toOld := gm_delete (zm_toOld zm) zidN\<rparr>) (zm_toNew zm) zm"

definition FetchAsBytes :: "zidMapper \<Rightarrow> idset \<Rightarrow> (zidMapper \<times> string option) option" where
  "FetchAsBytes zm allZids =
     (case get_all zm (Set_SafeSorted allZids) of
        None \<Rightarrow> None
      | Some zm \<Rightarrow>
          (let zm = (if length (zm_toNew zm) \<noteq> Set_Length allZids then drop_missing allZids zm else zm)
           in Some (zm, AsBytes zm)))"

text \<open>
  Reading a stored mapping. The scanner is that of the external input package; a line is what it
  delivers: an identifier or a number that cannot be read, or a pair. The first such line is
  reported, unless a line that contradicts the mapping comes later.
\<close>

datatype mapping_entry = Bad_zidO string | Bad_zidN string | Entry zid zidN

datatype mapping_error = Err_zidO string | Err_zidN string | Err_overwrite zid zidN zidN

fun update_line :: "mapping_entry \<Rightarrow> zidMapper \<times> mapping_error option \<Rightarrow> zidMapper \<times> mapping_error option" where
  "update_line (Bad_zidO s) (zm, err) = (zm, if err = None then Some (Err_zidO s) else err)"
| "update_line (Bad_zidN s) (zm, err) = (zm, if err = None then Some (Err_zidN s) else err)"
| "update_line (Entry zidO zidN) (zm, err) =
     (case gm_get (zm_toNew zm) zidO of
        Some oldZidN \<Rightarrow> (zm, if oldZidN \<noteq> zidN then Some (Err_overwrite zidO oldZidN zidN) else err)
      | None \<Rightarrow> ((assign zidO zidN zm)\<lparr>zm_nextZidN := max (zm_nextZidN zm) (zidN + 1)\<rparr>, err))"

definition parseAndUpdate :: "zidMapper \<Rightarrow> mapping_entry list \<Rightarrow> zidMapper \<times> mapping_error option" where
  "parseAndUpdate zm ls = fold update_line ls (zm, None)"

section \<open>The initial mapping\<close>

definition predefined_numbers :: "(zid, zidN) gomap" where
  "predefined_numbers =
    [(1, 1), (2, 2), (3, 3), (4, 4), (5, 5), (6, 6), (7, 7), (8, 8), (9, 9), (10, 10), (11, 11), (12, 12), (13,
     13), (20, 14), (21, 15), (22, 16), (23, 17), (90, 18), (92, 19), (96, 20), (100, 21), (101, 22), (102, 23),
     (10100, 28), (10200, 29), (10300, 30), (10401, 31), (10402, 32), (10403, 33), (10405, 34), (10700, 35),
     (19000, 26), (19990, 27), (20001, 36), (25001, 37), (40001, 24), (59900, 25), (60010, 38), (60020, 39),
     (60030, 40), (60040, 41), (90000, 42), (90001, 43), (90002, 44), (90003, 45), (90004, 46), (9999999996, 1292),
     (9999999997, 1293), (9999999998, 1294), (9999999999, 1295), (10000000000, 1296)]"

lemma predefined_parse: "those (map (\<lambda>(o', s). map_option (Pair o') (MustParseN s)) predefined) = Some predefined_numbers"
  by (simp add: predefined_def predefined_numbers_def MustParseN_def ParseN_def ParseUintN_def strconv_ParseUint_def digit_val_def of_char_def maxZidN_def)

lemma first_numbers: "MustParseN ''0020'' = Some 72" "MustParseN ''0101'' = Some 1297"
  by (simp_all add: MustParseN_def ParseN_def ParseUintN_def strconv_ParseUint_def digit_val_def of_char_def maxZidN_def)

lemma predefined_distinct: "distinct (map fst predefined_numbers)" "distinct (map snd predefined_numbers)"
  by (simp_all add: predefined_numbers_def)

end
