(* ===== verification/ZidMapperLaws.thy ===== *)
theory ZidMapperLaws
  imports ZidMapper
begin

text \<open>
  The mapping of identifiers stays one to one: a state machine of assignments, deletions and
  clean-ups, and its invariant.
\<close>

section \<open>The invariant\<close>

text \<open>
  The maps are inverse to each other; the next numbers are larger than all numbers of their range:
  72 is \<open>0020\<close>, 1292 is \<open>00zw\<close>, where the predefined numbers above the manual start, 1297 is \<open>0101\<close>.
\<close>

definition zm_bij :: "zidMapper \<Rightarrow> bool" where
  "zm_bij zm \<longleftrightarrow> gm_inv (zm_toNew zm) \<and> gm_inv (zm_toOld zm) \<and>
     (\<forall>z n. gm_get (zm_toNew zm) z = Some n \<longleftrightarrow> gm_get (zm_toOld zm) n = Some z)"

definition num_ok :: "zidMapper \<Rightarrow> zid \<Rightarrow> zidN \<Rightarrow> bool" where
  "num_ok zm z n \<longleftrightarrow> n < zm_nextZidN zm \<and> (n < zm_nextZidM zm \<or> 1292 \<le> n) \<and>
     (gm_get (zm_defined zm) z = None \<longrightarrow> n < zm_nextZidM zm \<or> 1297 \<le> n)"

definition zm_ok :: "zidMapper \<Rightarrow> bool" where
  "zm_ok zm \<longleftrightarrow> zm_bij zm \<and> 72 \<le> zm_nextZidM zm \<and> zm_nextZidM zm \<le> 1292 \<and> 1297 \<le> zm_nextZidN zm \<and>
     zm_nextZidN zm \<le> 1679616 \<and> (\<forall>z n. gm_get (zm_toNew zm) z = Some n \<longrightarrow> num_ok zm z n)"

text \<open>There is a free number of both kinds.\<close>

definition zm_room :: "zidMapper \<Rightarrow> bool" where
  "zm_room zm \<longleftrightarrow> zm_nextZidM zm < 1292 \<and> zm_nextZidN zm < 1679616"

text \<open>There is a free number of both kinds for each identifier of a list.\<close>

definition zm_room_for :: "nat \<Rightarrow> zidMapper \<Rightarrow> bool" where
  "zm_room_for k zm \<longleftrightarrow> unat (zm_nextZidM zm) + k \<le> 1292 \<and> unat (zm_nextZidN zm) + k \<le> 1679616"

lemma zm_room_for_Suc: "zm_room_for (Suc k) zm \<Longrightarrow> zm_room zm"
  by (simp add: zm_room_for_def zm_room_def word_less_nat_alt)

lemma invert_facts:
  "invert m acc = Some r \<Longrightarrow> gm_inv acc \<Longrightarrow>
   gm_inv r \<and> (\<forall>n z. gm_get r n = Some z \<longleftrightarrow> (z, n) \<in> set m \<or> gm_get acc n = Some z)"
proof (induction m acc rule: invert.induct)
  case (2 z n rest acc)
  have n: "gm_get acc n = None" and s: "invert rest (gm_put acc n z) = Some r"
    using 2(2) by (auto split: if_splits)
  have i: "gm_inv (gm_put acc n z)" using 2(3) by simp
  from 2(1) [OF _ s i] n
  have "gm_inv r \<and> (\<forall>k y. gm_get r k = Some y \<longleftrightarrow> (y, k) \<in> set rest \<or> gm_get (gm_put acc n z) k = Some y)" by simp
  then show ?case using n by auto
qed simp

lemma invert_total:
  "distinct (map snd m) \<Longrightarrow> set (map snd m) \<inter> set (gm_keys acc) = {} \<Longrightarrow> \<exists>r. invert m acc = Some r"
proof (induction m acc rule: invert.induct)
  case (2 z n rest acc)
  have "gm_get acc n = None" using 2(3) by (simp add: gm_get_None_iff)
  moreover have "\<exists>r. invert rest (gm_put acc n z) = Some r"
    using 2(1,2,3) \<open>gm_get acc n = None\<close> by auto
  ultimately show ?case by simp
qed simp

lemma NewZidMapper_ok: "\<exists>zm. NewZidMapper = Some zm \<and> zm_ok zm \<and> zm_room zm \<and> zm_defined zm = zm_toNew zm"
proof -
  let ?d = "(Invalid, InvalidN) # predefined_numbers"
  have d: "distinct (map fst ?d)" "distinct (map snd ?d)"
    using predefined_distinct by (simp_all add: predefined_numbers_def Invalid_def InvalidN_def)
  obtain old where o: "invert ?d [] = Some old" using invert_total [of ?d "[]"] d(2) by auto
  note i = invert_facts [OF o gm_inv_Nil]
  let ?zm = "\<lparr>zm_defined = ?d, zm_toNew = ?d, zm_toOld = old, zm_nextZidM = 72, zm_hadManual = False, zm_nextZidN = 1297\<rparr>"
  have n: "NewZidMapper = Some ?zm"
    using o by (simp add: NewZidMapper_def predefined_parse first_numbers Let_def)
  have g: "gm_inv ?d" using d(1) by (simp add: gm_inv_def)
  have "\<forall>(z, n) \<in> set ?d. n < 1297 \<and> (n < 72 \<or> 1292 \<le> n)" by (simp add: predefined_numbers_def InvalidN_def)
  then have "num_ok ?zm z n" if "gm_get ?d z = Some n" for z n
    using map_of_SomeD [OF that] that by (auto simp: num_ok_def)
  moreover have "zm_bij ?zm" using i g gm_get_Some_iff [OF g] by (simp add: zm_bij_def)
  ultimately have "zm_ok ?zm" by (simp add: zm_ok_def)
  moreover have "zm_room ?zm" by (simp add: zm_room_def)
  ultimately show ?thesis using n by (intro exI [of _ ?zm]) simp
qed

section \<open>Assignment and deletion\<close>

text \<open>The two ways to get a number for an identifier without one.\<close>

definition renumbered :: "zidMapper \<Rightarrow> zidN \<Rightarrow> zidMapper \<Rightarrow> bool" where
  "renumbered zm n zm1 \<longleftrightarrow>
     zm_toNew zm1 = zm_toNew zm \<and> zm_toOld zm1 = zm_toOld zm \<and> zm_defined zm1 = zm_defined zm \<and>
     (n = zm_nextZidM zm \<and> zm_nextZidM zm1 = n + 1 \<and> zm_nextZidN zm1 = zm_nextZidN zm \<or>
      n = zm_nextZidN zm \<and> zm_nextZidN zm1 = n + 1 \<and> zm_nextZidM zm1 = zm_nextZidM zm)"

lemma GetZidN_new:
  assumes "gm_get (zm_toNew zm) z = None" and "IsValid z"
  shows "\<exists>n zm1. GetZidN zm z = Some (n, assign z n zm1) \<and> renumbered zm n zm1"
proof -
  let ?zm = "if isManual z \<and> z = 1000000000 then zm\<lparr>zm_hadManual := True\<rparr> else zm"
  have g: "GetZidN zm z = (if isManual z \<and> zm_hadManual ?zm
      then Some (zm_nextZidM ?zm, assign z (zm_nextZidM ?zm) (?zm\<lparr>zm_nextZidM := zm_nextZidM ?zm + 1\<rparr>))
      else Some (zm_nextZidN ?zm, assign z (zm_nextZidN ?zm) (?zm\<lparr>zm_nextZidN := zm_nextZidN ?zm + 1\<rparr>)))"
    using assms by (cases "isManual z"; cases "zm_hadManual zm") (simp_all add: GetZidN_def LookupZidN_def Let_def)
  have m: "renumbered zm (zm_nextZidM ?zm) (?zm\<lparr>zm_nextZidM := zm_nextZidM ?zm + 1\<rparr>)"
    and n: "renumbered zm (zm_nextZidN ?zm) (?zm\<lparr>zm_nextZidN := zm_nextZidN ?zm + 1\<rparr>)"
    by (simp_all add: renumbered_def)
  show ?thesis
  proof (cases "isManual z \<and> zm_hadManual ?zm")
    case True
    then show ?thesis using m unfolding g if_P [OF True] by blast
  next
    case False
    then show ?thesis using n unfolding g if_not_P [OF False] by blast
  qed
qed

lemma assign_facts:
  assumes "zm_ok zm" and "zm_room zm" and "gm_get (zm_toNew zm) z = None" and "renumbered zm n zm1"
  shows "zm_ok (assign z n zm1) \<and> (\<forall>y. gm_get (zm_toNew zm) y \<noteq> Some n)"
proof -
  have ok: "zm_bij zm" "72 \<le> zm_nextZidM zm" "zm_nextZidM zm < 1292" "1297 \<le> zm_nextZidN zm" "zm_nextZidN zm < 1679616"
      "\<And>y n. gm_get (zm_toNew zm) y = Some n \<Longrightarrow> num_ok zm y n"
    using assms(1,2) by (auto simp: zm_ok_def zm_room_def)
  have m: "zm_nextZidM zm < zm_nextZidM zm + 1" "zm_nextZidM zm + 1 \<le> 1292"
    using ok(3) by (simp_all add: word_less_nat_alt word_le_nat_alt unat_word_ariths)
  have n: "zm_nextZidN zm < zm_nextZidN zm + 1" "zm_nextZidN zm + 1 \<le> 1679616"
    using ok(5) by (simp_all add: word_less_nat_alt word_le_nat_alt unat_word_ariths)
  have big: "1292 \<le> zm_nextZidN zm" using ok(4) by (simp add: word_le_nat_alt)
  have mn: "zm_nextZidM zm < zm_nextZidN zm" using ok(3,4) by (simp add: word_less_nat_alt word_le_nat_alt)
  have f: "\<forall>y. gm_get (zm_toNew zm) y \<noteq> Some n"
  proof
    fix y
    show "gm_get (zm_toNew zm) y \<noteq> Some n"
    proof
      assume "gm_get (zm_toNew zm) y = Some n"
      then have "num_ok zm y n" by (rule ok(6))
      then show False using assms(4) ok(3) mn by (auto simp: num_ok_def renumbered_def)
    qed
  qed
  have s: "zm_toNew zm1 = zm_toNew zm" "zm_toOld zm1 = zm_toOld zm" "zm_defined zm1 = zm_defined zm"
    using assms(4) by (simp_all add: renumbered_def)
  have c: "zm_nextZidM zm \<le> zm_nextZidM zm1" "zm_nextZidM zm1 \<le> 1292" "zm_nextZidN zm \<le> zm_nextZidN zm1" "zm_nextZidN zm1 \<le> 1679616"
    using assms(4) m n ok(3,5) unfolding renumbered_def by auto
  have b: "zm_bij (assign z n zm1)"
  proof -
    have old: "gm_get (zm_toOld zm) n = None" using f ok(1) unfolding zm_bij_def by (metis not_None_eq)
    have "\<forall>k. gm_get (zm_toOld zm) k \<noteq> Some z" using assms(3) ok(1) unfolding zm_bij_def by (metis option.distinct(1))
    then show ?thesis using ok(1) f old by (simp add: zm_bij_def assign_def s)
  qed
  have "num_ok (assign z n zm1) y k" if "gm_get (zm_toNew (assign z n zm1)) y = Some k" for y k
  proof (cases "y = z")
    case True
    then have "k = n" using that by (simp add: assign_def)
    then show ?thesis using assms(4) m n ok(3,4) mn big by (auto simp: num_ok_def renumbered_def assign_def)
  next
    case False
    then have "num_ok zm y k" using that ok(6) by (simp add: assign_def s)
    then show ?thesis using c(1,3) by (auto simp: num_ok_def assign_def s)
  qed
  then have "zm_ok (assign z n zm1)"
    using b c ok(2,4) unfolding zm_ok_def by (auto simp: assign_def)
  then show ?thesis using f by blast
qed

lemma get_number:
  assumes "zm_ok zm" and "zm_room zm" and "IsValid z"
  shows "\<exists>n zm'. GetZidN zm z = Some (n, zm') \<and> zm_ok zm' \<and> gm_get (zm_toNew zm') z = Some n \<and>
    (\<forall>y. y \<noteq> z \<longrightarrow> gm_get (zm_toNew zm') y = gm_get (zm_toNew zm) y) \<and>
    (gm_get (zm_toNew zm) z = None \<longrightarrow> (\<forall>y. gm_get (zm_toNew zm) y \<noteq> Some n)) \<and> zm_defined zm' = zm_defined zm"
proof (cases "gm_get (zm_toNew zm) z")
  case (Some n)
  then show ?thesis using assms by (simp add: GetZidN_def LookupZidN_def)
next
  case None
  obtain n zm1 where g: "GetZidN zm z = Some (n, assign z n zm1)" "renumbered zm n zm1"
    using GetZidN_new [OF None assms(3)] by blast
  have "zm_toNew zm1 = zm_toNew zm" "zm_defined zm1 = zm_defined zm" using g(2) by (simp_all add: renumbered_def)
  then show ?thesis using g(1) assign_facts [OF assms(1,2) None g(2)] by (simp add: assign_def)
qed

text \<open>A request is answered with a number that no other identifier has.\<close>

lemma request_unique:
  assumes "zm_ok zm" and "zm_room zm" and "IsValid z"
  shows "\<exists>n zm'. GetZidN zm z = Some (n, zm') \<and> gm_get (zm_toNew zm') z = Some n \<and>
    (\<forall>y. y \<noteq> z \<longrightarrow> gm_get (zm_toNew zm) y \<noteq> Some n) \<and> (\<forall>y. y \<noteq> z \<longrightarrow> gm_get (zm_toNew zm') y = gm_get (zm_toNew zm) y)"
proof -
  obtain n zm' where g: "GetZidN zm z = Some (n, zm')" "zm_ok zm'" "gm_get (zm_toNew zm') z = Some n"
      "\<forall>y. y \<noteq> z \<longrightarrow> gm_get (zm_toNew zm') y = gm_get (zm_toNew zm) y"
    using get_number [OF assms] by blast
  have "gm_get (zm_toNew zm) y \<noteq> Some n" if "y \<noteq> z" for y
  proof
    assume "gm_get (zm_toNew zm) y = Some n"
    then have "gm_get (zm_toNew zm') y = Some n" using g(4) that by simp
    then show False using g(2,3) that unfolding zm_ok_def zm_bij_def by (metis option.inject)
  qed
  then show ?thesis using g by blast
qed

lemma delete_entry:
  assumes "zm_bij zm" and "gm_get (zm_toNew zm) z = Some n"
  shows "zm_bij (zm\<lparr>zm_toNew := gm_delete (zm_toNew zm) z, zm_toOld := gm_delete (zm_toOld zm) n\<rparr>)"
proof -
  have b: "gm_get (zm_toNew zm) y = Some k \<longleftrightarrow> gm_get (zm_toOld zm) k = Some y" for y k
    using assms(1) by (simp add: zm_bij_def)
  have "gm_get (zm_toOld zm) k = Some y \<Longrightarrow> y = z \<longleftrightarrow> k = n" for y k
    using b [of y k] b [of z n] assms(2) by auto
  then have "gm_get (gm_delete (zm_toNew zm) z) y = Some k \<longleftrightarrow> gm_get (gm_delete (zm_toOld zm) n) k = Some y" for y k
    using b [of y k] by auto
  then show ?thesis using assms(1) by (simp add: zm_bij_def)
qed

lemma DeleteO_ok:
  assumes "zm_ok zm"
  shows "zm_ok (DeleteO zm z) \<and> gm_get (zm_toNew (DeleteO zm z)) y =
    (if y = z \<and> gm_get (zm_defined zm) z = None then None else gm_get (zm_toNew zm) y) \<and> zm_defined (DeleteO zm z) = zm_defined zm"
proof (cases "gm_get (zm_defined zm) z = None \<and> gm_get (zm_toNew zm) z \<noteq> None")
  case False
  then show ?thesis using assms by (auto simp: DeleteO_def split: option.splits)
next
  case True
  then obtain n where n: "gm_get (zm_toNew zm) z = Some n" by blast
  let ?zm = "zm\<lparr>zm_toNew := gm_delete (zm_toNew zm) z, zm_toOld := gm_delete (zm_toOld zm) n\<rparr>"
  have ok: "zm_bij zm" "72 \<le> zm_nextZidM zm" "zm_nextZidM zm \<le> 1292" "1297 \<le> zm_nextZidN zm" "zm_nextZidN zm \<le> 1679616"
      "\<And>y n. gm_get (zm_toNew zm) y = Some n \<Longrightarrow> num_ok zm y n"
    using assms by (auto simp: zm_ok_def)
  have b: "zm_bij ?zm" by (rule delete_entry [OF ok(1) n])
  have d: "DeleteO zm z = (if n = zm_nextZidN zm - 1 then ?zm\<lparr>zm_nextZidN := zm_nextZidN zm - 1\<rparr> else ?zm)"
    using True n by (simp add: DeleteO_def Let_def)
  show ?thesis
  proof (cases "n = zm_nextZidN zm - 1")
    case False
    then show ?thesis using d b ok True by (auto simp: zm_ok_def num_ok_def)
  next
    case last: True
    have u: "unat (zm_nextZidN zm - 1) = unat (zm_nextZidN zm) - 1"
      using ok(4) by (subst unat_minus_one) (auto simp: word_le_nat_alt)
    have "num_ok zm z n" by (rule ok(6) [OF n])
    then have "1297 \<le> n" using True last ok(3,4) u by (auto simp: num_ok_def word_less_nat_alt word_le_nat_alt)
    moreover have "num_ok (?zm\<lparr>zm_nextZidN := zm_nextZidN zm - 1\<rparr>) y k" if k: "gm_get (gm_delete (zm_toNew zm) z) y = Some k" for y k
    proof -
      have y: "y \<noteq> z" "gm_get (zm_toNew zm) y = Some k" using k by (auto split: if_splits)
      then have "k \<noteq> n" using n ok(1) unfolding zm_bij_def by (metis option.inject)
      moreover have "num_ok zm y k" by (rule ok(6) [OF y(2)])
      ultimately show ?thesis using last u ok(4) by (auto simp: num_ok_def word_less_nat_alt word_le_nat_alt word_unat_eq_iff)
    qed
    ultimately have "zm_ok (?zm\<lparr>zm_nextZidN := zm_nextZidN zm - 1\<rparr>)"
      using b ok(2,3,5) last u by (auto simp: zm_ok_def zm_bij_def word_less_nat_alt word_le_nat_alt)
    then show ?thesis using d last True by auto
  qed
qed

section \<open>Clean-up\<close>

lemma get_number_room:
  assumes "zm_ok zm" and "zm_room_for (Suc k) zm" and "IsValid z"
  shows "\<exists>n zm'. GetZidN zm z = Some (n, zm') \<and> zm_ok zm' \<and> zm_room_for k zm'"
proof -
  obtain n zm' where g: "GetZidN zm z = Some (n, zm')" "zm_ok zm'"
    using get_number [OF assms(1) zm_room_for_Suc [OF assms(2)] assms(3)] by blast
  have "zm_room_for k zm'"
  proof (cases "gm_get (zm_toNew zm) z")
    case (Some m)
    then show ?thesis using g(1) assms(2,3) by (simp add: GetZidN_def LookupZidN_def zm_room_for_def)
  next
    case None
    then obtain zm1 where "zm' = assign z n zm1" "renumbered zm n zm1"
      using GetZidN_new [OF None assms(3)] g(1) by auto
    moreover have "unat (w + 1) \<le> Suc (unat w)" for w :: zidN by (simp add: unat_word_ariths)
    then have "unat (zm_nextZidM zm + 1) \<le> Suc (unat (zm_nextZidM zm))" "unat (zm_nextZidN zm + 1) \<le> Suc (unat (zm_nextZidN zm))"
      by blast+
    ultimately show ?thesis using assms(2) unfolding zm_room_for_def renumbered_def assign_def by auto
  qed
  then show ?thesis using g by blast
qed

lemma get_all_ok:
  "zm_ok zm \<Longrightarrow> zm_room_for (length zs) zm \<Longrightarrow> \<forall>z \<in> set zs. IsValid z \<Longrightarrow> \<exists>zm'. get_all zm zs = Some zm' \<and> zm_ok zm'"
proof (induction zs arbitrary: zm)
  case (Cons z zs)
  then obtain n zm' where "GetZidN zm z = Some (n, zm')" "zm_ok zm'" "zm_room_for (length zs) zm'"
    using get_number_room [of zm "length zs" z] by auto
  then show ?case using Cons.IH [of zm'] Cons.prems(3) by simp
qed simp

lemma drop_entries_ok:
  "zm_ok zm \<Longrightarrow> distinct (map fst es) \<Longrightarrow> \<forall>(z, n) \<in> set es. gm_get (zm_toNew zm) z = Some n \<Longrightarrow>
   zm' = fold (\<lambda>(zidO, zidN) zm. if Set_Contains s zidO then zm
     else zm\<lparr>zm_toNew := gm_delete (zm_toNew zm) zidO, zm_toOld := gm_delete (zm_toOld zm) zidN\<rparr>) es zm \<Longrightarrow>
   zm_ok zm' \<and> (\<forall>z. gm_get (zm_toNew zm') z = (if z \<in> fst ` set es \<and> \<not> Set_Contains s z then None else gm_get (zm_toNew zm) z))"
proof (induction es arbitrary: zm)
  case (Cons e es)
  obtain z n where e: "e = (z, n)" by (cases e)
  have n: "gm_get (zm_toNew zm) z = Some n" and d: "z \<notin> fst ` set es" "distinct (map fst es)"
    using Cons.prems(2,3) by (auto simp: e)
  show ?case
  proof (cases "Set_Contains s z")
    case True
    then show ?thesis using Cons.IH [of zm] Cons.prems(1,3,4) d by (auto simp: e)
  next
    case False
    let ?zm = "zm\<lparr>zm_toNew := gm_delete (zm_toNew zm) z, zm_toOld := gm_delete (zm_toOld zm) n\<rparr>"
    have "zm_bij ?zm" using delete_entry [of zm z n] Cons.prems(1) n by (simp add: zm_ok_def)
    then have ok: "zm_ok ?zm" using Cons.prems(1) by (auto simp: zm_ok_def num_ok_def)
    have "\<forall>(y, k) \<in> set es. gm_get (zm_toNew ?zm) y = Some k"
      using Cons.prems(3) d(1) by (force simp: e)
    from Cons.IH [OF ok d(2) this] show ?thesis using Cons.prems(4) False by (auto simp: e)
  qed
qed simp

lemma drop_missing_ok:
  assumes "zm_ok zm"
  shows "zm_ok (drop_missing s zm) \<and>
    gm_get (zm_toNew (drop_missing s zm)) z = (if Set_Contains s z then gm_get (zm_toNew zm) z else None)"
proof -
  have g: "gm_inv (zm_toNew zm)" using assms by (simp add: zm_ok_def zm_bij_def)
  then have "distinct (map fst (zm_toNew zm))" by (simp add: gm_inv_def)
  moreover have "\<forall>(z, n) \<in> set (zm_toNew zm). gm_get (zm_toNew zm) z = Some n"
    using gm_get_Some_iff [OF g] by auto
  ultimately have "zm_ok (drop_missing s zm) \<and> (\<forall>z. gm_get (zm_toNew (drop_missing s zm)) z =
      (if z \<in> fst ` set (zm_toNew zm) \<and> \<not> Set_Contains s z then None else gm_get (zm_toNew zm) z))"
    by (rule drop_entries_ok [OF assms]) (simp add: drop_missing_def)
  moreover have "gm_get (zm_toNew zm) z = None" if "z \<notin> fst ` set (zm_toNew zm)"
    using that by (simp add: map_of_eq_None_iff)
  ultimately show ?thesis by metis
qed

lemma AsBytes_total: "zm_ok zm \<Longrightarrow> AsBytes zm \<noteq> None"
proof -
  assume ok: "zm_ok zm"
  have "mapping_line zm z \<noteq> None" for z
  proof (cases "gm_get (zm_toNew zm) z")
    case None
    then show ?thesis using zidN_String_digits [of 0] by (simp add: mapping_line_def)
  next
    case (Some n)
    then have "n < zm_nextZidN zm" "zm_nextZidN zm \<le> 1679616" using ok by (auto simp: zm_ok_def num_ok_def)
    then have "unat n < 1679616" by (simp add: word_less_nat_alt word_le_nat_alt)
    then show ?thesis using Some zidN_String_digits [of n] by (simp add: mapping_line_def)
  qed
  then have "\<exists>l. mapping_line zm z = Some l" for z by blast
  then have "\<exists>ls. those (map (mapping_line zm) zs) = Some ls" for zs
    by (induction zs) (simp, metis (no_types, lifting) list.simps(9) map_option_eq_Some option.simps(5) those.simps(2))
  then show ?thesis by (simp add: AsBytes_def Let_def)
qed

lemma FetchAsBytes_ok:
  assumes "zm_ok zm" and "zm_room_for (Set_Length s) zm" and "\<forall>z \<in> elems s. IsValid z"
  shows "\<exists>zm' bs. FetchAsBytes zm s = Some (zm', Some bs) \<and> zm_ok zm'"
proof -
  have "length (Set_SafeSorted s) = Set_Length s" by (simp add: Set_SafeSorted_def Set_Length_def split: option.splits)
  then obtain zm1 where g: "get_all zm (Set_SafeSorted s) = Some zm1" "zm_ok zm1"
    using get_all_ok [OF assms(1), of "Set_SafeSorted s"] assms(2,3) Set_SafeSorted_correct(1) [of s] by auto
  let ?zm = "if length (zm_toNew zm1) \<noteq> Set_Length s then drop_missing s zm1 else zm1"
  have ok: "zm_ok ?zm" using g(2) drop_missing_ok [OF g(2)] by simp
  obtain bs where "AsBytes ?zm = Some bs" using AsBytes_total [OF ok] by blast
  then show ?thesis using g(1) ok by (intro exI [of _ ?zm] exI [of _ bs]) (simp add: FetchAsBytes_def Let_def)
qed

section \<open>The mapper as a state machine\<close>

text \<open>The operations on a mapper, as the box manager calls them. The premises about free numbers
  say that the four character identifiers are not used up.\<close>

inductive zm_reach :: "zidMapper \<Rightarrow> bool" where
  zm_new: "NewZidMapper = Some zm \<Longrightarrow> zm_reach zm"
| zm_get: "zm_reach zm \<Longrightarrow> zm_room zm \<Longrightarrow> GetZidN zm z = Some (n, zm') \<Longrightarrow> zm_reach zm'"
| zm_delete: "zm_reach zm \<Longrightarrow> zm_reach (DeleteO zm z)"
| zm_fetch: "zm_reach zm \<Longrightarrow> zm_room_for (Set_Length s) zm \<Longrightarrow> \<forall>z \<in> elems s. IsValid z \<Longrightarrow>
    FetchAsBytes zm s = Some (zm', bs) \<Longrightarrow> zm_reach zm'"

lemma zm_reach_ok: "zm_reach zm \<Longrightarrow> zm_ok zm"
proof (induction rule: zm_reach.induct)
  case (zm_new zm)
  obtain zm0 where "NewZidMapper = Some zm0" "zm_ok zm0" using NewZidMapper_ok by blast
  then show ?case using zm_new by (metis option.inject)
next
  case (zm_get zm z n zm')
  then have "IsValid z" by (simp add: GetZidN_def LookupZidN_def split: if_splits)
  then show ?case using get_number [OF zm_get.IH zm_get.hyps(2)] zm_get.hyps(3) by fastforce
next
  case (zm_delete zm z)
  then show ?case using DeleteO_ok by blast
next
  case (zm_fetch zm s zm' bs)
  then show ?case using FetchAsBytes_ok [OF zm_fetch.IH zm_fetch.hyps(2,3)] by auto
qed

text \<open>The clean-up also drops the predefined number of an identifier without zettel; a later request
  gives it an ordinary number.\<close>

lemma predefined_number_lost:
  assumes "zm_ok zm" and "zm_room zm" and "IsValid z" and "\<not> isManual z" and "\<not> Set_Contains s z"
  shows "\<exists>zm'. GetZidN (drop_missing s zm) z = Some (zm_nextZidN (drop_missing s zm), zm')"
  using drop_missing_ok [OF assms(1), of s z] assms(3-5) by (simp add: GetZidN_def LookupZidN_def Let_def)

text \<open>A stored mapping may give two identifiers the same number: there is no test for it.\<close>

lemma parseAndUpdate_duplicate:
  "zm_toNew (fst (parseAndUpdate zm [Entry 20240101000000 2000, Entry 20240101000001 2000])) =
     gm_put (gm_put (zm_toNew zm) 20240101000000 2000) 20240101000001 2000 \<and>
   snd (parseAndUpdate zm [Entry 20240101000000 2000, Entry 20240101000001 2000]) = None"
  if "gm_get (zm_toNew zm) 20240101000000 = None" "gm_get (zm_toNew zm) 20240101000001 = None"
  using that by (simp add: parseAndUpdate_def assign_def)



end
