(* ===== verification/Policy.thy ===== *)
theory Policy
  imports MetaLaws
begin

text \<open>
  Authorisation: the manager of \<open>auth/impl/impl.go\<close>, the configuration it consults
  (\<open>kernel/impl/cfg.go\<close>), the policies of \<open>auth/policy\<close> and their composition by
  \<open>newPolicy\<close>. A user is the metadata of the user zettel, \<open>None\<close> where nobody is logged in.
\<close>

type_synonym user = "meta option"

section \<open>The manager, \<open>auth/impl/impl.go\<close>\<close>

record myAuth =
  readonly :: bool
  owner :: zid

definition auth_New :: "bool \<Rightarrow> zid \<Rightarrow> myAuth" where
  "auth_New ro own = \<lparr>readonly = ro, owner = own\<rparr>"

definition IsReadonly :: "myAuth \<Rightarrow> bool" where
  "IsReadonly a = readonly a"

definition IsOwner :: "myAuth \<Rightarrow> zid \<Rightarrow> bool" where
  "IsOwner a zid \<longleftrightarrow> IsValid zid \<and> zid = owner a"

definition WithAuth :: "myAuth \<Rightarrow> bool" where
  "WithAuth a \<longleftrightarrow> owner a \<noteq> Invalid"

definition auth_GetUserRole :: "zsc \<Rightarrow> myAuth \<Rightarrow> user \<Rightarrow> UserRole" where
  "auth_GetUserRole z a user =
     (case user of
        None \<Rightarrow> if WithAuth a then UserRoleUnknown else UserRoleOwner
      | Some u \<Rightarrow>
          if IsOwner a (m_Zid u) then UserRoleOwner
          else case meta_Get z u (api_key z KeyUserRole) of
              Some val \<Rightarrow>
                (let ur = GetUserRole z val in if ur \<noteq> UserRoleUnknown then ur else UserRoleReader)
            | None \<Rightarrow> UserRoleReader)"

text \<open>The numeric order of the Go constants.\<close>

definition ur_num :: "UserRole \<Rightarrow> nat" where
  "ur_num ur = (case ur of UserRoleUnknown \<Rightarrow> 1 | UserRoleCreator \<Rightarrow> 2 | UserRoleReader \<Rightarrow> 3
     | UserRoleWriter \<Rightarrow> 4 | UserRoleOwner \<Rightarrow> 5)"

section \<open>Configuration, \<open>kernel/impl/cfg.go\<close>\<close>

record authConfig =
  simpleMode :: bool
  expertMode :: bool
  defaultVisibility :: Visibility
  origVisibility :: string

definition cfg_GetVisibility :: "zsc \<Rightarrow> authConfig \<Rightarrow> meta \<Rightarrow> Visibility" where
  "cfg_GetVisibility z cs m =
     (let default = (if defaultVisibility cs \<noteq> VisibilityUnknown then defaultVisibility cs
                     else GetVisibility z (origVisibility cs))
      in case meta_Get z m (api_key z KeyVisibility) of
           Some val \<Rightarrow>
             (let vis = GetVisibility z val in if vis \<noteq> VisibilityUnknown then vis else default)
         | None \<Rightarrow> default)"

section \<open>The interface \<open>auth.Policy\<close>\<close>

text \<open>A value of the interface: its five methods. Metadata may be \<open>nil\<close> only for \<open>prePolicy\<close>.\<close>

record policy =
  CanCreate :: "user \<Rightarrow> meta \<Rightarrow> bool"
  CanRead :: "user \<Rightarrow> meta \<Rightarrow> bool"
  CanWrite :: "user \<Rightarrow> meta \<Rightarrow> meta \<Rightarrow> bool"
  CanDelete :: "user \<Rightarrow> meta \<Rightarrow> bool"
  CanRefresh :: "user \<Rightarrow> bool"

section \<open>\<open>readonly.go\<close>\<close>

definition roPolicy :: policy where
  "roPolicy = \<lparr>CanCreate = (\<lambda>user newMeta. False), CanRead = (\<lambda>user m. True),
     CanWrite = (\<lambda>user oldMeta newMeta. False), CanDelete = (\<lambda>user m. False),
     CanRefresh = (\<lambda>user. user \<noteq> None)\<rparr>"

section \<open>\<open>default.go\<close>\<close>

definition canChange :: "zsc \<Rightarrow> myAuth \<Rightarrow> user \<Rightarrow> meta \<Rightarrow> bool" where
  "canChange z d user m =
     (case meta_Get z m (api_key z KeyReadOnly) of
        None \<Rightarrow> True
      | Some metaRo \<Rightarrow>
          if user = None then metaRo \<noteq> api_value z ValueUserRoleOwner \<and> \<not> BoolValue metaRo
          else
            let userRole = auth_GetUserRole z d user in
            if metaRo = api_value z ValueUserRoleReader then ur_num userRole > ur_num UserRoleReader
            else if metaRo = api_value z ValueUserRoleWriter then ur_num userRole > ur_num UserRoleWriter
            else if metaRo = api_value z ValueUserRoleOwner then ur_num userRole > ur_num UserRoleOwner
            else \<not> BoolValue metaRo)"

definition defaultPolicy :: "zsc \<Rightarrow> myAuth \<Rightarrow> policy" where
  "defaultPolicy z d = \<lparr>CanCreate = (\<lambda>user newMeta. True), CanRead = (\<lambda>user m. True),
     CanWrite = (\<lambda>user oldMeta newMeta. canChange z d user oldMeta),
     CanDelete = (\<lambda>user m. canChange z d user m), CanRefresh = (\<lambda>user. user \<noteq> None)\<rparr>"

section \<open>\<open>anon.go\<close>\<close>

definition anon_checkVisibility :: "zsc \<Rightarrow> authConfig \<Rightarrow> meta \<Rightarrow> bool" where
  "anon_checkVisibility z cs m =
     (if cfg_GetVisibility z cs m = VisibilityExpert then expertMode cs else True)"

definition anonPolicy :: "zsc \<Rightarrow> authConfig \<Rightarrow> policy \<Rightarrow> policy" where
  "anonPolicy z cs pre =
     \<lparr>CanCreate = (\<lambda>user newMeta. CanCreate pre user newMeta),
      CanRead = (\<lambda>user m. CanRead pre user m \<and> anon_checkVisibility z cs m),
      CanWrite = (\<lambda>user oldMeta newMeta. CanWrite pre user oldMeta newMeta \<and> anon_checkVisibility z cs oldMeta),
      CanDelete = (\<lambda>user m. CanDelete pre user m \<and> anon_checkVisibility z cs m),
      CanRefresh = (\<lambda>user. if expertMode cs \<or> simpleMode cs then True else CanRefresh pre user)\<rparr>"

section \<open>\<open>owner.go\<close>\<close>

definition userIsOwner :: "zsc \<Rightarrow> myAuth \<Rightarrow> user \<Rightarrow> bool" where
  "userIsOwner z a user =
     (case user of
        None \<Rightarrow> False
      | Some u \<Rightarrow>
          if IsOwner a (m_Zid u) then True
          else meta_Get z u (api_key z KeyUserRole) = Some (api_value z ValueUserRoleOwner))"

definition userCanCreate :: "zsc \<Rightarrow> myAuth \<Rightarrow> user \<Rightarrow> meta \<Rightarrow> bool" where
  "userCanCreate z a user newMeta =
     (if auth_GetUserRole z a user = UserRoleReader then False
      else if meta_Get z newMeta (api_key z KeyUserID) \<noteq> None then False
      else True)"

text \<open>The result and whether the visibility decides.\<close>

definition owner_checkVisibility :: "zsc \<Rightarrow> myAuth \<Rightarrow> authConfig \<Rightarrow> user \<Rightarrow> Visibility \<Rightarrow> bool \<times> bool" where
  "owner_checkVisibility z a cs user vis =
     (if vis = VisibilityExpert then (userIsOwner z a user \<and> expertMode cs, True) else (False, False))"

definition userCanRead :: "zsc \<Rightarrow> myAuth \<Rightarrow> user \<Rightarrow> meta \<Rightarrow> Visibility \<Rightarrow> bool" where
  "userCanRead z a user m vis =
     (if vis = VisibilityOwner \<or> vis = VisibilityExpert then False
      else if vis = VisibilityPublic then True
      else case user of
          None \<Rightarrow> False
        | Some u \<Rightarrow>
            if meta_Get z m (api_key z KeyUserID) \<noteq> None then m_Zid u = m_Zid m
            else (case auth_GetUserRole z a user of
                UserRoleReader \<Rightarrow> True
              | UserRoleWriter \<Rightarrow> True
              | UserRoleOwner \<Rightarrow> True
              | UserRoleCreator \<Rightarrow> vis = VisibilityCreator
              | UserRoleUnknown \<Rightarrow> False))"

definition noChangeUser :: "zsc \<Rightarrow> string list" where
  "noChangeUser z = map (api_key z) [KeyID, KeyRole, KeyUserID, KeyUserRole]"

definition owner_CanCreate :: "zsc \<Rightarrow> myAuth \<Rightarrow> policy \<Rightarrow> user \<Rightarrow> meta \<Rightarrow> bool" where
  "owner_CanCreate z a pre user newMeta =
     (if user = None \<or> \<not> CanCreate pre user newMeta then False
      else userIsOwner z a user \<or> userCanCreate z a user newMeta)"

definition owner_CanRead :: "zsc \<Rightarrow> myAuth \<Rightarrow> authConfig \<Rightarrow> user \<Rightarrow> meta \<Rightarrow> bool" where
  "owner_CanRead z a cs user m =
     (let vis = cfg_GetVisibility z cs m in
      case owner_checkVisibility z a cs user vis of (res, ok) \<Rightarrow>
        if ok then res else userIsOwner z a user \<or> userCanRead z a user m vis)"

definition owner_CanWrite :: "zsc \<Rightarrow> myAuth \<Rightarrow> authConfig \<Rightarrow> policy \<Rightarrow> user \<Rightarrow> meta \<Rightarrow> meta \<Rightarrow> bool" where
  "owner_CanWrite z a cs pre user oldMeta newMeta =
     (if user = None \<or> \<not> CanWrite pre user oldMeta newMeta then False
      else
        let vis = cfg_GetVisibility z cs oldMeta in
        case owner_checkVisibility z a cs user vis of (res, ok) \<Rightarrow>
          if ok then res
          else if userIsOwner z a user then True
          else if \<not> userCanRead z a user oldMeta vis then False
          else if meta_Get z oldMeta (api_key z KeyUserID) \<noteq> None then
            list_all (\<lambda>key. GetDefault z (Some oldMeta) key [] = GetDefault z (Some newMeta) key []) (noChangeUser z)
          else if auth_GetUserRole z a user = UserRoleReader \<or> auth_GetUserRole z a user = UserRoleCreator then False
          else userCanCreate z a user newMeta)"

definition owner_CanDelete :: "zsc \<Rightarrow> myAuth \<Rightarrow> authConfig \<Rightarrow> policy \<Rightarrow> user \<Rightarrow> meta \<Rightarrow> bool" where
  "owner_CanDelete z a cs pre user m =
     (if user = None \<or> \<not> CanDelete pre user m then False
      else case owner_checkVisibility z a cs user (cfg_GetVisibility z cs m) of (res, ok) \<Rightarrow>
        if ok then res else userIsOwner z a user)"

definition owner_CanRefresh :: "zsc \<Rightarrow> myAuth \<Rightarrow> authConfig \<Rightarrow> user \<Rightarrow> bool" where
  "owner_CanRefresh z a cs user =
     (case auth_GetUserRole z a user of
        UserRoleUnknown \<Rightarrow> simpleMode cs
      | UserRoleCreator \<Rightarrow> expertMode cs \<or> simpleMode cs
      | _ \<Rightarrow> True)"

definition ownerPolicy :: "zsc \<Rightarrow> myAuth \<Rightarrow> authConfig \<Rightarrow> policy \<Rightarrow> policy" where
  "ownerPolicy z a cs pre =
     \<lparr>CanCreate = owner_CanCreate z a pre, CanRead = owner_CanRead z a cs,
      CanWrite = owner_CanWrite z a cs pre, CanDelete = owner_CanDelete z a cs pre,
      CanRefresh = owner_CanRefresh z a cs\<rparr>"

section \<open>\<open>policy.go\<close>\<close>

text \<open>\<open>prePolicy\<close> guards against \<open>nil\<close> metadata and a change of the identifier.\<close>

record prePolicy =
  post :: policy

definition pre_CanCreate :: "prePolicy \<Rightarrow> user \<Rightarrow> meta option \<Rightarrow> bool" where
  "pre_CanCreate p user newMeta = (case newMeta of None \<Rightarrow> False | Some m \<Rightarrow> CanCreate (post p) user m)"

definition pre_CanRead :: "prePolicy \<Rightarrow> user \<Rightarrow> meta option \<Rightarrow> bool" where
  "pre_CanRead p user m = (case m of None \<Rightarrow> False | Some m \<Rightarrow> CanRead (post p) user m)"

definition pre_CanWrite :: "prePolicy \<Rightarrow> user \<Rightarrow> meta option \<Rightarrow> meta option \<Rightarrow> bool" where
  "pre_CanWrite p user oldMeta newMeta =
     (case (oldMeta, newMeta) of
        (Some old, Some new) \<Rightarrow> m_Zid old = m_Zid new \<and> CanWrite (post p) user old new
      | _ \<Rightarrow> False)"

definition pre_CanDelete :: "prePolicy \<Rightarrow> user \<Rightarrow> meta option \<Rightarrow> bool" where
  "pre_CanDelete p user m = (case m of None \<Rightarrow> False | Some m \<Rightarrow> CanDelete (post p) user m)"

definition pre_CanRefresh :: "prePolicy \<Rightarrow> user \<Rightarrow> bool" where
  "pre_CanRefresh p user = CanRefresh (post p) user"

definition newPolicy :: "zsc \<Rightarrow> myAuth \<Rightarrow> authConfig \<Rightarrow> prePolicy" where
  "newPolicy z a cs =
     (let pol = (if IsReadonly a then roPolicy else defaultPolicy z a) in
      \<lparr>post = (if WithAuth a then ownerPolicy z a cs pol else anonPolicy z cs pol)\<rparr>)"

section \<open>The contract of an access policy\<close>

text \<open>
  What the policy box relies on: whoever may write or delete a zettel may read it, and a write
  never moves a zettel to another identifier.
\<close>

locale access_policy =
  fixes p :: prePolicy
  assumes write_read: "pre_CanWrite p user old new \<Longrightarrow> pre_CanRead p user old"
    and delete_read: "pre_CanDelete p user m \<Longrightarrow> pre_CanRead p user m"
    and write_same: "pre_CanWrite p user old new \<Longrightarrow> map_option m_Zid old = map_option m_Zid new"
    and no_nil: "\<not> pre_CanCreate p user None \<and> \<not> pre_CanRead p user None"
begin

lemma no_nil_write: "\<not> pre_CanWrite p user None new"
  using write_read no_nil by blast

lemma no_nil_delete: "\<not> pre_CanDelete p user None"
  using delete_read no_nil by blast

lemma unreadable_untouchable:
  "\<not> pre_CanRead p user m \<Longrightarrow> \<not> pre_CanWrite p user m new \<and> \<not> pre_CanDelete p user m"
  using write_read delete_read by blast

end

lemmas policy_defs = newPolicy_def roPolicy_def defaultPolicy_def anonPolicy_def ownerPolicy_def
  pre_CanCreate_def pre_CanRead_def pre_CanWrite_def pre_CanDelete_def pre_CanRefresh_def

lemma owner_write_read: "owner_CanWrite z a cs pre user old new \<Longrightarrow> owner_CanRead z a cs user old"
  by (auto simp: owner_CanWrite_def owner_CanRead_def Let_def owner_checkVisibility_def split: if_splits)

lemma owner_delete_read: "owner_CanDelete z a cs pre user m \<Longrightarrow> owner_CanRead z a cs user m"
  by (auto simp: owner_CanDelete_def owner_CanRead_def Let_def owner_checkVisibility_def split: if_splits)

interpretation pol: access_policy "newPolicy z a cs" for z a cs
proof
  fix user :: user and old new m :: "meta option"
  show "pre_CanWrite (newPolicy z a cs) user old new \<Longrightarrow> pre_CanRead (newPolicy z a cs) user old"
    using owner_write_read by (auto simp: policy_defs Let_def split: option.splits if_splits)
  show "pre_CanDelete (newPolicy z a cs) user m \<Longrightarrow> pre_CanRead (newPolicy z a cs) user m"
    using owner_delete_read by (auto simp: policy_defs Let_def split: option.splits if_splits)
  show "pre_CanWrite (newPolicy z a cs) user old new \<Longrightarrow> map_option m_Zid old = map_option m_Zid new"
    by (auto simp: pre_CanWrite_def split: option.splits)
  show "\<not> pre_CanCreate (newPolicy z a cs) user None \<and> \<not> pre_CanRead (newPolicy z a cs) user None"
    by (simp add: pre_CanCreate_def pre_CanRead_def)
qed

section \<open>What the policies guarantee\<close>

text \<open>
  C7: Whatever the configuration, a user who may not read a zettel may neither write nor
  delete it.
\<close>

theorem no_write_without_read:
  assumes "\<not> pre_CanRead (newPolicy z a cs) user m"
  shows "\<not> pre_CanWrite (newPolicy z a cs) user m new \<and> \<not> pre_CanDelete (newPolicy z a cs) user m"
  by (rule pol.unreadable_untouchable [OF assms])

lemma no_write_without_read_witness:
  "\<not> pre_CanWrite (newPolicy doc_zsc (auth_New False 5) \<lparr>simpleMode = False, expertMode = False,
      defaultVisibility = VisibilityLogin, origVisibility = []\<rparr>) None (Some (meta_New 7)) (Some (meta_New 7))"
  by (rule no_write_without_read [THEN conjunct1])
     (simp add: pre_CanRead_def newPolicy_def ownerPolicy_def WithAuth_def auth_New_def Invalid_def
      owner_CanRead_def owner_checkVisibility_def cfg_GetVisibility_def meta_New_def userIsOwner_def
      userCanRead_def doc_zsc_def Let_def)

lemma readonly_denies:
  assumes "readonly a"
  shows "\<not> pre_CanCreate (newPolicy z a cs) user new \<and> \<not> pre_CanWrite (newPolicy z a cs) user old new \<and>
    \<not> pre_CanDelete (newPolicy z a cs) user old"
  using assms
  by (auto simp: policy_defs Let_def IsReadonly_def owner_CanCreate_def owner_CanWrite_def owner_CanDelete_def
      split: option.splits if_splits)

definition open_cfg :: authConfig where
  "open_cfg = \<lparr>simpleMode = False, expertMode = False, defaultVisibility = VisibilityLogin, origVisibility = []\<rparr>"

definition a_reader :: meta where
  "a_reader = \<lparr>m_Zid = 11, m_ZidN = 0, pairs = [(''user-id'', ''eve''), (''user-role'', ''reader'')], YamlSep = False\<rparr>"

text \<open>
  In read-only mode no user, not even the owner, may create, write or delete a zettel.
\<close>

lemma readonly_denies_changes:
  assumes "readonly a"
  shows "\<not> pre_CanCreate (newPolicy z a cs) user new \<and> \<not> pre_CanWrite (newPolicy z a cs) user old new \<and>
    \<not> pre_CanDelete (newPolicy z a cs) user old"
  by (rule readonly_denies [OF assms])

lemma readonly_denies_changes_witness:
  "\<not> pre_CanWrite (newPolicy doc_zsc (auth_New True 5) open_cfg) (Some (meta_New 5)) (Some (meta_New 7)) (Some (meta_New 7))"
  by (rule readonly_denies_changes [THEN conjunct2, THEN conjunct1]) (simp add: auth_New_def)

lemma anonymous_rights:
  assumes "WithAuth a"
  shows "\<not> pre_CanCreate (newPolicy z a cs) None new \<and> \<not> pre_CanWrite (newPolicy z a cs) None old new \<and>
    \<not> pre_CanDelete (newPolicy z a cs) None old \<and>
    (pre_CanRead (newPolicy z a cs) None (Some m) \<longleftrightarrow> cfg_GetVisibility z cs m = VisibilityPublic)"
  using assms
  by (auto simp: policy_defs Let_def owner_CanCreate_def owner_CanWrite_def owner_CanDelete_def owner_CanRead_def
      owner_checkVisibility_def userIsOwner_def userCanRead_def split: option.splits if_splits)

text \<open>
  C8: With authentication, nobody who is not logged in may create, write or delete a zettel,
  and such a visitor reads public zettel only.
\<close>

theorem anonymous_reads_public_only:
  assumes "WithAuth a"
  shows "\<not> pre_CanCreate (newPolicy z a cs) None new \<and> \<not> pre_CanWrite (newPolicy z a cs) None old new \<and>
    \<not> pre_CanDelete (newPolicy z a cs) None old \<and>
    (pre_CanRead (newPolicy z a cs) None (Some m) \<longleftrightarrow> cfg_GetVisibility z cs m = VisibilityPublic)"
  by (rule anonymous_rights [OF assms])

lemma anonymous_reads_public_only_witness:
  "pre_CanRead (newPolicy doc_zsc (auth_New False 5) open_cfg) None (Some (NewWithData 7 [(''visibility'', ''public'')])) \<and>
   \<not> pre_CanRead (newPolicy doc_zsc (auth_New False 5) open_cfg) None (Some (meta_New 7))"
proof -
  have a: "WithAuth (auth_New False 5)" by (simp add: WithAuth_def auth_New_def Invalid_def)
  note r = anonymous_reads_public_only [OF a, THEN conjunct2, THEN conjunct2, THEN conjunct2]
  have "cfg_GetVisibility doc_zsc open_cfg (NewWithData 7 [(''visibility'', ''public'')]) = VisibilityPublic"
    "cfg_GetVisibility doc_zsc open_cfg (meta_New 7) \<noteq> VisibilityPublic"
    by (simp_all add: cfg_GetVisibility_def open_cfg_def NewWithData_def meta_New_def gm_put_def GetVisibility_def doc_zsc_def Let_def)
  then show ?thesis unfolding r by simp
qed

lemma not_owner_write:
  assumes "owner_CanWrite z a cs pre user old new" and "\<not> userIsOwner z a user"
  shows "user \<noteq> None \<and> userCanRead z a user old (cfg_GetVisibility z cs old) \<and>
    (if meta_Get z old (api_key z KeyUserID) \<noteq> None
     then list_all (\<lambda>key. GetDefault z (Some old) key [] = GetDefault z (Some new) key []) (noChangeUser z)
     else userCanCreate z a user new)"
  using assms unfolding owner_CanWrite_def Let_def owner_checkVisibility_def
  by (auto simp del: meta_GetPtr.simps split: if_splits)

text \<open>A user zettel that somebody else can read is public.\<close>

lemma user_zettel_readers:
  "userCanRead z a (Some u) m vis \<Longrightarrow> meta_Get z m (api_key z KeyUserID) \<noteq> None \<Longrightarrow>
   m_Zid u = m_Zid m \<or> vis = VisibilityPublic"
  by (auto simp: userCanRead_def simp del: meta_GetPtr.simps split: if_splits)

text \<open>
  C6: With authentication, a user who is no owner cannot raise the own rights: a permitted
  write to a user zettel is a write to the own one (or to a public one) and changes neither
  its user identifier, nor its user role, nor its role, and no other zettel can be made a user
  zettel.
\<close>

theorem no_privilege_escalation:
  assumes "WithAuth a" and "\<not> userIsOwner z a (Some u)"
    and "pre_CanWrite (newPolicy z a cs) (Some u) (Some old) (Some new)"
  shows "(meta_Get z old (api_key z KeyUserID) = None \<longrightarrow> meta_Get z new (api_key z KeyUserID) = None) \<and>
    (meta_Get z old (api_key z KeyUserID) \<noteq> None \<longrightarrow>
      (m_Zid u = m_Zid old \<or> cfg_GetVisibility z cs old = VisibilityPublic) \<and>
      (\<forall>k \<in> {KeyUserID, KeyUserRole, KeyRole}.
         GetDefault z (Some old) (api_key z k) [] = GetDefault z (Some new) (api_key z k) []))"
proof -
  have "owner_CanWrite z a cs (if IsReadonly a then roPolicy else defaultPolicy z a) (Some u) old new"
    using assms(1,3) by (simp add: pre_CanWrite_def newPolicy_def ownerPolicy_def Let_def)
  note w = not_owner_write [OF this assms(2)]
  show ?thesis
  proof (cases "meta_Get z old (api_key z KeyUserID) = None")
    case True
    then show ?thesis using w by (auto simp: userCanCreate_def simp del: meta_GetPtr.simps split: if_splits)
  next
    case False
    then show ?thesis using w user_zettel_readers [of z a u old "cfg_GetVisibility z cs old"]
      by (auto simp: noChangeUser_def simp del: meta_GetPtr.simps)
  qed
qed

definition a_titled_reader :: meta where
  "a_titled_reader = a_reader\<lparr>pairs := pairs a_reader @ [(''title'', ''Eve'')]\<rparr>"

lemma no_privilege_escalation_witness:
  "pre_CanWrite (newPolicy doc_zsc (auth_New False 5) open_cfg) (Some a_reader) (Some a_reader) (Some a_titled_reader) \<and>
   GetDefault doc_zsc (Some a_reader) (api_key doc_zsc KeyUserRole) [] =
   GetDefault doc_zsc (Some a_titled_reader) (api_key doc_zsc KeyUserRole) []"
proof -
  have o: "\<not> userIsOwner doc_zsc (auth_New False 5) (Some a_reader)"
    by (simp add: userIsOwner_def IsOwner_def auth_New_def a_reader_def doc_zsc_def)
  have w: "pre_CanWrite (newPolicy doc_zsc (auth_New False 5) open_cfg) (Some a_reader) (Some a_reader) (Some a_titled_reader)"
    by (simp add: pre_CanWrite_def newPolicy_def ownerPolicy_def WithAuth_def auth_New_def Invalid_def IsReadonly_def
        owner_CanWrite_def owner_checkVisibility_def cfg_GetVisibility_def open_cfg_def a_reader_def a_titled_reader_def
        userIsOwner_def IsOwner_def userCanRead_def defaultPolicy_def canChange_def doc_zsc_def Let_def
        noChangeUser_def GetDefault_def)
  have "meta_Get doc_zsc a_reader (api_key doc_zsc KeyUserID) \<noteq> None"
    by (simp add: a_reader_def doc_zsc_def)
  then show ?thesis
    using no_privilege_escalation [OF _ o w] w by (auto simp: WithAuth_def auth_New_def Invalid_def simp del: meta_GetPtr.simps)
qed

text \<open>
  With authentication only owners delete zettel, and a user whose role is reader or
  creator changes nothing but user zettel.
\<close>

lemma role_restrictions:
  assumes "WithAuth a" and "\<not> userIsOwner z a (Some u)"
  shows "\<not> pre_CanDelete (newPolicy z a cs) (Some u) m \<and>
    (auth_GetUserRole z a (Some u) \<in> {UserRoleReader, UserRoleCreator} \<longrightarrow>
     meta_Get z old (api_key z KeyUserID) = None \<longrightarrow>
     \<not> pre_CanWrite (newPolicy z a cs) (Some u) (Some old) new)"
proof
  show "\<not> pre_CanDelete (newPolicy z a cs) (Some u) m"
    using assms
    by (auto simp: pre_CanDelete_def newPolicy_def ownerPolicy_def owner_CanDelete_def owner_checkVisibility_def
        Let_def split: option.splits if_splits)
  show "auth_GetUserRole z a (Some u) \<in> {UserRoleReader, UserRoleCreator} \<longrightarrow>
     meta_Get z old (api_key z KeyUserID) = None \<longrightarrow> \<not> pre_CanWrite (newPolicy z a cs) (Some u) (Some old) new"
    using assms
    by (auto simp: pre_CanWrite_def newPolicy_def ownerPolicy_def owner_CanWrite_def owner_checkVisibility_def
        Let_def simp del: meta_GetPtr.simps split: option.splits if_splits)
qed

lemma role_restrictions_witness:
  "\<not> pre_CanDelete (newPolicy doc_zsc (auth_New False 5) open_cfg) (Some a_reader) (Some (meta_New 20))"
  by (rule role_restrictions [THEN conjunct1])
     (simp_all add: WithAuth_def auth_New_def Invalid_def userIsOwner_def IsOwner_def a_reader_def doc_zsc_def)

text \<open>
  A user zettel with public visibility can be written by every user: the check that only its
  own user may read it comes after the test for public zettel, although the code that permits
  the write takes it for granted. A reader replaces the credential of another user.
\<close>

definition victim :: "string \<Rightarrow> meta" where
  "victim cred = \<lparr>m_Zid = 12, m_ZidN = 0, pairs = [(''user-id'', ''bob''), (''credential'', cred),
     (''visibility'', ''public'')], YamlSep = False\<rparr>"

lemma public_user_zettel_writable:
  "pre_CanWrite (newPolicy doc_zsc (auth_New False 5) open_cfg) (Some a_reader) (Some (victim ''x'')) (Some (victim ''y''))"
  by (simp add: pre_CanWrite_def newPolicy_def ownerPolicy_def WithAuth_def auth_New_def Invalid_def IsReadonly_def
      owner_CanWrite_def owner_checkVisibility_def cfg_GetVisibility_def GetVisibility_def open_cfg_def victim_def
      a_reader_def userIsOwner_def IsOwner_def userCanRead_def defaultPolicy_def canChange_def doc_zsc_def
      noChangeUser_def GetDefault_def Let_def)

end
