(* ===== verification/Query.thy ===== *)
theory Query
  imports IdSet MetaLaws
begin

text \<open>
  Queries, package \<open>query\<close>: the query value and its builders (\<open>query.go\<close>), the orderings of
  \<open>sorter.go\<close>, and the compiled query that picks, sorts and cuts a list of metadata
  (\<open>compiled.go\<close>). Pointers to a query that may be \<open>nil\<close> are options; an outer option is the
  panic of an index or slice expression.
\<close>

section \<open>Comparison operations\<close>

datatype compareOp =
    cmpUnknown | cmpExist | cmpNotExist | cmpEqual | cmpNotEqual | cmpHas | cmpHasNot
  | cmpPrefix | cmpNoPrefix | cmpSuffix | cmpNoSuffix | cmpMatch | cmpNoMatch
  | cmpLess | cmpNoLess | cmpGreater | cmpNoGreater

definition negateMap :: "(compareOp, compareOp) gomap" where
  "negateMap =
    [(cmpUnknown, cmpUnknown), (cmpExist, cmpNotExist),
     (cmpEqual, cmpNotEqual), (cmpNotEqual, cmpEqual), (cmpHas, cmpHasNot), (cmpHasNot, cmpHas),
     (cmpPrefix, cmpNoPrefix), (cmpNoPrefix, cmpPrefix), (cmpSuffix, cmpNoSuffix), (cmpNoSuffix, cmpSuffix),
     (cmpMatch, cmpNoMatch), (cmpNoMatch, cmpMatch), (cmpLess, cmpNoLess), (cmpNoLess, cmpLess),
     (cmpGreater, cmpNoGreater), (cmpNoGreater, cmpGreater)]"

definition negate :: "compareOp \<Rightarrow> compareOp" where
  "negate op = (case gm_get negateMap op of Some o' \<Rightarrow> o' | None \<Rightarrow> cmpUnknown)"

definition negativeMap :: "compareOp list" where
  "negativeMap =
    [cmpNotExist, cmpNotEqual, cmpHasNot, cmpNoPrefix, cmpNoSuffix, cmpNoMatch, cmpNoLess, cmpNoGreater]"

definition isNegated :: "compareOp \<Rightarrow> bool" where
  "isNegated op \<longleftrightarrow> op \<in> set negativeMap"

definition missingMap :: "compareOp list" where
  "missingMap = [cmpNotExist, cmpNotEqual, cmpHasNot, cmpNoMatch]"

lemma isNegated_simps [simp]:
  "\<not> isNegated cmpUnknown" "\<not> isNegated cmpExist" "isNegated cmpNotExist" "\<not> isNegated cmpEqual" "isNegated cmpNotEqual"
  "\<not> isNegated cmpHas" "isNegated cmpHasNot" "\<not> isNegated cmpPrefix" "isNegated cmpNoPrefix"
  "\<not> isNegated cmpSuffix" "isNegated cmpNoSuffix" "\<not> isNegated cmpMatch" "isNegated cmpNoMatch"
  "\<not> isNegated cmpLess" "isNegated cmpNoLess" "\<not> isNegated cmpGreater" "isNegated cmpNoGreater"
  by (simp_all add: isNegated_def negativeMap_def)

lemma negate_simps [simp]:
  "negate cmpUnknown = cmpUnknown" "negate cmpExist = cmpNotExist" "negate cmpNotExist = cmpUnknown"
  "negate cmpEqual = cmpNotEqual" "negate cmpNotEqual = cmpEqual" "negate cmpHas = cmpHasNot" "negate cmpHasNot = cmpHas"
  "negate cmpPrefix = cmpNoPrefix" "negate cmpNoPrefix = cmpPrefix" "negate cmpSuffix = cmpNoSuffix"
  "negate cmpNoSuffix = cmpSuffix" "negate cmpMatch = cmpNoMatch" "negate cmpNoMatch = cmpMatch"
  "negate cmpLess = cmpNoLess" "negate cmpNoLess = cmpLess" "negate cmpGreater = cmpNoGreater" "negate cmpNoGreater = cmpGreater"
  by (simp_all add: negate_def negateMap_def)

section \<open>The query value\<close>

datatype ContextDirection = ContextDirBoth | ContextDirForward | ContextDirBackward

record ContextSpec =
  Direction :: ContextDirection
  MaxCost :: int
  MaxCount :: int
  FullContext :: bool

datatype Directive = DirContext ContextSpec | DirIdent | DirItems | DirUnlinked "string list"

record expValue =
  ev_value :: string
  ev_op :: compareOp

type_synonym keyExistMap = "(string, compareOp) gomap"

type_synonym expMetaValues = "(string, expValue list) gomap"

record conjTerms =
  ct_keys :: keyExistMap
  ct_mvals :: expMetaValues
  ct_search :: "expValue list"

definition ct_zero :: conjTerms where
  "ct_zero = \<lparr>ct_keys = [], ct_mvals = [], ct_search = []\<rparr>"

definition ct_isEmpty :: "conjTerms \<Rightarrow> bool" where
  "ct_isEmpty ct \<longleftrightarrow> ct_keys ct = [] \<and> ct_mvals ct = [] \<and> ct_search ct = []"

definition ct_addKey :: "conjTerms \<Rightarrow> string \<Rightarrow> compareOp \<Rightarrow> conjTerms" where
  "ct_addKey ct key op =
     (case gm_get (ct_keys ct) key of
        Some prevOp \<Rightarrow>
          if prevOp \<noteq> op then ct\<lparr>ct_keys := gm_put (ct_keys ct) key cmpUnknown\<rparr> else ct
      | None \<Rightarrow> ct\<lparr>ct_keys := gm_put (ct_keys ct) key op\<rparr>)"

definition ct_addSearch :: "conjTerms \<Rightarrow> expValue \<Rightarrow> conjTerms" where
  "ct_addSearch ct val = ct\<lparr>ct_search := ct_search ct @ [val]\<rparr>"

record sortOrder =
  so_key :: string
  so_descending :: bool

definition isRandom :: "sortOrder \<Rightarrow> bool" where
  "isRandom so \<longleftrightarrow> so_key so = []"

record query =
  q_zids :: "zid list"
  q_directives :: "Directive list"
  q_preMatch :: "(meta \<Rightarrow> bool) option"
  q_terms :: "conjTerms list"
  q_seed :: int
  q_pick :: int
  q_order :: "sortOrder list"
  q_offset :: int
  q_limit :: int
  q_actions :: "string list"

definition q_zero :: query where
  "q_zero = \<lparr>q_zids = [], q_directives = [], q_preMatch = None, q_terms = [], q_seed = 0, q_pick = 0,
     q_order = [], q_offset = 0, q_limit = 0, q_actions = []\<rparr>"

definition createIfNeeded :: "query option \<Rightarrow> query" where
  "createIfNeeded q = (case q of None \<Rightarrow> q_zero\<lparr>q_terms := [ct_zero]\<rparr> | Some q \<Rightarrow> q)"

definition GetZids :: "query option \<Rightarrow> zid list option" where
  "GetZids q = (case q of None \<Rightarrow> None | Some q \<Rightarrow> if q_zids q = [] then None else Some (q_zids q))"

definition GetDirectives :: "query option \<Rightarrow> Directive list option" where
  "GetDirectives q = (case q of None \<Rightarrow> None | Some q \<Rightarrow> if q_directives q = [] then None else Some (q_directives q))"

text \<open>The copy of a map in its iteration order.\<close>

definition copy_map :: "('k, 'v) gomap \<Rightarrow> ('k, 'v) gomap" where
  "copy_map m = fold (\<lambda>(k, v) c. gm_put c k v) m []"

definition clone_term :: "conjTerms \<Rightarrow> conjTerms" where
  "clone_term term =
     \<lparr>ct_keys = (if ct_keys term \<noteq> [] then copy_map (ct_keys term) else []),
      ct_mvals = copy_map (ct_mvals term),
      ct_search = (if ct_search term \<noteq> [] then [] @ ct_search term else [])\<rparr>"

definition q_Clone :: "query option \<Rightarrow> query option" where
  "q_Clone q =
     (case q of
        None \<Rightarrow> None
      | Some q \<Rightarrow> Some \<lparr>q_zids = q_zids q, q_directives = q_directives q, q_preMatch = q_preMatch q,
          q_terms = map clone_term (q_terms q), q_seed = q_seed q, q_pick = q_pick q,
          q_order = (if q_order q \<noteq> [] then [] @ q_order q else []), q_offset = q_offset q, q_limit = q_limit q,
          q_actions = q_actions q\<rparr>)"

text \<open>\<open>q.terms[len(q.terms)-1]\<close>, which panics without a term, is changed in place.\<close>

fun update_last :: "('a \<Rightarrow> 'a) \<Rightarrow> 'a list \<Rightarrow> 'a list option" where
  "update_last f [] = None"
| "update_last f [x] = Some [f x]"
| "update_last f (x # y # ys) = map_option (Cons x) (update_last f (y # ys))"

definition q_addSearch :: "query \<Rightarrow> expValue \<Rightarrow> query option" where
  "q_addSearch q val = map_option (\<lambda>ts. q\<lparr>q_terms := ts\<rparr>) (update_last (\<lambda>ct. ct_addSearch ct val) (q_terms q))"

definition q_addKey :: "query option \<Rightarrow> string \<Rightarrow> compareOp \<Rightarrow> query option" where
  "q_addKey q key op =
     (let q = createIfNeeded q in
      map_option (\<lambda>ts. q\<lparr>q_terms := ts\<rparr>) (update_last (\<lambda>ct. ct_addKey ct key op) (q_terms q)))"

definition term_values :: "string \<Rightarrow> bool \<Rightarrow> conjTerms \<Rightarrow> string list" where
  "term_values key withMissing term =
     (case gm_get (ct_mvals term) key of
        None \<Rightarrow> []
      | Some mvs \<Rightarrow> map ev_value (filter (\<lambda>ev. withMissing \<or> ev_op ev \<notin> set missingMap) mvs))"

definition GetMetaValues :: "query option \<Rightarrow> string \<Rightarrow> bool \<Rightarrow> string list" where
  "GetMetaValues q key withMissing =
     (case q of
        None \<Rightarrow> []
      | Some q \<Rightarrow> remdups_adj (sort (concat (map (term_values key withMissing) (q_terms q)))))"

text \<open>Setting the predicate twice panics.\<close>

definition SetPreMatch :: "query option \<Rightarrow> (meta \<Rightarrow> bool) \<Rightarrow> query option" where
  "SetPreMatch q preMatch =
     (let q = createIfNeeded q in
      if q_preMatch q \<noteq> None then None else Some (q\<lparr>q_preMatch := Some preMatch\<rparr>))"

definition SetSeed :: "query option \<Rightarrow> int \<Rightarrow> query" where
  "SetSeed q seed = (createIfNeeded q)\<lparr>q_seed := seed\<rparr>"

definition GetSeed :: "query option \<Rightarrow> int \<times> bool" where
  "GetSeed q = (case q of None \<Rightarrow> (0, False) | Some q \<Rightarrow> (q_seed q, 0 < q_seed q))"

text \<open>\<open>r\<close> is what \<open>rand.IntN(10000)\<close> returns.\<close>

definition SetDeterministic :: "nat \<Rightarrow> query option \<Rightarrow> query" where
  "SetDeterministic r q =
     (let q = createIfNeeded q in if q_seed q \<le> 0 then q\<lparr>q_seed := int (r + 1)\<rparr> else q)"

definition Actions :: "query option \<Rightarrow> string list" where
  "Actions q = (case q of None \<Rightarrow> [] | Some q \<Rightarrow> q_actions q)"

definition RemoveActions :: "query option \<Rightarrow> query option" where
  "RemoveActions q = map_option (\<lambda>q. q\<lparr>q_actions := []\<rparr>) q"

definition EnrichNeeded :: "zsc \<Rightarrow> query option \<Rightarrow> bool" where
  "EnrichNeeded z q =
     (case q of
        None \<Rightarrow> False
      | Some q \<Rightarrow>
          if q_zids q \<noteq> [] then True
          else if q_actions q \<noteq> [] then True
          else if list_ex (\<lambda>term. list_ex (IsProperty z) (gm_keys (ct_keys term)) \<or>
                                   list_ex (IsProperty z) (gm_keys (ct_mvals term))) (q_terms q) then True
          else list_ex (\<lambda>o'. IsProperty z (so_key o')) (q_order q))"

section \<open>Orderings, \<open>sorter.go\<close>\<close>

text \<open>\<open>cmp.Compare\<close> of the standard library.\<close>

definition cmp_Compare :: "'a::linorder \<Rightarrow> 'a \<Rightarrow> int" where
  "cmp_Compare x y = (if x < y then -1 else if y < x then 1 else 0)"

type_synonym sortFunc = "meta \<Rightarrow> meta \<Rightarrow> int"

definition defaultMetaSort :: sortFunc where
  "defaultMetaSort i j = cmp_Compare (m_Zid j) (m_Zid i)"

definition compareFound :: "bool \<Rightarrow> bool \<Rightarrow> int" where
  "compareFound iOk jOk = (if iOk then (if jOk then 0 else 1) else if jOk then -1 else 0)"

definition value_or_empty :: "string option \<Rightarrow> string" where
  "value_or_empty v = (case v of Some s \<Rightarrow> s | None \<Rightarrow> [])"

definition createSortTimestampFunc :: "zsc \<Rightarrow> string \<Rightarrow> bool \<Rightarrow> sortFunc" where
  "createSortTimestampFunc z key descending =
     (if descending then
        (\<lambda>i j. let iv = meta_Get z i key; jv = meta_Get z j key;
                   result = compareFound (jv \<noteq> None) (iv \<noteq> None)
               in if result \<noteq> 0 then result
                  else cmp_Compare (ExpandTimestamp (value_or_empty jv)) (ExpandTimestamp (value_or_empty iv)))
      else
        (\<lambda>i j. let iv = meta_Get z i key; jv = meta_Get z j key;
                   result = compareFound (iv \<noteq> None) (jv \<noteq> None)
               in if result \<noteq> 0 then result
                  else cmp_Compare (ExpandTimestamp (value_or_empty iv)) (ExpandTimestamp (value_or_empty jv))))"

definition getNum :: "zsc \<Rightarrow> meta \<Rightarrow> string \<Rightarrow> int \<times> bool" where
  "getNum z m key =
     (case meta_Get z m key of
        None \<Rightarrow> (0, False)
      | Some s \<Rightarrow> (case strconv_ParseInt s of Some i \<Rightarrow> (i, True) | None \<Rightarrow> (0, False)))"

definition createSortNumberFunc :: "zsc \<Rightarrow> string \<Rightarrow> bool \<Rightarrow> sortFunc" where
  "createSortNumberFunc z key descending =
     (if descending then
        (\<lambda>i j. case (getNum z i key, getNum z j key) of ((iVal, iOk), (jVal, jOk)) \<Rightarrow>
               let result = compareFound jOk iOk in if result \<noteq> 0 then result else cmp_Compare jVal iVal)
      else
        (\<lambda>i j. case (getNum z i key, getNum z j key) of ((iVal, iOk), (jVal, jOk)) \<Rightarrow>
               let result = compareFound iOk jOk in if result \<noteq> 0 then result else cmp_Compare iVal jVal))"

definition createSortStringFunc :: "zsc \<Rightarrow> string \<Rightarrow> bool \<Rightarrow> sortFunc" where
  "createSortStringFunc z key descending =
     (if descending then
        (\<lambda>i j. let iv = meta_Get z i key; jv = meta_Get z j key;
                   result = compareFound (jv \<noteq> None) (iv \<noteq> None)
               in if result \<noteq> 0 then result else cmp_Compare (value_or_empty jv) (value_or_empty iv))
      else
        (\<lambda>i j. let iv = meta_Get z i key; jv = meta_Get z j key;
                   result = compareFound (iv \<noteq> None) (jv \<noteq> None)
               in if result \<noteq> 0 then result else cmp_Compare (value_or_empty iv) (value_or_empty jv)))"

definition so_buildSortfunc :: "zsc \<Rightarrow> sortOrder \<Rightarrow> sortFunc" where
  "so_buildSortfunc z so =
     (let key = so_key so; keyType = TypeOf z key in
      if key = api_key z KeyID \<or> keyType = TypeCredential then
        (if so_descending so then defaultMetaSort else (\<lambda>i j. cmp_Compare (m_Zid i) (m_Zid j)))
      else if keyType = TypeTimestamp then createSortTimestampFunc z key (so_descending so)
      else if keyType = TypeNumber then createSortNumberFunc z key (so_descending so)
      else createSortStringFunc z key (so_descending so))"

fun sort_funcs :: "zsc \<Rightarrow> sortOrder list \<Rightarrow> sortFunc list" where
  "sort_funcs z [] = [defaultMetaSort]"
| "sort_funcs z (o' # order) =
     so_buildSortfunc z o' # (if so_key o' = api_key z KeyID then [] else sort_funcs z order)"

fun compare_all :: "sortFunc list \<Rightarrow> sortFunc" where
  "compare_all [] i j = 0"
| "compare_all (sf # sfs) i j = (let result = sf i j in if result \<noteq> 0 then result else compare_all sfs i j)"

definition buildSortFunc :: "zsc \<Rightarrow> sortOrder list \<Rightarrow> sortFunc" where
  "buildSortFunc z order =
     (let sortFuncs = sort_funcs z order in
      case sortFuncs of [sf] \<Rightarrow> sf | _ \<Rightarrow> compare_all sortFuncs)"

section \<open>Compiled queries, \<open>compiled.go\<close>\<close>

record CompiledTerm =
  Match :: "meta \<Rightarrow> bool"
  Retrieve :: "zid \<Rightarrow> bool"

definition matchAlways :: "meta \<Rightarrow> bool" where "matchAlways m = True"

definition matchNever :: "meta \<Rightarrow> bool" where "matchNever m = False"

definition AlwaysIncluded :: "zid \<Rightarrow> bool" where "AlwaysIncluded z = True"

definition neverIncluded :: "zid \<Rightarrow> bool" where "neverIncluded z = False"

record compiled =
  c_hasQuery :: bool
  c_seed :: int
  c_pick :: int
  c_order :: "sortOrder list"
  c_offset :: int
  c_limit :: int
  c_startMeta :: "meta list option"
  c_PreMatch :: "meta \<Rightarrow> bool"
  c_Terms :: "CompiledTerm list"
  c_sortFunc :: "sortFunc option"

text \<open>
  Package \<open>math/rand/v2\<close>: \<open>rnd_IntN seed k n\<close> is the answer of the \<open>k\<close>-th call \<open>IntN(n)\<close> of the
  generator with that seed, \<open>rnd_Shuffle seed\<close> the permutation that \<open>Shuffle\<close> applies, and
  \<open>rnd_global\<close> what the global \<open>rand.IntN(10000)\<close> returns.
\<close>

record rand =
  rnd_IntN :: "int \<Rightarrow> nat \<Rightarrow> nat \<Rightarrow> nat"
  rnd_Shuffle :: "int \<Rightarrow> meta list \<Rightarrow> meta list"
  rnd_global :: nat

definition rand_ok :: "rand \<Rightarrow> bool" where
  "rand_ok r \<longleftrightarrow> (\<forall>seed k n. 0 < n \<longrightarrow> rnd_IntN r seed k n < n) \<and> (\<forall>seed ms. mset (rnd_Shuffle r seed ms) = mset ms)"

definition isDeterministic :: "compiled \<Rightarrow> bool" where
  "isDeterministic c \<longleftrightarrow> 0 < c_seed c"

definition newRandom :: "rand \<Rightarrow> compiled \<Rightarrow> int" where
  "newRandom r c = (if c_seed c \<le> 0 then int (rnd_global r + 10001) else c_seed c)"

definition ensureSortFunc :: "zsc \<Rightarrow> compiled \<Rightarrow> compiled" where
  "ensureSortFunc z c =
     (case c_sortFunc c of None \<Rightarrow> c\<lparr>c_sortFunc := Some (buildSortFunc z (c_order c))\<rparr> | Some sf \<Rightarrow> c)"

definition sortRandomly :: "rand \<Rightarrow> compiled \<Rightarrow> meta list \<Rightarrow> meta list" where
  "sortRandomly r c metaList = rnd_Shuffle r (newRandom r c) metaList"

definition limitElements :: "meta list \<Rightarrow> int \<Rightarrow> meta list" where
  "limitElements metaList limit =
     (if 0 < limit \<and> limit < int (length metaList) then take (nat limit) metaList else metaList)"

definition offsetElements :: "compiled \<Rightarrow> meta list \<Rightarrow> meta list option" where
  "offsetElements c metaList =
     (if c_offset c = 0 then Some metaList
      else if c_offset c > int (length metaList) then Some []
      else if c_offset c < 0 then None
      else Some (drop (nat (c_offset c)) metaList))"

text \<open>The drawing without replacement: \<open>i\<close> counts the calls of \<open>IntN\<close>.\<close>

fun pick_loop :: "(nat \<Rightarrow> nat \<Rightarrow> nat) \<Rightarrow> nat list \<Rightarrow> nat \<Rightarrow> nat \<Rightarrow> nat list" where
  "pick_loop intN order i 0 = []"
| "pick_loop intN order i (Suc cnt) =
     (let lst = length order - i; n = intN i lst
      in order ! n # pick_loop intN (order[n := order ! (lst - 1)]) (Suc i) cnt)"

definition pickElements :: "rand \<Rightarrow> compiled \<Rightarrow> meta list \<Rightarrow> meta list \<times> compiled" where
  "pickElements r c metaList =
     (let count = c_pick c in
      if count \<le> 0 \<or> count \<ge> int (length metaList) then (metaList, c)
      else let (count, c') = (if 0 < c_limit c \<and> c_limit c < count then (c_limit c, c\<lparr>c_limit := 0\<rparr>) else (count, c));
               picked = pick_loop (rnd_IntN r (newRandom r c')) [0..<length metaList] 0 (nat count)
           in (map (\<lambda>p. metaList ! p) (sort picked), c'))"

definition sortElements :: "zsc \<Rightarrow> rand \<Rightarrow> compiled \<Rightarrow> meta list \<Rightarrow> meta list \<times> compiled" where
  "sortElements z r c metaList =
     (case c_order c of
        [] \<Rightarrow> (metaList, c)
      | o' # _ \<Rightarrow>
          if isRandom o' then (sortRandomly r c metaList, c)
          else let c = ensureSortFunc z c in (slices_SortFunc (the (c_sortFunc c)) metaList, c))"

definition Result :: "zsc \<Rightarrow> rand \<Rightarrow> compiled \<Rightarrow> (meta list option \<times> compiled) option" where
  "Result z r c =
     (case c_startMeta c of
        None \<Rightarrow> Some (None, c)
      | Some [] \<Rightarrow> Some (Some [], c)
      | Some ms \<Rightarrow>
          let result = filter (\<lambda>m. list_ex (\<lambda>term. Match term m \<and> Retrieve term (m_Zid m)) (c_Terms c)) ms;
              (result, c) = pickElements r c result;
              c = ensureSortFunc z c;
              (result, c) = sortElements z r c result
          in (if c_offset c > int (length result) then Some (None, c)
              else case offsetElements c result of
                None \<Rightarrow> None
              | Some result \<Rightarrow> Some (Some (limitElements result (c_limit c)), c)))"

definition AfterSearch :: "zsc \<Rightarrow> rand \<Rightarrow> compiled \<Rightarrow> meta list \<Rightarrow> (meta list \<times> compiled) option" where
  "AfterSearch z r c metaList =
     (if metaList = [] then Some (metaList, c)
      else if \<not> c_hasQuery c then Some (slices_SortFunc defaultMetaSort metaList, c)
      else
        let (metaList, c) =
              (if isDeterministic c then
                 (case c_order c of
                    [] \<Rightarrow> (slices_SortFunc defaultMetaSort metaList, c)
                  | o' # _ \<Rightarrow>
                      if isRandom o' then (slices_SortFunc defaultMetaSort metaList, c)
                      else let c = ensureSortFunc z c in (slices_SortFunc (the (c_sortFunc c)) metaList, c))
               else (metaList, c));
            (metaList, c) = pickElements r c metaList;
            (metaList, c) =
              (if isDeterministic c then
                 (case c_order c of
                    [] \<Rightarrow> (metaList, c)
                  | o' # _ \<Rightarrow> (if isRandom o' then sortRandomly r c metaList else metaList, c))
               else sortElements z r c metaList)
        in map_option (\<lambda>metaList. (limitElements metaList (c_limit c), c)) (offsetElements c metaList))"

definition q_Limit :: "query option \<Rightarrow> meta list \<Rightarrow> meta list" where
  "q_Limit q metaList = (case q of None \<Rightarrow> metaList | Some q \<Rightarrow> limitElements metaList (q_limit q))"

end
