(* ===== verification/Box.thy ===== *)
theory Box
  imports Policy Query
begin

text \<open>
  Zettel and boxes: content and zettel (\<open>zettel/content.go\<close>, \<open>zettel/zettel.go\<close>), the search for
  a new identifier (\<open>box/helper.go\<close>), the in-memory box (\<open>box/membox/membox.go\<close>) and the box that
  guards another box by a policy (\<open>auth/policy/box.go\<close>).
\<close>

section \<open>Content and zettel\<close>

record content =
  c_data :: string
  isBinary :: bool

definition cont_byte :: "char \<Rightarrow> bool" where
  "cont_byte c \<longleftrightarrow> 128 \<le> byte_code c \<and> byte_code c \<le> 191"

definition byte_in :: "nat \<Rightarrow> nat \<Rightarrow> char \<Rightarrow> bool" where
  "byte_in lo hi c \<longleftrightarrow> lo \<le> byte_code c \<and> byte_code c \<le> hi"

text \<open>
  \<open>utf8.Valid\<close>: no overlong form, no surrogate, no code point beyond \<open>U+10FFFF\<close>. The second
  byte of a longer form is restricted after \<open>E0\<close>, \<open>ED\<close>, \<open>F0\<close> and \<open>F4\<close>.
\<close>

definition second_ok :: "char \<Rightarrow> char \<Rightarrow> bool" where
  "second_ok c d =
     (let n = byte_code c in
      if n = 224 then byte_in 160 191 d
      else if n = 237 then byte_in 128 159 d
      else if n = 240 then byte_in 144 191 d
      else if n = 244 then byte_in 128 143 d
      else cont_byte d)"

fun utf8_Valid :: "string \<Rightarrow> bool" where
  "utf8_Valid [] = True"
| "utf8_Valid (c # cs) =
     (if byte_code c < 128 then utf8_Valid cs
      else if byte_in 194 223 c then
        (case cs of d # rest \<Rightarrow> cont_byte d \<and> utf8_Valid rest | _ \<Rightarrow> False)
      else if byte_in 224 239 c then
        (case cs of d # e # rest \<Rightarrow> second_ok c d \<and> cont_byte e \<and> utf8_Valid rest | _ \<Rightarrow> False)
      else if byte_in 240 244 c then
        (case cs of d # e # f # rest \<Rightarrow> second_ok c d \<and> cont_byte e \<and> cont_byte f \<and> utf8_Valid rest | _ \<Rightarrow> False)
      else False)"

definition IsBinary :: "string \<Rightarrow> bool" where
  "IsBinary data = (if \<not> utf8_Valid data then True else list_ex (\<lambda>c. c = CHR 0x00) data)"

definition NewContent :: "string \<Rightarrow> content" where
  "NewContent data = \<lparr>c_data = data, isBinary = IsBinary data\<rparr>"

definition content_Length :: "content \<Rightarrow> nat" where
  "content_Length zc = length (c_data zc)"

definition content_Equal :: "content \<Rightarrow> content \<Rightarrow> bool" where
  "content_Equal zc other = (if isBinary zc \<noteq> isBinary other then False else c_data zc = c_data other)"

record zettel =
  Z_Meta :: meta
  Z_Content :: content

definition zettel_Length :: "zettel \<Rightarrow> nat" where
  "zettel_Length zt = meta_Length (Some (Z_Meta zt)) + content_Length (Z_Content zt)"

definition zettel_Equal :: "zsc \<Rightarrow> zettel \<Rightarrow> zettel \<Rightarrow> bool \<Rightarrow> bool" where
  "zettel_Equal z zt other allowComputed \<longleftrightarrow>
     meta_Equal z (Some (Z_Meta zt)) (Some (Z_Meta other)) allowComputed \<and>
     content_Equal (Z_Content zt) (Z_Content other)"

section \<open>Errors and the new identifier, \<open>box/box.go\<close>, \<open>box/helper.go\<close>\<close>

datatype box_error = ErrCapacity | ErrConflict | ErrZettelNotFound zid | ErrInvalidZid string
  | ErrNotAllowed string user zid | ErrReadOnly | ErrStarted | ErrStopped | ErrOther

text \<open>
  The search for an unused identifier. \<open>now i\<close> is the local time at the \<open>i\<close>-th attempt,
  formatted with or without seconds; the outer \<open>None\<close> is the panic of \<open>id.New\<close>.
\<close>

fun newzid_loop :: "(nat \<Rightarrow> bool \<Rightarrow> string) \<Rightarrow> (zid \<Rightarrow> bool) \<Rightarrow> nat \<Rightarrow> nat \<Rightarrow> bool \<Rightarrow> (box_error + zid) option" where
  "newzid_loop now testZid 0 i withSeconds = Some (Inl ErrConflict)"
| "newzid_loop now testZid (Suc n) i withSeconds =
     (case zid_New (now i) withSeconds of
        None \<Rightarrow> None
      | Some zid \<Rightarrow> if testZid zid then Some (Inr zid) else newzid_loop now testZid n (i + 1) True)"

definition GetNewZid :: "(nat \<Rightarrow> bool \<Rightarrow> string) \<Rightarrow> (zid \<Rightarrow> bool) \<Rightarrow> (box_error + zid) option" where
  "GetNewZid now testZid = newzid_loop now testZid 90 0 False"

definition GetQueryInt :: "string \<Rightarrow> int \<Rightarrow> int \<Rightarrow> int \<Rightarrow> int" where
  "GetQueryInt sVal mn def mx =
     (if sVal = [] then def
      else case strconv_ParseInt sVal of
          None \<Rightarrow> def
        | Some iVal \<Rightarrow> if iVal < mn then mn else if iVal > mx then mx else iVal)"

section \<open>The in-memory box\<close>

datatype UpdateReason = OnReady | OnReload | OnZettel | OnDelete

text \<open>\<open>mb_zettel\<close> is \<open>None\<close> for the \<open>nil\<close> map of a stopped box; \<open>mb_notes\<close> are the notifications sent.\<close>

record memBox =
  mb_maxZettel :: int
  mb_maxBytes :: int
  mb_zettel :: "(zid, zettel) gomap option"
  mb_curBytes :: int
  mb_notes :: "(UpdateReason \<times> zid) list"

definition mem_new :: "string \<Rightarrow> string \<Rightarrow> memBox" where
  "mem_new maxz maxb = \<lparr>mb_maxZettel = GetQueryInt maxz 0 127 65535,
     mb_maxBytes = GetQueryInt maxb 0 65535 (1024 * 1024 * 1024 - 1),
     mb_zettel = None, mb_curBytes = 0, mb_notes = []\<rparr>"

definition mem_map :: "memBox \<Rightarrow> (zid, zettel) gomap" where
  "mem_map mb = (case mb_zettel mb of None \<Rightarrow> [] | Some m \<Rightarrow> m)"

definition mem_notify :: "memBox \<Rightarrow> zid \<Rightarrow> UpdateReason \<Rightarrow> memBox" where
  "mem_notify mb zid reason = mb\<lparr>mb_notes := mb_notes mb @ [(reason, zid)]\<rparr>"

definition mem_Start :: "memBox \<Rightarrow> memBox" where
  "mem_Start mb = mb\<lparr>mb_zettel := Some [], mb_curBytes := 0\<rparr>"

definition mem_Stop :: "memBox \<Rightarrow> memBox" where
  "mem_Stop mb = mb\<lparr>mb_zettel := None\<rparr>"

definition mem_CanCreateZettel :: "memBox \<Rightarrow> bool" where
  "mem_CanCreateZettel mb \<longleftrightarrow> int (length (mem_map mb)) < mb_maxZettel mb"

text \<open>Writing into the \<open>nil\<close> map panics.\<close>

definition mem_store :: "memBox \<Rightarrow> zid \<Rightarrow> zettel \<Rightarrow> int \<Rightarrow> memBox option" where
  "mem_store mb zid zt newBytes =
     (case mb_zettel mb of
        None \<Rightarrow> None
      | Some m \<Rightarrow> Some (mb\<lparr>mb_zettel := Some (gm_put m zid zt), mb_curBytes := newBytes\<rparr>))"

definition mem_CreateZettel :: "(nat \<Rightarrow> bool \<Rightarrow> string) \<Rightarrow> memBox \<Rightarrow> zettel \<Rightarrow> (memBox \<times> (box_error + zid)) option" where
  "mem_CreateZettel now mb zt =
     (let newBytes = mb_curBytes mb + int (zettel_Length zt) in
      if mb_maxZettel mb < int (length (mem_map mb)) \<or> mb_maxBytes mb < newBytes
      then Some (mb, Inl ErrCapacity)
      else case GetNewZid now (\<lambda>zid. gm_get (mem_map mb) zid = None) of
          None \<Rightarrow> None
        | Some (Inl err) \<Rightarrow> Some (mb, Inl err)
        | Some (Inr zid) \<Rightarrow>
            map_option (\<lambda>mb. (mem_notify mb zid OnZettel, Inr zid))
              (mem_store mb zid (zt\<lparr>Z_Meta := (meta_Clone (Z_Meta zt))\<lparr>m_Zid := zid\<rparr>\<rparr>) newBytes))"

definition mem_GetZettel :: "memBox \<Rightarrow> zid \<Rightarrow> box_error + zettel" where
  "mem_GetZettel mb zid =
     (case gm_get (mem_map mb) zid of
        None \<Rightarrow> Inl (ErrZettelNotFound zid)
      | Some zt \<Rightarrow> Inr (zt\<lparr>Z_Meta := meta_Clone (Z_Meta zt)\<rparr>))"

definition mem_HasZettel :: "memBox \<Rightarrow> zid \<Rightarrow> bool" where
  "mem_HasZettel mb zid \<longleftrightarrow> gm_get (mem_map mb) zid \<noteq> None"

definition mem_ApplyZid :: "memBox \<Rightarrow> (zid \<Rightarrow> 's \<Rightarrow> 's) \<Rightarrow> (zid \<Rightarrow> bool) \<Rightarrow> 's \<Rightarrow> 's" where
  "mem_ApplyZid mb handle constraint =
     fold (\<lambda>zid s. if constraint zid then handle zid s else s) (gm_keys (mem_map mb))"

definition mem_ApplyMeta :: "memBox \<Rightarrow> (meta \<Rightarrow> meta) \<Rightarrow> (meta \<Rightarrow> 's \<Rightarrow> 's) \<Rightarrow> (zid \<Rightarrow> bool) \<Rightarrow> 's \<Rightarrow> 's" where
  "mem_ApplyMeta mb enrich handle constraint =
     fold (\<lambda>(zid, zt) s. if constraint zid then handle (enrich (meta_Clone (Z_Meta zt))) s else s) (mem_map mb)"

definition mem_newBytes :: "memBox \<Rightarrow> zettel \<Rightarrow> int" where
  "mem_newBytes mb zt =
     (let newBytes = mb_curBytes mb + int (zettel_Length zt) in
      case gm_get (mem_map mb) (m_Zid (Z_Meta zt)) of
        Some prevZettel \<Rightarrow> newBytes - int (zettel_Length prevZettel) | None \<Rightarrow> newBytes)"

definition mem_CanUpdateZettel :: "memBox \<Rightarrow> zettel \<Rightarrow> bool" where
  "mem_CanUpdateZettel mb zt =
     (if \<not> IsValid (m_Zid (Z_Meta zt)) then False else mem_newBytes mb zt < mb_maxBytes mb)"

definition mem_UpdateZettel :: "memBox \<Rightarrow> zettel \<Rightarrow> (memBox \<times> box_error option) option" where
  "mem_UpdateZettel mb zt =
     (let m = meta_Clone (Z_Meta zt) in
      if \<not> IsValid (m_Zid m) then Some (mb, Some (ErrInvalidZid (zid_String (m_Zid m))))
      else
        let newBytes = mem_newBytes mb zt in
        if mb_maxBytes mb < newBytes then Some (mb, Some ErrCapacity)
        else map_option (\<lambda>mb. (mem_notify mb (m_Zid m) OnZettel, None))
               (mem_store mb (m_Zid m) (zt\<lparr>Z_Meta := m\<rparr>) newBytes))"

definition mem_CanDeleteZettel :: "memBox \<Rightarrow> zid \<Rightarrow> bool" where
  "mem_CanDeleteZettel mb zid \<longleftrightarrow> gm_get (mem_map mb) zid \<noteq> None"

definition mem_DeleteZettel :: "memBox \<Rightarrow> zid \<Rightarrow> memBox \<times> box_error option" where
  "mem_DeleteZettel mb zid =
     (case gm_get (mem_map mb) zid of
        None \<Rightarrow> (mb, Some (ErrZettelNotFound zid))
      | Some oldZettel \<Rightarrow>
          (mem_notify (mb\<lparr>mb_zettel := Some (gm_delete (mem_map mb) zid),
             mb_curBytes := mb_curBytes mb - int (zettel_Length oldZettel)\<rparr>) zid OnDelete, None))"

section \<open>A box behind a policy, \<open>auth/policy/box.go\<close>\<close>

text \<open>The interface \<open>box.Box\<close>: operations on a state \<open>'s\<close>.\<close>

record 's box =
  bx_CanCreateZettel :: "'s \<Rightarrow> bool"
  bx_CreateZettel :: "zettel \<Rightarrow> 's \<Rightarrow> 's \<times> (box_error + zid)"
  bx_GetZettel :: "zid \<Rightarrow> 's \<Rightarrow> box_error + zettel"
  bx_GetAllZettel :: "zid \<Rightarrow> 's \<Rightarrow> box_error + zettel list"
  bx_GetMeta :: "zid \<Rightarrow> 's \<Rightarrow> box_error + meta"
  bx_SelectMeta :: "meta list option \<Rightarrow> query option \<Rightarrow> 's \<Rightarrow> box_error + meta list"
  bx_CanUpdateZettel :: "zettel \<Rightarrow> 's \<Rightarrow> bool"
  bx_UpdateZettel :: "zettel \<Rightarrow> 's \<Rightarrow> 's \<times> box_error option"
  bx_CanDeleteZettel :: "zid \<Rightarrow> 's \<Rightarrow> bool"
  bx_DeleteZettel :: "zid \<Rightarrow> 's \<Rightarrow> 's \<times> box_error option"
  bx_Refresh :: "'s \<Rightarrow> 's \<times> box_error option"
  bx_ReIndex :: "zid \<Rightarrow> 's \<Rightarrow> 's \<times> box_error option"

record 's polBox =
  pb_box :: "'s box"
  pb_policy :: prePolicy

definition pol_CanCreateZettel :: "'s polBox \<Rightarrow> 's \<Rightarrow> bool" where
  "pol_CanCreateZettel pp s = bx_CanCreateZettel (pb_box pp) s"

definition pol_CreateZettel :: "'s polBox \<Rightarrow> user \<Rightarrow> zettel \<Rightarrow> 's \<Rightarrow> 's \<times> (box_error + zid)" where
  "pol_CreateZettel pp user zt s =
     (if pre_CanCreate (pb_policy pp) user (Some (Z_Meta zt)) then bx_CreateZettel (pb_box pp) zt s
      else (s, Inl (ErrNotAllowed ''Create'' user Invalid)))"

definition pol_GetZettel :: "'s polBox \<Rightarrow> user \<Rightarrow> zid \<Rightarrow> 's \<Rightarrow> box_error + zettel" where
  "pol_GetZettel pp user zid s =
     (case bx_GetZettel (pb_box pp) zid s of
        Inl err \<Rightarrow> Inl err
      | Inr zt \<Rightarrow>
          if pre_CanRead (pb_policy pp) user (Some (Z_Meta zt)) then Inr zt
          else Inl (ErrNotAllowed ''GetZettel'' user zid))"

definition pol_GetAllZettel :: "'s polBox \<Rightarrow> user \<Rightarrow> zid \<Rightarrow> 's \<Rightarrow> box_error + zettel list" where
  "pol_GetAllZettel pp user zid s = bx_GetAllZettel (pb_box pp) zid s"

definition pol_FetchZids :: "'s polBox \<Rightarrow> user \<Rightarrow> 's \<Rightarrow> box_error + idset" where
  "pol_FetchZids pp user s = Inl (ErrNotAllowed ''fetch-zids'' user Invalid)"

definition pol_GetMeta :: "'s polBox \<Rightarrow> user \<Rightarrow> zid \<Rightarrow> 's \<Rightarrow> box_error + meta" where
  "pol_GetMeta pp user zid s =
     (case bx_GetMeta (pb_box pp) zid s of
        Inl err \<Rightarrow> Inl err
      | Inr m \<Rightarrow>
          if pre_CanRead (pb_policy pp) user (Some m) then Inr m
          else Inl (ErrNotAllowed ''GetMeta'' user zid))"

definition pol_SelectMeta :: "'s polBox \<Rightarrow> user \<Rightarrow> meta list option \<Rightarrow> query option \<Rightarrow> 's \<Rightarrow> (box_error + meta list) option" where
  "pol_SelectMeta pp user metaSeq q s =
     map_option (\<lambda>q. bx_SelectMeta (pb_box pp) metaSeq (Some q) s)
       (SetPreMatch q (\<lambda>m. pre_CanRead (pb_policy pp) user (Some m)))"

definition pol_CanUpdateZettel :: "'s polBox \<Rightarrow> zettel \<Rightarrow> 's \<Rightarrow> bool" where
  "pol_CanUpdateZettel pp zt s = bx_CanUpdateZettel (pb_box pp) zt s"

definition pol_UpdateZettel :: "'s polBox \<Rightarrow> user \<Rightarrow> zettel \<Rightarrow> 's \<Rightarrow> 's \<times> box_error option" where
  "pol_UpdateZettel pp user zt s =
     (let zid = m_Zid (Z_Meta zt) in
      if \<not> IsValid zid then (s, Some (ErrInvalidZid (zid_String zid)))
      else case bx_GetZettel (pb_box pp) zid s of
          Inl err \<Rightarrow> (s, Some err)
        | Inr oldZettel \<Rightarrow>
            if pre_CanWrite (pb_policy pp) user (Some (Z_Meta oldZettel)) (Some (Z_Meta zt))
            then bx_UpdateZettel (pb_box pp) zt s
            else (s, Some (ErrNotAllowed ''Write'' user zid)))"

definition pol_CanDeleteZettel :: "'s polBox \<Rightarrow> zid \<Rightarrow> 's \<Rightarrow> bool" where
  "pol_CanDeleteZettel pp zid s = bx_CanDeleteZettel (pb_box pp) zid s"

definition pol_DeleteZettel :: "'s polBox \<Rightarrow> user \<Rightarrow> zid \<Rightarrow> 's \<Rightarrow> 's \<times> box_error option" where
  "pol_DeleteZettel pp user zid s =
     (case bx_GetZettel (pb_box pp) zid s of
        Inl err \<Rightarrow> (s, Some err)
      | Inr zt \<Rightarrow>
          if pre_CanDelete (pb_policy pp) user (Some (Z_Meta zt)) then bx_DeleteZettel (pb_box pp) zid s
          else (s, Some (ErrNotAllowed ''Delete'' user zid)))"

definition pol_Refresh :: "'s polBox \<Rightarrow> user \<Rightarrow> 's \<Rightarrow> 's \<times> box_error option" where
  "pol_Refresh pp user s =
     (if pre_CanRefresh (pb_policy pp) user then bx_Refresh (pb_box pp) s
      else (s, Some (ErrNotAllowed ''Refresh'' user Invalid)))"

definition pol_ReIndex :: "'s polBox \<Rightarrow> user \<Rightarrow> zid \<Rightarrow> 's \<Rightarrow> 's \<times> box_error option" where
  "pol_ReIndex pp user zid s =
     (if pre_CanRefresh (pb_policy pp) user then bx_ReIndex (pb_box pp) zid s
      else (s, Some (ErrNotAllowed ''ReIndex'' user zid)))"

definition BoxWithPolicy :: "zsc \<Rightarrow> myAuth \<Rightarrow> 's box \<Rightarrow> authConfig \<Rightarrow> 's polBox" where
  "BoxWithPolicy z manager bx cs = \<lparr>pb_box = bx, pb_policy = newPolicy z manager cs\<rparr>"

text \<open>A box that holds one zettel and answers a query with it.\<close>

definition one_box :: "meta box" where
  "one_box = \<lparr>bx_CanCreateZettel = \<lambda>s. False, bx_CreateZettel = \<lambda>zt s. (s, Inl ErrCapacity),
      bx_GetZettel = \<lambda>zid s. Inl (ErrZettelNotFound zid), bx_GetAllZettel = \<lambda>zid s. Inr [], bx_GetMeta = \<lambda>zid s. Inr s,
      bx_SelectMeta = \<lambda>ms q s. Inr (filter (case q of None \<Rightarrow> \<lambda>m. True | Some q \<Rightarrow>
         (case q_preMatch q of Some p \<Rightarrow> p | None \<Rightarrow> \<lambda>m. True)) [s]),
      bx_CanUpdateZettel = \<lambda>zt s. False, bx_UpdateZettel = \<lambda>zt s. (s, None), bx_CanDeleteZettel = \<lambda>zid s. False,
      bx_DeleteZettel = \<lambda>zid s. (s, None), bx_Refresh = \<lambda>s. (s, None), bx_ReIndex = \<lambda>zid s. (s, None)\<rparr>"

section \<open>The policy box confines its users\<close>

datatype pol_op = PCreate zettel | PUpdate zettel | PDelete zid

fun pol_exec :: "'s polBox \<Rightarrow> user \<times> pol_op \<Rightarrow> 's \<Rightarrow> 's" where
  "pol_exec pp (user, PCreate zt) s = fst (pol_CreateZettel pp user zt s)"
| "pol_exec pp (user, PUpdate zt) s = fst (pol_UpdateZettel pp user zt s)"
| "pol_exec pp (user, PDelete zid) s = fst (pol_DeleteZettel pp user zid s)"

text \<open>Users that no policy check lets change anything.\<close>

definition powerless :: "prePolicy \<Rightarrow> user \<Rightarrow> bool" where
  "powerless p user \<longleftrightarrow> (\<forall>m. \<not> pre_CanCreate p user m) \<and> (\<forall>old new. \<not> pre_CanWrite p user old new) \<and>
     (\<forall>m. \<not> pre_CanDelete p user m)"

lemma powerless_exec: "powerless (pb_policy pp) user \<Longrightarrow> pol_exec pp (user, op) s = s"
  by (cases op) (auto simp: powerless_def pol_CreateZettel_def pol_UpdateZettel_def pol_DeleteZettel_def Let_def
      split: sum.split)

lemma powerless_run:
  "\<forall>(user, op) \<in> set ops. powerless (pb_policy pp) user \<Longrightarrow> fold (pol_exec pp) ops s = s"
  by (induction ops arbitrary: s) (auto simp: powerless_exec)

text \<open>
  C9: In read-only mode no sequence of requests by any users changes the content of the box
  behind the policy.
\<close>

theorem readonly_box_unchanged:
  assumes "readonly a"
  shows "fold (pol_exec (BoxWithPolicy z a bx cs)) ops s = s"
proof -
  have "powerless (newPolicy z a cs) user" for user
    using readonly_denies [OF assms] unfolding powerless_def by blast
  then show ?thesis by (intro powerless_run) (simp add: BoxWithPolicy_def split_beta)
qed

lemma readonly_box_unchanged_witness:
  "fold (pol_exec (BoxWithPolicy doc_zsc (auth_New True 5) one_box open_cfg)) [(Some a_reader, PDelete 3)] (meta_New 3) = meta_New 3"
  by (rule readonly_box_unchanged) (simp add: auth_New_def)

text \<open>
  C10: With authentication no sequence of requests by visitors who are not logged in changes
  the content of the box behind the policy.
\<close>

theorem anonymous_box_unchanged:
  assumes "WithAuth a" and "\<forall>(user, op) \<in> set ops. user = None"
  shows "fold (pol_exec (BoxWithPolicy z a bx cs)) ops s = s"
proof -
  have "powerless (newPolicy z a cs) None"
    using anonymous_rights [OF assms(1)] unfolding powerless_def by blast
  then show ?thesis using assms(2) by (intro powerless_run) (auto simp: BoxWithPolicy_def)
qed

lemma anonymous_box_unchanged_witness:
  "fold (pol_exec (BoxWithPolicy doc_zsc (auth_New False 5) one_box open_cfg)) [(None, PDelete 3)] (meta_New 3) = meta_New 3"
  by (rule anonymous_box_unchanged) (simp_all add: WithAuth_def auth_New_def Invalid_def)



section \<open>Accounting of the in-memory box\<close>

definition total_bytes :: "(zid, zettel) gomap \<Rightarrow> int" where
  "total_bytes m = (\<Sum>(zid, zt)\<leftarrow>m. int (zettel_Length zt))"

definition mem_inv :: "memBox \<Rightarrow> bool" where
  "mem_inv mb \<longleftrightarrow> (case mb_zettel mb of
     None \<Rightarrow> True
   | Some m \<Rightarrow> gm_inv m \<and> mb_curBytes mb = total_bytes m \<and> (0 \<le> mb_maxBytes mb \<longrightarrow> mb_curBytes mb \<le> mb_maxBytes mb) \<and>
       (\<forall>zid zt. gm_get m zid = Some zt \<longrightarrow> m_Zid (Z_Meta zt) = zid))"

lemma total_bytes_put:
  "gm_inv m \<Longrightarrow> total_bytes (gm_put m k v) =
     total_bytes m + int (zettel_Length v) - (case gm_get m k of Some old \<Rightarrow> int (zettel_Length old) | None \<Rightarrow> 0)"
proof (induction m)
  case (Cons p m)
  then show ?case by (cases p) (auto simp: total_bytes_def gm_put_def map_of_eq_None_iff split: option.splits)
qed (simp add: total_bytes_def gm_put_def)

lemma total_bytes_delete:
  "gm_inv m \<Longrightarrow> total_bytes (gm_delete m k) =
     total_bytes m - (case gm_get m k of Some old \<Rightarrow> int (zettel_Length old) | None \<Rightarrow> 0)"
proof (induction m)
  case (Cons p m)
  obtain a b where p: "p = (a, b)" by (cases p)
  have "gm_get m a = None" using Cons.prems p by (simp add: gm_get_None_iff)
  then show ?case using Cons p by (auto simp: total_bytes_def gm_delete_def split: option.splits)
qed (simp add: total_bytes_def gm_delete_def)

lemma fold_put_id: "gm_inv (qs @ ps) \<Longrightarrow> fold (\<lambda>(k, v) m. gm_put m k v) ps qs = qs @ ps"
proof (induction ps arbitrary: qs)
  case (Cons p ps)
  obtain k v where p: "p = (k, v)" by (cases p)
  have "k \<notin> fst ` set qs" using Cons.prems p by (auto simp: gm_inv_def)
  then have "gm_put qs k v = qs @ [(k, v)]" by (rule gm_put_new)
  then show ?case using Cons.IH [of "qs @ [(k, v)]"] Cons.prems p by simp
qed simp

lemma meta_Clone_id: "gm_inv (pairs m) \<Longrightarrow> meta_Clone m = m"
  using fold_put_id [of "[]" "pairs m"] by (simp add: meta_Clone_def meta_Map_def)

lemma meta_Length_Zid [simp]: "meta_Length (Some (m\<lparr>m_Zid := z\<rparr>)) = meta_Length (Some m)"
  by simp

datatype mem_op = MStart | MStop | MCreate "nat \<Rightarrow> bool \<Rightarrow> string" zettel | MUpdate zettel | MDelete zid

fun mem_step :: "mem_op \<Rightarrow> memBox \<Rightarrow> memBox option" where
  "mem_step MStart mb = Some (mem_Start mb)"
| "mem_step MStop mb = Some (mem_Stop mb)"
| "mem_step (MCreate now zt) mb = map_option fst (mem_CreateZettel now mb zt)"
| "mem_step (MUpdate zt) mb = map_option fst (mem_UpdateZettel mb zt)"
| "mem_step (MDelete zid) mb = Some (fst (mem_DeleteZettel mb zid))"

fun mem_run :: "mem_op list \<Rightarrow> memBox \<Rightarrow> memBox option" where
  "mem_run [] mb = Some mb"
| "mem_run (op # ops) mb = (case mem_step op mb of None \<Rightarrow> None | Some mb' \<Rightarrow> mem_run ops mb')"

text \<open>The maps of the metadata that callers pass in have distinct keys, as Go maps do.\<close>

definition mem_op_ok :: "mem_op \<Rightarrow> bool" where
  "mem_op_ok op = (case op of MCreate now zt \<Rightarrow> gm_inv (pairs (Z_Meta zt)) | MUpdate zt \<Rightarrow> gm_inv (pairs (Z_Meta zt)) | _ \<Rightarrow> True)"

lemma newzid_free: "newzid_loop now test n i ws = Some (Inr zid) \<Longrightarrow> test zid"
  by (induction now test n i ws rule: newzid_loop.induct) (auto split: option.splits if_splits)

lemma create_inv:
  assumes "mem_inv mb" and "gm_inv (pairs (Z_Meta zt))" and r: "mem_CreateZettel now mb zt = Some (mb', res)"
  shows "mem_inv mb'"
proof (cases res)
  case (Inl err)
  then have "mb' = mb" using r by (auto simp: mem_CreateZettel_def Let_def mem_store_def split: if_splits option.splits sum.splits)
  then show ?thesis using assms(1) by simp
next
  case (Inr zid)
  then obtain m where m: "mb_zettel mb = Some m" and b: "mb_curBytes mb + int (zettel_Length zt) \<le> mb_maxBytes mb"
      and g: "GetNewZid now (\<lambda>zid. gm_get (mem_map mb) zid = None) = Some (Inr zid)"
      and e: "mb' = mem_notify (mb\<lparr>mb_zettel := Some (gm_put m zid (zt\<lparr>Z_Meta := (meta_Clone (Z_Meta zt))\<lparr>m_Zid := zid\<rparr>\<rparr>)),
        mb_curBytes := mb_curBytes mb + int (zettel_Length zt)\<rparr>) zid OnZettel"
    using r by (auto simp: mem_CreateZettel_def Let_def mem_store_def not_less split: if_splits option.splits sum.splits)
  have f: "gm_get m zid = None" using newzid_free [OF g [unfolded GetNewZid_def]] m by (simp add: mem_map_def)
  have l: "zettel_Length (zt\<lparr>Z_Meta := (meta_Clone (Z_Meta zt))\<lparr>m_Zid := zid\<rparr>\<rparr>) = zettel_Length zt"
    using meta_Clone_id [OF assms(2)] by (simp add: zettel_Length_def)
  have i: "gm_inv m" "mb_curBytes mb = total_bytes m" "\<forall>zid zt. gm_get m zid = Some zt \<longrightarrow> m_Zid (Z_Meta zt) = zid"
    using assms(1) m by (auto simp: mem_inv_def)
  show ?thesis unfolding e using i b f l by (simp add: mem_inv_def mem_notify_def total_bytes_put)
qed

lemma update_inv:
  assumes "mem_inv mb" and "gm_inv (pairs (Z_Meta zt))" and r: "mem_UpdateZettel mb zt = Some (mb', res)"
  shows "mem_inv mb'"
proof (cases res)
  case (Some err)
  then have "mb' = mb" using r by (auto simp: mem_UpdateZettel_def Let_def mem_store_def split: if_splits option.splits)
  then show ?thesis using assms(1) by simp
next
  case None
  have c: "meta_Clone (Z_Meta zt) = Z_Meta zt" by (rule meta_Clone_id [OF assms(2)])
  let ?zid = "m_Zid (Z_Meta zt)"
  obtain m where m: "mb_zettel mb = Some m" and b: "mem_newBytes mb zt \<le> mb_maxBytes mb"
      and e: "mb' = mem_notify (mb\<lparr>mb_zettel := Some (gm_put m ?zid (zt\<lparr>Z_Meta := Z_Meta zt\<rparr>)),
        mb_curBytes := mem_newBytes mb zt\<rparr>) ?zid OnZettel"
    using r None by (auto simp: mem_UpdateZettel_def Let_def mem_store_def not_less c split: if_splits option.splits)
  have i: "gm_inv m" "mb_curBytes mb = total_bytes m" "\<forall>zid zt. gm_get m zid = Some zt \<longrightarrow> m_Zid (Z_Meta zt) = zid"
    using assms(1) m by (auto simp: mem_inv_def)
  have "mem_newBytes mb zt = total_bytes (gm_put m ?zid zt)"
    using i m by (simp add: mem_newBytes_def mem_map_def total_bytes_put Let_def split: option.splits)
  then show ?thesis unfolding e using i b by (simp add: mem_inv_def mem_notify_def)
qed

lemma zettel_Length_nonneg: "0 \<le> total_bytes m"
  by (induction m) (auto simp: total_bytes_def)

lemma delete_inv:
  assumes "mem_inv mb"
  shows "mem_inv (fst (mem_DeleteZettel mb zid))"
proof (cases "gm_get (mem_map mb) zid")
  case (Some old)
  then obtain m where m: "mb_zettel mb = Some m" by (auto simp: mem_map_def split: option.splits)
  have i: "gm_inv m" "mb_curBytes mb = total_bytes m" "0 \<le> mb_maxBytes mb \<longrightarrow> mb_curBytes mb \<le> mb_maxBytes mb"
    "\<forall>zid zt. gm_get m zid = Some zt \<longrightarrow> m_Zid (Z_Meta zt) = zid"
    using assms m by (auto simp: mem_inv_def)
  show ?thesis using i m Some
    by (auto simp: mem_DeleteZettel_def mem_inv_def mem_notify_def mem_map_def total_bytes_delete)
qed (use assms in \<open>simp add: mem_DeleteZettel_def\<close>)

lemma mem_step_inv:
  "mem_inv mb \<Longrightarrow> mem_op_ok op \<Longrightarrow> mem_step op mb = Some mb' \<Longrightarrow> mem_inv mb'"
proof (cases op)
  case MStart
  then show "mem_step op mb = Some mb' \<Longrightarrow> mem_inv mb'" by (auto simp: mem_Start_def mem_inv_def total_bytes_def)
next
  case MStop
  then show "mem_step op mb = Some mb' \<Longrightarrow> mem_inv mb'" by (auto simp: mem_Stop_def mem_inv_def)
qed (auto simp: mem_op_ok_def dest: create_inv update_inv intro: delete_inv)

text \<open>
  C12: In any life of an in-memory box the byte count is exactly the size of the stored zettel
  and never exceeds the limit, and every zettel is stored under its own identifier.
\<close>

theorem membox_accounting:
  assumes "list_all mem_op_ok ops" and "mem_run ops (mem_new maxz maxb) = Some mb" and "mb_zettel mb = Some m"
  shows "mb_curBytes mb = total_bytes m \<and> mb_curBytes mb \<le> mb_maxBytes mb \<and>
    (\<forall>zid zt. gm_get m zid = Some zt \<longrightarrow> m_Zid (Z_Meta zt) = zid)"
proof -
  have max: "mem_step op mb = Some mb' \<Longrightarrow> mb_maxBytes mb' = mb_maxBytes mb" for op mb mb'
    by (cases op) (auto simp: mem_Start_def mem_Stop_def mem_CreateZettel_def mem_UpdateZettel_def mem_DeleteZettel_def
        mem_store_def mem_notify_def Let_def split: if_splits option.splits sum.splits)
  have run: "mem_inv b \<Longrightarrow> list_all mem_op_ok ops \<Longrightarrow> mem_run ops b = Some mb \<Longrightarrow> mem_inv mb \<and> mb_maxBytes mb = mb_maxBytes b"
    for ops b
  proof (induction ops arbitrary: b)
    case (Cons op ops)
    then obtain b1 where b1: "mem_step op b = Some b1" "mem_run ops b1 = Some mb" by (auto split: option.splits)
    then show ?case using Cons mem_step_inv [OF _ _ b1(1)] max [OF b1(1)] by auto
  qed simp
  have "mem_inv (mem_new maxz maxb)" by (simp add: mem_inv_def mem_new_def)
  moreover have "0 \<le> mb_maxBytes (mem_new maxz maxb)" by (simp add: mem_new_def GetQueryInt_def split: option.split)
  ultimately have i: "mem_inv mb" "0 \<le> mb_maxBytes mb" using run [OF _ assms(1,2)] by simp_all
  then show ?thesis using assms(3) by (simp add: mem_inv_def)
qed

lemma membox_accounting_witness:
  "mb_curBytes (mem_Start (mem_new [] [])) = total_bytes [] \<and>
   mb_curBytes (mem_Start (mem_new [] [])) \<le> mb_maxBytes (mem_Start (mem_new [] []))"
  using membox_accounting [of "[MStart]" "[]" "[]" "mem_Start (mem_new [] [])" "[]"]
  by (simp add: mem_op_ok_def mem_Start_def)

text \<open>
  A zettel that a started in-memory box accepts gets an identifier no other zettel had,
  all other zettel stay as they were, and reading it back gives its content and metadata
  under that identifier.
\<close>

lemma membox_create_fresh:
  assumes "gm_inv (pairs (Z_Meta zt))" and "mem_CreateZettel now mb zt = Some (mb', Inr zid)"
  shows "\<not> mem_HasZettel mb zid \<and>
    mem_GetZettel mb' zid = Inr (zt\<lparr>Z_Meta := (Z_Meta zt)\<lparr>m_Zid := zid\<rparr>\<rparr>) \<and>
    (\<forall>y. y \<noteq> zid \<longrightarrow> mem_GetZettel mb' y = mem_GetZettel mb y) \<and>
    mb_notes mb' = mb_notes mb @ [(OnZettel, zid)]"
proof -
  have c: "meta_Clone (Z_Meta zt) = Z_Meta zt" by (rule meta_Clone_id [OF assms(1)])
  have c': "meta_Clone ((Z_Meta zt)\<lparr>m_Zid := zid\<rparr>) = (Z_Meta zt)\<lparr>m_Zid := zid\<rparr>"
    by (rule meta_Clone_id) (simp add: assms(1))
  obtain m where m: "mb_zettel mb = Some m"
      and g: "GetNewZid now (\<lambda>zid. gm_get (mem_map mb) zid = None) = Some (Inr zid)"
      and e: "mb' = mem_notify (mb\<lparr>mb_zettel := Some (gm_put m zid (zt\<lparr>Z_Meta := (Z_Meta zt)\<lparr>m_Zid := zid\<rparr>\<rparr>)),
        mb_curBytes := mb_curBytes mb + int (zettel_Length zt)\<rparr>) zid OnZettel"
    using assms(2) by (auto simp: mem_CreateZettel_def Let_def mem_store_def c split: if_splits option.splits sum.splits)
  have "gm_get m zid = None" using newzid_free [OF g [unfolded GetNewZid_def]] m by (simp add: mem_map_def)
  then show ?thesis unfolding e using m c' by (simp add: mem_HasZettel_def mem_GetZettel_def mem_map_def mem_notify_def)
qed

lemma GetNewZid_first:
  "zid_New (now 0) False = Some zid \<Longrightarrow> testZid zid \<Longrightarrow> GetNewZid now testZid = Some (Inr zid)"
  by (simp add: GetNewZid_def numeral_eq_Suc)

lemma membox_create_fresh_witness:
  "\<exists>mb'. mem_CreateZettel (\<lambda>i ws. zid_String 7) (mem_Start (mem_new [] [])) \<lparr>Z_Meta = meta_New 0, Z_Content = NewContent []\<rparr>
     = Some (mb', Inr 7) \<and> \<not> mem_HasZettel (mem_Start (mem_new [] [])) 7"
proof -
  let ?zt = "\<lparr>Z_Meta = meta_New 0, Z_Content = NewContent []\<rparr>"
  let ?mb = "mem_Start (mem_new [] [])"
  have "Parse (zid_String 7) = Inr 7" by (rule Parse_String) (simp add: IsValid_def maxZid_def)
  then have "GetNewZid (\<lambda>i ws. zid_String 7) (\<lambda>zid. gm_get (mem_map ?mb) zid = None) = Some (Inr 7)"
    by (intro GetNewZid_first) (simp_all add: zid_New_def mem_map_def mem_Start_def)
  moreover have "zettel_Length ?zt = 6" by (simp add: zettel_Length_def meta_New_def content_Length_def NewContent_def)
  ultimately obtain mb' where c: "mem_CreateZettel (\<lambda>i ws. zid_String 7) ?mb ?zt = Some (mb', Inr 7)"
    by (simp add: mem_CreateZettel_def mem_store_def mem_Start_def mem_new_def mem_map_def GetQueryInt_def)
  have "gm_inv (pairs (Z_Meta ?zt))" by (simp add: meta_New_def)
  from membox_create_fresh [OF this c] c show ?thesis by blast
qed

end
