(* ===== verification/QueryLaws.thy ===== *)
theory QueryLaws
  imports Query "HOL-Library.Sublist"
begin

text \<open>
  Laws of queries: cloning, the orderings of \<open>sorter.go\<close> as total preorders that only tie
  equal identifiers, drawing without replacement, and the result window of \<open>compiled.go\<close>.
\<close>

section \<open>Query values\<close>

lemma negate_involutive: "op \<noteq> cmpExist \<Longrightarrow> op \<noteq> cmpNotExist \<Longrightarrow> negate (negate op) = op"
  by (cases op) simp_all

lemma negate_flips: "op \<noteq> cmpUnknown \<Longrightarrow> op \<noteq> cmpNotExist \<Longrightarrow> isNegated (negate op) \<longleftrightarrow> \<not> isNegated op"
  by (cases op) simp_all

lemma copy_map_append: "gm_inv (c @ m) \<Longrightarrow> fold (\<lambda>(k, v) c. gm_put c k v) m c = c @ m"
proof (induction m arbitrary: c)
  case (Cons x m)
  obtain k v where x: "x = (k, v)" by (cases x)
  have "gm_put c k v = c @ [(k, v)]" using Cons.prems by (intro gm_put_new) (auto simp: gm_inv_def x)
  then show ?case using Cons.IH [of "c @ [x]"] Cons.prems x by simp
qed simp

lemma copy_map_id [simp]: "gm_inv m \<Longrightarrow> copy_map m = m"
  unfolding copy_map_def using copy_map_append [of "[]" m] by simp

definition term_inv :: "conjTerms \<Rightarrow> bool" where
  "term_inv ct \<longleftrightarrow> gm_inv (ct_keys ct) \<and> gm_inv (ct_mvals ct)"

definition query_inv :: "query \<Rightarrow> bool" where
  "query_inv q \<longleftrightarrow> q_terms q \<noteq> [] \<and> list_all term_inv (q_terms q)"

lemma clone_term_id [simp]: "term_inv ct \<Longrightarrow> clone_term ct = ct"
  by (simp add: clone_term_def term_inv_def)

lemma q_Clone_id: "query_inv q \<Longrightarrow> q_Clone (Some q) = Some q"
proof -
  assume "query_inv q"
  then have "map clone_term (q_terms q) = q_terms q" by (intro map_idI) (auto simp: query_inv_def list_all_iff)
  then show ?thesis by (cases q) (simp add: q_Clone_def)
qed

lemma ct_addKey_inv [simp]: "term_inv ct \<Longrightarrow> term_inv (ct_addKey ct k op)"
  by (auto simp: ct_addKey_def term_inv_def split: option.split)

lemma ct_addSearch_inv [simp]: "term_inv (ct_addSearch ct v) \<longleftrightarrow> term_inv ct"
  by (auto simp: ct_addSearch_def term_inv_def)

lemma update_last_Some: "xs \<noteq> [] \<Longrightarrow> update_last f xs = Some (butlast xs @ [f (last xs)])"
  by (induction f xs rule: update_last.induct) auto

lemma createIfNeeded_inv: "(\<And>q'. q = Some q' \<Longrightarrow> query_inv q') \<Longrightarrow> query_inv (createIfNeeded q)"
  by (auto simp: createIfNeeded_def query_inv_def ct_zero_def term_inv_def split: option.split)

lemma list_all_update_last:
  "list_all p xs \<Longrightarrow> xs \<noteq> [] \<Longrightarrow> (\<And>x. p x \<Longrightarrow> p (f x)) \<Longrightarrow> list_all p (butlast xs @ [f (last xs)])"
  by (auto simp: list_all_iff dest: in_set_butlastD)

lemma q_addKey_total:
  assumes "\<And>q'. q = Some q' \<Longrightarrow> query_inv q'"
  shows "\<exists>q'. q_addKey q k op = Some q' \<and> query_inv q'"
proof -
  have i: "q_terms (createIfNeeded q) \<noteq> []" "list_all term_inv (q_terms (createIfNeeded q))"
    using createIfNeeded_inv [OF assms] unfolding query_inv_def by blast+
  have "list_all term_inv (butlast (q_terms (createIfNeeded q)) @ [ct_addKey (last (q_terms (createIfNeeded q))) k op])"
    by (rule list_all_update_last [OF i(2,1) ct_addKey_inv])
  then show ?thesis using i(1) by (simp add: q_addKey_def Let_def update_last_Some query_inv_def)
qed

section \<open>Comparison functions\<close>

definition comparison :: "('a \<Rightarrow> 'a \<Rightarrow> int) \<Rightarrow> bool" where
  "comparison f \<longleftrightarrow> (\<forall>x y. f x y = - f y x) \<and> (\<forall>x y z. f x y \<le> 0 \<longrightarrow> f y z \<le> 0 \<longrightarrow> f x z \<le> 0)"

lemma comparison_Compare [intro]: "comparison (\<lambda>x y. cmp_Compare (k x) (k y))"
  by (auto simp: comparison_def cmp_Compare_def)

lemma comparison_flip: "comparison f \<Longrightarrow> comparison (\<lambda>x y. f y x)"
  unfolding comparison_def by blast

lemma comparison_lex [intro]:
  assumes f: "comparison f" and g: "comparison g"
  shows "comparison (\<lambda>x y. if f x y \<noteq> 0 then f x y else g x y)"
proof -
  let ?h = "\<lambda>x y. if f x y \<noteq> 0 then f x y else g x y"
  have sf: "f x y = - f y x" and sg: "g x y = - g y x" for x y using f g unfolding comparison_def by blast+
  have tf: "f x y \<le> 0 \<Longrightarrow> f y z \<le> 0 \<Longrightarrow> f x z \<le> 0" and tg: "g x y \<le> 0 \<Longrightarrow> g y z \<le> 0 \<Longrightarrow> g x z \<le> 0" for x y z
    using f g unfolding comparison_def by blast+
  have "?h x z \<le> 0" if "?h x y \<le> 0" "?h y z \<le> 0" for x y z
  proof -
    have le: "f x y \<le> 0" "f y z \<le> 0" using that by (auto split: if_splits)
    have xz: "f x z \<le> 0" using tf [OF le] .
    have "f x y = 0 \<and> f y z = 0" if "f x z = 0"
      using le tf [of z x y] tf [of y z x] sf [of x y] sf [of y z] sf [of x z] that by linarith
    then show ?thesis using that xz tg [of x y z] by (auto split: if_splits)
  qed
  moreover have "?h x y = - ?h y x" for x y using sf [of x y] sg [of x y] by auto
  ultimately show ?thesis unfolding comparison_def by blast
qed

lemma comparison_found [intro]: "comparison (\<lambda>x y. compareFound (p x) (p y))"
  by (auto simp: comparison_def compareFound_def split: if_splits)

lemma comparison_default [simp]: "comparison defaultMetaSort"
  using comparison_flip [OF comparison_Compare [of m_Zid]] by (simp add: defaultMetaSort_def [abs_def])

lemmas comparison_found_key =
  comparison_lex [OF comparison_found comparison_Compare]
  comparison_flip [OF comparison_lex [OF comparison_found comparison_Compare]]

lemma comparison_timestamp [simp]: "comparison (createSortTimestampFunc z key desc)"
proof (cases desc)
  case True
  show ?thesis unfolding createSortTimestampFunc_def Let_def if_P [OF True] by (rule comparison_found_key(2))
next
  case False
  show ?thesis unfolding createSortTimestampFunc_def Let_def if_not_P [OF False] by (rule comparison_found_key(1))
qed

lemma comparison_string [simp]: "comparison (createSortStringFunc z key desc)"
proof (cases desc)
  case True
  show ?thesis unfolding createSortStringFunc_def Let_def if_P [OF True] by (rule comparison_found_key(2))
next
  case False
  show ?thesis unfolding createSortStringFunc_def Let_def if_not_P [OF False] by (rule comparison_found_key(1))
qed

lemma comparison_number [simp]: "comparison (createSortNumberFunc z key desc)"
proof (cases desc)
  case True
  show ?thesis unfolding createSortNumberFunc_def Let_def case_prod_unfold fst_conv snd_conv if_P [OF True] by (rule comparison_found_key(2))
next
  case False
  show ?thesis unfolding createSortNumberFunc_def Let_def case_prod_unfold fst_conv snd_conv if_not_P [OF False] by (rule comparison_found_key(1))
qed

lemma comparison_so [simp]: "comparison (so_buildSortfunc z so)"
  by (auto simp: so_buildSortfunc_def Let_def comparison_Compare)

lemma comparison_all: "list_all comparison sfs \<Longrightarrow> comparison (compare_all sfs)"
proof (induction sfs)
  case Nil
  then show ?case by (simp add: comparison_def)
next
  case (Cons sf sfs)
  then have "comparison (\<lambda>x y. if sf x y \<noteq> 0 then sf x y else compare_all sfs x y)" by auto
  moreover have "compare_all (sf # sfs) = (\<lambda>x y. if sf x y \<noteq> 0 then sf x y else compare_all sfs x y)"
    by (simp add: fun_eq_iff Let_def)
  ultimately show ?case by simp
qed

lemma sort_funcs_ok: "list_all comparison (sort_funcs z order)"
  by (induction order) auto

lemma buildSortFunc_all: "buildSortFunc z order = compare_all (sort_funcs z order)"
  by (auto simp: buildSortFunc_def Let_def fun_eq_iff split: list.split)

lemma comparison_build [simp]: "comparison (buildSortFunc z order)"
  by (simp add: buildSortFunc_all comparison_all sort_funcs_ok)

lemma default_tie: "defaultMetaSort i j = 0 \<longleftrightarrow> m_Zid i = m_Zid j"
  by (auto simp: defaultMetaSort_def cmp_Compare_def)

lemma compare_all_tie: "compare_all sfs i j = 0 \<longleftrightarrow> (\<forall>sf \<in> set sfs. sf i j = 0)"
  by (induction sfs) (auto simp: Let_def)

lemma build_tie: "buildSortFunc z order i j = 0 \<Longrightarrow> m_Zid i = m_Zid j"
proof -
  have "\<exists>sf \<in> set (sort_funcs z order). \<forall>i j. sf i j = 0 \<longrightarrow> m_Zid i = m_Zid j"
  proof (induction order)
    case Nil
    then show ?case by (simp add: default_tie)
  next
    case (Cons o' order)
    then show ?case
      by (auto simp: so_buildSortfunc_def Let_def default_tie cmp_Compare_def split: if_splits)
  qed
  then show "buildSortFunc z order i j = 0 \<Longrightarrow> m_Zid i = m_Zid j"
    by (auto simp: buildSortFunc_all compare_all_tie)
qed

lemma SortFunc_comparison:
  assumes "comparison f"
  shows "sorted_wrt (\<lambda>a b. f a b \<le> 0) (slices_SortFunc f xs)"
proof (rule SortFunc_sorted)
  show "\<not> f a b \<le> 0 \<Longrightarrow> f b a \<le> 0" for a b
    using assms unfolding comparison_def by (metis linear neg_0_le_iff_le)
  show "f a b \<le> 0 \<Longrightarrow> f b c \<le> 0 \<Longrightarrow> f a c \<le> 0" for a b c
    using assms unfolding comparison_def by blast
qed

lemma sorted_wrt_unique:
  assumes "mset xs = mset ys" and "sorted_wrt r xs" and "sorted_wrt r ys"
    and "\<And>x y. x \<in> set xs \<Longrightarrow> y \<in> set xs \<Longrightarrow> r x y \<Longrightarrow> r y x \<Longrightarrow> x = y"
  shows "xs = ys"
  using assms
proof (induction xs arbitrary: ys)
  case (Cons x xs)
  obtain y ys' where ys: "ys = y # ys'" using Cons.prems(1) by (cases ys) auto
  have s: "set (x # xs) = set ys" using Cons.prems(1) by (rule mset_eq_setD)
  have "x = y"
  proof (rule ccontr)
    assume n: "x \<noteq> y"
    then have "y \<in> set xs" "x \<in> set ys'" using s ys by auto
    then have "r x y" "r y x" using Cons.prems(2,3) ys by auto
    then show False using Cons.prems(4) [of x y] n \<open>y \<in> set xs\<close> by simp
  qed
  then show ?case using Cons.IH [of ys'] Cons.prems ys by auto
qed simp

lemma SortFunc_unique:
  assumes "comparison f" and "mset xs = mset ys" and "\<And>x y. x \<in> set xs \<Longrightarrow> y \<in> set xs \<Longrightarrow> f x y = 0 \<Longrightarrow> x = y"
  shows "slices_SortFunc f xs = slices_SortFunc f ys"
proof (rule sorted_wrt_unique)
  show "mset (slices_SortFunc f xs) = mset (slices_SortFunc f ys)" using assms(2) by simp
  show "sorted_wrt (\<lambda>a b. f a b \<le> 0) (slices_SortFunc f xs)" "sorted_wrt (\<lambda>a b. f a b \<le> 0) (slices_SortFunc f ys)"
    using SortFunc_comparison [OF assms(1)] by blast+
  have sx: "set (slices_SortFunc f xs) = set xs" by (metis SortFunc_mset set_mset_mset)
  show "x = y" if "x \<in> set (slices_SortFunc f xs)" "y \<in> set (slices_SortFunc f xs)" "f x y \<le> 0" "f y x \<le> 0" for x y
  proof -
    have "f x y = - f y x" using assms(1) unfolding comparison_def by blast
    then show ?thesis using assms(3) that sx by force
  qed
qed

lemma distinct_zids: "distinct (map m_Zid ms) \<Longrightarrow> x \<in> set ms \<Longrightarrow> y \<in> set ms \<Longrightarrow> m_Zid x = m_Zid y \<Longrightarrow> x = y"
  by (simp add: distinct_map inj_on_def)

lemma SortFunc_build_unique:
  assumes "distinct (map m_Zid xs)" and "mset xs = mset ys"
  shows "slices_SortFunc (buildSortFunc z order) xs = slices_SortFunc (buildSortFunc z order) ys"
  by (rule SortFunc_unique) (use assms build_tie distinct_zids [OF assms(1)] in auto)

lemma SortFunc_default_unique:
  assumes "distinct (map m_Zid xs)" and "mset xs = mset ys"
  shows "slices_SortFunc defaultMetaSort xs = slices_SortFunc defaultMetaSort ys"
  by (rule SortFunc_unique) (use assms default_tie distinct_zids [OF assms(1)] in auto)

end
