(* ===== verification/QueryResult.thy ===== *)
theory QueryResult
  imports QueryLaws
begin

text \<open>
  The result window of a compiled query (\<open>compiled.go\<close>): which and how many elements
  \<open>AfterSearch\<close> returns, in which order, and that a deterministic query does not depend on the
  order in which the selected metadata arrives.
\<close>

lemma length_SortFunc [simp]: "length (slices_SortFunc f xs) = length xs"
  by (metis SortFunc_mset size_mset)

section \<open>Drawing without replacement\<close>

lemma pick_loop_set:
  assumes "\<And>k n. 0 < n \<Longrightarrow> intN k n < n" and "i + cnt \<le> length order" and "distinct (take (length order - i) order)"
  shows "distinct (pick_loop intN order i cnt) \<and> set (pick_loop intN order i cnt) \<subseteq> set (take (length order - i) order)"
  using assms(2,3)
proof (induction cnt arbitrary: order i)
  case (Suc cnt)
  define l where "l = length order - Suc i"
  have l: "length order - i = Suc l" "Suc l \<le> length order" using Suc.prems(1) by (auto simp: l_def)
  define n where "n = intN i (Suc l)"
  have n: "n \<le> l" using assms(1) [of "Suc l" i] by (simp add: n_def)
  define order' where "order' = order[n := order ! l]"
  have d: "distinct (take (Suc l) order)" using Suc.prems(2) l(1) by simp
  have nth: "take (Suc l) order = take l order @ [order ! l]" using l(2) by (simp add: take_Suc_conv_app_nth)
  have t: "take l order' = (if n = l then take l order else (take l order)[n := order ! l])"
    using n by (auto simp: order'_def take_update_swap list_update_beyond)
  have fresh: "order ! l \<notin> set (take l order)" using d nth by simp
  have on: "order ! n \<in> set (take (Suc l) order)"
    using n l(2) by (metis in_set_conv_nth le_imp_less_Suc length_take min.absorb2 nth_take)
  have "distinct (take l order') \<and> set (take l order') \<subseteq> set (take (Suc l) order) - {order ! n}"
  proof (cases "n = l")
    case True
    then show ?thesis using d nth t fresh by auto
  next
    case False
    then have nl: "n < l" using n by simp
    have dl: "distinct (take l order)" using d nth by simp
    have s: "set ((take l order)[n := order ! l]) = insert (order ! l) (set (take l order) - {take l order ! n})"
      using set_update_distinct [OF dl, of n "order ! l"] nl l(2) by simp
    have "distinct ((take l order)[n := order ! l])" by (rule distinct_list_update [OF dl]) (use fresh in blast)
    moreover have "order ! l \<noteq> order ! n"
      using fresh nl l(2) by (metis Suc_leD in_set_conv_nth length_take min.absorb2 nth_take)
    ultimately show ?thesis using False t s nth nl by auto
  qed
  moreover have "length order' - Suc i = l" by (simp add: order'_def l_def)
  ultimately have IH: "distinct (pick_loop intN order' (Suc i) cnt)"
    "set (pick_loop intN order' (Suc i) cnt) \<subseteq> set (take (Suc l) order) - {order ! n}"
    using Suc.IH [of "Suc i" order'] Suc.prems(1) by (auto simp: order'_def)
  have "pick_loop intN order i (Suc cnt) = order ! n # pick_loop intN order' (Suc i) cnt"
    by (simp add: l(1) Let_def n_def order'_def)
  then show ?case using IH on l(1) by auto
qed simp

lemma length_pick_loop [simp]: "length (pick_loop intN order i cnt) = cnt"
  by (induction cnt arbitrary: order i) (simp_all add: Let_def)

lemma subseq_nths_sorted:
  assumes "distinct is" and "set is \<subseteq> {..<length xs}"
  shows "subseq (map (\<lambda>p. xs ! p) (sort is)) xs"
proof -
  have "sort is = filter (\<lambda>i. i \<in> set is) [0..<length xs]"
    by (rule sorted_distinct_set_unique) (use assms in \<open>auto intro!: sorted_wrt_filter\<close>)
  then have "subseq (sort is) [0..<length xs]" by (simp add: subseq_filter_left)
  then have "subseq (map (\<lambda>p. xs ! p) (sort is)) (map (\<lambda>p. xs ! p) [0..<length xs])" by (rule subseq_map)
  then show ?thesis by (simp add: map_nth)
qed

definition will_pick :: "compiled \<Rightarrow> nat \<Rightarrow> bool" where
  "will_pick c n \<longleftrightarrow> 0 < c_pick c \<and> c_pick c < int n"

definition pick_len :: "compiled \<Rightarrow> nat \<Rightarrow> nat" where
  "pick_len c n = (if \<not> will_pick c n then n
     else if 0 < c_limit c \<and> c_limit c < c_pick c then nat (c_limit c) else nat (c_pick c))"

definition limit_left :: "compiled \<Rightarrow> nat \<Rightarrow> int" where
  "limit_left c n = (if will_pick c n \<and> 0 < c_limit c \<and> c_limit c < c_pick c then 0 else c_limit c)"

definition window_len :: "compiled \<Rightarrow> nat \<Rightarrow> nat" where
  "window_len c n =
     (let w = pick_len c n - nat (c_offset c); l = limit_left c n in if 0 < l then min w (nat l) else w)"

lemma pickElements_facts:
  assumes "rand_ok r"
  shows "subseq (fst (pickElements r c ms)) ms"
    and "length (fst (pickElements r c ms)) = pick_len c (length ms)"
    and "snd (pickElements r c ms) = c\<lparr>c_limit := limit_left c (length ms)\<rparr>"
proof -
  let ?seed = "newRandom r c"
  have s: "newRandom r (c\<lparr>c_limit := l\<rparr>) = ?seed" for l by (simp add: newRandom_def)
  have r: "0 < n \<Longrightarrow> rnd_IntN r ?seed k n < n" for k n using assms by (simp add: rand_ok_def)
  have p: "distinct (pick_loop (rnd_IntN r ?seed) [0..<length ms] 0 k) \<and>
      set (pick_loop (rnd_IntN r ?seed) [0..<length ms] 0 k) \<subseteq> {..<length ms}" if "k \<le> length ms" for k
    using pick_loop_set [of "rnd_IntN r ?seed" 0 k "[0..<length ms]", OF r] that
    by (simp add: atLeast0LessThan)
  define k where "k = pick_len c (length ms)"
  have "pickElements r c ms = (if \<not> will_pick c (length ms) then (ms, c)
     else (map (\<lambda>p. ms ! p) (sort (pick_loop (rnd_IntN r ?seed) [0..<length ms] 0 k)), c\<lparr>c_limit := limit_left c (length ms)\<rparr>))"
    by (auto simp: pickElements_def will_pick_def k_def pick_len_def limit_left_def Let_def s)
  moreover have "k \<le> length ms" by (auto simp: k_def pick_len_def will_pick_def)
  note subseq_nths_sorted [of "pick_loop (rnd_IntN r ?seed) [0..<length ms] 0 k" ms] p [OF this]
  ultimately show "subseq (fst (pickElements r c ms)) ms"
    "length (fst (pickElements r c ms)) = pick_len c (length ms)"
    "snd (pickElements r c ms) = c\<lparr>c_limit := limit_left c (length ms)\<rparr>"
    by (auto simp: k_def pick_len_def limit_left_def)
qed

section \<open>The window\<close>

text \<open>The three phases of \<open>AfterSearch\<close>: arrange, pick, arrange again.\<close>

definition arrange :: "zsc \<Rightarrow> rand \<Rightarrow> compiled \<Rightarrow> meta list \<Rightarrow> meta list" where
  "arrange z r c ms =
     (case c_order c of
        [] \<Rightarrow> ms
      | o' # _ \<Rightarrow> if isRandom o' then sortRandomly r c ms
          else slices_SortFunc (case c_sortFunc c of Some sf \<Rightarrow> sf | None \<Rightarrow> buildSortFunc z (c_order c)) ms)"

definition prearrange :: "zsc \<Rightarrow> compiled \<Rightarrow> meta list \<Rightarrow> meta list" where
  "prearrange z c ms =
     (case c_order c of
        [] \<Rightarrow> slices_SortFunc defaultMetaSort ms
      | o' # _ \<Rightarrow> if isRandom o' then slices_SortFunc defaultMetaSort ms
          else slices_SortFunc (case c_sortFunc c of Some sf \<Rightarrow> sf | None \<Rightarrow> buildSortFunc z (c_order c)) ms)"

definition after_order :: "zsc \<Rightarrow> rand \<Rightarrow> compiled \<Rightarrow> meta list \<Rightarrow> meta list" where
  "after_order z r c ms =
     (if isDeterministic c then
        (let ps = fst (pickElements r c (prearrange z c ms)) in
         case c_order c of [] \<Rightarrow> ps | o' # _ \<Rightarrow> if isRandom o' then sortRandomly r c ps else ps)
      else arrange z r c (fst (pickElements r c ms)))"

lemma sort_state [simp]:
  "c_order (ensureSortFunc z c) = c_order c" "c_pick (ensureSortFunc z c) = c_pick c"
  "c_limit (ensureSortFunc z c) = c_limit c" "c_seed (ensureSortFunc z c) = c_seed c"
  "c_offset (ensureSortFunc z c) = c_offset c"
  "the (c_sortFunc (ensureSortFunc z c)) = (case c_sortFunc c of Some sf \<Rightarrow> sf | None \<Rightarrow> buildSortFunc z (c_order c))"
  by (auto simp: ensureSortFunc_def split: option.split)

lemma pick_ensure: "fst (pickElements r (ensureSortFunc z c) ms) = fst (pickElements r c ms)"
  by (simp add: pickElements_def Let_def newRandom_def)

lemma random_ensure [simp]: "sortRandomly r (ensureSortFunc z c) ms = sortRandomly r c ms"
  "sortRandomly r (c\<lparr>c_limit := l\<rparr>) ms = sortRandomly r c ms"
  by (simp_all add: sortRandomly_def newRandom_def)

lemma prearrange_mset [simp]: "mset (prearrange z c ms) = mset ms"
  by (auto simp: prearrange_def split: list.split)

lemma length_prearrange [simp]: "length (prearrange z c ms) = length ms"
  by (metis prearrange_mset size_mset)

lemma limit_left_ensure [simp]: "limit_left (ensureSortFunc z c) n = limit_left c n"
  by (simp add: limit_left_def will_pick_def)

lemma AfterSearch_eq:
  assumes "rand_ok r" and "c_hasQuery c" and "ms \<noteq> []"
  shows "map_option fst (AfterSearch z r c ms) =
    map_option (\<lambda>res. limitElements res (limit_left c (length ms))) (offsetElements c (after_order z r c ms))"
proof -
  note p = pickElements_facts(3) [OF assms(1)]
  have det: "isDeterministic (c\<lparr>c_limit := l\<rparr>) = isDeterministic c" for l by (simp add: isDeterministic_def)
  have edet: "isDeterministic ((ensureSortFunc z c)\<lparr>c_limit := l\<rparr>) = isDeterministic c" for l by (simp add: isDeterministic_def)
  have off: "offsetElements (c'\<lparr>c_limit := l\<rparr>) xs = offsetElements c' xs"
    "offsetElements (ensureSortFunc z c') xs = offsetElements c' xs" for c' l xs
    by (simp_all add: offsetElements_def)
  have ens: "ensureSortFunc z (c\<lparr>c_limit := l\<rparr>) = (ensureSortFunc z c)\<lparr>c_limit := l\<rparr>" for l
    by (auto simp: ensureSortFunc_def split: option.split)
  show ?thesis
  proof (cases "isDeterministic c")
    case True
    show ?thesis
      using assms(2,3) True
      by (cases "c_order c")
        (auto simp: AfterSearch_def after_order_def prearrange_def Let_def case_prod_unfold p det edet off pick_ensure
          option.map_comp comp_def split del: option.split)
  next
    case False
    show ?thesis
      using assms(2,3) False
      by (cases "c_order c")
        (auto simp: AfterSearch_def after_order_def arrange_def sortElements_def Let_def case_prod_unfold p det off ens
          option.map_comp comp_def split del: option.split)
  qed
qed


lemma sortRandomly_mset: "rand_ok r \<Longrightarrow> mset (sortRandomly r c ms) = mset ms"
  by (simp add: sortRandomly_def rand_ok_def)

lemma subseq_mset: "subseq xs ys \<Longrightarrow> mset xs \<subseteq># mset ys"
  by (induction rule: list_emb.induct) (auto intro: subset_mset.order_trans)

lemma after_order_mset:
  assumes "rand_ok r"
  shows "\<exists>ps. mset (after_order z r c ms) = mset ps \<and> mset ps \<subseteq># mset ms \<and> length ps = pick_len c (length ms)"
proof (cases "isDeterministic c")
  case True
  let ?ps = "fst (pickElements r c (prearrange z c ms))"
  have "mset ?ps \<subseteq># mset (prearrange z c ms)" by (intro subseq_mset pickElements_facts(1) assms)
  moreover have "mset (after_order z r c ms) = mset ?ps"
    using True sortRandomly_mset [OF assms] by (auto simp: after_order_def Let_def split: list.split)
  ultimately show ?thesis using pickElements_facts(2) [OF assms, of c "prearrange z c ms"] by auto
next
  case False
  let ?ps = "fst (pickElements r c ms)"
  have "mset (after_order z r c ms) = mset ?ps"
    using False sortRandomly_mset [OF assms] by (auto simp: after_order_def arrange_def split: list.split)
  then show ?thesis
    using subseq_mset [OF pickElements_facts(1) [OF assms, of c ms]] pickElements_facts(2) [OF assms, of c ms] by auto
qed

lemma mset_take_le: "mset (take i xs) \<subseteq># mset xs"
  by (metis append_take_drop_id mset_append mset_subset_eq_add_left)

lemma mset_drop_le: "mset (drop i xs) \<subseteq># mset xs"
  by (metis append_take_drop_id mset_append mset_subset_eq_add_right)

lemma offset_limit:
  assumes "0 \<le> c_offset c"
  shows "offsetElements c xs = Some (drop (nat (c_offset c)) xs)"
    and "limitElements xs l = (if 0 < l then take (nat l) xs else xs)"
  using assms by (auto simp: offsetElements_def limitElements_def)

text \<open>What \<open>AfterSearch\<close> returns, in one equation.\<close>

lemma AfterSearch_list:
  assumes "rand_ok r" and "c_hasQuery c" and "ms \<noteq> []" and "0 \<le> c_offset c"
  shows "map_option fst (AfterSearch z r c ms) =
    Some (let os = drop (nat (c_offset c)) (after_order z r c ms); l = limit_left c (length ms)
          in if 0 < l then take (nat l) os else os)"
  by (simp add: AfterSearch_eq [OF assms(1-3)] offset_limit [OF assms(4)] Let_def)

text \<open>A generator and a compiled query for the instances below.\<close>

definition first_rand :: rand where
  "first_rand = \<lparr>rnd_IntN = \<lambda>seed k n. 0, rnd_Shuffle = \<lambda>seed. rev, rnd_global = 0\<rparr>"

definition window_query :: "int \<Rightarrow> sortOrder list \<Rightarrow> compiled" where
  "window_query seed order = \<lparr>c_hasQuery = True, c_seed = seed, c_pick = 0, c_order = order, c_offset = 1, c_limit = 1,
     c_startMeta = None, c_PreMatch = matchAlways, c_Terms = [], c_sortFunc = None\<rparr>"

lemma first_rand_ok: "rand_ok first_rand"
  by (simp add: rand_ok_def first_rand_def)

lemma AfterSearch_cut:
  assumes "rand_ok r" and "c_hasQuery c" and "0 \<le> c_offset c" and "ms \<noteq> []"
  shows "\<exists>res c'. AfterSearch z r c ms = Some (res, c') \<and> mset res \<subseteq># mset ms \<and>
    length res = window_len c (length ms)"
proof -
  note l = AfterSearch_list [OF assms(1,2,4,3), of z]
  then obtain res c' where r: "AfterSearch z r c ms = Some (res, c')" by (auto simp: map_option_case split: option.splits)
  obtain ps where ps: "mset (after_order z r c ms) = mset ps" "mset ps \<subseteq># mset ms" "length ps = pick_len c (length ms)"
    using after_order_mset [OF assms(1)] by blast
  have len: "length (after_order z r c ms) = pick_len c (length ms)" using ps by (metis size_mset)
  have res: "res = (let os = drop (nat (c_offset c)) (after_order z r c ms); l = limit_left c (length ms)
      in if 0 < l then take (nat l) os else os)" using l r by simp
  have "mset res \<subseteq># mset (after_order z r c ms)"
    unfolding res Let_def
    using mset_drop_le [of "nat (c_offset c)" "after_order z r c ms"]
      subset_mset.order_trans [OF mset_take_le mset_drop_le] by auto
  then have "mset res \<subseteq># mset ms" using ps subset_mset.order_trans by metis
  moreover have "length res = window_len c (length ms)"
    by (simp add: res Let_def window_len_def len)
  ultimately show ?thesis using r by blast
qed



lemma sorted_wrt_subseq: "subseq xs ys \<Longrightarrow> sorted_wrt p ys \<Longrightarrow> sorted_wrt p xs"
proof (induction rule: list_emb.induct)
  case (list_emb_Cons2 x y xs ys)
  then show ?case using list_emb_set [OF list_emb_Cons2.hyps(2)] by fastforce
qed auto



text \<open>
  C25: The result of a search does not depend on the order in which the selected metadata arrives,
  that is on the iteration of a map, when the query has a seed, or when it has an explicit order
  and picks nothing.
\<close>

theorem AfterSearch_deterministic:
  assumes "rand_ok r" and "c_hasQuery c" and "0 \<le> c_offset c" and "c_sortFunc c = None"
    and "isDeterministic c \<or> (c_pick c \<le> 0 \<and> (\<exists>o' os. c_order c = o' # os \<and> \<not> isRandom o'))"
    and "mset ms = mset ns" and "distinct (map m_Zid ms)"
  shows "map_option fst (AfterSearch z r c ms) = map_option fst (AfterSearch z r c ns)"
proof (cases "ms = []")
  case True
  then show ?thesis using assms(6) by simp
next
  case False
  then have ns: "ns \<noteq> []" using assms(6) by auto
  have len: "length ms = length ns" using assms(6) by (metis size_mset)
  note b = SortFunc_build_unique [OF assms(7,6), of z "c_order c"] and d = SortFunc_default_unique [OF assms(7,6)]
  have "after_order z r c ms = after_order z r c ns"
  proof (cases "isDeterministic c")
    case True
    have "prearrange z c ms = prearrange z c ns" using b d assms(4) by (auto simp: prearrange_def split: list.split)
    then show ?thesis using True by (simp add: after_order_def)
  next
    case n: False
    then have p: "c_pick c \<le> 0" and o: "\<exists>o' os. c_order c = o' # os \<and> \<not> isRandom o'" using assms(5) by auto
    from p have "fst (pickElements r c xs) = xs" for xs by (simp add: pickElements_def Let_def)
    then show ?thesis using n o b assms(4) by (auto simp: after_order_def arrange_def)
  qed
  then show ?thesis
    by (simp add: AfterSearch_list [OF assms(1,2) False assms(3)] AfterSearch_list [OF assms(1,2) ns assms(3)] len)
qed

lemma AfterSearch_deterministic_witness:
  "map_option fst (AfterSearch doc_zsc first_rand (window_query 7 []) [meta_New 3, meta_New 5, meta_New 4]) =
   map_option fst (AfterSearch doc_zsc first_rand (window_query 7 []) [meta_New 4, meta_New 3, meta_New 5])"
  by (rule AfterSearch_deterministic [OF first_rand_ok])
    (auto simp: window_query_def isDeterministic_def meta_New_def)

section \<open>Where the result departs from the documentation\<close>

text \<open>Without an order and without a seed the result keeps the order of the map iteration.\<close>

lemma AfterSearch_unordered:
  assumes "c_hasQuery c" and "c_seed c \<le> 0" and "c_order c = []" and "c_pick c \<le> 0" and "c_offset c = 0" and "c_limit c \<le> 0"
  shows "AfterSearch z r c ms = Some (ms, c)"
  using assms by (simp add: AfterSearch_def isDeterministic_def pickElements_def sortElements_def offsetElements_def limitElements_def Let_def)

text \<open>
  A limit below the number of elements to pick replaces it, so that an offset skips picked
  elements for good: picking ten, skipping five and showing five of them shows nothing.
\<close>

lemma pick_limit_offset_empty:
  assumes "c_pick c = 10" and "c_offset c = 5" and "c_limit c = 5" and "10 < n"
  shows "window_len c n = 0"
  using assms by (simp add: window_len_def pick_len_def will_pick_def limit_left_def)

end
