(* ===== verification/Words.thy ===== *)
theory Words
  imports GoStrings
begin

text \<open>
  Words of texts (\<open>strfun/slugify.go\<close>, \<open>MakeWords\<close> of \<open>strfun/strfun.go\<close>). The compatibility
  decomposition of \<open>golang.org/x/text\<close> and the tables of package \<open>unicode\<close> are a parameter; a rune
  is one character of the string.
\<close>

record unicode =
  norm_NFKD :: "string \<Rightarrow> string"
  is_Diacritic :: "char \<Rightarrow> bool"
  is_LetterNumber :: "char \<Rightarrow> bool"
  is_MarkSkLm :: "char \<Rightarrow> bool"
  is_CPZ :: "char \<Rightarrow> bool"
  unicode_ToLower :: "char \<Rightarrow> char"

fun norm_loop :: "unicode \<Rightarrow> string \<Rightarrow> string \<Rightarrow> string list" where
  "norm_loop u [] word = (if word \<noteq> [] then [word] else [])"
| "norm_loop u (r # rs) word =
     (if is_Diacritic u r then norm_loop u rs word
      else if is_LetterNumber u r then norm_loop u rs (word @ [unicode_ToLower u r])
      else if \<not> is_MarkSkLm u r \<and> word \<noteq> [] then word # norm_loop u rs []
      else norm_loop u rs word)"

definition NormalizeWords :: "unicode \<Rightarrow> string \<Rightarrow> string list" where
  "NormalizeWords u s = norm_loop u (norm_NFKD u s) []"

definition Slugify :: "unicode \<Rightarrow> string \<Rightarrow> string" where
  "Slugify u s = strings_Join (NormalizeWords u s) ''-''"

definition MakeWords :: "unicode \<Rightarrow> string \<Rightarrow> string list" where
  "MakeWords u text = strings_FieldsFunc text (is_CPZ u)"

text \<open>The tables for ASCII text.\<close>

definition ascii_letter_digit :: "char \<Rightarrow> bool" where
  "ascii_letter_digit c \<longleftrightarrow> (48 \<le> byte_code c \<and> byte_code c \<le> 57) \<or> (65 \<le> byte_code c \<and> byte_code c \<le> 90) \<or>
     (97 \<le> byte_code c \<and> byte_code c \<le> 122)"

definition ascii_unicode :: unicode where
  "ascii_unicode = \<lparr>norm_NFKD = \<lambda>s. s, is_Diacritic = \<lambda>c. c = CHR 0x5E \<or> c = CHR 0x60, is_LetterNumber = ascii_letter_digit,
     is_MarkSkLm = \<lambda>c. c = CHR 0x5E \<or> c = CHR 0x60, is_CPZ = \<lambda>c. \<not> ascii_letter_digit c, unicode_ToLower = lower_char\<rparr>"

lemma norm_loop_nonempty: "w \<in> set (norm_loop u rs word) \<Longrightarrow> w \<noteq> []"
  by (induction u rs word rule: norm_loop.induct) (auto split: if_splits)

lemma norm_loop_chars:
  "w \<in> set (norm_loop u rs word) \<Longrightarrow> c \<in> set w \<Longrightarrow>
   c \<in> set word \<or> c \<in> unicode_ToLower u ` {r. is_LetterNumber u r \<and> \<not> is_Diacritic u r}"
proof (induction u rs word rule: norm_loop.induct)
  case (2 u r rs word)
  show ?case
  proof (cases "\<not> is_Diacritic u r \<and> is_LetterNumber u r")
    case True
    then have "c \<in> set (word @ [unicode_ToLower u r]) \<or> c \<in> unicode_ToLower u ` {r. is_LetterNumber u r \<and> \<not> is_Diacritic u r}"
      using 2 by simp
    then show ?thesis using True by auto
  next
    case False
    then show ?thesis using 2 by (auto split: if_splits)
  qed
qed (auto split: if_splits)

text \<open>Words are not empty and consist of lower-case letters and numbers of the text.\<close>

lemma NormalizeWords_words:
  assumes "w \<in> set (NormalizeWords u s)"
  shows "w \<noteq> []" and "set w \<subseteq> unicode_ToLower u ` {r. is_LetterNumber u r \<and> \<not> is_Diacritic u r}"
  using norm_loop_nonempty norm_loop_chars [of w u _ "[]"] assms unfolding NormalizeWords_def by auto

lemma norm_loop_letters:
  assumes "\<forall>r \<in> set rs. is_LetterNumber u r \<and> \<not> is_Diacritic u r"
  shows "norm_loop u rs word = (if word @ rs = [] then [] else [word @ map (unicode_ToLower u) rs])"
  using assms by (induction u rs word rule: norm_loop.induct) auto

end
