(* ===== verification/Retrieve.thy ===== *)
theory Retrieve
  imports IdSet Query Words
begin

text \<open>
  The full-text part of a query: \<open>query/retrieve.go\<close> and \<open>retrieveIndex\<close> of \<open>query/query.go\<close>.
  Search calls are collected in maps that leave out calls another one subsumes, and the results
  of the index are intersected for positive and united for negative searches. An outer option is
  the panic of an unexpected comparison operation.
\<close>

section \<open>Search calls\<close>

record searchOp =
  op_s :: string
  op_op :: compareOp

type_synonym searchFunc = "string \<Rightarrow> idset"

type_synonym searchCallMap = "(searchOp, searchFunc) gomap"

record searcher =
  srch_Equal :: searchFunc
  srch_Prefix :: searchFunc
  srch_Suffix :: searchFunc
  srch_Contains :: searchFunc

definition stringEqual :: "string \<Rightarrow> string \<Rightarrow> bool" where
  "stringEqual val1 val2 \<longleftrightarrow> val1 = val2"

fun cmpPred :: "compareOp \<Rightarrow> (string \<Rightarrow> string \<Rightarrow> bool) option" where
  "cmpPred cmpEqual = Some stringEqual"
| "cmpPred cmpPrefix = Some strings_HasPrefix"
| "cmpPred cmpSuffix = Some strings_HasSuffix"
| "cmpPred cmpMatch = Some strings_Contains"
| "cmpPred cmpHas = Some strings_Contains"
| "cmpPred cmpLess = Some strings_Contains"
| "cmpPred cmpGreater = Some strings_Contains"
| "cmpPred _ = None"

text \<open>
  The loop of \<open>addSearch\<close> over the keys of the map, in the order the iteration visits them. The
  flag tells whether the loop returned without adding the call.
\<close>

fun add_search_loop :: "string \<Rightarrow> compareOp \<Rightarrow> searchOp list \<Rightarrow> searchCallMap \<Rightarrow> (searchCallMap \<times> bool) option" where
  "add_search_loop s op [] scm = Some (scm, False)"
| "add_search_loop s op (k # ks) scm =
     (if op = cmpMatch \<and> strings_Contains (op_s k) s then Some (scm, True)
      else if op = cmpMatch \<and> strings_Contains s (op_s k) then Some (gm_delete scm k, False)
      else if op_op k \<noteq> op then add_search_loop s op ks scm
      else case cmpPred op of
          None \<Rightarrow> None
        | Some pred \<Rightarrow>
            if pred (op_s k) s then Some (scm, True)
            else if pred s (op_s k) then add_search_loop s op ks (gm_delete scm k)
            else add_search_loop s op ks scm)"

text \<open>
  \<open>visit\<close> is the order in which a \<open>range\<close> loop visits the keys of a map, which Go leaves open and
  chooses anew for every loop. Where several loops run, \<open>visit i\<close> is the order of loop \<open>i\<close>: the
  loops over plain, normalised and negative calls are 0, 1 and 2, the loops of \<open>addSearch\<close> follow.
\<close>

definition scm_addSearch :: "(searchOp list \<Rightarrow> searchOp list) \<Rightarrow> searchCallMap \<Rightarrow> string \<Rightarrow> compareOp \<Rightarrow> searchFunc \<Rightarrow> searchCallMap option" where
  "scm_addSearch visit scm s op sf =
     (case add_search_loop s op (visit (gm_keys scm)) scm of
        None \<Rightarrow> None
      | Some (scm, returned) \<Rightarrow> Some (if returned then scm else gm_put scm \<lparr>op_s = s, op_op = op\<rparr> sf))"

fun getSearchFunc :: "searcher \<Rightarrow> compareOp \<Rightarrow> searchFunc option" where
  "getSearchFunc sr cmpEqual = Some (srch_Equal sr)"
| "getSearchFunc sr cmpPrefix = Some (srch_Prefix sr)"
| "getSearchFunc sr cmpSuffix = Some (srch_Suffix sr)"
| "getSearchFunc sr cmpMatch = Some (srch_Contains sr)"
| "getSearchFunc sr cmpHas = Some (srch_Contains sr)"
| "getSearchFunc sr cmpLess = Some (srch_Contains sr)"
| "getSearchFunc sr cmpGreater = Some (srch_Contains sr)"
| "getSearchFunc sr _ = None"

text \<open>One call of \<open>prepareRetrieveCalls\<close>: into the map of negative or of positive calls.\<close>

definition add_call :: "(searchOp list \<Rightarrow> searchOp list) \<Rightarrow> searcher \<Rightarrow> string \<Rightarrow> compareOp \<Rightarrow>
    searchCallMap \<times> searchCallMap \<Rightarrow> (searchCallMap \<times> searchCallMap) option" where
  "add_call visit sr word cmpOp = (\<lambda>(posCalls, negCalls).
     if isNegated cmpOp then
       (let cmpOp = negate cmpOp in
        case getSearchFunc sr cmpOp of
          None \<Rightarrow> None
        | Some sf \<Rightarrow> map_option (\<lambda>n. (posCalls, n)) (scm_addSearch visit negCalls word cmpOp sf))
     else
       (case getSearchFunc sr cmpOp of
          None \<Rightarrow> None
        | Some sf \<Rightarrow> map_option (\<lambda>p. (p, negCalls)) (scm_addSearch visit posCalls word cmpOp sf)))"

primrec fold_option :: "('a \<Rightarrow> 's \<Rightarrow> 's option) \<Rightarrow> 'a list \<Rightarrow> 's \<Rightarrow> 's option" where
  "fold_option f [] s = Some s"
| "fold_option f (x # xs) s = Option.bind (f x s) (fold_option f xs)"

definition norm_calls :: "unicode \<Rightarrow> expValue list \<Rightarrow> (string \<times> compareOp) list" where
  "norm_calls u search = concat (map (\<lambda>v. map (\<lambda>word. (word, ev_op v)) (NormalizeWords u (ev_value v))) search)"

definition plain_calls :: "expValue list \<Rightarrow> (string \<times> compareOp) list" where
  "plain_calls search = map (\<lambda>v. (strings_ToLower (strings_TrimSpace (ev_value v)), ev_op v)) search"

definition add_calls :: "(nat \<Rightarrow> searchOp list \<Rightarrow> searchOp list) \<Rightarrow> searcher \<Rightarrow> nat \<Rightarrow> (string \<times> compareOp) list \<Rightarrow>
    searchCallMap \<times> searchCallMap \<Rightarrow> (searchCallMap \<times> searchCallMap) option" where
  "add_calls visit sr k calls = fold_option (\<lambda>(i, word, op). add_call (visit i) sr word op) (enumerate k calls)"

definition prepareRetrieveCalls :: "unicode \<Rightarrow> (nat \<Rightarrow> searchOp list \<Rightarrow> searchOp list) \<Rightarrow> searcher \<Rightarrow> expValue list \<Rightarrow>
    (searchCallMap \<times> searchCallMap \<times> searchCallMap) option" where
  "prepareRetrieveCalls u visit sr search =
     Option.bind (add_calls visit sr 3 (norm_calls u search) ([], []))
       (\<lambda>(normCalls, negCalls).
          map_option (\<lambda>(plainCalls, negCalls). (normCalls, plainCalls, negCalls))
            (add_calls visit sr (3 + length (norm_calls u search)) (plain_calls search) ([], negCalls)))"

definition hasConflictingCalls :: "searchCallMap \<Rightarrow> searchCallMap \<Rightarrow> searchCallMap \<Rightarrow> bool" where
  "hasConflictingCalls normCalls plainCalls negCalls \<longleftrightarrow>
     list_ex (\<lambda>val. gm_get normCalls val \<noteq> None \<or> gm_get plainCalls val \<noteq> None) (gm_keys negCalls)"

definition isSuperset :: "searchCallMap \<Rightarrow> searchCallMap \<Rightarrow> bool" where
  "isSuperset normCalls plainCalls \<longleftrightarrow> list_all (\<lambda>c. gm_get normCalls c \<noteq> None) (gm_keys plainCalls)"

section \<open>Results\<close>

text \<open>
  The results are pointers to sets that \<open>IntersectOrSet\<close> and \<open>IUnion\<close> change in place, and the
  cache of \<open>retrievePositives\<close> shares them: the sets are objects of a heap. Every search of the
  index returns a new set.
\<close>

type_synonym set_heap = "zid list list"

type_synonym set_ptr = "nat option"

definition heap_new :: "set_heap \<Rightarrow> idset \<Rightarrow> set_heap \<times> set_ptr" where
  "heap_new h s = (case s of None \<Rightarrow> (h, None) | Some seq \<Rightarrow> (h @ [seq], Some (length h)))"

definition heap_read :: "set_heap \<Rightarrow> set_ptr \<Rightarrow> idset" where
  "heap_read h = map_option ((!) h)"

definition heap_IntersectOrSet :: "set_heap \<Rightarrow> set_ptr \<Rightarrow> set_ptr \<Rightarrow> set_heap \<times> set_ptr" where
  "heap_IntersectOrSet h s other =
     (case (s, other) of
        (Some p, Some q) \<Rightarrow> (h[p := the (Set_IntersectOrSet (Some (h ! p)) (Some (h ! q)))], Some p)
      | _ \<Rightarrow> (h, other))"

definition heap_IUnion :: "set_heap \<Rightarrow> set_ptr \<Rightarrow> set_ptr \<Rightarrow> set_heap \<times> set_ptr" where
  "heap_IUnion h s other =
     (case s of
        None \<Rightarrow> heap_new h (Set_IUnion None (heap_read h other))
      | Some p \<Rightarrow> (h[p := the (Set_IUnion (Some (h ! p)) (heap_read h other))], Some p))"

type_synonym searchResults = "(searchOp, set_ptr) gomap"

text \<open>The entries of a map in the order a \<open>range\<close> loop visits them.\<close>

definition visited :: "(searchOp list \<Rightarrow> searchOp list) \<Rightarrow> searchCallMap \<Rightarrow> (searchOp \<times> searchFunc) list" where
  "visited visit scm = map (\<lambda>c. (c, the (gm_get scm c))) (visit (gm_keys scm))"

definition plain_step :: "searchCallMap \<Rightarrow> searchOp \<times> searchFunc \<Rightarrow> set_heap \<times> searchResults \<times> set_ptr \<Rightarrow>
    set_heap \<times> searchResults \<times> set_ptr" where
  "plain_step normCalls = (\<lambda>(c, sf) (h, cache, plainResult).
     let (h, result) = heap_new h (sf (op_s c));
         cache = (if gm_get normCalls c \<noteq> None then gm_put cache c result else cache);
         (h, plainResult) = heap_IntersectOrSet h plainResult result
     in (h, cache, plainResult))"

definition norm_step :: "searchResults \<Rightarrow> searchOp \<times> searchFunc \<Rightarrow> set_heap \<times> set_ptr \<Rightarrow> set_heap \<times> set_ptr" where
  "norm_step cache = (\<lambda>(c, sf) (h, normResult).
     case gm_get cache c of
       Some result \<Rightarrow> heap_IntersectOrSet h normResult result
     | None \<Rightarrow> (let (h, result) = heap_new h (sf (op_s c)) in heap_IntersectOrSet h normResult result))"

definition retrievePositives :: "(nat \<Rightarrow> searchOp list \<Rightarrow> searchOp list) \<Rightarrow> searchCallMap \<Rightarrow> searchCallMap \<Rightarrow> idset" where
  "retrievePositives visit normCalls plainCalls =
     (if isSuperset normCalls plainCalls then
        (let (h, normResult) = fold (norm_step []) (visited (visit 1) normCalls) ([], None) in heap_read h normResult)
      else
        let (h, cache, plainResult) = fold (plain_step normCalls) (visited (visit 0) plainCalls) ([], [], None);
            (h, normResult) = fold (norm_step cache) (visited (visit 1) normCalls) (h, None);
            (h, result) = heap_IUnion h normResult plainResult
        in heap_read h result)"

definition retrieveNegatives :: "(searchOp list \<Rightarrow> searchOp list) \<Rightarrow> searchCallMap \<Rightarrow> idset" where
  "retrieveNegatives visit negCalls = fold (\<lambda>(val, sf) negatives. Set_IUnion negatives (sf (op_s val))) (visited visit negCalls) None"

text \<open>\<open>Some None\<close> is the predicate \<open>nil\<close> of a query without search.\<close>

definition retrieveIndex :: "unicode \<Rightarrow> (nat \<Rightarrow> searchOp list \<Rightarrow> searchOp list) \<Rightarrow> searcher \<Rightarrow> expValue list \<Rightarrow>
    (zid \<Rightarrow> bool) option option" where
  "retrieveIndex u visit sr search =
     (if search = [] then Some None
      else case prepareRetrieveCalls u visit sr search of
          None \<Rightarrow> None
        | Some (normCalls, plainCalls, negCalls) \<Rightarrow> Some (Some
            (if hasConflictingCalls normCalls plainCalls negCalls then neverIncluded
             else let positives = retrievePositives visit normCalls plainCalls in
               if positives = None then
                 (let negatives = retrieveNegatives (visit 2) negCalls in (\<lambda>zid. \<not> Set_ContainsOrNil negatives zid))
               else if Set_IsEmpty positives then neverIncluded
               else if negCalls = [] then (\<lambda>zid. Set_Contains positives zid)
               else (let negatives = retrieveNegatives (visit 2) negCalls in
                  if negatives = None then (\<lambda>zid. Set_Contains positives zid)
                  else (\<lambda>zid. Set_Contains positives zid \<and> \<not> Set_ContainsOrNil negatives zid)))))"

end
