(* ===== verification/RetrieveLaws.thy ===== *)
theory RetrieveLaws
  imports Retrieve
begin

text \<open>
  Which zettel a full-text search retrieves. The interface \<open>query.Searcher\<close> is a locale: its laws
  say that a longer search string finds less; the laws carry the subsumption tests of
  \<open>addSearch\<close>.
\<close>

section \<open>Sets of search calls\<close>

definition finds :: "searcher \<Rightarrow> searchOp \<Rightarrow> zid set" where
  "finds sr c = (case getSearchFunc sr (op_op c) of Some f \<Rightarrow> elems (f (op_s c)) | None \<Rightarrow> {})"

definition all_hits :: "searcher \<Rightarrow> searchCallMap \<Rightarrow> zid set" where
  "all_hits sr scm = {z. \<forall>c \<in> set (gm_keys scm). z \<in> finds sr c}"

definition any_hit :: "searcher \<Rightarrow> searchCallMap \<Rightarrow> zid set" where
  "any_hit sr scm = {z. \<exists>c \<in> set (gm_keys scm). z \<in> finds sr c}"

definition contains_like :: "compareOp set" where
  "contains_like = {cmpMatch, cmpHas, cmpLess, cmpGreater}"

definition searchable :: "compareOp set" where
  "searchable = {cmpEqual, cmpPrefix, cmpSuffix} \<union> contains_like"

text \<open>A substring operation may not meet operations of another kind.\<close>

definition mix_ok :: "compareOp set \<Rightarrow> bool" where
  "mix_ok ops \<longleftrightarrow> (cmpMatch \<in> ops \<longrightarrow> ops \<subseteq> contains_like)"

lemma mix_ok_sub: "s \<subseteq> t \<Longrightarrow> mix_ok t \<Longrightarrow> mix_ok s"
  unfolding mix_ok_def by blast

definition visit_ok :: "(searchOp list \<Rightarrow> searchOp list) \<Rightarrow> bool" where
  "visit_ok visit \<longleftrightarrow> (\<forall>ks. mset (visit ks) = mset ks)"

lemma visit_set: "visit_ok visit \<Longrightarrow> set (visit ks) = set ks \<and> (distinct ks \<longrightarrow> distinct (visit ks))"
  unfolding visit_ok_def by (metis mset_eq_imp_distinct_iff mset_eq_setD)

text \<open>The test by which \<open>addSearch\<close> relates a new call to one in the map.\<close>

definition touches :: "searchOp \<Rightarrow> searchOp \<Rightarrow> bool" where
  "touches c k \<longleftrightarrow>
     (op_op c = cmpMatch \<and> (strings_Contains (op_s k) (op_s c) \<or> strings_Contains (op_s c) (op_s k))) \<or>
     (op_op k = op_op c \<and> (\<exists>pred. cmpPred (op_op c) = Some pred \<and> (pred (op_s k) (op_s c) \<or> pred (op_s c) (op_s k))))"

lemma searchable_defined:
  "op \<in> searchable \<Longrightarrow> (\<exists>pred. cmpPred op = Some pred) \<and> (\<exists>sf. getSearchFunc sr op = Some sf)"
  by (auto simp: searchable_def contains_like_def)

lemma pred_refl: "cmpPred op = Some pred \<Longrightarrow> pred s s"
  by (cases op) (auto simp: stringEqual_def strings_HasPrefix_def strings_HasSuffix_def strings_Contains_def)

locale index_searcher =
  fixes ok :: "'s \<Rightarrow> bool" and sr :: "'s \<Rightarrow> searcher" and weak :: "string \<Rightarrow> bool"
  assumes Equal_set: "ok s \<Longrightarrow> set_inv (srch_Equal (sr s) w) \<and> srch_Equal (sr s) w \<noteq> None"
    and Prefix_set: "ok s \<Longrightarrow> set_inv (srch_Prefix (sr s) w) \<and> srch_Prefix (sr s) w \<noteq> None"
    and Suffix_set: "ok s \<Longrightarrow> set_inv (srch_Suffix (sr s) w) \<and> srch_Suffix (sr s) w \<noteq> None"
    and Contains_set: "ok s \<Longrightarrow> set_inv (srch_Contains (sr s) w) \<and> srch_Contains (sr s) w \<noteq> None"
    and Prefix_anti: "ok s \<Longrightarrow> \<not> weak p \<Longrightarrow> prefix p w \<Longrightarrow> elems (srch_Prefix (sr s) w) \<subseteq> elems (srch_Prefix (sr s) p)"
    and Suffix_anti: "ok s \<Longrightarrow> \<not> weak p \<Longrightarrow> suffix p w \<Longrightarrow> elems (srch_Suffix (sr s) w) \<subseteq> elems (srch_Suffix (sr s) p)"
    and Contains_anti: "ok s \<Longrightarrow> \<not> weak p \<Longrightarrow> sublist p w \<Longrightarrow> elems (srch_Contains (sr s) w) \<subseteq> elems (srch_Contains (sr s) p)"
    and Equal_Contains: "ok s \<Longrightarrow> \<not> weak p \<Longrightarrow> elems (srch_Equal (sr s) p) \<subseteq> elems (srch_Contains (sr s) p)"
    and Prefix_Contains: "ok s \<Longrightarrow> \<not> weak p \<Longrightarrow> elems (srch_Prefix (sr s) p) \<subseteq> elems (srch_Contains (sr s) p)"
    and Suffix_Contains: "ok s \<Longrightarrow> \<not> weak p \<Longrightarrow> elems (srch_Suffix (sr s) p) \<subseteq> elems (srch_Contains (sr s) p)"
begin

lemma search_set:
  assumes "ok s" and "getSearchFunc (sr s) op = Some f"
  shows "set_inv (f w) \<and> f w \<noteq> None"
  using assms Equal_set Prefix_set Suffix_set Contains_set by (cases op) auto

lemma pred_hit:
  assumes "ok s" and "cmpPred op = Some pred" and "pred a b" and "\<not> weak b"
  shows "finds (sr s) \<lparr>op_s = a, op_op = op\<rparr> \<subseteq> finds (sr s) \<lparr>op_s = b, op_op = op\<rparr>"
  using assms Prefix_anti [OF assms(1,4), of a] Suffix_anti [OF assms(1,4), of a] Contains_anti [OF assms(1,4), of a]
  by (cases op) (auto simp: finds_def stringEqual_def strings_HasPrefix_def strings_HasSuffix_def strings_Contains_def)

lemma contains_hit:
  assumes "ok s" and "\<not> weak a" and "\<not> weak b" and "strings_Contains a b"
  shows "finds (sr s) \<lparr>op_s = a, op_op = op\<rparr> \<subseteq> finds (sr s) \<lparr>op_s = b, op_op = cmpMatch\<rparr>"
proof -
  have c: "elems (srch_Contains (sr s) a) \<subseteq> elems (srch_Contains (sr s) b)"
    using Contains_anti [OF assms(1,3)] assms(4) by (simp add: strings_Contains_def)
  show ?thesis
    using c Equal_Contains [OF assms(1,2)] Prefix_Contains [OF assms(1,2)] Suffix_Contains [OF assms(1,2)]
    by (cases op) (auto simp: finds_def)
qed

lemma contains_like_hit:
  "op \<in> contains_like \<Longrightarrow> finds (sr s) \<lparr>op_s = a, op_op = op\<rparr> = finds (sr s) \<lparr>op_s = a, op_op = cmpMatch\<rparr>"
  by (auto simp: contains_like_def finds_def)

definition scm_ok :: "'s \<Rightarrow> searchCallMap \<Rightarrow> bool" where
  "scm_ok s scm \<longleftrightarrow> gm_inv scm \<and>
     (\<forall>c f. gm_get scm c = Some f \<longrightarrow> getSearchFunc (sr s) (op_op c) = Some f \<and> \<not> weak (op_s c))"

lemma scm_ok_key: "scm_ok s scm \<Longrightarrow> k \<in> set (gm_keys scm) \<Longrightarrow> \<not> weak (op_s k)"
  using gm_key_get [of k scm] by (auto simp: scm_ok_def)

lemma scm_ok_delete: "scm_ok s scm \<Longrightarrow> scm_ok s (gm_delete scm k)"
  by (simp add: scm_ok_def)

lemma scm_ok_put:
  assumes "scm_ok s scm" and "getSearchFunc (sr s) (op_op c) = Some f" and "\<not> weak (op_s c)"
  shows "scm_ok s (gm_put scm c f)"
  using assms by (simp add: scm_ok_def)

text \<open>What the loop of \<open>addSearch\<close> removes, and when it returns.\<close>

lemma add_search_loop_facts:
  assumes "ok s" and "op \<in> searchable" and "\<not> weak w" and "scm_ok s scm" and "distinct ks" and "set ks \<subseteq> set (gm_keys scm)"
    and "mix_ok (insert op (op_op ` set (gm_keys scm)))"
  shows "\<exists>scm' ret D. add_search_loop w op ks scm = Some (scm', ret) \<and> scm_ok s scm' \<and>
    set (gm_keys scm') = set (gm_keys scm) - D \<and> D \<subseteq> set ks \<and>
    (\<forall>d \<in> D. finds (sr s) \<lparr>op_s = w, op_op = op\<rparr> \<subseteq> finds (sr s) d) \<and>
    (ret \<longrightarrow> (\<exists>k \<in> set ks - D. finds (sr s) k \<subseteq> finds (sr s) \<lparr>op_s = w, op_op = op\<rparr>))"
  using assms(4-7)
proof (induction ks arbitrary: scm)
  case Nil
  then show ?case by (intro exI [of _ scm] exI [of _ False] exI [of _ "{}"]) simp
next
  case (Cons k ks)
  let ?c = "\<lparr>op_s = w, op_op = op\<rparr>"
  have k: "k \<in> set (gm_keys scm)" and nk: "k \<notin> set ks" using Cons.prems by auto
  have wk: "\<not> weak (op_s k)" by (rule scm_ok_key [OF Cons.prems(1) k])
  have kk: "\<lparr>op_s = op_s k, op_op = op_op k\<rparr> = k" by simp
  show ?case
  proof (cases "op = cmpMatch \<and> strings_Contains (op_s k) w")
    case True
    then have "finds (sr s) k \<subseteq> finds (sr s) ?c" using contains_hit [OF assms(1) wk assms(3), of "op_op k"] kk by simp
    then show ?thesis using True Cons.prems(1) by (intro exI [of _ scm] exI [of _ True] exI [of _ "{}"]) simp
  next
    case m1: False
    show ?thesis
    proof (cases "op = cmpMatch \<and> strings_Contains w (op_s k)")
      case True
      then have "op_op k \<in> contains_like" using Cons.prems(4) k by (auto simp: mix_ok_def)
      then have "finds (sr s) ?c \<subseteq> finds (sr s) k"
        using contains_hit [OF assms(1,3) wk, of op] True contains_like_hit [of "op_op k" s "op_s k"] kk by simp
      then show ?thesis using True m1 scm_ok_delete [OF Cons.prems(1)]
        by (intro exI [of _ "gm_delete scm k"] exI [of _ False] exI [of _ "{k}"]) auto
    next
      case m2: False
      have mix: "mix_ok (insert op (op_op ` set (gm_keys (gm_delete scm k))))"
        using Cons.prems(4) by (auto simp: mix_ok_def)
      have rest: "distinct ks" "set ks \<subseteq> set (gm_keys scm)" "set ks \<subseteq> set (gm_keys (gm_delete scm k))"
        using Cons.prems nk by auto
      note skip = Cons.IH [OF Cons.prems(1) rest(1,2) Cons.prems(4)]
      note del = Cons.IH [OF scm_ok_delete [OF Cons.prems(1)] rest(1,3) mix]
      show ?thesis
      proof (cases "op_op k \<noteq> op")
        case True
        obtain scm' ret D where r: "add_search_loop w op ks scm = Some (scm', ret)" "scm_ok s scm'"
            "set (gm_keys scm') = set (gm_keys scm) - D" "D \<subseteq> set ks" "\<forall>d \<in> D. finds (sr s) ?c \<subseteq> finds (sr s) d"
            "ret \<longrightarrow> (\<exists>k \<in> set ks - D. finds (sr s) k \<subseteq> finds (sr s) ?c)" using skip by blast
        then show ?thesis using True m1 m2 by (intro exI [of _ scm'] exI [of _ ret] exI [of _ D]) auto
      next
        case same: False
        obtain pred where p: "cmpPred op = Some pred" using searchable_defined [OF assms(2)] by blast
        have kop: "\<lparr>op_s = op_s k, op_op = op\<rparr> = k" using same by simp
        show ?thesis
        proof (cases "pred (op_s k) w")
          case True
          then have "finds (sr s) k \<subseteq> finds (sr s) ?c" using pred_hit [OF assms(1) p True assms(3)] kop by simp
          then show ?thesis using True p same m1 m2 Cons.prems(1)
            by (intro exI [of _ scm] exI [of _ True] exI [of _ "{}"]) auto
        next
          case np: False
          show ?thesis
          proof (cases "pred w (op_s k)")
            case True
            then have h: "finds (sr s) ?c \<subseteq> finds (sr s) k" using pred_hit [OF assms(1) p True wk] kop by simp
            obtain scm' ret D where r: "add_search_loop w op ks (gm_delete scm k) = Some (scm', ret)" "scm_ok s scm'"
                "set (gm_keys scm') = set (gm_keys (gm_delete scm k)) - D" "D \<subseteq> set ks" "\<forall>d \<in> D. finds (sr s) ?c \<subseteq> finds (sr s) d"
                "ret \<longrightarrow> (\<exists>k \<in> set ks - D. finds (sr s) k \<subseteq> finds (sr s) ?c)" using del by blast
            then show ?thesis using True np p same m1 m2 h nk
              by (intro exI [of _ scm'] exI [of _ ret] exI [of _ "insert k D"]) auto
          next
            case False
            obtain scm' ret D where r: "add_search_loop w op ks scm = Some (scm', ret)" "scm_ok s scm'"
                "set (gm_keys scm') = set (gm_keys scm) - D" "D \<subseteq> set ks" "\<forall>d \<in> D. finds (sr s) ?c \<subseteq> finds (sr s) d"
                "ret \<longrightarrow> (\<exists>k \<in> set ks - D. finds (sr s) k \<subseteq> finds (sr s) ?c)" using skip by blast
            then show ?thesis using False np p same m1 m2 by (intro exI [of _ scm'] exI [of _ ret] exI [of _ D]) auto
          qed
        qed
      qed
    qed
  qed
qed

lemma scm_addSearch_facts:
  assumes "ok s" and "visit_ok visit" and "op \<in> searchable" and "\<not> weak w" and "scm_ok s scm"
    and "mix_ok (insert op (op_op ` set (gm_keys scm)))" and "getSearchFunc (sr s) op = Some sf"
  shows "\<exists>scm'. scm_addSearch visit scm w op sf = Some scm' \<and> scm_ok s scm' \<and> scm' \<noteq> [] \<and>
    all_hits (sr s) scm' = all_hits (sr s) scm \<inter> finds (sr s) \<lparr>op_s = w, op_op = op\<rparr> \<and>
    set (gm_keys scm') \<subseteq> insert \<lparr>op_s = w, op_op = op\<rparr> (set (gm_keys scm))"
proof -
  let ?c = "\<lparr>op_s = w, op_op = op\<rparr>" and ?ks = "visit (gm_keys scm)"
  have ks: "distinct ?ks" "set ?ks = set (gm_keys scm)"
    using visit_set [OF assms(2), of "gm_keys scm"] assms(5) by (auto simp: scm_ok_def gm_inv_def)
  obtain m ret D where r: "add_search_loop w op ?ks scm = Some (m, ret)" "scm_ok s m"
      "set (gm_keys m) = set (gm_keys scm) - D" "D \<subseteq> set ?ks" "\<forall>d \<in> D. finds (sr s) ?c \<subseteq> finds (sr s) d"
      "ret \<longrightarrow> (\<exists>k \<in> set ?ks - D. finds (sr s) k \<subseteq> finds (sr s) ?c)"
    using add_search_loop_facts [OF assms(1,3,4,5) ks(1) _ assms(6)] ks(2) by blast
  have keep: "all_hits (sr s) scm \<inter> finds (sr s) ?c = all_hits (sr s) m \<inter> finds (sr s) ?c"
    using r(3,5) by (auto simp: all_hits_def)
  show ?thesis
  proof (cases ret)
    case True
    then obtain k where k: "k \<in> set (gm_keys m)" "finds (sr s) k \<subseteq> finds (sr s) ?c" using r(3,6) ks(2) by blast
    then have "all_hits (sr s) m \<subseteq> finds (sr s) ?c" by (auto simp: all_hits_def)
    then show ?thesis using r True keep k(1) by (auto simp: scm_addSearch_def)
  next
    case False
    then have "scm_addSearch visit scm w op sf = Some (gm_put m ?c sf)" using r(1) by (simp add: scm_addSearch_def)
    moreover have "all_hits (sr s) (gm_put m ?c sf) = all_hits (sr s) m \<inter> finds (sr s) ?c" by (auto simp: all_hits_def)
    ultimately show ?thesis using scm_ok_put [OF r(2), of ?c sf] assms(4,7) keep r(3) by auto
  qed
qed

end

section \<open>Negative calls\<close>

text \<open>Calls that do not relate to each other are all kept.\<close>

definition unrelated :: "searchOp set \<Rightarrow> bool" where
  "unrelated cs \<longleftrightarrow> (\<forall>c \<in> cs. \<forall>k \<in> cs. c \<noteq> k \<longrightarrow> \<not> touches c k)"

lemma unrelated_loop:
  assumes "op \<in> searchable" and "\<forall>k \<in> set ks. k \<noteq> \<lparr>op_s = w, op_op = op\<rparr> \<longrightarrow> \<not> touches \<lparr>op_s = w, op_op = op\<rparr> k"
  shows "add_search_loop w op ks scm = Some (scm, \<lparr>op_s = w, op_op = op\<rparr> \<in> set ks)"
  using assms(2)
proof (induction ks)
  case (Cons k ks)
  obtain pred where p: "cmpPred op = Some pred" using searchable_defined [OF assms(1)] by blast
  show ?case
  proof (cases "k = \<lparr>op_s = w, op_op = op\<rparr>")
    case True
    then show ?thesis using p pred_refl [OF p] by (simp add: strings_Contains_def)
  next
    case False
    then have "\<not> touches \<lparr>op_s = w, op_op = op\<rparr> k" using Cons.prems by simp
    then show ?thesis using Cons.IH Cons.prems False p by (auto simp: touches_def)
  qed
qed simp

section \<open>Folding over all calls\<close>

definition pos_hit :: "searcher \<Rightarrow> (string \<times> compareOp) list \<Rightarrow> zid \<Rightarrow> bool" where
  "pos_hit sr calls z \<longleftrightarrow> (\<forall>(w, op) \<in> set calls. \<not> isNegated op \<longrightarrow> z \<in> finds sr \<lparr>op_s = w, op_op = op\<rparr>)"

definition neg_calls :: "(string \<times> compareOp) list \<Rightarrow> searchOp set" where
  "neg_calls calls = {\<lparr>op_s = w, op_op = negate op\<rparr> | w op. (w, op) \<in> set calls \<and> isNegated op}"

definition pos_calls :: "(string \<times> compareOp) list \<Rightarrow> searchOp set" where
  "pos_calls calls = {\<lparr>op_s = w, op_op = op\<rparr> | w op. (w, op) \<in> set calls \<and> \<not> isNegated op}"

definition neg_hit :: "searcher \<Rightarrow> (string \<times> compareOp) list \<Rightarrow> zid \<Rightarrow> bool" where
  "neg_hit sr calls z \<longleftrightarrow> (\<exists>c \<in> neg_calls calls. z \<in> finds sr c)"

definition pos_ops :: "(string \<times> compareOp) list \<Rightarrow> compareOp set" where
  "pos_ops calls = {op. \<not> isNegated op \<and> op \<in> snd ` set calls}"

definition calls_ok :: "(string \<Rightarrow> bool) \<Rightarrow> (string \<times> compareOp) list \<Rightarrow> bool" where
  "calls_ok weak calls \<longleftrightarrow> (\<forall>(w, op) \<in> set calls. \<not> weak w \<and> (if isNegated op then negate op else op) \<in> searchable)"

lemma call_sets [simp]:
  "neg_calls [] = {}" "pos_ops [] = {}" "pos_calls [] = {}"
  "pos_calls ((w, op) # calls) = (if isNegated op then pos_calls calls else insert \<lparr>op_s = w, op_op = op\<rparr> (pos_calls calls))"
  "neg_calls ((w, op) # calls) = (if isNegated op then insert \<lparr>op_s = w, op_op = negate op\<rparr> (neg_calls calls) else neg_calls calls)"
  "pos_ops ((w, op) # calls) = (if isNegated op then pos_ops calls else insert op (pos_ops calls))"
  "neg_calls (calls @ calls') = neg_calls calls \<union> neg_calls calls'"
  "pos_ops (calls @ calls') = pos_ops calls \<union> pos_ops calls'"
  by (auto simp: neg_calls_def pos_ops_def pos_calls_def)

lemma add_calls_Cons:
  "add_calls visit sx k ((w, op) # xs) st = Option.bind (add_call (visit k) sx w op st) (add_calls visit sx (Suc k) xs)"
  by (simp add: add_calls_def)

lemma fold_intersect:
  assumes "\<forall>x \<in> set xs. set_inv (g x) \<and> g x \<noteq> None" and "set_inv r"
  shows "set_inv (fold (\<lambda>x r. Set_IntersectOrSet r (g x)) xs r) \<and>
    (fold (\<lambda>x r. Set_IntersectOrSet r (g x)) xs r = None \<longleftrightarrow> r = None \<and> xs = []) \<and>
    (xs \<noteq> [] \<or> r \<noteq> None \<longrightarrow> elems (fold (\<lambda>x r. Set_IntersectOrSet r (g x)) xs r) =
      {z. (r \<noteq> None \<longrightarrow> z \<in> elems r) \<and> (\<forall>x \<in> set xs. z \<in> elems (g x))})"
  using assms
proof (induction xs arbitrary: r)
  case (Cons x xs)
  let ?r = "Set_IntersectOrSet r (g x)"
  have gx: "set_inv (g x)" "g x \<noteq> None" using Cons.prems by auto
  have r: "set_inv ?r" "elems ?r = (if r = None then elems (g x) else elems r \<inter> elems (g x))"
    using Set_IntersectOrSet_correct [OF Cons.prems(2) gx(1)] by auto
  have n: "?r \<noteq> None" using gx(2) by (auto simp: Set_IntersectOrSet_def split: option.splits)
  have "\<forall>x \<in> set xs. set_inv (g x) \<and> g x \<noteq> None" using Cons.prems by simp
  from Cons.IH [OF this r(1)] n r(2) show ?case by auto
qed auto

lemma fold_results:
  assumes "set_inv r"
  shows "set_inv (fold (\<lambda>x r. Set_IUnion r (g x)) xs r) \<and>
    elems (fold (\<lambda>x r. Set_IUnion r (g x)) xs r) = elems r \<union> (\<Union>x \<in> set xs. elems (g x))"
  using assms
proof (induction xs arbitrary: r)
  case (Cons x xs)
  note u = Set_IUnion_correct [OF Cons.prems, of "g x"]
  show ?case using Cons.IH [OF u(1)] u(2) by (simp add: Un_assoc)
qed simp

context index_searcher
begin

lemma scm_addSearch_unrelated:
  assumes "visit_ok visit" and "op \<in> searchable" and "\<not> weak w" and "scm_ok s scm"
    and "unrelated (insert \<lparr>op_s = w, op_op = op\<rparr> (set (gm_keys scm)))" and "getSearchFunc (sr s) op = Some sf"
  shows "\<exists>scm'. scm_addSearch visit scm w op sf = Some scm' \<and> scm_ok s scm' \<and>
    set (gm_keys scm') = insert \<lparr>op_s = w, op_op = op\<rparr> (set (gm_keys scm))"
proof -
  let ?c = "\<lparr>op_s = w, op_op = op\<rparr>"
  have ks: "set (visit (gm_keys scm)) = set (gm_keys scm)" using visit_set [OF assms(1)] by blast
  have "\<forall>k \<in> set (visit (gm_keys scm)). k \<noteq> ?c \<longrightarrow> \<not> touches ?c k"
  proof (intro ballI impI)
    fix k assume "k \<in> set (visit (gm_keys scm))" and "k \<noteq> ?c"
    then have "k \<in> insert ?c (set (gm_keys scm))" unfolding ks by (intro insertI2)
    from assms(5) [unfolded unrelated_def, THEN bspec, OF insertI1, THEN bspec, OF this] \<open>k \<noteq> ?c\<close>
    show "\<not> touches ?c k" by (metis (no_types))
  qed
  from unrelated_loop [OF assms(2) this, of scm]
  have "scm_addSearch visit scm w op sf = Some (if ?c \<in> set (gm_keys scm) then scm else gm_put scm ?c sf)"
    by (simp add: scm_addSearch_def ks)
  moreover have "scm_ok s (gm_put scm ?c sf)" using assms(3,6) scm_ok_put [OF assms(4), of ?c sf] by simp
  moreover have "set (gm_keys (gm_put scm ?c sf)) = insert ?c (set (gm_keys scm))" by simp
  ultimately show ?thesis using assms(4) insert_absorb [of ?c "set (gm_keys scm)"]
    by (cases "?c \<in> set (gm_keys scm)") (simp_all only: if_True if_False, metis+)
qed

lemma fold_calls:
  assumes "ok s" and "\<forall>i. visit_ok (visit i)" and "scm_ok s p" and "scm_ok s n" and "calls_ok weak xs"
    and "mix_ok (pos_ops xs \<union> op_op ` set (gm_keys p))" and "unrelated (neg_calls xs \<union> set (gm_keys n))"
  shows "\<exists>p' n'. add_calls visit (sr s) k xs (p, n) = Some (p', n') \<and>
    scm_ok s p' \<and> scm_ok s n' \<and> all_hits (sr s) p' = {z \<in> all_hits (sr s) p. pos_hit (sr s) xs z} \<and>
    (p' = [] \<longleftrightarrow> p = [] \<and> pos_ops xs = {}) \<and> set (gm_keys p') \<subseteq> set (gm_keys p) \<union> pos_calls xs \<and>
    set (gm_keys n') = set (gm_keys n) \<union> neg_calls xs"
  using assms(3-7)
proof (induction xs arbitrary: p n k)
  case Nil
  then show ?case by (simp add: pos_hit_def add_calls_def)
next
  case (Cons x xs)
  obtain w op where x: "x = (w, op)" by (cases x)
  have xs: "calls_ok weak xs" using Cons.prems(3) by (simp add: calls_ok_def)
  show ?case
  proof (cases "isNegated op")
    case True
    let ?c = "\<lparr>op_s = w, op_op = negate op\<rparr>"
    have c: "negate op \<in> searchable" "\<not> weak w" using Cons.prems(3) True x by (auto simp: calls_ok_def)
    obtain sf where sf: "getSearchFunc (sr s) (negate op) = Some sf" using searchable_defined [OF c(1)] by blast
    have "unrelated (insert ?c (set (gm_keys n)))" using Cons.prems(5) True x by (auto simp: unrelated_def)
    then obtain n1 where n1: "scm_addSearch (visit k) n w (negate op) sf = Some n1" "scm_ok s n1"
        "set (gm_keys n1) = insert ?c (set (gm_keys n))"
      using scm_addSearch_unrelated [OF spec [OF assms(2)] c Cons.prems(2) _ sf] by blast
    have "mix_ok (pos_ops xs \<union> op_op ` set (gm_keys p))" using Cons.prems(4) True x by simp
    moreover have "unrelated (neg_calls xs \<union> set (gm_keys n1))" using Cons.prems(5) True x n1(3) by simp
    ultimately have "\<exists>p' n'. add_calls visit (sr s) (Suc k) xs (p, n1) = Some (p', n') \<and>
      scm_ok s p' \<and> scm_ok s n' \<and> all_hits (sr s) p' = {z \<in> all_hits (sr s) p. pos_hit (sr s) xs z} \<and>
      (p' = [] \<longleftrightarrow> p = [] \<and> pos_ops xs = {}) \<and> set (gm_keys p') \<subseteq> set (gm_keys p) \<union> pos_calls xs \<and>
      set (gm_keys n') = set (gm_keys n1) \<union> neg_calls xs"
      by (rule Cons.IH [OF Cons.prems(1) n1(2) xs])
    moreover have "add_call (visit k) (sr s) w op (p, n) = Some (p, n1)" using True sf n1(1) by (simp add: add_call_def Let_def)
    moreover have "pos_hit (sr s) (x # xs) = pos_hit (sr s) xs" using True x by (auto simp: pos_hit_def)
    ultimately show ?thesis using True x n1(3) by (auto simp: add_calls_Cons)
  next
    case False
    have c: "op \<in> searchable" "\<not> weak w" using Cons.prems(3) False x by (auto simp: calls_ok_def)
    obtain sf where sf: "getSearchFunc (sr s) op = Some sf" using searchable_defined [OF c(1)] by blast
    have "mix_ok (insert op (op_op ` set (gm_keys p)))" by (rule mix_ok_sub [OF _ Cons.prems(4)]) (use False x in auto)
    then obtain p1 where p1: "scm_addSearch (visit k) p w op sf = Some p1" "scm_ok s p1" "p1 \<noteq> []"
        "all_hits (sr s) p1 = all_hits (sr s) p \<inter> finds (sr s) \<lparr>op_s = w, op_op = op\<rparr>"
        "set (gm_keys p1) \<subseteq> insert \<lparr>op_s = w, op_op = op\<rparr> (set (gm_keys p))"
      using scm_addSearch_facts [OF assms(1) spec [OF assms(2)] c Cons.prems(1) _ sf] by blast
    have "op_op ` set (gm_keys p1) \<subseteq> insert op (op_op ` set (gm_keys p))" using image_mono [OF p1(5), of op_op] by simp
    then have "pos_ops xs \<union> op_op ` set (gm_keys p1) \<subseteq> pos_ops (x # xs) \<union> op_op ` set (gm_keys p)" using False x by auto
    then have "mix_ok (pos_ops xs \<union> op_op ` set (gm_keys p1))" using Cons.prems(4) by (rule mix_ok_sub)
    moreover have "unrelated (neg_calls xs \<union> set (gm_keys n))" using Cons.prems(5) False x by simp
    ultimately have "\<exists>p' n'. add_calls visit (sr s) (Suc k) xs (p1, n) = Some (p', n') \<and>
      scm_ok s p' \<and> scm_ok s n' \<and> all_hits (sr s) p' = {z \<in> all_hits (sr s) p1. pos_hit (sr s) xs z} \<and>
      (p' = [] \<longleftrightarrow> p1 = [] \<and> pos_ops xs = {}) \<and> set (gm_keys p') \<subseteq> set (gm_keys p1) \<union> pos_calls xs \<and>
      set (gm_keys n') = set (gm_keys n) \<union> neg_calls xs"
      by (rule Cons.IH [OF p1(2) Cons.prems(2) xs])
    then obtain p' n' where r: "add_calls visit (sr s) (Suc k) xs (p1, n) = Some (p', n')"
        "scm_ok s p'" "scm_ok s n'" "all_hits (sr s) p' = {z \<in> all_hits (sr s) p1. pos_hit (sr s) xs z}"
        "p' = [] \<longleftrightarrow> p1 = [] \<and> pos_ops xs = {}" "set (gm_keys p') \<subseteq> set (gm_keys p1) \<union> pos_calls xs"
        "set (gm_keys n') = set (gm_keys n) \<union> neg_calls xs"
      by blast
    have s1: "add_calls visit (sr s) k (x # xs) (p, n) = Some (p', n')"
      using False x sf p1(1) r(1) by (simp add: add_calls_Cons add_call_def)
    have h: "pos_hit (sr s) (x # xs) z \<longleftrightarrow> z \<in> finds (sr s) \<lparr>op_s = w, op_op = op\<rparr> \<and> pos_hit (sr s) xs z" for z
      using False x by (auto simp: pos_hit_def)
    have s2: "all_hits (sr s) p' = {z \<in> all_hits (sr s) p. pos_hit (sr s) (x # xs) z}" using r(4) p1(4) h by auto
    have s3: "p' = [] \<longleftrightarrow> p = [] \<and> pos_ops (x # xs) = {}" using r(5) p1(3) False x by auto
    have "set (gm_keys p1) \<union> pos_calls xs \<subseteq> set (gm_keys p) \<union> pos_calls (x # xs)" using p1(5) False x by auto
    with r(6) have s4: "set (gm_keys p') \<subseteq> set (gm_keys p) \<union> pos_calls (x # xs)" by (rule order_trans)
    have s5: "set (gm_keys n') = set (gm_keys n) \<union> neg_calls (x # xs)" using r(7) False x by auto
    show ?thesis using s1 r(2,3) s2 s3 s4 s5 by blast
  qed
qed

lemma prepared:
  assumes "ok s" and "\<forall>i. visit_ok (visit i)" and "calls_ok weak (norm_calls u search @ plain_calls search)"
    and "mix_ok (pos_ops (norm_calls u search @ plain_calls search))"
    and "unrelated (neg_calls (norm_calls u search @ plain_calls search))"
  shows "\<exists>norm plain neg. prepareRetrieveCalls u visit (sr s) search = Some (norm, plain, neg) \<and>
    scm_ok s norm \<and> scm_ok s plain \<and> scm_ok s neg \<and>
    all_hits (sr s) norm = {z. pos_hit (sr s) (norm_calls u search) z} \<and>
    all_hits (sr s) plain = {z. pos_hit (sr s) (plain_calls search) z} \<and>
    (norm = [] \<longleftrightarrow> pos_ops (norm_calls u search) = {}) \<and> (plain = [] \<longleftrightarrow> pos_ops (plain_calls search) = {}) \<and>
    set (gm_keys norm) \<subseteq> pos_calls (norm_calls u search) \<and> set (gm_keys plain) \<subseteq> pos_calls (plain_calls search) \<and>
    set (gm_keys neg) = neg_calls (norm_calls u search @ plain_calls search)"
proof -
  let ?N = "norm_calls u search" and ?P = "plain_calls search" and ?E = "[] :: searchCallMap"
  have e: "scm_ok s []" "all_hits (sr s) [] = UNIV" by (simp_all add: scm_ok_def all_hits_def)
  have c: "calls_ok weak ?N" "calls_ok weak ?P" using assms(3) by (simp_all add: calls_ok_def)
  have m: "mix_ok (pos_ops ?N \<union> op_op ` set (gm_keys []))" "mix_ok (pos_ops ?P \<union> op_op ` set (gm_keys []))"
    using mix_ok_sub [OF _ assms(4)] by simp_all
  have "unrelated (neg_calls ?N \<union> set (gm_keys []))" using assms(5) by (simp add: unrelated_def)
  from fold_calls [where k = 3, OF assms(1,2) e(1) e(1) c(1) m(1) this]
  obtain p1 n1 where 1: "add_calls visit (sr s) 3 ?N ([], []) = Some (p1, n1)"
      "scm_ok s p1" "scm_ok s n1" "all_hits (sr s) p1 = {z \<in> all_hits (sr s) []. pos_hit (sr s) ?N z}"
      "p1 = [] \<longleftrightarrow> ?E = [] \<and> pos_ops ?N = {}" "set (gm_keys p1) \<subseteq> set (gm_keys ?E) \<union> pos_calls ?N" "set (gm_keys n1) = set (gm_keys ?E) \<union> neg_calls ?N" by (elim exE conjE) (rule that)
  have n1: "set (gm_keys n1) = neg_calls ?N" using 1(7) by simp
  have "unrelated (neg_calls ?P \<union> set (gm_keys n1))" using assms(5) unfolding n1 call_sets by (simp add: Un_commute)
  from fold_calls [where k = "3 + length ?N", OF assms(1,2) e(1) 1(3) c(2) m(2) this]
  obtain p2 n2 where 2: "add_calls visit (sr s) (3 + length ?N) ?P ([], n1) = Some (p2, n2)"
      "scm_ok s p2" "scm_ok s n2" "all_hits (sr s) p2 = {z \<in> all_hits (sr s) []. pos_hit (sr s) ?P z}"
      "p2 = [] \<longleftrightarrow> ?E = [] \<and> pos_ops ?P = {}" "set (gm_keys p2) \<subseteq> set (gm_keys ?E) \<union> pos_calls ?P" "set (gm_keys n2) = set (gm_keys n1) \<union> neg_calls ?P" by (elim exE conjE) (rule that)
  have "prepareRetrieveCalls u visit (sr s) search = Some (p1, p2, n2)"
    by (simp add: prepareRetrieveCalls_def 1(1) 2(1))
  moreover have "all_hits (sr s) p1 = {z. pos_hit (sr s) ?N z}" "all_hits (sr s) p2 = {z. pos_hit (sr s) ?P z}"
    using 1(4) 2(4) unfolding e(2) by simp_all
  moreover have "p1 = [] \<longleftrightarrow> pos_ops ?N = {}" "p2 = [] \<longleftrightarrow> pos_ops ?P = {}" using 1(5) 2(5) by simp_all
  moreover have "set (gm_keys n2) = neg_calls (?N @ ?P)" using 2(7) unfolding n1 call_sets .
  moreover have "set (gm_keys p1) \<subseteq> pos_calls ?N" "set (gm_keys p2) \<subseteq> pos_calls ?P" using 1(6) 2(6) by simp_all
  ultimately show ?thesis using 1(2) 2(2,3) by blast
qed

end

end
