(* ===== verification/RetrieveSets.thy ===== *)
theory RetrieveSets
  imports RetrieveLaws
begin

text \<open>
  The zettel a full-text search retrieves. The sets of \<open>retrievePositives\<close> are objects that are
  changed in place while its cache still refers to them: an object only loses elements, and it
  keeps those that all calls find.
\<close>

section \<open>Objects that only shrink\<close>

definition heap_ok :: "set_heap \<Rightarrow> bool" where
  "heap_ok h \<longleftrightarrow> (\<forall>seq \<in> set h. asc seq)"

definition shrinks :: "zid set \<Rightarrow> set_heap \<Rightarrow> set_heap \<Rightarrow> bool" where
  "shrinks L h h' \<longleftrightarrow> length h \<le> length h' \<and>
     (\<forall>i < length h. set (h' ! i) \<subseteq> set (h ! i) \<and> (L \<subseteq> set (h ! i) \<longrightarrow> L \<subseteq> set (h' ! i)))"

lemma shrinks_refl: "shrinks L h h"
  by (simp add: shrinks_def)

lemma shrinks_trans: "shrinks L h h' \<Longrightarrow> shrinks L h' h'' \<Longrightarrow> shrinks L h h''"
  unfolding shrinks_def by (meson order_trans less_le_trans)

lemma shrinks_new: "heap_ok h \<Longrightarrow> asc seq \<Longrightarrow> shrinks L h (h @ [seq]) \<and> heap_ok (h @ [seq])"
  by (auto simp: shrinks_def heap_ok_def nth_append)

lemma heap_new_Some [simp]: "heap_new h (Some seq) = (h @ [seq], Some (length h))"
  by (simp add: heap_new_def)

text \<open>The result of intersecting the sets of the calls \<open>W\<close>.\<close>

definition acc_ok :: "searcher \<Rightarrow> zid set \<Rightarrow> set_heap \<Rightarrow> searchOp set \<Rightarrow> set_ptr \<Rightarrow> bool" where
  "acc_ok sx L h W r \<longleftrightarrow>
     (if W = {} then r = None
      else \<exists>p < length h. r = Some p \<and> L \<subseteq> set (h ! p) \<and> (\<forall>z \<in> set (h ! p). \<forall>c \<in> W. z \<in> finds sx c))"

lemma acc_ok_shrinks:
  assumes "acc_ok sx L h W r" and "shrinks L h h'"
  shows "acc_ok sx L h' W r"
proof (cases "W = {}")
  case False
  then obtain p where p: "p < length h" "r = Some p" "L \<subseteq> set (h ! p)" "\<forall>z \<in> set (h ! p). \<forall>c \<in> W. z \<in> finds sx c"
    using assms(1) unfolding acc_ok_def by auto
  have s: "set (h' ! p) \<subseteq> set (h ! p)" "L \<subseteq> set (h' ! p)" "p < length h'"
    using assms(2) p(1,3) unfolding shrinks_def by (blast, blast, linarith)
  have "\<forall>z \<in> set (h' ! p). \<forall>c \<in> W. z \<in> finds sx c" using p(4) s(1) by (meson subsetD)
  then show ?thesis unfolding acc_ok_def using False p(2) s(2,3) by simp
qed (use assms(1) in \<open>simp add: acc_ok_def\<close>)

definition ptrs_ok :: "searcher \<Rightarrow> zid set \<Rightarrow> set_heap \<Rightarrow> searchResults \<Rightarrow> bool" where
  "ptrs_ok sx L h cache \<longleftrightarrow>
     (\<forall>c r. gm_get cache c = Some r \<longrightarrow> (\<exists>q < length h. r = Some q \<and> L \<subseteq> set (h ! q) \<and> set (h ! q) \<subseteq> finds sx c))"

lemma ptrs_ok_shrinks: "ptrs_ok sx L h cache \<Longrightarrow> shrinks L h h' \<Longrightarrow> ptrs_ok sx L h' cache"
  unfolding ptrs_ok_def shrinks_def by (meson less_le_trans order_trans)

lemma ptrs_ok_mono: "ptrs_ok sx L h cache \<Longrightarrow> L' \<subseteq> L \<Longrightarrow> ptrs_ok sx L' h cache"
  unfolding ptrs_ok_def by (meson order_trans)

lemma ptrs_ok_Nil [simp]: "ptrs_ok sx L h []"
  by (simp add: ptrs_ok_def)

lemma intersect_step:
  assumes "heap_ok h" and "acc_ok sx L h W r" and "q < length h" and "L \<subseteq> set (h ! q)" and "set (h ! q) \<subseteq> finds sx c"
    and "heap_IntersectOrSet h r (Some q) = (h', r')"
  shows "heap_ok h' \<and> shrinks L h h' \<and> acc_ok sx L h' (insert c W) r'"
proof (cases r)
  case None
  then have "W = {}" using assms(2) by (auto simp: acc_ok_def split: if_splits)
  then show ?thesis using None assms by (auto simp: heap_IntersectOrSet_def acc_ok_def shrinks_refl)
next
  case (Some p)
  then have W: "W \<noteq> {}" and p: "p < length h" "L \<subseteq> set (h ! p)" "\<forall>z \<in> set (h ! p). \<forall>c \<in> W. z \<in> finds sx c"
    using assms(2) by (auto simp: acc_ok_def split: if_splits)
  obtain t where t: "Set_IntersectOrSet (Some (h ! p)) (Some (h ! q)) = Some t" by (auto simp: Set_IntersectOrSet_def)
  have a: "asc (h ! p)" "asc (h ! q)" using assms(1,3) p(1) by (auto simp: heap_ok_def)
  have "asc t" "set t = set (h ! p) \<inter> set (h ! q)"
    using Set_IntersectOrSet_correct [of "Some (h ! p)" "Some (h ! q)"] a t by simp_all
  moreover have "h' = h[p := t]" "r' = Some p" using assms(6) Some t by (simp_all add: heap_IntersectOrSet_def)
  ultimately show ?thesis using p assms(1,4,5) W
    by (auto simp: heap_ok_def shrinks_def acc_ok_def nth_list_update dest: set_update_subset_insert [THEN subsetD])
qed

lemma visited_keys: "visit_ok visit \<Longrightarrow> fst ` set (visited visit scm) = set (gm_keys scm)"
  using visit_set [of visit "gm_keys scm"] by (simp add: visited_def image_image)

lemma visited_entry:
  assumes "visit_ok visit" and "(c, f) \<in> set (visited visit scm)"
  shows "gm_get scm c = Some f"
proof -
  have "c \<in> set (visit (gm_keys scm))" and f: "f = the (gm_get scm c)" using assms(2) by (auto simp: visited_def)
  then have "c \<in> set (gm_keys scm)" using visit_set [OF assms(1)] by blast
  then have "gm_get scm c \<noteq> None" unfolding gm_get_None_iff by simp
  then show ?thesis using f by simp
qed

lemma entries_lower:
  assumes "fst ` set xs = set (gm_keys scm)" and "L \<subseteq> all_hits sx scm"
  shows "\<forall>(c, f) \<in> set xs. L \<subseteq> finds sx c"
proof (intro ballI, clarify)
  fix c f z
  assume "(c, f) \<in> set xs" and "z \<in> L"
  then have "c \<in> set (gm_keys scm)" unfolding assms(1) [symmetric] by (metis fst_conv image_eqI)
  then show "z \<in> finds sx c" using assms(2) \<open>z \<in> L\<close> unfolding all_hits_def by blast
qed

section \<open>The loops\<close>

context index_searcher
begin

definition entries_ok :: "'s \<Rightarrow> (searchOp \<times> searchFunc) list \<Rightarrow> bool" where
  "entries_ok s xs \<longleftrightarrow> (\<forall>(c, f) \<in> set xs. getSearchFunc (sr s) (op_op c) = Some f)"

lemma entries_ok_Cons [simp]:
  "entries_ok s ((c, f) # xs) \<longleftrightarrow> getSearchFunc (sr s) (op_op c) = Some f \<and> entries_ok s xs"
  by (simp add: entries_ok_def)

lemma visited_entries: "scm_ok s scm \<Longrightarrow> visit_ok visit \<Longrightarrow> entries_ok s (visited visit scm)"
  using visited_entry unfolding entries_ok_def scm_ok_def by fast

lemma search_result:
  assumes "ok s" and "getSearchFunc (sr s) (op_op c) = Some f"
  shows "\<exists>seq. f (op_s c) = Some seq \<and> asc seq \<and> set seq = finds (sr s) c"
proof -
  have "set_inv (f (op_s c)) \<and> f (op_s c) \<noteq> None" using search_set [OF assms] by blast
  then show ?thesis using assms(2) by (auto simp: finds_def)
qed

lemma norm_loop:
  assumes "ok s" and "entries_ok s xs" and "heap_ok h" and "ptrs_ok (sr s) L h cache" and "acc_ok (sr s) L h W r"
    and "\<forall>(c, f) \<in> set xs. L \<subseteq> finds (sr s) c" and "fold (norm_step cache) xs (h, r) = (h', r')"
  shows "heap_ok h' \<and> shrinks L h h' \<and> acc_ok (sr s) L h' (W \<union> fst ` set xs) r'"
  using assms(2-7)
proof (induction xs arbitrary: h r W)
  case (Cons x xs)
  obtain c f where x: "x = (c, f)" by (cases x)
  have e: "getSearchFunc (sr s) (op_op c) = Some f" "entries_ok s xs" using Cons.prems(1) unfolding x by simp_all
  obtain h1 r1 where 1: "norm_step cache x (h, r) = (h1, r1)" by (rule prod.exhaust)
  have s: "heap_ok h1 \<and> shrinks L h h1 \<and> acc_ok (sr s) L h1 (insert c W) r1"
  proof (cases "gm_get cache c")
    case None
    obtain seq where q: "f (op_s c) = Some seq" "asc seq" "set seq = finds (sr s) c" using search_result [OF assms(1) e(1)] by blast
    note n = shrinks_new [OF Cons.prems(2) q(2), of L]
    have "heap_IntersectOrSet (h @ [seq]) r (Some (length h)) = (h1, r1)" using 1 None q(1) by (simp add: norm_step_def x)
    from intersect_step [OF n [THEN conjunct2] acc_ok_shrinks [OF Cons.prems(4) n [THEN conjunct1]] _ _ _ this, of c]
    have "heap_ok h1 \<and> shrinks L (h @ [seq]) h1 \<and> acc_ok (sr s) L h1 (insert c W) r1" using Cons.prems(5) x q(3) by simp
    then show ?thesis using shrinks_trans n by blast
  next
    case (Some res)
    then obtain q where q: "res = Some q" "q < length h" "L \<subseteq> set (h ! q)" "set (h ! q) \<subseteq> finds (sr s) c"
      using Cons.prems(3) unfolding ptrs_ok_def by blast
    have "heap_IntersectOrSet h r (Some q) = (h1, r1)" using 1 Some q(1) by (simp add: norm_step_def x)
    from intersect_step [OF Cons.prems(2,4) q(2-4) this] show ?thesis .
  qed
  have "fold (norm_step cache) xs (h1, r1) = (h', r')" using Cons.prems(6) 1 by simp
  from Cons.IH [OF e(2) s [THEN conjunct1] ptrs_ok_shrinks [OF Cons.prems(3)] s [THEN conjunct2, THEN conjunct2] _ this]
  have "heap_ok h' \<and> shrinks L h1 h' \<and> acc_ok (sr s) L h' (insert c W \<union> fst ` set xs) r'" using s Cons.prems(5) by simp
  then show ?case using s shrinks_trans x by auto
qed (auto simp: shrinks_refl)

lemma plain_loop:
  assumes "ok s" and "entries_ok s xs" and "heap_ok h" and "ptrs_ok (sr s) L h cache" and "acc_ok (sr s) L h W r"
    and "\<forall>(c, f) \<in> set xs. L \<subseteq> finds (sr s) c" and "fold (plain_step norm) xs (h, cache, r) = (h', cache', r')"
  shows "heap_ok h' \<and> ptrs_ok (sr s) L h' cache' \<and> acc_ok (sr s) L h' (W \<union> fst ` set xs) r' \<and>
    set (gm_keys cache') \<subseteq> set (gm_keys cache) \<union> (fst ` set xs \<inter> set (gm_keys norm))"
  using assms(2-7)
proof (induction xs arbitrary: h cache r W)
  case (Cons x xs)
  obtain c f where x: "x = (c, f)" by (cases x)
  have e: "getSearchFunc (sr s) (op_op c) = Some f" "entries_ok s xs" using Cons.prems(1) unfolding x by simp_all
  obtain seq where q: "f (op_s c) = Some seq" "asc seq" "set seq = finds (sr s) c" using search_result [OF assms(1) e(1)] by blast
  let ?cache = "if gm_get norm c \<noteq> None then gm_put cache c (Some (length h)) else cache"
  obtain h1 r1 where 1: "heap_IntersectOrSet (h @ [seq]) r (Some (length h)) = (h1, r1)" by (rule prod.exhaust)
  have st: "plain_step norm x (h, cache, r) = (h1, ?cache, r1)" using 1 q(1) by (simp add: plain_step_def x)
  note n = shrinks_new [OF Cons.prems(2) q(2), of L]
  from intersect_step [OF n [THEN conjunct2] acc_ok_shrinks [OF Cons.prems(4) n [THEN conjunct1]] _ _ _ 1, of c]
  have s: "heap_ok h1 \<and> shrinks L (h @ [seq]) h1 \<and> acc_ok (sr s) L h1 (insert c W) r1" using Cons.prems(5) x q(3) by simp
  have "ptrs_ok (sr s) L (h @ [seq]) cache" by (rule ptrs_ok_shrinks [OF Cons.prems(3) n [THEN conjunct1]])
  then have "ptrs_ok (sr s) L (h @ [seq]) ?cache" using Cons.prems(5) x q(3) unfolding ptrs_ok_def by (auto split: if_splits)
  then have c: "ptrs_ok (sr s) L h1 ?cache" using s ptrs_ok_shrinks by blast
  have k: "set (gm_keys ?cache) \<subseteq> set (gm_keys cache) \<union> ({c} \<inter> set (gm_keys norm))"
    unfolding gm_get_None_iff by auto
  have "fold (plain_step norm) xs (h1, ?cache, r1) = (h', cache', r')" using Cons.prems(6) st by (simp only: fold_simps)
  from Cons.IH [OF e(2) s [THEN conjunct1] c s [THEN conjunct2, THEN conjunct2] _ this]
  have "heap_ok h' \<and> ptrs_ok (sr s) L h' cache' \<and> acc_ok (sr s) L h' (insert c W \<union> fst ` set xs) r' \<and>
    set (gm_keys cache') \<subseteq> set (gm_keys ?cache) \<union> (fst ` set xs \<inter> set (gm_keys norm))" using Cons.prems(5) by simp
  moreover from this k have "set (gm_keys cache') \<subseteq> set (gm_keys cache) \<union> ({c} \<inter> set (gm_keys norm)) \<union> (fst ` set xs \<inter> set (gm_keys norm))"
    by (meson Un_mono order_refl order_trans)
  then have "set (gm_keys cache') \<subseteq> set (gm_keys cache) \<union> (fst ` set (x # xs) \<inter> set (gm_keys norm))" unfolding x by auto
  ultimately show ?case unfolding x by simp
qed auto

lemma acc_all:
  assumes "acc_ok sx L h (set (gm_keys scm)) r" and "scm \<noteq> []"
  shows "\<exists>p < length h. r = Some p \<and> L \<subseteq> set (h ! p) \<and> set (h ! p) \<subseteq> all_hits sx scm"
proof -
  have "set (gm_keys scm) \<noteq> {}" using assms(2) by simp
  then obtain p where p: "p < length h" "r = Some p" "L \<subseteq> set (h ! p)" "\<forall>z \<in> set (h ! p). \<forall>c \<in> set (gm_keys scm). z \<in> finds sx c"
    using assms(1) unfolding acc_ok_def by (simp only: if_False) blast
  moreover have "set (h ! p) \<subseteq> all_hits sx scm" unfolding all_hits_def using p(4) by blast
  ultimately show ?thesis by blast
qed

lemma norm_loop_all:
  assumes "ok s" and "scm_ok s norm" and "norm \<noteq> []" and "visit_ok visit" and "heap_ok h" and "ptrs_ok (sr s) L h cache"
    and "L \<subseteq> all_hits (sr s) norm" and "fold (norm_step cache) (visited visit norm) (h, None) = (h', r')"
  shows "heap_ok h' \<and> shrinks L h h' \<and> (\<exists>p < length h'. r' = Some p \<and> L \<subseteq> set (h' ! p) \<and> set (h' ! p) \<subseteq> all_hits (sr s) norm)"
proof -
  note k = visited_keys [OF assms(4), of norm]
  have "acc_ok (sr s) L h {} None" by (simp add: acc_ok_def)
  note l = norm_loop [OF assms(1) visited_entries [OF assms(2,4)] assms(5,6) this entries_lower [OF k assms(7)] assms(8)]
  have "acc_ok (sr s) L h' (set (gm_keys norm)) r'" using l unfolding k by simp
  from acc_all [OF this assms(3)] show ?thesis using l by blast
qed

lemma positives_superset:
  assumes "ok s" and "scm_ok s norm" and "norm \<noteq> []" and "\<forall>i. visit_ok (visit i)" and "isSuperset norm plain"
  shows "\<exists>t. retrievePositives visit norm plain = Some t \<and> asc t \<and> set t = all_hits (sr s) norm"
proof -
  obtain h r where f: "fold (norm_step []) (visited (visit 1) norm) ([], None) = (h, r)" by (rule prod.exhaust)
  have "heap_ok []" by (simp add: heap_ok_def)
  note l = norm_loop_all [OF assms(1-3) spec [OF assms(4)] this ptrs_ok_Nil order_refl f]
  then obtain p where p: "p < length h" "r = Some p" "set (h ! p) = all_hits (sr s) norm" by blast
  have "asc (h ! p)" using l p(1) unfolding heap_ok_def by simp
  moreover have "retrievePositives visit norm plain = Some (h ! p)"
    using assms(5) f p(2) by (simp add: retrievePositives_def heap_read_def)
  ultimately show ?thesis using p(3) by blast
qed

lemma positives_general:
  assumes "ok s" and "scm_ok s norm" and "scm_ok s plain" and "norm \<noteq> []" and "\<forall>i. visit_ok (visit i)" and "\<not> isSuperset norm plain"
  shows "\<exists>t. retrievePositives visit norm plain = Some t \<and> asc t \<and>
    set t \<subseteq> all_hits (sr s) norm \<union> all_hits (sr s) plain \<and> all_hits (sr s) norm \<inter> all_hits (sr s) plain \<subseteq> set t \<and>
    (set (gm_keys norm) \<inter> set (gm_keys plain) = {} \<longrightarrow> all_hits (sr s) norm \<subseteq> set t)"
proof -
  define N where "N = all_hits (sr s) norm"
  define P where "P = all_hits (sr s) plain"
  have "plain \<noteq> []" using assms(6) by (auto simp: isSuperset_def)
  obtain h cache r where fp: "fold (plain_step norm) (visited (visit 0) plain) ([], [], None) = (h, cache, r)" by (metis prod.exhaust)
  note v0 = spec [OF assms(5), of 0] and v1 = spec [OF assms(5), of 1]
  note k = visited_keys [OF v0, of plain]
  have 0: "heap_ok []" "acc_ok (sr s) P [] {} None" by (simp_all add: heap_ok_def acc_ok_def)
  have "P \<subseteq> all_hits (sr s) plain" by (simp add: P_def)
  from plain_loop [OF assms(1) visited_entries [OF assms(3) v0] 0(1) ptrs_ok_Nil 0(2) entries_lower [OF k this] fp]
  have pl: "heap_ok h" "ptrs_ok (sr s) P h cache" "acc_ok (sr s) P h (set (gm_keys plain)) r"
    "set (gm_keys cache) \<subseteq> set (gm_keys plain) \<inter> set (gm_keys norm)" unfolding k by simp_all
  obtain p where p: "p < length h" "r = Some p" "set (h ! p) \<subseteq> P"
    using acc_all [OF pl(3) \<open>plain \<noteq> []\<close>] unfolding P_def by blast
  obtain h1 r1 where fn: "fold (norm_step cache) (visited (visit 1) norm) (h, None) = (h1, r1)" by (rule prod.exhaust)
  note loop = norm_loop_all [OF assms(1,2,4) v1 pl(1) _ _ fn, folded N_def]
  note l1 = loop [OF ptrs_ok_mono [OF pl(2) Int_lower2] Int_lower1]
  then obtain q where q: "q < length h1" "r1 = Some q" "N \<inter> P \<subseteq> set (h1 ! q)" "set (h1 ! q) \<subseteq> N" by blast
  have h1: "heap_ok h1" "shrinks (N \<inter> P) h h1" using l1 by blast+
  have p1: "p < length h1" "set (h1 ! p) \<subseteq> set (h ! p)" using h1(2) p(1) unfolding shrinks_def by (linarith, blast)
  have a: "asc (h1 ! q)" "asc (h1 ! p)" using h1(1) q(1) p1(1) unfolding heap_ok_def by simp_all
  have "Set_IUnion (Some (h1 ! q)) (Some (h1 ! p)) \<noteq> None" by (simp add: Set_IUnion_def Set_AddSlice_def)
  then obtain t where t: "Set_IUnion (Some (h1 ! q)) (Some (h1 ! p)) = Some t" by blast
  have s: "asc t" "set t = set (h1 ! q) \<union> set (h1 ! p)"
    using Set_IUnion_correct [of "Some (h1 ! q)" "Some (h1 ! p)"] a t by simp_all
  have "retrievePositives visit norm plain = Some t"
    using assms(6) fp fn p(2) q(1,2) t by (simp add: retrievePositives_def heap_read_def heap_IUnion_def)
  moreover have "N \<subseteq> set (h1 ! q)" if "set (gm_keys norm) \<inter> set (gm_keys plain) = {}"
  proof -
    have "set (gm_keys cache) \<subseteq> {}" using pl(4) that by (metis inf_commute)
    then have "cache = []" by simp
    then have "ptrs_ok (sr s) N h cache" by simp
    from loop [OF this order_refl] obtain q2 where "r1 = Some q2" "N \<subseteq> set (h1 ! q2)" by (elim conjE exE) (rule that)
    then show ?thesis unfolding q(2) by (simp only: option.inject)
  qed
  moreover have "set t \<subseteq> N \<union> P" "N \<inter> P \<subseteq> set t" using q(3,4) p(3) p1(2) unfolding s(2) by blast+
  ultimately show ?thesis using s unfolding N_def P_def by blast
qed

lemma retrievePositives_facts:
  assumes "ok s" and "scm_ok s norm" and "scm_ok s plain" and "norm \<noteq> []" and "\<forall>i. visit_ok (visit i)"
  shows "\<exists>t. retrievePositives visit norm plain = Some t \<and> asc t \<and>
    set t \<subseteq> all_hits (sr s) norm \<union> all_hits (sr s) plain \<and> all_hits (sr s) norm \<inter> all_hits (sr s) plain \<subseteq> set t \<and>
    (set (gm_keys norm) \<inter> set (gm_keys plain) = {} \<longrightarrow> all_hits (sr s) norm \<subseteq> set t)"
  using positives_superset [OF assms(1,2,4,5), of plain] positives_general [OF assms] by blast

lemma retrieveNegatives_facts:
  assumes "ok s" and "scm_ok s neg" and "visit_ok visit"
  shows "set_inv (retrieveNegatives visit neg) \<and> elems (retrieveNegatives visit neg) = any_hit (sr s) neg"
proof -
  let ?neg = "visited visit neg"
  have f: "retrieveNegatives visit neg = fold (\<lambda>x r. Set_IUnion r (snd x (op_s (fst x)))) ?neg None"
    unfolding retrieveNegatives_def by (rule fold_cong) (auto simp: fun_eq_iff)
  have h: "elems (snd x (op_s (fst x))) = finds (sr s) (fst x)" if "x \<in> set ?neg" for x
  proof -
    have "getSearchFunc (sr s) (op_op (fst x)) = Some (snd x)"
      using visited_entry [OF assms(3), of "fst x" "snd x" neg] that assms(2) by (simp add: scm_ok_def)
    then show ?thesis using search_result [OF assms(1)] by fastforce
  qed
  have "(\<Union>x \<in> set ?neg. finds (sr s) (fst x)) = any_hit (sr s) neg"
    using visited_keys [OF assms(3), of neg, symmetric] by (auto simp: any_hit_def)
  then show ?thesis unfolding f using fold_results [OF set_inv_simps(1), of "\<lambda>x. snd x (op_s (fst x))" ?neg] h by auto
qed

lemma any_hit_neg: "set (gm_keys neg) = neg_calls calls \<Longrightarrow> any_hit (sr s) neg = {z. neg_hit (sr s) calls z}"
  by (simp add: any_hit_def neg_hit_def)

lemma conflict_norm:
  assumes "hasConflictingCalls norm plain neg"
  shows "(\<exists>c \<in> set (gm_keys neg). c \<in> set (gm_keys norm)) \<or> (\<exists>c \<in> set (gm_keys neg). c \<in> set (gm_keys plain))"
proof -
  obtain c where "c \<in> set (gm_keys neg)" "gm_get norm c \<noteq> None \<or> gm_get plain c \<noteq> None"
    using assms unfolding hasConflictingCalls_def list_ex_iff by blast
  then have "c \<in> set (gm_keys norm) \<or> c \<in> set (gm_keys plain)" unfolding gm_get_None_iff by simp
  then show ?thesis using \<open>c \<in> set (gm_keys neg)\<close> by metis
qed

lemma retrieve_cases:
  assumes "ok s" and "scm_ok s norm" and "scm_ok s plain" and "scm_ok s neg" and "norm \<noteq> []" and "search \<noteq> []"
    and "prepareRetrieveCalls u visit (sr s) search = Some (norm, plain, neg)" and "\<not> hasConflictingCalls norm plain neg"
    and "\<forall>i. visit_ok (visit i)"
  shows "\<exists>pred. retrieveIndex u visit (sr s) search = Some (Some pred) \<and>
    (\<forall>z. pred z \<longleftrightarrow> z \<in> elems (retrievePositives visit norm plain) \<and> z \<notin> any_hit (sr s) neg)"
proof -
  let ?pos = "retrievePositives visit norm plain" and ?neg = "retrieveNegatives (visit 2) neg"
  have p: "set_inv ?pos" "?pos \<noteq> None" using retrievePositives_facts [OF assms(1-3,5,9)] by auto
  have n: "set_inv ?neg" "elems ?neg = any_hit (sr s) neg"
    using retrieveNegatives_facts [OF assms(1,4) spec [OF assms(9)]] by simp_all
  have e: "neg = [] \<Longrightarrow> any_hit (sr s) neg = {}" by (simp add: any_hit_def)
  define pred where "pred = (if Set_IsEmpty ?pos then neverIncluded
     else if neg = [] then (\<lambda>zid. Set_Contains ?pos zid)
     else if ?neg = None then (\<lambda>zid. Set_Contains ?pos zid)
     else (\<lambda>zid. Set_Contains ?pos zid \<and> \<not> Set_ContainsOrNil ?neg zid))"
  have "retrieveIndex u visit (sr s) search = Some (Some pred)"
    using assms(6,8) p(2) unfolding retrieveIndex_def assms(7) pred_def Let_def
    by (simp only: if_False option.case prod.case simp_thms)
  moreover have "pred z \<longleftrightarrow> z \<in> elems ?pos \<and> z \<notin> any_hit (sr s) neg" for z
    using p n e unfolding pred_def
    by (cases "?neg = None") (auto simp: Set_IsEmpty_correct Set_Contains_correct Set_ContainsOrNil_correct neverIncluded_def)
  ultimately show ?thesis by blast
qed

text \<open>
  A search with at least one positive word retrieves only zettel that meet all positive words or
  all positive values and no negative one. It retrieves every zettel that meets all positive words
  and all positive values; those that only meet the words are retrieved when no value is a word.
\<close>

lemma retrieve_bounds:
  assumes "ok s" and "\<forall>i. visit_ok (visit i)" and "calls_ok weak (norm_calls u search @ plain_calls search)"
    and "mix_ok (pos_ops (norm_calls u search @ plain_calls search))"
    and "unrelated (neg_calls (norm_calls u search @ plain_calls search))"
    and "pos_ops (norm_calls u search) \<noteq> {}"
    and "pos_calls (plain_calls search) \<inter> neg_calls (norm_calls u search @ plain_calls search) \<subseteq> pos_calls (norm_calls u search)"
  shows "\<exists>pred. retrieveIndex u visit (sr s) search = Some (Some pred) \<and>
    (\<forall>z. (pred z \<longrightarrow> (pos_hit (sr s) (norm_calls u search) z \<or> pos_hit (sr s) (plain_calls search) z) \<and>
            \<not> neg_hit (sr s) (norm_calls u search @ plain_calls search) z) \<and>
         (pos_hit (sr s) (norm_calls u search) z \<and> \<not> neg_hit (sr s) (norm_calls u search @ plain_calls search) z \<and>
            (pos_hit (sr s) (plain_calls search) z \<or> pos_calls (norm_calls u search) \<inter> pos_calls (plain_calls search) = {}) \<longrightarrow> pred z))"
proof -
  let ?N = "norm_calls u search" and ?P = "plain_calls search"
  obtain norm plain neg where p: "prepareRetrieveCalls u visit (sr s) search = Some (norm, plain, neg)"
      "scm_ok s norm" "scm_ok s plain" "scm_ok s neg" "all_hits (sr s) norm = {z. pos_hit (sr s) ?N z}"
      "all_hits (sr s) plain = {z. pos_hit (sr s) ?P z}" "norm = [] \<longleftrightarrow> pos_ops ?N = {}"
      "set (gm_keys plain) \<subseteq> pos_calls ?P" "set (gm_keys neg) = neg_calls (?N @ ?P)" "set (gm_keys norm) \<subseteq> pos_calls ?N"
    using prepared [OF assms(1-5)] by blast
  have ne: "norm \<noteq> []" "search \<noteq> []" using p(7) assms(6) by (auto simp: norm_calls_def)
  have an: "any_hit (sr s) neg = {z. neg_hit (sr s) (?N @ ?P) z}" by (rule any_hit_neg [OF p(9)])
  show ?thesis
  proof (cases "hasConflictingCalls norm plain neg")
    case True
    then obtain c where c: "c \<in> set (gm_keys neg)" "c \<in> set (gm_keys norm) \<or> c \<in> pos_calls ?N"
      using conflict_norm [OF True] p(8,9) assms(7) by blast
    have "neg_hit (sr s) (?N @ ?P) z" if "pos_hit (sr s) ?N z" for z
    proof -
      have "z \<in> finds (sr s) c" using c(2)
      proof
        assume "c \<in> set (gm_keys norm)"
        then show ?thesis using that p(5) unfolding all_hits_def by blast
      next
        assume "c \<in> pos_calls ?N"
        then show ?thesis using that unfolding pos_calls_def pos_hit_def by auto
      qed
      then show ?thesis using c(1) p(9) unfolding neg_hit_def by blast
    qed
    moreover have "retrieveIndex u visit (sr s) search = Some (Some neverIncluded)"
      using True ne(2) by (simp add: retrieveIndex_def p(1))
    ultimately show ?thesis by (auto simp: neverIncluded_def)
  next
    case False
    obtain pred where pr: "retrieveIndex u visit (sr s) search = Some (Some pred)"
        "\<forall>z. pred z \<longleftrightarrow> z \<in> elems (retrievePositives visit norm plain) \<and> z \<notin> any_hit (sr s) neg"
      using retrieve_cases [OF assms(1) p(2-4) ne p(1) False assms(2)] by blast
    from retrievePositives_facts [OF assms(1) p(2,3) ne(1) assms(2), unfolded p(5,6)]
    obtain t where t: "retrievePositives visit norm plain = Some t"
        "set t \<subseteq> {z. pos_hit (sr s) ?N z} \<union> {z. pos_hit (sr s) ?P z}" "{z. pos_hit (sr s) ?N z} \<inter> {z. pos_hit (sr s) ?P z} \<subseteq> set t"
        "set (gm_keys norm) \<inter> set (gm_keys plain) = {} \<longrightarrow> {z. pos_hit (sr s) ?N z} \<subseteq> set t" by blast
    have "pred z \<longrightarrow> (pos_hit (sr s) ?N z \<or> pos_hit (sr s) ?P z) \<and> \<not> neg_hit (sr s) (?N @ ?P) z"
      "pos_hit (sr s) ?N z \<and> \<not> neg_hit (sr s) (?N @ ?P) z \<and> (pos_hit (sr s) ?P z \<or> pos_calls ?N \<inter> pos_calls ?P = {}) \<longrightarrow> pred z" for z
      using pr(2) t(2-4) p(8,10) unfolding an t(1) elems_simps by blast+
    then show ?thesis using pr(1) by blast
  qed
qed

text \<open>
  A search with negative words only retrieves the zettel without them, provided that some zettel
  has one of them; else it retrieves nothing.
\<close>

lemma retrieve_negative:
  assumes "ok s" and "\<forall>i. visit_ok (visit i)" and "calls_ok weak (norm_calls u search @ plain_calls search)"
    and "unrelated (neg_calls (norm_calls u search @ plain_calls search))"
    and "pos_ops (norm_calls u search @ plain_calls search) = {}" and "search \<noteq> []"
  shows "\<exists>pred. retrieveIndex u visit (sr s) search = Some (Some pred) \<and>
    (\<forall>z. pred z \<longleftrightarrow> (\<exists>y. neg_hit (sr s) (norm_calls u search @ plain_calls search) y) \<and>
         \<not> neg_hit (sr s) (norm_calls u search @ plain_calls search) z)"
proof -
  let ?N = "norm_calls u search" and ?P = "plain_calls search"
  have m: "mix_ok (pos_ops (?N @ ?P))" unfolding assms(5) by (simp add: mix_ok_def)
  obtain norm plain neg where p: "prepareRetrieveCalls u visit (sr s) search = Some (norm, plain, neg)"
      "scm_ok s neg" "norm = [] \<longleftrightarrow> pos_ops ?N = {}" "plain = [] \<longleftrightarrow> pos_ops ?P = {}"
      "set (gm_keys neg) = neg_calls (?N @ ?P)"
    using prepared [OF assms(1-3) m assms(4)] by blast
  then have e: "norm = []" "plain = []" using assms(5) by simp_all
  let ?neg = "retrieveNegatives (visit 2) neg"
  have n: "set_inv ?neg" "elems ?neg = {z. neg_hit (sr s) (?N @ ?P) z}"
    using retrieveNegatives_facts [OF assms(1) p(2) spec [OF assms(2)]] any_hit_neg [OF p(5)] by simp_all
  have none: "?neg = None \<longleftrightarrow> elems ?neg = {}"
  proof -
    have f: "fold (\<lambda>(val, sf) r. Set_IUnion r (sf (op_s val))) xs None = None \<or>
        elems (fold (\<lambda>(val, sf) r. Set_IUnion r (sf (op_s val))) xs None) \<noteq> {}" for xs :: searchCallMap
    proof (induction xs rule: rev_induct)
      case (snoc x xs)
      let ?r = "fold (\<lambda>(val, sf) r. Set_IUnion r (sf (op_s val))) xs None" and ?t = "snd x (op_s (fst x))"
      have s: "fold (\<lambda>(val, sf) r. Set_IUnion r (sf (op_s val))) (xs @ [x]) None = Set_IUnion ?r ?t"
        by (simp add: case_prod_unfold)
      have "set_inv ?r" using fold_results [OF set_inv_simps(1), of "\<lambda>x. snd x (op_s (fst x))" xs] by (simp add: case_prod_unfold)
      note u = Set_IUnion_correct [OF this, of ?t]
      show ?case
      proof (cases "elems ?t = {}")
        case True
        then have "Set_IUnion ?r ?t = ?r" by (auto simp: Set_IUnion_def split: option.splits)
        then show ?thesis using snoc s by simp
      next
        case False
        then show ?thesis unfolding s u(2) by blast
      qed
    qed simp
    show ?thesis using f [of "visited (visit 2) neg"] unfolding retrieveNegatives_def by auto
  qed
  have "\<not> hasConflictingCalls norm plain neg" by (simp add: hasConflictingCalls_def e list_ex_iff)
  moreover have "retrievePositives visit norm plain = None"
  proof -
    have "visit 1 [] = []" using spec [OF assms(2), of 1] unfolding visit_ok_def by (metis mset_zero_iff mset.simps(1))
    then show ?thesis by (simp add: retrievePositives_def isSuperset_def visited_def heap_read_def e)
  qed
  ultimately have "retrieveIndex u visit (sr s) search = Some (Some (\<lambda>zid. \<not> Set_ContainsOrNil ?neg zid))"
    using assms(6) by (simp add: retrieveIndex_def p(1))
  moreover have "\<not> Set_ContainsOrNil ?neg z \<longleftrightarrow> (\<exists>y. neg_hit (sr s) (?N @ ?P) y) \<and> \<not> neg_hit (sr s) (?N @ ?P) z" for z
    using Set_ContainsOrNil_correct [OF n(1), of z] none unfolding n(2) by auto
  ultimately show ?thesis by blast
qed

text \<open>When the words of a search are its values, the two bounds meet.\<close>

lemma retrieve_words:
  assumes "ok s" and "\<forall>i. visit_ok (visit i)" and "calls_ok weak (norm_calls u search)"
    and "mix_ok (pos_ops (norm_calls u search))" and "unrelated (neg_calls (norm_calls u search))"
    and "pos_ops (norm_calls u search) \<noteq> {}" and "plain_calls search = norm_calls u search"
  shows "\<exists>pred. retrieveIndex u visit (sr s) search = Some (Some pred) \<and>
    (\<forall>z. pred z \<longleftrightarrow> pos_hit (sr s) (norm_calls u search) z \<and> \<not> neg_hit (sr s) (norm_calls u search) z)"
proof -
  let ?N = "norm_calls u search"
  have a: "calls_ok weak (?N @ ?N)" "pos_ops (?N @ ?N) = pos_ops ?N" "neg_calls (?N @ ?N) = neg_calls ?N"
    using assms(3) by (auto simp: calls_ok_def pos_ops_def neg_calls_def)
  obtain pred where p: "retrieveIndex u visit (sr s) search = Some (Some pred)"
      "\<forall>z. (pred z \<longrightarrow> (pos_hit (sr s) ?N z \<or> pos_hit (sr s) ?N z) \<and> \<not> neg_hit (sr s) (?N @ ?N) z) \<and>
         (pos_hit (sr s) ?N z \<and> \<not> neg_hit (sr s) (?N @ ?N) z \<and>
           (pos_hit (sr s) ?N z \<or> pos_calls ?N \<inter> pos_calls ?N = {}) \<longrightarrow> pred z)"
    using retrieve_bounds [OF assms(1,2), of u search, unfolded assms(7), OF a(1) _ _ assms(6)] assms(4,5)
    unfolding a by blast
  have "neg_hit (sr s) (?N @ ?N) z = neg_hit (sr s) ?N z" for z unfolding neg_hit_def a(3) by (rule refl)
  then show ?thesis using p by blast
qed

end

end
