(* ===== verification/SearchLaws.thy ===== *)
theory SearchLaws
  imports IndexSearch
begin

text \<open>
  The two searches of the index store that compute with identifiers as numbers,
  \<open>SearchPrefix\<close> and \<open>SearchSuffix\<close>, meet the specification that speaks of printed identifiers.
\<close>

section \<open>Digits of identifiers\<close>

lemma horner_zeros: "horner b v (replicate k 0) = v * b ^ k"
  by (induction k arbitrary: v) (simp_all add: algebra_simps)

lemma horner_nines: "horner 10 v (replicate k 9) + 1 = (v + 1) * 10 ^ k"
  by (induction k arbitrary: v) (simp_all add: algebra_simps)

lemma ParseUint_digits:
  assumes "\<forall>d \<in> set ds. d < 10" and "0 < horner 10 0 ds" and "horner 10 0 ds \<le> maxZid"
  shows "ParseUint (map char10 ds) = Inr (horner 10 0 ds)"
proof -
  let ?s = "map char10 ds"
  have v: "map (the \<circ> digit_val) ?s = ds" using assms(1) by (rule map_digit_val_char10)
  have "parse_uint_loop 10 (2 ^ 47 - 1) 0 ?s = Inr (horner 10 0 (map (the \<circ> digit_val) ?s))"
    by (rule parse_uint_loop_horner) (use v assms in \<open>auto simp: maxZid_def\<close>)
  then have "parse_uint_loop 10 (2 ^ 47 - 1) 0 ?s = Inr (horner 10 0 ds)" by (simp only: v)
  moreover have "?s \<noteq> []" using assms(2) by auto
  ultimately show ?thesis using assms by (simp add: ParseUint_def strconv_ParseUint_def)
qed

lemma horner_14:
  assumes "\<forall>d \<in> set ds. d < 10" and "length ds \<le> 14"
  shows "horner 10 0 ds \<le> maxZid"
proof -
  have "horner 10 0 ds < 10 ^ length ds" using assms(1) by (rule horner_bound)
  also have "\<dots> \<le> (10::nat) ^ 14" using assms(2) by (rule power_increasing) simp
  finally show ?thesis by (simp add: maxZid_def)
qed

lemma Parse_digits:
  assumes "\<forall>d \<in> set ds. d < 10" and "length ds = 14" and "0 < horner 10 0 ds"
  shows "Parse (map char10 ds) = Inr (of_nat (horner 10 0 ds))"
  using ParseUint_digits [OF assms(1,3) horner_14] assms by (simp add: Parse_def)

lemma digits_take:
  assumes "n < 10 ^ 14" and "\<forall>d \<in> set ps. d < 10" and "length ps \<le> 14"
  shows "take (length ps) (digits 10 14 n) = ps \<longleftrightarrow> n div 10 ^ (14 - length ps) = horner 10 0 ps"
proof -
  define l where "l = length ps"
  define k where "k = 14 - l"
  have lk: "14 = l + k" using assms(3) by (simp add: l_def k_def)
  have "digits 10 14 n = digits 10 l (n div 10 ^ k) @ digits 10 k n" unfolding lk by (rule digits_add)
  then have t: "take l (digits 10 14 n) = digits 10 l (n div 10 ^ k)" by simp
  have b: "n div 10 ^ k < 10 ^ l"
    using assms(1) by (simp add: less_mult_imp_div_less lk power_add)
  show ?thesis unfolding l_def [symmetric] k_def [symmetric] t
  proof
    assume "digits 10 l (n div 10 ^ k) = ps"
    then have "horner 10 0 ps = n div 10 ^ k mod 10 ^ l" by (metis horner_digits zero_less_numeral)
    then show "n div 10 ^ k = horner 10 0 ps" using b by simp
  next
    assume "n div 10 ^ k = horner 10 0 ps"
    then show "digits 10 l (n div 10 ^ k) = ps" using digits_horner [OF assms(2)] by (simp add: l_def)
  qed
qed

lemma digits_drop:
  assumes "\<forall>d \<in> set ss. d < 10" and "length ss \<le> 14"
  shows "drop (14 - length ss) (digits 10 14 n) = ss \<longleftrightarrow> n mod 10 ^ length ss = horner 10 0 ss"
proof -
  define l where "l = length ss"
  define k where "k = 14 - l"
  have lk: "14 = k + l" using assms(2) by (simp add: l_def k_def)
  have "digits 10 14 n = digits 10 k (n div 10 ^ l) @ digits 10 l n" unfolding lk by (rule digits_add)
  then have t: "drop k (digits 10 14 n) = digits 10 l n" by simp
  have h: "digits 10 l (horner 10 0 ss) = ss" using digits_horner [OF assms(1)] by (simp add: l_def)
  show ?thesis unfolding l_def [symmetric] k_def [symmetric] t
    by (metis digits_mod h horner_digits zero_less_numeral)
qed

lemma valid_digits:
  assumes "IsValid z"
  shows "zid_String z = map char10 (digits 10 14 (unat z))" and "unat z < 10 ^ 14" and "0 < unat z"
  using assms zid_String_digits [of z] by (auto simp: unat_IsValid maxZid_def)

lemma map_char10_eq:
  assumes "\<forall>d \<in> set xs. d < 10" and "\<forall>d \<in> set ys. d < 10"
  shows "map char10 xs = map char10 ys \<longleftrightarrow> xs = ys"
  using map_digit_val_char10 [OF assms(1)] map_digit_val_char10 [OF assms(2)] by metis

lemma prefix_String:
  assumes "IsValid z" and "\<forall>d \<in> set ps. d < 10" and "length ps \<le> 14"
  shows "prefix (map char10 ps) (zid_String z) \<longleftrightarrow> unat z div 10 ^ (14 - length ps) = horner 10 0 ps"
proof -
  note v = valid_digits [OF assms(1)]
  have t: "\<forall>d \<in> set (take (length ps) (digits 10 14 (unat z))). d < 10"
    by (meson digits_less in_set_takeD zero_less_numeral)
  have "prefix (map char10 ps) (zid_String z) \<longleftrightarrow> map char10 (take (length ps) (digits 10 14 (unat z))) = map char10 ps"
    unfolding v(1) prefix_def by (metis append_eq_conv_conj length_map take_map)
  then show ?thesis unfolding map_char10_eq [OF t assms(2)] digits_take [OF v(2) assms(2,3)] .
qed

lemma suffix_String:
  assumes "IsValid z" and "\<forall>d \<in> set ss. d < 10" and "length ss \<le> 14"
  shows "suffix (map char10 ss) (zid_String z) \<longleftrightarrow> unat z mod 10 ^ length ss = horner 10 0 ss"
proof -
  note v = valid_digits [OF assms(1)]
  let ?ds = "digits 10 14 (unat z)"
  have t: "\<forall>d \<in> set (drop (14 - length ss) ?ds). d < 10"
    by (meson digits_less in_set_dropD zero_less_numeral)
  have "suffix (map char10 ss) (zid_String z) \<longleftrightarrow> map char10 (drop (14 - length ss) ?ds) = map char10 ss"
  proof
    assume "suffix (map char10 ss) (zid_String z)"
    then obtain us where us: "map char10 ?ds = us @ map char10 ss" unfolding v(1) suffix_def by blast
    then have "length us = 14 - length ss" by (metis add_diff_cancel_right' length_append length_digits length_map)
    then show "map char10 (drop (14 - length ss) ?ds) = map char10 ss" using us by (metis append_eq_conv_conj drop_map)
  next
    assume "map char10 (drop (14 - length ss) ?ds) = map char10 ss"
    then show "suffix (map char10 ss) (zid_String z)" unfolding v(1) by (metis drop_map suffix_drop)
  qed
  then show ?thesis unfolding map_char10_eq [OF t assms(2)] digits_drop [OF assms(2,3)] .
qed

text \<open>The digits a part of a printed identifier consists of.\<close>

definition all_digits :: "string \<Rightarrow> bool" where
  "all_digits s \<longleftrightarrow> (\<exists>ds. s = map char10 ds \<and> (\<forall>d \<in> set ds. d < 10))"

lemma all_digits_sub: "sublist s (zid_String z) \<Longrightarrow> IsValid z \<Longrightarrow> all_digits s \<and> length s \<le> 14"
proof -
  assume s: "sublist s (zid_String z)" and z: "IsValid z"
  obtain us vs where "map char10 (digits 10 14 (unat z)) = us @ s @ vs"
    using s valid_digits(1) [OF z] by (auto simp: sublist_def)
  then obtain as bs cs where b: "digits 10 14 (unat z) = as @ bs @ cs" "s = map char10 bs"
    by (metis map_eq_append_conv)
  then have "set bs \<subseteq> set (digits 10 14 (unat z))" by auto
  then have "\<forall>d \<in> set bs. d < 10" by (meson digits_less subsetD zero_less_numeral)
  moreover have "length bs \<le> 14" using arg_cong [OF b(1), of length] by simp
  ultimately show ?thesis using b(2) by (auto simp: all_digits_def)
qed

definition all_zero :: "string \<Rightarrow> bool" where
  "all_zero s \<longleftrightarrow> (\<forall>c \<in> set s. c = CHR ''0'')"

lemma char10_0: "d < 10 \<Longrightarrow> char10 d = CHR ''0'' \<longleftrightarrow> d = 0"
proof -
  assume d: "d < 10"
  have "CHR ''0'' = char10 0" by code_simp
  then show ?thesis using char10_eq [OF d, of 0] by simp
qed

lemma horner_pos: "\<exists>d \<in> set ds. d \<noteq> 0 \<Longrightarrow> 0 < horner 10 0 ds"
proof (induction ds rule: rev_induct)
  case (snoc d ds)
  then show ?case by (cases "d = 0") auto
qed simp

lemma horner_zero: "\<forall>d \<in> set ds. d = 0 \<Longrightarrow> horner 10 0 ds = 0"
  by (induction ds) auto

lemma is_ok_ParseUint_iff:
  assumes "length s \<le> 14"
  shows "is_ok (ParseUint s) \<longleftrightarrow> all_digits s \<and> \<not> all_zero s"
proof
  assume "is_ok (ParseUint s)"
  then obtain n where n: "ParseUint s = Inr n" by (auto simp: is_ok_iff)
  note p = ParseUint_Inr [OF n]
  let ?ds = "map (the \<circ> digit_val) s"
  have "\<exists>d \<in> set ?ds. d \<noteq> 0" using p(1,4) horner_zero by (metis less_irrefl)
  then have "\<not> all_zero s"
    using p(5) char10_0 unfolding all_zero_def by (subst p(3)) (auto simp del: map_map)
  then show "all_digits s \<and> \<not> all_zero s" using p(3,5) unfolding all_digits_def by blast
next
  assume "all_digits s \<and> \<not> all_zero s"
  then obtain ds where ds: "s = map char10 ds" "\<forall>d \<in> set ds. d < 10" and "\<not> all_zero s" by (auto simp: all_digits_def)
  then have "\<exists>d \<in> set ds. d \<noteq> 0" using char10_0 by (fastforce simp: all_zero_def)
  then show "is_ok (ParseUint s)"
    using ParseUint_digits [OF ds(2) horner_pos horner_14 [OF ds(2)]] ds(1) assms by (simp add: is_ok_iff)
qed


section \<open>Prefix and suffix searches\<close>

lemma unat_mid: "n \<le> maxZid \<Longrightarrow> m \<le> maxZid \<Longrightarrow> (of_nat n \<le> z \<and> z \<le> of_nat m) \<longleftrightarrow> (n \<le> unat z \<and> unat z \<le> (m::nat))"
  for z :: zid
  by (simp add: word_le_nat_alt unat_of_nat_zid)

lemma nines_eq: "take (14 - l) (replicate 14 CHR ''9'') = map char10 (replicate (14 - l) 9)"
  and zeros_eq: "take (14 - l) (replicate 14 CHR ''0'') = map char10 (replicate (14 - l) 0)"
proof -
  have "CHR ''9'' = char10 9" "CHR ''0'' = char10 0" by code_simp+
  then show "take (14 - l) (replicate 14 CHR ''9'') = map char10 (replicate (14 - l) 9)"
    "take (14 - l) (replicate 14 CHR ''0'') = map char10 (replicate (14 - l) 0)"
    by (simp_all only: take_replicate map_replicate min.absorb1 diff_le_self)
qed

lemma zero_prefix:
  assumes "l < 14" and "length p = l"
  shows "p = take l (replicate 13 CHR ''0'') \<longleftrightarrow> all_zero p"
proof -
  have "take l (replicate 13 CHR ''0'') = replicate (length p) CHR ''0''"
    using assms by (simp only: take_replicate min_def) auto
  then show ?thesis using replicate_length_same [of p "CHR ''0''"] by (metis all_zero_def in_set_replicate)
qed

lemma div_interval: "0 < (q::nat) \<Longrightarrow> v * q \<le> n \<and> n < (v + 1) * q \<longleftrightarrow> n div q = v"
  unfolding less_eq_div_iff_mult_less_eq [symmetric] div_less_iff_less_mult [symmetric] by linarith

lemma all_zero_digits: "\<forall>d \<in> set ds. d < 10 \<Longrightarrow> all_zero (map char10 ds) \<longleftrightarrow> (\<forall>d \<in> set ds. d = 0)"
  by (simp add: all_zero_def char10_0)

lemma horner_zero_iff: "horner 10 0 ds = 0 \<longleftrightarrow> (\<forall>d \<in> set ds. d = 0)"
  using horner_zero [of ds] horner_pos [of ds] by (metis less_irrefl)

lemma Parse_zero_digits:
  assumes "length s = 14" and "all_zero s"
  shows "Parse s \<noteq> Inr z"
proof
  assume p: "Parse s = Inr z"
  have "is_ok (ParseUint s)"
  proof (cases "ParseUint s")
    case (Inl e)
    then have "Parse s = Inl e" unfolding Parse_def using assms(1) by (simp only: sum.case if_False not_not refl simp_thms)
    then show ?thesis using p by (simp only: sum.distinct)
  next
    case (Inr n)
    then show ?thesis by (simp only: is_ok.simps)
  qed
  then show False using is_ok_ParseUint_iff [of s] assms by simp
qed

lemma Parse_digits_iff:
  assumes "\<forall>d \<in> set ds. d < 10" and "length ds = 14"
  shows "Parse (map char10 ds) = Inr z \<longleftrightarrow> 0 < horner 10 0 ds \<and> z = of_nat (horner 10 0 ds)"
proof (cases "0 < horner 10 0 ds")
  case True
  define h where "h = horner 10 0 ds"
  have "Parse (map char10 ds) = Inr (of_nat h)" and h: "0 < h"
    unfolding h_def by (rule Parse_digits [OF assms True], rule True)
  then have "Parse (map char10 ds) = Inr z \<longleftrightarrow> of_nat h = z" by (simp only: sum.inject)
  then show ?thesis unfolding h_def [symmetric] using h by (simp only: simp_thms eq_commute [of "of_nat h"])
next
  case False
  then have "horner 10 0 ds = 0" by (simp only: not_gr_zero)
  then have "all_zero (map char10 ds)" unfolding horner_zero_iff all_zero_digits [OF assms(1)] .
  then have "Parse (map char10 ds) \<noteq> Inr z" using assms(2) by (intro Parse_zero_digits) (simp only: length_map)
  then show ?thesis using False by (simp only: simp_thms)
qed

lemma horner_hi_lo:
  "horner 10 0 (ps @ replicate k 9) + 1 = (horner 10 0 ps + 1) * 10 ^ k"
  "horner 10 0 (ps @ replicate k 0) = horner 10 0 ps * 10 ^ k"
  unfolding horner_simps horner_zeros horner_nines by (rule refl)+

text \<open>The interval of identifiers with a given prefix.\<close>

lemma interval_prefix:
  assumes "\<forall>d \<in> set ps. d < 10" and "length ps + k = 14"
  shows "of_nat (max 1 (horner 10 0 (ps @ replicate k 0))) \<le> z \<and> z \<le> of_nat (horner 10 0 (ps @ replicate k 9)) \<longleftrightarrow>
    IsValid z \<and> prefix (map char10 ps) (zid_String z)"
proof -
  define v where "v = horner 10 0 ps"
  define hi where "hi = horner 10 0 (ps @ replicate k 9)"
  define lo where "lo = horner 10 0 (ps @ replicate k 0)"
  have hl: "hi + 1 = (v + 1) * 10 ^ k" "lo = v * 10 ^ k"
    unfolding hi_def lo_def v_def by (rule horner_hi_lo)+
  have d: "\<forall>d \<in> set (ps @ replicate k 9). d < 10" "\<forall>d \<in> set (ps @ replicate k 0). d < 10" using assms(1) by auto
  have hm: "hi \<le> maxZid" "lo \<le> maxZid"
    unfolding hi_def lo_def by (rule horner_14; use d assms(2) in simp)+
  then have m: "max 1 lo \<le> maxZid" by (simp add: maxZid_def)
  have k: "14 - length ps = k" "length ps \<le> 14" using assms(2) by simp_all
  have u: "of_nat (max 1 lo) \<le> z \<and> z \<le> of_nat hi \<longleftrightarrow> 1 \<le> unat z \<and> unat z div 10 ^ k = v"
  proof -
    have "0 < (10::nat) ^ k" by (rule zero_less_power) simp
    from div_interval [OF this, of v "unat z"] show ?thesis
      unfolding unat_mid [OF m hm(1)] hl(2) [symmetric] hl(1) [symmetric] by linarith
  qed
  have b: "IsValid z" if "1 \<le> unat z" "unat z div 10 ^ k = v"
  proof -
    have "z \<le> of_nat hi" using u that by blast
    then have "unat z \<le> maxZid" using hm(1) unat_of_nat_zid [OF hm(1)] by (simp add: word_le_nat_alt)
    then show ?thesis using that(1) by (simp add: unat_IsValid)
  qed
  have "IsValid z \<Longrightarrow> prefix (map char10 ps) (zid_String z) \<longleftrightarrow> unat z div 10 ^ k = v"
    using prefix_String [OF _ assms(1) k(2), of z] unfolding k(1) v_def .
  moreover have "IsValid z \<Longrightarrow> 1 \<le> unat z" using unat_IsValid by (simp add: Suc_leI)
  ultimately show ?thesis using u b unfolding hi_def lo_def by blast
qed

text \<open>The two bounds \<open>SearchPrefix\<close> parses, for a prefix of digits.\<close>

lemma prefix_bounds:
  assumes "\<forall>d \<in> set ps. d < 10" and "length ps + k = 14" and "p = map char10 ps"
  shows "Parse (p @ take k (replicate 14 CHR ''9'')) = Inr mx \<longleftrightarrow>
      0 < horner 10 0 (ps @ replicate k 9) \<and> mx = of_nat (horner 10 0 (ps @ replicate k 9))"
    and "Parse (p @ take k (replicate 14 CHR ''0'')) = Inr mn \<longleftrightarrow>
      0 < horner 10 0 (ps @ replicate k 0) \<and> mn = of_nat (horner 10 0 (ps @ replicate k 0))"
proof -
  have k: "k = 14 - length ps" using assms(2) by simp
  have d: "\<forall>d \<in> set (ps @ replicate k 9). d < 10" "\<forall>d \<in> set (ps @ replicate k 0). d < 10" using assms(1) by auto
  have l: "length (ps @ replicate k 9) = 14" "length (ps @ replicate k 0) = 14" using assms(2) by simp_all
  have n: "p @ take k (replicate 14 CHR ''9'') = map char10 (ps @ replicate k 9)"
    unfolding k nines_eq assms(3) map_append by (rule refl)
  have z: "p @ take k (replicate 14 CHR ''0'') = map char10 (ps @ replicate k 0)"
    unfolding k zeros_eq assms(3) map_append by (rule refl)
  show "Parse (p @ take k (replicate 14 CHR ''9'')) = Inr mx \<longleftrightarrow>
      0 < horner 10 0 (ps @ replicate k 9) \<and> mx = of_nat (horner 10 0 (ps @ replicate k 9))"
    unfolding n by (rule Parse_digits_iff [OF d(1) l(1)])
  show "Parse (p @ take k (replicate 14 CHR ''0'')) = Inr mn \<longleftrightarrow>
      0 < horner 10 0 (ps @ replicate k 0) \<and> mn = of_nat (horner 10 0 (ps @ replicate k 0))"
    unfolding z by (rule Parse_digits_iff [OF d(2) l(2)])
qed


definition prefix_min :: "string \<Rightarrow> strconv_error + zid" where
  "prefix_min p = (if length p < 14 \<and> p = take (length p) (replicate 13 CHR ''0'') then Inr 1
     else Parse (p @ take (14 - length p) (replicate 14 CHR ''0'')))"

definition prefix_max :: "string \<Rightarrow> strconv_error + zid" where
  "prefix_max p = Parse (p @ take (14 - length p) (replicate 14 CHR ''9''))"

lemma ex_bounds: "(\<exists>mn mx. (c \<and> mx = a) \<and> (c \<and> mn = b) \<and> mn \<le> z \<and> z \<le> mx) \<longleftrightarrow> c \<and> b \<le> z \<and> z \<le> a"
  by blast

lemma lo_zero: "horner 10 0 (ps @ replicate k 0) = 0 \<longleftrightarrow> (\<forall>d \<in> set ps. d = 0)"
  unfolding horner_zero_iff set_append ball_Un by simp

lemma hi_zero: "horner 10 0 (ps @ replicate k 9) = 0 \<longleftrightarrow> (\<forall>d \<in> set ps. d = 0) \<and> k = 0"
  unfolding horner_zero_iff set_append ball_Un by (simp add: set_replicate_conv_if)

lemma prefix_min_iff:
  assumes "\<forall>d \<in> set ps. d < 10" and "length ps + k = 14" and "p = map char10 ps" and "lo = horner 10 0 (ps @ replicate k 0)"
  shows "prefix_min p = Inr mn \<longleftrightarrow> (k \<noteq> 0 \<or> lo \<noteq> 0) \<and> mn = of_nat (max 1 lo)"
proof -
  have k: "14 - length p = k" using assms(2,3) by simp
  have z0: "lo = 0 \<longleftrightarrow> all_zero p" unfolding assms(3,4) lo_zero all_zero_digits [OF assms(1)] by (rule refl)
  have c: "length p < 14 \<and> p = take (length p) (replicate 13 CHR ''0'') \<longleftrightarrow> k \<noteq> 0 \<and> lo = 0"
  proof (cases "length p < 14")
    case True
    then have "k \<noteq> 0" using k by linarith
    then show ?thesis using zero_prefix [OF True refl] z0 True by blast
  next
    case False
    then have "k = 0" using k by linarith
    then show ?thesis using False by blast
  qed
  note b = prefix_bounds(2) [OF assms(1,2,3), of mn, folded assms(4)]
  show ?thesis
  proof (cases "k \<noteq> 0 \<and> lo = 0")
    case True
    then have "max 1 lo = 1" by simp
    then show ?thesis unfolding prefix_min_def k c if_P [OF True] using True by (simp only: sum.inject of_nat_1 simp_thms eq_commute [of 1])
  next
    case False
    have "lo \<noteq> 0 \<Longrightarrow> max 1 lo = lo" by simp
    then show ?thesis unfolding prefix_min_def k c if_not_P [OF False] b using False
      by (cases "lo = 0") (simp_all only: simp_thms less_irrefl neq0_conv)
  qed
qed

lemma prefix_max_iff:
  assumes "\<forall>d \<in> set ps. d < 10" and "length ps + k = 14" and "p = map char10 ps"
    and "lo = horner 10 0 (ps @ replicate k 0)" and "hi = horner 10 0 (ps @ replicate k 9)"
  shows "prefix_max p = Inr mx \<longleftrightarrow> (k \<noteq> 0 \<or> lo \<noteq> 0) \<and> mx = of_nat hi"
proof -
  have k: "14 - length p = k" using assms(2,3) by simp
  have "0 < hi \<longleftrightarrow> k \<noteq> 0 \<or> lo \<noteq> 0" using hi_zero [of ps k] lo_zero [of ps k] unfolding assms(4,5) by (metis neq0_conv)
  then show ?thesis unfolding prefix_max_def k prefix_bounds(1) [OF assms(1,2,3)] assms(5) [symmetric] by (simp only:)
qed

lemma prefix_range:
  assumes "all_digits p" and "length p \<le> 14"
  shows "(\<exists>mn mx. prefix_max p = Inr mx \<and> prefix_min p = Inr mn \<and> mn \<le> z \<and> z \<le> mx) \<longleftrightarrow>
    IsValid z \<and> prefix p (zid_String z)"
proof -
  obtain ps where ps: "p = map char10 ps" "\<forall>d \<in> set ps. d < 10" using assms(1) by (auto simp: all_digits_def)
  define k where "k = 14 - length p"
  have k: "length ps + k = 14" using assms(2) ps(1) by (simp add: k_def)
  define lo where "lo = horner 10 0 (ps @ replicate k 0)"
  define hi where "hi = horner 10 0 (ps @ replicate k 9)"
  have i: "of_nat (max 1 lo) \<le> z \<and> z \<le> of_nat hi \<longleftrightarrow> IsValid z \<and> prefix p (zid_String z)"
    unfolding lo_def hi_def ps(1) by (rule interval_prefix [OF ps(2) k])
  have "k \<noteq> 0 \<or> lo \<noteq> 0" if "IsValid z \<and> prefix p (zid_String z)"
  proof (rule ccontr)
    assume n: "\<not> (k \<noteq> 0 \<or> lo \<noteq> 0)"
    then have hl: "hi = 0" "lo = 0" using hi_zero [of ps k] lo_zero [of ps k] unfolding lo_def hi_def by metis+
    have "of_nat (max 1 lo) \<le> z" "z \<le> of_nat hi" using i that by metis+
    then show False unfolding hl by (simp add: word_le_nat_alt)
  qed
  then show ?thesis
    unfolding prefix_min_iff [OF ps(2) k ps(1) lo_def] prefix_max_iff [OF ps(2) k ps(1) lo_def hi_def] ex_bounds
    using i by metis
qed

lemma not_digits_Parse: "\<not> all_digits p \<Longrightarrow> \<not> is_ok (Parse (p @ s))"
proof
  assume n: "\<not> all_digits p" and "is_ok (Parse (p @ s))"
  then obtain z where "Parse (p @ s) = Inr z" by (auto simp: is_ok_iff)
  then have "IsValid z" "sublist p (zid_String z)" using String_Parse by auto
  then show False using all_digits_sub n by blast
qed

lemma search_spec_none:
  "(\<And>z. \<not> q z) \<Longrightarrow> search_spec ms p q = {b. \<exists>w \<in> set (zd_words (entry_at ms b)) \<union> set (zd_urls (entry_at ms b)). p w}"
  by (simp add: search_spec_def)

lemma SearchPrefix_cases:
  "SearchPrefix ms p =
     (let result = selectWithPred ms p strings_HasPrefix in
      if 14 < length p then result
      else case prefix_max p of Inl err \<Rightarrow> result
        | Inr mx \<Rightarrow> (case prefix_min p of Inl err \<Rightarrow> result
           | Inr mn \<Rightarrow> add_matching (\<lambda>zid. mn \<le> zid \<and> zid \<le> mx) (ms_idx ms) result))"
  unfolding SearchPrefix_def prefix_min_def prefix_max_def Let_def by (rule refl)

lemma String_long: "14 < length p \<Longrightarrow> \<not> sublist p (zid_String z)"
  using sublist_length_le [of p "zid_String z"] by (auto simp: zid_String_length)

lemma SearchPrefix_correct:
  assumes "ms_inv ms"
  shows "set_inv (SearchPrefix ms p) \<and> elems (SearchPrefix ms p) =
    search_spec ms (\<lambda>w. prefix p w) (\<lambda>z. IsValid z \<and> prefix p (zid_String z))"
proof -
  have io: "idx_ok ms" using assms by (simp add: ms_inv_def store_ok_def)
  note sel = selectWithPred_correct [OF assms, of p strings_HasPrefix]
  note m = add_matching_idx [OF io sel(1)]
  show ?thesis
  proof (cases "length p \<le> 14 \<and> all_digits p")
    case False
    then have "SearchPrefix ms p = selectWithPred ms p strings_HasPrefix"
      using not_digits_Parse [of p "take (14 - length p) (replicate 14 CHR ''9'')"]
      by (auto simp: SearchPrefix_cases Let_def prefix_max_def is_ok_iff split: sum.splits)
    moreover have "\<not> (IsValid z \<and> prefix p (zid_String z))" for z
      using False all_digits_sub [of p z] String_long [of p z] by (auto simp: prefix_imp_sublist)
    ultimately show ?thesis using sel by (simp add: search_spec_none strings_HasPrefix_def)
  next
    case True
    show ?thesis
    proof (cases "is_ok (prefix_max p) \<and> is_ok (prefix_min p)")
      case ok: True
      then obtain mx mn where mm: "prefix_max p = Inr mx" "prefix_min p = Inr mn" by (auto simp: is_ok_iff)
      have q: "mn \<le> z \<and> z \<le> mx \<longleftrightarrow> IsValid z \<and> prefix p (zid_String z)" for z
        using prefix_range [of p z] True mm by auto
      have "SearchPrefix ms p = add_matching (\<lambda>zid. mn \<le> zid \<and> zid \<le> mx) (ms_idx ms) (selectWithPred ms p strings_HasPrefix)"
        using True mm by (simp add: SearchPrefix_cases Let_def)
      then show ?thesis using m [of "\<lambda>zid. mn \<le> zid \<and> zid \<le> mx"] sel(2)
        unfolding q by (simp add: search_spec_def strings_HasPrefix_def)
    next
      case False
      then have "SearchPrefix ms p = selectWithPred ms p strings_HasPrefix"
        by (auto simp: SearchPrefix_cases Let_def is_ok_iff split: sum.splits)
      moreover have "\<not> (IsValid z \<and> prefix p (zid_String z))" for z
        using prefix_range [of p z] True False by (auto simp: is_ok_iff)
      ultimately show ?thesis using sel by (simp add: search_spec_none strings_HasPrefix_def)
    qed
  qed
qed

definition zids_valid :: "mapStore \<Rightarrow> bool" where
  "zids_valid ms \<longleftrightarrow> (\<forall>z. in_idx ms z \<longrightarrow> IsValid z)"

lemma SearchSuffix_correct:
  assumes "ms_inv ms" and "zids_valid ms"
  shows "set_inv (SearchSuffix ms s) \<and> elems (SearchSuffix ms s) =
    search_spec ms (\<lambda>w. suffix s w) (\<lambda>z. \<not> all_zero s \<and> IsValid z \<and> suffix s (zid_String z))"
proof -
  have io: "idx_ok ms" using assms by (simp add: ms_inv_def store_ok_def)
  note sel = selectWithPred_correct [OF assms(1), of s strings_HasSuffix]
  note m = add_matching_idx [OF io sel(1)]
  show ?thesis
  proof (cases "length s \<le> 14 \<and> is_ok (ParseUint s)")
    case False
    then have "SearchSuffix ms s = selectWithPred ms s strings_HasSuffix"
      by (auto simp: SearchSuffix_def Let_def is_ok_iff split: sum.splits)
    moreover have "\<not> (\<not> all_zero s \<and> IsValid z \<and> suffix s (zid_String z))" for z
      using False all_digits_sub [of s z] String_long [of s z] is_ok_ParseUint_iff [of s]
      by (auto simp: suffix_imp_sublist)
    ultimately show ?thesis using sel by (simp add: search_spec_none strings_HasSuffix_def)
  next
    case True
    then obtain v where v: "ParseUint s = Inr v" by (auto simp: is_ok_iff)
    note p = ParseUint_Inr [OF v]
    have nz: "\<not> all_zero s" using is_ok_ParseUint_iff [of s] True by blast
    let ?ds = "map (the \<circ> digit_val) s"
    have q: "unat z mod 10 ^ length s = v \<longleftrightarrow> suffix s (zid_String z)" if "IsValid z" for z
      using suffix_String [OF that p(5)] True p(3) p(4) by (metis length_map)
    have "SearchSuffix ms s = add_matching (\<lambda>zid. unat zid mod 10 ^ length s = v) (ms_idx ms) (selectWithPred ms s strings_HasSuffix)"
      using True v by (simp add: SearchSuffix_def Let_def)
    moreover have "{z. in_idx ms z \<and> unat z mod 10 ^ length s = v} = {z. in_idx ms z \<and> \<not> all_zero s \<and> IsValid z \<and> suffix s (zid_String z)}"
      using q nz assms(2) unfolding zids_valid_def by blast
    ultimately show ?thesis using m [of "\<lambda>zid. unat zid mod 10 ^ length s = v"] sel(2)
      by (simp add: search_spec_def strings_HasSuffix_def)
  qed
qed

end
