(* ===== verification/SearchIndex.thy ===== *)
theory SearchIndex
  imports RetrieveSets SearchLaws
begin

text \<open>
  The index store as the searcher of a query: the searches of \<open>box/manager/mapstore\<close> satisfy the
  interface of \<open>query.Searcher\<close>, so what a full-text search retrieves is stated on the index.
\<close>

section \<open>The searcher of the index store\<close>

definition mapstore_searcher :: "mapStore \<Rightarrow> searcher" where
  "mapstore_searcher ms = \<lparr>srch_Equal = SearchEqual ms, srch_Prefix = SearchPrefix ms,
     srch_Suffix = SearchSuffix ms, srch_Contains = SearchContains ms\<rparr>"

lemma mapstore_searcher_simps [simp]:
  "srch_Equal (mapstore_searcher ms) = SearchEqual ms" "srch_Prefix (mapstore_searcher ms) = SearchPrefix ms"
  "srch_Suffix (mapstore_searcher ms) = SearchSuffix ms" "srch_Contains (mapstore_searcher ms) = SearchContains ms"
  by (simp_all add: mapstore_searcher_def)

definition ms_ok :: "mapStore \<Rightarrow> bool" where
  "ms_ok ms \<longleftrightarrow> ms_inv ms \<and> zids_valid ms"

lemma search_spec_mono:
  "(\<And>w. p w \<Longrightarrow> p' w) \<Longrightarrow> (\<And>z. in_idx ms z \<Longrightarrow> q z \<Longrightarrow> q' z) \<Longrightarrow> search_spec ms p q \<subseteq> search_spec ms p' q'"
  unfolding search_spec_def by blast

lemma add_not_nil [simp]: "r \<noteq> None \<Longrightarrow> Set_IUnion r s \<noteq> None" "Set_Add r z \<noteq> None" "NewSet zs \<noteq> None"
  by (auto simp: Set_IUnion_def Set_Add_def Set_AddSlice_def NewSet_def split: option.splits list.splits)

lemma fold_not_nil: "(\<And>x r. r \<noteq> None \<Longrightarrow> f x r \<noteq> None) \<Longrightarrow> r \<noteq> None \<Longrightarrow> fold f xs r \<noteq> None"
  by (induction xs arbitrary: r) auto

lemma addBackwardZids_not_nil [simp]: "addBackwardZids r z zi \<noteq> None"
  unfolding addBackwardZids_def by (rule fold_not_nil) (auto simp del: not_None_eq split: prod.splits)

lemma add_matching_not_nil [simp]: "r \<noteq> None \<Longrightarrow> add_matching q idx r \<noteq> None"
  unfolding add_matching_def by (rule fold_not_nil) (auto simp del: not_None_eq split: prod.splits)

lemma selectWithPred_not_nil [simp]: "selectWithPred ms s p \<noteq> None"
  unfolding selectWithPred_def Let_def by (intro fold_not_nil) (auto simp del: not_None_eq split: prod.splits)

lemma searches_not_nil:
  "SearchEqual ms s \<noteq> None" "SearchPrefix ms s \<noteq> None" "SearchSuffix ms s \<noteq> None" "SearchContains ms s \<noteq> None"
proof -
  have r: "(case gm_get m s of Some refs \<Rightarrow> Set_IUnion r refs | None \<Rightarrow> r) \<noteq> None" if "r \<noteq> None" for m :: "(string, idset) gomap" and r
    using that by (cases "gm_get m s") auto
  show "SearchEqual ms s \<noteq> None"
    unfolding SearchEqual_def Let_def using r [OF r [OF add_not_nil(3)]]
    by (cases "Parse s"; cases "gm_get (ms_idx ms) (projr (Parse s))") (simp_all only: sum.case option.case sum.sel addBackwardZids_not_nil not_False_eq_True)
  show "SearchPrefix ms s \<noteq> None"
    unfolding SearchPrefix_cases Let_def by (simp del: not_None_eq split: sum.splits)
  show "SearchSuffix ms s \<noteq> None" "SearchContains ms s \<noteq> None"
    unfolding SearchSuffix_def SearchContains_def Let_def by (simp_all del: not_None_eq split: sum.splits)
qed

text \<open>A part of an identifier that is not all zeros is a number.\<close>

lemma part_is_number: "sublist p (zid_String z) \<Longrightarrow> IsValid z \<Longrightarrow> \<not> all_zero p \<Longrightarrow> length p \<le> 14 \<and> is_ok (ParseUint p)"
  using all_digits_sub is_ok_ParseUint_iff by blast

lemma number_not_zero: "length s \<le> 14 \<Longrightarrow> is_ok (ParseUint s) \<Longrightarrow> \<not> all_zero s"
  using is_ok_ParseUint_iff by blast

lemma search_elems:
  assumes "ms_ok ms"
  shows "elems (SearchEqual ms w) = search_spec ms (\<lambda>v. v = w) (\<lambda>z. Parse w = Inr z)"
    and "elems (SearchPrefix ms w) = search_spec ms (\<lambda>v. prefix w v) (\<lambda>z. IsValid z \<and> prefix w (zid_String z))"
    and "elems (SearchSuffix ms w) = search_spec ms (\<lambda>v. suffix w v) (\<lambda>z. \<not> all_zero w \<and> IsValid z \<and> suffix w (zid_String z))"
    and "elems (SearchContains ms w) = search_spec ms (\<lambda>v. sublist w v) (\<lambda>z. length w \<le> 14 \<and> is_ok (ParseUint w) \<and> sublist w (zid_String z))"
  using SearchEqual_correct SearchPrefix_correct SearchSuffix_correct SearchContains_correct assms unfolding ms_ok_def by blast+

interpretation idx: index_searcher ms_ok mapstore_searcher all_zero
proof (unfold_locales, goal_cases)
  case (1 ms w) then show ?case using SearchEqual_correct searches_not_nil(1) by (simp add: ms_ok_def del: not_None_eq)
next
  case (2 ms w) then show ?case using SearchPrefix_correct searches_not_nil(2) by (simp add: ms_ok_def del: not_None_eq)
next
  case (3 ms w) then show ?case using SearchSuffix_correct searches_not_nil(3) by (simp add: ms_ok_def del: not_None_eq)
next
  case (4 ms w) then show ?case using SearchContains_correct searches_not_nil(4) by (simp add: ms_ok_def del: not_None_eq)
next
  case (5 ms p w)
  show ?case unfolding mapstore_searcher_simps search_elems [OF 5(1)]
    by (rule search_spec_mono) (use 5(3) prefix_order.trans in blast)+
next
  case (6 ms p w)
  show ?case unfolding mapstore_searcher_simps search_elems [OF 6(1)]
    by (rule search_spec_mono) (use 6(2,3) suffix_order.trans in blast)+
next
  case (7 ms p w)
  have v: "IsValid z" if "in_idx ms z" for z using 7(1) that by (simp add: ms_ok_def zids_valid_def)
  show ?case unfolding mapstore_searcher_simps search_elems [OF 7(1)]
    by (rule search_spec_mono) (use 7(2,3) v part_is_number sublist_order.order.trans in blast)+
next
  case (8 ms p)
  show ?case unfolding mapstore_searcher_simps search_elems [OF 8(1)]
    by (rule search_spec_mono) (use 8(2) part_is_number [of p] String_Parse [of p] in auto)
next
  case (9 ms p)
  show ?case unfolding mapstore_searcher_simps search_elems [OF 9(1)]
    by (rule search_spec_mono) (use 9(2) part_is_number [of p] prefix_imp_sublist in blast)+
next
  case (10 ms p)
  show ?case unfolding mapstore_searcher_simps search_elems [OF 10(1)]
    by (rule search_spec_mono) (use 10(2) part_is_number [of p] suffix_imp_sublist in blast)+
qed

section \<open>Full-text search on the index\<close>

definition search_word :: "compareOp \<Rightarrow> string \<Rightarrow> expValue" where
  "search_word op w = \<lparr>ev_value = w, ev_op = op\<rparr>"

definition one_word_store :: mapStore where
  "one_word_store = fst (UpdateReferences doc_zsc mapstore_New (build_zidx (meta_New 7) [] [''foo''] []))"

lemma one_word_store_ok: "ms_ok one_word_store"
proof -
  obtain ms tc where u: "UpdateReferences doc_zsc mapstore_New (build_zidx (meta_New 7) [] [''foo''] []) = (ms, tc)" by (rule prod.exhaust)
  have "ms_inv one_word_store" using UpdateReferences_inv [OF ms_inv_New build_zidx_ok u] u by (simp add: one_word_store_def)
  moreover have "gm_keys (ms_idx one_word_store) = [7]" by code_simp
  then have "zids_valid one_word_store" unfolding zids_valid_def in_idx_def gm_get_None_iff not_not by (simp add: IsValid_def)
  ultimately show ?thesis by (simp add: ms_ok_def)
qed


lemma some_words:
  defines "search \<equiv> [search_word cmpMatch ''foo'', search_word cmpNoMatch ''bar'']"
  shows "norm_calls ascii_unicode search = [(''foo'', cmpMatch), (''bar'', cmpNoMatch)]"
    and "plain_calls search = [(''foo'', cmpMatch), (''bar'', cmpNoMatch)]"
proof -
  have w: "NormalizeWords ascii_unicode ''foo'' = [''foo'']" "NormalizeWords ascii_unicode ''bar'' = [''bar'']"
    "strings_ToLower (strings_TrimSpace ''foo'') = ''foo''" "strings_ToLower (strings_TrimSpace ''bar'') = ''bar''" by code_simp+
  show "norm_calls ascii_unicode search = [(''foo'', cmpMatch), (''bar'', cmpNoMatch)]"
    "plain_calls search = [(''foo'', cmpMatch), (''bar'', cmpNoMatch)]"
    by (simp_all add: norm_calls_def plain_calls_def search_def search_word_def w)
qed


text \<open>
  A full-text search with at least one positive word retrieves only zettel found for all its
  positive words, or for all its positive values taken as they are, and for none of its negative
  ones. It retrieves every zettel found for all positive words, all positive values and no negative
  one; where no positive value is one of the words, being found for all words suffices.
\<close>

lemma full_text_bounds:
  assumes "ms_ok ms" and "\<forall>i. visit_ok (visit i)" and "calls_ok all_zero (norm_calls u search @ plain_calls search)"
    and "mix_ok (pos_ops (norm_calls u search @ plain_calls search))"
    and "unrelated (neg_calls (norm_calls u search @ plain_calls search))"
    and "pos_ops (norm_calls u search) \<noteq> {}"
    and "pos_calls (plain_calls search) \<inter> neg_calls (norm_calls u search @ plain_calls search) \<subseteq> pos_calls (norm_calls u search)"
  shows "\<exists>pred. retrieveIndex u visit (mapstore_searcher ms) search = Some (Some pred) \<and>
    (\<forall>z. (pred z \<longrightarrow> (pos_hit (mapstore_searcher ms) (norm_calls u search) z \<or> pos_hit (mapstore_searcher ms) (plain_calls search) z) \<and>
            \<not> neg_hit (mapstore_searcher ms) (norm_calls u search @ plain_calls search) z) \<and>
         (pos_hit (mapstore_searcher ms) (norm_calls u search) z \<and>
            \<not> neg_hit (mapstore_searcher ms) (norm_calls u search @ plain_calls search) z \<and>
            (pos_hit (mapstore_searcher ms) (plain_calls search) z \<or> pos_calls (norm_calls u search) \<inter> pos_calls (plain_calls search) = {}) \<longrightarrow> pred z))"
  by (rule idx.retrieve_bounds [OF assms])

lemma full_text_bounds_witness:
  "\<exists>pred. retrieveIndex ascii_unicode (\<lambda>i. rev) (mapstore_searcher one_word_store) [search_word cmpMatch ''Foo-baz''] = Some (Some pred) \<and>
    (\<forall>z. pred z \<longrightarrow> pos_hit (mapstore_searcher one_word_store) [(''foo'', cmpMatch), (''baz'', cmpMatch)] z \<or>
       pos_hit (mapstore_searcher one_word_store) [(''foo-baz'', cmpMatch)] z)"
proof -
  let ?search = "[search_word cmpMatch ''Foo-baz'']"
  have w: "NormalizeWords ascii_unicode ''Foo-baz'' = [''foo'', ''baz'']"
    "strings_ToLower (strings_TrimSpace ''Foo-baz'') = ''foo-baz''" by code_simp+
  have c: "norm_calls ascii_unicode ?search = [(''foo'', cmpMatch), (''baz'', cmpMatch)]" "plain_calls ?search = [(''foo-baz'', cmpMatch)]"
    by (simp_all add: norm_calls_def plain_calls_def search_word_def w)
  have "\<forall>i::nat. visit_ok rev" by (simp add: visit_ok_def)
  moreover have "calls_ok all_zero [(''foo'', cmpMatch), (''baz'', cmpMatch), (''foo-baz'', cmpMatch)]"
    by (simp add: calls_ok_def all_zero_def searchable_def contains_like_def)
  ultimately show ?thesis
    using full_text_bounds [OF one_word_store_ok, of "\<lambda>i. rev" ascii_unicode ?search] unfolding c
    by (simp add: mix_ok_def contains_like_def unrelated_def) blast
qed



section \<open>Where the search differs from its documentation\<close>

text \<open>
  Negative calls are united, so the shorter word must be kept; \<open>addSearch\<close> keeps the longer one,
  as for positive calls, which are intersected. Excluding also the word \<open>foo\<close> has no effect.
\<close>

lemma negative_word_dropped:
  "retrieveIndex ascii_unicode (\<lambda>i ks. ks) sr [search_word cmpNoMatch ''foobar'', search_word cmpNoMatch ''foo''] =
   retrieveIndex ascii_unicode (\<lambda>i ks. ks) sr [search_word cmpNoMatch ''foobar'']"
proof -
  have w: "NormalizeWords ascii_unicode ''foo'' = [''foo'']" "NormalizeWords ascii_unicode ''foobar'' = [''foobar'']"
    "strings_ToLower (strings_TrimSpace ''foo'') = ''foo''" "strings_ToLower (strings_TrimSpace ''foobar'') = ''foobar''" by code_simp+
  show ?thesis
    by (simp add: retrieveIndex_def prepareRetrieveCalls_def norm_calls_def plain_calls_def search_word_def w
        add_calls_def add_call_def scm_addSearch_def strings_Contains_def sublist_code gm_put_def gm_delete_def AList.delete_eq)
qed

text \<open>A substring operation removes a call of another operation: the search for the exact word is lost.\<close>

lemma exact_word_dropped:
  "retrieveIndex ascii_unicode (\<lambda>i ks. ks) sr [search_word cmpEqual ''foo'', search_word cmpMatch ''foobar''] =
   retrieveIndex ascii_unicode (\<lambda>i ks. ks) sr [search_word cmpMatch ''foobar'']"
proof -
  have w: "NormalizeWords ascii_unicode ''foo'' = [''foo'']" "NormalizeWords ascii_unicode ''foobar'' = [''foobar'']"
    "strings_ToLower (strings_TrimSpace ''foo'') = ''foo''" "strings_ToLower (strings_TrimSpace ''foobar'') = ''foobar''" by code_simp+
  show ?thesis
    by (simp add: retrieveIndex_def prepareRetrieveCalls_def norm_calls_def plain_calls_def search_word_def w
        add_calls_def add_call_def scm_addSearch_def strings_Contains_def sublist_code gm_put_def gm_delete_def AList.delete_eq)
qed
text \<open>
  The cache of \<open>retrievePositives\<close> holds the set that \<open>IntersectOrSet\<close> then changes in place. A search
  for \<open>foo\<close> and \<open>bar-baz\<close> finds a zettel with the words \<open>foo\<close>, \<open>bar\<close> and \<open>baz\<close> if the loop over the
  plain calls starts with \<open>bar-baz\<close>, and does not find it if the loop starts with \<open>foo\<close>.
\<close>

definition three_words :: searchFunc where
  "three_words w = Some (if w \<in> {''foo'', ''bar'', ''baz''} then [7] else [])"

lemma cached_result_overwritten:
  defines "norm \<equiv> map (\<lambda>w. (\<lparr>op_s = w, op_op = cmpMatch\<rparr>, three_words)) [''foo'', ''bar'', ''baz'']"
    and "plain \<equiv> map (\<lambda>w. (\<lparr>op_s = w, op_op = cmpMatch\<rparr>, three_words)) [''foo'', ''bar-baz'']"
  shows "retrievePositives (\<lambda>i. rev) norm plain = Some [7]" and "retrievePositives (\<lambda>i ks. ks) norm plain = Some []"
  unfolding norm_def plain_def by code_simp+

end
