(* ===== verification/Select.thy ===== *)
theory Select
  imports Retrieve
begin

text \<open>
  Selection by metadata values (\<open>query/select.go\<close>) and the compilation of a query
  (\<open>RetrieveAndCompile\<close> of \<open>query/query.go\<close>). A match function comes with the search values it adds
  to its term. \<open>None\<close> is the panic of a comparison operation that has no meaning for values.
\<close>

section \<open>Predicates on values\<close>

type_synonym matchValueFunc = "string \<Rightarrow> bool"

type_synonym stringPredicate = "string \<Rightarrow> bool"

type_synonym stringSetPredicate = "string list \<Rightarrow> bool"

definition matchValueNever :: matchValueFunc where
  "matchValueNever value = False"

record matchSpec =
  spec_key :: string
  spec_match :: matchValueFunc

definition stringLess :: "string \<Rightarrow> string \<Rightarrow> bool" where
  "stringLess val1 val2 \<longleftrightarrow> val1 < val2"

definition stringGreater :: "string \<Rightarrow> string \<Rightarrow> bool" where
  "stringGreater val1 val2 \<longleftrightarrow> val2 < val1"

definition isDigits :: "string \<Rightarrow> bool" where
  "isDigits s \<longleftrightarrow> list_all (\<lambda>ch. \<not> (ch < CHR ''0'' \<or> CHR ''9'' < ch)) s"

fun disambiguateWordOp :: "compareOp \<Rightarrow> compareOp" where
  "disambiguateWordOp cmpHas = cmpEqual"
| "disambiguateWordOp cmpHasNot = cmpNotEqual"
| "disambiguateWordOp cmpOp = cmpOp"

fun disambiguatedStringOp :: "compareOp \<Rightarrow> compareOp" where
  "disambiguatedStringOp cmpHas = cmpMatch"
| "disambiguatedStringOp cmpHasNot = cmpNoMatch"
| "disambiguatedStringOp cmpOp = cmpOp"

fun createWordCompareFunc :: "string \<Rightarrow> compareOp \<Rightarrow> stringPredicate option" where
  "createWordCompareFunc cmpVal cmpEqual = Some (\<lambda>metaVal. metaVal = cmpVal)"
| "createWordCompareFunc cmpVal cmpNotEqual = Some (\<lambda>metaVal. metaVal \<noteq> cmpVal)"
| "createWordCompareFunc cmpVal cmpPrefix = Some (\<lambda>metaVal. strings_HasPrefix metaVal cmpVal)"
| "createWordCompareFunc cmpVal cmpNoPrefix = Some (\<lambda>metaVal. \<not> strings_HasPrefix metaVal cmpVal)"
| "createWordCompareFunc cmpVal cmpSuffix = Some (\<lambda>metaVal. strings_HasSuffix metaVal cmpVal)"
| "createWordCompareFunc cmpVal cmpNoSuffix = Some (\<lambda>metaVal. \<not> strings_HasSuffix metaVal cmpVal)"
| "createWordCompareFunc cmpVal cmpMatch = Some (\<lambda>metaVal. strings_Contains metaVal cmpVal)"
| "createWordCompareFunc cmpVal cmpNoMatch = Some (\<lambda>metaVal. \<not> strings_Contains metaVal cmpVal)"
| "createWordCompareFunc cmpVal cmpLess = Some (\<lambda>metaVal. metaVal < cmpVal)"
| "createWordCompareFunc cmpVal cmpNoLess = Some (\<lambda>metaVal. metaVal \<ge> cmpVal)"
| "createWordCompareFunc cmpVal cmpGreater = Some (\<lambda>metaVal. metaVal > cmpVal)"
| "createWordCompareFunc cmpVal cmpNoGreater = Some (\<lambda>metaVal. metaVal \<le> cmpVal)"
| "createWordCompareFunc cmpVal _ = None"

definition parse_and :: "(int \<Rightarrow> bool) \<Rightarrow> stringPredicate" where
  "parse_and cmpFunc metaVal = (case strconv_ParseInt metaVal of None \<Rightarrow> False | Some iMetaVal \<Rightarrow> cmpFunc iMetaVal)"

fun createNumberCompareFunc :: "int \<Rightarrow> compareOp \<Rightarrow> stringPredicate option" where
  "createNumberCompareFunc cmpVal cmpEqual = Some (parse_and (\<lambda>iMetaVal. iMetaVal = cmpVal))"
| "createNumberCompareFunc cmpVal cmpNotEqual = Some (parse_and (\<lambda>iMetaVal. iMetaVal \<noteq> cmpVal))"
| "createNumberCompareFunc cmpVal cmpLess = Some (parse_and (\<lambda>iMetaVal. iMetaVal < cmpVal))"
| "createNumberCompareFunc cmpVal cmpNoLess = Some (parse_and (\<lambda>iMetaVal. iMetaVal \<ge> cmpVal))"
| "createNumberCompareFunc cmpVal cmpGreater = Some (parse_and (\<lambda>iMetaVal. iMetaVal > cmpVal))"
| "createNumberCompareFunc cmpVal cmpNoGreater = Some (parse_and (\<lambda>iMetaVal. iMetaVal \<le> cmpVal))"
| "createNumberCompareFunc cmpVal _ = None"

definition makeStringSetPredicate :: "string \<Rightarrow> (string \<Rightarrow> string \<Rightarrow> bool) \<Rightarrow> bool \<Rightarrow> stringSetPredicate" where
  "makeStringSetPredicate neededValue compare foundResult metaVals =
     (if list_ex (\<lambda>metaVal. compare metaVal neededValue) metaVals then foundResult else \<not> foundResult)"

section \<open>Predicates of the values of a query\<close>

text \<open>A loop over values that builds one predicate each and collects the search values.\<close>

definition value_preds :: "(expValue \<Rightarrow> 'p option \<times> expValue list) \<Rightarrow> expValue list \<Rightarrow> ('p list \<times> expValue list) option" where
  "value_preds f values =
     map_option (\<lambda>preds. (preds, concat (map (\<lambda>v. snd (f v)) values))) (those (map (\<lambda>v. fst (f v)) values))"

definition positive_only :: "compareOp \<Rightarrow> expValue \<Rightarrow> expValue list" where
  "positive_only op v = (if isNegated op then [] else [v])"

definition valuesToIDPredicates :: "expValue list \<Rightarrow> (stringPredicate list \<times> expValue list) option" where
  "valuesToIDPredicates = value_preds (\<lambda>v.
     let value = (if 14 < length (ev_value v) then take 14 (ev_value v) else ev_value v);
         op = disambiguateWordOp (ev_op v)
     in if op \<in> {cmpLess, cmpNoLess, cmpGreater, cmpNoGreater} \<and> isDigits value
        then (createWordCompareFunc (value @ take (14 - length value) (replicate 14 CHR ''0'')) op, [])
        else (createWordCompareFunc value op, positive_only op v))"

definition valuesToTimestampPredicates :: "expValue list \<Rightarrow> (stringPredicate list \<times> expValue list) option" where
  "valuesToTimestampPredicates = value_preds (\<lambda>v.
     let value = ExpandTimestamp (ev_value v); op = disambiguateWordOp (ev_op v)
     in if op \<in> {cmpLess, cmpNoLess, cmpGreater, cmpNoGreater} \<and> isDigits value
        then (createWordCompareFunc value op, [])
        else (createWordCompareFunc value op, positive_only op v))"

definition valuesToNumberPredicates :: "expValue list \<Rightarrow> (stringPredicate list \<times> expValue list) option" where
  "valuesToNumberPredicates = value_preds (\<lambda>v.
     let op = disambiguateWordOp (ev_op v); word = (createWordCompareFunc (ev_value v) op, positive_only op v)
     in if op \<in> {cmpEqual, cmpNotEqual, cmpLess, cmpNoLess, cmpGreater, cmpNoGreater}
        then (case strconv_ParseInt (ev_value v) of Some iValue \<Rightarrow> (createNumberCompareFunc iValue op, []) | None \<Rightarrow> word)
        else word)"

definition valuesToStringPredicates :: "expValue list \<Rightarrow> (stringPredicate list \<times> expValue list) option" where
  "valuesToStringPredicates = value_preds (\<lambda>v.
     let op = disambiguatedStringOp (ev_op v) in (createWordCompareFunc (ev_value v) op, positive_only op v))"

definition valuesToWordPredicates :: "expValue list \<Rightarrow> (stringPredicate list \<times> expValue list) option" where
  "valuesToWordPredicates = value_preds (\<lambda>v.
     let op = disambiguateWordOp (ev_op v) in (createWordCompareFunc (ev_value v) op, positive_only op v))"

definition set_pred :: "expValue \<Rightarrow> stringSetPredicate option \<times> expValue list" where
  "set_pred v =
     (let opVal = ev_value v in
      case disambiguateWordOp (ev_op v) of
        cmpEqual \<Rightarrow> (Some (makeStringSetPredicate opVal stringEqual True), [v])
      | cmpNotEqual \<Rightarrow> (Some (makeStringSetPredicate opVal stringEqual False), [])
      | cmpPrefix \<Rightarrow> (Some (makeStringSetPredicate opVal strings_HasPrefix True), [v])
      | cmpNoPrefix \<Rightarrow> (Some (makeStringSetPredicate opVal strings_HasPrefix False), [])
      | cmpSuffix \<Rightarrow> (Some (makeStringSetPredicate opVal strings_HasSuffix True), [v])
      | cmpNoSuffix \<Rightarrow> (Some (makeStringSetPredicate opVal strings_HasSuffix False), [])
      | cmpMatch \<Rightarrow> (Some (makeStringSetPredicate opVal strings_Contains True), [v])
      | cmpNoMatch \<Rightarrow> (Some (makeStringSetPredicate opVal strings_Contains False), [])
      | cmpLess \<Rightarrow> (Some (makeStringSetPredicate opVal stringLess True), [])
      | cmpNoLess \<Rightarrow> (Some (makeStringSetPredicate opVal stringLess False), [])
      | cmpGreater \<Rightarrow> (Some (makeStringSetPredicate opVal stringGreater True), [])
      | cmpNoGreater \<Rightarrow> (Some (makeStringSetPredicate opVal stringGreater False), [])
      | _ \<Rightarrow> (None, []))"

definition valuesToSetPredicates :: "expValue list list \<Rightarrow> (stringSetPredicate list list \<times> expValue list) option" where
  "valuesToSetPredicates values =
     map_option (\<lambda>rs. (map fst rs, concat (map snd rs))) (those (map (value_preds set_pred) values))"

fun split_loop :: "char \<Rightarrow> string \<Rightarrow> string \<Rightarrow> string list" where
  "split_loop sep word [] = [word]"
| "split_loop sep word (c # cs) = (if c = sep then word # split_loop sep [] cs else split_loop sep (word @ [c]) cs)"

text \<open>\<open>strings.Split\<close> with a separator of one character.\<close>

definition strings_Split :: "string \<Rightarrow> char \<Rightarrow> string list" where
  "strings_Split s sep = split_loop sep [] s"

definition preprocess_elem :: "expValue \<Rightarrow> expValue list" where
  "preprocess_elem elem =
     map (\<lambda>e. \<lparr>ev_value = e, ev_op = ev_op elem\<rparr>)
       (filter (\<lambda>e. 0 < length e) (map strings_TrimSpace (strings_Split (ev_value elem) (CHR '',''))))"

definition preprocessSet :: "expValue list \<Rightarrow> expValue list list" where
  "preprocessSet vals = filter (\<lambda>valueElems. 0 < length valueElems) (map preprocess_elem vals)"

definition processTagSet :: "expValue list list \<Rightarrow> expValue list list" where
  "processTagSet valueSet = map (map (\<lambda>val.
     let tval = ev_value val in
     if tval \<noteq> [] \<and> hd tval = CHR ''#'' then \<lparr>ev_value = CleanTag tval, ev_op = ev_op val\<rparr>
     else \<lparr>ev_value = tval, ev_op = ev_op val\<rparr>)) valueSet"

definition sliceToLower :: "expValue list \<Rightarrow> expValue list" where
  "sliceToLower = map (\<lambda>s. \<lparr>ev_value = strings_ToLower (ev_value s), ev_op = ev_op s\<rparr>)"

section \<open>Match functions for the types of keys\<close>

type_synonym match_result = "(matchValueFunc \<times> expValue list) option"

definition all_preds :: "(string \<Rightarrow> 'a) \<Rightarrow> (('a \<Rightarrow> bool) list \<times> expValue list) option \<Rightarrow> match_result" where
  "all_preds prepare = map_option (\<lambda>(preds, added). (\<lambda>value. list_all (\<lambda>pred. pred (prepare value)) preds, added))"

definition createMatchIDFunc :: "expValue list \<Rightarrow> match_result" where
  "createMatchIDFunc values = all_preds (\<lambda>value. value) (valuesToIDPredicates values)"

definition all_set_preds :: "(string \<Rightarrow> string list) \<Rightarrow> (stringSetPredicate list list \<times> expValue list) option \<Rightarrow> match_result" where
  "all_set_preds prepare = map_option (\<lambda>(predList, added).
     (\<lambda>value. list_all (\<lambda>preds. list_all (\<lambda>pred. pred (prepare value)) preds) predList, added))"

definition createMatchIDSetFunc :: "expValue list \<Rightarrow> match_result" where
  "createMatchIDSetFunc values = all_set_preds ListFromValue (valuesToSetPredicates (preprocessSet values))"

definition createMatchTimestampFunc :: "expValue list \<Rightarrow> match_result" where
  "createMatchTimestampFunc values = all_preds ExpandTimestamp (valuesToTimestampPredicates values)"

definition createMatchNumberFunc :: "expValue list \<Rightarrow> match_result" where
  "createMatchNumberFunc values = all_preds (\<lambda>value. value) (valuesToNumberPredicates values)"

definition createMatchTagSetFunc :: "expValue list \<Rightarrow> match_result" where
  "createMatchTagSetFunc values =
     all_set_preds TagsFromValue (valuesToSetPredicates (processTagSet (preprocessSet (sliceToLower values))))"

definition createMatchWordFunc :: "expValue list \<Rightarrow> match_result" where
  "createMatchWordFunc values = all_preds strings_ToLower (valuesToWordPredicates (sliceToLower values))"

definition createMatchStringFunc :: "expValue list \<Rightarrow> match_result" where
  "createMatchStringFunc values = all_preds strings_ToLower (valuesToStringPredicates (sliceToLower values))"

definition noneOf :: "stringPredicate \<Rightarrow> string list \<Rightarrow> bool" where
  "noneOf pred values \<longleftrightarrow> \<not> list_ex pred values"

text \<open>
  The text of a zettelmarkup value. \<open>to_text\<close> is the text encoding of the parsed value, used when
  the value has characters besides letters, digits and spaces.
\<close>

definition zmk2text :: "(string \<Rightarrow> string) \<Rightarrow> string \<Rightarrow> string" where
  "zmk2text to_text zmk =
     (let isASCII = list_all (\<lambda>ch. byte_code ch < 128) zmk;
          isUpper = (\<lambda>ch. CHR ''A'' \<le> ch \<and> ch \<le> CHR ''Z'');
          simple = (\<lambda>ch. isUpper ch \<or> (CHR ''a'' \<le> ch \<and> ch \<le> CHR ''z'') \<or> (CHR ''0'' \<le> ch \<and> ch \<le> CHR ''9'') \<or> ch = CHR '' '')
      in if isASCII \<and> list_all simple zmk then (if list_ex isUpper zmk then strings_ToLower zmk else zmk)
         else strings_ToLower (to_text zmk))"

definition createMatchZmkFunc :: "unicode \<Rightarrow> (string \<Rightarrow> string) \<Rightarrow> expValue list \<Rightarrow> match_result" where
  "createMatchZmkFunc u to_text values =
     (let words = norm_calls u values;
          pos = filter (\<lambda>(word, cmpOp). \<not> isNegated cmpOp) words;
          neg = filter (\<lambda>(word, cmpOp). isNegated cmpOp) words
      in case (those (map (\<lambda>(word, cmpOp). createWordCompareFunc word cmpOp) pos),
               those (map (\<lambda>(word, cmpOp). createWordCompareFunc word (negate cmpOp)) neg)) of
          (Some normPreds, Some negPreds) \<Rightarrow>
            Some (\<lambda>metaValue.
                let values = concat (map (NormalizeWords u) (strings_Fields (zmk2text to_text metaValue))) in
                list_all (\<lambda>pred. \<not> noneOf pred values) normPreds \<and> list_all (\<lambda>pred. \<not> list_ex pred values) negPreds,
              map (\<lambda>(word, cmpOp). \<lparr>ev_value = word, ev_op = cmpOp\<rparr>) pos)
        | _ \<Rightarrow> None)"

text \<open>The inner \<open>None\<close> is the match function \<open>nil\<close>.\<close>

definition createMatchFunc :: "zsc \<Rightarrow> unicode \<Rightarrow> (string \<Rightarrow> string) \<Rightarrow> string \<Rightarrow> expValue list \<Rightarrow>
    (matchValueFunc option \<times> expValue list) option" where
  "createMatchFunc z u to_text key values =
     (if values = [] then Some (None, [])
      else map_option (\<lambda>(match, added). (Some match, added))
        (case TypeOf z key of
           TypeCredential \<Rightarrow> Some (matchValueNever, [])
         | TypeID \<Rightarrow> createMatchIDFunc values
         | TypeIDSet \<Rightarrow> createMatchIDSetFunc values
         | TypeTimestamp \<Rightarrow> createMatchTimestampFunc values
         | TypeNumber \<Rightarrow> createMatchNumberFunc values
         | TypeTagSet \<Rightarrow> createMatchTagSetFunc values
         | TypeWord \<Rightarrow> createMatchWordFunc values
         | TypeZettelmarkup \<Rightarrow> createMatchZmkFunc u to_text values
         | _ \<Rightarrow> createMatchStringFunc values))"

definition createPosNegMatchFunc :: "zsc \<Rightarrow> unicode \<Rightarrow> (string \<Rightarrow> string) \<Rightarrow> string \<Rightarrow> expValue list \<Rightarrow>
    (matchValueFunc option \<times> matchValueFunc option \<times> expValue list) option" where
  "createPosNegMatchFunc z u to_text key values =
     (let posValues = filter (\<lambda>val. \<not> isNegated (ev_op val)) values;
          negValues = filter (\<lambda>val. isNegated (ev_op val)) values
      in case (createMatchFunc z u to_text key posValues, createMatchFunc z u to_text key negValues) of
          (Some (posMatch, added), Some (negMatch, added')) \<Rightarrow>
            Some (posMatch, negMatch, if IsProperty z key then [] else added @ added')
        | _ \<Rightarrow> None)"

section \<open>The match function of a term\<close>

text \<open>The loop over the values of the term; a map's list gives the order of the loop.\<close>

fun select_specs :: "zsc \<Rightarrow> unicode \<Rightarrow> (string \<Rightarrow> string) \<Rightarrow> expMetaValues \<Rightarrow> matchSpec list \<Rightarrow> matchSpec list \<Rightarrow>
    expValue list \<Rightarrow> (matchSpec list \<times> matchSpec list \<times> expValue list) option" where
  "select_specs z u to_text [] posSpecs negSpecs search = Some (posSpecs, negSpecs, search)"
| "select_specs z u to_text ((key, values) # mvals) posSpecs negSpecs search =
     (if \<not> KeyIsValid key then select_specs z u to_text mvals posSpecs negSpecs search
      else case createPosNegMatchFunc z u to_text key values of
          None \<Rightarrow> None
        | Some (posMatch, negMatch, added) \<Rightarrow>
            select_specs z u to_text mvals
              (case posMatch of Some match \<Rightarrow> posSpecs @ [\<lparr>spec_key = key, spec_match = match\<rparr>] | None \<Rightarrow> posSpecs)
              (case negMatch of Some match \<Rightarrow> negSpecs @ [\<lparr>spec_key = key, spec_match = match\<rparr>] | None \<Rightarrow> negSpecs)
              (search @ added))"

definition createSelectSpecs :: "zsc \<Rightarrow> unicode \<Rightarrow> (string \<Rightarrow> string) \<Rightarrow> conjTerms \<Rightarrow>
    (matchSpec list \<times> matchSpec list \<times> conjTerms) option" where
  "createSelectSpecs z u to_text ct =
     map_option (\<lambda>(posSpecs, negSpecs, search). (posSpecs, negSpecs, ct\<lparr>ct_search := search\<rparr>))
       (select_specs z u to_text (ct_mvals ct) [] [] (ct_search ct))"

definition countNegatedOps :: "expValue list \<Rightarrow> nat" where
  "countNegatedOps vals = length (filter (\<lambda>val. isNegated (ev_op val)) vals)"

definition matchMetaKeyExists :: "zsc \<Rightarrow> meta \<Rightarrow> keyExistMap \<Rightarrow> bool" where
  "matchMetaKeyExists z m kem \<longleftrightarrow> list_all (\<lambda>(key, op). (meta_Get z m key \<noteq> None) = (op = cmpExist)) kem"

definition matchMetaSpecs :: "zsc \<Rightarrow> meta \<Rightarrow> matchSpec list \<Rightarrow> bool" where
  "matchMetaSpecs z m specs \<longleftrightarrow> list_all (\<lambda>s. spec_match s (GetDefault z (Some m) (spec_key s) [])) specs"

definition makeSearchMetaMatchFunc :: "zsc \<Rightarrow> matchSpec list \<Rightarrow> matchSpec list \<Rightarrow> keyExistMap \<Rightarrow> (meta \<Rightarrow> bool) option" where
  "makeSearchMetaMatchFunc z posSpecs negSpecs kem =
     (if posSpecs = [] \<and> negSpecs = [] then
        (if kem = [] then None else Some (\<lambda>m. matchMetaKeyExists z m kem))
      else if posSpecs = [] then Some (\<lambda>m. matchMetaKeyExists z m kem \<and> matchMetaSpecs z m negSpecs)
      else if negSpecs = [] then Some (\<lambda>m. matchMetaKeyExists z m kem \<and> matchMetaSpecs z m posSpecs)
      else Some (\<lambda>m. matchMetaKeyExists z m kem \<and> matchMetaSpecs z m posSpecs \<and> matchMetaSpecs z m negSpecs))"

definition add_exist_keys :: "conjTerms \<Rightarrow> conjTerms" where
  "add_exist_keys ct =
     fold (\<lambda>(key, vals) ct. if countNegatedOps vals < length vals then ct_addKey ct key cmpExist else ct) (ct_mvals ct) ct"

definition compileMeta :: "zsc \<Rightarrow> unicode \<Rightarrow> (string \<Rightarrow> string) \<Rightarrow> conjTerms \<Rightarrow> ((meta \<Rightarrow> bool) option \<times> conjTerms) option" where
  "compileMeta z u to_text ct =
     (let ct = add_exist_keys ct in
      if list_ex (\<lambda>(key, op). op \<noteq> cmpExist \<and> op \<noteq> cmpNotExist) (ct_keys ct) then Some (Some matchNever, ct)
      else map_option (\<lambda>(posSpecs, negSpecs, ct).
          (if 0 < length posSpecs \<or> 0 < length negSpecs \<or> 0 < length (ct_keys ct)
           then makeSearchMetaMatchFunc z posSpecs negSpecs (ct_keys ct) else None, ct))
        (createSelectSpecs z u to_text ct))"

section \<open>Compiling a query\<close>

definition metaList2idSet :: "meta list option \<Rightarrow> idset" where
  "metaList2idSet ml =
     (case ml of None \<Rightarrow> None | Some ml \<Rightarrow> fold (\<lambda>m result. Set_Add result (m_Zid m)) ml (NewSetCap []))"

definition retrieveAndCompileTerm :: "zsc \<Rightarrow> unicode \<Rightarrow> (string \<Rightarrow> string) \<Rightarrow> (nat \<Rightarrow> searchOp list \<Rightarrow> searchOp list) \<Rightarrow>
    searcher option \<Rightarrow> idset \<Rightarrow> conjTerms \<Rightarrow> ((meta \<Rightarrow> bool) option \<times> (zid \<Rightarrow> bool) option) option" where
  "retrieveAndCompileTerm z u to_text visit searcher startSet ct =
     Option.bind (compileMeta z u to_text ct) (\<lambda>(match, ct).
       case searcher of
         None \<Rightarrow> Some (match, None)
       | Some sr \<Rightarrow>
           map_option (\<lambda>pred. (match,
             if startSet = None then pred
             else case pred of
                 None \<Rightarrow> Some (\<lambda>zid. Set_ContainsOrNil startSet zid)
               | Some p \<Rightarrow>
                   (let predSet = Set_ForEach startSet (\<lambda>zid predSet. if p zid then Set_Add predSet zid else predSet) (NewSetCap [])
                    in Some (\<lambda>zid. Set_ContainsOrNil predSet zid))))
             (retrieveIndex u visit sr (ct_search ct)))"

text \<open>
  The loop over the terms: a term without any restriction ends it. \<open>visit i\<close> are the orders in
  which the loops of the \<open>i\<close>-th term visit the keys of its maps.
\<close>

fun compile_terms :: "zsc \<Rightarrow> unicode \<Rightarrow> (string \<Rightarrow> string) \<Rightarrow> (nat \<Rightarrow> nat \<Rightarrow> searchOp list \<Rightarrow> searchOp list) \<Rightarrow>
    searcher option \<Rightarrow> idset \<Rightarrow> conjTerms list \<Rightarrow> CompiledTerm list \<Rightarrow> CompiledTerm list option" where
  "compile_terms z u to_text visit searcher startSet [] result = Some result"
| "compile_terms z u to_text visit searcher startSet (term # terms) result =
     (case retrieveAndCompileTerm z u to_text (visit (length result)) searcher startSet term of
        None \<Rightarrow> None
      | Some (match, retrieve) \<Rightarrow>
          if match = None \<and> retrieve = None then Some [\<lparr>Match = matchAlways, Retrieve = AlwaysIncluded\<rparr>]
          else compile_terms z u to_text visit searcher startSet terms
            (result @ [\<lparr>Match = (case match of None \<Rightarrow> matchAlways | Some match \<Rightarrow> match),
               Retrieve = (case retrieve of None \<Rightarrow> AlwaysIncluded | Some pred \<Rightarrow> pred)\<rparr>]))"

definition RetrieveAndCompile :: "zsc \<Rightarrow> unicode \<Rightarrow> (string \<Rightarrow> string) \<Rightarrow> (nat \<Rightarrow> nat \<Rightarrow> searchOp list \<Rightarrow> searchOp list) \<Rightarrow>
    searcher option \<Rightarrow> query option \<Rightarrow> meta list option \<Rightarrow> compiled option" where
  "RetrieveAndCompile z u to_text visit searcher q metaSeq =
     (case q_Clone q of
        None \<Rightarrow> Some \<lparr>c_hasQuery = False, c_seed = 0, c_pick = 0, c_order = [], c_offset = 0, c_limit = 0,
          c_startMeta = None, c_PreMatch = matchAlways,
          c_Terms = [\<lparr>Match = matchAlways, Retrieve = AlwaysIncluded\<rparr>], c_sortFunc = None\<rparr>
      | Some q \<Rightarrow>
          map_option (\<lambda>terms. \<lparr>c_hasQuery = True, c_seed = q_seed q, c_pick = q_pick q, c_order = q_order q,
            c_offset = q_offset q, c_limit = q_limit q, c_startMeta = metaSeq,
            c_PreMatch = (case q_preMatch q of None \<Rightarrow> matchAlways | Some preMatch \<Rightarrow> preMatch),
            c_Terms = terms, c_sortFunc = None\<rparr>)
          (compile_terms z u to_text visit searcher (metaList2idSet metaSeq) (q_terms q) []))"

end
