(* ===== verification/SelectLaws.thy ===== *)
theory SelectLaws
  imports Select
begin

text \<open>
  What a term selects: the match function of a term against a direct reading of the term, negated
  operations as complements, and queries that do not panic.
\<close>

section \<open>Loops over values\<close>

lemma those_Some_iff: "those xs = Some ys \<longleftrightarrow> xs = map Some ys"
proof (induction xs arbitrary: ys)
  case (Cons x xs)
  then show ?case by (cases x; cases ys) auto
qed auto

lemma those_total: "(\<forall>x \<in> set xs. x \<noteq> None) \<Longrightarrow> \<exists>ys. those xs = Some ys"
  by (induction xs) auto

lemma those_None: "None \<in> set xs \<Longrightarrow> those xs = None"
  by (induction xs) (auto split: option.splits)

lemma value_preds_total: "(\<forall>v \<in> set values. fst (f v) \<noteq> None) \<Longrightarrow> value_preds f values \<noteq> None"
  using those_total [of "map (\<lambda>v. fst (f v)) values"] by (auto simp: value_preds_def)

lemma value_preds_single [simp]:
  "value_preds f [v] = (case f v of (None, a) \<Rightarrow> None | (Some p, a) \<Rightarrow> Some ([p], a))"
  by (auto simp: value_preds_def split: prod.splits option.splits)

section \<open>Operations and their complements\<close>

definition value_ops :: "compareOp set" where
  "value_ops = - {cmpUnknown, cmpExist, cmpNotExist}"

lemma word_compare_total: "op \<in> value_ops \<Longrightarrow> op \<notin> {cmpHas, cmpHasNot} \<Longrightarrow> createWordCompareFunc v op \<noteq> None"
  by (cases op) (auto simp: value_ops_def)

lemma disambiguate_ops:
  "op \<in> value_ops \<Longrightarrow> disambiguateWordOp op \<in> value_ops - {cmpHas, cmpHasNot}"
  "op \<in> value_ops \<Longrightarrow> disambiguatedStringOp op \<in> value_ops - {cmpHas, cmpHasNot}"
  by (cases op; simp add: value_ops_def)+

lemma word_compare_defined:
  "op \<in> value_ops \<Longrightarrow> \<exists>f. createWordCompareFunc v (disambiguateWordOp op) = Some f"
  "op \<in> value_ops \<Longrightarrow> \<exists>f. createWordCompareFunc v (disambiguatedStringOp op) = Some f"
  using word_compare_total disambiguate_ops by blast+

lemma negate_disambiguate:
  "op \<in> value_ops \<Longrightarrow> \<not> isNegated op \<Longrightarrow> disambiguateWordOp (negate op) = negate (disambiguateWordOp op)"
  "op \<in> value_ops \<Longrightarrow> \<not> isNegated op \<Longrightarrow> disambiguatedStringOp (negate op) = negate (disambiguatedStringOp op)"
  by (cases op; simp add: value_ops_def)+

text \<open>The types whose values are compared as one word.\<close>

definition word_types :: "DescriptionType set" where
  "word_types = - {TypeCredential, TypeIDSet, TypeNumber, TypeTagSet, TypeZettelmarkup}"

definition single :: "string \<Rightarrow> compareOp \<Rightarrow> expValue" where
  "single w op = \<lparr>ev_value = w, ev_op = op\<rparr>"

lemma single_simps [simp]: "ev_value (single w op) = w" "ev_op (single w op) = op"
  by (simp_all add: single_def)

lemma word_func_complement:
  assumes "op \<in> value_ops" and "\<not> isNegated op"
  shows "\<exists>f. createWordCompareFunc v (disambiguateWordOp op) = Some f \<and>
      createWordCompareFunc v (disambiguateWordOp (negate op)) = Some (\<lambda>x. \<not> f x)"
    and "\<exists>f. createWordCompareFunc v (disambiguatedStringOp op) = Some f \<and>
      createWordCompareFunc v (disambiguatedStringOp (negate op)) = Some (\<lambda>x. \<not> f x)"
  using assms by (cases op; simp add: value_ops_def not_less not_le)+

lemma range_ops:
  assumes "op \<in> value_ops" and "\<not> isNegated op"
  shows "disambiguateWordOp (negate op) \<in> {cmpLess, cmpNoLess, cmpGreater, cmpNoGreater} \<longleftrightarrow>
    disambiguateWordOp op \<in> {cmpLess, cmpNoLess, cmpGreater, cmpNoGreater}"
  using assms by (cases op) (auto simp: value_ops_def)

lemma all_preds_single [simp]:
  "all_preds prepare (Some ([p], a)) = Some (\<lambda>value. p (prepare value), a)"
  by (simp add: all_preds_def)

lemma match_id_complement:
  assumes "op \<in> value_ops" and "\<not> isNegated op"
  shows "\<exists>f a b. createMatchIDFunc [single w op] = Some (f, a) \<and> createMatchIDFunc [single w (negate op)] = Some (\<lambda>x. \<not> f x, b)"
proof -
  let ?v = "if 14 < length w then take 14 w else w"
  let ?c = "if disambiguateWordOp op \<in> {cmpLess, cmpNoLess, cmpGreater, cmpNoGreater} \<and> isDigits ?v
    then ?v @ take (14 - length ?v) (replicate 14 CHR ''0'') else ?v"
  obtain f where f: "createWordCompareFunc ?c (disambiguateWordOp op) = Some f"
      "createWordCompareFunc ?c (disambiguateWordOp (negate op)) = Some (\<lambda>x. \<not> f x)"
    using word_func_complement(1) [OF assms] by blast
  have "\<exists>a. createMatchIDFunc [single w o'] = Some (g, a)"
    if g: "createWordCompareFunc ?c (disambiguateWordOp o') = Some g"
      and r: "disambiguateWordOp o' \<in> {cmpLess, cmpNoLess, cmpGreater, cmpNoGreater} \<longleftrightarrow> disambiguateWordOp op \<in> {cmpLess, cmpNoLess, cmpGreater, cmpNoGreater}" for o' g
  proof (cases "disambiguateWordOp op \<in> {cmpLess, cmpNoLess, cmpGreater, cmpNoGreater} \<and> isDigits ?v")
    case True
    then show ?thesis using g unfolding createMatchIDFunc_def valuesToIDPredicates_def value_preds_single Let_def single_simps r
      by (simp only: if_P [OF True]) simp
  next
    case False
    then show ?thesis using g unfolding createMatchIDFunc_def valuesToIDPredicates_def value_preds_single Let_def single_simps r
      by (simp only: if_not_P [OF False]) simp
  qed
  from this [OF f(1) refl] this [OF f(2) range_ops [OF assms]] show ?thesis by blast
qed

lemma match_timestamp_complement:
  assumes "op \<in> value_ops" and "\<not> isNegated op"
  shows "\<exists>f a b. createMatchTimestampFunc [single w op] = Some (f, a) \<and> createMatchTimestampFunc [single w (negate op)] = Some (\<lambda>x. \<not> f x, b)"
proof -
  obtain f where f: "createWordCompareFunc (ExpandTimestamp w) (disambiguateWordOp op) = Some f"
      "createWordCompareFunc (ExpandTimestamp w) (disambiguateWordOp (negate op)) = Some (\<lambda>x. \<not> f x)"
    using word_func_complement(1) [OF assms] by blast
  have "\<exists>a. createMatchTimestampFunc [single w o'] = Some (\<lambda>x. g (ExpandTimestamp x), a)"
    if "createWordCompareFunc (ExpandTimestamp w) (disambiguateWordOp o') = Some g" for o' g
    using that unfolding createMatchTimestampFunc_def valuesToTimestampPredicates_def value_preds_single Let_def single_simps
    by simp
  from this [OF f(1)] this [OF f(2)] show ?thesis by blast
qed

lemma match_word_complement:
  assumes "op \<in> value_ops" and "\<not> isNegated op"
  shows "\<exists>f a b. createMatchWordFunc [single w op] = Some (f, a) \<and> createMatchWordFunc [single w (negate op)] = Some (\<lambda>x. \<not> f x, b)"
    and "\<exists>f a b. createMatchStringFunc [single w op] = Some (f, a) \<and> createMatchStringFunc [single w (negate op)] = Some (\<lambda>x. \<not> f x, b)"
proof -
  obtain f where f: "createWordCompareFunc (strings_ToLower w) (disambiguateWordOp op) = Some f"
      "createWordCompareFunc (strings_ToLower w) (disambiguateWordOp (negate op)) = Some (\<lambda>x. \<not> f x)"
    using word_func_complement(1) [OF assms] by blast
  then show "\<exists>f a b. createMatchWordFunc [single w op] = Some (f, a) \<and> createMatchWordFunc [single w (negate op)] = Some (\<lambda>x. \<not> f x, b)"
    by (simp add: createMatchWordFunc_def valuesToWordPredicates_def sliceToLower_def)
  obtain f where f: "createWordCompareFunc (strings_ToLower w) (disambiguatedStringOp op) = Some f"
      "createWordCompareFunc (strings_ToLower w) (disambiguatedStringOp (negate op)) = Some (\<lambda>x. \<not> f x)"
    using word_func_complement(2) [OF assms] by blast
  then show "\<exists>f a b. createMatchStringFunc [single w op] = Some (f, a) \<and> createMatchStringFunc [single w (negate op)] = Some (\<lambda>x. \<not> f x, b)"
    by (simp add: createMatchStringFunc_def valuesToStringPredicates_def sliceToLower_def)
qed

text \<open>
  C19: For the types whose values are compared as one word, a negated operation selects exactly the
  values that the operation itself does not select.
\<close>

theorem negated_selection:
  assumes "TypeOf z key \<in> word_types" and "op \<in> value_ops" and "\<not> isNegated op"
  shows "\<exists>f a b. createMatchFunc z u to_text key [single w op] = Some (Some f, a) \<and>
    createMatchFunc z u to_text key [single w (negate op)] = Some (Some (\<lambda>x. \<not> f x), b)"
proof (cases "TypeOf z key")
  case TypeID
  then show ?thesis using match_id_complement [OF assms(2,3), of w] by (auto simp: createMatchFunc_def)
next
  case TypeTimestamp
  then show ?thesis using match_timestamp_complement [OF assms(2,3), of w] by (auto simp: createMatchFunc_def)
next
  case TypeWord
  then show ?thesis using match_word_complement(1) [OF assms(2,3), of w] by (auto simp: createMatchFunc_def)
qed (use assms(1) match_word_complement(2) [OF assms(2,3), of w] in \<open>auto simp: createMatchFunc_def word_types_def\<close>)

lemma negated_selection_witness:
  "\<exists>f a b. createMatchFunc doc_zsc ascii_unicode (\<lambda>s. s) ''role'' [single ''note'' cmpHas] = Some (Some f, a) \<and>
    createMatchFunc doc_zsc ascii_unicode (\<lambda>s. s) ''role'' [single ''note'' cmpHasNot] = Some (Some (\<lambda>x. \<not> f x), b)"
proof -
  have "TypeOf doc_zsc ''role'' = TypeWord" by code_simp
  then show ?thesis
    using negated_selection [of doc_zsc "''role''" cmpHas ascii_unicode "\<lambda>s. s" "''note''"] by (simp add: word_types_def value_ops_def)
qed

section \<open>The match function of a term\<close>

definition opt_holds :: "('a \<Rightarrow> bool) option \<Rightarrow> 'a \<Rightarrow> bool" where
  "opt_holds f x \<longleftrightarrow> (case f of None \<Rightarrow> True | Some p \<Rightarrow> p x)"

lemma opt_holds_simps [simp]: "opt_holds None x" "opt_holds (Some p) x \<longleftrightarrow> p x"
  by (simp_all add: opt_holds_def)

fun key_state :: "compareOp \<Rightarrow> bool \<Rightarrow> bool" where
  "key_state cmpExist found = found"
| "key_state cmpNotExist found = (\<not> found)"
| "key_state _ found = False"

definition value_selected :: "zsc \<Rightarrow> unicode \<Rightarrow> (string \<Rightarrow> string) \<Rightarrow> meta \<Rightarrow> string \<Rightarrow> expValue list \<Rightarrow> bool" where
  "value_selected z u to_text m key vals \<longleftrightarrow>
     (case createPosNegMatchFunc z u to_text key vals of
        None \<Rightarrow> True
      | Some (pos, neg, added) \<Rightarrow>
          opt_holds pos (GetDefault z (Some m) key []) \<and> opt_holds neg (GetDefault z (Some m) key []))"

text \<open>
  What a term asks of metadata: the state of the keys it names, and for every key with values that
  the key exists, if one of its operations is not negated, and that its value meets all of them.
\<close>

definition term_selects :: "zsc \<Rightarrow> unicode \<Rightarrow> (string \<Rightarrow> string) \<Rightarrow> conjTerms \<Rightarrow> meta \<Rightarrow> bool" where
  "term_selects z u to_text ct m \<longleftrightarrow>
     (\<forall>(key, op) \<in> set (ct_keys ct). key_state op (meta_Get z m key \<noteq> None)) \<and>
     (\<forall>(key, vals) \<in> set (ct_mvals ct).
        ((\<exists>v \<in> set vals. \<not> isNegated (ev_op v)) \<longrightarrow> meta_Get z m key \<noteq> None) \<and>
        (KeyIsValid key \<longrightarrow> value_selected z u to_text m key vals))"

lemma countNegatedOps_less: "countNegatedOps vals < length vals \<longleftrightarrow> (\<exists>v \<in> set vals. \<not> isNegated (ev_op v))"
  unfolding countNegatedOps_def by (metis (mono_tags, lifting) filter_True length_filter_less less_irrefl)

lemma keys_iff: "gm_inv L \<Longrightarrow> (\<forall>(k, op) \<in> set L. P k op) \<longleftrightarrow> (\<forall>k op. gm_get L k = Some op \<longrightarrow> P k op)"
  using gm_get_Some_iff [of L] by fastforce

lemma addKey_state:
  assumes "gm_inv (ct_keys ct)"
  shows "gm_inv (ct_keys (ct_addKey ct key cmpExist)) \<and> ct_mvals (ct_addKey ct key cmpExist) = ct_mvals ct \<and>
    ct_search (ct_addKey ct key cmpExist) = ct_search ct \<and>
    ((\<forall>k op. gm_get (ct_keys (ct_addKey ct key cmpExist)) k = Some op \<longrightarrow> key_state op (found k)) \<longleftrightarrow>
      (\<forall>k op. gm_get (ct_keys ct) k = Some op \<longrightarrow> key_state op (found k)) \<and> found key)"
proof (cases "gm_get (ct_keys ct) key")
  case None
  then show ?thesis using assms by (auto simp: ct_addKey_def)
next
  case (Some op)
  show ?thesis
  proof (cases "op = cmpExist")
    case True
    then have "key_state op (found key) \<longleftrightarrow> found key" by simp
    then show ?thesis using True Some assms by (simp add: ct_addKey_def) (metis key_state.simps(1))
  next
    case False
    then have "\<not> (key_state op (found key) \<and> found key)" by (cases op) auto
    then show ?thesis using Some False assms by (auto simp: ct_addKey_def)
  qed
qed

lemma add_exist_loop:
  assumes "gm_inv (ct_keys ct)"
  defines "step \<equiv> \<lambda>(key, vals) ct. if countNegatedOps vals < length vals then ct_addKey ct key cmpExist else ct"
  shows "gm_inv (ct_keys (fold step mvals ct)) \<and> ct_mvals (fold step mvals ct) = ct_mvals ct \<and>
    ct_search (fold step mvals ct) = ct_search ct \<and>
    ((\<forall>k op. gm_get (ct_keys (fold step mvals ct)) k = Some op \<longrightarrow> key_state op (found k)) \<longleftrightarrow>
      (\<forall>k op. gm_get (ct_keys ct) k = Some op \<longrightarrow> key_state op (found k)) \<and>
      (\<forall>(key, vals) \<in> set mvals. (\<exists>v \<in> set vals. \<not> isNegated (ev_op v)) \<longrightarrow> found key))"
  using assms(1)
proof (induction mvals arbitrary: ct)
  case (Cons x mvals)
  obtain key vals where x: "x = (key, vals)" by (cases x)
  show ?case
  proof (cases "countNegatedOps vals < length vals")
    case True
    note a = addKey_state [OF Cons.prems, of key found]
    have "fold step (x # mvals) ct = fold step mvals (ct_addKey ct key cmpExist)" using True by (simp add: step_def x)
    then show ?thesis using Cons.IH [OF conjunct1 [OF a]] a True [unfolded countNegatedOps_less] by (simp add: x)
  next
    case False
    then have "fold step (x # mvals) ct = fold step mvals ct" by (simp add: step_def x)
    then show ?thesis using Cons.IH [OF Cons.prems] False [unfolded countNegatedOps_less] by (simp add: x)
  qed
qed simp

lemma add_exist_keys_facts:
  assumes "gm_inv (ct_keys ct)"
  shows "ct_mvals (add_exist_keys ct) = ct_mvals ct" and "ct_search (add_exist_keys ct) = ct_search ct"
    and "(\<forall>(key, op) \<in> set (ct_keys (add_exist_keys ct)). key_state op (found key)) \<longleftrightarrow>
      (\<forall>(key, op) \<in> set (ct_keys ct). key_state op (found key)) \<and>
      (\<forall>(key, vals) \<in> set (ct_mvals ct). (\<exists>v \<in> set vals. \<not> isNegated (ev_op v)) \<longrightarrow> found key)"
proof -
  note l = add_exist_loop [OF assms, of "ct_mvals ct" found, folded add_exist_keys_def]
  show "ct_mvals (add_exist_keys ct) = ct_mvals ct" "ct_search (add_exist_keys ct) = ct_search ct" using l by blast+
  have "gm_inv (ct_keys (add_exist_keys ct))" using l by blast
  then show "(\<forall>(key, op) \<in> set (ct_keys (add_exist_keys ct)). key_state op (found key)) \<longleftrightarrow>
      (\<forall>(key, op) \<in> set (ct_keys ct). key_state op (found key)) \<and>
      (\<forall>(key, vals) \<in> set (ct_mvals ct). (\<exists>v \<in> set vals. \<not> isNegated (ev_op v)) \<longrightarrow> found key)"
    using l assms by (simp only: keys_iff)
qed

lemma select_specs_match:
  assumes "select_specs z u to_text mvals posSpecs negSpecs search = Some (pos, neg, added)"
  shows "matchMetaSpecs z m pos \<and> matchMetaSpecs z m neg \<longleftrightarrow>
    matchMetaSpecs z m posSpecs \<and> matchMetaSpecs z m negSpecs \<and>
    (\<forall>(key, vals) \<in> set mvals. KeyIsValid key \<longrightarrow> value_selected z u to_text m key vals)"
  using assms
proof (induction z u to_text mvals posSpecs negSpecs search rule: select_specs.induct)
  case (2 z u to_text key vals mvals posSpecs negSpecs search)
  show ?case
  proof (cases "KeyIsValid key")
    case False
    then show ?thesis using 2(1) 2(3) by simp
  next
    case True
    obtain p n a where c: "createPosNegMatchFunc z u to_text key vals = Some (p, n, a)"
      using 2(3) True by (auto split: option.splits)
    have v: "value_selected z u to_text m key vals \<longleftrightarrow>
        opt_holds p (GetDefault z (Some m) key []) \<and> opt_holds n (GetDefault z (Some m) key [])"
      by (simp add: value_selected_def c)
    show ?thesis using 2(2) [OF _ c refl refl] 2(3) True c v
      by (cases p; cases n) (auto simp: matchMetaSpecs_def)
  qed
qed (simp add: matchMetaSpecs_def)

lemma makeSearch_match:
  "opt_holds (makeSearchMetaMatchFunc z posSpecs negSpecs kem) m \<longleftrightarrow>
     matchMetaKeyExists z m kem \<and> matchMetaSpecs z m posSpecs \<and> matchMetaSpecs z m negSpecs"
  by (simp add: makeSearchMetaMatchFunc_def matchMetaKeyExists_def matchMetaSpecs_def)

lemma key_states:
  assumes "\<not> list_ex (\<lambda>(key, op). op \<noteq> cmpExist \<and> op \<noteq> cmpNotExist) kem"
  shows "matchMetaKeyExists z m kem \<longleftrightarrow> (\<forall>(key, op) \<in> set kem. key_state op (meta_Get z m key \<noteq> None))"
proof -
  have "((meta_Get z m key \<noteq> None) = (op = cmpExist)) = key_state op (meta_Get z m key \<noteq> None)" if "(key, op) \<in> set kem" for key op
    using assms that by (cases op) (auto simp: list_ex_iff)
  then show ?thesis unfolding matchMetaKeyExists_def list_all_iff by fastforce
qed

lemma compileMeta_correct:
  assumes "gm_inv (ct_keys ct)" and "compileMeta z u to_text ct = Some (match, ct')"
  shows "opt_holds match m \<longleftrightarrow> term_selects z u to_text ct m"
proof -
  let ?ct = "add_exist_keys ct"
  note k = add_exist_keys_facts [OF assms(1)]
  note s = k(3) [of "\<lambda>key. meta_Get z m key \<noteq> None"]
  show ?thesis
  proof (cases "list_ex (\<lambda>(key, op). op \<noteq> cmpExist \<and> op \<noteq> cmpNotExist) (ct_keys ?ct)")
    case True
    then obtain key op where o: "(key, op) \<in> set (ct_keys ?ct)" "op \<noteq> cmpExist" "op \<noteq> cmpNotExist" by (auto simp: list_ex_iff)
    have "match = Some matchNever" using assms(2) True by (simp add: compileMeta_def)
    moreover have "\<not> key_state op f" for f using o(2,3) by (cases op) auto
    ultimately have "\<not> opt_holds match m" "\<not> (\<forall>(key, op) \<in> set (ct_keys ?ct). key_state op (meta_Get z m key \<noteq> None))"
      using o(1) by (simp add: matchNever_def, blast)
    then show ?thesis using s unfolding term_selects_def by blast
  next
    case False
    obtain pos neg added where sel: "select_specs z u to_text (ct_mvals ct) [] [] (ct_search ct) = Some (pos, neg, added)"
      and match: "match = (if 0 < length pos \<or> 0 < length neg \<or> 0 < length (ct_keys ?ct)
        then makeSearchMetaMatchFunc z pos neg (ct_keys ?ct) else None)"
      using assms(2) False k(1,2) by (auto simp: compileMeta_def createSelectSpecs_def)
    have "opt_holds match m \<longleftrightarrow> matchMetaKeyExists z m (ct_keys ?ct) \<and> matchMetaSpecs z m pos \<and> matchMetaSpecs z m neg"
      unfolding match by (auto simp: makeSearch_match matchMetaKeyExists_def matchMetaSpecs_def)
    moreover have "matchMetaSpecs z m []" by (simp add: matchMetaSpecs_def)
    ultimately show ?thesis
      unfolding term_selects_def key_states [OF False] s using select_specs_match [OF sel, of m] by blast
  qed
qed



end
