(* ===== verification/SelectTotal.thy ===== *)
theory SelectTotal
  imports SelectLaws SearchIndex QueryLaws
begin

text \<open>
  Which queries can be compiled without a panic, what the compiled query asks of a zettel, and
  where the selection differs from what its operations say.
\<close>

section \<open>Compiling without a panic\<close>

definition ops_of :: "expValue list \<Rightarrow> compareOp set" where
  "ops_of vs = ev_op ` set vs"

definition ops_fit :: "zsc \<Rightarrow> string \<Rightarrow> expValue list \<Rightarrow> bool" where
  "ops_fit z key vs \<longleftrightarrow> ops_of vs \<subseteq> value_ops \<and> (TypeOf z key = TypeZettelmarkup \<longrightarrow> ops_of vs \<inter> {cmpHas, cmpHasNot} = {})"

lemma ops_of_append: "ops_of (vs @ ws) = ops_of vs \<union> ops_of ws"
  by (simp add: ops_of_def image_Un)

lemma ops_of_map: "(\<And>v. ev_op (g v) = ev_op v) \<Longrightarrow> ops_of (map g vs) = ops_of vs"
  by (simp add: ops_of_def image_image)

text \<open>A loop over values returns, and adds no search value besides the given ones.\<close>

definition good_result :: "expValue list \<Rightarrow> ('a \<times> expValue list) option \<Rightarrow> bool" where
  "good_result vs r \<longleftrightarrow> (\<exists>x added. r = Some (x, added) \<and> ops_of added \<subseteq> ops_of vs)"

lemma value_preds_good:
  assumes "\<forall>v \<in> set vs. fst (f v) \<noteq> None \<and> set (snd (f v)) \<subseteq> {v}"
  shows "good_result vs (value_preds f vs)"
proof -
  obtain ys where "those (map (\<lambda>v. fst (f v)) vs) = Some ys" using those_total [of "map (\<lambda>v. fst (f v)) vs"] assms by auto
  moreover have "set (concat (map (\<lambda>v. snd (f v)) vs)) \<subseteq> set vs" using assms by fastforce
  ultimately show ?thesis by (auto simp: good_result_def value_preds_def ops_of_def)
qed

lemma all_preds_good: "good_result vs r \<Longrightarrow> good_result vs (all_preds prepare r)"
  by (auto simp: good_result_def all_preds_def)

lemma positive_only_set: "set (positive_only op v) \<subseteq> {v}"
  by (simp add: positive_only_def)

lemma compare_ok:
  "op \<in> value_ops \<Longrightarrow> createWordCompareFunc v (disambiguateWordOp op) \<noteq> None"
  "op \<in> value_ops \<Longrightarrow> createWordCompareFunc v (disambiguatedStringOp op) \<noteq> None"
  using word_compare_defined by (metis option.discI)+

lemma number_compare_ok:
  "op \<in> {cmpEqual, cmpNotEqual, cmpLess, cmpNoLess, cmpGreater, cmpNoGreater} \<Longrightarrow> createNumberCompareFunc n op \<noteq> None"
  by auto

lemma simple_funcs_good:
  assumes "ops_of vs \<subseteq> value_ops"
  shows "good_result vs (valuesToIDPredicates vs)" and "good_result vs (valuesToTimestampPredicates vs)"
    and "good_result vs (valuesToNumberPredicates vs)" and "good_result vs (valuesToStringPredicates vs)"
    and "good_result vs (valuesToWordPredicates vs)"
proof -
  have v: "ev_op v \<in> value_ops" if "v \<in> set vs" for v using assms that by (auto simp: ops_of_def)
  show "good_result vs (valuesToIDPredicates vs)" "good_result vs (valuesToTimestampPredicates vs)"
    unfolding valuesToIDPredicates_def valuesToTimestampPredicates_def
    by (rule value_preds_good, use v compare_ok positive_only_set in \<open>simp add: Let_def del: not_None_eq\<close>)+
  show "good_result vs (valuesToStringPredicates vs)" "good_result vs (valuesToWordPredicates vs)"
    unfolding valuesToStringPredicates_def valuesToWordPredicates_def
    by (rule value_preds_good, use v compare_ok positive_only_set in \<open>simp add: Let_def del: not_None_eq\<close>)+
  show "good_result vs (valuesToNumberPredicates vs)"
    unfolding valuesToNumberPredicates_def
  proof (rule value_preds_good, intro ballI)
    fix v assume "v \<in> set vs"
    note c = compare_ok(1) [OF v [OF this], of "ev_value v"]
    let ?op = "disambiguateWordOp (ev_op v)"
    have n: "createNumberCompareFunc i ?op \<noteq> None" if "?op \<in> {cmpEqual, cmpNotEqual, cmpLess, cmpNoLess, cmpGreater, cmpNoGreater}" for i
      by (rule number_compare_ok [OF that])
    show "fst (let op = ?op; word = (createWordCompareFunc (ev_value v) op, positive_only op v)
         in if op \<in> {cmpEqual, cmpNotEqual, cmpLess, cmpNoLess, cmpGreater, cmpNoGreater}
            then (case strconv_ParseInt (ev_value v) of Some iValue \<Rightarrow> (createNumberCompareFunc iValue op, []) | None \<Rightarrow> word)
            else word) \<noteq> None \<and>
       set (snd (let op = ?op; word = (createWordCompareFunc (ev_value v) op, positive_only op v)
         in if op \<in> {cmpEqual, cmpNotEqual, cmpLess, cmpNoLess, cmpGreater, cmpNoGreater}
            then (case strconv_ParseInt (ev_value v) of Some iValue \<Rightarrow> (createNumberCompareFunc iValue op, []) | None \<Rightarrow> word)
            else word)) \<subseteq> {v}"
      using c n positive_only_set [of ?op v] unfolding Let_def
      by (cases "strconv_ParseInt (ev_value v)"; cases "?op \<in> {cmpEqual, cmpNotEqual, cmpLess, cmpNoLess, cmpGreater, cmpNoGreater}")
        (simp_all only: if_True if_False option.case fst_conv snd_conv list.set empty_subsetI simp_thms)
  qed
qed

lemma set_pred_ok: "ev_op v \<in> value_ops \<Longrightarrow> fst (set_pred v) \<noteq> None \<and> set (snd (set_pred v)) \<subseteq> {v}"
  by (cases "ev_op v") (auto simp: set_pred_def value_ops_def)

lemma set_preds_good:
  assumes "ops_of (concat vss) \<subseteq> value_ops"
  shows "good_result (concat vss) (valuesToSetPredicates vss)"
proof -
  have "good_result vs (value_preds set_pred vs)" if "vs \<in> set vss" for vs
    using assms that set_pred_ok by (intro value_preds_good) (auto simp: ops_of_def)
  then show ?thesis
  proof (induction vss)
    case Nil
    then show ?case by (simp add: good_result_def valuesToSetPredicates_def)
  next
    case (Cons vs vss)
    have "good_result vs (value_preds set_pred vs)" "good_result (concat vss) (valuesToSetPredicates vss)" using Cons by simp_all
    then obtain x a y b where r: "value_preds set_pred vs = Some (x, a)" "ops_of a \<subseteq> ops_of vs"
        "valuesToSetPredicates vss = Some (y, b)" "ops_of b \<subseteq> ops_of (concat vss)" unfolding good_result_def by blast
    have "valuesToSetPredicates (vs # vss) = Some (x # y, a @ b)" using r(1,3) by (auto simp: valuesToSetPredicates_def)
    moreover have "ops_of (a @ b) \<subseteq> ops_of (concat (vs # vss))" using r(2,4) by (simp add: ops_of_append) blast
    ultimately show ?case unfolding good_result_def by blast
  qed
qed

lemma preprocess_ops: "ops_of (concat (preprocessSet vs)) \<subseteq> ops_of vs"
  by (auto simp: ops_of_def preprocessSet_def preprocess_elem_def)

lemma processTagSet_ops: "ops_of (concat (processTagSet vss)) = ops_of (concat vss)"
  unfolding processTagSet_def map_concat [symmetric] by (rule ops_of_map) (simp add: Let_def)

lemma sliceToLower_ops [simp]: "ops_of (sliceToLower vs) = ops_of vs"
  unfolding sliceToLower_def by (rule ops_of_map) simp

lemma good_sub: "good_result vs r \<Longrightarrow> ops_of vs \<subseteq> ops_of ws \<Longrightarrow> good_result ws r"
  unfolding good_result_def by blast

lemma all_set_preds_good: "good_result vs r \<Longrightarrow> good_result vs (all_set_preds prepare r)"
  by (auto simp: good_result_def all_set_preds_def)

lemma norm_calls_ops: "(word, op) \<in> set (norm_calls u vs) \<Longrightarrow> op \<in> ops_of vs"
  by (auto simp: norm_calls_def ops_of_def)

lemma negate_value_op: "isNegated op \<Longrightarrow> op \<in> value_ops \<Longrightarrow> op \<noteq> cmpHasNot \<Longrightarrow> negate op \<in> value_ops \<and> negate op \<notin> {cmpHas, cmpHasNot}"
  by (cases op) (auto simp: value_ops_def)

lemma zmk_good:
  assumes "ops_of vs \<subseteq> value_ops" and "ops_of vs \<inter> {cmpHas, cmpHasNot} = {}"
  shows "good_result vs (createMatchZmkFunc u to_text vs)"
proof -
  let ?pos = "filter (\<lambda>(word, cmpOp). \<not> isNegated cmpOp) (norm_calls u vs)"
  let ?neg = "filter (\<lambda>(word, cmpOp). isNegated cmpOp) (norm_calls u vs)"
  have o: "op \<in> value_ops \<and> op \<notin> {cmpHas, cmpHasNot}" if "(word, op) \<in> set (norm_calls u vs)" for word op
    using norm_calls_ops [OF that] assms by blast
  have p: "createWordCompareFunc word op \<noteq> None" if "(word, op) \<in> set ?pos" for word op
    using word_compare_total o [of word op] that by simp
  obtain ps where ps: "those (map (\<lambda>(word, cmpOp). createWordCompareFunc word cmpOp) ?pos) = Some ps"
    using those_total [of "map (\<lambda>(word, cmpOp). createWordCompareFunc word cmpOp) ?pos"] p by auto
  have n: "createWordCompareFunc word (negate op) \<noteq> None" if "(word, op) \<in> set ?neg" for word op
    using word_compare_total negate_value_op [of op] o [of word op] that by auto
  obtain ns where ns: "those (map (\<lambda>(word, cmpOp). createWordCompareFunc word (negate cmpOp)) ?neg) = Some ns"
    using those_total [of "map (\<lambda>(word, cmpOp). createWordCompareFunc word (negate cmpOp)) ?neg"] n by auto
  have "ops_of (map (\<lambda>(word, cmpOp). \<lparr>ev_value = word, ev_op = cmpOp\<rparr>) ?pos) \<subseteq> ops_of vs"
    using norm_calls_ops [of _ _ u vs] by (auto simp: ops_of_def)
  then show ?thesis using ps ns by (simp add: createMatchZmkFunc_def Let_def good_result_def)
qed

lemma createMatchFunc_good:
  assumes "ops_fit z key vs"
  shows "good_result vs (createMatchFunc z u to_text key vs)"
proof -
  have o: "ops_of vs \<subseteq> value_ops" using assms by (simp add: ops_fit_def)
  have lo: "ops_of (sliceToLower vs) \<subseteq> value_ops" using o by simp
  note s = simple_funcs_good [OF o] and l = simple_funcs_good [OF lo]
  have words: "good_result vs (createMatchWordFunc vs)" "good_result vs (createMatchStringFunc vs)"
    unfolding createMatchWordFunc_def createMatchStringFunc_def
    by (intro all_preds_good, rule good_sub [OF l(5)], simp, intro all_preds_good, rule good_sub [OF l(4)], simp)
  have ids: "good_result vs (createMatchIDSetFunc vs)"
    unfolding createMatchIDSetFunc_def
    by (intro all_set_preds_good good_sub [OF set_preds_good] preprocess_ops order_trans [OF preprocess_ops o])
  have t: "ops_of (concat (processTagSet (preprocessSet (sliceToLower vs)))) \<subseteq> ops_of vs"
    unfolding processTagSet_ops using preprocess_ops [of "sliceToLower vs"] by simp
  have tags: "good_result vs (createMatchTagSetFunc vs)"
    unfolding createMatchTagSetFunc_def by (intro all_set_preds_good good_sub [OF set_preds_good] t order_trans [OF t o])
  have "good_result vs (case TypeOf z key of
           TypeCredential \<Rightarrow> Some (matchValueNever, [])
         | TypeID \<Rightarrow> createMatchIDFunc vs
         | TypeIDSet \<Rightarrow> createMatchIDSetFunc vs
         | TypeTimestamp \<Rightarrow> createMatchTimestampFunc vs
         | TypeNumber \<Rightarrow> createMatchNumberFunc vs
         | TypeTagSet \<Rightarrow> createMatchTagSetFunc vs
         | TypeWord \<Rightarrow> createMatchWordFunc vs
         | TypeZettelmarkup \<Rightarrow> createMatchZmkFunc u to_text vs
         | _ \<Rightarrow> createMatchStringFunc vs)" (is "good_result vs ?m")
  proof (cases "TypeOf z key")
    case TypeCredential
    then show ?thesis by (simp add: good_result_def ops_of_def)
  next
    case TypeZettelmarkup
    then show ?thesis using zmk_good [OF o] assms by (simp add: ops_fit_def)
  qed (use ids tags all_preds_good s words in
      \<open>simp_all add: createMatchIDFunc_def createMatchTimestampFunc_def createMatchNumberFunc_def\<close>)
  then show ?thesis by (auto simp: createMatchFunc_def good_result_def ops_of_def)
qed

lemma createPosNeg_good:
  assumes "ops_fit z key vs"
  shows "\<exists>p n added. createPosNegMatchFunc z u to_text key vs = Some (p, n, added) \<and> ops_of added \<subseteq> ops_of vs"
proof -
  let ?pos = "filter (\<lambda>val. \<not> isNegated (ev_op val)) vs" and ?neg = "filter (\<lambda>val. isNegated (ev_op val)) vs"
  have s: "ops_of ?pos \<subseteq> ops_of vs" "ops_of ?neg \<subseteq> ops_of vs" by (auto simp: ops_of_def)
  then have "ops_fit z key ?pos" "ops_fit z key ?neg" using assms unfolding ops_fit_def by blast+
  from createMatchFunc_good [OF this(1), of u to_text] createMatchFunc_good [OF this(2), of u to_text]
  obtain p a n b where "createMatchFunc z u to_text key ?pos = Some (p, a)" "ops_of a \<subseteq> ops_of ?pos"
      "createMatchFunc z u to_text key ?neg = Some (n, b)" "ops_of b \<subseteq> ops_of ?neg" unfolding good_result_def by blast
  then have "createPosNegMatchFunc z u to_text key vs = Some (p, n, if IsProperty z key then [] else a @ b)"
    "ops_of (a @ b) \<subseteq> ops_of vs" using s by (simp_all add: createPosNegMatchFunc_def Let_def ops_of_append) blast
  moreover have "ops_of [] \<subseteq> ops_of vs" by (simp add: ops_of_def)
  ultimately show ?thesis by auto
qed

lemma select_specs_total:
  assumes "\<forall>(key, vs) \<in> set mvals. KeyIsValid key \<longrightarrow> ops_fit z key vs" and "ops_of search \<subseteq> value_ops"
  shows "\<exists>pos neg added. select_specs z u to_text mvals posSpecs negSpecs search = Some (pos, neg, added) \<and> ops_of added \<subseteq> value_ops"
  using assms
proof (induction z u to_text mvals posSpecs negSpecs search rule: select_specs.induct)
  case (2 z u to_text key vals mvals posSpecs negSpecs search)
  show ?case
  proof (cases "KeyIsValid key")
    case False
    then show ?thesis using 2(1,3,4) by simp
  next
    case True
    then have f: "ops_fit z key vals" using 2(3) by simp
    obtain p n a where c: "createPosNegMatchFunc z u to_text key vals = Some (p, n, a)" "ops_of a \<subseteq> ops_of vals"
      using createPosNeg_good [OF f] by blast
    have "ops_of (search @ a) \<subseteq> value_ops" using c(2) f 2(4) by (auto simp: ops_of_append ops_fit_def)
    then show ?thesis using 2(2) [OF _ c(1) refl refl] 2(3) True c(1) by simp
  qed
qed simp

definition term_fits :: "zsc \<Rightarrow> conjTerms \<Rightarrow> bool" where
  "term_fits z ct \<longleftrightarrow>
     (\<forall>(key, vs) \<in> set (ct_mvals ct). KeyIsValid key \<longrightarrow> ops_fit z key vs) \<and> ops_of (ct_search ct) \<subseteq> value_ops"

lemma add_exist_keys_rest [simp]: "ct_mvals (add_exist_keys ct) = ct_mvals ct" "ct_search (add_exist_keys ct) = ct_search ct"
proof -
  have "ct_mvals (fold (\<lambda>(key, vals) ct. if countNegatedOps vals < length vals then ct_addKey ct key cmpExist else ct) xs c) = ct_mvals c \<and>
    ct_search (fold (\<lambda>(key, vals) ct. if countNegatedOps vals < length vals then ct_addKey ct key cmpExist else ct) xs c) = ct_search c"
    for xs and c :: conjTerms
    by (induction xs arbitrary: c) (auto simp: ct_addKey_def split: option.splits)
  then show "ct_mvals (add_exist_keys ct) = ct_mvals ct" "ct_search (add_exist_keys ct) = ct_search ct"
    unfolding add_exist_keys_def by blast+
qed

lemma compileMeta_total:
  assumes "term_fits z ct"
  shows "\<exists>match ct'. compileMeta z u to_text ct = Some (match, ct') \<and> ops_of (ct_search ct') \<subseteq> value_ops"
proof -
  note k = assms [unfolded term_fits_def]
  obtain pos neg added where "select_specs z u to_text (ct_mvals ct) [] [] (ct_search ct) = Some (pos, neg, added)" "ops_of added \<subseteq> value_ops"
    using select_specs_total [of "ct_mvals ct" z "ct_search ct" u to_text "[]" "[]"] k by blast
  then show ?thesis using k by (auto simp: compileMeta_def createSelectSpecs_def Let_def)
qed

lemma value_op_searchable: "op \<in> value_ops \<Longrightarrow> (if isNegated op then negate op else op) \<in> searchable"
  by (cases op) (auto simp: value_ops_def searchable_def contains_like_def)

lemma add_search_total: "op \<in> searchable \<Longrightarrow> add_search_loop s op ks scm \<noteq> None"
proof (induction s op ks scm rule: add_search_loop.induct)
  case (2 s op k ks scm)
  obtain pred where "cmpPred op = Some pred" using searchable_defined [OF 2(4)] by blast
  then show ?case using 2 by auto
qed simp

lemma add_call_total:
  assumes "op \<in> value_ops"
  shows "add_call visit sx w op st \<noteq> None"
proof -
  note s = value_op_searchable [OF assms]
  obtain p n where st: "st = (p, n)" by (cases st)
  have "scm_addSearch visit scm w op' sf \<noteq> None" if "op' \<in> searchable" for op' scm sf
    using add_search_total [OF that] by (auto simp: scm_addSearch_def split: option.splits)
  moreover obtain sf where "getSearchFunc sx (if isNegated op then negate op else op) = Some sf"
    using searchable_defined [OF s] by blast
  ultimately show ?thesis using s by (auto simp: add_call_def st Let_def split: if_splits)
qed

lemma add_calls_total: "(\<forall>(w, op) \<in> set calls. op \<in> value_ops) \<Longrightarrow> add_calls visit sx k calls st \<noteq> None"
proof (induction calls arbitrary: k st)
  case (Cons x calls)
  obtain w op where x: "x = (w, op)" by (cases x)
  obtain st' where "add_call (visit k) sx w op st = Some st'" using add_call_total [of op "visit k" sx w st] Cons.prems x by auto
  then show ?case using Cons.IH [of "Suc k" st'] Cons.prems by (simp add: x add_calls_Cons)
qed (simp add: add_calls_def)

lemma retrieveIndex_total:
  assumes "ops_of search \<subseteq> value_ops"
  shows "\<exists>r. retrieveIndex u visit sx search = Some r"
proof (cases "search = []")
  case False
  have "\<forall>(w, op) \<in> set (norm_calls u search). op \<in> value_ops" "\<forall>(w, op) \<in> set (plain_calls search). op \<in> value_ops"
    using assms norm_calls_ops [of _ _ u search] by (auto simp: plain_calls_def ops_of_def)
  then obtain p n b where "add_calls visit sx 3 (norm_calls u search) ([], []) = Some (p, n)"
      "add_calls visit sx (3 + length (norm_calls u search)) (plain_calls search) ([], n) = Some b"
    using add_calls_total by (metis not_None_eq prod.exhaust)
  then obtain r where "prepareRetrieveCalls u visit sx search = Some r" by (auto simp: prepareRetrieveCalls_def split: prod.splits)
  then show ?thesis using False by (cases r) (simp add: retrieveIndex_def)
qed (simp add: retrieveIndex_def)

lemma retrieveAndCompileTerm_total:
  "term_fits z ct \<Longrightarrow> \<exists>r. retrieveAndCompileTerm z u to_text visit searcher startSet ct = Some r"
  using compileMeta_total [of z ct u to_text] retrieveIndex_total [of _ u visit]
  by (cases searcher) (fastforce simp: retrieveAndCompileTerm_def)+

lemma compile_terms_total:
  "(\<forall>ct \<in> set terms. term_fits z ct) \<Longrightarrow> \<exists>r. compile_terms z u to_text visit searcher startSet terms result = Some r"
proof (induction terms arbitrary: result)
  case (Cons ct terms)
  obtain m r where "retrieveAndCompileTerm z u to_text (visit (length result)) searcher startSet ct = Some (m, r)"
    using retrieveAndCompileTerm_total [of z ct] Cons.prems by fastforce
  then show ?case using Cons by simp
qed simp

lemma RetrieveAndCompile_total':
  assumes "query_inv q" and "\<forall>ct \<in> set (q_terms q). term_fits z ct"
  shows "\<exists>c. RetrieveAndCompile z u to_text visit searcher (Some q) metaSeq = Some c"
  using compile_terms_total [OF assms(2)] q_Clone_id [OF assms(1)] by (simp add: RetrieveAndCompile_def)

text \<open>
  C20: A query whose values have comparison operations, and none of the has-operations for a
  zettelmarkup key, is compiled without a panic, whatever the searcher and the start sequence.
\<close>

theorem RetrieveAndCompile_total:
  assumes "query_inv q" and "\<forall>ct \<in> set (q_terms q). term_fits z ct"
  shows "\<exists>c. RetrieveAndCompile z u to_text visit searcher (Some q) metaSeq = Some c"
  by (rule RetrieveAndCompile_total' [OF assms])

definition role_query :: query where
  "role_query = q_zero\<lparr>q_terms := [ct_zero\<lparr>ct_mvals := [(''role'', [single ''note'' cmpHas])]\<rparr>]\<rparr>"

lemma role_query_ok: "query_inv role_query" "\<forall>ct \<in> set (q_terms role_query). term_fits doc_zsc ct"
proof -
  have "TypeOf doc_zsc ''role'' = TypeWord" by code_simp
  then show "query_inv role_query" "\<forall>ct \<in> set (q_terms role_query). term_fits doc_zsc ct"
    by (simp_all add: role_query_def query_inv_def term_inv_def ct_zero_def term_fits_def ops_fit_def ops_of_def value_ops_def gm_inv_def)
qed

lemma RetrieveAndCompile_total_witness:
  "\<exists>c. RetrieveAndCompile doc_zsc ascii_unicode (\<lambda>s. s) (\<lambda>i j ks. ks) None (Some role_query) None = Some c"
  by (rule RetrieveAndCompile_total [OF role_query_ok])

section \<open>What a compiled query accepts\<close>

lemma metaList2idSet_correct:
  "metaList2idSet ml = None \<longleftrightarrow> ml = None" "set_inv (metaList2idSet ml)" "elems (metaList2idSet (Some ms)) = m_Zid ` set ms"
proof -
  have f: "set_inv s \<Longrightarrow> s \<noteq> None \<Longrightarrow> set_inv (fold (\<lambda>m result. Set_Add result (m_Zid m)) ms s) \<and>
    elems (fold (\<lambda>m result. Set_Add result (m_Zid m)) ms s) = elems s \<union> m_Zid ` set ms \<and>
    fold (\<lambda>m result. Set_Add result (m_Zid m)) ms s \<noteq> None" for s and ms :: "meta list"
  proof (induction ms arbitrary: s)
    case (Cons m ms)
    then show ?case using Cons.IH [of "Set_Add s (m_Zid m)"] by (simp add: Set_Add_correct del: not_None_eq)
  qed simp
  have e: "set_inv (NewSetCap [])" "NewSetCap [] \<noteq> None" "elems (NewSetCap []) = {}" by (simp_all add: NewSetCap_def)
  show "metaList2idSet ml = None \<longleftrightarrow> ml = None" "set_inv (metaList2idSet ml)"
    using f [OF e(1,2)] by (cases ml; simp add: metaList2idSet_def)+
  show "elems (metaList2idSet (Some ms)) = m_Zid ` set ms" using f [OF e(1,2), of ms] e(3) by (simp add: metaList2idSet_def)
qed

text \<open>The part of a set that a retrieve predicate accepts.\<close>

lemma restrict_set:
  fixes p :: "zid \<Rightarrow> bool"
  assumes "set_inv s"
  defines "r \<equiv> Set_ForEach s (\<lambda>zid predSet. if p zid then Set_Add predSet zid else predSet) (NewSetCap [])"
  shows "set_inv r \<and> r \<noteq> None \<and> elems r = {x \<in> elems s. p x}"
proof -
  have f: "set_inv t \<Longrightarrow> t \<noteq> None \<Longrightarrow> set_inv (fold (\<lambda>zid predSet. if p zid then Set_Add predSet zid else predSet) zs t) \<and>
    fold (\<lambda>zid predSet. if p zid then Set_Add predSet zid else predSet) zs t \<noteq> None \<and>
    elems (fold (\<lambda>zid predSet. if p zid then Set_Add predSet zid else predSet) zs t) = elems t \<union> {x \<in> set zs. p x}" for zs t
  proof (induction zs arbitrary: t)
    case (Cons x zs)
    then show ?case using Cons.IH [of "if p x then Set_Add t x else t"] by (auto simp: Set_Add_correct simp del: not_None_eq)
  qed simp
  have e: "set_inv (NewSetCap [])" "NewSetCap [] \<noteq> None" "elems (NewSetCap []) = {}" by (simp_all add: NewSetCap_def)
  show ?thesis using f [OF e(1,2), of "case s of None \<Rightarrow> [] | Some seq \<Rightarrow> seq"] e
    unfolding r_def Set_ForEach_def by (cases s) auto
qed

definition term_accepts :: "zsc \<Rightarrow> unicode \<Rightarrow> (string \<Rightarrow> string) \<Rightarrow> (nat \<Rightarrow> searchOp list \<Rightarrow> searchOp list) \<Rightarrow> searcher \<Rightarrow>
    meta list option \<Rightarrow> conjTerms \<Rightarrow> meta \<Rightarrow> bool" where
  "term_accepts z u to_text visit sx metaSeq ct m \<longleftrightarrow>
     term_selects z u to_text ct m \<and>
     (\<exists>match ct' pred. compileMeta z u to_text ct = Some (match, ct') \<and>
        retrieveIndex u visit sx (ct_search ct') = Some pred \<and> opt_holds pred (m_Zid m)) \<and>
     (case metaSeq of None \<Rightarrow> True | Some ms \<Rightarrow> m_Zid m \<in> m_Zid ` set ms)"

lemma term_compiled:
  assumes "gm_inv (ct_keys ct)"
    and "retrieveAndCompileTerm z u to_text visit (Some sx) (metaList2idSet metaSeq) ct = Some (match, retrieve)"
  shows "opt_holds match m \<and> opt_holds retrieve (m_Zid m) \<longleftrightarrow> term_accepts z u to_text visit sx metaSeq ct m"
proof -
  let ?s = "metaList2idSet metaSeq"
  obtain ct' pred where c: "compileMeta z u to_text ct = Some (match, ct')" "retrieveIndex u visit sx (ct_search ct') = Some pred"
    and r: "retrieve = (if ?s = None then pred
             else case pred of
                 None \<Rightarrow> Some (\<lambda>zid. Set_ContainsOrNil ?s zid)
               | Some p \<Rightarrow>
                   (let predSet = Set_ForEach ?s (\<lambda>zid predSet. if p zid then Set_Add predSet zid else predSet) (NewSetCap [])
                    in Some (\<lambda>zid. Set_ContainsOrNil predSet zid)))"
    using assms(2) by (auto simp: retrieveAndCompileTerm_def bind_eq_Some_conv)
  note m = compileMeta_correct [OF assms(1) c(1), of m]
  have "opt_holds retrieve (m_Zid m) \<longleftrightarrow> opt_holds pred (m_Zid m) \<and> (case metaSeq of None \<Rightarrow> True | Some ms \<Rightarrow> m_Zid m \<in> m_Zid ` set ms)"
  proof (cases metaSeq)
    case None
    then show ?thesis using r metaList2idSet_correct(1) by simp
  next
    case seq: (Some ms)
    have s: "?s \<noteq> None" "set_inv ?s" "elems ?s = m_Zid ` set ms"
      using metaList2idSet_correct(1,2) [of metaSeq] metaList2idSet_correct(3) [of ms] seq by simp_all
    show ?thesis
    proof (cases pred)
      case None
      then have "retrieve = Some (\<lambda>zid. Set_ContainsOrNil ?s zid)" using r s(1) by simp
      then show ?thesis using None seq s Set_ContainsOrNil_correct [OF s(2)] by (simp del: not_None_eq)
    next
      case p: (Some p)
      let ?t = "Set_ForEach ?s (\<lambda>zid predSet. if p zid then Set_Add predSet zid else predSet) (NewSetCap [])"
      note t = restrict_set [OF s(2), of p]
      have "retrieve = Some (\<lambda>zid. Set_ContainsOrNil ?t zid)" using r s(1) p by (simp add: Let_def)
      then show ?thesis using p seq s(3) t Set_ContainsOrNil_correct [OF conjunct1 [OF t]] by (simp del: not_None_eq) blast
    qed
  qed
  then show ?thesis unfolding term_accepts_def using m c by auto
qed

definition accepts :: "CompiledTerm list \<Rightarrow> meta \<Rightarrow> bool" where
  "accepts terms m \<longleftrightarrow> (\<exists>t \<in> set terms. Match t m \<and> Retrieve t (m_Zid m))"

lemma ex_less_Suc_shift: "(\<exists>i < Suc n. P i) \<longleftrightarrow> P 0 \<or> (\<exists>i < n. P (Suc i))"
  using less_Suc_eq_0_disj by auto

lemma compile_terms_accept:
  assumes "compile_terms z u to_text visit (Some sx) (metaList2idSet metaSeq) terms result = Some out"
    and "\<forall>ct \<in> set terms. gm_inv (ct_keys ct)"
  shows "accepts out m \<longleftrightarrow> accepts result m \<or>
    (\<exists>i < length terms. term_accepts z u to_text (visit (length result + i)) sx metaSeq (terms ! i) m)"
  using assms
proof (induction terms arbitrary: result)
  case (Cons ct terms)
  obtain match retrieve where r: "retrieveAndCompileTerm z u to_text (visit (length result)) (Some sx) (metaList2idSet metaSeq) ct = Some (match, retrieve)"
    using Cons.prems(1) by (auto split: option.splits)
  have t: "opt_holds match m \<and> opt_holds retrieve (m_Zid m) \<longleftrightarrow> term_accepts z u to_text (visit (length result)) sx metaSeq ct m"
    by (rule term_compiled [OF _ r]) (use Cons.prems(2) in simp)
  show ?case
  proof (cases "match = None \<and> retrieve = None")
    case True
    then have "out = [\<lparr>Match = matchAlways, Retrieve = AlwaysIncluded\<rparr>]" using Cons.prems(1) r by simp
    then have "accepts out m" by (simp add: accepts_def matchAlways_def AlwaysIncluded_def)
    moreover have "term_accepts z u to_text (visit (length result + 0)) sx metaSeq ((ct # terms) ! 0) m" using t True by simp
    ultimately show ?thesis by (auto simp del: add_0_right nth_Cons_0)
  next
    case False
    let ?t = "\<lparr>Match = (case match of None \<Rightarrow> matchAlways | Some match \<Rightarrow> match),
      Retrieve = (case retrieve of None \<Rightarrow> AlwaysIncluded | Some pred \<Rightarrow> pred)\<rparr>"
    have c: "compile_terms z u to_text visit (Some sx) (metaList2idSet metaSeq) terms (result @ [?t]) = Some out"
      using Cons.prems(1) r False by auto
    have a: "accepts (result @ [?t]) m \<longleftrightarrow> accepts result m \<or> term_accepts z u to_text (visit (length result)) sx metaSeq ct m"
      unfolding t [symmetric] by (cases match; cases retrieve) (auto simp: accepts_def matchAlways_def AlwaysIncluded_def)
    have "accepts out m \<longleftrightarrow> accepts (result @ [?t]) m \<or>
      (\<exists>i < length terms. term_accepts z u to_text (visit (length (result @ [?t]) + i)) sx metaSeq (terms ! i) m)"
      by (rule Cons.IH [OF c]) (use Cons.prems(2) in simp)
    then show ?thesis unfolding a list.size(4) ex_less_Suc_shift by (simp add: ex_less_Suc_shift)
  qed
qed simp

text \<open>A compiled query in terms of the query.\<close>

lemma compiled_accepts:
  assumes "query_inv q" and "RetrieveAndCompile z u to_text visit (Some sx) (Some q) metaSeq = Some c"
  shows "accepts (c_Terms c) m \<longleftrightarrow>
    (\<exists>i < length (q_terms q). term_accepts z u to_text (visit i) sx metaSeq (q_terms q ! i) m)"
proof -
  have "compile_terms z u to_text visit (Some sx) (metaList2idSet metaSeq) (q_terms q) [] = Some (c_Terms c)"
    using assms(2) q_Clone_id [OF assms(1)] by (auto simp: RetrieveAndCompile_def)
  moreover have "\<forall>ct \<in> set (q_terms q). gm_inv (ct_keys ct)" using assms(1) by (auto simp: query_inv_def term_inv_def list_all_iff)
  ultimately show ?thesis using compile_terms_accept [of z u to_text visit sx metaSeq "q_terms q" "[]" "c_Terms c" m]
    by (simp add: accepts_def)
qed



section \<open>Where the selection differs from its operations\<close>

text \<open>The has-operation, the default of a query expression, panics for a zettelmarkup key.\<close>

lemma zmk_has_panics:
  assumes "TypeOf z key = TypeZettelmarkup" and "NormalizeWords u w \<noteq> []"
  shows "createMatchFunc z u to_text key [single w cmpHas] = None"
  using assms by (cases "NormalizeWords u w") (simp_all add: createMatchFunc_def createMatchZmkFunc_def norm_calls_def)

text \<open>
  A comparison with less or greater adds its value to the search of the index, which looks for
  zettel that contain the value: \<open>role<m\<close> only finds zettel with a word that contains \<open>m\<close>.
\<close>

lemma less_adds_search:
  assumes "TypeOf z key = TypeWord"
  shows "\<exists>f. createMatchFunc z u to_text key [single w cmpLess] = Some (Some f, [single (strings_ToLower w) cmpLess])"
  using assms by (simp add: createMatchFunc_def createMatchWordFunc_def valuesToWordPredicates_def sliceToLower_def positive_only_def single_def)

text \<open>A value that is not a number is neither equal to a number nor different from it.\<close>

lemma number_neither:
  assumes "TypeOf z key = TypeNumber" and "strconv_ParseInt w = Some n" and "strconv_ParseInt x = None"
  shows "\<exists>f g. createMatchFunc z u to_text key [single w cmpEqual] = Some (Some f, []) \<and>
    createMatchFunc z u to_text key [single w cmpNotEqual] = Some (Some g, []) \<and> \<not> f x \<and> \<not> g x"
  using assms by (simp add: createMatchFunc_def createMatchNumberFunc_def valuesToNumberPredicates_def parse_and_def)

end
