(* ===== verification/Ast.thy ===== *)
theory Ast
  imports Box
begin

text \<open>
  The abstract syntax tree, package \<open>ast\<close>: references (\<open>ref.go\<close>), inline and block nodes
  (\<open>inline.go\<close>, \<open>block.go\<close>), and the traversal by a visitor (\<open>walk.go\<close>). A slice is a list, where
  the nil slice and the empty one are the same.
\<close>

section \<open>References\<close>

text \<open>The parts of a parsed URL that the program reads; \<open>None\<close> is a missing user part.\<close>

record url =
  u_Scheme :: string
  u_Opaque :: string
  u_Host :: string
  u_User :: "string option"
  u_Path :: string
  u_RawQuery :: string
  u_Fragment :: string

text \<open>
  Package \<open>net/url\<close> and a constant of the client library: \<open>url_Parse\<close> gives \<open>None\<close> for an error, \<open>url_String\<close>
  is the method of a URL.
\<close>

record urls =
  url_Parse :: "string \<Rightarrow> url option"
  url_String :: "url \<Rightarrow> string"
  QueryPrefix :: string

datatype RefState = RefStateInvalid | RefStateZettel | RefStateSelf | RefStateFound | RefStateBroken
  | RefStateHosted | RefStateBased | RefStateQuery | RefStateExternal

record reference =
  r_URL :: "url option"
  r_Value :: string
  r_State :: RefState

definition invalidReference :: "string \<Rightarrow> bool" where
  "invalidReference s \<longleftrightarrow> s = [] \<or> s = ''00000000000000''"

definition externalURL :: "url \<Rightarrow> bool" where
  "externalURL u \<longleftrightarrow> u_Scheme u \<noteq> [] \<or> u_Opaque u \<noteq> [] \<or> u_Host u \<noteq> [] \<or> u_User u \<noteq> None"

definition localState :: "string \<Rightarrow> RefState \<times> bool" where
  "localState path =
     (if 0 < length path \<and> path ! 0 = CHR ''/'' then
        (if 1 < length path \<and> path ! 1 = CHR ''/'' then (RefStateBased, True) else (RefStateHosted, True))
      else if 1 < length path \<and> path ! 0 = CHR ''.'' then
        (if 2 < length path \<and> path ! 1 = CHR ''.'' \<and> path ! 2 = CHR ''/'' then (RefStateHosted, True)
         else (RefStateHosted, path ! 1 = CHR ''/''))
      else (RefStateInvalid, False))"

text \<open>What is tried when the reference is not local: \<open>s\<close> may have lost a leading slash by then.\<close>

definition parse_url_ref :: "urls \<Rightarrow> string \<Rightarrow> reference" where
  "parse_url_ref ur s =
     (case url_Parse ur s of
        None \<Rightarrow> \<lparr>r_URL = None, r_Value = s, r_State = RefStateInvalid\<rparr>
      | Some u \<Rightarrow>
          if \<not> externalURL u \<and> is_ok (Parse (u_Path u)) then \<lparr>r_URL = Some u, r_Value = s, r_State = RefStateZettel\<rparr>
          else if \<not> externalURL u \<and> u_Path u = [] \<and> u_Fragment u \<noteq> [] then
            \<lparr>r_URL = Some u, r_Value = s, r_State = RefStateSelf\<rparr>
          else \<lparr>r_URL = Some u, r_Value = s, r_State = RefStateExternal\<rparr>)"

definition ParseReference :: "urls \<Rightarrow> string \<Rightarrow> reference" where
  "ParseReference ur s =
     (if invalidReference s then \<lparr>r_URL = None, r_Value = s, r_State = RefStateInvalid\<rparr>
      else if strings_HasPrefix s (QueryPrefix ur) then
        \<lparr>r_URL = None, r_Value = drop (length (QueryPrefix ur)) s, r_State = RefStateQuery\<rparr>
      else case localState s of
          (state, True) \<Rightarrow>
            (let s = (if state = RefStateBased then tl s else s) in
             case url_Parse ur s of
               Some u \<Rightarrow> \<lparr>r_URL = Some u, r_Value = s, r_State = state\<rparr>
             | None \<Rightarrow> parse_url_ref ur s)
        | (state, False) \<Rightarrow> parse_url_ref ur s)"

definition ref_String :: "urls \<Rightarrow> reference \<Rightarrow> string" where
  "ref_String ur r =
     (case r_URL r of
        Some u \<Rightarrow> url_String ur u
      | None \<Rightarrow> if r_State r = RefStateQuery then QueryPrefix ur @ r_Value r else r_Value r)"

definition ref_IsValid :: "reference \<Rightarrow> bool" where
  "ref_IsValid r \<longleftrightarrow> r_State r \<noteq> RefStateInvalid"

definition ref_IsZettel :: "reference \<Rightarrow> bool" where
  "ref_IsZettel r \<longleftrightarrow> r_State r \<in> {RefStateZettel, RefStateSelf, RefStateFound, RefStateBroken}"

definition ref_IsLocal :: "reference \<Rightarrow> bool" where
  "ref_IsLocal r \<longleftrightarrow> r_State r = RefStateHosted \<or> r_State r = RefStateBased"

definition ref_IsExternal :: "reference \<Rightarrow> bool" where
  "ref_IsExternal r \<longleftrightarrow> r_State r = RefStateExternal"

section \<open>Nodes\<close>

text \<open>Attributes of the client library are maps.\<close>

type_synonym attrs = "(string, string) gomap"

datatype FormatKind = FormatEmph | FormatStrong | FormatInsert | FormatDelete | FormatSuper | FormatSub
  | FormatQuote | FormatMark | FormatSpan

datatype LiteralKind = LiteralZettel | LiteralProg | LiteralInput | LiteralOutput | LiteralComment
  | LiteralHTML | LiteralMath

text \<open>
  A heading and a mark carry the address of their node as the first component: the clean-up
  compares nodes by their addresses.
\<close>

datatype inline =
    TextNode string
  | BreakNode bool
  | LinkNode attrs "reference option" "inline list"
  | EmbedRefNode attrs "reference option" string "inline list"
  | EmbedBLOBNode attrs string string "inline list"
  | CiteNode attrs string "inline list"
  | MarkNode nat string string string "inline list"
  | FootnoteNode attrs "inline list"
  | FormatNode FormatKind attrs "inline list"
  | LiteralNode LiteralKind attrs string
  | InlineSlice "inline list"

datatype VerbatimKind = VerbatimZettel | VerbatimProg | VerbatimEval | VerbatimComment | VerbatimHTML | VerbatimMath

datatype RegionKind = RegionSpan | RegionQuote | RegionVerse

datatype NestedListKind = NestedListOrdered | NestedListUnordered | NestedListQuote

datatype Alignment = AlignDefault | AlignLeft | AlignCenter | AlignRight

type_synonym table_cell = "Alignment \<times> inline list"
type_synonym table_row = "table_cell list"

datatype block =
    ParaNode "inline list"
  | VerbatimNode VerbatimKind attrs string
  | RegionNode RegionKind attrs "block list" "inline list"
  | HeadingNode nat int attrs string string "inline list"
  | HRuleNode attrs
  | NestedListNode NestedListKind "block list list" attrs
  | DescriptionListNode "description list"
  | TableNode table_row "Alignment list" "table_row list"
  | TranscludeNode attrs "reference option"
  | BLOBNode "inline list" string string
  | BlockSlice "block list"
and description = Description "inline list" "block list list"

record zettelNode =
  zn_Meta :: meta
  zn_Content :: content
  zn_Zid :: zid
  zn_InhMeta :: meta
  zn_Ast :: "block list"
  zn_Syntax :: string

definition CreateParaNode :: "inline list \<Rightarrow> block" where
  "CreateParaNode nodes = ParaNode nodes"

fun FirstParagraphInlines :: "block list \<Rightarrow> inline list" where
  "FirstParagraphInlines [] = []"
| "FirstParagraphInlines (ParaNode inl # bs) = (if 0 < length inl then inl else FirstParagraphInlines bs)"
| "FirstParagraphInlines (b # bs) = FirstParagraphInlines bs"

section \<open>Traversal\<close>

text \<open>
  What a visitor is called with: a node, a pointer to a slice, or \<open>nil\<close> after the children of a node.
  The visitor changes its state and says whether the children are visited. Visitors that change nodes
  are modelled where they are declared.
\<close>

datatype node = Block_node block | Inline_node inline | Block_slice "block list" | Inline_slice "inline list" | Nil_node

type_synonym 's visitor = "node \<Rightarrow> 's \<Rightarrow> 's \<times> bool"

definition walk_node :: "'s visitor \<Rightarrow> node \<Rightarrow> ('s \<Rightarrow> 's) \<Rightarrow> 's \<Rightarrow> 's" where
  "walk_node v n children s = (case v n s of (s, go) \<Rightarrow> if go then fst (v Nil_node (children s)) else s)"

primrec walk_inline :: "'s visitor \<Rightarrow> inline \<Rightarrow> 's \<Rightarrow> 's"
  and walk_inlines :: "'s visitor \<Rightarrow> inline list \<Rightarrow> 's \<Rightarrow> 's" where
  "walk_inline v (TextNode t) = walk_node v (Inline_node (TextNode t)) (\<lambda>s. s)"
| "walk_inline v (BreakNode h) = walk_node v (Inline_node (BreakNode h)) (\<lambda>s. s)"
| "walk_inline v (LinkNode a r is) = walk_node v (Inline_node (LinkNode a r is))
     (if 0 < length is then walk_node v (Inline_slice is) (walk_inlines v is) else (\<lambda>s. s))"
| "walk_inline v (EmbedRefNode a r sy is) = walk_node v (Inline_node (EmbedRefNode a r sy is))
     (walk_node v (Inline_slice is) (walk_inlines v is))"
| "walk_inline v (EmbedBLOBNode a sy bl is) = walk_node v (Inline_node (EmbedBLOBNode a sy bl is))
     (walk_node v (Inline_slice is) (walk_inlines v is))"
| "walk_inline v (CiteNode a k is) = walk_node v (Inline_node (CiteNode a k is))
     (walk_node v (Inline_slice is) (walk_inlines v is))"
| "walk_inline v (MarkNode p m sl fr is) = walk_node v (Inline_node (MarkNode p m sl fr is))
     (if 0 < length is then walk_node v (Inline_slice is) (walk_inlines v is) else (\<lambda>s. s))"
| "walk_inline v (FootnoteNode a is) = walk_node v (Inline_node (FootnoteNode a is))
     (walk_node v (Inline_slice is) (walk_inlines v is))"
| "walk_inline v (FormatNode k a is) = walk_node v (Inline_node (FormatNode k a is))
     (walk_node v (Inline_slice is) (walk_inlines v is))"
| "walk_inline v (LiteralNode k a c) = walk_node v (Inline_node (LiteralNode k a c)) (\<lambda>s. s)"
| "walk_inline v (InlineSlice is) = walk_node v (Inline_slice is) (walk_inlines v is)"
| "walk_inlines v [] = (\<lambda>s. s)"
| "walk_inlines v (i # is) = (\<lambda>s. walk_inlines v is (walk_inline v i s))"

definition walk_inline_slice :: "'s visitor \<Rightarrow> inline list \<Rightarrow> 's \<Rightarrow> 's" where
  "walk_inline_slice v is = walk_node v (Inline_slice is) (walk_inlines v is)"

definition walk_cells :: "'s visitor \<Rightarrow> table_row \<Rightarrow> 's \<Rightarrow> 's" where
  "walk_cells v row = fold (\<lambda>cell. walk_inline_slice v (snd cell)) row"

primrec walk_block :: "'s visitor \<Rightarrow> block \<Rightarrow> 's \<Rightarrow> 's"
  and walk_blocks :: "'s visitor \<Rightarrow> block list \<Rightarrow> 's \<Rightarrow> 's"
  and walk_items :: "'s visitor \<Rightarrow> block list list \<Rightarrow> 's \<Rightarrow> 's"
  and walk_description :: "'s visitor \<Rightarrow> description \<Rightarrow> 's \<Rightarrow> 's"
  and walk_descriptions :: "'s visitor \<Rightarrow> description list \<Rightarrow> 's \<Rightarrow> 's" where
  "walk_block v (ParaNode is) = walk_node v (Block_node (ParaNode is)) (walk_inline_slice v is)"
| "walk_block v (VerbatimNode k a c) = walk_node v (Block_node (VerbatimNode k a c)) (\<lambda>s. s)"
| "walk_block v (RegionNode k a bs is) = walk_node v (Block_node (RegionNode k a bs is))
     (\<lambda>s. walk_inline_slice v is (walk_node v (Block_slice bs) (walk_blocks v bs) s))"
| "walk_block v (HeadingNode p l a sl fr is) = walk_node v (Block_node (HeadingNode p l a sl fr is)) (walk_inline_slice v is)"
| "walk_block v (HRuleNode a) = walk_node v (Block_node (HRuleNode a)) (\<lambda>s. s)"
| "walk_block v (NestedListNode k items a) = walk_node v (Block_node (NestedListNode k items a)) (walk_items v items)"
| "walk_block v (DescriptionListNode ds) = walk_node v (Block_node (DescriptionListNode ds)) (walk_descriptions v ds)"
| "walk_block v (TableNode hdr al rows) = walk_node v (Block_node (TableNode hdr al rows))
     (\<lambda>s. fold (walk_cells v) rows (walk_cells v hdr s))"
| "walk_block v (TranscludeNode a r) = walk_node v (Block_node (TranscludeNode a r)) (\<lambda>s. s)"
| "walk_block v (BLOBNode is sy bl) = walk_node v (Block_node (BLOBNode is sy bl)) (\<lambda>s. s)"
| "walk_block v (BlockSlice bs) = walk_node v (Block_slice bs) (walk_blocks v bs)"
| "walk_blocks v [] = (\<lambda>s. s)"
| "walk_blocks v (b # bs) = (\<lambda>s. walk_blocks v bs (walk_block v b s))"
| "walk_items v [] = (\<lambda>s. s)"
| "walk_items v (bs # bss) = (\<lambda>s. walk_items v bss (walk_blocks v bs s))"
| "walk_description v (Description tm bss) =
     (\<lambda>s. walk_items v bss (if 0 < length tm then walk_inline_slice v tm s else s))"
| "walk_descriptions v [] = (\<lambda>s. s)"
| "walk_descriptions v (d # ds) = (\<lambda>s. walk_descriptions v ds (walk_description v d s))"

definition walk_block_slice :: "'s visitor \<Rightarrow> block list \<Rightarrow> 's \<Rightarrow> 's" where
  "walk_block_slice v bs = walk_node v (Block_slice bs) (walk_blocks v bs)"

section \<open>Visitors that never stop\<close>

text \<open>
  Most visitors collect data from all nodes. For them a traversal is a loop over the nodes in the
  order of the visits.
\<close>

abbreviation with_slice :: "inline list \<Rightarrow> node list \<Rightarrow> node list" where
  "with_slice is ns \<equiv> Inline_slice is # ns @ [Nil_node]"

primrec nodes_inline :: "inline \<Rightarrow> node list"
  and nodes_inlines :: "inline list \<Rightarrow> node list" where
  "nodes_inline (TextNode t) = [Inline_node (TextNode t), Nil_node]"
| "nodes_inline (BreakNode h) = [Inline_node (BreakNode h), Nil_node]"
| "nodes_inline (LinkNode a r is) = Inline_node (LinkNode a r is) #
     (if 0 < length is then with_slice is (nodes_inlines is) else []) @ [Nil_node]"
| "nodes_inline (EmbedRefNode a r sy is) =
     Inline_node (EmbedRefNode a r sy is) # with_slice is (nodes_inlines is) @ [Nil_node]"
| "nodes_inline (EmbedBLOBNode a sy bl is) =
     Inline_node (EmbedBLOBNode a sy bl is) # with_slice is (nodes_inlines is) @ [Nil_node]"
| "nodes_inline (CiteNode a k is) = Inline_node (CiteNode a k is) # with_slice is (nodes_inlines is) @ [Nil_node]"
| "nodes_inline (MarkNode p m sl fr is) = Inline_node (MarkNode p m sl fr is) #
     (if 0 < length is then with_slice is (nodes_inlines is) else []) @ [Nil_node]"
| "nodes_inline (FootnoteNode a is) = Inline_node (FootnoteNode a is) # with_slice is (nodes_inlines is) @ [Nil_node]"
| "nodes_inline (FormatNode k a is) = Inline_node (FormatNode k a is) # with_slice is (nodes_inlines is) @ [Nil_node]"
| "nodes_inline (LiteralNode k a c) = [Inline_node (LiteralNode k a c), Nil_node]"
| "nodes_inline (InlineSlice is) = with_slice is (nodes_inlines is)"
| "nodes_inlines [] = []"
| "nodes_inlines (i # is) = nodes_inline i @ nodes_inlines is"

definition nodes_slice :: "inline list \<Rightarrow> node list" where
  "nodes_slice is = with_slice is (nodes_inlines is)"

definition nodes_cells :: "table_row \<Rightarrow> node list" where
  "nodes_cells row = concat (map (\<lambda>cell. nodes_slice (snd cell)) row)"

primrec nodes_block :: "block \<Rightarrow> node list"
  and nodes_blocks :: "block list \<Rightarrow> node list"
  and nodes_items :: "block list list \<Rightarrow> node list"
  and nodes_description :: "description \<Rightarrow> node list"
  and nodes_descriptions :: "description list \<Rightarrow> node list" where
  "nodes_block (ParaNode is) = Block_node (ParaNode is) # nodes_slice is @ [Nil_node]"
| "nodes_block (VerbatimNode k a c) = [Block_node (VerbatimNode k a c), Nil_node]"
| "nodes_block (RegionNode k a bs is) = Block_node (RegionNode k a bs is) #
     Block_slice bs # nodes_blocks bs @ [Nil_node] @ nodes_slice is @ [Nil_node]"
| "nodes_block (HeadingNode p l a sl fr is) = Block_node (HeadingNode p l a sl fr is) # nodes_slice is @ [Nil_node]"
| "nodes_block (HRuleNode a) = [Block_node (HRuleNode a), Nil_node]"
| "nodes_block (NestedListNode k items a) = Block_node (NestedListNode k items a) # nodes_items items @ [Nil_node]"
| "nodes_block (DescriptionListNode ds) = Block_node (DescriptionListNode ds) # nodes_descriptions ds @ [Nil_node]"
| "nodes_block (TableNode hdr al rows) = Block_node (TableNode hdr al rows) #
     nodes_cells hdr @ concat (map nodes_cells rows) @ [Nil_node]"
| "nodes_block (TranscludeNode a r) = [Block_node (TranscludeNode a r), Nil_node]"
| "nodes_block (BLOBNode is sy bl) = [Block_node (BLOBNode is sy bl), Nil_node]"
| "nodes_block (BlockSlice bs) = Block_slice bs # nodes_blocks bs @ [Nil_node]"
| "nodes_blocks [] = []"
| "nodes_blocks (b # bs) = nodes_block b @ nodes_blocks bs"
| "nodes_items [] = []"
| "nodes_items (bs # bss) = nodes_blocks bs @ nodes_items bss"
| "nodes_description (Description tm bss) = (if 0 < length tm then nodes_slice tm else []) @ nodes_items bss"
| "nodes_descriptions [] = []"
| "nodes_descriptions (d # ds) = nodes_description d @ nodes_descriptions ds"

definition nodes_block_slice :: "block list \<Rightarrow> node list" where
  "nodes_block_slice bs = Block_slice bs # nodes_blocks bs @ [Nil_node]"

definition goes_on :: "'s visitor \<Rightarrow> bool" where
  "goes_on v \<longleftrightarrow> (\<forall>n s. snd (v n s))"

abbreviation visit_all :: "'s visitor \<Rightarrow> node list \<Rightarrow> 's \<Rightarrow> 's" where
  "visit_all v \<equiv> fold (\<lambda>n s. fst (v n s))"

lemma walk_node_goes_on: "goes_on v \<Longrightarrow> walk_node v n f s = fst (v Nil_node (f (fst (v n s))))"
  unfolding walk_node_def goes_on_def by (cases "v n s") (metis (mono_tags, lifting) case_prod_conv fst_conv snd_conv)

lemma walk_inlines_visits:
  "(\<And>i s. i \<in> set is \<Longrightarrow> walk_inline v i s = visit_all v (nodes_inline i) s) \<Longrightarrow>
   walk_inlines v is s = visit_all v (nodes_inlines is) s"
  by (induction "is" arbitrary: s) auto

lemma walk_inline_visits: "goes_on v \<Longrightarrow> walk_inline v i s = visit_all v (nodes_inline i) s"
proof (induction i arbitrary: s)
qed (simp_all add: walk_node_goes_on walk_inlines_visits)

lemma walk_inline_slice_visits: "goes_on v \<Longrightarrow> walk_inline_slice v is s = visit_all v (nodes_slice is) s"
  by (simp add: walk_inline_slice_def nodes_slice_def walk_node_goes_on walk_inlines_visits walk_inline_visits)

lemma walk_cells_visits: "goes_on v \<Longrightarrow> walk_cells v row s = visit_all v (nodes_cells row) s"
  unfolding walk_cells_def nodes_cells_def by (induction row arbitrary: s) (simp_all add: walk_inline_slice_visits)

lemma walk_rows_visits: "goes_on v \<Longrightarrow> fold (walk_cells v) rows s = visit_all v (concat (map nodes_cells rows)) s"
  by (induction rows arbitrary: s) (simp_all add: walk_cells_visits)

lemma walk_blocks_visits:
  "(\<And>b s. b \<in> set bs \<Longrightarrow> walk_block v b s = visit_all v (nodes_block b) s) \<Longrightarrow>
   walk_blocks v bs s = visit_all v (nodes_blocks bs) s"
  by (induction bs arbitrary: s) auto

lemma walk_items_visits:
  "(\<And>b bs s. bs \<in> set bss \<Longrightarrow> b \<in> set bs \<Longrightarrow> walk_block v b s = visit_all v (nodes_block b) s) \<Longrightarrow>
   walk_items v bss s = visit_all v (nodes_items bss) s"
proof (induction bss arbitrary: s)
  case (Cons bs bss)
  have "walk_blocks v bs s = visit_all v (nodes_blocks bs) s" by (rule walk_blocks_visits) (use Cons.prems in auto)
  moreover have "walk_items v bss s = visit_all v (nodes_items bss) s" for s by (rule Cons.IH) (use Cons.prems in auto)
  ultimately show ?case by simp
qed simp

lemma walk_descriptions_visits:
  "(\<And>d s. d \<in> set ds \<Longrightarrow> walk_description v d s = visit_all v (nodes_description d) s) \<Longrightarrow>
   walk_descriptions v ds s = visit_all v (nodes_descriptions ds) s"
  by (induction ds arbitrary: s) auto

lemma walk_block_visits: "goes_on v \<Longrightarrow> walk_block v b s = visit_all v (nodes_block b) s"
  and walk_description_visits: "goes_on v \<Longrightarrow> walk_description v d s = visit_all v (nodes_description d) s"
proof (induction b and d arbitrary: s and s)
qed (simp_all add: walk_node_goes_on walk_inline_slice_visits walk_blocks_visits walk_items_visits
      walk_descriptions_visits walk_cells_visits walk_rows_visits)

text \<open>The traversal of a whole tree.\<close>

lemma walk_block_slice_visits: "goes_on v \<Longrightarrow> walk_block_slice v bs s = visit_all v (nodes_block_slice bs) s"
  by (simp add: walk_block_slice_def nodes_block_slice_def walk_node_goes_on walk_blocks_visits walk_block_visits)

section \<open>References have a URL\<close>

text \<open>A reference to a zettel has a URL, and where it names a zettel, the path of the URL is its identifier.\<close>

lemma parse_url_ref_zettel:
  "ref_IsZettel (parse_url_ref ur s) \<Longrightarrow> \<exists>u. r_URL (parse_url_ref ur s) = Some u \<and> \<not> externalURL u \<and>
     (r_State (parse_url_ref ur s) = RefStateZettel \<longrightarrow> is_ok (Parse (u_Path u)))"
  by (auto simp: parse_url_ref_def ref_IsZettel_def split: option.splits if_splits)

lemma localState_local: "localState s = (st, True) \<Longrightarrow> st = RefStateHosted \<or> st = RefStateBased"
  by (auto simp: localState_def split: if_splits)

lemma ParseReference_cases:
  "r_State (ParseReference ur s) \<in> {RefStateInvalid, RefStateQuery, RefStateHosted, RefStateBased} \<or>
   (\<exists>s'. ParseReference ur s = parse_url_ref ur s')"
proof -
  obtain st ok where "localState s = (st, ok)" by (cases "localState s")
  then show ?thesis
    using localState_local [of s st] by (auto simp: ParseReference_def Let_def split: option.splits bool.splits)
qed

lemma ParseReference_zettel:
  assumes "ref_IsZettel (ParseReference ur s)"
  shows "\<exists>u. r_URL (ParseReference ur s) = Some u \<and> \<not> externalURL u \<and>
    (r_State (ParseReference ur s) = RefStateZettel \<longrightarrow> is_ok (Parse (u_Path u)))"
proof -
  have "r_State (ParseReference ur s) \<notin> {RefStateInvalid, RefStateQuery, RefStateHosted, RefStateBased}"
    using assms by (auto simp: ref_IsZettel_def)
  then obtain s' where "ParseReference ur s = parse_url_ref ur s'" using ParseReference_cases [of ur s] by blast
  then show ?thesis using parse_url_ref_zettel [of ur s'] assms by simp
qed

end
