(* ===== verification/Encode.thy ===== *)
theory Encode
  imports Ast
begin

text \<open>
  The writer of the encoders (\<open>encoder/write.go\<close>) and the text encoder
  (\<open>encoder/textenc/textenc.go\<close>), which writes the text of a syntax tree without its markup.
\<close>

section \<open>The writer\<close>

text \<open>
  The first error stays and stops all writing. \<open>WriteByte\<close> adds the written length to the
  length that \<open>Write\<close> has already added it to.
\<close>

record encWriter =
  ew_w :: writer
  ew_err :: bool
  ew_length :: nat

definition NewEncWriter :: "writer \<Rightarrow> encWriter" where
  "NewEncWriter w = \<lparr>ew_w = w, ew_err = False, ew_length = 0\<rparr>"

definition ew_Write :: "string \<Rightarrow> encWriter \<Rightarrow> encWriter \<times> nat" where
  "ew_Write p w =
     (if ew_err w then (w, 0)
      else case io_WriteString (ew_w w) p of
          (w', l, err) \<Rightarrow> (\<lparr>ew_w = w', ew_err = err, ew_length = ew_length w + l\<rparr>, l))"

definition ew_WriteString :: "string \<Rightarrow> encWriter \<Rightarrow> encWriter" where
  "ew_WriteString s w =
     (if ew_err w then w
      else case io_WriteString (ew_w w) s of
          (w', l, err) \<Rightarrow> \<lparr>ew_w = w', ew_err = err, ew_length = ew_length w + l\<rparr>)"

definition ew_WriteStrings :: "string list \<Rightarrow> encWriter \<Rightarrow> encWriter" where
  "ew_WriteStrings sl w = fold ew_WriteString sl w"

definition ew_WriteByte :: "char \<Rightarrow> encWriter \<Rightarrow> encWriter" where
  "ew_WriteByte b w = (case ew_Write [b] w of (w', l) \<Rightarrow> w'\<lparr>ew_length := ew_length w' + l\<rparr>)"

definition ew_WriteBytes :: "string \<Rightarrow> encWriter \<Rightarrow> encWriter" where
  "ew_WriteBytes bs w = fst (ew_Write bs w)"

definition ew_Flush :: "encWriter \<Rightarrow> nat \<times> bool" where
  "ew_Flush w = (ew_length w, ew_err w)"

text \<open>A writer of a buffer takes everything; its text is the text written so far.\<close>

definition open_writer :: writer where
  "open_writer = \<lparr>written = [], capacity = None\<rparr>"

definition ew_text :: "encWriter \<Rightarrow> string" where
  "ew_text w = written (ew_w w)"

definition ew_open :: "encWriter \<Rightarrow> bool" where
  "ew_open w \<longleftrightarrow> \<not> ew_err w \<and> capacity (ew_w w) = None"

lemma ew_open_new [simp]: "ew_open (NewEncWriter open_writer)" "ew_text (NewEncWriter open_writer) = []"
  by (simp_all add: ew_open_def NewEncWriter_def open_writer_def ew_text_def)

lemma ew_open_writes [simp]:
  assumes "ew_open w"
  shows "ew_open (ew_WriteString s w)" "ew_text (ew_WriteString s w) = ew_text w @ s"
    and "ew_open (ew_WriteByte b w)" "ew_text (ew_WriteByte b w) = ew_text w @ [b]"
    and "ew_open (ew_WriteBytes s w)" "ew_text (ew_WriteBytes s w) = ew_text w @ s"
  using assms by (auto simp: ew_open_def ew_WriteString_def ew_WriteByte_def ew_WriteBytes_def ew_Write_def
      io_WriteString_def ew_text_def)

lemma ew_open_WriteStrings [simp]:
  "ew_open w \<Longrightarrow> ew_open (ew_WriteStrings sl w) \<and> ew_text (ew_WriteStrings sl w) = ew_text w @ concat sl"
  unfolding ew_WriteStrings_def by (induction sl arbitrary: w) simp_all

text \<open>A single byte counts twice.\<close>

lemma WriteByte_counts_twice: "ew_open w \<Longrightarrow> ew_length (ew_WriteByte b w) = ew_length w + 2"
  by (simp add: ew_open_def ew_WriteByte_def ew_Write_def io_WriteString_def)

section \<open>The text encoder\<close>

text \<open>The state of a visitor: its writer and the position in the current inline slice.\<close>

record textVisitor =
  tv_b :: encWriter
  tv_inlinePos :: nat

definition tv_newVisitor :: "writer \<Rightarrow> textVisitor" where
  "tv_newVisitor w = \<lparr>tv_b = NewEncWriter w, tv_inlinePos = 0\<rparr>"

definition tv_write :: "string \<Rightarrow> textVisitor \<Rightarrow> textVisitor" where
  "tv_write s v = v\<lparr>tv_b := ew_WriteString s (tv_b v)\<rparr>"

definition tv_byte :: "char \<Rightarrow> textVisitor \<Rightarrow> textVisitor" where
  "tv_byte c v = v\<lparr>tv_b := ew_WriteByte c (tv_b v)\<rparr>"

definition tv_bytes :: "string \<Rightarrow> textVisitor \<Rightarrow> textVisitor" where
  "tv_bytes s v = v\<lparr>tv_b := ew_WriteBytes s (tv_b v)\<rparr>"

definition writePosChar :: "nat \<Rightarrow> char \<Rightarrow> textVisitor \<Rightarrow> textVisitor" where
  "writePosChar pos ch v = (if 0 < pos then tv_byte ch v else v)"

fun visit_text_loop :: "zsc \<Rightarrow> bool \<Rightarrow> string \<Rightarrow> textVisitor \<Rightarrow> textVisitor" where
  "visit_text_loop z spaceFound [] v = v"
| "visit_text_loop z spaceFound (ch # s) v =
     (if input_IsSpace z ch then visit_text_loop z True s (if \<not> spaceFound then tv_byte CHR 0x20 v else v)
      else visit_text_loop z False s (tv_write [ch] v))"

definition tv_visitText :: "zsc \<Rightarrow> string \<Rightarrow> textVisitor \<Rightarrow> textVisitor" where
  "tv_visitText z s = visit_text_loop z False s"

primrec tv_inline :: "zsc \<Rightarrow> inline \<Rightarrow> textVisitor \<Rightarrow> textVisitor"
  and tv_inlines :: "zsc \<Rightarrow> nat \<Rightarrow> inline list \<Rightarrow> textVisitor \<Rightarrow> textVisitor" where
  "tv_inline z (TextNode t) = tv_visitText z t"
| "tv_inline z (BreakNode hard) = (if hard then tv_byte CHR 0x0A else tv_byte CHR 0x20)"
| "tv_inline z (LinkNode a r is) = (if 0 < length is then tv_inlines z 0 is else (\<lambda>v. v))"
| "tv_inline z (EmbedRefNode a r sy is) = tv_inlines z 0 is"
| "tv_inline z (EmbedBLOBNode a sy bl is) = tv_inlines z 0 is"
| "tv_inline z (CiteNode a k is) = tv_inlines z 0 is"
| "tv_inline z (MarkNode p m sl fr is) = (if 0 < length is then tv_inlines z 0 is else (\<lambda>v. v))"
| "tv_inline z (FootnoteNode a is) = (\<lambda>v. tv_inlines z 0 is (if 0 < tv_inlinePos v then tv_byte CHR 0x20 v else v))"
| "tv_inline z (FormatNode k a is) = tv_inlines z 0 is"
| "tv_inline z (LiteralNode k a c) = (if k \<noteq> LiteralComment then tv_bytes c else (\<lambda>v. v))"
| "tv_inline z (InlineSlice is) = tv_inlines z 0 is"
| "tv_inlines z i [] = (\<lambda>v. v\<lparr>tv_inlinePos := 0\<rparr>)"
| "tv_inlines z i (x # is) = (\<lambda>v. tv_inlines z (i + 1) is (tv_inline z x (v\<lparr>tv_inlinePos := i\<rparr>)))"

fun tv_row :: "zsc \<Rightarrow> nat \<Rightarrow> table_row \<Rightarrow> textVisitor \<Rightarrow> textVisitor" where
  "tv_row z i [] v = v"
| "tv_row z i (cell # cells) v = tv_row z (i + 1) cells (tv_inlines z 0 (snd cell) (writePosChar i CHR 0x20 v))"

fun tv_rows :: "zsc \<Rightarrow> nat \<Rightarrow> table_row list \<Rightarrow> textVisitor \<Rightarrow> textVisitor" where
  "tv_rows z i [] v = v"
| "tv_rows z i (row # rows) v = tv_rows z (i + 1) rows (tv_row z 0 row (writePosChar i CHR 0x0A v))"

primrec tv_block :: "zsc \<Rightarrow> block \<Rightarrow> textVisitor \<Rightarrow> textVisitor"
  and tv_blocks :: "zsc \<Rightarrow> nat \<Rightarrow> block list \<Rightarrow> textVisitor \<Rightarrow> textVisitor"
  and tv_items :: "zsc \<Rightarrow> nat \<Rightarrow> block list list \<Rightarrow> textVisitor \<Rightarrow> textVisitor"
  and tv_description :: "zsc \<Rightarrow> description \<Rightarrow> textVisitor \<Rightarrow> textVisitor"
  and tv_descriptions :: "zsc \<Rightarrow> nat \<Rightarrow> description list \<Rightarrow> textVisitor \<Rightarrow> textVisitor" where
  "tv_block z (ParaNode is) = tv_inlines z 0 is"
| "tv_block z (VerbatimNode k a c) = (if k = VerbatimComment then (\<lambda>v. v) else tv_bytes c)"
| "tv_block z (RegionNode k a bs is) =
     (\<lambda>v. let v = tv_blocks z 0 bs v in if 0 < length is then tv_inlines z 0 is (tv_byte CHR 0x0A v) else v)"
| "tv_block z (HeadingNode p l a sl fr is) = tv_inlines z 0 is"
| "tv_block z (HRuleNode a) = (\<lambda>v. v)"
| "tv_block z (NestedListNode k items a) = tv_items z 0 items"
| "tv_block z (DescriptionListNode ds) = tv_descriptions z 0 ds"
| "tv_block z (TableNode hdr al rows) =
     (\<lambda>v. tv_rows z 0 rows (if 0 < length hdr then tv_byte CHR 0x0A (tv_row z 0 hdr v) else v))"
| "tv_block z (TranscludeNode a r) = (\<lambda>v. v)"
| "tv_block z (BLOBNode is sy bl) = (\<lambda>v. v)"
| "tv_block z (BlockSlice bs) = tv_blocks z 0 bs"
| "tv_blocks z i [] = (\<lambda>v. v)"
| "tv_blocks z i (b # bs) = (\<lambda>v. tv_blocks z (i + 1) bs (tv_block z b (writePosChar i CHR 0x0A v)))"
| "tv_items z i [] = (\<lambda>v. v)"
| "tv_items z i (bs # bss) = (\<lambda>v. tv_items z (i + 1) bss (tv_blocks z 0 bs (writePosChar i CHR 0x0A v)))"
| "tv_description z (Description tm bss) = (\<lambda>v. tv_items z 1 bss (tv_inlines z 0 tm v))"
| "tv_descriptions z i [] = (\<lambda>v. v)"
| "tv_descriptions z i (d # ds) = (\<lambda>v. tv_descriptions z (i + 1) ds (tv_description z d (writePosChar i CHR 0x0A v)))"

definition text_WriteBlocks :: "zsc \<Rightarrow> writer \<Rightarrow> block list \<Rightarrow> writer \<times> nat \<times> bool" where
  "text_WriteBlocks z w bs = (let v = tv_blocks z 0 bs (tv_newVisitor w) in (ew_w (tv_b v), ew_Flush (tv_b v)))"

definition text_WriteInlines :: "zsc \<Rightarrow> writer \<Rightarrow> inline list \<Rightarrow> writer \<times> nat \<times> bool" where
  "text_WriteInlines z w is = (let v = tv_inlines z 0 is (tv_newVisitor w) in (ew_w (tv_b v), ew_Flush (tv_b v)))"

fun write_tags :: "nat \<Rightarrow> string list \<Rightarrow> encWriter \<Rightarrow> encWriter" where
  "write_tags i [] w = w"
| "write_tags i (tag # tags) w =
     write_tags (i + 1) tags (ew_WriteString (CleanTag tag) (if 0 < i then ew_WriteByte CHR 0x20 w else w))"

text \<open>
  An encoder that writes to the \<open>EncWriter\<close> of another one: \<open>f\<close> runs it on the writer behind. Every
  write goes through \<open>Write\<close> of the outer one, which counts it once.
\<close>

definition ew_through :: "(writer \<Rightarrow> writer \<times> nat \<times> bool) \<Rightarrow> encWriter \<Rightarrow> encWriter" where
  "ew_through f w =
     (if ew_err w then w
      else case f (ew_w w) of
          (w', l, err) \<Rightarrow> \<lparr>ew_w = w', ew_err = err,
            ew_length = ew_length w + (length (written w') - length (written (ew_w w)))\<rparr>)"

definition text_pair :: "zsc \<Rightarrow> (string \<Rightarrow> inline list) \<Rightarrow> meta_pair \<Rightarrow> encWriter \<Rightarrow> encWriter" where
  "text_pair z evalMeta p w =
     ew_WriteByte CHR 0x0A
       (case TypeOf z (fst p) of
          TypeTagSet \<Rightarrow> write_tags 0 (ListFromValue (snd p)) w
        | TypeZettelmarkup \<Rightarrow> ew_through (\<lambda>w. text_WriteInlines z w (evalMeta (snd p))) w
        | _ \<Rightarrow> ew_WriteString (snd p) w)"

definition text_WriteMeta :: "zsc \<Rightarrow> writer \<Rightarrow> meta \<Rightarrow> (string \<Rightarrow> inline list) \<Rightarrow> writer \<times> nat \<times> bool" where
  "text_WriteMeta z w m evalMeta =
     (let buf = fold (text_pair z evalMeta) (ComputedPairs z m) (NewEncWriter w) in (ew_w buf, ew_Flush buf))"

definition text_WriteZettel :: "zsc \<Rightarrow> writer \<Rightarrow> zettelNode \<Rightarrow> (string \<Rightarrow> inline list) \<Rightarrow> writer \<times> nat \<times> bool" where
  "text_WriteZettel z w zn evalMeta =
     (let v = tv_newVisitor w;
          v = v\<lparr>tv_b := ew_through (\<lambda>w. text_WriteMeta z w (zn_InhMeta zn) evalMeta) (tv_b v)\<rparr>;
          v = tv_blocks z 0 (zn_Ast zn) v
      in (ew_w (tv_b v), ew_Flush (tv_b v)))"

section \<open>The text that is written\<close>

text \<open>
  The reference: the text of nodes as a function. Only a footnote depends on its position: it is separated
  by a space unless it is first.
\<close>

fun text_spaces :: "zsc \<Rightarrow> bool \<Rightarrow> string \<Rightarrow> string" where
  "text_spaces z sp [] = []"
| "text_spaces z sp (c # s) =
     (if input_IsSpace z c then (if sp then [] else '' '') @ text_spaces z True s else c # text_spaces z False s)"

primrec inline_text :: "zsc \<Rightarrow> bool \<Rightarrow> inline \<Rightarrow> string"
  and inlines_text :: "zsc \<Rightarrow> bool \<Rightarrow> inline list \<Rightarrow> string" where
  "inline_text z later (TextNode t) = text_spaces z False t"
| "inline_text z later (BreakNode hard) = (if hard then [CHR 0x0A] else '' '')"
| "inline_text z later (LinkNode a r is) = inlines_text z False is"
| "inline_text z later (EmbedRefNode a r sy is) = inlines_text z False is"
| "inline_text z later (EmbedBLOBNode a sy bl is) = inlines_text z False is"
| "inline_text z later (CiteNode a k is) = inlines_text z False is"
| "inline_text z later (MarkNode p m sl fr is) = inlines_text z False is"
| "inline_text z later (FootnoteNode a is) = (if later then '' '' else []) @ inlines_text z False is"
| "inline_text z later (FormatNode k a is) = inlines_text z False is"
| "inline_text z later (LiteralNode k a c) = (if k = LiteralComment then [] else c)"
| "inline_text z later (InlineSlice is) = inlines_text z False is"
| "inlines_text z later [] = []"
| "inlines_text z later (x # is) = inline_text z later x @ inlines_text z True is"

definition tv_ok :: "textVisitor \<Rightarrow> bool" where
  "tv_ok v \<longleftrightarrow> ew_open (tv_b v)"

definition tv_text :: "textVisitor \<Rightarrow> string" where
  "tv_text v = ew_text (tv_b v)"

lemma tv_writes [simp]:
  assumes "tv_ok v"
  shows "tv_ok (tv_write s v)" "tv_text (tv_write s v) = tv_text v @ s"
    and "tv_ok (tv_byte c v)" "tv_text (tv_byte c v) = tv_text v @ [c]"
    and "tv_ok (tv_bytes s v)" "tv_text (tv_bytes s v) = tv_text v @ s"
    and "tv_ok (v\<lparr>tv_inlinePos := i\<rparr>)" "tv_text (v\<lparr>tv_inlinePos := i\<rparr>) = tv_text v"
  using assms by (simp_all add: tv_ok_def tv_text_def tv_write_def tv_byte_def tv_bytes_def)

lemma visit_text_loop_text:
  "tv_ok v \<Longrightarrow> tv_ok (visit_text_loop z sp s v) \<and> tv_text (visit_text_loop z sp s v) = tv_text v @ text_spaces z sp s"
  by (induction z sp s v rule: visit_text_loop.induct) auto

lemma tv_inlines_text_list:
  "(\<And>x v. x \<in> set is \<Longrightarrow> tv_ok v \<Longrightarrow> tv_ok (tv_inline z x v) \<and>
      tv_text (tv_inline z x v) = tv_text v @ inline_text z (0 < tv_inlinePos v) x) \<Longrightarrow> tv_ok v \<Longrightarrow>
   tv_ok (tv_inlines z i is v) \<and> tv_text (tv_inlines z i is v) = tv_text v @ inlines_text z (0 < i) is"
proof (induction "is" arbitrary: i v)
  case (Cons x xs)
  have "tv_ok (v\<lparr>tv_inlinePos := i\<rparr>)" using Cons.prems(2) by simp
  then show ?case using Cons.IH [of "tv_inline z x (v\<lparr>tv_inlinePos := i\<rparr>)" "i + 1"] Cons.prems by simp
qed simp

lemma tv_inline_text:
  "tv_ok v \<Longrightarrow> tv_ok (tv_inline z x v) \<and> tv_text (tv_inline z x v) = tv_text v @ inline_text z (0 < tv_inlinePos v) x"
  by (induction x arbitrary: v) (simp_all add: tv_inlines_text_list visit_text_loop_text tv_visitText_def)

lemma tv_inlines_text:
  "tv_ok v \<Longrightarrow> tv_ok (tv_inlines z i is v) \<and> tv_text (tv_inlines z i is v) = tv_text v @ inlines_text z (0 < i) is"
  using tv_inlines_text_list [of "is" z v i] tv_inline_text by simp

text \<open>The text of inline nodes, as it is written into a buffer.\<close>

definition inlines_string :: "zsc \<Rightarrow> inline list \<Rightarrow> string" where
  "inlines_string z is = written (fst (text_WriteInlines z open_writer is))"

lemma inlines_string_text: "inlines_string z is = inlines_text z False is"
proof -
  have "tv_ok (tv_newVisitor open_writer)" by (simp add: tv_ok_def tv_newVisitor_def)
  then have "tv_text (tv_inlines z 0 is (tv_newVisitor open_writer)) =
      tv_text (tv_newVisitor open_writer) @ inlines_text z False is"
    using tv_inlines_text [of "tv_newVisitor open_writer" z 0 "is"] by simp
  then show ?thesis by (simp add: inlines_string_def text_WriteInlines_def Let_def tv_text_def ew_text_def
      tv_newVisitor_def NewEncWriter_def open_writer_def)
qed

end
