(* ===== verification/Cleaner.thy ===== *)
theory Cleaner
  imports Encode Words
begin

text \<open>
  The clean-up of a syntax tree after parsing and evaluation (\<open>parser/cleaner/cleaner.go\<close>): raw HTML is
  dropped unless it is allowed, headings and marks get unique fragments, links are removed from
  descriptions. The code changes the nodes in place; the model returns the changed nodes.
\<close>

section \<open>Identifiers of headings and marks\<close>

record cleanVisitor =
  cv_ids :: "(string, nat) gomap"
  cv_hasMark :: bool
  cv_doMark :: bool

text \<open>The loop that tries \<open>id-1\<close>, \<open>id-2\<close> and so on; it ends because finitely many identifiers are taken.\<close>

definition numbered :: "string \<Rightarrow> nat \<Rightarrow> string" where
  "numbered ident n = ident @ ''-'' @ decimal_string n"

lemma numbered_inject: "numbered ident m = numbered ident n \<longleftrightarrow> m = n"
  by (simp add: numbered_def decimal_string_inject)

definition taken_from :: "(string, nat) gomap \<Rightarrow> string \<Rightarrow> nat \<Rightarrow> nat set" where
  "taken_from ids ident n = {k. n \<le> k \<and> numbered ident k \<in> set (gm_keys ids)}"

lemma finite_taken_from: "finite (taken_from ids ident n)"
proof (rule finite_subset)
  show "taken_from ids ident n \<subseteq> (numbered ident) -` set (gm_keys ids)" by (auto simp: taken_from_def)
  show "finite ((numbered ident) -` set (gm_keys ids))"
    by (rule finite_vimageI) (simp_all add: inj_def numbered_inject)
qed

function number_loop :: "(string, nat) gomap \<Rightarrow> string \<Rightarrow> nat \<Rightarrow> nat \<Rightarrow> string" where
  "number_loop ids ident node n =
     (case gm_get ids (numbered ident n) of
        None \<Rightarrow> numbered ident n
      | Some n2 \<Rightarrow> if n2 = node then numbered ident n else number_loop ids ident node (n + 1))"
  by pat_completeness auto
termination
proof (relation "measure (\<lambda>(ids, ident, node, n). card (taken_from ids ident n))")
  fix ids ident node n n2
  assume "gm_get ids (numbered ident n) = Some (n2 :: nat)"
  then have "numbered ident n \<in> set (gm_keys ids)" by (rule gm_get_Some_key)
  then have "n \<in> taken_from ids ident n" by (simp add: taken_from_def)
  moreover have "taken_from ids ident (n + 1) \<subseteq> taken_from ids ident n" "n \<notin> taken_from ids ident (n + 1)"
    by (auto simp: taken_from_def)
  ultimately have "taken_from ids ident (n + 1) \<subset> taken_from ids ident n" by blast
  then have "card (taken_from ids ident (n + 1)) < card (taken_from ids ident n)"
    by (rule psubset_card_mono [OF finite_taken_from])
  then show "((ids, ident, node, n + 1), ids, ident, node, n)
      \<in> measure (\<lambda>(ids, ident, node, n). card (taken_from ids ident n))" by simp
qed simp

declare number_loop.simps [simp del]

definition addIdentifier :: "string \<Rightarrow> nat \<Rightarrow> cleanVisitor \<Rightarrow> string \<times> cleanVisitor" where
  "addIdentifier ident node cv =
     (let newID = (case gm_get (cv_ids cv) ident of
          Some n \<Rightarrow> if n \<noteq> node then number_loop (cv_ids cv) ident node 1 else ident
        | None \<Rightarrow> ident)
      in (newID, cv\<lparr>cv_ids := gm_put (cv_ids cv) newID node\<rparr>))"

text \<open>An identifier is never taken away from another node.\<close>

lemma number_loop_free:
  "gm_get ids (number_loop ids ident node n) = None \<or> gm_get ids (number_loop ids ident node n) = Some node"
proof (induction ids ident node n rule: number_loop.induct)
  case (1 ids ident node n)
  then show ?case by (subst (1 2) number_loop.simps) (auto split: option.splits)
qed

lemma addIdentifier_owner:
  assumes "addIdentifier ident node cv = (f, cv')"
  shows "gm_get (cv_ids cv') f = Some node" and "gm_get (cv_ids cv) s = Some n \<Longrightarrow> gm_get (cv_ids cv') s = Some n"
proof -
  have e: "cv' = cv\<lparr>cv_ids := gm_put (cv_ids cv) f node\<rparr>" using assms by (auto simp: addIdentifier_def Let_def)
  then show "gm_get (cv_ids cv') f = Some node" by simp
  have "gm_get (cv_ids cv) f = None \<or> gm_get (cv_ids cv) f = Some node"
    using assms number_loop_free [of "cv_ids cv" ident node 1]
    by (auto simp: addIdentifier_def Let_def split: option.splits if_splits)
  then show "gm_get (cv_ids cv) s = Some n \<Longrightarrow> gm_get (cv_ids cv') s = Some n" using e by auto
qed

section \<open>The visitor\<close>

text \<open>The parameters: \<open>allowHTML\<close>, and what the text encoder and \<open>Slugify\<close> need.\<close>

record cleanEnv =
  ce_zsc :: zsc
  ce_unicode :: unicode
  ce_allowHTML :: bool

definition visitHeading :: "cleanEnv \<Rightarrow> nat \<Rightarrow> int \<Rightarrow> attrs \<Rightarrow> string \<Rightarrow> string \<Rightarrow> inline list \<Rightarrow> cleanVisitor \<Rightarrow> block \<times> cleanVisitor" where
  "visitHeading ce p l a slug fragment is cv =
     (if cv_doMark cv \<or> length is = 0 then (HeadingNode p l a slug fragment is, cv)
      else
        let slug = (if slug = [] then Slugify (ce_unicode ce) (inlines_string (ce_zsc ce) is) else slug) in
        if slug \<noteq> [] then
          (case addIdentifier slug p cv of (fragment, cv) \<Rightarrow> (HeadingNode p l a slug fragment is, cv))
        else (HeadingNode p l a slug fragment is, cv))"

definition visitMark :: "cleanEnv \<Rightarrow> nat \<Rightarrow> string \<Rightarrow> string \<Rightarrow> string \<Rightarrow> inline list \<Rightarrow> cleanVisitor \<Rightarrow> inline \<times> cleanVisitor" where
  "visitMark ce p mark slug fragment is cv =
     (if \<not> cv_doMark cv then (MarkNode p mark slug fragment is, cv\<lparr>cv_hasMark := True\<rparr>)
      else if mark = [] then
        (case addIdentifier ''*'' p cv of (fragment, cv) \<Rightarrow> (MarkNode p mark [] fragment is, cv))
      else
        let slug = (if slug = [] then Slugify (ce_unicode ce) mark else slug) in
        (case addIdentifier slug p cv of (fragment, cv) \<Rightarrow> (MarkNode p mark slug fragment is, cv)))"

definition is_html_inline :: "inline \<Rightarrow> bool" where
  "is_html_inline x = (case x of LiteralNode k a c \<Rightarrow> k = LiteralHTML | _ \<Rightarrow> False)"

definition is_html_block :: "block \<Rightarrow> bool" where
  "is_html_block b = (case b of VerbatimNode k a c \<Rightarrow> k = VerbatimHTML | _ \<Rightarrow> False)"

text \<open>A slice after its elements were visited.\<close>

definition drop_html :: "cleanEnv \<Rightarrow> inline list \<times> cleanVisitor \<Rightarrow> inline list \<times> cleanVisitor" where
  "drop_html ce r = (if ce_allowHTML ce then r else (filter (\<lambda>x. \<not> is_html_inline x) (fst r), snd r))"

definition drop_html_blocks :: "cleanEnv \<Rightarrow> block list \<times> cleanVisitor \<Rightarrow> block list \<times> cleanVisitor" where
  "drop_html_blocks ce r = (if ce_allowHTML ce then r else (filter (\<lambda>b. \<not> is_html_block b) (fst r), snd r))"

text \<open>Apply a constructor to a visited slice.\<close>

definition rebuild :: "('a \<Rightarrow> 'b) \<Rightarrow> 'a \<times> cleanVisitor \<Rightarrow> 'b \<times> cleanVisitor" where
  "rebuild f r = (f (fst r), snd r)"

primrec cv_inline :: "cleanEnv \<Rightarrow> inline \<Rightarrow> cleanVisitor \<Rightarrow> inline \<times> cleanVisitor"
  and cv_inlines :: "cleanEnv \<Rightarrow> inline list \<Rightarrow> cleanVisitor \<Rightarrow> inline list \<times> cleanVisitor" where
  "cv_inline ce (TextNode t) = Pair (TextNode t)"
| "cv_inline ce (BreakNode h) = Pair (BreakNode h)"
| "cv_inline ce (LinkNode a r is) =
     (if 0 < length is then (\<lambda>cv. rebuild (LinkNode a r) (drop_html ce (cv_inlines ce is cv))) else Pair (LinkNode a r is))"
| "cv_inline ce (EmbedRefNode a r sy is) = (\<lambda>cv. rebuild (EmbedRefNode a r sy) (drop_html ce (cv_inlines ce is cv)))"
| "cv_inline ce (EmbedBLOBNode a sy bl is) = (\<lambda>cv. rebuild (EmbedBLOBNode a sy bl) (drop_html ce (cv_inlines ce is cv)))"
| "cv_inline ce (CiteNode a k is) = (\<lambda>cv. rebuild (CiteNode a k) (drop_html ce (cv_inlines ce is cv)))"
| "cv_inline ce (MarkNode p m sl fr is) = visitMark ce p m sl fr is"
| "cv_inline ce (FootnoteNode a is) = (\<lambda>cv. rebuild (FootnoteNode a) (drop_html ce (cv_inlines ce is cv)))"
| "cv_inline ce (FormatNode k a is) = (\<lambda>cv. rebuild (FormatNode k a) (drop_html ce (cv_inlines ce is cv)))"
| "cv_inline ce (LiteralNode k a c) = Pair (LiteralNode k a c)"
| "cv_inline ce (InlineSlice is) = (\<lambda>cv. rebuild InlineSlice (drop_html ce (cv_inlines ce is cv)))"
| "cv_inlines ce [] = Pair []"
| "cv_inlines ce (x # is) =
     (\<lambda>cv. case cv_inline ce x cv of (x, cv) \<Rightarrow> rebuild (Cons x) (cv_inlines ce is cv))"

definition cv_slice :: "cleanEnv \<Rightarrow> inline list \<Rightarrow> cleanVisitor \<Rightarrow> inline list \<times> cleanVisitor" where
  "cv_slice ce is cv = drop_html ce (cv_inlines ce is cv)"

fun cv_cells :: "cleanEnv \<Rightarrow> table_row \<Rightarrow> cleanVisitor \<Rightarrow> table_row \<times> cleanVisitor" where
  "cv_cells ce [] cv = ([], cv)"
| "cv_cells ce ((al, is) # cells) cv =
     (case cv_slice ce is cv of (is, cv) \<Rightarrow> rebuild (Cons (al, is)) (cv_cells ce cells cv))"

fun cv_rows :: "cleanEnv \<Rightarrow> table_row list \<Rightarrow> cleanVisitor \<Rightarrow> table_row list \<times> cleanVisitor" where
  "cv_rows ce [] cv = ([], cv)"
| "cv_rows ce (row # rows) cv = (case cv_cells ce row cv of (row, cv) \<Rightarrow> rebuild (Cons row) (cv_rows ce rows cv))"

primrec cv_block :: "cleanEnv \<Rightarrow> block \<Rightarrow> cleanVisitor \<Rightarrow> block \<times> cleanVisitor"
  and cv_blocks :: "cleanEnv \<Rightarrow> block list \<Rightarrow> cleanVisitor \<Rightarrow> block list \<times> cleanVisitor"
  and cv_items :: "cleanEnv \<Rightarrow> block list list \<Rightarrow> cleanVisitor \<Rightarrow> block list list \<times> cleanVisitor"
  and cv_description :: "cleanEnv \<Rightarrow> description \<Rightarrow> cleanVisitor \<Rightarrow> description \<times> cleanVisitor"
  and cv_descriptions :: "cleanEnv \<Rightarrow> description list \<Rightarrow> cleanVisitor \<Rightarrow> description list \<times> cleanVisitor" where
  "cv_block ce (ParaNode is) = (\<lambda>cv. rebuild ParaNode (cv_slice ce is cv))"
| "cv_block ce (VerbatimNode k a c) = Pair (VerbatimNode k a c)"
| "cv_block ce (RegionNode k a bs is) =
     (\<lambda>cv. case drop_html_blocks ce (cv_blocks ce bs cv) of (bs, cv) \<Rightarrow> rebuild (RegionNode k a bs) (cv_slice ce is cv))"
| "cv_block ce (HeadingNode p l a sl fr is) = visitHeading ce p l a sl fr is"
| "cv_block ce (HRuleNode a) = Pair (HRuleNode a)"
| "cv_block ce (NestedListNode k items a) = (\<lambda>cv. rebuild (\<lambda>items. NestedListNode k items a) (cv_items ce items cv))"
| "cv_block ce (DescriptionListNode ds) = (\<lambda>cv. rebuild DescriptionListNode (cv_descriptions ce ds cv))"
| "cv_block ce (TableNode hdr al rows) =
     (\<lambda>cv. case cv_cells ce hdr cv of (hdr, cv) \<Rightarrow> rebuild (TableNode hdr al) (cv_rows ce rows cv))"
| "cv_block ce (TranscludeNode a r) = Pair (TranscludeNode a r)"
| "cv_block ce (BLOBNode is sy bl) = Pair (BLOBNode is sy bl)"
| "cv_block ce (BlockSlice bs) = (\<lambda>cv. rebuild BlockSlice (drop_html_blocks ce (cv_blocks ce bs cv)))"
| "cv_blocks ce [] = Pair []"
| "cv_blocks ce (b # bs) = (\<lambda>cv. case cv_block ce b cv of (b, cv) \<Rightarrow> rebuild (Cons b) (cv_blocks ce bs cv))"
| "cv_items ce [] = Pair []"
| "cv_items ce (bs # bss) = (\<lambda>cv. case cv_blocks ce bs cv of (bs, cv) \<Rightarrow> rebuild (Cons bs) (cv_items ce bss cv))"
| "cv_description ce (Description tm bss) =
     (\<lambda>cv. case (if 0 < length tm then cv_slice ce tm cv else (tm, cv)) of (tm, cv) \<Rightarrow>
        rebuild (Description tm) (cv_items ce bss cv))"
| "cv_descriptions ce [] = Pair []"
| "cv_descriptions ce (d # ds) =
     (\<lambda>cv. case cv_description ce d cv of (d, cv) \<Rightarrow> rebuild (Cons d) (cv_descriptions ce ds cv))"

definition cv_block_slice :: "cleanEnv \<Rightarrow> block list \<Rightarrow> cleanVisitor \<Rightarrow> block list \<times> cleanVisitor" where
  "cv_block_slice ce bs cv = drop_html_blocks ce (cv_blocks ce bs cv)"

text \<open>The second run, which gives fragments to marks, comes after all headings have theirs.\<close>

definition clean_twice :: "('a \<Rightarrow> cleanVisitor \<Rightarrow> 'a \<times> cleanVisitor) \<Rightarrow> 'a \<Rightarrow> 'a \<times> cleanVisitor" where
  "clean_twice walk n =
     (case walk n \<lparr>cv_ids = [], cv_hasMark = False, cv_doMark = False\<rparr> of
        (n, cv) \<Rightarrow> if cv_hasMark cv then walk n (cv\<lparr>cv_doMark := True\<rparr>) else (n, cv))"

definition CleanBlockSlice :: "zsc \<Rightarrow> unicode \<Rightarrow> bool \<Rightarrow> block list \<Rightarrow> block list" where
  "CleanBlockSlice z u allowHTML bs =
     fst (clean_twice (cv_block_slice \<lparr>ce_zsc = z, ce_unicode = u, ce_allowHTML = allowHTML\<rparr>) bs)"

definition CleanInlineSlice :: "zsc \<Rightarrow> unicode \<Rightarrow> inline list \<Rightarrow> inline list" where
  "CleanInlineSlice z u is =
     fst (clean_twice (cv_slice \<lparr>ce_zsc = z, ce_unicode = u, ce_allowHTML = False\<rparr>) is)"

section \<open>Removing links\<close>

definition is_link :: "inline \<Rightarrow> bool" where
  "is_link x = (case x of LinkNode a r is \<Rightarrow> True | FootnoteNode a is \<Rightarrow> True | _ \<Rightarrow> False)"

definition hasNoLinks :: "inline list \<Rightarrow> bool" where
  "hasNoLinks ins = list_all (\<lambda>x. \<not> is_link x) ins"

definition unlink :: "inline \<Rightarrow> inline list" where
  "unlink x = (case x of LinkNode a r is \<Rightarrow> is | FootnoteNode a is \<Rightarrow> [] | _ \<Rightarrow> [x])"

definition unlink_slice :: "inline list \<Rightarrow> inline list" where
  "unlink_slice ins = (if hasNoLinks ins then ins else concat (map unlink ins))"

primrec cl_inline :: "inline \<Rightarrow> inline"
  and cl_inlines :: "inline list \<Rightarrow> inline list" where
  "cl_inline (TextNode t) = TextNode t"
| "cl_inline (BreakNode h) = BreakNode h"
| "cl_inline (LinkNode a r is) = LinkNode a r (if 0 < length is then unlink_slice (cl_inlines is) else is)"
| "cl_inline (EmbedRefNode a r sy is) = EmbedRefNode a r sy (unlink_slice (cl_inlines is))"
| "cl_inline (EmbedBLOBNode a sy bl is) = EmbedBLOBNode a sy bl (unlink_slice (cl_inlines is))"
| "cl_inline (CiteNode a k is) = CiteNode a k (unlink_slice (cl_inlines is))"
| "cl_inline (MarkNode p m sl fr is) = MarkNode p m sl fr (if 0 < length is then unlink_slice (cl_inlines is) else is)"
| "cl_inline (FootnoteNode a is) = FootnoteNode a (unlink_slice (cl_inlines is))"
| "cl_inline (FormatNode k a is) = FormatNode k a (unlink_slice (cl_inlines is))"
| "cl_inline (LiteralNode k a c) = LiteralNode k a c"
| "cl_inline (InlineSlice is) = InlineSlice (unlink_slice (cl_inlines is))"
| "cl_inlines [] = []"
| "cl_inlines (x # is) = cl_inline x # cl_inlines is"

definition CleanInlineLinks :: "inline list \<Rightarrow> inline list" where
  "CleanInlineLinks is = unlink_slice (cl_inlines is)"

end
