(* ===== verification/CleanerLaws.thy ===== *)
theory CleanerLaws
  imports Cleaner
begin

text \<open>
  The clean-up of syntax trees: different headings and marks get different fragments, raw HTML is removed
  from all slices that are visited, and a cleaned description has no links.
\<close>

section \<open>Fragments are unique\<close>

text \<open>The nodes with a fragment that a run visits, and their fragments.\<close>

primrec frags_inline :: "inline \<Rightarrow> (nat \<times> string) list"
  and frags_inlines :: "inline list \<Rightarrow> (nat \<times> string) list" where
  "frags_inline (TextNode t) = []"
| "frags_inline (BreakNode h) = []"
| "frags_inline (LinkNode a r is) = frags_inlines is"
| "frags_inline (EmbedRefNode a r sy is) = frags_inlines is"
| "frags_inline (EmbedBLOBNode a sy bl is) = frags_inlines is"
| "frags_inline (CiteNode a k is) = frags_inlines is"
| "frags_inline (MarkNode p m sl fr is) = [(p, fr)]"
| "frags_inline (FootnoteNode a is) = frags_inlines is"
| "frags_inline (FormatNode k a is) = frags_inlines is"
| "frags_inline (LiteralNode k a c) = []"
| "frags_inline (InlineSlice is) = frags_inlines is"
| "frags_inlines [] = []"
| "frags_inlines (x # is) = frags_inline x @ frags_inlines is"

definition frags_cells :: "table_row \<Rightarrow> (nat \<times> string) list" where
  "frags_cells row = concat (map (\<lambda>cell. frags_inlines (snd cell)) row)"

primrec frags_block :: "block \<Rightarrow> (nat \<times> string) list"
  and frags_blocks :: "block list \<Rightarrow> (nat \<times> string) list"
  and frags_items :: "block list list \<Rightarrow> (nat \<times> string) list"
  and frags_description :: "description \<Rightarrow> (nat \<times> string) list"
  and frags_descriptions :: "description list \<Rightarrow> (nat \<times> string) list" where
  "frags_block (ParaNode is) = frags_inlines is"
| "frags_block (VerbatimNode k a c) = []"
| "frags_block (RegionNode k a bs is) = frags_blocks bs @ frags_inlines is"
| "frags_block (HeadingNode p l a sl fr is) = [(p, fr)]"
| "frags_block (HRuleNode a) = []"
| "frags_block (NestedListNode k items a) = frags_items items"
| "frags_block (DescriptionListNode ds) = frags_descriptions ds"
| "frags_block (TableNode hdr al rows) = frags_cells hdr @ concat (map frags_cells rows)"
| "frags_block (TranscludeNode a r) = []"
| "frags_block (BLOBNode is sy bl) = []"
| "frags_block (BlockSlice bs) = frags_blocks bs"
| "frags_blocks [] = []"
| "frags_blocks (b # bs) = frags_block b @ frags_blocks bs"
| "frags_items [] = []"
| "frags_items (bs # bss) = frags_blocks bs @ frags_items bss"
| "frags_description (Description tm bss) = frags_inlines tm @ frags_items bss"
| "frags_descriptions [] = []"
| "frags_descriptions (d # ds) = frags_description d @ frags_descriptions ds"

lemma frags_inlines_concat: "frags_inlines xs = concat (map frags_inline xs)"
  by (induction xs) auto

lemma frags_blocks_concat: "frags_blocks bs = concat (map frags_block bs)"
  by (induction bs) auto

text \<open>
  A step keeps the owners of identifiers, and every fragment afterwards either belongs to its node or was
  there before.
\<close>

definition keeps :: "(nat \<times> string) list \<Rightarrow> (nat \<times> string) list \<Rightarrow> cleanVisitor \<Rightarrow> cleanVisitor \<Rightarrow> bool" where
  "keeps old new cv cv' \<longleftrightarrow>
     (\<forall>s n. gm_get (cv_ids cv) s = Some n \<longrightarrow> gm_get (cv_ids cv') s = Some n) \<and>
     (\<forall>(p, f) \<in> set new. gm_get (cv_ids cv') f = Some p \<or> (p, f) \<in> set old)"

lemma keeps_refl [simp]: "keeps xs xs cv cv"
  by (auto simp: keeps_def)

lemma keeps_append: "keeps a a' c1 c2 \<Longrightarrow> keeps b b' c2 c3 \<Longrightarrow> keeps (a @ b) (a' @ b') c1 c3"
  unfolding keeps_def by fastforce

lemma keeps_subset: "keeps a a' c1 c2 \<Longrightarrow> set a'' \<subseteq> set a' \<Longrightarrow> keeps a a'' c1 c2"
  unfolding keeps_def by blast

lemma keeps_trans: "keeps a b c1 c2 \<Longrightarrow> keeps b c c2 c3 \<Longrightarrow> keeps a c c1 c3"
  unfolding keeps_def by fast

lemma keeps_addIdentifier: "addIdentifier ident p cv = (f, cv') \<Longrightarrow> keeps old [(p, f)] cv cv'"
  using addIdentifier_owner [of ident p cv f cv'] by (simp add: keeps_def)

abbreviation visited :: "('a \<Rightarrow> (nat \<times> string) list) \<Rightarrow> ('a \<Rightarrow> cleanVisitor \<Rightarrow> 'a \<times> cleanVisitor) \<Rightarrow> 'a \<Rightarrow> cleanVisitor \<Rightarrow> bool" where
  "visited frags visit x cv \<equiv> keeps (frags x) (frags (fst (visit x cv))) cv (snd (visit x cv))"

lemma fst_rebuild [simp]: "fst (rebuild f r) = f (fst r)" and snd_rebuild [simp]: "snd (rebuild f r) = snd r"
  by (simp_all add: rebuild_def)

lemma drop_html_keeps:
  "keeps xs (frags_inlines (fst r)) cv (snd r) \<Longrightarrow>
   keeps xs (frags_inlines (fst (drop_html ce r))) cv (snd (drop_html ce r))"
  by (rule keeps_subset [where a' = "frags_inlines (fst r)"]) (auto simp: drop_html_def frags_inlines_concat)

lemma drop_html_blocks_keeps:
  "keeps xs (frags_blocks (fst r)) cv (snd r) \<Longrightarrow>
   keeps xs (frags_blocks (fst (drop_html_blocks ce r))) cv (snd (drop_html_blocks ce r))"
  by (rule keeps_subset [where a' = "frags_blocks (fst r)"]) (auto simp: drop_html_blocks_def frags_blocks_concat)

lemma visitMark_keeps: "visited frags_inline (\<lambda>_. visitMark ce p m sl fr is) (MarkNode p m sl fr is) cv"
proof -
  have a: "keeps old [(p, fst (addIdentifier ident p cv))] cv (snd (addIdentifier ident p cv))" for old ident
    by (rule keeps_addIdentifier [where ident = ident]) simp
  have n: "keeps [(p, fr)] [(p, fr)] cv (cv\<lparr>cv_hasMark := True\<rparr>)" by (simp add: keeps_def)
  show ?thesis using a n by (simp add: visitMark_def Let_def case_prod_beta)
qed

lemma visitHeading_keeps: "visited frags_block (\<lambda>_. visitHeading ce p l a sl fr is) (HeadingNode p l a sl fr is) cv"
proof -
  have "keeps old [(p, fst (addIdentifier ident p cv))] cv (snd (addIdentifier ident p cv))" for old ident
    by (rule keeps_addIdentifier [where ident = ident]) simp
  then show ?thesis by (simp add: visitHeading_def Let_def case_prod_beta)
qed

lemma cv_inlines_keeps:
  "(\<And>x cv. x \<in> set is \<Longrightarrow> visited frags_inline (cv_inline ce) x cv) \<Longrightarrow> visited frags_inlines (cv_inlines ce) is cv"
proof (induction "is" arbitrary: cv)
  case (Cons x xs)
  then show ?case by (auto simp: case_prod_beta intro!: keeps_append)
qed simp

lemma cv_inline_keeps: "visited frags_inline (cv_inline ce) x cv"
proof (induction x arbitrary: cv)
  case (MarkNode p m sl fr "is")
  then show ?case using visitMark_keeps by simp
qed (auto intro!: drop_html_keeps cv_inlines_keeps)

lemma cv_slice_keeps: "visited frags_inlines (cv_slice ce) is cv"
  unfolding cv_slice_def by (intro drop_html_keeps cv_inlines_keeps cv_inline_keeps)

lemma cv_cells_keeps: "visited frags_cells (cv_cells ce) row cv"
proof (induction row arbitrary: cv)
  case (Cons cell row)
  obtain al "is" where "cell = (al, is)" by (cases cell)
  then show ?case using Cons.IH cv_slice_keeps [of "is" ce cv]
    by (simp add: case_prod_beta frags_cells_def keeps_append)
qed (simp add: frags_cells_def)

lemma cv_rows_keeps: "visited (\<lambda>rows. concat (map frags_cells rows)) (cv_rows ce) rows cv"
proof (induction rows arbitrary: cv)
  case (Cons row rows)
  then show ?case using cv_cells_keeps [of row ce cv] by (simp add: case_prod_beta keeps_append)
qed simp

lemma cv_blocks_keeps:
  "(\<And>b cv. b \<in> set bs \<Longrightarrow> visited frags_block (cv_block ce) b cv) \<Longrightarrow> visited frags_blocks (cv_blocks ce) bs cv"
proof (induction bs arbitrary: cv)
  case (Cons b bs)
  then show ?case by (auto simp: case_prod_beta intro!: keeps_append)
qed simp

lemma cv_items_keeps:
  "(\<And>b bs cv. bs \<in> set bss \<Longrightarrow> b \<in> set bs \<Longrightarrow> visited frags_block (cv_block ce) b cv) \<Longrightarrow>
   visited frags_items (cv_items ce) bss cv"
proof (induction bss arbitrary: cv)
  case (Cons bs bss)
  have "visited frags_blocks (cv_blocks ce) bs cv" by (rule cv_blocks_keeps) (use Cons.prems in auto)
  moreover have "visited frags_items (cv_items ce) bss cv" for cv by (rule Cons.IH) (use Cons.prems in auto)
  ultimately show ?case by (simp add: case_prod_beta keeps_append)
qed simp

lemma cv_descriptions_keeps:
  "(\<And>d cv. d \<in> set ds \<Longrightarrow> visited frags_description (cv_description ce) d cv) \<Longrightarrow>
   visited frags_descriptions (cv_descriptions ce) ds cv"
proof (induction ds arbitrary: cv)
  case (Cons d ds)
  then show ?case by (auto simp: case_prod_beta intro!: keeps_append)
qed simp

lemma cv_block_keeps: "visited frags_block (cv_block ce) b cv"
  and cv_description_keeps: "visited frags_description (cv_description ce) d cv"
proof (induction b and d arbitrary: cv and cv)
  case (ParaNode "is")
  then show ?case using cv_slice_keeps by simp
next
  case (RegionNode k a bs "is")
  let ?r = "drop_html_blocks ce (cv_blocks ce bs cv)"
  have "keeps (frags_blocks bs) (frags_blocks (fst ?r)) cv (snd ?r)"
    by (intro drop_html_blocks_keeps cv_blocks_keeps RegionNode)
  then show ?case using cv_slice_keeps [of "is" ce "snd ?r"] by (simp add: case_prod_beta keeps_append)
next
  case (HeadingNode p l a sl fr "is")
  then show ?case using visitHeading_keeps by simp
next
  case (NestedListNode k items a)
  then show ?case using cv_items_keeps [of items ce cv] by simp
next
  case (DescriptionListNode ds)
  then show ?case using cv_descriptions_keeps [of ds ce cv] by simp
next
  case (TableNode hdr al rows)
  then show ?case using cv_cells_keeps [of hdr ce cv] cv_rows_keeps [of rows ce "snd (cv_cells ce hdr cv)"]
    by (simp add: case_prod_beta keeps_append)
next
  case (BlockSlice bs)
  then show ?case by (simp add: drop_html_blocks_keeps cv_blocks_keeps)
next
  case (Description tm bss)
  let ?r = "if 0 < length tm then cv_slice ce tm cv else (tm, cv)"
  have "keeps (frags_inlines tm) (frags_inlines (fst ?r)) cv (snd ?r)" using cv_slice_keeps [of tm ce cv] by simp
  moreover have "visited frags_items (cv_items ce) bss (snd ?r)" by (rule cv_items_keeps) (use Description in auto)
  ultimately show ?case by (simp add: case_prod_beta keeps_append)
qed simp_all

lemma cv_block_slice_keeps: "visited frags_blocks (cv_block_slice ce) bs cv"
  unfolding cv_block_slice_def by (intro drop_html_blocks_keeps cv_blocks_keeps cv_block_keeps)

lemma clean_twice_keeps:
  assumes v: "\<And>x cv. visited frags walk x cv" and e: "clean_twice walk x = (x', cv)"
  shows "\<forall>(p, f) \<in> set (frags x'). gm_get (cv_ids cv) f = Some p \<or> (p, f) \<in> set (frags x)"
proof -
  obtain x1 cv1 where 1: "walk x \<lparr>cv_ids = [], cv_hasMark = False, cv_doMark = False\<rparr> = (x1, cv1)" by fastforce
  have k1: "keeps (frags x) (frags x1) \<lparr>cv_ids = [], cv_hasMark = False, cv_doMark = False\<rparr> cv1"
    using v [of x "\<lparr>cv_ids = [], cv_hasMark = False, cv_doMark = False\<rparr>"] 1 by simp
  show ?thesis
  proof (cases "cv_hasMark cv1")
    case False
    then show ?thesis using e 1 k1 by (auto simp: clean_twice_def keeps_def)
  next
    case True
    then have "walk x1 (cv1\<lparr>cv_doMark := True\<rparr>) = (x', cv)" using e 1 by (simp add: clean_twice_def)
    then have "keeps (frags x1) (frags x') (cv1\<lparr>cv_doMark := True\<rparr>) cv" using v [of x1 "cv1\<lparr>cv_doMark := True\<rparr>"] by simp
    then have "keeps (frags x1) (frags x') cv1 cv" by (simp add: keeps_def)
    from keeps_trans [OF k1 this] show ?thesis by (simp add: keeps_def)
  qed
qed

text \<open>
  C39: Fragments are unique: when a syntax tree in which no heading and no mark has a fragment yet is cleaned,
  two headings or marks with the same fragment are the same node, whatever their texts are; a number
  is appended where two texts give the same identifier.
\<close>
theorem fragments_unique:
  assumes "\<forall>(p, f) \<in> set (frags_blocks bs). f = []"
    and "(p, f) \<in> set (frags_blocks (CleanBlockSlice z u allowHTML bs))" "f \<noteq> []"
    and "(q, f) \<in> set (frags_blocks (CleanBlockSlice z u allowHTML bs))"
  shows "p = q"
proof -
  let ?ce = "\<lparr>ce_zsc = z, ce_unicode = u, ce_allowHTML = allowHTML\<rparr>"
  obtain bs' cv where e: "clean_twice (cv_block_slice ?ce) bs = (bs', cv)" by fastforce
  have "\<forall>(p, f) \<in> set (frags_blocks bs'). gm_get (cv_ids cv) f = Some p \<or> (p, f) \<in> set (frags_blocks bs)"
    using clean_twice_keeps [OF cv_block_slice_keeps e] .
  then have "gm_get (cv_ids cv) f = Some r" if "(r, f) \<in> set (frags_blocks bs')" for r
    using that assms(1,3) by blast
  then show ?thesis using assms(2,4) e by (simp add: CleanBlockSlice_def) (metis option.inject)
qed

lemma char_one: "char_of (49::nat) = CHR ''1''"
  by code_simp

theorem fragments_unique_witness:
  "\<forall>z u. (0, ''a'') \<in> set (frags_blocks (CleanBlockSlice z u False
       [HeadingNode 0 1 [] ''a'' [] [TextNode ''A''], HeadingNode 1 1 [] ''a'' [] [TextNode ''a'']])) \<and>
     (1, ''a-1'') \<in> set (frags_blocks (CleanBlockSlice z u False
       [HeadingNode 0 1 [] ''a'' [] [TextNode ''A''], HeadingNode 1 1 [] ''a'' [] [TextNode ''a'']])) \<and>
     (1, ''a'') \<notin> set (frags_blocks (CleanBlockSlice z u False
       [HeadingNode 0 1 [] ''a'' [] [TextNode ''A''], HeadingNode 1 1 [] ''a'' [] [TextNode ''a'']]))"
proof (intro allI)
  fix z u
  let ?bs = "[HeadingNode 0 1 [] ''a'' [] [TextNode ''A''], HeadingNode 1 1 [] ''a'' [] [TextNode ''a'']]"
  have r: "frags_blocks (CleanBlockSlice z u False ?bs) = [(0, ''a''), (1, ''a-1'')]"
    by (simp add: CleanBlockSlice_def clean_twice_def cv_block_slice_def drop_html_blocks_def visitHeading_def
        addIdentifier_def Let_def is_html_block_def rebuild_def number_loop.simps numbered_def decimal_string.simps char_one)
  have "(1, ''a'') \<notin> set (frags_blocks (CleanBlockSlice z u False ?bs))"
    using fragments_unique [of ?bs 0 "''a''" z u False 1] r by auto
  then show "(0, ''a'') \<in> set (frags_blocks (CleanBlockSlice z u False ?bs)) \<and>
      (1, ''a-1'') \<in> set (frags_blocks (CleanBlockSlice z u False ?bs)) \<and>
      (1, ''a'') \<notin> set (frags_blocks (CleanBlockSlice z u False ?bs))"
    using r by simp
qed

section \<open>Raw HTML\<close>

text \<open>No visited slice has raw HTML. Headings and marks are not entered, and the nodes of a list item or of a
  description are no slice of blocks.\<close>

primrec html_free_inline :: "inline \<Rightarrow> bool"
  and html_free_inlines :: "inline list \<Rightarrow> bool" where
  "html_free_inline (TextNode t) = True"
| "html_free_inline (BreakNode h) = True"
| "html_free_inline (LinkNode a r is) = html_free_inlines is"
| "html_free_inline (EmbedRefNode a r sy is) = html_free_inlines is"
| "html_free_inline (EmbedBLOBNode a sy bl is) = html_free_inlines is"
| "html_free_inline (CiteNode a k is) = html_free_inlines is"
| "html_free_inline (MarkNode p m sl fr is) = True"
| "html_free_inline (FootnoteNode a is) = html_free_inlines is"
| "html_free_inline (FormatNode k a is) = html_free_inlines is"
| "html_free_inline (LiteralNode k a c) = True"
| "html_free_inline (InlineSlice is) = html_free_inlines is"
| "html_free_inlines [] = True"
| "html_free_inlines (x # is) = (\<not> is_html_inline x \<and> html_free_inline x \<and> html_free_inlines is)"

definition html_free_cells :: "table_row \<Rightarrow> bool" where
  "html_free_cells row = list_all (\<lambda>cell. html_free_inlines (snd cell)) row"

primrec html_free_block :: "block \<Rightarrow> bool"
  and html_free_blocks :: "block list \<Rightarrow> bool"
  and html_free_items :: "block list list \<Rightarrow> bool"
  and html_free_description :: "description \<Rightarrow> bool"
  and html_free_descriptions :: "description list \<Rightarrow> bool" where
  "html_free_block (ParaNode is) = html_free_inlines is"
| "html_free_block (VerbatimNode k a c) = True"
| "html_free_block (RegionNode k a bs is) = (html_free_blocks bs \<and> list_all (\<lambda>b. \<not> is_html_block b) bs \<and> html_free_inlines is)"
| "html_free_block (HeadingNode p l a sl fr is) = True"
| "html_free_block (HRuleNode a) = True"
| "html_free_block (NestedListNode k items a) = html_free_items items"
| "html_free_block (DescriptionListNode ds) = html_free_descriptions ds"
| "html_free_block (TableNode hdr al rows) = (html_free_cells hdr \<and> list_all html_free_cells rows)"
| "html_free_block (TranscludeNode a r) = True"
| "html_free_block (BLOBNode is sy bl) = True"
| "html_free_block (BlockSlice bs) = (html_free_blocks bs \<and> list_all (\<lambda>b. \<not> is_html_block b) bs)"
| "html_free_blocks [] = True"
| "html_free_blocks (b # bs) = (html_free_block b \<and> html_free_blocks bs)"
| "html_free_items [] = True"
| "html_free_items (bs # bss) = (html_free_blocks bs \<and> html_free_items bss)"
| "html_free_description (Description tm bss) = (html_free_inlines tm \<and> html_free_items bss)"
| "html_free_descriptions [] = True"
| "html_free_descriptions (d # ds) = (html_free_description d \<and> html_free_descriptions ds)"

lemma html_free_inlines_all: "html_free_inlines is \<longleftrightarrow> list_all (\<lambda>x. \<not> is_html_inline x \<and> html_free_inline x) is"
  by (induction "is") auto

lemma html_free_blocks_all: "html_free_blocks bs \<longleftrightarrow> list_all html_free_block bs"
  by (induction bs) auto

lemma drop_html_free:
  "\<not> ce_allowHTML ce \<Longrightarrow> list_all html_free_inline (fst r) \<Longrightarrow> html_free_inlines (fst (drop_html ce r))"
  by (simp add: drop_html_def html_free_inlines_all list_all_iff)

lemma drop_html_blocks_free:
  "\<not> ce_allowHTML ce \<Longrightarrow> html_free_blocks (fst r) \<Longrightarrow>
   html_free_blocks (fst (drop_html_blocks ce r)) \<and> list_all (\<lambda>b. \<not> is_html_block b) (fst (drop_html_blocks ce r))"
  by (simp add: drop_html_blocks_def html_free_blocks_all list_all_iff)

lemma cv_inlines_free:
  "(\<And>x cv. x \<in> set is \<Longrightarrow> html_free_inline (fst (cv_inline ce x cv))) \<Longrightarrow>
   list_all html_free_inline (fst (cv_inlines ce is cv))"
  by (induction "is" arbitrary: cv) (auto simp: case_prod_beta)

lemma visitMark_free: "html_free_inline (fst (visitMark ce p m sl fr is cv))"
  by (simp add: visitMark_def Let_def case_prod_beta)

lemma visitHeading_free: "html_free_block (fst (visitHeading ce p l a sl fr is cv))"
  by (simp add: visitHeading_def Let_def case_prod_beta)

lemma cv_inline_free: "\<not> ce_allowHTML ce \<Longrightarrow> html_free_inline (fst (cv_inline ce x cv))"
  by (induction x arbitrary: cv) (auto simp: visitMark_free intro!: drop_html_free cv_inlines_free)

lemma cv_slice_free: "\<not> ce_allowHTML ce \<Longrightarrow> html_free_inlines (fst (cv_slice ce is cv))"
  unfolding cv_slice_def by (intro drop_html_free cv_inlines_free cv_inline_free)

lemma cv_cells_free: "\<not> ce_allowHTML ce \<Longrightarrow> html_free_cells (fst (cv_cells ce row cv))"
proof (induction row arbitrary: cv)
  case (Cons cell row)
  then show ?case by (cases cell) (simp add: case_prod_beta html_free_cells_def cv_slice_free)
qed (simp add: html_free_cells_def)

lemma cv_rows_free: "\<not> ce_allowHTML ce \<Longrightarrow> list_all html_free_cells (fst (cv_rows ce rows cv))"
  by (induction rows arbitrary: cv) (simp_all add: case_prod_beta cv_cells_free)

lemma cv_blocks_free:
  "(\<And>b cv. b \<in> set bs \<Longrightarrow> html_free_block (fst (cv_block ce b cv))) \<Longrightarrow> html_free_blocks (fst (cv_blocks ce bs cv))"
  by (induction bs arbitrary: cv) (auto simp: case_prod_beta)

lemma cv_items_free:
  "(\<And>b bs cv. bs \<in> set bss \<Longrightarrow> b \<in> set bs \<Longrightarrow> html_free_block (fst (cv_block ce b cv))) \<Longrightarrow>
   html_free_items (fst (cv_items ce bss cv))"
proof (induction bss arbitrary: cv)
  case (Cons bs bss)
  have "html_free_blocks (fst (cv_blocks ce bs cv))" by (rule cv_blocks_free) (use Cons.prems in auto)
  moreover have "html_free_items (fst (cv_items ce bss cv))" for cv by (rule Cons.IH) (use Cons.prems in auto)
  ultimately show ?case by (simp add: case_prod_beta)
qed simp

lemma cv_descriptions_free:
  "(\<And>d cv. d \<in> set ds \<Longrightarrow> html_free_description (fst (cv_description ce d cv))) \<Longrightarrow>
   html_free_descriptions (fst (cv_descriptions ce ds cv))"
  by (induction ds arbitrary: cv) (auto simp: case_prod_beta)

lemma cv_block_free: "\<not> ce_allowHTML ce \<Longrightarrow> html_free_block (fst (cv_block ce b cv))"
  and cv_description_free: "\<not> ce_allowHTML ce \<Longrightarrow> html_free_description (fst (cv_description ce d cv))"
proof (induction b and d arbitrary: cv and cv)
  case (Description tm bss)
  have "html_free_items (fst (cv_items ce bss cv))" for cv by (rule cv_items_free) (use Description in auto)
  then show ?case using cv_slice_free [OF Description.prems, of tm cv] by (cases tm) (simp_all add: case_prod_beta)
next
  case (NestedListNode k items a)
  then show ?case by (simp add: cv_items_free)
qed (simp_all add: case_prod_beta cv_slice_free cv_cells_free cv_rows_free visitHeading_free
      drop_html_blocks_free cv_blocks_free cv_descriptions_free)

lemma clean_twice_free: "(\<And>x cv. P (fst (walk x cv))) \<Longrightarrow> P (fst (clean_twice walk x))"
  by (simp add: clean_twice_def case_prod_beta)

text \<open>The slices are free of HTML after the clean-up.\<close>

lemma CleanBlockSlice_free:
  "html_free_blocks (CleanBlockSlice z u False bs) \<and> list_all (\<lambda>b. \<not> is_html_block b) (CleanBlockSlice z u False bs)"
  unfolding CleanBlockSlice_def
  by (rule clean_twice_free) (simp add: cv_block_slice_def drop_html_blocks_free cv_blocks_free cv_block_free)

text \<open>
  But raw HTML in the text of a heading or a mark, and a block of HTML in a list item, stays: nodes below
  headings and marks are not visited, and the blocks of a list item are not filtered. The markdown
  parser produces such trees, and with the default configuration HTML is not allowed.
\<close>

lemma html_survives:
  assumes "ce_allowHTML ce = False"
  shows "LiteralNode LiteralHTML [] s \<in> set (case fst (cv_block ce (HeadingNode p 1 [] sl fr [LiteralNode LiteralHTML [] s]) cv) of
      HeadingNode p l a sl fr is \<Rightarrow> is | _ \<Rightarrow> [])"
    and "fst (cv_block ce (NestedListNode k [[VerbatimNode VerbatimHTML [] s]] a) cv) =
      NestedListNode k [[VerbatimNode VerbatimHTML [] s]] a"
  by (simp_all add: visitHeading_def Let_def case_prod_beta)

section \<open>Links in descriptions\<close>

primrec linkless_inline :: "inline \<Rightarrow> bool"
  and linkless_inlines :: "inline list \<Rightarrow> bool" where
  "linkless_inline (TextNode t) = True"
| "linkless_inline (BreakNode h) = True"
| "linkless_inline (LinkNode a r is) = False"
| "linkless_inline (EmbedRefNode a r sy is) = linkless_inlines is"
| "linkless_inline (EmbedBLOBNode a sy bl is) = linkless_inlines is"
| "linkless_inline (CiteNode a k is) = linkless_inlines is"
| "linkless_inline (MarkNode p m sl fr is) = linkless_inlines is"
| "linkless_inline (FootnoteNode a is) = False"
| "linkless_inline (FormatNode k a is) = linkless_inlines is"
| "linkless_inline (LiteralNode k a c) = True"
| "linkless_inline (InlineSlice is) = linkless_inlines is"
| "linkless_inlines [] = True"
| "linkless_inlines (x # is) = (linkless_inline x \<and> linkless_inlines is)"

lemma linkless_inlines_all: "linkless_inlines is = list_all linkless_inline is"
  by (induction "is") auto

lemma unlink_slice_linkless:
  assumes "\<And>x. x \<in> set is \<Longrightarrow> linkless_inlines (unlink (cl_inline x))"
  shows "linkless_inlines (unlink_slice (cl_inlines is))"
proof -
  have c: "cl_inlines is = map cl_inline is" by (induction "is") auto
  have "linkless_inlines (concat (map unlink (cl_inlines is)))"
    using assms by (auto simp: c linkless_inlines_all list_all_iff)
  moreover have "concat (map unlink xs) = xs" if "hasNoLinks xs" for xs
    using that by (induction xs) (auto simp: hasNoLinks_def is_link_def unlink_def split: inline.splits)
  ultimately show ?thesis by (auto simp: unlink_slice_def)
qed

lemma unlink_cl_linkless: "linkless_inlines (unlink (cl_inline x))"
  by (induction x) (auto simp: unlink_def unlink_slice_linkless)

text \<open>The text of a description that is itself shown as a link has no links and no footnotes in it.\<close>

lemma CleanInlineLinks_linkless: "linkless_inlines (CleanInlineLinks is)"
  unfolding CleanInlineLinks_def by (rule unlink_slice_linkless) (rule unlink_cl_linkless)

end
