(* ===== verification/Collect.thy ===== *)
theory Collect
  imports Ast Words MapStoreInv
begin

text \<open>
  What is collected from a syntax tree: all references (\<open>collect/collect.go\<close>), the references of an
  ordered list (\<open>collect/order.go\<close>), and the words and references for the index
  (\<open>box/manager/collect.go\<close>).
\<close>

section \<open>References of a zettel\<close>

text \<open>A citation is collected with its node.\<close>

record Summary =
  s_Links :: "reference option list"
  s_Embeds :: "reference option list"
  s_Cites :: "inline list"

fun summary_Visit :: "node \<Rightarrow> Summary \<Rightarrow> Summary \<times> bool" where
  "summary_Visit (Block_node (TranscludeNode a r)) s = (s\<lparr>s_Embeds := s_Embeds s @ [r]\<rparr>, True)"
| "summary_Visit (Inline_node (LinkNode a r is)) s = (s\<lparr>s_Links := s_Links s @ [r]\<rparr>, True)"
| "summary_Visit (Inline_node (EmbedRefNode a r sy is)) s = (s\<lparr>s_Embeds := s_Embeds s @ [r]\<rparr>, True)"
| "summary_Visit (Inline_node (CiteNode a k is)) s = (s\<lparr>s_Cites := s_Cites s @ [CiteNode a k is]\<rparr>, True)"
| "summary_Visit n s = (s, True)"

definition References :: "zettelNode \<Rightarrow> Summary" where
  "References zn = walk_block_slice summary_Visit (zn_Ast zn) \<lparr>s_Links = [], s_Embeds = [], s_Cites = []\<rparr>"

section \<open>The order of references\<close>

text \<open>The outer \<open>None\<close> is the panic for a link without a reference.\<close>

primrec inline_zettel_ref :: "inline \<Rightarrow> reference option option"
  and firstInlineZettelReference :: "inline list \<Rightarrow> reference option option" where
  "inline_zettel_ref (TextNode t) = Some None"
| "inline_zettel_ref (BreakNode h) = Some None"
| "inline_zettel_ref (LinkNode a r is) =
     (case r of None \<Rightarrow> None | Some ref \<Rightarrow> if ref_IsZettel ref then Some (Some ref) else firstInlineZettelReference is)"
| "inline_zettel_ref (EmbedRefNode a r sy is) = firstInlineZettelReference is"
| "inline_zettel_ref (EmbedBLOBNode a sy bl is) = firstInlineZettelReference is"
| "inline_zettel_ref (CiteNode a k is) = firstInlineZettelReference is"
| "inline_zettel_ref (MarkNode p m sl fr is) = Some None"
| "inline_zettel_ref (FootnoteNode a is) = Some None"
| "inline_zettel_ref (FormatNode k a is) = firstInlineZettelReference is"
| "inline_zettel_ref (LiteralNode k a c) = Some None"
| "inline_zettel_ref (InlineSlice is) = Some None"
| "firstInlineZettelReference [] = Some None"
| "firstInlineZettelReference (x # is) =
     (case inline_zettel_ref x of
        None \<Rightarrow> None
      | Some (Some ref) \<Rightarrow> Some (Some ref)
      | Some None \<Rightarrow> firstInlineZettelReference is)"

fun firstItemZettelReference :: "block list \<Rightarrow> reference option option" where
  "firstItemZettelReference [] = Some None"
| "firstItemZettelReference (ParaNode is # bs) =
     (case firstInlineZettelReference is of
        None \<Rightarrow> None
      | Some (Some ref) \<Rightarrow> Some (Some ref)
      | Some None \<Rightarrow> firstItemZettelReference bs)"
| "firstItemZettelReference (b # bs) = firstItemZettelReference bs"

fun order_items :: "block list list \<Rightarrow> reference list option" where
  "order_items [] = Some []"
| "order_items (item # items) =
     (case firstItemZettelReference item of
        None \<Rightarrow> None
      | Some (Some ref) \<Rightarrow> map_option (Cons ref) (order_items items)
      | Some None \<Rightarrow> order_items items)"

fun order_blocks :: "block list \<Rightarrow> reference list option" where
  "order_blocks [] = Some []"
| "order_blocks (NestedListNode k items a # bs) =
     (if k = NestedListQuote then order_blocks bs
      else case (order_items items, order_blocks bs) of
          (Some refs, Some rest) \<Rightarrow> Some (refs @ rest) | _ \<Rightarrow> None)"
| "order_blocks (b # bs) = order_blocks bs"

definition Order :: "zettelNode \<Rightarrow> reference list option" where
  "Order zn = order_blocks (zn_Ast zn)"

section \<open>Data for the index\<close>

record collectData =
  cd_refs :: idset
  cd_words :: wordset
  cd_urls :: wordset

definition cd_initialize :: collectData where
  "cd_initialize = \<lparr>cd_refs = NewSet [], cd_words = NewWordSet, cd_urls = NewWordSet\<rparr>"

definition add_words :: "string list \<Rightarrow> wordset \<Rightarrow> wordset" where
  "add_words words ws = fold (\<lambda>w ws. WordSet_Add ws w) words ws"

definition cd_addText :: "unicode \<Rightarrow> string \<Rightarrow> collectData \<Rightarrow> collectData" where
  "cd_addText u s data = data\<lparr>cd_words := add_words (NormalizeWords u s) (cd_words data)\<rparr>"

text \<open>
  The reference to a zettel always has a URL (\<open>ParseReference_zettel\<close>). The set of references is
  never nil, so \<open>Add\<close> works in place.
\<close>

definition cd_addRef :: "reference option \<Rightarrow> collectData \<Rightarrow> collectData" where
  "cd_addRef ref data =
     (case ref of
        None \<Rightarrow> data
      | Some r \<Rightarrow>
          let data = (if ref_IsExternal r then data\<lparr>cd_urls := WordSet_Add (cd_urls data) (strings_ToLower (r_Value r))\<rparr>
                      else data) in
          if \<not> ref_IsZettel r then data
          else case r_URL r of
              None \<Rightarrow> data
            | Some u \<Rightarrow> (case Parse (u_Path u) of
                  Inr zid \<Rightarrow> data\<lparr>cd_refs := Set_Add (cd_refs data) zid\<rparr>
                | Inl err \<Rightarrow> data))"

fun cd_Visit :: "unicode \<Rightarrow> node \<Rightarrow> collectData \<Rightarrow> collectData \<times> bool" where
  "cd_Visit u (Block_node (VerbatimNode k a c)) data = (cd_addText u c data, True)"
| "cd_Visit u (Block_node (TranscludeNode a r)) data = (cd_addRef r data, True)"
| "cd_Visit u (Inline_node (TextNode t)) data = (cd_addText u t data, True)"
| "cd_Visit u (Inline_node (LinkNode a r is)) data = (cd_addRef r data, True)"
| "cd_Visit u (Inline_node (EmbedRefNode a r sy is)) data = (cd_addRef r data, True)"
| "cd_Visit u (Inline_node (CiteNode a k is)) data = (cd_addText u k data, True)"
| "cd_Visit u (Inline_node (LiteralNode k a c)) data = (cd_addText u c data, True)"
| "cd_Visit u n data = (data, True)"

definition collectZettelIndexData :: "unicode \<Rightarrow> block list \<Rightarrow> collectData \<Rightarrow> collectData" where
  "collectZettelIndexData u bs = walk_block_slice (cd_Visit u) bs"

definition collectInlineIndexData :: "unicode \<Rightarrow> inline list \<Rightarrow> collectData \<Rightarrow> collectData" where
  "collectInlineIndexData u is = walk_inline_slice (cd_Visit u) is"

section \<open>What is collected\<close>

text \<open>The texts of a node that are split into words, and the references of a node.\<close>

fun node_texts :: "node \<Rightarrow> string list" where
  "node_texts (Block_node (VerbatimNode k a c)) = [c]"
| "node_texts (Inline_node (TextNode t)) = [t]"
| "node_texts (Inline_node (CiteNode a k is)) = [k]"
| "node_texts (Inline_node (LiteralNode k a c)) = [c]"
| "node_texts n = []"

fun node_refs :: "node \<Rightarrow> reference list" where
  "node_refs (Block_node (TranscludeNode a (Some r))) = [r]"
| "node_refs (Inline_node (LinkNode a (Some r) is)) = [r]"
| "node_refs (Inline_node (EmbedRefNode a (Some r) sy is)) = [r]"
| "node_refs n = []"

definition nodes_words :: "unicode \<Rightarrow> node list \<Rightarrow> string set" where
  "nodes_words u ns = (\<Union>n \<in> set ns. \<Union>t \<in> set (node_texts n). set (NormalizeWords u t))"

definition zettel_of_ref :: "reference \<Rightarrow> zid option" where
  "zettel_of_ref r =
     (if ref_IsZettel r then (case r_URL r of None \<Rightarrow> None
        | Some u \<Rightarrow> (case Parse (u_Path u) of Inr zid \<Rightarrow> Some zid | Inl err \<Rightarrow> None)) else None)"

definition nodes_zids :: "node list \<Rightarrow> zid set" where
  "nodes_zids ns = {zid. \<exists>n \<in> set ns. \<exists>r \<in> set (node_refs n). zettel_of_ref r = Some zid}"

definition nodes_urls :: "node list \<Rightarrow> string set" where
  "nodes_urls ns = (\<Union>n \<in> set ns. (\<lambda>r. strings_ToLower (r_Value r)) ` {r \<in> set (node_refs n). ref_IsExternal r})"

lemma goes_on_cd_Visit: "goes_on (cd_Visit u)"
  unfolding goes_on_def
proof (intro allI)
  fix n data
  show "snd (cd_Visit u n data)"
  proof (cases n)
    case (Block_node b)
    then show ?thesis by (cases b) simp_all
  next
    case (Inline_node i)
    then show ?thesis by (cases i) simp_all
  qed simp_all
qed

lemma keys_add_words: "set (gm_keys (add_words words ws)) = set words \<union> set (gm_keys ws)"
  unfolding add_words_def by (induction words arbitrary: ws) (auto simp: WordSet_Add_def)

definition cd_sets :: "collectData \<Rightarrow> zid set \<times> string set \<times> string set" where
  "cd_sets data = (elems (cd_refs data), set (gm_keys (cd_words data)), set (gm_keys (cd_urls data)))"

definition cd_ok :: "collectData \<Rightarrow> bool" where
  "cd_ok data \<longleftrightarrow> set_inv (cd_refs data) \<and> gm_inv (cd_words data) \<and> gm_inv (cd_urls data)"

lemma cd_addRef_sets:
  assumes "cd_ok data"
  shows "cd_ok (cd_addRef (Some r) data) \<and> cd_sets (cd_addRef (Some r) data) =
    (elems (cd_refs data) \<union> set_option (zettel_of_ref r), set (gm_keys (cd_words data)),
     set (gm_keys (cd_urls data)) \<union> (if ref_IsExternal r then {strings_ToLower (r_Value r)} else {}))"
  using assms by (auto simp: cd_addRef_def cd_sets_def cd_ok_def zettel_of_ref_def Set_Add_correct WordSet_Add_def
      ref_IsZettel_def ref_IsExternal_def Let_def split: option.splits sum.splits)

lemma cd_Visit_sets:
  assumes "cd_ok data"
  shows "cd_ok (fst (cd_Visit u n data)) \<and> cd_sets (fst (cd_Visit u n data)) =
    (elems (cd_refs data) \<union> nodes_zids [n], set (gm_keys (cd_words data)) \<union> nodes_words u [n],
     set (gm_keys (cd_urls data)) \<union> nodes_urls [n])"
proof -
  have same: "cd_ok data \<and> cd_sets data = (elems (cd_refs data), set (gm_keys (cd_words data)), set (gm_keys (cd_urls data)))"
    using assms by (simp add: cd_sets_def)
  have word: "cd_ok (cd_addText u t data) \<and> cd_sets (cd_addText u t data) =
      (elems (cd_refs data), set (gm_keys (cd_words data)) \<union> set (NormalizeWords u t), set (gm_keys (cd_urls data)))" for t
  proof -
    have "gm_inv ws \<Longrightarrow> gm_inv (add_words xs ws)" for xs ws
      unfolding add_words_def by (induction xs arbitrary: ws) (auto simp: WordSet_Add_def)
    moreover have "fst ` set (add_words xs ws) = set xs \<union> fst ` set ws" for xs ws using keys_add_words [of xs ws] by simp
    ultimately show ?thesis using assms by (simp add: cd_addText_def cd_sets_def cd_ok_def Un_commute)
  qed
  have none: "cd_addRef None data = data" by (simp add: cd_addRef_def)
  note defs = nodes_zids_def nodes_words_def nodes_urls_def
  show ?thesis
  proof (cases n)
    case (Block_node b)
    show ?thesis
    proof (cases b)
      case (VerbatimNode k a c)
      then show ?thesis using Block_node word [of c] by (auto simp: defs)
    next
      case (TranscludeNode a r)
      then show ?thesis using Block_node same none cd_addRef_sets [OF assms] by (cases r) (auto simp: defs)
    qed (use Block_node same in \<open>auto simp: defs\<close>)
  next
    case (Inline_node i)
    show ?thesis
    proof (cases i)
      case (TextNode t)
      then show ?thesis using Inline_node word [of t] by (auto simp: defs)
    next
      case (LinkNode a r "is")
      then show ?thesis using Inline_node same none cd_addRef_sets [OF assms] by (cases r) (auto simp: defs)
    next
      case (EmbedRefNode a r sy "is")
      then show ?thesis using Inline_node same none cd_addRef_sets [OF assms] by (cases r) (auto simp: defs)
    next
      case (CiteNode a k "is")
      then show ?thesis using Inline_node word [of k] by (auto simp: defs)
    next
      case (LiteralNode k a c)
      then show ?thesis using Inline_node word [of c] by (auto simp: defs)
    qed (use Inline_node same in \<open>auto simp: defs\<close>)
  qed (use same in \<open>auto simp: defs\<close>)
qed

lemma nodes_sets_Cons:
  "nodes_zids (n # ns) = nodes_zids [n] \<union> nodes_zids ns" "nodes_words u (n # ns) = nodes_words u [n] \<union> nodes_words u ns"
  "nodes_urls (n # ns) = nodes_urls [n] \<union> nodes_urls ns"
  by (auto simp: nodes_zids_def nodes_words_def nodes_urls_def)

lemma nodes_sets_Nil: "nodes_zids [] = {}" "nodes_words u [] = {}" "nodes_urls [] = {}"
  by (auto simp: nodes_zids_def nodes_words_def nodes_urls_def)

lemma visit_all_sets:
  assumes "cd_ok data"
  shows "cd_ok (visit_all (cd_Visit u) ns data) \<and> cd_sets (visit_all (cd_Visit u) ns data) =
    (elems (cd_refs data) \<union> nodes_zids ns, set (gm_keys (cd_words data)) \<union> nodes_words u ns,
     set (gm_keys (cd_urls data)) \<union> nodes_urls ns)"
  using assms
proof (induction ns arbitrary: data)
  case Nil
  then show ?case by (simp add: nodes_sets_Nil cd_sets_def)
next
  case (Cons n ns)
  let ?d = "fst (cd_Visit u n data)"
  have d: "cd_ok ?d" "elems (cd_refs ?d) = elems (cd_refs data) \<union> nodes_zids [n]"
      "set (gm_keys (cd_words ?d)) = set (gm_keys (cd_words data)) \<union> nodes_words u [n]"
      "set (gm_keys (cd_urls ?d)) = set (gm_keys (cd_urls data)) \<union> nodes_urls [n]"
    using cd_Visit_sets [OF Cons.prems, of u n] by (simp_all add: cd_sets_def)
  show ?case using Cons.IH [OF d(1)] d(2-4) nodes_sets_Cons(1,3) [of n ns] nodes_sets_Cons(2) [of u n ns] by (simp add: Un_assoc)
qed

text \<open>The data of a whole syntax tree, and of a metadata value.\<close>

lemma collectZettelIndexData_sets:
  assumes "cd_ok data"
  shows "cd_ok (collectZettelIndexData u bs data) \<and> cd_sets (collectZettelIndexData u bs data) =
    (elems (cd_refs data) \<union> nodes_zids (nodes_block_slice bs),
     set (gm_keys (cd_words data)) \<union> nodes_words u (nodes_block_slice bs),
     set (gm_keys (cd_urls data)) \<union> nodes_urls (nodes_block_slice bs))"
  unfolding collectZettelIndexData_def walk_block_slice_visits [OF goes_on_cd_Visit] by (rule visit_all_sets [OF assms])

lemma collectInlineIndexData_sets:
  assumes "cd_ok data"
  shows "cd_ok (collectInlineIndexData u is data) \<and> cd_sets (collectInlineIndexData u is data) =
    (elems (cd_refs data) \<union> nodes_zids (nodes_slice is),
     set (gm_keys (cd_words data)) \<union> nodes_words u (nodes_slice is),
     set (gm_keys (cd_urls data)) \<union> nodes_urls (nodes_slice is))"
  unfolding collectInlineIndexData_def walk_inline_slice_visits [OF goes_on_cd_Visit] by (rule visit_all_sets [OF assms])

lemma cd_initialize_ok: "cd_ok cd_initialize" "cd_sets cd_initialize = ({}, {}, {})"
  by (simp_all add: cd_initialize_def cd_ok_def cd_sets_def NewSet_correct NewWordSet_def)

end
