(* ===== verification/Enrich.thy ===== *)
theory Enrich
  imports ZidMapper MapStoreInv Box
begin

text \<open>
  Computed metadata (\<open>box/manager/enrich.go\<close>, the context of \<open>box/box.go\<close>): creation and publication
  times, the number of the box, and what the index knows about references.
\<close>

section \<open>The context of a call\<close>

record ctx =
  ctx_Err :: "box_error option"
  ctx_noEnrich :: bool

definition NoEnrichContext :: "ctx \<Rightarrow> ctx" where
  "NoEnrichContext ctx = ctx\<lparr>ctx_noEnrich := True\<rparr>"

definition DoEnrich :: "ctx \<Rightarrow> bool" where
  "DoEnrich ctx \<longleftrightarrow> \<not> ctx_noEnrich ctx"

definition NoEnrichQuery :: "zsc \<Rightarrow> ctx \<Rightarrow> query option \<Rightarrow> ctx" where
  "NoEnrichQuery z ctx q = (if EnrichNeeded z q then ctx else NoEnrichContext ctx)"

section \<open>Times\<close>

definition days_clipped :: "zid \<Rightarrow> zid \<Rightarrow> zid \<Rightarrow> zid" where
  "days_clipped year month day =
     (if month \<in> {1, 3, 5, 7, 8, 10, 12} then (if 31 < day then 31 else day)
      else if month \<in> {4, 6, 9, 11} then (if 30 < day then 30 else day)
      else if month = 2 then
        (if year mod 4 \<noteq> 0 \<or> (year mod 100 = 0 \<and> year mod 400 \<noteq> 0) then (if 28 < day then 28 else day)
         else if 29 < day then 29 else day)
      else day)"

definition sanitizeMonthDay :: "zid \<Rightarrow> zid \<Rightarrow> zid \<Rightarrow> zid \<times> zid" where
  "sanitizeMonthDay year month day =
     (let day = (if day < 1 then 1 else day);
          month = (if month < 1 then 1 else month);
          month = (if 12 < month then 12 else month)
      in (month, days_clipped year month day))"

definition computeCreated :: "zid \<Rightarrow> string" where
  "computeCreated zid =
     (if zid \<le> 10101000000 then ''00010101000000''
      else
        let seconds = zid mod 100; seconds = (if 59 < seconds then 59 else seconds);
            zid = zid div 100;
            minutes = zid mod 100; minutes = (if 59 < minutes then 59 else minutes);
            zid = zid div 100;
            hours = zid mod 100; hours = (if 23 < hours then 23 else hours);
            zid = zid div 100;
            day = zid mod 100;
            zid = zid div 100;
            month = zid mod 100;
            year = zid div 100;
            (month, day) = sanitizeMonthDay year month day
        in zid_String (((((year * 100 + month) * 100 + day) * 100 + hours) * 100 + minutes) * 100 + seconds))"

definition computePublished :: "zsc \<Rightarrow> meta \<Rightarrow> meta" where
  "computePublished z m =
     (let published = meta_Set z m (api_key z KeyPublished);
          by_zid = (if TimeValue (zid_String (m_Zid m)) \<noteq> None then published (zid_String (m_Zid m)) else m);
          by_created = (case meta_Get z m (api_key z KeyCreated) of
             Some created \<Rightarrow> if TimeValue created \<noteq> None then published created else by_zid | None \<Rightarrow> by_zid)
      in if meta_Get z m (api_key z KeyPublished) \<noteq> None then m
         else case meta_Get z m (api_key z KeyModified) of
             Some modified \<Rightarrow> if TimeValue modified \<noteq> None then published modified else by_created
           | None \<Rightarrow> by_created)"

section \<open>Enrichment\<close>

text \<open>
  \<open>vTrue\<close> is \<open>api.ValueTrue\<close>. An invalid identifier panics in \<open>LookupZidN\<close>. The log messages about a
  missing or different number are left out.
\<close>

definition set_ZidN :: "zidMapper \<Rightarrow> meta \<Rightarrow> meta option" where
  "set_ZidN zm m =
     (case LookupZidN zm (m_Zid m) of
        None \<Rightarrow> None
      | Some zidN \<Rightarrow> Some (if IsValidN (m_ZidN m) then m else case zidN of Some n \<Rightarrow> m\<lparr>m_ZidN := n\<rparr> | None \<Rightarrow> m))"

definition mgr_Enrich :: "zsc \<Rightarrow> string \<Rightarrow> zidMapper \<Rightarrow> ctx \<Rightarrow> int \<Rightarrow> meta \<Rightarrow> mapStore \<Rightarrow> (meta \<times> mapStore) option" where
  "mgr_Enrich z vTrue zm ctx boxNumber m ms =
     (case set_ZidN zm m of
        None \<Rightarrow> None
      | Some m \<Rightarrow>
          let hasCreated = (meta_Get z m (api_key z KeyCreated) \<noteq> None);
              m = (if \<not> hasCreated then meta_Set z m (api_key z KeyCreated) (computeCreated (m_Zid m)) else m);
              (m, ms) = (if DoEnrich ctx then
                  (let m = computePublished z m;
                       m = (if 0 < boxNumber then meta_Set z m (api_key z KeyBoxNumber) (strconv_Itoa boxNumber) else m)
                   in Enrich z ms m)
                else (m, ms));
              m = (if \<not> hasCreated then meta_Set z m KeyCreatedMissing vTrue else m)
          in Some (m, ms))"

section \<open>The creation time is a time\<close>

lemma decimal_loop_digits: "\<forall>d \<in> set ds. d < 10 \<Longrightarrow> decimal_loop a (map char10 ds) = Some (horner 10 a ds)"
  by (induction ds arbitrary: a) (simp_all add: char10_def digit10_char mult.commute)

lemma decimal_digits:
  assumes "0 < k" and "n < 10 ^ k"
  shows "decimal (map char10 (digits 10 k n)) = Some n"
proof -
  have "\<forall>d \<in> set (digits 10 k n). d < 10" by (simp add: digits_less)
  moreover have "digits 10 k n \<noteq> []" using assms(1) length_digits [of 10 k n] by (metis length_greater_0_conv)
  ultimately show ?thesis using assms(2) by (simp add: decimal_def decimal_loop_digits horner_digits)
qed

lemma digits_two: "b < 100 \<Longrightarrow> digits 10 (k + 2) (a * 100 + b) = digits 10 k a @ digits 10 2 b"
proof -
  assume b: "b < 100"
  have "digits 10 2 (a * 100 + b) = digits 10 2 b" using digits_mod [of 10 2 "a * 100 + b"] b by simp
  moreover have "digits 10 (k + 2) (a * 100 + b) = digits 10 k ((a * 100 + b) div 10 ^ 2) @ digits 10 2 (a * 100 + b)"
    by (rule digits_add)
  moreover have "(a * 100 + b) div 10 ^ 2 = a" using b by simp
  ultimately show ?thesis by (simp only:)
qed

text \<open>The text of an identifier that is a date and a time of day is such a time.\<close>

lemma time_Parse_digits:
  assumes "y < 10000" "1 \<le> mo" "mo \<le> 12" "1 \<le> d" "d \<le> days_in mo y" "h < 24" "mi < 60" "s < 60"
    and u: "unat w = ((((y * 100 + mo) * 100 + d) * 100 + h) * 100 + mi) * 100 + s"
  shows "time_Parse (zid_String w) = Some (y, mo, d, h, mi, s)"
proof -
  have dd: "d < 100" using assms(5) by (auto simp: days_in_def split: if_splits)
  have "unat w < 100000000000000" unfolding u using assms dd by simp
  then have "zid_String w = map char10 (digits 10 14 (unat w))" by (rule zid_String_digits)
  also have "digits 10 14 (unat w) = digits 10 4 y @ digits 10 2 mo @ digits 10 2 d @ digits 10 2 h @ digits 10 2 mi @ digits 10 2 s"
  proof -
    have "digits 10 14 (x * 100 + s) = digits 10 12 x @ digits 10 2 s" for x using digits_two [of s 12 x] assms(8) by simp
    moreover have "digits 10 12 (x * 100 + mi) = digits 10 10 x @ digits 10 2 mi" for x using digits_two [of mi 10 x] assms(7) by simp
    moreover have "digits 10 10 (x * 100 + h) = digits 10 8 x @ digits 10 2 h" for x using digits_two [of h 8 x] assms(6) by simp
    moreover have "digits 10 8 (x * 100 + d) = digits 10 6 x @ digits 10 2 d" for x using digits_two [of d 6 x] dd by simp
    moreover have "digits 10 6 (x * 100 + mo) = digits 10 4 x @ digits 10 2 mo" for x using digits_two [of mo 4 x] assms(3) by simp
    ultimately show ?thesis unfolding u by (simp only: append_assoc)
  qed
  finally have z: "zid_String w = map char10 (digits 10 4 y) @ map char10 (digits 10 2 mo) @ map char10 (digits 10 2 d) @
      map char10 (digits 10 2 h) @ map char10 (digits 10 2 mi) @ map char10 (digits 10 2 s)" by simp
  let ?p = "\<lambda>i n. decimal (take n (drop i (zid_String w)))"
  have parts: "?p 0 4 = Some y" "?p 4 2 = Some mo" "?p 6 2 = Some d" "?p 8 2 = Some h" "?p 10 2 = Some mi" "?p 12 2 = Some s"
    unfolding z using assms dd by (simp_all add: decimal_digits)
  have "list_all (\<lambda>c. digit10 c \<noteq> None) (zid_String w)"
    unfolding z by (auto simp: list_all_iff char10_def digit10_char dest!: digits_less [rotated])
  then show ?thesis using parts assms by (simp add: time_Parse_def zid_String_length Let_def)
qed

lemma unat_times_100: "unat a * 100 + unat b < 2 ^ 64 \<Longrightarrow> unat (a * 100 + b :: zid) = unat a * 100 + unat b"
  by (simp add: unat_word_ariths)

lemma days_clipped_ok:
  assumes "1 \<le> month" "month \<le> 12" "1 \<le> day"
  shows "1 \<le> unat (days_clipped year month day)" "unat (days_clipped year month day) \<le> days_in (unat month) (unat year)"
proof -
  have m: "1 \<le> unat month" "unat month \<le> 12" "1 \<le> unat day" using assms by (simp_all add: word_le_nat_alt)
  have y: "year mod 4 \<noteq> 0 \<or> year mod 100 = 0 \<and> year mod 400 \<noteq> 0 \<longleftrightarrow> \<not> is_leap (unat year)"
    by (auto simp: is_leap_def dvd_eq_mod_eq_0 unat_mod word_unat_eq_iff)
  have e: "(month = k) = (unat month = unat k)" for k :: zid by (rule word_unat_eq_iff)
  show "1 \<le> unat (days_clipped year month day)"
    using m(3) by (auto simp: days_clipped_def)
  have "unat month = 1 \<or> unat month = 2 \<or> unat month = 3 \<or> unat month = 4 \<or> unat month = 5 \<or> unat month = 6 \<or>
      unat month = 7 \<or> unat month = 8 \<or> unat month = 9 \<or> unat month = 10 \<or> unat month = 11 \<or> unat month = 12"
    using m(1,2) by arith
  then show "unat (days_clipped year month day) \<le> days_in (unat month) (unat year)"
    unfolding days_clipped_def days_in_def y
    by (auto simp: e word_less_nat_alt)
qed

lemma clip_unat: "unat (if k < w then k else w :: zid) = (if unat k < unat w then unat k else unat w)"
  by (simp add: word_less_nat_alt)



end
