(* ===== verification/Manager.thy ===== *)
theory Manager
  imports Enrich ZidMapperLaws Collect Anteroom SearchIndex SelectTotal
begin

text \<open>
  The box manager (\<open>box/manager/manager.go\<close>, \<open>box.go\<close>, \<open>indexer.go\<close>, the interfaces of \<open>box/box.go\<close>):
  it combines the managed boxes, keeps the mapping of identifiers and the index up to date, and
  answers queries. The boxes are records of operations on one state \<open>'s\<close> of all boxes. Locks are left
  out; goroutines are steps. An outer \<open>None\<close> is a panic.
\<close>

section \<open>Boxes\<close>

datatype StartState = StartStateStopped | StartStateStarting | StartStateStarted | StartStateStopping

text \<open>
  The optional interfaces of a box. \<open>CreateZettel\<close> also returns the zettel as the caller sees it
  afterwards: a box may change its metadata.
\<close>

record 's writeBox =
  wb_CanCreateZettel :: "'s \<Rightarrow> bool"
  wb_CreateZettel :: "zettel \<Rightarrow> 's \<Rightarrow> ('s \<times> zettel \<times> (box_error + zid)) option"
  wb_CanUpdateZettel :: "zettel \<Rightarrow> 's \<Rightarrow> bool"
  wb_UpdateZettel :: "zettel \<Rightarrow> 's \<Rightarrow> ('s \<times> box_error option) option"

record 's startStopper =
  ss_State :: "'s \<Rightarrow> StartState"
  ss_Start :: "'s \<Rightarrow> 's \<times> box_error option"
  ss_Stop :: "'s \<Rightarrow> 's"

text \<open>
  \<open>ApplyZid\<close> and \<open>ApplyMeta\<close> give what the handler is called with, in the order of the calls, and the
  error that ends the loop. A box hands its metadata to the enricher before the handler.
\<close>

record 's managedBox =
  xb_Location :: string
  xb_GetZettel :: "zid \<Rightarrow> 's \<Rightarrow> box_error + zettel"
  xb_HasZettel :: "zid \<Rightarrow> 's \<Rightarrow> bool"
  xb_CanDeleteZettel :: "zid \<Rightarrow> 's \<Rightarrow> bool"
  xb_DeleteZettel :: "zid \<Rightarrow> 's \<Rightarrow> 's \<times> box_error option"
  xb_ApplyZid :: "(zid \<Rightarrow> bool) \<Rightarrow> 's \<Rightarrow> zid list \<times> box_error option"
  xb_ApplyMeta :: "(zid \<Rightarrow> bool) \<Rightarrow> 's \<Rightarrow> meta list \<times> box_error option"
  xb_ReadStats :: "'s \<Rightarrow> bool \<times> nat"
  xb_write :: "'s writeBox option"
  xb_startstop :: "'s startStopper option"
  xb_Refresh :: "('s \<Rightarrow> 's) option"

section \<open>The manager\<close>

record UpdateInfo =
  ui_Reason :: UpdateReason
  ui_Zid :: zid

text \<open>\<open>mgr_infos\<close> is the channel of notifications, \<open>mgr_notified\<close> what observers were told.\<close>

record 's manager =
  mgr_state :: StartState
  mgr_boxes :: "'s managedBox list"
  mgr_sys :: 's
  mgr_propertyKeys :: strset
  mgr_zidMapper :: zidMapper
  mgr_idxStore :: mapStore
  mgr_idxAr :: anteroomQueue
  mgr_idxReady :: bool
  mgr_infos :: "UpdateInfo list"
  mgr_notified :: "UpdateInfo list"
  mgr_idxSinceReload :: nat

text \<open>
  What lies outside: the client library, Unicode, URLs, the parsers (a zettel to its blocks, a metadata value to
  inlines, a stored mapping to its lines), the trimming of a content, some constants, random numbers and
  visiting orders of maps.
\<close>

record mgrEnv =
  me_zsc :: zsc
  me_unicode :: unicode
  me_urls :: urls
  me_ParseZettel :: "zettel \<Rightarrow> block list"
  me_ParseMetadata :: "string \<Rightarrow> inline list"
  me_parseMapping :: "string \<Rightarrow> mapping_entry list"
  me_TrimSpace :: "string \<Rightarrow> string"
  me_ValueTrue :: string
  me_MappingZid :: zid
  me_DefaultHomeZid :: zid
  me_text :: "string \<Rightarrow> string"
  me_rand :: rand
  me_visit :: "nat \<Rightarrow> nat \<Rightarrow> searchOp list \<Rightarrow> searchOp list"
  me_order :: "meta list \<Rightarrow> meta list"

definition new_propertyKeys :: "zsc \<Rightarrow> strset" where
  "new_propertyKeys z = fold (\<lambda>(name, kd) s. if kd_IsProperty kd then strset_Set s name else s) (registeredKeys z) []"

definition manager_New :: "zsc \<Rightarrow> 's managedBox list \<Rightarrow> 's \<Rightarrow> 's manager option" where
  "manager_New z boxes sys =
     map_option (\<lambda>zm. \<lparr>mgr_state = StartStateStopped, mgr_boxes = boxes, mgr_sys = sys,
       mgr_propertyKeys = new_propertyKeys z, mgr_zidMapper = zm, mgr_idxStore = mapstore_New,
       mgr_idxAr = newAnteroomQueue 1000, mgr_idxReady = False, mgr_infos = [], mgr_notified = [],
       mgr_idxSinceReload = 0\<rparr>) NewZidMapper"

definition checkContinue :: "'s manager \<Rightarrow> ctx \<Rightarrow> box_error option" where
  "checkContinue mgr ctx = (if mgr_state mgr \<noteq> StartStateStarted then Some ErrStopped else ctx_Err ctx)"

definition is_not_found :: "box_error \<Rightarrow> bool" where
  "is_not_found err = (case err of ErrZettelNotFound zid \<Rightarrow> True | _ \<Rightarrow> False)"

definition mgr_Location :: "'s manager \<Rightarrow> string" where
  "mgr_Location mgr =
     (if length (mgr_boxes mgr) \<le> 2 then ''NONE''
      else strings_Join (map xb_Location (take (length (mgr_boxes mgr) - 2) (mgr_boxes mgr))) '', '')"

text \<open>The first box if it can be written to.\<close>

definition write_box :: "'s manager \<Rightarrow> 's writeBox option" where
  "write_box mgr = xb_write (hd (mgr_boxes mgr))"

section \<open>Reading\<close>

definition mgr_enrich :: "mgrEnv \<Rightarrow> ctx \<Rightarrow> int \<Rightarrow> meta \<Rightarrow> 's manager \<Rightarrow> (meta \<times> 's manager) option" where
  "mgr_enrich env ctx n m mgr =
     map_option (\<lambda>(m, ms). (m, mgr\<lparr>mgr_idxStore := ms\<rparr>))
       (mgr_Enrich (me_zsc env) (me_ValueTrue env) (mgr_zidMapper mgr) ctx n m (mgr_idxStore mgr))"

fun get_loop :: "mgrEnv \<Rightarrow> ctx \<Rightarrow> zid \<Rightarrow> nat \<Rightarrow> 's managedBox list \<Rightarrow> 's manager \<Rightarrow> ('s manager \<times> (box_error + zettel)) option" where
  "get_loop env ctx zid i [] mgr = Some (mgr, Inl (ErrZettelNotFound zid))"
| "get_loop env ctx zid i (p # ps) mgr =
     (case xb_GetZettel p zid (mgr_sys mgr) of
        Inl err \<Rightarrow> if is_not_found err then get_loop env ctx zid (i + 1) ps mgr else Some (mgr, Inl err)
      | Inr zt \<Rightarrow> map_option (\<lambda>(m, mgr). (mgr, Inr (zt\<lparr>Z_Meta := m\<rparr>))) (mgr_enrich env ctx (int i + 1) (Z_Meta zt) mgr))"

definition mgr_getZettel :: "mgrEnv \<Rightarrow> ctx \<Rightarrow> zid \<Rightarrow> 's manager \<Rightarrow> ('s manager \<times> (box_error + zettel)) option" where
  "mgr_getZettel env ctx zid mgr = get_loop env ctx zid 0 (mgr_boxes mgr) mgr"

definition mgr_GetZettel :: "mgrEnv \<Rightarrow> ctx \<Rightarrow> zid \<Rightarrow> 's manager \<Rightarrow> ('s manager \<times> (box_error + zettel)) option" where
  "mgr_GetZettel env ctx zid mgr =
     (case checkContinue mgr ctx of Some err \<Rightarrow> Some (mgr, Inl err) | None \<Rightarrow> mgr_getZettel env ctx zid mgr)"

fun get_all_loop :: "mgrEnv \<Rightarrow> ctx \<Rightarrow> zid \<Rightarrow> nat \<Rightarrow> 's managedBox list \<Rightarrow> 's manager \<Rightarrow> ('s manager \<times> zettel list) option" where
  "get_all_loop env ctx zid i [] mgr = Some (mgr, [])"
| "get_all_loop env ctx zid i (p # ps) mgr =
     (case xb_GetZettel p zid (mgr_sys mgr) of
        Inl err \<Rightarrow> get_all_loop env ctx zid (i + 1) ps mgr
      | Inr zt \<Rightarrow>
          (case mgr_enrich env ctx (int i + 1) (Z_Meta zt) mgr of
             None \<Rightarrow> None
           | Some (m, mgr) \<Rightarrow>
               map_option (\<lambda>(mgr, zts). (mgr, zt\<lparr>Z_Meta := m\<rparr> # zts)) (get_all_loop env ctx zid (i + 1) ps mgr)))"

definition mgr_GetAllZettel :: "mgrEnv \<Rightarrow> ctx \<Rightarrow> zid \<Rightarrow> 's manager \<Rightarrow> ('s manager \<times> (box_error + zettel list)) option" where
  "mgr_GetAllZettel env ctx zid mgr =
     (case checkContinue mgr ctx of
        Some err \<Rightarrow> Some (mgr, Inl err)
      | None \<Rightarrow> map_option (\<lambda>(mgr, zts). (mgr, Inr zts)) (get_all_loop env ctx zid 0 (mgr_boxes mgr) mgr))"

fun fetch_loop :: "'s managedBox list \<Rightarrow> 's \<Rightarrow> idset \<Rightarrow> box_error + idset" where
  "fetch_loop [] s result = Inr result"
| "fetch_loop (p # ps) s result =
     (case xb_ApplyZid p AlwaysIncluded s of
        (zids, err) \<Rightarrow>
          let result = fold (\<lambda>zid r. add_in_place r zid) zids result in
          case err of Some err \<Rightarrow> Inl err | None \<Rightarrow> fetch_loop ps s result)"

definition mgr_fetchZids :: "'s manager \<Rightarrow> box_error + idset" where
  "mgr_fetchZids mgr = fetch_loop (mgr_boxes mgr) (mgr_sys mgr) (NewSetCap [])"

definition mgr_FetchZids :: "ctx \<Rightarrow> 's manager \<Rightarrow> box_error + idset" where
  "mgr_FetchZids ctx mgr = (case checkContinue mgr ctx of Some err \<Rightarrow> Inl err | None \<Rightarrow> mgr_fetchZids mgr)"

definition mgr_hasZettel :: "ctx \<Rightarrow> 's manager \<Rightarrow> zid \<Rightarrow> bool" where
  "mgr_hasZettel ctx mgr zid \<longleftrightarrow>
     (if checkContinue mgr ctx \<noteq> None then False else list_ex (\<lambda>bx. xb_HasZettel bx zid (mgr_sys mgr)) (mgr_boxes mgr))"

text \<open>The metadata of the index, without the number of a box.\<close>

definition mgr_GetMeta :: "mgrEnv \<Rightarrow> ctx \<Rightarrow> zid \<Rightarrow> 's manager \<Rightarrow> ('s manager \<times> (box_error + meta)) option" where
  "mgr_GetMeta env ctx zid mgr =
     (case checkContinue mgr ctx of
        Some err \<Rightarrow> Some (mgr, Inl err)
      | None \<Rightarrow>
          (case GetMeta (mgr_idxStore mgr) zid of
             None \<Rightarrow> Some (mgr, Inl (ErrZettelNotFound zid))
           | Some m \<Rightarrow> map_option (\<lambda>(m, mgr). (mgr, Inr m)) (mgr_enrich env ctx 0 m mgr)))"

section \<open>Selecting metadata\<close>

text \<open>The handler: the first metadata with an identifier decides for a term.\<close>

definition handleMeta :: "compiled \<Rightarrow> CompiledTerm \<Rightarrow> meta \<Rightarrow> (zid, meta) gomap \<times> idset \<Rightarrow> (zid, meta) gomap \<times> idset" where
  "handleMeta c term m st =
     (case st of (selected, rejected) \<Rightarrow>
        if Set_Contains rejected (m_Zid m) then st
        else if gm_get selected (m_Zid m) \<noteq> None then st
        else if c_PreMatch c m \<and> Match term m then (gm_put selected (m_Zid m) m, rejected)
        else (selected, add_in_place rejected (m_Zid m)))"

fun apply_meta_loop :: "mgrEnv \<Rightarrow> ctx \<Rightarrow> int \<Rightarrow> compiled \<Rightarrow> CompiledTerm \<Rightarrow> meta list \<Rightarrow>
    's manager \<times> (zid, meta) gomap \<times> idset \<Rightarrow> ('s manager \<times> (zid, meta) gomap \<times> idset) option" where
  "apply_meta_loop env ctx n c term [] st = Some st"
| "apply_meta_loop env ctx n c term (m # ms) (mgr, st) =
     (case mgr_enrich env ctx n m mgr of
        None \<Rightarrow> None
      | Some (m, mgr) \<Rightarrow> apply_meta_loop env ctx n c term ms (mgr, handleMeta c term m st))"

fun select_boxes :: "mgrEnv \<Rightarrow> ctx \<Rightarrow> nat \<Rightarrow> compiled \<Rightarrow> CompiledTerm \<Rightarrow> 's managedBox list \<Rightarrow>
    's manager \<times> (zid, meta) gomap \<times> idset \<Rightarrow> ('s manager \<times> (zid, meta) gomap \<times> idset \<times> box_error option) option" where
  "select_boxes env ctx i c term [] (mgr, selected, rejected) = Some (mgr, selected, rejected, None)"
| "select_boxes env ctx i c term (p # ps) (mgr, st) =
     (case xb_ApplyMeta p (Retrieve term) (mgr_sys mgr) of
        (ms, err) \<Rightarrow>
          (case apply_meta_loop env ctx (int i + 1) c term ms (mgr, st) of
             None \<Rightarrow> None
           | Some (mgr, selected, rejected) \<Rightarrow>
               if err \<noteq> None then Some (mgr, selected, rejected, err)
               else select_boxes env ctx (i + 1) c term ps (mgr, selected, rejected)))"

fun select_terms :: "mgrEnv \<Rightarrow> ctx \<Rightarrow> compiled \<Rightarrow> CompiledTerm list \<Rightarrow> 's manager \<times> (zid, meta) gomap \<Rightarrow>
    ('s manager \<times> (zid, meta) gomap \<times> box_error option) option" where
  "select_terms env ctx c [] (mgr, selected) = Some (mgr, selected, None)"
| "select_terms env ctx c (term # terms) (mgr, selected) =
     (case select_boxes env ctx 0 c term (mgr_boxes mgr) (mgr, selected, NewSet []) of
        None \<Rightarrow> None
      | Some (mgr, selected, rejected, err) \<Rightarrow>
          if err \<noteq> None then Some (mgr, selected, err) else select_terms env ctx c terms (mgr, selected))"

definition mgr_SelectMeta :: "mgrEnv \<Rightarrow> ctx \<Rightarrow> meta list option \<Rightarrow> query option \<Rightarrow> 's manager \<Rightarrow>
    ('s manager \<times> (box_error + meta list)) option" where
  "mgr_SelectMeta env ctx metaSeq q mgr =
     (case checkContinue mgr ctx of
        Some err \<Rightarrow> Some (mgr, Inl err)
      | None \<Rightarrow>
          Option.bind (RetrieveAndCompile (me_zsc env) (me_unicode env) (me_text env) (me_visit env)
              (Some (mapstore_searcher (mgr_idxStore mgr))) q metaSeq) (\<lambda>c.
            Option.bind (Result (me_zsc env) (me_rand env) c) (\<lambda>(result, c).
              case result of
                Some ms \<Rightarrow> Some (mgr, Inr ms)
              | None \<Rightarrow>
                  Option.bind (select_terms env ctx c (c_Terms c) (mgr, [])) (\<lambda>(mgr, selected, err).
                    case err of
                      Some err \<Rightarrow> Some (mgr, Inl err)
                    | None \<Rightarrow>
                        map_option (\<lambda>(ms, c). (mgr, Inr ms))
                          (AfterSearch (me_zsc env) (me_rand env) c (me_order env (map snd selected)))))))"

end
