(* ===== verification/ManagerLaws.thy ===== *)
theory ManagerLaws
  imports Manager QueryResult
begin

text \<open>
  Reading from the box manager: what a zettel, the set of all zettel, and the result of a query are, in terms of
  the managed boxes.
\<close>

section \<open>Enrichment\<close>

text \<open>Managers that differ only in the number of updates that the index counts.\<close>

definition same_but_updates :: "'s manager \<Rightarrow> 's manager \<Rightarrow> bool" where
  "same_but_updates mgr mgr' \<longleftrightarrow> (\<exists>k. mgr' = mgr\<lparr>mgr_idxStore := (mgr_idxStore mgr)\<lparr>ms_updates := k\<rparr>\<rparr>)"

lemma same_but_updates_refl: "same_but_updates mgr mgr"
proof -
  have "mgr = mgr\<lparr>mgr_idxStore := (mgr_idxStore mgr)\<lparr>ms_updates := ms_updates (mgr_idxStore mgr)\<rparr>\<rparr>" by simp
  then show ?thesis unfolding same_but_updates_def by blast
qed

lemma same_but_updates_trans: "same_but_updates a b \<Longrightarrow> same_but_updates b c \<Longrightarrow> same_but_updates a c"
  by (auto simp: same_but_updates_def)

lemma same_but_updates_fields:
  "same_but_updates a b \<Longrightarrow> mgr_boxes b = mgr_boxes a \<and> mgr_sys b = mgr_sys a \<and> mgr_state b = mgr_state a \<and>
    mgr_zidMapper b = mgr_zidMapper a"
  by (auto simp: same_but_updates_def)

lemma doEnrich_updates: "doEnrich z (ms\<lparr>ms_updates := k\<rparr>) m = doEnrich z ms m"
  by (simp add: doEnrich_def)

text \<open>The metadata that a box delivers, as the manager hands them on.\<close>

definition enriched :: "mgrEnv \<Rightarrow> ctx \<Rightarrow> 's manager \<Rightarrow> int \<Rightarrow> meta \<Rightarrow> meta option" where
  "enriched env ctx mgr n m = map_option fst (mgr_enrich env ctx n m mgr)"

lemma enriched_same: "same_but_updates mgr mgr' \<Longrightarrow> enriched env ctx mgr' n m = enriched env ctx mgr n m"
  by (auto simp: same_but_updates_def enriched_def mgr_enrich_def mgr_Enrich_def Enrich_def doEnrich_updates Let_def
      split: option.splits prod.splits)

lemma mgr_enrich_same: "mgr_enrich env ctx n m mgr = Some (m', mgr') \<Longrightarrow> same_but_updates mgr mgr'"
  using same_but_updates_refl [of mgr]
  by (auto simp: mgr_enrich_def mgr_Enrich_def Enrich_def Let_def same_but_updates_def split: option.splits prod.splits if_splits)

lemma mgr_enrich_enriched:
  assumes "same_but_updates mgr0 mgr" and "mgr_enrich env ctx n m mgr = Some (m', mgr')"
  shows "enriched env ctx mgr0 n m = Some m' \<and> same_but_updates mgr0 mgr'"
  using enriched_same [OF assms(1), of env ctx n m] assms(2) mgr_enrich_same [OF assms(2)] same_but_updates_trans [OF assms(1)]
  by (simp add: enriched_def)

lemma enrich_others_Zid: "m_Zid (fst (enrich_others z rs (m, bk, u))) = m_Zid m"
  by (induction z rs "(m, bk, u)" arbitrary: m bk u rule: enrich_others.induct) (simp_all add: meta_Set_Zid)

lemma doEnrich_Zid: "m_Zid (fst (doEnrich z ms m)) = m_Zid m"
proof (cases "gm_get (ms_idx ms) (m_Zid m)")
  case (Some zi)
  have e: "m_Zid (fst (enrich_others z rs t)) = m_Zid (fst t)" for rs t using enrich_others_Zid by (cases t) simp
  have i: "m_Zid (fst (if b then p else q)) = (if b then m_Zid (fst p) else m_Zid (fst q))" for b and p q :: "meta \<times> 'b" by simp
  show ?thesis unfolding doEnrich_def Some Let_def case_prod_unfold option.case by (simp only: e i meta_Set_Zid fst_conv if_cancel)
qed (simp add: doEnrich_def)

lemma computePublished_Zid: "m_Zid (computePublished z m) = m_Zid m"
  by (simp add: computePublished_def Let_def meta_Set_Zid split: option.splits)

lemma mgr_Enrich_Zid:
  assumes "mgr_Enrich z vTrue zm ctx n m ms = Some (m', ms')"
  shows "m_Zid m' = m_Zid m"
proof -
  obtain m1 where m1: "set_ZidN zm m = Some m1" using assms by (auto simp: mgr_Enrich_def split: option.splits)
  then have "m_Zid m1 = m_Zid m" by (auto simp: set_ZidN_def split: option.splits if_splits)
  moreover have "m_Zid (fst (Enrich z ms x)) = m_Zid x" for x
    using doEnrich_Zid [of z ms x] by (simp add: Enrich_def case_prod_unfold)
  then have "Enrich z ms x = (y, ms'') \<Longrightarrow> m_Zid y = m_Zid x" for x y ms'' by (metis fst_conv)
  ultimately show ?thesis using assms m1
    by (auto simp: mgr_Enrich_def Let_def meta_Set_Zid computePublished_Zid split: if_splits prod.splits)
qed

lemma enriched_Zid: "enriched env ctx mgr n m = Some m' \<Longrightarrow> m_Zid m' = m_Zid m"
  using mgr_Enrich_Zid by (fastforce simp: enriched_def mgr_enrich_def)

section \<open>Sets that are changed in place\<close>

lemma mset_subset_distinct:
  assumes "mset xs \<subseteq># mset ys" and "distinct ys"
  shows "distinct xs"
proof -
  obtain zs where "mset ys = mset xs + mset zs" using assms(1) by (metis ex_mset subset_mset.le_iff_add)
  then have "distinct (xs @ zs)" using assms(2) by (metis mset_append mset_eq_imp_distinct_iff)
  then show ?thesis by simp
qed

definition real_set :: "idset \<Rightarrow> bool" where
  "real_set s \<longleftrightarrow> set_inv s \<and> s \<noteq> None"

lemma real_set_NewSet: "real_set (NewSet [])" "elems (NewSet []) = {}" "real_set (NewSetCap [])" "elems (NewSetCap []) = {}"
  by (simp_all add: real_set_def NewSet_def NewSetCap_def set_inv_def elems_def)

lemma real_set_add: "real_set s \<Longrightarrow> real_set (add_in_place s zid) \<and> elems (add_in_place s zid) = insert zid (elems s)"
  using Set_Add_correct [of s zid] by (cases s; cases "Set_Add s zid") (auto simp: real_set_def add_in_place_def elems_def)

lemma real_set_adds:
  "real_set s \<Longrightarrow> real_set (fold (\<lambda>zid r. add_in_place r zid) zids s) \<and>
    elems (fold (\<lambda>zid r. add_in_place r zid) zids s) = elems s \<union> set zids"
proof (induction zids arbitrary: s)
  case (Cons zid zids)
  then show ?case using Cons.IH [of "add_in_place s zid"] real_set_add [OF Cons.prems, of zid] by auto
qed simp

section \<open>The contract of a managed box\<close>

text \<open>
  What the manager may expect of boxes in states that satisfy \<open>inv\<close>: a zettel can be read if and only if the box
  has it, a zettel carries its identifier, which is valid, the only reading error is that there is no such zettel, and the loops visit
  exactly the zettel that meet the constraint.
\<close>

locale managed_boxes =
  fixes boxes :: "'s managedBox list" and inv :: "'s \<Rightarrow> bool"
  assumes has_get: "bx \<in> set boxes \<Longrightarrow> inv s \<Longrightarrow> xb_HasZettel bx zid s \<longleftrightarrow> (\<exists>zt. xb_GetZettel bx zid s = Inr zt)"
    and get_zid: "bx \<in> set boxes \<Longrightarrow> inv s \<Longrightarrow> xb_GetZettel bx zid s = Inr zt \<Longrightarrow> m_Zid (Z_Meta zt) = zid"
    and get_err: "bx \<in> set boxes \<Longrightarrow> inv s \<Longrightarrow> xb_GetZettel bx zid s = Inl err \<Longrightarrow> is_not_found err"
    and has_valid: "bx \<in> set boxes \<Longrightarrow> inv s \<Longrightarrow> xb_HasZettel bx zid s \<Longrightarrow> IsValid zid"
    and apply_zid: "bx \<in> set boxes \<Longrightarrow> inv s \<Longrightarrow>
      snd (xb_ApplyZid bx c s) = None \<and> set (fst (xb_ApplyZid bx c s)) = {zid. c zid \<and> xb_HasZettel bx zid s}"
    and apply_meta: "bx \<in> set boxes \<Longrightarrow> inv s \<Longrightarrow> snd (xb_ApplyMeta bx c s) = None \<and>
      set (fst (xb_ApplyMeta bx c s)) = {Z_Meta zt | zt zid. c zid \<and> xb_GetZettel bx zid s = Inr zt}"

text \<open>The first box with a zettel, counted from \<open>i\<close>.\<close>

fun first_zettel :: "'s managedBox list \<Rightarrow> 's \<Rightarrow> zid \<Rightarrow> nat \<Rightarrow> (nat \<times> zettel) option" where
  "first_zettel [] s zid i = None"
| "first_zettel (p # ps) s zid i =
     (case xb_GetZettel p zid s of Inl err \<Rightarrow> first_zettel ps s zid (i + 1) | Inr zt \<Rightarrow> Some (i, zt))"

definition first_meta :: "mgrEnv \<Rightarrow> ctx \<Rightarrow> 's manager \<Rightarrow> zid \<Rightarrow> meta option" where
  "first_meta env ctx mgr zid =
     (case first_zettel (mgr_boxes mgr) (mgr_sys mgr) zid 0 of
        None \<Rightarrow> None
      | Some (i, zt) \<Rightarrow> enriched env ctx mgr (int i + 1) (Z_Meta zt))"

context managed_boxes
begin

lemma first_zettel_get:
  assumes "set ps \<subseteq> set boxes" and "inv s"
  shows "first_zettel ps s zid i \<noteq> None \<longleftrightarrow> list_ex (\<lambda>bx. xb_HasZettel bx zid s) ps"
  using assms
proof (induction ps arbitrary: i)
  case (Cons p ps)
  then show ?case using has_get [of p s zid] by (cases "xb_GetZettel p zid s") auto
qed simp

lemma first_zettel_zid:
  assumes "set ps \<subseteq> set boxes" and "inv s" and "first_zettel ps s zid i = Some (j, zt)"
  shows "m_Zid (Z_Meta zt) = zid"
  using assms
proof (induction ps arbitrary: i)
  case (Cons p ps)
  then show ?case using get_zid [of p s zid] by (cases "xb_GetZettel p zid s") auto
qed simp

lemma get_loop_first:
  assumes "set ps \<subseteq> set boxes" and "inv (mgr_sys mgr)" and "get_loop env ctx zid i ps mgr = Some (mgr', res)"
  shows "same_but_updates mgr mgr' \<and>
    (case first_zettel ps (mgr_sys mgr) zid i of
       None \<Rightarrow> res = Inl (ErrZettelNotFound zid)
     | Some (j, zt) \<Rightarrow> \<exists>m. enriched env ctx mgr (int j + 1) (Z_Meta zt) = Some m \<and> res = Inr (zt\<lparr>Z_Meta := m\<rparr>))"
  using assms
proof (induction ps arbitrary: i)
  case Nil
  then show ?case using same_but_updates_refl by auto
next
  case (Cons p ps)
  show ?case
  proof (cases "xb_GetZettel p zid (mgr_sys mgr)")
    case (Inl err)
    then have "is_not_found err" using get_err [of p] Cons.prems by auto
    then show ?thesis using Cons.IH [of "i + 1"] Cons.prems Inl by simp
  next
    case (Inr zt)
    then obtain m where "mgr_enrich env ctx (int i + 1) (Z_Meta zt) mgr = Some (m, mgr')" "res = Inr (zt\<lparr>Z_Meta := m\<rparr>)"
      using Cons.prems(3) by auto
    then show ?thesis using Inr mgr_enrich_enriched [OF same_but_updates_refl] by fastforce
  qed
qed

lemma fetch_loop_elems:
  assumes "set ps \<subseteq> set boxes" and "inv s" and "real_set result"
  shows "\<exists>zs. fetch_loop ps s result = Inr zs \<and> real_set zs \<and>
    elems zs = elems result \<union> {zid. list_ex (\<lambda>bx. xb_HasZettel bx zid s) ps}"
  using assms
proof (induction ps arbitrary: result)
  case (Cons p ps)
  obtain zids where z: "xb_ApplyZid p AlwaysIncluded s = (zids, None)" "set zids = {zid. xb_HasZettel p zid s}"
    using apply_zid [of p s AlwaysIncluded] Cons.prems by (cases "xb_ApplyZid p AlwaysIncluded s") (auto simp: AlwaysIncluded_def)
  show ?case
    using Cons.IH [OF _ Cons.prems(2) real_set_adds [OF Cons.prems(3), of zids, THEN conjunct1]]
      real_set_adds [OF Cons.prems(3), of zids] Cons.prems(1) z by auto
qed simp

end

section \<open>Selecting\<close>

text \<open>
  The state of a term's search after the zettel in \<open>D\<close> were handled: each is selected or rejected as its first metadata say,
  unless it was selected before.
\<close>

definition handled :: "(zid \<Rightarrow> meta option) \<Rightarrow> (meta \<Rightarrow> bool) \<Rightarrow> (zid, meta) gomap \<Rightarrow> zid set \<Rightarrow> (zid, meta) gomap \<times> idset \<Rightarrow> bool" where
  "handled fm P sel0 D st \<longleftrightarrow>
     (\<forall>zid \<in> D. fm zid \<noteq> None) \<and> gm_inv (fst st) \<and> real_set (snd st) \<and>
     (\<forall>zid m. gm_get (fst st) zid = Some m \<longleftrightarrow>
        gm_get sel0 zid = Some m \<or> gm_get sel0 zid = None \<and> zid \<in> D \<and> fm zid = Some m \<and> P m) \<and>
     (\<forall>zid. zid \<in> elems (snd st) \<longleftrightarrow> gm_get sel0 zid = None \<and> zid \<in> D \<and> (\<exists>m. fm zid = Some m \<and> \<not> P m))"

lemma handled_step:
  assumes h: "handled fm (\<lambda>m. c_PreMatch c m \<and> Match term m) sel0 D st"
    and f: "m_Zid m \<in> D \<or> fm (m_Zid m) = Some m"
  shows "handled fm (\<lambda>m. c_PreMatch c m \<and> Match term m) sel0 (insert (m_Zid m) D) (handleMeta c term m st)"
proof -
  obtain sel rej where st: "st = (sel, rej)" by (cases st)
  let ?z = "m_Zid m"
  have i: "set_inv rej" using h st by (simp add: handled_def real_set_def)
  note h' = h [unfolded handled_def st fst_conv snd_conv]
  have got: "gm_get sel zid = Some m' \<longleftrightarrow> gm_get sel0 zid = Some m' \<or>
      gm_get sel0 zid = None \<and> zid \<in> D \<and> fm zid = Some m' \<and> c_PreMatch c m' \<and> Match term m'" for zid m'
    using h' by blast
  have rejd: "zid \<in> elems rej \<longleftrightarrow> gm_get sel0 zid = None \<and> zid \<in> D \<and> (\<exists>m. fm zid = Some m \<and> \<not> (c_PreMatch c m \<and> Match term m))"
    for zid using h' by blast
  show ?thesis
  proof (cases "?z \<in> D \<or> gm_get sel0 ?z \<noteq> None")
    case True
    have known: "?z \<in> elems rej \<or> gm_get sel ?z \<noteq> None"
    proof (cases "gm_get sel0 ?z")
      case None
      then have d: "?z \<in> D" using True by simp
      then obtain m' where "fm ?z = Some m'" using h' by blast
      then show ?thesis using None d got [of ?z m'] rejd [of ?z] by auto
    next
      case (Some m')
      then show ?thesis using got [of ?z m'] by auto
    qed
    then have s: "handleMeta c term m st = st" by (auto simp: handleMeta_def st Set_Contains_correct [OF i])
    have "gm_get sel0 zid = None \<and> zid \<in> D \<longleftrightarrow> gm_get sel0 zid = None \<and> zid \<in> insert ?z D" for zid using True by auto
    then have e: "gm_get sel0 zid = None \<and> zid \<in> insert ?z D \<and> X \<longleftrightarrow> gm_get sel0 zid = None \<and> zid \<in> D \<and> X" for zid X by blast
    have "fm ?z \<noteq> None" using f h' by auto
    then have "\<forall>zid \<in> insert ?z D. fm zid \<noteq> None" using h' by blast
    then show ?thesis unfolding s unfolding handled_def e unfolding st fst_conv snd_conv using h' by blast
  next
    case False
    then have fm: "fm ?z = Some m" and n: "gm_get sel0 ?z = None" "?z \<notin> D" using f by auto
    have new: "?z \<notin> elems rej" using n rejd by blast
    have new': "gm_get sel ?z = None" using n got by (cases "gm_get sel ?z") auto
    have gi: "gm_inv sel" and ri: "real_set rej" using h' by blast+
    have dz: "\<forall>zid \<in> insert ?z D. fm zid \<noteq> None" using h' fm by auto
    show ?thesis
    proof (cases "c_PreMatch c m \<and> Match term m")
      case True
      then have s: "handleMeta c term m st = (gm_put sel ?z m, rej)"
        using new new' by (simp add: handleMeta_def st Set_Contains_correct [OF i])
      have 1: "gm_get (gm_put sel ?z m) zid = Some m' \<longleftrightarrow> gm_get sel0 zid = Some m' \<or>
          gm_get sel0 zid = None \<and> zid \<in> insert ?z D \<and> fm zid = Some m' \<and> c_PreMatch c m' \<and> Match term m'" for zid m'
        using True fm n got [of zid m'] by (cases "zid = ?z") auto
      have 2: "zid \<in> elems rej \<longleftrightarrow> gm_get sel0 zid = None \<and> zid \<in> insert ?z D \<and>
          (\<exists>m. fm zid = Some m \<and> \<not> (c_PreMatch c m \<and> Match term m))" for zid
        using True fm n new rejd [of zid] by (cases "zid = ?z") auto
      have 3: "gm_inv (gm_put sel ?z m)" using gi by simp
      show ?thesis unfolding s handled_def fst_conv snd_conv using 1 2 3 dz ri by blast
    next
      case False
      then have s: "handleMeta c term m st = (sel, add_in_place rej ?z)"
        using new new' by (auto simp: handleMeta_def st Set_Contains_correct [OF i])
      have 1: "gm_get sel zid = Some m' \<longleftrightarrow> gm_get sel0 zid = Some m' \<or>
          gm_get sel0 zid = None \<and> zid \<in> insert ?z D \<and> fm zid = Some m' \<and> c_PreMatch c m' \<and> Match term m'" for zid m'
        using False fm n got [of zid m'] by (cases "zid = ?z") auto
      have 2: "zid \<in> elems (add_in_place rej ?z) \<longleftrightarrow> gm_get sel0 zid = None \<and> zid \<in> insert ?z D \<and>
          (\<exists>m. fm zid = Some m \<and> \<not> (c_PreMatch c m \<and> Match term m))" for zid
        using False fm n real_set_add [OF ri, of ?z] rejd [of zid] by (cases "zid = ?z") auto
      show ?thesis unfolding s handled_def fst_conv snd_conv using 1 2 gi real_set_add [OF ri, of ?z] dz by blast
    qed
  qed
qed

text \<open>Nothing panics: identifiers are valid.\<close>

lemma mgr_enrich_total: "IsValid (m_Zid m) \<Longrightarrow> \<exists>m' mgr'. mgr_enrich env ctx n m mgr = Some (m', mgr')"
  by (auto simp: mgr_enrich_def mgr_Enrich_def set_ZidN_def LookupZidN_def Let_def split: prod.splits option.splits)

lemma apply_meta_loop_total:
  "\<forall>m \<in> set ms. IsValid (m_Zid m) \<Longrightarrow> \<exists>mgr' st'. apply_meta_loop env ctx n c term ms (mgr, st) = Some (mgr', st') \<and>
    same_but_updates mgr mgr'"
proof (induction ms arbitrary: mgr st)
  case Nil
  then show ?case by (simp add: same_but_updates_refl)
next
  case (Cons m ms)
  obtain m' mgr1 where e: "mgr_enrich env ctx n m mgr = Some (m', mgr1)" using mgr_enrich_total Cons.prems by fastforce
  obtain mgr' st' where "apply_meta_loop env ctx n c term ms (mgr1, handleMeta c term m' st) = Some (mgr', st')"
      "same_but_updates mgr1 mgr'" using Cons.IH Cons.prems by fastforce
  then show ?case using e same_but_updates_trans [OF mgr_enrich_same [OF e]] by fastforce
qed

context managed_boxes
begin

lemma apply_meta_loop_handled:
  assumes "same_but_updates mgr0 mgr"
    and "handled fm (\<lambda>m. c_PreMatch c m \<and> Match term m) sel0 D st"
    and "\<forall>m \<in> set ms. m_Zid m \<in> D \<or> fm (m_Zid m) = enriched env ctx mgr0 n m"
    and "apply_meta_loop env ctx n c term ms (mgr, st) = Some (mgr', st')"
  shows "same_but_updates mgr0 mgr' \<and> handled fm (\<lambda>m. c_PreMatch c m \<and> Match term m) sel0 (D \<union> m_Zid ` set ms) st'"
  using assms
proof (induction ms arbitrary: mgr st D)
  case (Cons m ms)
  obtain m1 mgr1 where e: "mgr_enrich env ctx n m mgr = Some (m1, mgr1)"
    and l: "apply_meta_loop env ctx n c term ms (mgr1, handleMeta c term m1 st) = Some (mgr', st')"
    using Cons.prems(4) by (auto split: option.splits)
  have s: "enriched env ctx mgr0 n m = Some m1" "same_but_updates mgr0 mgr1"
    using mgr_enrich_enriched [OF Cons.prems(1) e] by blast+
  have z: "m_Zid m1 = m_Zid m" by (rule enriched_Zid [OF s(1)])
  have "m_Zid m1 \<in> D \<or> fm (m_Zid m1) = Some m1" using Cons.prems(3) s(1) z by auto
  note h = handled_step [OF Cons.prems(2) this]
  show ?case using Cons.IH [OF s(2) h _ l] Cons.prems(3) z by auto
qed simp

text \<open>The boxes from number \<open>i\<close> on; \<open>D\<close> are the zettel of the earlier boxes.\<close>

lemma select_boxes_handled:
  assumes "same_but_updates mgr0 mgr" and "inv (mgr_sys mgr0)" and "set ps \<subseteq> set boxes"
    and "handled fm (\<lambda>m. c_PreMatch c m \<and> Match term m) sel0 D st"
    and "\<forall>zid. Retrieve term zid \<longrightarrow> zid \<notin> D \<longrightarrow>
      fm zid = Option.bind (first_zettel ps (mgr_sys mgr0) zid i) (\<lambda>(j, zt). enriched env ctx mgr0 (int j + 1) (Z_Meta zt))"
    and "select_boxes env ctx i c term ps (mgr, st) = Some (mgr', sel', rej', err)"
  shows "same_but_updates mgr0 mgr' \<and> err = None \<and> handled fm (\<lambda>m. c_PreMatch c m \<and> Match term m) sel0
    (D \<union> {zid. Retrieve term zid \<and> list_ex (\<lambda>bx. xb_HasZettel bx zid (mgr_sys mgr0)) ps}) (sel', rej')"
  using assms
proof (induction ps arbitrary: mgr st D i)
  case Nil
  then show ?case by (cases st) simp
next
  case (Cons p ps)
  have sys: "mgr_sys mgr = mgr_sys mgr0" using same_but_updates_fields [OF Cons.prems(1)] by simp
  have p: "p \<in> set boxes" using Cons.prems(3) by simp
  obtain ms where a: "xb_ApplyMeta p (Retrieve term) (mgr_sys mgr0) = (ms, None)"
    and ms: "set ms = {Z_Meta zt | zt zid. Retrieve term zid \<and> xb_GetZettel p zid (mgr_sys mgr0) = Inr zt}"
    using apply_meta [OF p Cons.prems(2), of "Retrieve term"] by (cases "xb_ApplyMeta p (Retrieve term) (mgr_sys mgr0)") auto
  obtain mgr1 st1 where l: "apply_meta_loop env ctx (int i + 1) c term ms (mgr, st) = Some (mgr1, st1)"
    and r: "select_boxes env ctx (i + 1) c term ps (mgr1, st1) = Some (mgr', sel', rej', err)"
    using Cons.prems(6) a sys by (auto split: option.splits)
  have m: "m_Zid m \<in> D \<or> fm (m_Zid m) = enriched env ctx mgr0 (int i + 1) m" if mm: "m \<in> set ms" for m
  proof -
    obtain zt zid where "m = Z_Meta zt" "Retrieve term zid" "xb_GetZettel p zid (mgr_sys mgr0) = Inr zt"
      using mm unfolding ms by blast
    then show ?thesis using get_zid [OF p Cons.prems(2)] Cons.prems(5) by auto
  qed
  let ?D = "D \<union> m_Zid ` set ms"
  have D: "m_Zid ` set ms = {zid. Retrieve term zid \<and> xb_HasZettel p zid (mgr_sys mgr0)}"
    using has_get [OF p Cons.prems(2)] get_zid [OF p Cons.prems(2)] unfolding ms by (auto simp: image_iff)
  have rest: "\<forall>zid. Retrieve term zid \<longrightarrow> zid \<notin> ?D \<longrightarrow>
      fm zid = Option.bind (first_zettel ps (mgr_sys mgr0) zid (i + 1)) (\<lambda>(j, zt). enriched env ctx mgr0 (int j + 1) (Z_Meta zt))"
  proof (intro allI impI)
    fix zid
    assume z: "Retrieve term zid" "zid \<notin> ?D"
    then have "\<not> xb_HasZettel p zid (mgr_sys mgr0)" using D by auto
    then obtain err where "xb_GetZettel p zid (mgr_sys mgr0) = Inl err"
      using has_get [OF p Cons.prems(2), of zid] by (cases "xb_GetZettel p zid (mgr_sys mgr0)") auto
    then show "fm zid = Option.bind (first_zettel ps (mgr_sys mgr0) zid (i + 1)) (\<lambda>(j, zt). enriched env ctx mgr0 (int j + 1) (Z_Meta zt))"
      using Cons.prems(5) z by auto
  qed
  have h1: "same_but_updates mgr0 mgr1 \<and> handled fm (\<lambda>m. c_PreMatch c m \<and> Match term m) sel0 ?D st1"
    using apply_meta_loop_handled [OF Cons.prems(1,4) _ l] m by blast
  have ps: "set ps \<subseteq> set boxes" using Cons.prems(3) by simp
  have "?D \<union> {zid. Retrieve term zid \<and> list_ex (\<lambda>bx. xb_HasZettel bx zid (mgr_sys mgr0)) ps} =
      D \<union> {zid. Retrieve term zid \<and> list_ex (\<lambda>bx. xb_HasZettel bx zid (mgr_sys mgr0)) (p # ps)}" unfolding D by auto
  then show ?case using Cons.IH [OF h1 [THEN conjunct1] Cons.prems(2) ps h1 [THEN conjunct2] rest r] by simp
qed

lemma first_meta_has:
  assumes "inv (mgr_sys mgr)" and "mgr_boxes mgr = boxes" and "first_meta env ctx mgr zid = Some m"
  shows "list_ex (\<lambda>bx. xb_HasZettel bx zid (mgr_sys mgr)) boxes"
  using first_zettel_get [OF subset_refl assms(1), of zid 0] assms(2,3) by (auto simp: first_meta_def split: option.splits)

text \<open>After the terms of the query, the first metadata that satisfy some term are selected.\<close>

lemma select_terms_exact:
  assumes "same_but_updates mgr0 mgr" and "inv (mgr_sys mgr0)" and "mgr_boxes mgr0 = boxes" and "gm_inv sel"
    and "\<forall>zid m. gm_get sel zid = Some m \<longleftrightarrow> first_meta env ctx mgr0 zid = Some m \<and> Q zid m"
    and "select_terms env ctx c terms (mgr, sel) = Some (mgr', sel', err)"
  shows "same_but_updates mgr0 mgr' \<and> err = None \<and> gm_inv sel' \<and>
    (\<forall>zid m. gm_get sel' zid = Some m \<longleftrightarrow> first_meta env ctx mgr0 zid = Some m \<and>
      (Q zid m \<or> c_PreMatch c m \<and> (\<exists>t \<in> set terms. Match t m \<and> Retrieve t zid)))"
  using assms
proof (induction terms arbitrary: mgr sel Q)
  case Nil
  then show ?case by simp
next
  case (Cons t ts)
  let ?fm = "first_meta env ctx mgr0"
  have boxes: "mgr_boxes mgr = boxes" "mgr_sys mgr = mgr_sys mgr0" using same_but_updates_fields [OF Cons.prems(1)] Cons.prems(3) by simp_all
  obtain mgr1 sel1 rej1 err1 where s: "select_boxes env ctx 0 c t boxes (mgr, sel, NewSet []) = Some (mgr1, sel1, rej1, err1)"
    using Cons.prems(6) boxes by (auto split: option.splits)
  have h0: "handled ?fm (\<lambda>m. c_PreMatch c m \<and> Match t m) sel {} (sel, NewSet [])"
    using Cons.prems(4) real_set_NewSet by (simp add: handled_def)
  have f: "\<forall>zid. Retrieve t zid \<longrightarrow> zid \<notin> {} \<longrightarrow> ?fm zid = Option.bind (first_zettel boxes (mgr_sys mgr0) zid 0)
      (\<lambda>(j, zt). enriched env ctx mgr0 (int j + 1) (Z_Meta zt))"
    using Cons.prems(3) by (auto simp: first_meta_def split: option.splits)
  note h = select_boxes_handled [OF Cons.prems(1,2) subset_refl h0 f s, unfolded handled_def fst_conv snd_conv Un_empty_left]
  have r: "select_terms env ctx c ts (mgr1, sel1) = Some (mgr', sel', err)" using Cons.prems(6) s boxes h by simp
  let ?Q = "\<lambda>zid m. Q zid m \<or> c_PreMatch c m \<and> Match t m \<and> Retrieve t zid"
  have "gm_get sel1 zid = Some m \<longleftrightarrow> ?fm zid = Some m \<and> ?Q zid m" for zid m
  proof -
    have 1: "gm_get sel1 zid = Some m \<longleftrightarrow> gm_get sel zid = Some m \<or> gm_get sel zid = None \<and>
        zid \<in> {zid. Retrieve t zid \<and> list_ex (\<lambda>bx. xb_HasZettel bx zid (mgr_sys mgr0)) boxes} \<and>
        ?fm zid = Some m \<and> c_PreMatch c m \<and> Match t m" using h by blast
    have 2: "?fm zid = Some m \<Longrightarrow> list_ex (\<lambda>bx. xb_HasZettel bx zid (mgr_sys mgr0)) boxes"
      by (rule first_meta_has [OF Cons.prems(2,3)])
    have 3: "gm_get sel zid = Some m' \<longleftrightarrow> ?fm zid = Some m' \<and> Q zid m'" for m' using Cons.prems(5) by blast
    show ?thesis
    proof (cases "?fm zid = Some m \<and> \<not> Q zid m")
      case True
      have "gm_get sel zid \<noteq> Some m'" for m' using True 3 [of m'] by (cases "m' = m") simp_all
      then have "gm_get sel zid = None" by (meson option.exhaust)
      then show ?thesis unfolding 1 using True 2 by auto
    next
      case False
      then show ?thesis unfolding 1 3 by blast
    qed
  qed
  then have q: "\<forall>zid m. gm_get sel1 zid = Some m \<longleftrightarrow> ?fm zid = Some m \<and> ?Q zid m" by blast
  have "same_but_updates mgr0 mgr1" "gm_inv sel1" using h by blast+
  note IH = Cons.IH [OF this(1) Cons.prems(2,3) this(2) q r]
  have eq: "?Q zid m \<or> c_PreMatch c m \<and> (\<exists>u \<in> set ts. Match u m \<and> Retrieve u zid) \<longleftrightarrow>
      Q zid m \<or> c_PreMatch c m \<and> (\<exists>u \<in> set (t # ts). Match u m \<and> Retrieve u zid)" for zid m by auto
  show ?case using IH unfolding eq .
qed

lemma select_boxes_total:
  assumes "set ps \<subseteq> set boxes" and "inv (mgr_sys mgr)"
  shows "\<exists>mgr' sel' rej'. select_boxes env ctx i c term ps (mgr, st) = Some (mgr', sel', rej', None) \<and> same_but_updates mgr mgr'"
  using assms
proof (induction ps arbitrary: i mgr st)
  case Nil
  then show ?case by (cases st) (simp add: same_but_updates_refl)
next
  case (Cons p ps)
  have p: "p \<in> set boxes" using Cons.prems(1) by simp
  obtain ms where a: "xb_ApplyMeta p (Retrieve term) (mgr_sys mgr) = (ms, None)"
    and ms: "set ms = {Z_Meta zt | zt zid. Retrieve term zid \<and> xb_GetZettel p zid (mgr_sys mgr) = Inr zt}"
    using apply_meta [OF p Cons.prems(2), of "Retrieve term"] by (cases "xb_ApplyMeta p (Retrieve term) (mgr_sys mgr)") auto
  have "\<forall>m \<in> set ms. IsValid (m_Zid m)"
    unfolding ms using has_valid [OF p Cons.prems(2)] has_get [OF p Cons.prems(2)] get_zid [OF p Cons.prems(2)] by blast
  then obtain mgr1 sel1 rej1 where l: "apply_meta_loop env ctx (int i + 1) c term ms (mgr, st) = Some (mgr1, sel1, rej1)"
    and s: "same_but_updates mgr mgr1" using apply_meta_loop_total [of ms env ctx "int i + 1" c "term" mgr st] by fastforce
  have "inv (mgr_sys mgr1)" using same_but_updates_fields [OF s] Cons.prems(2) by simp
  then obtain mgr' sel' rej' where
    "select_boxes env ctx (i + 1) c term ps (mgr1, sel1, rej1) = Some (mgr', sel', rej', None)" "same_but_updates mgr1 mgr'"
    using Cons.IH Cons.prems(1) by fastforce
  then show ?case using a l same_but_updates_trans [OF s] by fastforce
qed

lemma select_terms_total:
  assumes "inv (mgr_sys mgr)" and "mgr_boxes mgr = boxes"
  shows "\<exists>mgr' sel'. select_terms env ctx c terms (mgr, sel) = Some (mgr', sel', None)"
  using assms
proof (induction terms arbitrary: mgr sel)
  case (Cons t ts)
  obtain mgr1 sel1 rej1 where s: "select_boxes env ctx 0 c t boxes (mgr, sel, NewSet []) = Some (mgr1, sel1, rej1, None)"
    "same_but_updates mgr mgr1" using select_boxes_total [OF subset_refl Cons.prems(1)] by blast
  then show ?case using Cons.IH [of mgr1 sel1] same_but_updates_fields [OF s(2)] Cons.prems by simp
qed simp

lemma GetZettel_first':
  assumes "inv (mgr_sys mgr)" and "mgr_boxes mgr = boxes" and "checkContinue mgr ctx = None"
    and "mgr_GetZettel env ctx zid mgr = Some (mgr', res)"
  shows "(case first_zettel (mgr_boxes mgr) (mgr_sys mgr) zid 0 of
      None \<Rightarrow> res = Inl (ErrZettelNotFound zid) \<and> \<not> mgr_hasZettel ctx mgr zid
    | Some (i, zt) \<Rightarrow> \<exists>m. enriched env ctx mgr (int i + 1) (Z_Meta zt) = Some m \<and> res = Inr (zt\<lparr>Z_Meta := m\<rparr>) \<and>
        m_Zid m = zid \<and> mgr_hasZettel ctx mgr zid) \<and>
    (\<exists>zids. mgr_FetchZids ctx mgr = Inr zids \<and> elems zids = {zid. mgr_hasZettel ctx mgr zid})"
proof (rule conjI)
  have g: "get_loop env ctx zid 0 boxes mgr = Some (mgr', res)"
    using assms(2-4) by (simp add: mgr_GetZettel_def mgr_getZettel_def)
  have h: "mgr_hasZettel ctx mgr zid \<longleftrightarrow> first_zettel boxes (mgr_sys mgr) zid 0 \<noteq> None"
    using first_zettel_get [OF subset_refl assms(1), of zid 0] assms(2,3) by (simp add: mgr_hasZettel_def)
  show "case first_zettel (mgr_boxes mgr) (mgr_sys mgr) zid 0 of
      None \<Rightarrow> res = Inl (ErrZettelNotFound zid) \<and> \<not> mgr_hasZettel ctx mgr zid
    | Some (i, zt) \<Rightarrow> \<exists>m. enriched env ctx mgr (int i + 1) (Z_Meta zt) = Some m \<and> res = Inr (zt\<lparr>Z_Meta := m\<rparr>) \<and>
        m_Zid m = zid \<and> mgr_hasZettel ctx mgr zid"
  proof (cases "first_zettel boxes (mgr_sys mgr) zid 0")
    case None
    then show ?thesis using get_loop_first [OF subset_refl assms(1) g] h assms(2) by simp
  next
    case (Some r)
    obtain i zt where r: "r = (i, zt)" by (cases r)
    obtain m where m: "enriched env ctx mgr (int i + 1) (Z_Meta zt) = Some m" "res = Inr (zt\<lparr>Z_Meta := m\<rparr>)"
      using get_loop_first [OF subset_refl assms(1) g] Some r by auto
    have "m_Zid m = zid" using enriched_Zid [OF m(1)] first_zettel_zid [OF subset_refl assms(1)] Some r by simp
    then show ?thesis using m h Some r assms(2) by simp
  qed
  show "\<exists>zids. mgr_FetchZids ctx mgr = Inr zids \<and> elems zids = {zid. mgr_hasZettel ctx mgr zid}"
    using fetch_loop_elems [OF subset_refl assms(1) real_set_NewSet(3)] assms(2,3) real_set_NewSet(4)
    by (auto simp: mgr_FetchZids_def mgr_fetchZids_def mgr_hasZettel_def)
qed

text \<open>What \<open>SelectMeta\<close> delivers: first metadata that some term accepts, each zettel once, and all of them if nothing cuts.\<close>

lemma SelectMeta_exact':
  assumes "inv (mgr_sys mgr)" and "mgr_boxes mgr = boxes" and "query_inv q" and "\<forall>ct \<in> set (q_terms q). term_fits (me_zsc env) ct"
    and "rand_ok (me_rand env)" and "\<forall>xs. mset (me_order env xs) = mset xs" and "0 \<le> q_offset q"
    and "checkContinue mgr ctx = None"
  defines "sel \<equiv> {m. \<exists>zid. first_meta env ctx mgr zid = Some m \<and>
    (case q_preMatch q of None \<Rightarrow> True | Some p \<Rightarrow> p m) \<and>
    (\<exists>i < length (q_terms q). term_accepts (me_zsc env) (me_unicode env) (me_text env) (me_visit env i)
      (mapstore_searcher (mgr_idxStore mgr)) None (q_terms q ! i) m)}"
  shows "\<exists>mgr' res. mgr_SelectMeta env ctx None (Some q) mgr = Some (mgr', Inr res) \<and> set res \<subseteq> sel \<and> distinct (map m_Zid res) \<and>
    (q_pick q \<le> 0 \<and> q_offset q = 0 \<and> q_limit q \<le> 0 \<longrightarrow> set res = sel)"
proof -
  let ?fm = "first_meta env ctx mgr" and ?z = "me_zsc env"
  obtain c where c: "RetrieveAndCompile ?z (me_unicode env) (me_text env) (me_visit env)
      (Some (mapstore_searcher (mgr_idxStore mgr))) (Some q) None = Some c"
    using RetrieveAndCompile_total' [OF assms(3,4)] by blast
  have cf: "c_hasQuery c" "c_pick c = q_pick q" "c_offset c = q_offset q" "c_limit c = q_limit q" "c_startMeta c = None"
      "c_PreMatch c = (case q_preMatch q of None \<Rightarrow> matchAlways | Some p \<Rightarrow> p)"
    using c q_Clone_id [OF assms(3)] by (auto simp: RetrieveAndCompile_def)
  have "Result ?z (me_rand env) c = Some (None, c)" by (simp add: Result_def cf)
  then have result: "Result ?z (me_rand env) c = Some (None, c)" .
  obtain mgr1 selected where s: "select_terms env ctx c (c_Terms c) (mgr, []) = Some (mgr1, selected, None)"
    using select_terms_total [OF assms(1,2)] by blast
  have "\<forall>zid m. gm_get [] zid = Some m \<longleftrightarrow> ?fm zid = Some m \<and> False" by simp
  note e = select_terms_exact [OF same_but_updates_refl assms(1,2) gm_inv_Nil this s]
  obtain res c' where a: "AfterSearch ?z (me_rand env) c (me_order env (map snd selected)) = Some (res, c')"
  proof (cases "me_order env (map snd selected) = []")
    case True
    then show ?thesis using that by (simp add: AfterSearch_def)
  next
    case False
    show ?thesis using AfterSearch_cut [OF assms(5) cf(1) _ False, of ?z] assms(7) cf that by auto
  qed
  have r: "mgr_SelectMeta env ctx None (Some q) mgr = Some (mgr1, Inr res)"
    using s a by (simp add: mgr_SelectMeta_def assms(8) c result)
  have inv: "gm_inv selected" using e by blast
  have got: "gm_get selected zid = Some m \<longleftrightarrow> ?fm zid = Some m \<and> c_PreMatch c m \<and> (\<exists>t \<in> set (c_Terms c). Match t m \<and> Retrieve t zid)"
    for zid m using e by blast
  have zid: "?fm zid = Some m \<Longrightarrow> m_Zid m = zid" for zid m
  proof -
    assume f: "?fm zid = Some m"
    then obtain i zt where z: "first_zettel boxes (mgr_sys mgr) zid 0 = Some (i, zt)"
      and m: "enriched env ctx mgr (int i + 1) (Z_Meta zt) = Some m"
      using assms(2) by (auto simp: first_meta_def split: option.splits)
    from z have "m_Zid (Z_Meta zt) = zid" by (rule first_zettel_zid [OF subset_refl assms(1)])
    then show ?thesis using enriched_Zid [OF m] by simp
  qed
  have sel: "set (map snd selected) = sel"
  proof -
    have in_sel: "m \<in> set (map snd selected) \<longleftrightarrow> (\<exists>zid. gm_get selected zid = Some m)" for m
      using gm_get_Some_iff [OF inv] by force
    have terms: "?fm zid = Some m \<Longrightarrow> (\<exists>t \<in> set (c_Terms c). Match t m \<and> Retrieve t zid) \<longleftrightarrow>
        (\<exists>i < length (q_terms q). term_accepts ?z (me_unicode env) (me_text env) (me_visit env i)
          (mapstore_searcher (mgr_idxStore mgr)) None (q_terms q ! i) m)" for zid m
      using compiled_accepts [OF assms(3) c, of m] zid by (simp add: accepts_def)
    have pre: "c_PreMatch c m \<longleftrightarrow> (case q_preMatch q of None \<Rightarrow> True | Some p \<Rightarrow> p m)" for m
      by (simp add: cf matchAlways_def split: option.splits)
    have "gm_get selected zid = Some m \<longleftrightarrow> ?fm zid = Some m \<and> (case q_preMatch q of None \<Rightarrow> True | Some p \<Rightarrow> p m) \<and>
        (\<exists>i < length (q_terms q). term_accepts ?z (me_unicode env) (me_text env) (me_visit env i)
          (mapstore_searcher (mgr_idxStore mgr)) None (q_terms q ! i) m)" for zid m
      unfolding got pre using terms [of zid m] by blast
    then show ?thesis unfolding sel_def set_eq_iff mem_Collect_eq in_sel by blast
  qed
  let ?all = "me_order env (map snd selected)"
  have all: "mset ?all = mset (map snd selected)" using assms(6) by blast
  have keys: "map m_Zid (map snd selected) = map fst selected"
    using gm_get_Some_iff [OF inv] got zid by (force intro!: map_cong)
  have "distinct (map m_Zid (map snd selected))" using inv unfolding keys gm_inv_def .
  moreover have "mset (map m_Zid ?all) = mset (map m_Zid (map snd selected))" using all by (metis mset_map)
  ultimately have d: "distinct (map m_Zid ?all)" by (metis mset_eq_imp_distinct_iff)
  have sub: "mset res \<subseteq># mset ?all \<and> (q_pick q \<le> 0 \<and> q_offset q = 0 \<and> q_limit q \<le> 0 \<longrightarrow> length res = length ?all)"
  proof (cases "?all = []")
    case True
    then show ?thesis using a by (simp add: AfterSearch_def)
  next
    case False
    show ?thesis using AfterSearch_cut [OF assms(5) cf(1) _ False, of ?z] a assms(7) cf
      by (auto simp: window_len_def pick_len_def limit_left_def will_pick_def)
  qed
  have "distinct (map m_Zid res)"
    using sub by (intro mset_subset_distinct [OF _ d]) (simp only: mset_map image_mset_subseteq_mono)
  moreover have "set res \<subseteq> sel" using sub all sel by (metis mset_subset_eqD set_mset_mset set_mset_mono)
  moreover have "length res = length ?all \<Longrightarrow> set res = sel" using sub all sel
    by (metis mset_eq_setD size_mset subset_mset.le_imp_less_or_eq mset_subset_size less_irrefl)
  ultimately show ?thesis using sub r by blast
qed

end

end
