(* ===== verification/Indexer.thy ===== *)
theory Indexer
  imports Manager
begin

text \<open>
  The indexer of the box manager (\<open>box/manager/indexer.go\<close>): what is recorded for a zettel, and the loop
  that works on the queue.
\<close>

section \<open>The data of one zettel\<close>

definition mustIndexZettel :: "mgrEnv \<Rightarrow> meta \<Rightarrow> bool" where
  "mustIndexZettel env m \<longleftrightarrow> me_DefaultHomeZid env \<le> m_Zid m"

definition idxCollectMetaValue :: "unicode \<Rightarrow> string \<Rightarrow> wordset \<Rightarrow> wordset" where
  "idxCollectMetaValue u value stWords =
     (let words = NormalizeWords u value in
      if 0 < length words then add_words words stWords else WordSet_Add stWords value)"

text \<open>\<open>has\<close> tells whether some box has a zettel.\<close>

definition idxUpdateValue :: "(zid \<Rightarrow> bool) \<Rightarrow> string \<Rightarrow> string \<Rightarrow> ZettelIndex \<Rightarrow> ZettelIndex" where
  "idxUpdateValue has inverseKey value zi =
     (case Parse value of
        Inl err \<Rightarrow> zi
      | Inr zid \<Rightarrow>
          if \<not> has zid then AddDeadRef zi zid
          else if inverseKey = [] then AddBackRef zi zid
          else AddInverseRef zi inverseKey zid)"

definition collect_pair :: "mgrEnv \<Rightarrow> (zid \<Rightarrow> bool) \<Rightarrow> meta_pair \<Rightarrow> ZettelIndex \<times> collectData \<Rightarrow> ZettelIndex \<times> collectData" where
  "collect_pair env has pair st =
     (case (pair, st) of ((key, value), (zi, cData)) \<Rightarrow>
        let descr = GetDescription (me_zsc env) key in
        if kd_IsProperty descr then (zi, cData)
        else case KeyType descr of
            TypeID \<Rightarrow> (idxUpdateValue has (Inverse_of descr) value zi, cData)
          | TypeIDSet \<Rightarrow> (fold (idxUpdateValue has (Inverse_of descr)) (ListFromValue value) zi, cData)
          | TypeZettelmarkup \<Rightarrow> (zi, collectInlineIndexData (me_unicode env) (me_ParseMetadata env value) cData)
          | TypeURL \<Rightarrow> (zi, if url_Parse (me_urls env) value \<noteq> None
                           then cData\<lparr>cd_urls := WordSet_Add (cd_urls cData) value\<rparr> else cData)
          | _ \<Rightarrow>
              if IsSet (KeyType descr) then
                (zi, cData\<lparr>cd_words := fold (idxCollectMetaValue (me_unicode env)) (ListFromValue value) (cd_words cData)\<rparr>)
              else (zi, cData\<lparr>cd_words := idxCollectMetaValue (me_unicode env) value (cd_words cData)\<rparr>))"

definition idxCollectFromMeta :: "mgrEnv \<Rightarrow> (zid \<Rightarrow> bool) \<Rightarrow> meta \<Rightarrow> ZettelIndex \<times> collectData \<Rightarrow> ZettelIndex \<times> collectData" where
  "idxCollectFromMeta env has m = fold (collect_pair env has) (ComputedPairs (me_zsc env) m)"

definition idxProcessData :: "(zid \<Rightarrow> bool) \<Rightarrow> ZettelIndex \<Rightarrow> collectData \<Rightarrow> ZettelIndex" where
  "idxProcessData has zi cData =
     (let zi = Set_ForEach (cd_refs cData) (\<lambda>ref zi. if has ref then AddBackRef zi ref else AddDeadRef zi ref) zi
      in SetUrls (SetWords zi (cd_words cData)) (cd_urls cData))"

text \<open>The collected data of a zettel, and the index entry made of it.\<close>

definition zettel_data :: "mgrEnv \<Rightarrow> zettel \<Rightarrow> collectData" where
  "zettel_data env zt =
     (if mustIndexZettel env (Z_Meta zt) then collectZettelIndexData (me_unicode env) (me_ParseZettel env zt) cd_initialize
      else cd_initialize)"

definition zettel_index :: "mgrEnv \<Rightarrow> (zid \<Rightarrow> bool) \<Rightarrow> zettel \<Rightarrow> ZettelIndex" where
  "zettel_index env has zt =
     (case idxCollectFromMeta env has (Z_Meta zt) (NewZettelIndex (Z_Meta zt), zettel_data env zt) of
        (zi, cData) \<Rightarrow> idxProcessData has zi cData)"

section \<open>Updating the index\<close>

fun idxCheckZettel :: "mgrEnv \<Rightarrow> zid list \<Rightarrow> 's manager \<Rightarrow> 's manager option" where
  "idxCheckZettel env [] mgr = Some mgr"
| "idxCheckZettel env (zid # zids) mgr =
     (case EnqueueZettel (me_MappingZid env) (mgr_idxAr mgr) zid of
        None \<Rightarrow> None
      | Some ar \<Rightarrow> idxCheckZettel env zids (mgr\<lparr>mgr_idxAr := ar\<rparr>))"

definition idxUpdateZettel :: "mgrEnv \<Rightarrow> ctx \<Rightarrow> zettel \<Rightarrow> 's manager \<Rightarrow> 's manager option" where
  "idxUpdateZettel env ctx zt mgr =
     (case UpdateReferences (me_zsc env) (mgr_idxStore mgr) (zettel_index env (mgr_hasZettel ctx mgr) zt) of
        (ms, toCheck) \<Rightarrow> idxCheckZettel env (Set_SafeSorted toCheck) (mgr\<lparr>mgr_idxStore := ms\<rparr>))"

definition idxDeleteZettel :: "mgrEnv \<Rightarrow> zid \<Rightarrow> 's manager \<Rightarrow> 's manager option" where
  "idxDeleteZettel env zid mgr =
     (case DeleteZettel (mgr_idxStore mgr) zid of
        (ms, toCheck) \<Rightarrow> idxCheckZettel env (Set_SafeSorted toCheck) (mgr\<lparr>mgr_idxStore := ms\<rparr>))"

section \<open>The loop\<close>

text \<open>One round; the flag tells whether the queue was not empty. The context is the one without enrichment.\<close>

definition idx_step :: "mgrEnv \<Rightarrow> ctx \<Rightarrow> 's manager \<Rightarrow> ('s manager \<times> bool) option" where
  "idx_step env ctx mgr =
     (case Dequeue (mgr_idxAr mgr) of (action, zid, lastReload, ar) \<Rightarrow>
        let mgr = mgr\<lparr>mgr_idxAr := ar\<rparr> in
        case action of
          arNothing \<Rightarrow> Some (mgr, False)
        | arReload \<Rightarrow>
            (case mgr_FetchZids ctx mgr of
               Inl err \<Rightarrow> Some (mgr, True)
             | Inr zids \<Rightarrow> Some (mgr\<lparr>mgr_idxAr := Reload ar zids, mgr_idxSinceReload := 0\<rparr>, True))
        | arZettel \<Rightarrow>
            (case mgr_GetZettel env ctx zid mgr of
               None \<Rightarrow> None
             | Some (mgr, Inl err) \<Rightarrow> map_option (\<lambda>mgr. (mgr, True)) (idxDeleteZettel env zid mgr)
             | Some (mgr, Inr zt) \<Rightarrow>
                 map_option (\<lambda>mgr. (mgr\<lparr>mgr_idxSinceReload := mgr_idxSinceReload mgr + 1\<rparr>, True))
                   (idxUpdateZettel env ctx zt mgr)))"

text \<open>The loop ends when the queue is empty; \<open>None\<close> is also the result of a loop that goes on for ever.\<close>

partial_function (option) idxWorkService :: "mgrEnv \<Rightarrow> ctx \<Rightarrow> 's manager \<Rightarrow> 's manager option" where
  "idxWorkService env ctx mgr =
     (case idx_step env ctx mgr of
        None \<Rightarrow> None
      | Some r \<Rightarrow> if snd r then idxWorkService env ctx (fst r) else Some (fst r))"

end
