(* ===== verification/IndexerLaws.thy ===== *)
theory IndexerLaws
  imports Indexer IndexSearch
begin

text \<open>
  What the indexer records for a zettel: exactly the references and words of its metadata and its content.
\<close>

section \<open>What a zettel refers to\<close>

text \<open>Identifiers that are values of a pair of metadata, the ones without an inverse key, and its syntax tree.\<close>

definition pair_zids :: "mgrEnv \<Rightarrow> meta_pair \<Rightarrow> zid set" where
  "pair_zids env p =
     (let descr = GetDescription (me_zsc env) (fst p) in
      if kd_IsProperty descr then {}
      else if KeyType descr = TypeID then {r. Parse (snd p) = Inr r}
      else if KeyType descr = TypeIDSet then {r. \<exists>v \<in> set (ListFromValue (snd p)). Parse v = Inr r}
      else {})"

definition pair_links :: "mgrEnv \<Rightarrow> meta_pair \<Rightarrow> zid set" where
  "pair_links env p = (if Inverse_of (GetDescription (me_zsc env) (fst p)) = [] then pair_zids env p else {})"

definition pair_nodes :: "mgrEnv \<Rightarrow> meta_pair \<Rightarrow> node list" where
  "pair_nodes env p =
     (let descr = GetDescription (me_zsc env) (fst p) in
      if \<not> kd_IsProperty descr \<and> KeyType descr = TypeZettelmarkup then nodes_slice (me_ParseMetadata env (snd p)) else [])"

definition value_words :: "unicode \<Rightarrow> string \<Rightarrow> string set" where
  "value_words u v = (if NormalizeWords u v = [] then {v} else set (NormalizeWords u v))"

definition pair_words :: "mgrEnv \<Rightarrow> meta_pair \<Rightarrow> string set" where
  "pair_words env p =
     (let descr = GetDescription (me_zsc env) (fst p); u = me_unicode env in
      if kd_IsProperty descr \<or> KeyType descr \<in> {TypeID, TypeIDSet, TypeURL} then {}
      else if KeyType descr = TypeZettelmarkup then nodes_words u (pair_nodes env p)
      else if IsSet (KeyType descr) then (\<Union>v \<in> set (ListFromValue (snd p)). value_words u v)
      else value_words u (snd p))"

definition content_nodes :: "mgrEnv \<Rightarrow> zettel \<Rightarrow> node list" where
  "content_nodes env zt = (if mustIndexZettel env (Z_Meta zt) then nodes_block_slice (me_ParseZettel env zt) else [])"

definition zettel_pairs :: "mgrEnv \<Rightarrow> zettel \<Rightarrow> meta_pair list" where
  "zettel_pairs env zt = ComputedPairs (me_zsc env) (Z_Meta zt)"

definition zettel_links :: "mgrEnv \<Rightarrow> zettel \<Rightarrow> zid set" where
  "zettel_links env zt = nodes_zids (content_nodes env zt) \<union>
     (\<Union>p \<in> set (zettel_pairs env zt). nodes_zids (pair_nodes env p) \<union> pair_links env p)"

definition zettel_refs :: "mgrEnv \<Rightarrow> zettel \<Rightarrow> zid set" where
  "zettel_refs env zt = zettel_links env zt \<union> (\<Union>p \<in> set (zettel_pairs env zt). pair_zids env p)"

definition zettel_words :: "mgrEnv \<Rightarrow> zettel \<Rightarrow> string set" where
  "zettel_words env zt = nodes_words (me_unicode env) (content_nodes env zt) \<union>
     (\<Union>p \<in> set (zettel_pairs env zt). pair_words env p)"

section \<open>The index entry of a zettel\<close>

text \<open>An entry is well-formed, belongs to the metadata, and has these references.\<close>

definition entry_refs :: "meta \<Rightarrow> zid set \<Rightarrow> zid set \<Rightarrow> ZettelIndex \<Rightarrow> bool" where
  "entry_refs m back dead zi \<longleftrightarrow> zidx_ok zi \<and> zi_meta zi = m \<and> elems (zi_backrefs zi) = back \<and> elems (zi_deadrefs zi) = dead"

lemma entry_refs_New: "entry_refs m {} {} (NewZettelIndex m)"
  by (simp add: entry_refs_def NewZettelIndex_def zidx_ok_def NewSet_correct gm_set_def)

lemma AddBackRef_refs: "entry_refs m b d zi \<Longrightarrow> entry_refs m (insert r b) d (AddBackRef zi r)"
  by (auto simp: entry_refs_def AddBackRef_def zidx_ok_def Set_Add_correct)

lemma AddDeadRef_refs: "entry_refs m b d zi \<Longrightarrow> entry_refs m b (insert r d) (AddDeadRef zi r)"
  by (auto simp: entry_refs_def AddDeadRef_def zidx_ok_def Set_Add_correct)

lemma AddInverseRef_refs: "entry_refs m b d zi \<Longrightarrow> entry_refs m b d (AddInverseRef zi key r)"
proof -
  assume e: "entry_refs m b d zi"
  have s: "set_inv x" if "gm_get (zi_inverseRefs zi) key = Some x" for x
  proof -
    have "set_inv (gm_set (zi_inverseRefs zi) key)" using e by (simp add: entry_refs_def zidx_ok_def)
    then show ?thesis using that by (simp add: gm_set_def)
  qed
  show ?thesis
    using e s
    by (auto simp: entry_refs_def AddInverseRef_def zidx_ok_def gm_set_def Set_Add_correct NewSet_correct split: option.splits)
qed

lemma idxUpdateValue_refs:
  assumes "entry_refs m b d zi"
  shows "entry_refs m (b \<union> {r. Parse v = Inr r \<and> has r \<and> k = []}) (d \<union> {r. Parse v = Inr r \<and> \<not> has r}) (idxUpdateValue has k v zi)"
proof (cases "Parse v")
  case (Inl err)
  then show ?thesis using assms by (simp add: idxUpdateValue_def)
next
  case (Inr r)
  have 1: "{x. Parse v = Inr x \<and> has x \<and> k = []} = (if has r \<and> k = [] then {r} else {})" using Inr by auto
  have 2: "{x. Parse v = Inr x \<and> \<not> has x} = (if has r then {} else {r})" using Inr by auto
  show ?thesis unfolding 1 2
    using Inr AddBackRef_refs [OF assms] AddDeadRef_refs [OF assms] AddInverseRef_refs [OF assms]
    by (simp add: idxUpdateValue_def)
qed

lemma idxUpdateValues_refs:
  assumes "entry_refs m b d zi"
  shows "entry_refs m (b \<union> {r. (\<exists>v \<in> set vs. Parse v = Inr r) \<and> has r \<and> k = []})
    (d \<union> {r. (\<exists>v \<in> set vs. Parse v = Inr r) \<and> \<not> has r}) (fold (idxUpdateValue has k) vs zi)"
  using assms
proof (induction vs arbitrary: b d zi)
  case (Cons v vs)
  have 1: "b \<union> {r. (\<exists>w \<in> set (v # vs). Parse w = Inr r) \<and> has r \<and> k = []} =
      (b \<union> {r. Parse v = Inr r \<and> has r \<and> k = []}) \<union> {r. (\<exists>w \<in> set vs. Parse w = Inr r) \<and> has r \<and> k = []}" by auto
  have 2: "d \<union> {r. (\<exists>w \<in> set (v # vs). Parse w = Inr r) \<and> \<not> has r} =
      (d \<union> {r. Parse v = Inr r \<and> \<not> has r}) \<union> {r. (\<exists>w \<in> set vs. Parse w = Inr r) \<and> \<not> has r}" by auto
  show ?case unfolding 1 2 using Cons.IH [OF idxUpdateValue_refs [OF Cons.prems]] by simp
qed simp

lemma value_words_added: "set (gm_keys (idxCollectMetaValue u v ws)) = set (gm_keys ws) \<union> value_words u v"
  unfolding idxCollectMetaValue_def value_words_def Let_def
  using keys_add_words [of "NormalizeWords u v" ws] by (auto simp: WordSet_Add_def)

lemma value_words_inv: "gm_inv ws \<Longrightarrow> gm_inv (idxCollectMetaValue u v ws)"
proof -
  have "gm_inv ws \<Longrightarrow> gm_inv (add_words xs ws)" for xs ws
    unfolding add_words_def by (induction xs arbitrary: ws) (auto simp: WordSet_Add_def)
  then show "gm_inv ws \<Longrightarrow> gm_inv (idxCollectMetaValue u v ws)"
    by (simp add: idxCollectMetaValue_def Let_def WordSet_Add_def)
qed

lemma values_words_added:
  "gm_inv ws \<Longrightarrow> gm_inv (fold (idxCollectMetaValue u) vs ws) \<and>
    set (gm_keys (fold (idxCollectMetaValue u) vs ws)) = set (gm_keys ws) \<union> (\<Union>v \<in> set vs. value_words u v)"
proof (induction vs arbitrary: ws)
  case (Cons v vs)
  show ?case using Cons.IH [OF value_words_inv [OF Cons.prems]] value_words_added [of u v ws] by auto
qed simp

text \<open>The references and words that are collected so far.\<close>

definition collected :: "collectData \<Rightarrow> zid set \<Rightarrow> string set \<Rightarrow> bool" where
  "collected cData refs ws \<longleftrightarrow> cd_ok cData \<and> elems (cd_refs cData) = refs \<and> set (gm_keys (cd_words cData)) = ws"

lemma collected_inline:
  assumes "collected cData refs ws"
  shows "collected (collectInlineIndexData u ns cData) (refs \<union> nodes_zids (nodes_slice ns)) (ws \<union> nodes_words u (nodes_slice ns))"
  using collectInlineIndexData_sets [of cData u ns] assms unfolding collected_def cd_sets_def by simp

lemma collected_words:
  assumes "collected cData refs ws" and "gm_inv ws'" and "set (gm_keys ws') = set (gm_keys (cd_words cData)) \<union> new"
  shows "collected (cData\<lparr>cd_words := ws'\<rparr>) refs (ws \<union> new)"
  using assms by (simp add: collected_def cd_ok_def)

lemma collected_url: "collected cData refs ws \<Longrightarrow> collected (cData\<lparr>cd_urls := WordSet_Add (cd_urls cData) v\<rparr>) refs ws"
  by (simp add: collected_def cd_ok_def WordSet_Add_def)

lemma collect_pair_sets:
  assumes e: "entry_refs m b d zi" and c: "collected cData refs ws" and r: "collect_pair env has p (zi, cData) = (zi', cData')"
  shows "entry_refs m (b \<union> {r \<in> pair_links env p. has r}) (d \<union> {r \<in> pair_zids env p. \<not> has r}) zi' \<and>
    collected cData' (refs \<union> nodes_zids (pair_nodes env p)) (ws \<union> pair_words env p)"
proof -
  obtain key v where p: "p = (key, v)" by (cases p)
  define descr where "descr = GetDescription (me_zsc env) key"
  note defs = pair_links_def pair_zids_def pair_nodes_def pair_words_def Let_def p fst_conv snd_conv descr_def [symmetric]
  note r = r [unfolded p collect_pair_def prod.case Let_def descr_def [symmetric]]
  have nil: "nodes_zids [] = {}" "nodes_words u [] = {}" for u by (rule nodes_sets_Nil)+
  show ?thesis
  proof (cases "kd_IsProperty descr")
    case True
    then show ?thesis using e c r by (simp add: defs nil)
  next
    case False
    note r = r [unfolded if_not_P [OF False]]
    consider (id) "KeyType descr = TypeID" | (ids) "KeyType descr = TypeIDSet" | (zmk) "KeyType descr = TypeZettelmarkup"
      | (url) "KeyType descr = TypeURL" | (other) "KeyType descr \<notin> {TypeID, TypeIDSet, TypeZettelmarkup, TypeURL}" by blast
    then show ?thesis
    proof cases
      case id
      show ?thesis using r id False c idxUpdateValue_refs [OF e, of v has "Inverse_of descr"] unfolding defs
        by (cases "Inverse_of descr = []") (simp_all add: nil)
    next
      case ids
      show ?thesis
        using r ids False c idxUpdateValues_refs [OF e, of "ListFromValue v" has "Inverse_of descr"] unfolding defs
        by (cases "Inverse_of descr = []") (simp_all add: nil)
    next
      case zmk
      show ?thesis using r zmk False e collected_inline [OF c, of "me_unicode env" "me_ParseMetadata env v"] by (simp add: defs)
    next
      case url
      show ?thesis using r url False e c collected_url [OF c, of v] by (auto simp: defs nil split: if_splits)
    next
      case other
      have i: "gm_inv (cd_words cData)" using c by (simp add: collected_def cd_ok_def)
      have t: "(zi', cData') = (if IsSet (KeyType descr) then
            (zi, cData\<lparr>cd_words := fold (idxCollectMetaValue (me_unicode env)) (ListFromValue v) (cd_words cData)\<rparr>)
          else (zi, cData\<lparr>cd_words := idxCollectMetaValue (me_unicode env) v (cd_words cData)\<rparr>))"
        using r other by (cases "KeyType descr") auto
      show ?thesis
        using t False other e collected_words [OF c value_words_inv [OF i] value_words_added, of "me_unicode env" v]
          collected_words [OF c, of "fold (idxCollectMetaValue (me_unicode env)) (ListFromValue v) (cd_words cData)"]
          values_words_added [OF i, of "me_unicode env" "ListFromValue v"]
        by (auto simp: defs nil split: if_splits)
    qed
  qed
qed

lemma collect_pairs_sets:
  assumes "entry_refs m b d zi" and "collected cData refs ws" and "fold (collect_pair env has) ps (zi, cData) = (zi', cData')"
  shows "entry_refs m (b \<union> {r \<in> \<Union> (pair_links env ` set ps). has r}) (d \<union> {r \<in> \<Union> (pair_zids env ` set ps). \<not> has r}) zi' \<and>
    collected cData' (refs \<union> (\<Union>p \<in> set ps. nodes_zids (pair_nodes env p))) (ws \<union> \<Union> (pair_words env ` set ps))"
  using assms
proof (induction ps arbitrary: zi cData b d refs ws)
  case (Cons p ps)
  obtain zi1 cd1 where 1: "collect_pair env has p (zi, cData) = (zi1, cd1)" by (rule prod.exhaust)
  have s: "{r \<in> \<Union> (pair_links env ` set (p # ps)). has r} = {r \<in> pair_links env p. has r} \<union> {r \<in> \<Union> (pair_links env ` set ps). has r}"
    "{r \<in> \<Union> (pair_zids env ` set (p # ps)). \<not> has r} = {r \<in> pair_zids env p. \<not> has r} \<union> {r \<in> \<Union> (pair_zids env ` set ps). \<not> has r}"
    by auto
  note step = collect_pair_sets [OF Cons.prems(1,2) 1]
  have f: "fold (collect_pair env has) ps (zi1, cd1) = (zi', cData')" using Cons.prems(3) 1 by simp
  show ?case
    using Cons.IH [OF step [THEN conjunct1] step [THEN conjunct2] f] unfolding s by (simp add: Un_assoc)
qed simp

lemma process_refs:
  assumes "entry_refs m b d zi"
  shows "entry_refs m (b \<union> {r \<in> set rs. has r}) (d \<union> {r \<in> set rs. \<not> has r})
    (fold (\<lambda>ref zi. if has ref then AddBackRef zi ref else AddDeadRef zi ref) rs zi)"
  using assms
proof (induction rs arbitrary: b d zi)
  case (Cons r rs)
  have "b \<union> {x \<in> set (r # rs). has x} = (if has r then insert r b else b) \<union> {x \<in> set rs. has x}"
    "d \<union> {x \<in> set (r # rs). \<not> has x} = (if has r then d else insert r d) \<union> {x \<in> set rs. \<not> has x}" by auto
  then show ?case
    using Cons.IH [OF AddBackRef_refs [OF Cons.prems]] Cons.IH [OF AddDeadRef_refs [OF Cons.prems]] by (cases "has r") simp_all
qed simp

lemma zettel_data_collected:
  "collected (zettel_data env zt) (nodes_zids (content_nodes env zt)) (nodes_words (me_unicode env) (content_nodes env zt))"
  using collectZettelIndexData_sets [OF cd_initialize_ok(1), of "me_unicode env" "me_ParseZettel env zt"] cd_initialize_ok(2)
    cd_initialize_ok(1)
  by (simp add: collected_def cd_sets_def zettel_data_def content_nodes_def nodes_sets_Nil)

text \<open>The entry of a zettel has exactly its references, split by whether the zettel exists, and its words.\<close>

lemma zettel_index_exact:
  shows "entry_refs (Z_Meta zt) {r \<in> zettel_links env zt. has r} {r \<in> zettel_refs env zt. \<not> has r} (zettel_index env has zt) \<and>
    set (gm_keys (zi_words (zettel_index env has zt))) = zettel_words env zt"
proof -
  obtain zi cd where c: "idxCollectFromMeta env has (Z_Meta zt) (NewZettelIndex (Z_Meta zt), zettel_data env zt) = (zi, cd)"
    by (rule prod.exhaust)
  let ?ps = "zettel_pairs env zt"
  note s = collect_pairs_sets [OF entry_refs_New zettel_data_collected c [unfolded idxCollectFromMeta_def, folded zettel_pairs_def]]
  let ?refs = "nodes_zids (content_nodes env zt) \<union> (\<Union>p \<in> set ?ps. nodes_zids (pair_nodes env p))"
  have rs: "set_inv (cd_refs cd)" "elems (cd_refs cd) = ?refs"
    and ws: "set (gm_keys (cd_words cd)) = zettel_words env zt"
    using s by (simp_all add: collected_def cd_ok_def zettel_words_def)
  define zi' where "zi' = Set_ForEach (cd_refs cd) (\<lambda>ref zi. if has ref then AddBackRef zi ref else AddDeadRef zi ref) zi"
  have "entry_refs (Z_Meta zt) ({r \<in> \<Union> (pair_links env ` set ?ps). has r} \<union> {r \<in> ?refs. has r})
      ({r \<in> \<Union> (pair_zids env ` set ?ps). \<not> has r} \<union> {r \<in> ?refs. \<not> has r}) zi'"
  proof -
    obtain rs where rs': "set rs = ?refs" "zi' = fold (\<lambda>ref zi. if has ref then AddBackRef zi ref else AddDeadRef zi ref) rs zi"
    proof (cases "cd_refs cd")
      case None
      then show ?thesis using that [of "[]"] rs(2) unfolding zi'_def by (simp add: Set_ForEach_def)
    next
      case (Some seq)
      then show ?thesis using that [of seq] rs(2) unfolding zi'_def by (simp add: Set_ForEach_def)
    qed
    show ?thesis unfolding rs'(2) rs'(1) [symmetric] by (rule process_refs [OF s [THEN conjunct1, unfolded Un_empty_left]])
  qed
  moreover have "{r \<in> \<Union> (pair_links env ` set ?ps). has r} \<union> {r \<in> ?refs. has r} = {r \<in> zettel_links env zt. has r}"
    by (auto simp: zettel_links_def)
  moreover have "pair_links env p \<subseteq> pair_zids env p" for p by (simp add: pair_links_def)
  then have "{r \<in> \<Union> (pair_zids env ` set ?ps). \<not> has r} \<union> {r \<in> ?refs. \<not> has r} = {r \<in> zettel_refs env zt. \<not> has r}"
    by (auto simp: zettel_refs_def zettel_links_def)
  ultimately have "entry_refs (Z_Meta zt) {r \<in> zettel_links env zt. has r} {r \<in> zettel_refs env zt. \<not> has r} zi'" by simp
  moreover have "zettel_index env has zt = SetUrls (SetWords zi' (cd_words cd)) (cd_urls cd)"
    by (simp add: zettel_index_def c idxProcessData_def zi'_def)
  ultimately show ?thesis using ws by (auto simp: entry_refs_def zidx_ok_def SetUrls_def SetWords_def)
qed

section \<open>An update of the index\<close>

text \<open>Queueing zettel changes nothing but the queue.\<close>

lemma idxCheckZettel_same:
  "idxCheckZettel env zids mgr = Some mgr' \<Longrightarrow> \<exists>ar. mgr' = mgr\<lparr>mgr_idxAr := ar\<rparr>"
proof (induction zids arbitrary: mgr)
  case Nil
  then have "mgr' = mgr\<lparr>mgr_idxAr := mgr_idxAr mgr\<rparr>" by simp
  then show ?case by blast
next
  case (Cons zid zids)
  then obtain ar where "idxCheckZettel env zids (mgr\<lparr>mgr_idxAr := ar\<rparr>) = Some mgr'" by (auto split: option.splits)
  from Cons.IH [OF this] show ?case by auto
qed

lemma idxUpdateZettel_store:
  assumes "idxUpdateZettel env ctx zt mgr = Some mgr'"
  shows "\<exists>ar. mgr' = mgr\<lparr>mgr_idxStore := fst (UpdateReferences (me_zsc env) (mgr_idxStore mgr)
    (zettel_index env (mgr_hasZettel ctx mgr) zt)), mgr_idxAr := ar\<rparr>"
  using assms idxCheckZettel_same by (fastforce simp: idxUpdateZettel_def split: prod.splits)

lemma idxDeleteZettel_store:
  assumes "idxDeleteZettel env zid mgr = Some mgr'"
  shows "\<exists>ar. mgr' = mgr\<lparr>mgr_idxStore := fst (DeleteZettel (mgr_idxStore mgr) zid), mgr_idxAr := ar\<rparr>"
  using assms idxCheckZettel_same by (fastforce simp: idxDeleteZettel_def split: prod.splits)

lemma idx_inv:
  assumes "ms_inv (mgr_idxStore mgr)"
  shows "idxUpdateZettel env ctx zt mgr = Some mgr' \<Longrightarrow> ms_inv (mgr_idxStore mgr')"
    and "idxDeleteZettel env zid mgr = Some mgr' \<Longrightarrow> ms_inv (mgr_idxStore mgr')"
proof -
  have ok: "zidx_ok (zettel_index env (mgr_hasZettel ctx mgr) zt)" using zettel_index_exact by (simp add: entry_refs_def)
  show "idxUpdateZettel env ctx zt mgr = Some mgr' \<Longrightarrow> ms_inv (mgr_idxStore mgr')"
    using idxUpdateZettel_store UpdateReferences_inv [OF assms ok surjective_pairing] by fastforce
  show "idxDeleteZettel env zid mgr = Some mgr' \<Longrightarrow> ms_inv (mgr_idxStore mgr')"
    using idxDeleteZettel_store DeleteZettel_inv [OF assms surjective_pairing] by fastforce
qed

text \<open>
  After the indexer has worked on a zettel, the index has for it exactly the references to existing zettel
  that its metadata (keys without inverse) and its syntax tree contain, as dead references exactly the identifiers without a
  zettel, and its words; a search for one of these words finds the zettel. Other zettel keep their words.
\<close>

lemma idxUpdateZettel_exact:
  assumes "ms_inv (mgr_idxStore mgr)" and "idxUpdateZettel env ctx zt mgr = Some mgr'"
    and "m_Zid (Z_Meta zt) = zid" and "y \<noteq> zid"
  shows "fwd (mgr_idxStore mgr') zid = {r \<in> zettel_links env zt. mgr_hasZettel ctx mgr r} \<and>
    elems (zd_dead (entry_at (mgr_idxStore mgr') zid)) = {r \<in> zettel_refs env zt. \<not> mgr_hasZettel ctx mgr r} \<and>
    (zid \<in> refs_of (ms_words (mgr_idxStore mgr')) w \<longleftrightarrow> w \<in> zettel_words env zt) \<and>
    (w \<in> zettel_words env zt \<longrightarrow> zid \<in> elems (SearchEqual (mgr_idxStore mgr') w)) \<and>
    (y \<in> refs_of (ms_words (mgr_idxStore mgr')) w \<longleftrightarrow> y \<in> refs_of (ms_words (mgr_idxStore mgr)) w)"
proof -
  let ?zx = "zettel_index env (mgr_hasZettel ctx mgr) zt" and ?ms' = "mgr_idxStore mgr'"
  note x = zettel_index_exact [of zt env "mgr_hasZettel ctx mgr", unfolded entry_refs_def]
  have ok: "zidx_ok ?zx" and z: "zi_Zid ?zx = zid" using x assms(3) by (auto simp: zidx_ok_def)
  obtain ms' tc where u: "UpdateReferences (me_zsc env) (mgr_idxStore mgr) ?zx = (ms', tc)" by (rule prod.exhaust)
  have ms': "?ms' = ms'" using idxUpdateZettel_store [OF assms(2)] u by auto
  have "y \<noteq> zi_Zid ?zx" using z assms(4) by simp
  note r = update_records [OF assms(1) ok u this, of w, unfolded z]
  have words: "zid \<in> refs_of (ms_words ?ms') w \<longleftrightarrow> w \<in> zettel_words env zt" using r x by (simp add: ms')
  have inv: "ms_inv ?ms'" by (rule idx_inv(1) [OF assms(1,2)])
  then have "w \<in> zettel_words env zt \<longrightarrow> w \<in> set (zd_words (entry_at ?ms' zid))"
    using words by (simp add: ms_inv_def consistent_def)
  then have "w \<in> zettel_words env zt \<longrightarrow> zid \<in> elems (SearchEqual ?ms' w)"
    using SearchEqual_correct [OF inv, of w] by (auto simp: search_spec_def)
  then show ?thesis using r x words by (simp add: ms')
qed

end
