(* ===== verification/ManagerRun.thy ===== *)
theory ManagerRun
  imports Indexer
begin

text \<open>
  The operations of the box manager that change boxes (\<open>box/manager/box.go\<close>), its notifications, and its start and
  stop (\<open>box/manager/manager.go\<close>).
\<close>

section \<open>Writing\<close>

definition mgr_CanCreateZettel :: "ctx \<Rightarrow> 's manager \<Rightarrow> bool" where
  "mgr_CanCreateZettel ctx mgr \<longleftrightarrow>
     (if checkContinue mgr ctx \<noteq> None then False
      else case write_box mgr of Some bx \<Rightarrow> wb_CanCreateZettel bx (mgr_sys mgr) | None \<Rightarrow> False)"

definition cleanMetaProperties :: "zsc \<Rightarrow> strset \<Rightarrow> meta \<Rightarrow> meta" where
  "cleanMetaProperties z propertyKeys m =
     (let result = meta_Clone m in
      fold (\<lambda>(key, value) result. if strset_Has propertyKeys key then meta_Delete z result key else result)
        (ComputedPairsRest z result) result)"

definition clean_zettel :: "mgrEnv \<Rightarrow> 's manager \<Rightarrow> zettel \<Rightarrow> zettel" where
  "clean_zettel env mgr zt = zt\<lparr>Z_Meta := cleanMetaProperties (me_zsc env) (mgr_propertyKeys mgr) (Z_Meta zt)\<rparr>"

definition mgr_CanUpdateZettel :: "ctx \<Rightarrow> zettel \<Rightarrow> 's manager \<Rightarrow> bool" where
  "mgr_CanUpdateZettel ctx zt mgr \<longleftrightarrow>
     (if checkContinue mgr ctx \<noteq> None then False
      else case write_box mgr of Some bx \<Rightarrow> wb_CanUpdateZettel bx zt (mgr_sys mgr) | None \<Rightarrow> False)"

definition mgr_UpdateZettel :: "mgrEnv \<Rightarrow> ctx \<Rightarrow> zettel \<Rightarrow> 's manager \<Rightarrow> ('s manager \<times> box_error option) option" where
  "mgr_UpdateZettel env ctx zt mgr =
     (case checkContinue mgr ctx of
        Some err \<Rightarrow> Some (mgr, Some err)
      | None \<Rightarrow>
          (case write_box mgr of
             None \<Rightarrow> Some (mgr, Some ErrReadOnly)
           | Some bx \<Rightarrow>
               let zt = clean_zettel env mgr zt in
               (case wb_UpdateZettel bx zt (mgr_sys mgr) of
                  None \<Rightarrow> None
                | Some (s, Some err) \<Rightarrow> Some (mgr\<lparr>mgr_sys := s\<rparr>, Some err)
                | Some (s, None) \<Rightarrow> map_option (\<lambda>mgr. (mgr, None)) (idxUpdateZettel env ctx zt (mgr\<lparr>mgr_sys := s\<rparr>)))))"

text \<open>The mapping zettel gets the printed mapping after a change of the mapping.\<close>

definition write_mapping :: "mgrEnv \<Rightarrow> ctx \<Rightarrow> zettel \<Rightarrow> 's manager \<Rightarrow> ('s manager \<times> box_error option) option" where
  "write_mapping env ctx mappingZettel mgr =
     Option.bind (AsBytes (mgr_zidMapper mgr)) (\<lambda>bs.
       mgr_UpdateZettel env ctx (mappingZettel\<lparr>Z_Content := NewContent bs\<rparr>) mgr)"

definition background :: ctx where
  "background = \<lparr>ctx_Err = None, ctx_noEnrich = False\<rparr>"

definition createMapping :: "mgrEnv \<Rightarrow> ctx \<Rightarrow> zid \<Rightarrow> 's manager \<Rightarrow> ('s manager \<times> box_error option) option" where
  "createMapping env ctx zidO mgr =
     (case mgr_getZettel env ctx (me_MappingZid env) mgr of
        None \<Rightarrow> None
      | Some (mgr, Inl err) \<Rightarrow> Some (mgr, Some err)
      | Some (mgr, Inr mappingZettel) \<Rightarrow>
          (case GetZidN (mgr_zidMapper mgr) zidO of
             None \<Rightarrow> None
           | Some (zidN, zm) \<Rightarrow> write_mapping env ctx mappingZettel (mgr\<lparr>mgr_zidMapper := zm\<rparr>)))"

definition deleteMapping :: "mgrEnv \<Rightarrow> ctx \<Rightarrow> zid \<Rightarrow> 's manager \<Rightarrow> ('s manager \<times> box_error option) option" where
  "deleteMapping env ctx zidO mgr =
     (case mgr_getZettel env ctx (me_MappingZid env) mgr of
        None \<Rightarrow> None
      | Some (mgr, Inl err) \<Rightarrow> Some (mgr, Some err)
      | Some (mgr, Inr mappingZettel) \<Rightarrow>
          write_mapping env ctx mappingZettel (mgr\<lparr>mgr_zidMapper := DeleteO (mgr_zidMapper mgr) zidO\<rparr>))"

text \<open>The result is the identifier and an error: a zettel may be created although its mapping cannot be stored.\<close>

definition mgr_CreateZettel :: "mgrEnv \<Rightarrow> ctx \<Rightarrow> zettel \<Rightarrow> 's manager \<Rightarrow> ('s manager \<times> zid \<times> box_error option) option" where
  "mgr_CreateZettel env ctx ztl mgr =
     (case checkContinue mgr ctx of
        Some err \<Rightarrow> Some (mgr, Invalid, Some err)
      | None \<Rightarrow>
          (case write_box mgr of
             None \<Rightarrow> Some (mgr, Invalid, Some ErrReadOnly)
           | Some bx \<Rightarrow>
               (case wb_CreateZettel bx (clean_zettel env mgr ztl) (mgr_sys mgr) of
                  None \<Rightarrow> None
                | Some (s, ztl, Inl err) \<Rightarrow> Some (mgr\<lparr>mgr_sys := s\<rparr>, Invalid, Some err)
                | Some (s, ztl, Inr zidO) \<Rightarrow>
                    (case idxUpdateZettel env ctx ztl (mgr\<lparr>mgr_sys := s\<rparr>) of
                       None \<Rightarrow> None
                     | Some mgr \<Rightarrow> map_option (\<lambda>(mgr, err). (mgr, zidO, err)) (createMapping env ctx zidO mgr)))))"

definition mgr_CanDeleteZettel :: "ctx \<Rightarrow> zid \<Rightarrow> 's manager \<Rightarrow> bool" where
  "mgr_CanDeleteZettel ctx zid mgr \<longleftrightarrow>
     (if checkContinue mgr ctx \<noteq> None then False else list_ex (\<lambda>p. xb_CanDeleteZettel p zid (mgr_sys mgr)) (mgr_boxes mgr))"

fun delete_loop :: "mgrEnv \<Rightarrow> ctx \<Rightarrow> zid \<Rightarrow> 's managedBox list \<Rightarrow> 's manager \<Rightarrow> ('s manager \<times> box_error option) option" where
  "delete_loop env ctx zidO [] mgr = Some (mgr, Some (ErrZettelNotFound zidO))"
| "delete_loop env ctx zidO (p # ps) mgr =
     (case xb_DeleteZettel p zidO (mgr_sys mgr) of
        (s, None) \<Rightarrow>
          (case idxDeleteZettel env zidO (mgr\<lparr>mgr_sys := s\<rparr>) of
             None \<Rightarrow> None | Some mgr \<Rightarrow> deleteMapping env ctx zidO mgr)
      | (s, Some err) \<Rightarrow>
          if \<not> is_not_found err \<and> err \<noteq> ErrReadOnly then Some (mgr\<lparr>mgr_sys := s\<rparr>, Some err)
          else delete_loop env ctx zidO ps (mgr\<lparr>mgr_sys := s\<rparr>))"

definition mgr_DeleteZettel :: "mgrEnv \<Rightarrow> ctx \<Rightarrow> zid \<Rightarrow> 's manager \<Rightarrow> ('s manager \<times> box_error option) option" where
  "mgr_DeleteZettel env ctx zidO mgr =
     (case checkContinue mgr ctx of
        Some err \<Rightarrow> Some (mgr, Some err)
      | None \<Rightarrow> delete_loop env ctx zidO (mgr_boxes mgr) mgr)"

section \<open>Notifications\<close>

text \<open>Times are milliseconds.\<close>

type_synonym destutterCache = "(zid, nat \<times> UpdateReason) gomap"

definition ignoreUpdate :: "destutterCache \<Rightarrow> nat \<Rightarrow> UpdateReason \<Rightarrow> zid \<Rightarrow> destutterCache \<times> bool" where
  "ignoreUpdate cache now reason zid =
     (if (case gm_get cache zid of Some (deadAt, r) \<Rightarrow> r = reason \<and> now < deadAt | None \<Rightarrow> False)
      then (cache, True) else (gm_put cache zid (now + 500, reason), False))"

definition idxEnqueue :: "mgrEnv \<Rightarrow> UpdateReason \<Rightarrow> zid \<Rightarrow> bool \<Rightarrow> 's manager \<Rightarrow> 's manager option" where
  "idxEnqueue env reason zidO isStarted mgr =
     (let enqueue = (\<lambda>mgr. map_option (\<lambda>ar. mgr\<lparr>mgr_idxAr := ar, mgr_idxReady := True\<rparr>)
            (EnqueueZettel (me_MappingZid env) (mgr_idxAr mgr) zidO)) in
      case reason of
        OnReady \<Rightarrow> Some mgr
      | OnReload \<Rightarrow> Some (mgr\<lparr>mgr_idxAr := Reset (mgr_idxAr mgr), mgr_idxReady := True\<rparr>)
      | OnZettel \<Rightarrow>
          if isStarted \<and> zidO \<noteq> me_MappingZid env then
            (case LookupZidN (mgr_zidMapper mgr) zidO of
               None \<Rightarrow> None
             | Some (Some n) \<Rightarrow> enqueue mgr
             | Some None \<Rightarrow>
                 (case createMapping env background zidO mgr of None \<Rightarrow> None | Some (mgr, err) \<Rightarrow> enqueue mgr))
          else enqueue mgr
      | OnDelete \<Rightarrow>
          if isStarted \<and> zidO \<noteq> me_MappingZid env then
            (case deleteMapping env background zidO mgr of None \<Rightarrow> None | Some (mgr, err) \<Rightarrow> enqueue mgr)
          else enqueue mgr)"

text \<open>
  The loop of the notifier for one message that was received at the time \<open>now\<close>: the new state, the cache, and the
  time of the last event.
\<close>

definition notifier_step :: "mgrEnv \<Rightarrow> nat \<Rightarrow> UpdateInfo \<Rightarrow> 's manager \<times> destutterCache \<times> nat \<Rightarrow>
    ('s manager \<times> destutterCache \<times> nat) option" where
  "notifier_step env now ci st =
     (case st of (mgr, cache, tsLastEvent) \<Rightarrow>
        let cache = (if 1 < length cache \<and> tsLastEvent + 10000 < now then [] else cache) in
        case ignoreUpdate cache now (ui_Reason ci) (ui_Zid ci) of
          (cache, True) \<Rightarrow> Some (mgr, cache, now)
        | (cache, False) \<Rightarrow>
            let isStarted = (mgr_state mgr = StartStateStarted) in
            map_option (\<lambda>mgr. (if isStarted then mgr\<lparr>mgr_notified := mgr_notified mgr @ [ci]\<rparr> else mgr, cache, now))
              (idxEnqueue env (ui_Reason ci) (ui_Zid ci) isStarted mgr))"

section \<open>Start and stop\<close>

text \<open>
  Boxes start from the last to the first. If one fails, those that were started are stopped, in their order.
  \<open>later\<close> are the boxes after the current one.
\<close>

definition stop_boxes :: "'s managedBox list \<Rightarrow> 's \<Rightarrow> 's" where
  "stop_boxes = fold (\<lambda>bx s. case xb_startstop bx of Some ss \<Rightarrow> ss_Stop ss s | None \<Rightarrow> s)"

fun start_loop :: "'s managedBox list \<Rightarrow> 's managedBox list \<Rightarrow> 's \<Rightarrow> 's \<times> box_error option" where
  "start_loop [] later s = (s, None)"
| "start_loop (bx # rest) later s =
     (case xb_startstop bx of
        None \<Rightarrow> start_loop rest (bx # later) s
      | Some ssi \<Rightarrow>
          (case ss_Start ssi s of
             (s, None) \<Rightarrow> start_loop rest (bx # later) s
           | (s, Some err) \<Rightarrow> (stop_boxes later s, Some err)))"

definition allBoxesStarted :: "'s manager \<Rightarrow> bool" where
  "allBoxesStarted mgr =
     list_all (\<lambda>bx. case xb_startstop bx of Some b \<Rightarrow> ss_State b (mgr_sys mgr) = StartStateStarted | None \<Rightarrow> True)
       (mgr_boxes mgr)"

text \<open>Reading the stored mapping, and storing the current one.\<close>

definition setupIdentifierMapping :: "mgrEnv \<Rightarrow> 's manager \<Rightarrow> 's manager option" where
  "setupIdentifierMapping env mgr =
     (case mgr_getZettel env background (me_MappingZid env) mgr of
        None \<Rightarrow> None
      | Some (mgr, Inl err) \<Rightarrow> Some mgr
      | Some (mgr, Inr zt) \<Rightarrow>
          if isBinary (Z_Content zt) then Some mgr
          else
            let content = me_TrimSpace env (c_data (Z_Content zt));
                zt = zt\<lparr>Z_Content := (Z_Content zt)\<lparr>c_data := content\<rparr>\<rparr>;
                mgr = mgr\<lparr>mgr_zidMapper := fst (parseAndUpdate (mgr_zidMapper mgr) (me_parseMapping env content))\<rparr>
            in (case mgr_fetchZids mgr of
                  Inl err \<Rightarrow> Some mgr
                | Inr zids \<Rightarrow>
                    (case FetchAsBytes (mgr_zidMapper mgr) zids of
                       Some (zm, Some mapping) \<Rightarrow>
                         (let mgr = mgr\<lparr>mgr_zidMapper := zm\<rparr> in
                          if content \<noteq> mapping then
                            map_option fst (mgr_UpdateZettel env background (zt\<lparr>Z_Content := NewContent mapping\<rparr>) mgr)
                          else Some mgr)
                     | _ \<Rightarrow> None)))"

text \<open>
  \<open>wait\<close> is what happens to the boxes while the manager waits for them: a box may start in the background. If they never
  get started, the manager waits for ever, which is \<open>None\<close>, too.
\<close>

definition mgr_Start :: "mgrEnv \<Rightarrow> ('s \<Rightarrow> 's) \<Rightarrow> 's manager \<Rightarrow> ('s manager \<times> box_error option) option" where
  "mgr_Start env wait mgr =
     (if mgr_state mgr \<noteq> StartStateStopped then Some (mgr, Some ErrStarted)
      else case start_loop (rev (mgr_boxes mgr)) [] (mgr_sys mgr) of
          (s, Some err) \<Rightarrow> Some (mgr\<lparr>mgr_state := StartStateStopped, mgr_sys := s\<rparr>, Some err)
        | (s, None) \<Rightarrow>
            let mgr = mgr\<lparr>mgr_state := StartStateStarting, mgr_sys := wait s, mgr_idxAr := Reset (mgr_idxAr mgr)\<rparr> in
            if \<not> allBoxesStarted mgr then None
            else map_option (\<lambda>mgr. (mgr\<lparr>mgr_state := StartStateStarted,
                mgr_notified := mgr_notified mgr @ [\<lparr>ui_Reason = OnReady, ui_Zid = Invalid\<rparr>]\<rparr>, None))
              (setupIdentifierMapping env mgr))"

definition mgr_Stop :: "ctx \<Rightarrow> 's manager \<Rightarrow> 's manager" where
  "mgr_Stop ctx mgr =
     (if checkContinue mgr ctx \<noteq> None then mgr
      else mgr\<lparr>mgr_sys := stop_boxes (mgr_boxes mgr) (mgr_sys mgr), mgr_state := StartStateStopped\<rparr>)"

definition mgr_Refresh :: "ctx \<Rightarrow> 's manager \<Rightarrow> 's manager \<times> box_error option" where
  "mgr_Refresh ctx mgr =
     (case checkContinue mgr ctx of
        Some err \<Rightarrow> (mgr, Some err)
      | None \<Rightarrow>
          (mgr\<lparr>mgr_infos := mgr_infos mgr @ [\<lparr>ui_Reason = OnReload, ui_Zid = Invalid\<rparr>],
               mgr_sys := fold (\<lambda>bx s. case xb_Refresh bx of Some r \<Rightarrow> r s | None \<Rightarrow> s) (mgr_boxes mgr) (mgr_sys mgr)\<rparr>, None))"

definition mgr_ReIndex :: "ctx \<Rightarrow> zid \<Rightarrow> 's manager \<Rightarrow> 's manager \<times> box_error option" where
  "mgr_ReIndex ctx zid mgr =
     (case checkContinue mgr ctx of
        Some err \<Rightarrow> (mgr, Some err)
      | None \<Rightarrow> (mgr\<lparr>mgr_infos := mgr_infos mgr @ [\<lparr>ui_Reason = OnZettel, ui_Zid = zid\<rparr>]\<rparr>, None))"

text \<open>The statistics: read-only, boxes, zettel, and those of the index.\<close>

definition mgr_ReadStats :: "'s manager \<Rightarrow> bool \<times> nat \<times> nat \<times> nat \<times> (nat \<times> nat \<times> nat \<times> nat)" where
  "mgr_ReadStats mgr =
     (let subStats = map (\<lambda>p. xb_ReadStats p (mgr_sys mgr)) (mgr_boxes mgr) in
      (list_all fst subStats, length (mgr_boxes mgr), sum_list (map snd subStats), mgr_idxSinceReload mgr,
       ReadStats (mgr_idxStore mgr)))"

end
