(* ===== verification/MemManaged.thy ===== *)
theory MemManaged
  imports ManagerLaws ManagerRun IndexerLaws
begin

text \<open>
  A manager over in-memory boxes (\<open>box/membox/membox.go\<close>): these boxes meet the contract that the manager relies on, so
  what it reads and selects is what its boxes contain.
\<close>

section \<open>In-memory boxes as managed boxes\<close>

text \<open>Box number \<open>i\<close> of a list of in-memory boxes; \<open>now\<close> is the clock.\<close>

definition mem_managed :: "string \<Rightarrow> (nat \<Rightarrow> bool \<Rightarrow> string) \<Rightarrow> nat \<Rightarrow> memBox list managedBox" where
  "mem_managed loc now i =
     \<lparr>xb_Location = loc,
      xb_GetZettel = \<lambda>zid s. mem_GetZettel (s ! i) zid,
      xb_HasZettel = \<lambda>zid s. mem_HasZettel (s ! i) zid,
      xb_CanDeleteZettel = \<lambda>zid s. mem_CanDeleteZettel (s ! i) zid,
      xb_DeleteZettel = \<lambda>zid s. (case mem_DeleteZettel (s ! i) zid of (mb, err) \<Rightarrow> (s[i := mb], err)),
      xb_ApplyZid = \<lambda>c s. (mem_ApplyZid (s ! i) (\<lambda>zid zids. zids @ [zid]) c [], None),
      xb_ApplyMeta = \<lambda>c s. (mem_ApplyMeta (s ! i) (\<lambda>m. m) (\<lambda>m ms. ms @ [m]) c [], None),
      xb_ReadStats = \<lambda>s. (False, length (mem_map (s ! i))),
      xb_write = Some
        \<lparr>wb_CanCreateZettel = \<lambda>s. mem_CanCreateZettel (s ! i),
         wb_CreateZettel = \<lambda>zt s. map_option (\<lambda>(mb, res). (s[i := mb], zt, res)) (mem_CreateZettel now (s ! i) zt),
         wb_CanUpdateZettel = \<lambda>zt s. mem_CanUpdateZettel (s ! i) zt,
         wb_UpdateZettel = \<lambda>zt s. map_option (\<lambda>(mb, res). (s[i := mb], res)) (mem_UpdateZettel (s ! i) zt)\<rparr>,
      xb_startstop = Some
        \<lparr>ss_State = \<lambda>s. if mb_zettel (s ! i) = None then StartStateStopped else StartStateStarted,
         ss_Start = \<lambda>s. (s[i := mem_Start (s ! i)], None),
         ss_Stop = \<lambda>s. s[i := mem_Stop (s ! i)]\<rparr>,
      xb_Refresh = None\<rparr>"

definition mem_boxes :: "(nat \<Rightarrow> string) \<Rightarrow> (nat \<Rightarrow> nat \<Rightarrow> bool \<Rightarrow> string) \<Rightarrow> nat \<Rightarrow> memBox list managedBox list" where
  "mem_boxes loc now n = map (\<lambda>i. mem_managed (loc i) (now i) i) [0..<n]"

definition mem_sys_ok :: "nat \<Rightarrow> memBox list \<Rightarrow> bool" where
  "mem_sys_ok n s \<longleftrightarrow> length s = n \<and> list_all (\<lambda>mb. mem_inv mb \<and> list_all IsValid (gm_keys (mem_map mb))) s"

lemma mem_map_zid: "mem_inv mb \<Longrightarrow> gm_get (mem_map mb) zid = Some zt \<Longrightarrow> gm_inv (mem_map mb) \<and> m_Zid (Z_Meta zt) = zid"
  by (auto simp: mem_inv_def mem_map_def split: option.splits)

lemma mem_ApplyZid_list: "mem_ApplyZid mb (\<lambda>zid zids. zids @ [zid]) c zs = zs @ filter c (gm_keys (mem_map mb))"
proof -
  have "fold (\<lambda>zid s. if c zid then s @ [zid] else s) ks zs = zs @ filter c ks" for ks
    by (induction ks arbitrary: zs) auto
  then show ?thesis by (simp add: mem_ApplyZid_def)
qed

lemma mem_ApplyMeta_list:
  "mem_ApplyMeta mb (\<lambda>m. m) (\<lambda>m ms. ms @ [m]) c ms =
    ms @ map (\<lambda>(zid, zt). meta_Clone (Z_Meta zt)) (filter (\<lambda>(zid, zt). c zid) (mem_map mb))"
proof -
  have "fold (\<lambda>(zid, zt) s. if c zid then s @ [meta_Clone (Z_Meta zt)] else s) ps ms =
      ms @ map (\<lambda>(zid, zt). meta_Clone (Z_Meta zt)) (filter (\<lambda>(zid, zt). c zid) ps)" for ps
    by (induction ps arbitrary: ms) auto
  then show ?thesis by (simp add: mem_ApplyMeta_def)
qed

interpretation mem: managed_boxes "mem_boxes loc now n" "mem_sys_ok n"
proof unfold_locales
  fix bx s zid zt err c
  assume "bx \<in> set (mem_boxes loc now n)" and s: "mem_sys_ok n s"
  then obtain i where i: "i < n" "bx = mem_managed (loc i) (now i) i" by (auto simp: mem_boxes_def)
  have mb: "mem_inv (s ! i)" using s i(1) by (simp add: mem_sys_ok_def list_all_length)
  show "xb_HasZettel bx zid s \<longleftrightarrow> (\<exists>zt. xb_GetZettel bx zid s = Inr zt)"
    by (auto simp: i mem_managed_def mem_HasZettel_def mem_GetZettel_def split: option.splits)
  show "xb_GetZettel bx zid s = Inr zt \<Longrightarrow> m_Zid (Z_Meta zt) = zid"
    using mem_map_zid [OF mb] by (auto simp: i mem_managed_def mem_GetZettel_def meta_Clone_def split: option.splits)
  have "list_all IsValid (gm_keys (mem_map (s ! i)))" using s i(1) by (simp add: mem_sys_ok_def list_all_length)
  then show "xb_HasZettel bx zid s \<Longrightarrow> IsValid zid"
    using gm_get_None_iff [of "mem_map (s ! i)" zid] by (auto simp: i mem_managed_def mem_HasZettel_def list_all_iff)
  show "xb_GetZettel bx zid s = Inl err \<Longrightarrow> is_not_found err"
    by (auto simp: i mem_managed_def mem_GetZettel_def is_not_found_def split: option.splits)
  show "snd (xb_ApplyZid bx c s) = None \<and> set (fst (xb_ApplyZid bx c s)) = {zid. c zid \<and> xb_HasZettel bx zid s}"
    by (auto simp: i mem_managed_def mem_HasZettel_def mem_ApplyZid_list gm_get_None_iff)
  have g: "(zid, zt) \<in> set (mem_map (s ! i)) \<longleftrightarrow> gm_get (mem_map (s ! i)) zid = Some zt" for zid zt
  proof -
    have "gm_inv (mem_map (s ! i))" using mb by (auto simp: mem_inv_def mem_map_def split: option.splits)
    then show ?thesis using gm_get_Some_iff by metis
  qed
  show "snd (xb_ApplyMeta bx c s) = None \<and>
      set (fst (xb_ApplyMeta bx c s)) = {Z_Meta zt | zt zid. c zid \<and> xb_GetZettel bx zid s = Inr zt}"
    by (force simp: i mem_managed_def mem_ApplyMeta_list mem_GetZettel_def g image_iff split: option.splits)
qed

section \<open>An example\<close>

text \<open>An environment, and a started manager with two boxes that both have the zettel 7.\<close>

definition doc_env :: mgrEnv where
  "doc_env = \<lparr>me_zsc = doc_zsc, me_unicode = ascii_unicode,
     me_urls = \<lparr>url_Parse = \<lambda>s. None, url_String = \<lambda>u. u_Path u, QueryPrefix = ''query:''\<rparr>,
     me_ParseZettel = \<lambda>zt. [ParaNode [TextNode (c_data (Z_Content zt))]],
     me_ParseMetadata = \<lambda>v. [TextNode v], me_parseMapping = \<lambda>s. [], me_TrimSpace = \<lambda>s. s, me_ValueTrue = ''true'',
     me_MappingZid = 25, me_DefaultHomeZid = 10000000000, me_text = \<lambda>s. s, me_rand = first_rand,
     me_visit = \<lambda>i j ks. ks, me_order = \<lambda>ms. ms\<rparr>"

definition doc_zettel :: "zid \<Rightarrow> string \<Rightarrow> zettel" where
  "doc_zettel zid role = \<lparr>Z_Meta = (meta_New zid)\<lparr>pairs := [(''role'', role)]\<rparr>, Z_Content = NewContent ''text''\<rparr>"

definition doc_mem :: "zettel list \<Rightarrow> memBox" where
  "doc_mem zts = \<lparr>mb_maxZettel = 127, mb_maxBytes = 65535, mb_zettel = Some (map (\<lambda>zt. (m_Zid (Z_Meta zt), zt)) zts),
     mb_curBytes = total_bytes (map (\<lambda>zt. (m_Zid (Z_Meta zt), zt)) zts), mb_notes = []\<rparr>"

definition doc_sys :: "memBox list" where
  "doc_sys = [doc_mem [doc_zettel 7 ''note'', doc_zettel 8 ''zettel''], doc_mem [doc_zettel 9 ''note'', doc_zettel 7 ''zettel'']]"

definition doc_mgr :: "memBox list manager" where
  "doc_mgr = \<lparr>mgr_state = StartStateStarted, mgr_boxes = mem_boxes (\<lambda>i. ''mem:'') (\<lambda>i k b. []) 2, mgr_sys = doc_sys,
     mgr_propertyKeys = [], mgr_zidMapper = the NewZidMapper, mgr_idxStore = mapstore_New, mgr_idxAr = newAnteroomQueue 1000,
     mgr_idxReady = False, mgr_infos = [], mgr_notified = [], mgr_idxSinceReload = 0\<rparr>"

lemma doc_sys_ok: "mem_sys_ok 2 doc_sys"
  by (simp add: mem_sys_ok_def doc_sys_def doc_mem_def mem_inv_def gm_inv_def doc_zettel_def meta_New_def)
     (code_simp)



text \<open>
  C35: A zettel is read from the first box that has it, with its enriched metadata, and a zettel that no box has is reported as
  missing; the manager has exactly the zettel that it can read, and it fetches the set of exactly these.
\<close>

theorem GetZettel_first_box:
  assumes "managed_boxes (mgr_boxes mgr) sys_ok" and "sys_ok (mgr_sys mgr)" and "checkContinue mgr ctx = None"
    and "mgr_GetZettel env ctx zid mgr = Some (mgr', res)"
  shows "(case first_zettel (mgr_boxes mgr) (mgr_sys mgr) zid 0 of
      None \<Rightarrow> res = Inl (ErrZettelNotFound zid) \<and> \<not> mgr_hasZettel ctx mgr zid
    | Some (i, zt) \<Rightarrow> \<exists>m. enriched env ctx mgr (int i + 1) (Z_Meta zt) = Some m \<and> res = Inr (zt\<lparr>Z_Meta := m\<rparr>) \<and>
        m_Zid m = zid \<and> mgr_hasZettel ctx mgr zid) \<and>
    (\<exists>zids. mgr_FetchZids ctx mgr = Inr zids \<and> elems zids = {zid. mgr_hasZettel ctx mgr zid})"
  by (rule managed_boxes.GetZettel_first' [OF assms(1,2) refl assms(3,4)])

lemma GetZettel_first_box_witness:
  "\<exists>mgr' zt. mgr_GetZettel doc_env background 7 doc_mgr = Some (mgr', Inr zt) \<and>
    (\<exists>zids. mgr_FetchZids background doc_mgr = Inr zids \<and> elems zids = {zid. mgr_hasZettel background doc_mgr zid})"
proof -
  have b: "mgr_boxes doc_mgr = mem_boxes (\<lambda>i. ''mem:'') (\<lambda>i k b. []) 2" "mgr_sys doc_mgr = doc_sys" by (simp_all add: doc_mgr_def)
  have c: "checkContinue doc_mgr background = None" by (simp add: checkContinue_def doc_mgr_def background_def)
  obtain zt where zt: "mem_GetZettel (doc_sys ! 0) 7 = Inr zt" "m_Zid (Z_Meta zt) = 7"
    by (simp add: doc_sys_def doc_mem_def mem_GetZettel_def mem_map_def doc_zettel_def meta_New_def meta_Clone_def)
  have "IsValid (m_Zid (Z_Meta zt))" unfolding zt(2) by code_simp
  then obtain m mgr' where e: "mgr_enrich doc_env background (int 0 + 1) (Z_Meta zt) doc_mgr = Some (m, mgr')"
    using mgr_enrich_total by blast
  have g: "mgr_GetZettel doc_env background 7 doc_mgr = Some (mgr', Inr (zt\<lparr>Z_Meta := m\<rparr>))"
    using e by (simp add: mgr_GetZettel_def c mgr_getZettel_def b mem_boxes_def mem_managed_def zt(1) numeral_2_eq_2)
  then show ?thesis
    using GetZettel_first_box [of doc_mgr "mem_sys_ok 2", OF _ _ c g] mem.managed_boxes_axioms doc_sys_ok unfolding b by blast
qed

end
