(* ===== verification/IndexerRun.thy ===== *)
theory IndexerRun
  imports MemManaged
begin

text \<open>
  The loop of the indexer over boxes that do not change: after a request to reload everything, and any number of rounds, a
  zettel is queued or the index says about it what it should; when the queue is empty, the index is complete.
\<close>

section \<open>The queue\<close>

text \<open>The zettel will be dequeued, or everything will be reloaded.\<close>

definition waits :: "reload_state \<times> zid set \<Rightarrow> zid \<Rightarrow> bool" where
  "waits q zid \<longleftrightarrow> zid \<in> snd q \<or> (case fst q of NoReload \<Rightarrow> False | ReloadRequested \<Rightarrow> True | Reloading zids \<Rightarrow> zid \<in> zids)"

lemma waits_enqueue: "waits q y \<Longrightarrow> waits (abs_enqueue mz q zid) y"
  by (cases q) (simp add: waits_def)

lemma waits_dequeue:
  "abs_dequeue q act zid fr q' \<Longrightarrow> waits q y \<Longrightarrow> act \<noteq> arReload \<Longrightarrow> act = arZettel \<and> (y = zid \<or> waits q' y)"
  by (cases "(q, act, zid, fr, q')" rule: abs_dequeue.cases)
     (auto simp: waits_def split: reload_state.splits if_splits)

lemma idxCheckZettel_queue:
  assumes "ar_inv (mgr_idxAr mgr)"
  shows "\<exists>ar. idxCheckZettel env zids mgr = Some (mgr\<lparr>mgr_idxAr := ar\<rparr>) \<and> ar_inv ar \<and>
    (\<forall>y. waits (abs_queue (mgr_idxAr mgr)) y \<longrightarrow> waits (abs_queue ar) y)"
  using assms
proof (induction zids arbitrary: mgr)
  case Nil
  have "idxCheckZettel env [] mgr = Some (mgr\<lparr>mgr_idxAr := mgr_idxAr mgr\<rparr>)" by simp
  then show ?case using Nil by blast
next
  case (Cons zid zids)
  obtain ar where e: "EnqueueZettel (me_MappingZid env) (mgr_idxAr mgr) zid = Some ar" "ar_inv ar"
      "abs_queue ar = abs_enqueue (me_MappingZid env) (abs_queue (mgr_idxAr mgr)) zid"
    using EnqueueZettel_refines [OF Cons.prems] by blast
  obtain ar' where c: "idxCheckZettel env zids (mgr\<lparr>mgr_idxAr := ar\<rparr>) = Some (mgr\<lparr>mgr_idxAr := ar'\<rparr>)" "ar_inv ar'"
      "\<forall>y. waits (abs_queue ar) y \<longrightarrow> waits (abs_queue ar') y"
    using Cons.IH [of "mgr\<lparr>mgr_idxAr := ar\<rparr>"] e(2) by auto
  have "idxCheckZettel env (zid # zids) mgr = Some (mgr\<lparr>mgr_idxAr := ar'\<rparr>)" using e(1) c(1) by simp
  moreover have "\<forall>y. waits (abs_queue (mgr_idxAr mgr)) y \<longrightarrow> waits (abs_queue ar') y"
    using c(3) e(3) waits_enqueue by metis
  ultimately show ?case using c(2) by blast
qed

section \<open>What the index says about a zettel\<close>

definition indexed :: "mgrEnv \<Rightarrow> (zid \<Rightarrow> bool) \<Rightarrow> mapStore \<Rightarrow> zid \<Rightarrow> zettel \<Rightarrow> bool" where
  "indexed env has ms zid zt \<longleftrightarrow>
     fwd ms zid = {r \<in> zettel_links env zt. has r} \<and>
     elems (zd_dead (entry_at ms zid)) = {r \<in> zettel_refs env zt. \<not> has r} \<and>
     (\<forall>w. zid \<in> refs_of (ms_words ms) w \<longleftrightarrow> w \<in> zettel_words env zt)"

lemma update_indexed:
  assumes "ms_inv ms" and "UpdateReferences z ms (zettel_index env has zt) = (ms', tc)"
  shows "ms_inv ms'" and "indexed env has ms' (m_Zid (Z_Meta zt)) zt"
    and "y \<noteq> m_Zid (Z_Meta zt) \<Longrightarrow> indexed env has ms y zt' \<Longrightarrow> indexed env has ms' y zt'"
proof -
  let ?zx = "zettel_index env has zt" and ?zid = "m_Zid (Z_Meta zt)"
  have x: "zidx_ok ?zx" "zi_Zid ?zx = ?zid" "elems (zi_backrefs ?zx) = {r \<in> zettel_links env zt. has r}"
      "elems (zi_deadrefs ?zx) = {r \<in> zettel_refs env zt. \<not> has r}" "fst ` set (zi_words ?zx) = zettel_words env zt"
    using zettel_index_exact [of zt env has] by (auto simp: entry_refs_def zidx_ok_def)
  show "ms_inv ms'" using UpdateReferences_inv [OF assms(1) x(1) assms(2)] by blast
  have so: "store_ok ms" using assms(1) by (simp add: ms_inv_def)
  note e = UpdateReferences_effect [OF so x(1) assms(2), THEN conjunct2, THEN conjunct2, unfolded update_effect_def Let_def x(2)]
  have d: "zd_dead (entry_at ms' v) = (if v = ?zid then zi_deadrefs ?zx else zd_dead (entry_at ms v))" for v using e by presburger
  have "(if ?zid = 0 then 1 else 0 :: zid) \<noteq> ?zid" by simp
  then obtain v where v: "v \<noteq> ?zid" by blast
  have r: "v \<noteq> ?zid \<Longrightarrow> fwd ms' ?zid = elems (zi_backrefs ?zx) \<and>
      (?zid \<in> refs_of (ms_words ms') w \<longleftrightarrow> w \<in> fst ` set (zi_words ?zx)) \<and>
      fwd ms' v = fwd ms v \<and> (v \<in> refs_of (ms_words ms') w \<longleftrightarrow> v \<in> refs_of (ms_words ms) w)" for v w
    using update_records [OF assms(1) x(1) assms(2), of v w, unfolded x(2)] by blast
  show "indexed env has ms' ?zid zt" using r [OF v] d x by (simp add: indexed_def)
  show "y \<noteq> ?zid \<Longrightarrow> indexed env has ms y zt' \<Longrightarrow> indexed env has ms' y zt'" using r d by (simp add: indexed_def)
qed

text \<open>A zettel that does not exist is removed from the index without a change for zettel that are indexed.\<close>

lemma delete_indexed:
  assumes "ms_inv ms" and "DeleteZettel ms zid = (ms', tc)" and "\<not> has zid" and "y \<noteq> zid" and "indexed env has ms y zt"
  shows "indexed env has ms' y zt"
proof (cases "in_idx ms zid")
  case False
  then have "ms' = ms" using assms(2) by (simp add: DeleteZettel_def doDeleteZettel_def in_idx_def)
  then show ?thesis using assms(5) by simp
next
  case True
  have so: "store_ok ms" "consistent ms" using assms(1) by (simp_all add: ms_inv_def)
  note e = DeleteZettel_effect [OF so(1) True assms(2), THEN conjunct2, THEN conjunct2, unfolded delete_effect_def Let_def]
  have "zd_dead (entry_at ms' y) = zd_dead (entry_at ms y)" using e assms(4) by metis
  moreover have "fwd ms' y = fwd ms y - (if y \<in> bwd ms zid then {zid} else {})" using e assms(4) by metis
  moreover have "zid \<notin> fwd ms y" using assms(3,5) by (simp add: indexed_def)
  moreover have "y \<in> refs_of (ms_words ms') w \<longleftrightarrow> y \<in> refs_of (ms_words ms) w" for w
  proof -
    have "refs_of (ms_words ms') w = refs_of (ms_words ms) w - (if w \<in> set (zd_words (entry_at ms zid)) then {zid} else {})"
      using e by blast
    then show ?thesis using assms(4) by simp
  qed
  ultimately show ?thesis using assms(5) by (simp add: indexed_def)
qed

section \<open>Managers that differ in their index only\<close>

definition same_boxes :: "'s manager \<Rightarrow> 's manager \<Rightarrow> bool" where
  "same_boxes a b \<longleftrightarrow> mgr_boxes b = mgr_boxes a \<and> mgr_sys b = mgr_sys a \<and> mgr_state b = mgr_state a \<and> mgr_zidMapper b = mgr_zidMapper a"

lemma same_boxes_has: "same_boxes a b \<Longrightarrow> checkContinue b ctx = checkContinue a ctx \<and> mgr_hasZettel ctx b = mgr_hasZettel ctx a"
proof -
  assume s: "same_boxes a b"
  then have c: "checkContinue b ctx = checkContinue a ctx" by (simp add: same_boxes_def checkContinue_def)
  moreover have "mgr_hasZettel ctx b zid = mgr_hasZettel ctx a zid" for zid using s c by (simp add: same_boxes_def mgr_hasZettel_def)
  ultimately show ?thesis by blast
qed

lemma enrich_not:
  assumes "ctx_noEnrich ctx" and "mgr_enrich env ctx n m mgr = Some (m', mgr')"
  shows "mgr' = mgr \<and> (same_boxes mgr other \<longrightarrow> mgr_enrich env ctx n m other = Some (m', other))"
  using assms by (auto simp: mgr_enrich_def mgr_Enrich_def DoEnrich_def Let_def same_boxes_def split: option.splits)

lemma get_loop_not:
  assumes "ctx_noEnrich ctx" and "get_loop env ctx zid i ps mgr = Some (mgr', res)"
  shows "mgr' = mgr \<and> (same_boxes mgr other \<longrightarrow> get_loop env ctx zid i ps other = Some (other, res))"
  using assms(2)
proof (induction ps arbitrary: i)
  case (Cons p ps)
  show ?case
  proof (cases "xb_GetZettel p zid (mgr_sys mgr)")
    case (Inl err)
    then show ?thesis using Cons.IH [of "i + 1"] Cons.prems by (auto simp: same_boxes_def split: if_splits)
  next
    case (Inr zt)
    then obtain m where m: "mgr_enrich env ctx (int i + 1) (Z_Meta zt) mgr = Some (m, mgr')" "res = Inr (zt\<lparr>Z_Meta := m\<rparr>)"
      using Cons.prems by auto
    then show ?thesis using enrich_not [OF assms(1) m(1), of other] Inr by (auto simp: same_boxes_def)
  qed
qed auto

text \<open>The zettel that the manager delivers without enrichment.\<close>

definition stored :: "mgrEnv \<Rightarrow> ctx \<Rightarrow> 's manager \<Rightarrow> zid \<Rightarrow> zettel option" where
  "stored env ctx mgr zid = (case mgr_GetZettel env ctx zid mgr of Some (mgr', Inr zt) \<Rightarrow> Some zt | _ \<Rightarrow> None)"

definition up_to_date :: "mgrEnv \<Rightarrow> ctx \<Rightarrow> 's manager \<Rightarrow> bool" where
  "up_to_date env ctx mgr \<longleftrightarrow> ms_inv (mgr_idxStore mgr) \<and> ar_inv (mgr_idxAr mgr) \<and>
     (\<forall>zid zt. stored env ctx mgr zid = Some zt \<longrightarrow>
        waits (abs_queue (mgr_idxAr mgr)) zid \<or> indexed env (mgr_hasZettel ctx mgr) (mgr_idxStore mgr) zid zt)"

context managed_boxes
begin

lemma get_total:
  assumes "inv (mgr_sys mgr)" and "mgr_boxes mgr = boxes" and "checkContinue mgr ctx = None" and "ctx_noEnrich ctx"
  shows "\<exists>res. mgr_GetZettel env ctx zid mgr = Some (mgr, res) \<and>
    (case res of Inl err \<Rightarrow> \<not> mgr_hasZettel ctx mgr zid | Inr zt \<Rightarrow> m_Zid (Z_Meta zt) = zid) \<and>
    (same_boxes mgr other \<longrightarrow> mgr_GetZettel env ctx zid other = Some (other, res))"
proof -
  have t: "\<exists>r. get_loop env ctx zid i ps mgr = Some r" if "set ps \<subseteq> set boxes" for i ps
    using that
  proof (induction ps arbitrary: i)
    case (Cons p ps)
    have p: "p \<in> set boxes" using Cons.prems by simp
    show ?case
    proof (cases "xb_GetZettel p zid (mgr_sys mgr)")
      case (Inl err)
      then show ?thesis using get_err [OF p assms(1) Inl] Cons by simp
    next
      case (Inr zt)
      have "IsValid (m_Zid (Z_Meta zt))" using get_zid [OF p assms(1) Inr] has_valid [OF p assms(1)] has_get [OF p assms(1)] Inr by metis
      then show ?thesis using Inr mgr_enrich_total [of "Z_Meta zt" env ctx "int i + 1" mgr] by auto
    qed
  qed simp
  obtain mgr' res where g: "get_loop env ctx zid 0 boxes mgr = Some (mgr', res)" using t [OF subset_refl] by fastforce
  note n = get_loop_not [OF assms(4) g]
  have m: "mgr_GetZettel env ctx zid mgr = Some (mgr, res)" using g n [of mgr] assms(2,3) by (simp add: mgr_GetZettel_def mgr_getZettel_def)
  have o': "same_boxes mgr other \<longrightarrow> mgr_GetZettel env ctx zid other = Some (other, res)"
    using n [of other] assms(2,3) same_boxes_has [of mgr other ctx] by (auto simp: mgr_GetZettel_def mgr_getZettel_def same_boxes_def)
  have "case res of Inl err \<Rightarrow> \<not> mgr_hasZettel ctx mgr zid | Inr zt \<Rightarrow> m_Zid (Z_Meta zt) = zid"
    using GetZettel_first' [OF assms(1-3) m] by (auto split: option.splits)
  then show ?thesis using m o' by blast
qed

lemma stored_same:
  assumes "inv (mgr_sys mgr)" and "mgr_boxes mgr = boxes" and "checkContinue mgr ctx = None" and "ctx_noEnrich ctx"
    and "same_boxes mgr other"
  shows "stored env ctx other zid = stored env ctx mgr zid"
  using get_total [OF assms(1-4), of env zid other] assms(5) by (auto simp: stored_def)

lemma idx_step_up_to_date:
  assumes "inv (mgr_sys mgr)" and "mgr_boxes mgr = boxes" and "checkContinue mgr ctx = None" and "ctx_noEnrich ctx"
    and "up_to_date env ctx mgr"
  shows "\<exists>mgr' more. idx_step env ctx mgr = Some (mgr', more) \<and> same_boxes mgr mgr' \<and> up_to_date env ctx mgr' \<and>
    (\<not> more \<longrightarrow> abs_queue (mgr_idxAr mgr') = (NoReload, {}))"
proof -
  obtain act zid fr ar where d: "Dequeue (mgr_idxAr mgr) = (act, zid, fr, ar)" by (metis prod_cases4)
  let ?q = "abs_queue (mgr_idxAr mgr)" and ?has = "mgr_hasZettel ctx mgr"
  have inv: "ms_inv (mgr_idxStore mgr)" "ar_inv (mgr_idxAr mgr)" using assms(5) by (simp_all add: up_to_date_def)
  have q: "ar_inv ar" "abs_dequeue ?q act zid fr (abs_queue ar)" using Dequeue_refines [OF inv(2) d] by simp_all
  have up: "stored env ctx mgr y = Some zt \<Longrightarrow> waits ?q y \<or> indexed env ?has (mgr_idxStore mgr) y zt" for y zt
    using assms(5) by (simp add: up_to_date_def)
  let ?mgr = "mgr\<lparr>mgr_idxAr := ar\<rparr>"
  have sb: "same_boxes mgr ?mgr" by (simp add: same_boxes_def)
  show ?thesis
  proof (cases act)
    case arNothing
    have n: "?q = (NoReload, {})" "abs_queue ar = (NoReload, {})"
      using q(2) arNothing by (cases ?q; cases "abs_queue ar"; auto split: reload_state.splits if_splits)+
    have "up_to_date env ctx ?mgr"
      using up n inv(1) q(1) stored_same [OF assms(1-4) sb] same_boxes_has [OF sb, of ctx] by (simp add: up_to_date_def)
    moreover have "idx_step env ctx mgr = Some (?mgr, False)" using d arNothing by (simp add: idx_step_def)
    ultimately show ?thesis using sb n(2) by fastforce
  next
    case arReload
    obtain zids where z: "fetch_loop boxes (mgr_sys mgr) (NewSetCap []) = Inr zids" "real_set zids"
        "elems zids = {zid. list_ex (\<lambda>bx. xb_HasZettel bx zid (mgr_sys mgr)) boxes}"
      using fetch_loop_elems [OF subset_refl assms(1) real_set_NewSet(3)] real_set_NewSet(4) by auto
    have f: "mgr_FetchZids ctx ?mgr = Inr zids" using z(1) same_boxes_has [OF sb, of ctx] assms(2,3)
      by (simp add: mgr_FetchZids_def mgr_fetchZids_def)
    let ?mgr' = "mgr\<lparr>mgr_idxAr := Reload ar zids, mgr_idxSinceReload := 0\<rparr>"
    have sb': "same_boxes mgr ?mgr'" by (simp add: same_boxes_def)
    have "set_inv zids" using z(2) by (simp add: real_set_def)
    note r = Reload_refines [OF q(1) this]
    have w: "stored env ctx mgr y = Some zt \<Longrightarrow> waits (abs_queue (Reload ar zids)) y" for y zt
    proof -
      assume s: "stored env ctx mgr y = Some zt"
      have "mgr_hasZettel ctx mgr y"
        using get_total [OF assms(1-4), of env y] s GetZettel_first' [OF assms(1-3)] by (fastforce simp: stored_def split: option.splits sum.splits)
      then have "y \<in> elems zids" using z(3) assms(2,3) by (simp add: mgr_hasZettel_def)
      then show ?thesis using r by (cases "abs_queue ar") (auto simp: waits_def)
    qed
    have "up_to_date env ctx ?mgr'"
      using w inv(1) r stored_same [OF assms(1-4) sb'] by (simp add: up_to_date_def)
    moreover have "idx_step env ctx mgr = Some (?mgr', True)" using d arReload f by (simp add: idx_step_def)
    ultimately show ?thesis using sb' by blast
  next
    case arZettel
    have wait: "waits ?q y \<Longrightarrow> y = zid \<or> waits (abs_queue ar) y" for y using waits_dequeue [OF q(2)] arZettel by auto
    obtain res where g: "mgr_GetZettel env ctx zid ?mgr = Some (?mgr, res)"
      and gr: "case res of Inl err \<Rightarrow> \<not> ?has zid | Inr zt \<Rightarrow> m_Zid (Z_Meta zt) = zid"
      and g0: "mgr_GetZettel env ctx zid mgr = Some (mgr, res)"
      using get_total [OF assms(1-4), of env zid ?mgr] sb by auto
    have has: "mgr_hasZettel ctx ?mgr = ?has" using same_boxes_has [OF sb] by simp
    show ?thesis
    proof (cases res)
      case (Inl err)
      obtain ms tc where dz: "DeleteZettel (mgr_idxStore mgr) zid = (ms, tc)" by (rule prod.exhaust)
      let ?mgr1 = "mgr\<lparr>mgr_idxAr := ar, mgr_idxStore := ms\<rparr>"
      obtain ar' where c: "idxCheckZettel env (Set_SafeSorted tc) ?mgr1 = Some (?mgr1\<lparr>mgr_idxAr := ar'\<rparr>)" "ar_inv ar'"
          "\<forall>y. waits (abs_queue ar) y \<longrightarrow> waits (abs_queue ar') y"
        using idxCheckZettel_queue [of ?mgr1 env "Set_SafeSorted tc"] q(1) by auto
      let ?mgr' = "mgr\<lparr>mgr_idxStore := ms, mgr_idxAr := ar'\<rparr>"
      have sb': "same_boxes mgr ?mgr'" by (simp add: same_boxes_def)
      have no: "\<not> ?has zid" "stored env ctx mgr zid = None" using gr g0 Inl by (simp_all add: stored_def)
      have "waits (abs_queue ar') y \<or> indexed env ?has ms y zt" if s: "stored env ctx mgr y = Some zt" for y zt
      proof -
        have "y \<noteq> zid" using s no(2) by auto
        then show ?thesis using up [OF s] wait c(3) delete_indexed [where has = ?has, OF inv(1) dz no(1)] by blast
      qed
      then have "up_to_date env ctx ?mgr'"
        using DeleteZettel_inv [OF inv(1) dz] c(2) stored_same [OF assms(1-4) sb'] same_boxes_has [OF sb', of ctx]
        by (simp add: up_to_date_def)
      moreover have "idx_step env ctx mgr = Some (?mgr', True)"
        using d arZettel g Inl c(1) dz by (simp add: idx_step_def idxDeleteZettel_def)
      ultimately show ?thesis using sb' by blast
    next
      case (Inr zt)
      have z: "m_Zid (Z_Meta zt) = zid" using gr Inr by simp
      obtain ms tc where u: "UpdateReferences (me_zsc env) (mgr_idxStore mgr) (zettel_index env ?has zt) = (ms, tc)" by (rule prod.exhaust)
      let ?mgr1 = "mgr\<lparr>mgr_idxAr := ar, mgr_idxStore := ms\<rparr>"
      obtain ar' where c: "idxCheckZettel env (Set_SafeSorted tc) ?mgr1 = Some (?mgr1\<lparr>mgr_idxAr := ar'\<rparr>)" "ar_inv ar'"
          "\<forall>y. waits (abs_queue ar) y \<longrightarrow> waits (abs_queue ar') y"
        using idxCheckZettel_queue [of ?mgr1 env "Set_SafeSorted tc"] q(1) by auto
      let ?mgr' = "mgr\<lparr>mgr_idxStore := ms, mgr_idxAr := ar', mgr_idxSinceReload := mgr_idxSinceReload mgr + 1\<rparr>"
      have sb': "same_boxes mgr ?mgr'" by (simp add: same_boxes_def)
      have s0: "stored env ctx mgr zid = Some zt" using g0 Inr by (simp add: stored_def)
      note ui = update_indexed [OF inv(1) u, unfolded z]
      have "waits (abs_queue ar') y \<or> indexed env ?has ms y zt'" if s: "stored env ctx mgr y = Some zt'" for y zt'
      proof (cases "y = zid")
        case True
        then show ?thesis using s s0 ui(2) by simp
      next
        case False
        then show ?thesis using up [OF s] wait c(3) ui(3) by blast
      qed
      then have "up_to_date env ctx ?mgr'"
        using ui(1) c(2) stored_same [OF assms(1-4) sb'] same_boxes_has [OF sb', of ctx] by (simp add: up_to_date_def)
      moreover have "idx_step env ctx mgr = Some (?mgr', True)"
        using d arZettel g Inr c(1) u has by (simp add: idx_step_def idxUpdateZettel_def)
      ultimately show ?thesis using sb' by blast
    qed
  qed
qed

text \<open>All zettel are in the index when a round finds the queue empty.\<close>

lemma rounds_complete:
  assumes "inv (mgr_sys mgr)" and "mgr_boxes mgr = boxes" and "checkContinue mgr ctx = None" and "ctx_noEnrich ctx"
    and "same_boxes mgr mgr1" and "up_to_date env ctx mgr1"
  shows "\<exists>mgr2 more. idx_step env ctx mgr1 = Some (mgr2, more) \<and> same_boxes mgr mgr2 \<and> up_to_date env ctx mgr2 \<and>
    (\<not> more \<longrightarrow> (\<forall>zid zt. stored env ctx mgr zid = Some zt \<longrightarrow>
      indexed env (mgr_hasZettel ctx mgr) (mgr_idxStore mgr2) zid zt))"
proof -
  have 1: "inv (mgr_sys mgr1)" "mgr_boxes mgr1 = boxes" "checkContinue mgr1 ctx = None"
    using assms(1-3,5) same_boxes_has [OF assms(5), of ctx] by (simp_all add: same_boxes_def)
  obtain mgr2 more where s: "idx_step env ctx mgr1 = Some (mgr2, more)" "same_boxes mgr1 mgr2" "up_to_date env ctx mgr2"
      "\<not> more \<longrightarrow> abs_queue (mgr_idxAr mgr2) = (NoReload, {})"
    using idx_step_up_to_date [OF 1 assms(4,6)] by blast
  have sb: "same_boxes mgr mgr2" using assms(5) s(2) by (simp add: same_boxes_def)
  have "\<not> waits (NoReload, {}) zid" for zid by (simp add: waits_def)
  then have "\<not> more \<Longrightarrow> stored env ctx mgr zid = Some zt \<Longrightarrow> indexed env (mgr_hasZettel ctx mgr) (mgr_idxStore mgr2) zid zt" for zid zt
    using s(3,4) stored_same [OF assms(1-4) sb] same_boxes_has [OF sb, of ctx] by (auto simp: up_to_date_def)
  then show ?thesis using s sb by blast
qed

end

text \<open>The rounds of the loop.\<close>

inductive idx_rounds :: "mgrEnv \<Rightarrow> ctx \<Rightarrow> 's manager \<Rightarrow> 's manager \<Rightarrow> bool" for env ctx where
  rounds_none: "idx_rounds env ctx mgr mgr"
| rounds_more: "idx_rounds env ctx mgr mgr1 \<Longrightarrow> idx_step env ctx mgr1 = Some (mgr2, True) \<Longrightarrow> idx_rounds env ctx mgr mgr2"

text \<open>The loop ends after some rounds, when the queue is empty.\<close>

lemma idxWorkService_rounds:
  assumes "idxWorkService env ctx mgr = Some mgr2"
  shows "\<forall>mgr0. idx_rounds env ctx mgr0 mgr \<longrightarrow> (\<exists>mgr1. idx_rounds env ctx mgr0 mgr1 \<and> idx_step env ctx mgr1 = Some (mgr2, False))"
proof (rule idxWorkService.raw_induct [where P = "\<lambda>env ctx mgr mgr2. \<forall>mgr0. idx_rounds env ctx mgr0 mgr \<longrightarrow>
    (\<exists>mgr1. idx_rounds env ctx mgr0 mgr1 \<and> idx_step env ctx mgr1 = Some (mgr2, False))", OF _ assms])
  fix service env ctx and mgr mgr2 :: "'a manager"
  assume IH: "\<And>env ctx mgr mgr2. service env ctx mgr = Some mgr2 \<Longrightarrow> \<forall>mgr0. idx_rounds env ctx mgr0 mgr \<longrightarrow>
      (\<exists>mgr1. idx_rounds env ctx mgr0 mgr1 \<and> idx_step env ctx mgr1 = Some (mgr2, False))"
    and r: "(case idx_step env ctx mgr of None \<Rightarrow> None | Some r \<Rightarrow> if snd r then service env ctx (fst r) else Some (fst r)) = Some mgr2"
  obtain m more where s: "idx_step env ctx mgr = Some (m, more)" using r by (cases "idx_step env ctx mgr") auto
  show "\<forall>mgr0. idx_rounds env ctx mgr0 mgr \<longrightarrow>
      (\<exists>mgr1. idx_rounds env ctx mgr0 mgr1 \<and> idx_step env ctx mgr1 = Some (mgr2, False))"
  proof (cases more)
    case True
    then have "service env ctx m = Some mgr2" using r s by simp
    moreover have "idx_step env ctx mgr = Some (m, True)" using s True by simp
    ultimately show ?thesis using IH rounds_more by blast
  next
    case False
    then show ?thesis using r s by auto
  qed
qed

lemma rounds_up_to_date:
  assumes "idx_rounds env ctx mgr mgr1" and "managed_boxes (mgr_boxes mgr) sys_ok" and "sys_ok (mgr_sys mgr)"
    and "checkContinue mgr ctx = None" and "ctx_noEnrich ctx" and "up_to_date env ctx mgr"
  shows "same_boxes mgr mgr1 \<and> up_to_date env ctx mgr1"
  using assms
proof (induction rule: idx_rounds.induct)
  case (rounds_none mgr)
  then show ?case by (simp add: same_boxes_def)
next
  case (rounds_more mgr mgr1 mgr2)
  then have "same_boxes mgr mgr1" "up_to_date env ctx mgr1" by blast+
  from managed_boxes.rounds_complete [OF rounds_more.prems(1,2) refl rounds_more.prems(3,4) this]
  show ?case using rounds_more.hyps(2) by auto
qed



end
