(* ===== verification/ManagerRunLaws.thy ===== *)
theory ManagerRunLaws
  imports IndexerRun
begin

text \<open>
  All operations of the box manager: the index and the queue stay well-formed, a stopped manager does nothing, and what happens at
  the start.
\<close>

section \<open>The invariant\<close>

definition mgr_ok :: "'s manager \<Rightarrow> bool" where
  "mgr_ok mgr \<longleftrightarrow> ms_inv (mgr_idxStore mgr) \<and> ar_inv (mgr_idxAr mgr)"

lemma ms_inv_updates [simp]: "ms_inv (ms\<lparr>ms_updates := k\<rparr>) = ms_inv ms"
  by (simp add: ms_inv_def store_ok_def consistent_def idx_ok_def in_idx_def entry_at_def)

lemma mgr_ok_same: "mgr_ok mgr \<Longrightarrow> same_but_updates mgr mgr' \<Longrightarrow> mgr_ok mgr'"
  by (auto simp: mgr_ok_def same_but_updates_def)

lemma mgr_ok_simps [simp]:
  "mgr_ok (mgr\<lparr>mgr_sys := s\<rparr>) = mgr_ok mgr" "mgr_ok (mgr\<lparr>mgr_zidMapper := zm\<rparr>) = mgr_ok mgr"
  "mgr_ok (mgr\<lparr>mgr_state := st\<rparr>) = mgr_ok mgr" "mgr_ok (mgr\<lparr>mgr_infos := is\<rparr>) = mgr_ok mgr"
  "mgr_ok (mgr\<lparr>mgr_notified := ns\<rparr>) = mgr_ok mgr" "mgr_ok (mgr\<lparr>mgr_idxReady := b\<rparr>) = mgr_ok mgr"
  "mgr_ok (mgr\<lparr>mgr_idxSinceReload := n\<rparr>) = mgr_ok mgr"
  by (simp_all add: mgr_ok_def)

lemma idxCheck_ok: "mgr_ok mgr \<Longrightarrow> idxCheckZettel env zids mgr = Some mgr' \<Longrightarrow> mgr_ok mgr'"
  using idxCheckZettel_queue [of mgr env zids] by (auto simp: mgr_ok_def)

lemma idxUpdate_ok: "mgr_ok mgr \<Longrightarrow> idxUpdateZettel env ctx zt mgr = Some mgr' \<Longrightarrow> mgr_ok mgr'"
proof -
  assume ok: "mgr_ok mgr" and r: "idxUpdateZettel env ctx zt mgr = Some mgr'"
  obtain ms tc where u: "UpdateReferences (me_zsc env) (mgr_idxStore mgr) (zettel_index env (mgr_hasZettel ctx mgr) zt) = (ms, tc)"
    by (rule prod.exhaust)
  have c: "idxCheckZettel env (Set_SafeSorted tc) (mgr\<lparr>mgr_idxStore := ms\<rparr>) = Some mgr'" using r u by (simp add: idxUpdateZettel_def)
  have "mgr_ok (mgr\<lparr>mgr_idxStore := ms\<rparr>)" using ok update_indexed(1) [OF _ u] by (simp add: mgr_ok_def)
  then show ?thesis using idxCheck_ok c by blast
qed

lemma idxDelete_ok: "mgr_ok mgr \<Longrightarrow> idxDeleteZettel env zid mgr = Some mgr' \<Longrightarrow> mgr_ok mgr'"
proof -
  assume ok: "mgr_ok mgr" and r: "idxDeleteZettel env zid mgr = Some mgr'"
  obtain ms tc where u: "DeleteZettel (mgr_idxStore mgr) zid = (ms, tc)" by (rule prod.exhaust)
  have c: "idxCheckZettel env (Set_SafeSorted tc) (mgr\<lparr>mgr_idxStore := ms\<rparr>) = Some mgr'" using r u by (simp add: idxDeleteZettel_def)
  have "mgr_ok (mgr\<lparr>mgr_idxStore := ms\<rparr>)" using ok DeleteZettel_inv [OF _ u] by (simp add: mgr_ok_def)
  then show ?thesis using idxCheck_ok c by blast
qed

lemma get_loop_ok: "mgr_ok mgr \<Longrightarrow> get_loop env ctx zid i ps mgr = Some (mgr', res) \<Longrightarrow> mgr_ok mgr'"
proof (induction ps arbitrary: i)
  case (Cons p ps)
  then show ?case
    by (auto split: sum.splits if_splits intro: mgr_ok_same [OF Cons.prems(1) mgr_enrich_same])
qed auto

lemma get_loop_same: "get_loop env ctx zid i ps mgr = Some (mgr', res) \<Longrightarrow> same_but_updates mgr mgr'"
proof (induction ps arbitrary: i)
  case (Cons p ps)
  then show ?case using same_but_updates_refl by (auto split: sum.splits if_splits intro: mgr_enrich_same)
qed (simp add: same_but_updates_refl)

lemma getZettel_ok: "mgr_ok mgr \<Longrightarrow> mgr_getZettel env ctx zid mgr = Some (mgr', res) \<Longrightarrow> mgr_ok mgr'"
  unfolding mgr_getZettel_def by (rule get_loop_ok)

lemma GetZettel_ok: "mgr_ok mgr \<Longrightarrow> mgr_GetZettel env ctx zid mgr = Some (mgr', res) \<Longrightarrow> mgr_ok mgr'"
  using getZettel_ok by (auto simp: mgr_GetZettel_def split: option.splits)

lemma get_all_ok': "mgr_ok mgr \<Longrightarrow> get_all_loop env ctx zid i ps mgr = Some (mgr', zts) \<Longrightarrow> mgr_ok mgr'"
proof (induction ps arbitrary: i mgr zts)
  case (Cons p ps)
  show ?case
  proof (cases "xb_GetZettel p zid (mgr_sys mgr)")
    case (Inl err)
    then show ?thesis using Cons by auto
  next
    case (Inr zt)
    then obtain m mgr1 zts1 where e: "mgr_enrich env ctx (int i + 1) (Z_Meta zt) mgr = Some (m, mgr1)"
        "get_all_loop env ctx zid (i + 1) ps mgr1 = Some (mgr', zts1)"
      using Cons.prems(2) by (auto split: option.splits)
    show ?thesis by (rule Cons.IH [OF mgr_ok_same [OF Cons.prems(1) mgr_enrich_same [OF e(1)]] e(2)])
  qed
qed simp

lemma apply_meta_ok: "mgr_ok mgr \<Longrightarrow> apply_meta_loop env ctx n c term ms (mgr, st) = Some (mgr', st') \<Longrightarrow> mgr_ok mgr'"
proof (induction ms arbitrary: mgr st)
  case (Cons m ms)
  then obtain m1 mgr1 where "mgr_enrich env ctx n m mgr = Some (m1, mgr1)"
      "apply_meta_loop env ctx n c term ms (mgr1, handleMeta c term m1 st) = Some (mgr', st')"
    by (auto split: option.splits)
  then show ?case using Cons.IH mgr_ok_same [OF Cons.prems(1) mgr_enrich_same] by blast
qed simp

lemma select_boxes_ok: "mgr_ok mgr \<Longrightarrow> select_boxes env ctx i c term ps (mgr, st) = Some (mgr', r) \<Longrightarrow> mgr_ok mgr'"
proof (induction ps arbitrary: i mgr st)
  case Nil
  then show ?case by (cases st) auto
next
  case (Cons p ps)
  obtain ms err where a: "xb_ApplyMeta p (Retrieve term) (mgr_sys mgr) = (ms, err)" by (rule prod.exhaust)
  obtain mgr1 sel rej where l: "apply_meta_loop env ctx (int i + 1) c term ms (mgr, st) = Some (mgr1, sel, rej)"
    using Cons.prems(2) a by (auto split: option.splits)
  have 1: "mgr_ok mgr1" by (rule apply_meta_ok [OF Cons.prems(1) l])
  show ?case
  proof (cases err)
    case None
    then have "select_boxes env ctx (i + 1) c term ps (mgr1, sel, rej) = Some (mgr', r)" using Cons.prems(2) a l by simp
    then show ?thesis by (rule Cons.IH [OF 1])
  next
    case (Some x)
    then show ?thesis using Cons.prems(2) a l 1 by auto
  qed
qed

lemma select_terms_ok: "mgr_ok mgr \<Longrightarrow> select_terms env ctx c terms (mgr, sel) = Some (mgr', r) \<Longrightarrow> mgr_ok mgr'"
proof (induction terms arbitrary: mgr sel)
  case (Cons t ts)
  obtain mgr1 sel1 rej1 err where s: "select_boxes env ctx 0 c t (mgr_boxes mgr) (mgr, sel, NewSet []) = Some (mgr1, sel1, rej1, err)"
    using Cons.prems(2) by (auto split: option.splits)
  have 1: "mgr_ok mgr1" by (rule select_boxes_ok [OF Cons.prems(1) s])
  show ?case
  proof (cases err)
    case None
    then show ?thesis using Cons.IH [OF 1, of sel1] Cons.prems(2) s by simp
  next
    case (Some x)
    then show ?thesis using Cons.prems(2) s 1 by auto
  qed
qed auto

lemma SelectMeta_ok:
  assumes "mgr_ok mgr" and "mgr_SelectMeta env ctx ms q mgr = Some (mgr', res)"
  shows "mgr_ok mgr'"
proof (cases "checkContinue mgr ctx")
  case None
  let ?compiled = "RetrieveAndCompile (me_zsc env) (me_unicode env) (me_text env) (me_visit env)
      (Some (mapstore_searcher (mgr_idxStore mgr))) q ms"
  note r = assms(2) [unfolded mgr_SelectMeta_def None option.case]
  show ?thesis
  proof (cases ?compiled)
    case c: (Some c)
    note r = r [unfolded c Option.bind.simps]
    show ?thesis
    proof (cases "Result (me_zsc env) (me_rand env) c")
      case found: (Some rc)
      obtain found c' where rc: "rc = (found, c')" by (cases rc)
      note r = r [unfolded found rc Option.bind.simps prod.case]
      show ?thesis
      proof (cases found)
        case None
        note r = r [unfolded None option.case]
        show ?thesis
        proof (cases "select_terms env ctx c' (c_Terms c') (mgr, [])")
          case s: (Some sel)
          obtain mgr1 sel1 err where e: "sel = (mgr1, sel1, err)" by (cases sel)
          have "mgr' = mgr1" using r unfolding s e by (cases err) auto
          then show ?thesis using select_terms_ok [OF assms(1)] s e by simp
        qed (use r in simp)
      next
        case (Some x)
        then show ?thesis using r assms(1) by simp
      qed
    qed (use r in simp)
  qed (use r in simp)
next
  case (Some err)
  then show ?thesis using assms by (simp add: mgr_SelectMeta_def)
qed

lemma Update_ok:
  assumes "mgr_ok mgr" and "mgr_UpdateZettel env ctx zt mgr = Some (mgr', err)"
  shows "mgr_ok mgr'"
proof (cases "checkContinue mgr ctx = None \<and> write_box mgr \<noteq> None")
  case True
  then obtain bx where bx: "write_box mgr = Some bx" by blast
  let ?zt = "clean_zettel env mgr zt"
  have cc: "checkContinue mgr ctx = None" using True by blast
  note r = assms(2) [unfolded mgr_UpdateZettel_def cc bx option.case Let_def]
  show ?thesis
  proof (cases "wb_UpdateZettel bx ?zt (mgr_sys mgr)")
    case (Some se)
    obtain s e where se: "se = (s, e)" by (cases se)
    note r = r [unfolded Some se option.case prod.case]
    show ?thesis
    proof (cases e)
      case None
      note r = r [unfolded None option.case]
      show ?thesis
      proof (cases "idxUpdateZettel env ctx ?zt (mgr\<lparr>mgr_sys := s\<rparr>)")
        case u: (Some mgr1)
        then have "mgr' = mgr1" using r by simp
        then show ?thesis using idxUpdate_ok [OF _ u] assms(1) by simp
      qed (use r in simp)
    next
      case (Some x)
      note r = r [unfolded Some option.case]
      then have "mgr' = mgr\<lparr>mgr_sys := s\<rparr>" by simp
      then show ?thesis using assms(1) by simp
    qed
  qed (use r in simp)
next
  case False
  then have "mgr' = mgr" using assms(2) by (cases "checkContinue mgr ctx") (auto simp: mgr_UpdateZettel_def)
  then show ?thesis using assms(1) by simp
qed

lemma write_mapping_ok: "mgr_ok mgr \<Longrightarrow> write_mapping env ctx zt mgr = Some (mgr', err) \<Longrightarrow> mgr_ok mgr'"
  using Update_ok by (auto simp: write_mapping_def bind_eq_Some_conv)

lemma createMapping_ok:
  assumes "mgr_ok mgr" and "createMapping env ctx zid mgr = Some (mgr', err)"
  shows "mgr_ok mgr'"
proof -
  obtain mgr1 r where g: "mgr_getZettel env ctx (me_MappingZid env) mgr = Some (mgr1, r)"
    using assms(2) by (cases "mgr_getZettel env ctx (me_MappingZid env) mgr") (auto simp: createMapping_def)
  have 1: "mgr_ok mgr1" by (rule getZettel_ok [OF assms(1) g])
  show ?thesis
  proof (cases r)
    case (Inl e)
    then show ?thesis using assms(2) g 1 by (simp add: createMapping_def)
  next
    case (Inr zt)
    then obtain n zm where "GetZidN (mgr_zidMapper mgr1) zid = Some (n, zm)"
        "write_mapping env ctx zt (mgr1\<lparr>mgr_zidMapper := zm\<rparr>) = Some (mgr', err)"
      using assms(2) g by (cases "GetZidN (mgr_zidMapper mgr1) zid") (auto simp: createMapping_def)
    then show ?thesis using write_mapping_ok 1 mgr_ok_simps(2) by blast
  qed
qed

lemma deleteMapping_ok:
  assumes "mgr_ok mgr" and "deleteMapping env ctx zid mgr = Some (mgr', err)"
  shows "mgr_ok mgr'"
proof -
  obtain mgr1 r where g: "mgr_getZettel env ctx (me_MappingZid env) mgr = Some (mgr1, r)"
    using assms(2) by (cases "mgr_getZettel env ctx (me_MappingZid env) mgr") (auto simp: deleteMapping_def)
  have 1: "mgr_ok mgr1" by (rule getZettel_ok [OF assms(1) g])
  show ?thesis
  proof (cases r)
    case (Inl e)
    then show ?thesis using assms(2) g 1 by (simp add: deleteMapping_def)
  next
    case (Inr zt)
    then have "write_mapping env ctx zt (mgr1\<lparr>mgr_zidMapper := DeleteO (mgr_zidMapper mgr1) zid\<rparr>) = Some (mgr', err)"
      using assms(2) g by (simp add: deleteMapping_def)
    then show ?thesis using write_mapping_ok 1 mgr_ok_simps(2) by blast
  qed
qed

lemma Create_ok:
  assumes "mgr_ok mgr" and "mgr_CreateZettel env ctx zt mgr = Some (mgr', zid, err)"
  shows "mgr_ok mgr'"
proof (cases "checkContinue mgr ctx = None \<and> write_box mgr \<noteq> None")
  case True
  then obtain bx where bx: "write_box mgr = Some bx" by blast
  have cc: "checkContinue mgr ctx = None" using True by blast
  note r = assms(2) [unfolded mgr_CreateZettel_def cc bx option.case]
  show ?thesis
  proof (cases "wb_CreateZettel bx (clean_zettel env mgr zt) (mgr_sys mgr)")
    case (Some w)
    obtain s zt1 res where w: "w = (s, zt1, res)" by (cases w)
    note r = r [unfolded Some w option.case prod.case]
    show ?thesis
    proof (cases res)
      case (Inl e)
      have "mgr' = mgr\<lparr>mgr_sys := s\<rparr>" using r [unfolded Inl sum.case] by simp
      then show ?thesis using assms(1) by simp
    next
      case (Inr z)
      note r = r [unfolded Inr sum.case]
      show ?thesis
      proof (cases "idxUpdateZettel env ctx zt1 (mgr\<lparr>mgr_sys := s\<rparr>)")
        case u: (Some mgr1)
        then have "createMapping env ctx z mgr1 = Some (mgr', err)"
          using r by (cases "createMapping env ctx z mgr1") (simp_all split: prod.splits)
        then show ?thesis using createMapping_ok idxUpdate_ok [OF _ u] assms(1) by simp
      qed (use r in simp)
    qed
  qed (use r in simp)
next
  case False
  then have "mgr' = mgr" using assms(2) by (cases "checkContinue mgr ctx") (auto simp: mgr_CreateZettel_def)
  then show ?thesis using assms(1) by simp
qed

lemma delete_loop_ok: "mgr_ok mgr \<Longrightarrow> delete_loop env ctx zid ps mgr = Some (mgr', err) \<Longrightarrow> mgr_ok mgr'"
proof (induction ps arbitrary: mgr)
  case (Cons p ps)
  obtain s e where d: "xb_DeleteZettel p zid (mgr_sys mgr) = (s, e)" by (rule prod.exhaust)
  show ?case
  proof (cases e)
    case None
    note r = Cons.prems(2) [unfolded delete_loop.simps d None prod.case option.case]
    show ?thesis
    proof (cases "idxDeleteZettel env zid (mgr\<lparr>mgr_sys := s\<rparr>)")
      case u: (Some mgr1)
      then have "deleteMapping env ctx zid mgr1 = Some (mgr', err)" using r by simp
      then show ?thesis using deleteMapping_ok idxDelete_ok [OF _ u] Cons.prems(1) by simp
    qed (use r in simp)
  next
    case (Some x)
    show ?thesis
    proof (cases "\<not> is_not_found x \<and> x \<noteq> ErrReadOnly")
      case True
      have "mgr' = mgr\<lparr>mgr_sys := s\<rparr>"
        using Cons.prems(2) [unfolded delete_loop.simps d Some prod.case option.case if_P [OF True]] by simp
      then show ?thesis using Cons.prems(1) by simp
    next
      case False
      have "delete_loop env ctx zid ps (mgr\<lparr>mgr_sys := s\<rparr>) = Some (mgr', err)"
        using Cons.prems(2) [unfolded delete_loop.simps d Some prod.case option.case if_not_P [OF False]] by simp
      moreover have "mgr_ok (mgr\<lparr>mgr_sys := s\<rparr>)" using Cons.prems(1) by simp
      ultimately show ?thesis by (intro Cons.IH)
    qed
  qed
qed simp

lemma Delete_ok: "mgr_ok mgr \<Longrightarrow> mgr_DeleteZettel env ctx zid mgr = Some (mgr', err) \<Longrightarrow> mgr_ok mgr'"
  using delete_loop_ok by (auto simp: mgr_DeleteZettel_def split: option.splits)

lemma fetch_loop_inv: "set_inv zs \<Longrightarrow> fetch_loop ps s zs = Inr zids \<Longrightarrow> set_inv zids"
proof (induction ps arbitrary: zs)
  case (Cons p ps)
  have "set_inv r \<Longrightarrow> set_inv (fold (\<lambda>zid r. add_in_place r zid) ys r)" for ys r
    by (induction ys arbitrary: r) (auto simp: add_in_place_def Set_Add_correct split: option.splits)
  then show ?case using Cons by (auto simp: Let_def split: prod.splits option.splits)
qed simp

lemma idx_step_ok:
  assumes "mgr_ok mgr" and "idx_step env ctx mgr = Some (mgr', goes)"
  shows "mgr_ok mgr'"
proof -
  obtain act zid fr ar where d: "Dequeue (mgr_idxAr mgr) = (act, zid, fr, ar)" by (metis prod_cases4)
  have 1: "mgr_ok (mgr\<lparr>mgr_idxAr := ar\<rparr>)" using assms(1) Dequeue_refines [OF _ d] by (simp add: mgr_ok_def)
  show ?thesis
  proof (cases act)
    case arNothing
    then show ?thesis using assms(2) d 1 by (simp add: idx_step_def)
  next
    case arReload
    show ?thesis
    proof (cases "mgr_FetchZids ctx (mgr\<lparr>mgr_idxAr := ar\<rparr>)")
      case (Inl e)
      then show ?thesis using assms(2) d 1 arReload by (simp add: idx_step_def)
    next
      case (Inr zids)
      have "set_inv zids"
      proof (cases "checkContinue (mgr\<lparr>mgr_idxAr := ar\<rparr>) ctx")
        case None
        then have f: "fetch_loop (mgr_boxes mgr) (mgr_sys mgr) (NewSetCap []) = Inr zids"
          using Inr by (simp add: mgr_FetchZids_def mgr_fetchZids_def)
        have "set_inv (NewSetCap [])" using real_set_NewSet(3) by (simp only: real_set_def)
        then show ?thesis by (rule fetch_loop_inv [OF _ f])
      qed (use Inr in \<open>simp add: mgr_FetchZids_def\<close>)
      then have "ar_inv (Reload ar zids)" using 1 Reload_refines by (simp add: mgr_ok_def)
      then show ?thesis using assms d arReload Inr by (auto simp: idx_step_def mgr_ok_def)
    qed
  next
    case arZettel
    obtain mgr1 r where g: "mgr_GetZettel env ctx zid (mgr\<lparr>mgr_idxAr := ar\<rparr>) = Some (mgr1, r)"
      using assms(2) d arZettel by (cases "mgr_GetZettel env ctx zid (mgr\<lparr>mgr_idxAr := ar\<rparr>)") (auto simp: idx_step_def)
    have 2: "mgr_ok mgr1" by (rule GetZettel_ok [OF 1 g])
    show ?thesis
    proof (cases r)
      case (Inl e)
      then have "idxDeleteZettel env zid mgr1 = Some mgr'" using assms(2) d arZettel g by (auto simp: idx_step_def)
      then show ?thesis using idxDelete_ok 2 by blast
    next
      case (Inr zt)
      then obtain mgr2 where "idxUpdateZettel env ctx zt mgr1 = Some mgr2" "mgr' = mgr2\<lparr>mgr_idxSinceReload := mgr_idxSinceReload mgr2 + 1\<rparr>"
        using assms(2) d arZettel g by (auto simp: idx_step_def)
      then show ?thesis using idxUpdate_ok 2 by simp
    qed
  qed
qed

lemma enqueue_ok:
  assumes "mgr_ok mgr" and "EnqueueZettel mz (mgr_idxAr mgr) zid = Some ar"
  shows "mgr_ok (mgr\<lparr>mgr_idxAr := ar, mgr_idxReady := b\<rparr>)"
  using assms EnqueueZettel_refines [of "mgr_idxAr mgr" mz zid] by (auto simp: mgr_ok_def)

lemma idxEnqueue_ok:
  assumes "mgr_ok mgr" and "idxEnqueue env reason zid started mgr = Some mgr'"
  shows "mgr_ok mgr'"
proof -
  have e: "mgr_ok m \<Longrightarrow> map_option (\<lambda>ar. m\<lparr>mgr_idxAr := ar, mgr_idxReady := True\<rparr>) (EnqueueZettel (me_MappingZid env) (mgr_idxAr m) zid) = Some m' \<Longrightarrow>
      mgr_ok m'" for m m' using enqueue_ok by fastforce
  show ?thesis
  proof (cases reason)
    case OnReady
    then show ?thesis using assms by (simp add: idxEnqueue_def)
  next
    case OnReload
    then have "mgr' = mgr\<lparr>mgr_idxAr := Reset (mgr_idxAr mgr), mgr_idxReady := True\<rparr>" using assms(2) by (simp add: idxEnqueue_def)
    then show ?thesis using assms(1) Reset_refines by (simp add: mgr_ok_def)
  next
    case OnZettel
    show ?thesis
    proof (cases "started \<and> zid \<noteq> me_MappingZid env")
      case True
      then obtain k where k: "LookupZidN (mgr_zidMapper mgr) zid = Some k"
        using assms(2) OnZettel by (cases "LookupZidN (mgr_zidMapper mgr) zid") (auto simp: idxEnqueue_def Let_def)
      show ?thesis
      proof (cases k)
        case None
        then obtain mgr1 err where c: "createMapping env background zid mgr = Some (mgr1, err)"
          using assms(2) OnZettel True k by (cases "createMapping env background zid mgr") (auto simp: idxEnqueue_def Let_def)
        show ?thesis using e [OF createMapping_ok [OF assms(1) c]] assms(2) OnZettel True k None c by (simp add: idxEnqueue_def Let_def)
      next
        case (Some n)
        then show ?thesis using e [OF assms(1)] assms(2) OnZettel True k by (simp add: idxEnqueue_def Let_def)
      qed
    next
      case False
      show ?thesis
        by (rule e [OF assms(1)])
           (use assms(2) in \<open>simp only: idxEnqueue_def Let_def OnZettel UpdateReason.case if_not_P [OF False]\<close>)
    qed
  next
    case OnDelete
    show ?thesis
    proof (cases "started \<and> zid \<noteq> me_MappingZid env")
      case True
      then obtain mgr1 err where c: "deleteMapping env background zid mgr = Some (mgr1, err)"
        using assms(2) OnDelete by (cases "deleteMapping env background zid mgr") (auto simp: idxEnqueue_def Let_def)
      show ?thesis using e [OF deleteMapping_ok [OF assms(1) c]] assms(2) OnDelete True c by (simp add: idxEnqueue_def Let_def)
    next
      case False
      show ?thesis
        by (rule e [OF assms(1)])
           (use assms(2) in \<open>simp only: idxEnqueue_def Let_def OnDelete UpdateReason.case if_not_P [OF False]\<close>)
    qed
  qed
qed

lemma notifier_ok:
  assumes "mgr_ok mgr" and "notifier_step env now ci (mgr, cache, ts) = Some (mgr', st)"
  shows "mgr_ok mgr'"
proof -
  let ?cache = "if 1 < length cache \<and> ts + 10000 < now then [] else cache"
  obtain cache1 ign where i: "ignoreUpdate ?cache now (ui_Reason ci) (ui_Zid ci) = (cache1, ign)" by (rule prod.exhaust)
  show ?thesis
  proof (cases ign)
    case True
    then show ?thesis using assms i by (auto simp: notifier_step_def Let_def)
  next
    case False
    let ?b = "mgr_state mgr = StartStateStarted"
    obtain mgr1 where q: "idxEnqueue env (ui_Reason ci) (ui_Zid ci) ?b mgr = Some mgr1"
        "mgr' = (if ?b then mgr1\<lparr>mgr_notified := mgr_notified mgr1 @ [ci]\<rparr> else mgr1)"
      using assms(2) i False by (auto simp: notifier_step_def Let_def)
    then show ?thesis using idxEnqueue_ok [OF assms(1) q(1)] by simp
  qed
qed

section \<open>A manager that is not started\<close>

lemma stopped: "mgr_state mgr \<noteq> StartStateStarted \<Longrightarrow> checkContinue mgr ctx = Some ErrStopped"
  by (simp add: checkContinue_def)

text \<open>
  A manager that is not started changes nothing and answers nothing: every operation ends with the same error
  and leaves boxes, index, queue and mapping as they are.
\<close>

lemma stopped_manager_inert:
  assumes "mgr_state mgr \<noteq> StartStateStarted"
  shows "mgr_CreateZettel env ctx zt mgr = Some (mgr, Invalid, Some ErrStopped) \<and>
    mgr_UpdateZettel env ctx zt mgr = Some (mgr, Some ErrStopped) \<and>
    mgr_DeleteZettel env ctx zid mgr = Some (mgr, Some ErrStopped) \<and>
    mgr_GetZettel env ctx zid mgr = Some (mgr, Inl ErrStopped) \<and>
    mgr_SelectMeta env ctx ms q mgr = Some (mgr, Inl ErrStopped) \<and>
    mgr_FetchZids ctx mgr = Inl ErrStopped \<and> \<not> mgr_hasZettel ctx mgr zid \<and> \<not> mgr_CanCreateZettel ctx mgr \<and>
    mgr_Refresh ctx mgr = (mgr, Some ErrStopped) \<and> mgr_ReIndex ctx zid mgr = (mgr, Some ErrStopped) \<and> mgr_Stop ctx mgr = mgr"
  using stopped [OF assms, of ctx]
  by (simp add: mgr_CreateZettel_def mgr_UpdateZettel_def mgr_DeleteZettel_def mgr_GetZettel_def mgr_SelectMeta_def mgr_FetchZids_def
      mgr_hasZettel_def mgr_CanCreateZettel_def mgr_Refresh_def mgr_ReIndex_def mgr_Stop_def)

section \<open>The start\<close>

text \<open>
  The mapping is set up before the manager is started, so that its update is refused: at the start the mapping zettel is
  never written, and its index entry not updated.
\<close>

lemma setup_changes:
  assumes "mgr_state mgr \<noteq> StartStateStarted" and "setupIdentifierMapping env mgr = Some mgr'"
  shows "\<exists>k zm. mgr' = mgr\<lparr>mgr_idxStore := (mgr_idxStore mgr)\<lparr>ms_updates := k\<rparr>, mgr_zidMapper := zm\<rparr>"
proof -
  obtain mgr1 r where g: "mgr_getZettel env background (me_MappingZid env) mgr = Some (mgr1, r)"
    using assms(2) by (cases "mgr_getZettel env background (me_MappingZid env) mgr") (auto simp: setupIdentifierMapping_def)
  have "same_but_updates mgr mgr1" using g unfolding mgr_getZettel_def by (rule get_loop_same)
  then obtain k where 1: "mgr1 = mgr\<lparr>mgr_idxStore := (mgr_idxStore mgr)\<lparr>ms_updates := k\<rparr>\<rparr>" by (auto simp: same_but_updates_def)
  have zm: "\<exists>zm. mgr1\<lparr>mgr_zidMapper := zm'\<rparr> = mgr1\<lparr>mgr_zidMapper := zm\<rparr>" for zm' by blast
  have st: "mgr_state (mgr1\<lparr>mgr_zidMapper := zm\<rparr>) \<noteq> StartStateStarted" for zm using assms(1) 1 by simp
  have u: "mgr_UpdateZettel env background zt (mgr1\<lparr>mgr_zidMapper := zm\<rparr>) = Some (mgr1\<lparr>mgr_zidMapper := zm\<rparr>, Some ErrStopped)" for zt zm
    using stopped [OF st] by (simp add: mgr_UpdateZettel_def)
  have "\<exists>zm. mgr' = mgr1\<lparr>mgr_zidMapper := zm\<rparr>"
  proof (cases r)
    case (Inl e)
    then have "mgr' = mgr1\<lparr>mgr_zidMapper := mgr_zidMapper mgr1\<rparr>" using assms(2) g by (simp add: setupIdentifierMapping_def)
    then show ?thesis by blast
  next
    case (Inr zt)
    note r = assms(2) [unfolded setupIdentifierMapping_def g Inr option.case prod.case sum.case Let_def]
    show ?thesis
    proof (cases "isBinary (Z_Content zt)")
      case True
      then have "mgr' = mgr1\<lparr>mgr_zidMapper := mgr_zidMapper mgr1\<rparr>" using r by simp
      then show ?thesis by blast
    next
      case False
      note r = r [unfolded if_not_P [OF False]]
      let ?zm = "fst (parseAndUpdate (mgr_zidMapper mgr1) (me_parseMapping env (me_TrimSpace env (c_data (Z_Content zt)))))"
      show ?thesis
      proof (cases "mgr_fetchZids (mgr1\<lparr>mgr_zidMapper := ?zm\<rparr>)")
        case (Inl e)
        then have "mgr' = mgr1\<lparr>mgr_zidMapper := ?zm\<rparr>" using r by simp
        then show ?thesis by blast
      next
        case (Inr zids)
        then obtain zm mapping where f: "FetchAsBytes ?zm zids = Some (zm, Some mapping)"
          using r by (cases "FetchAsBytes ?zm zids") (auto split: option.splits)
        have "mgr' = mgr1\<lparr>mgr_zidMapper := zm\<rparr>" using r Inr f u by (auto split: if_splits)
        then show ?thesis by blast
      qed
    qed
  qed
  then show ?thesis using 1 by auto
qed

lemma setup_never_writes:
  assumes "mgr_state mgr \<noteq> StartStateStarted" and "setupIdentifierMapping env mgr = Some mgr'"
  shows "mgr_sys mgr' = mgr_sys mgr \<and> mgr_idxAr mgr' = mgr_idxAr mgr"
  using setup_changes [OF assms] by auto

text \<open>What the start relies on: a box that is stopped is in the stopped state, and stays there when others are stopped.\<close>

locale startable_boxes =
  fixes boxes :: "'s managedBox list" and inv :: "'s \<Rightarrow> bool"
  assumes start_inv: "bx \<in> set boxes \<Longrightarrow> xb_startstop bx = Some a \<Longrightarrow> inv s \<Longrightarrow> inv (fst (ss_Start a s))"
    and stop_inv: "bx \<in> set boxes \<Longrightarrow> xb_startstop bx = Some a \<Longrightarrow> inv s \<Longrightarrow> inv (ss_Stop a s)"
    and stop_self: "bx \<in> set boxes \<Longrightarrow> xb_startstop bx = Some a \<Longrightarrow> inv s \<Longrightarrow> ss_State a (ss_Stop a s) = StartStateStopped"
    and stop_other: "bx \<in> set boxes \<Longrightarrow> xb_startstop bx = Some a \<Longrightarrow> by' \<in> set boxes \<Longrightarrow> xb_startstop by' = Some b \<Longrightarrow> inv s \<Longrightarrow>
      ss_State a s = StartStateStopped \<Longrightarrow> ss_State a (ss_Stop b s) = StartStateStopped"
begin

lemma stop_keeps:
  assumes "set bs \<subseteq> set boxes" and "inv s" and "bx \<in> set boxes" and "xb_startstop bx = Some a" and "ss_State a s = StartStateStopped"
  shows "ss_State a (stop_boxes bs s) = StartStateStopped"
  using assms(1,2,5)
proof (induction bs arbitrary: s)
  case (Cons b bs)
  then show ?case using stop_inv [of b] stop_other [OF assms(3,4), of b] by (cases "xb_startstop b") (simp_all add: stop_boxes_def)
qed (simp add: stop_boxes_def)

lemma stop_boxes_stops:
  assumes "set bs \<subseteq> set boxes" and "inv s"
  shows "\<forall>bx \<in> set bs. \<forall>a. xb_startstop bx = Some a \<longrightarrow> ss_State a (stop_boxes bs s) = StartStateStopped"
  using assms
proof (induction bs arbitrary: s)
  case (Cons b bs)
  let ?s = "case xb_startstop b of Some ss \<Rightarrow> ss_Stop ss s | None \<Rightarrow> s"
  have i: "inv ?s" using Cons.prems stop_inv [of b] by (simp split: option.splits)
  have e: "stop_boxes (b # bs) s = stop_boxes bs ?s" by (simp add: stop_boxes_def)
  have "ss_State a (stop_boxes bs ?s) = StartStateStopped" if "xb_startstop b = Some a" for a
    using stop_keeps [OF _ i, of bs b a] Cons.prems stop_self [of b a s] that by simp
  then show ?case using Cons.IH [OF _ i] Cons.prems(1) unfolding e by auto
qed simp

text \<open>\<open>rest\<close> are the boxes before the current one, from the last to the first.\<close>

lemma start_loop_fails:
  assumes "boxes = rev rest @ later" and "inv s" and "start_loop rest later s = (s', Some err)"
  shows "\<exists>pre bx post a. boxes = pre @ bx # post \<and> xb_startstop bx = Some a \<and> (\<exists>t. snd (ss_Start a t) = Some err) \<and>
    (\<forall>b \<in> set post. \<forall>a. xb_startstop b = Some a \<longrightarrow> ss_State a s' = StartStateStopped)"
  using assms
proof (induction rest arbitrary: later s)
  case (Cons b rest)
  have b: "b \<in> set boxes" "set later \<subseteq> set boxes" using Cons.prems(1) by auto
  show ?case
  proof (cases "xb_startstop b")
    case None
    then show ?thesis using Cons.IH [of "b # later" s] Cons.prems by simp
  next
    case (Some a)
    obtain s1 e where s1: "ss_Start a s = (s1, e)" by (rule prod.exhaust)
    have i: "inv s1" using start_inv [OF b(1) Some Cons.prems(2)] s1 by simp
    show ?thesis
    proof (cases e)
      case None
      then show ?thesis using Cons.IH [of "b # later" s1] Cons.prems i s1 Some by simp
    next
      case e: (Some x)
      then have s': "s' = stop_boxes later s1" "x = err" using Cons.prems(3) Some s1 by simp_all
      have "boxes = rev rest @ b # later" using Cons.prems(1) by simp
      moreover have "snd (ss_Start a s) = Some err" using s1 e s'(2) by simp
      ultimately show ?thesis using Some stop_boxes_stops [OF b(2) i] s'(1) by blast
    qed
  qed
qed simp

end

interpretation memstart: startable_boxes "mem_boxes loc now n" "\<lambda>s. length s = n"
proof unfold_locales
  fix bx a by' b and s :: "memBox list"
  assume "bx \<in> set (mem_boxes loc now n)" and a: "xb_startstop bx = Some a" and s: "length s = n"
  then obtain i where i: "i < length s" "bx = mem_managed (loc i) (now i) i" by (auto simp: mem_boxes_def)
  show "length (fst (ss_Start a s)) = n" "length (ss_Stop a s) = n" "ss_State a (ss_Stop a s) = StartStateStopped"
    using a i s by (auto simp: mem_managed_def mem_Stop_def)
  assume "by' \<in> set (mem_boxes loc now n)" and b: "xb_startstop by' = Some b" and st: "ss_State a s = StartStateStopped"
  then obtain j where j: "j < length s" "by' = mem_managed (loc j) (now j) j" using s by (auto simp: mem_boxes_def)
  show "ss_State a (ss_Stop b s) = StartStateStopped"
    using a b st i j by (cases "i = j") (auto simp: mem_managed_def mem_Stop_def)
qed

text \<open>
  C37: A successful start leaves a started manager over started boxes, with a request to index everything. If a box
  cannot be started, the manager stays stopped, and all boxes that were started before it are stopped again.
\<close>

theorem Start_all_or_nothing:
  assumes "startable_boxes (mgr_boxes mgr) sys_ok" and "sys_ok (mgr_sys mgr)"
    and "mgr_state mgr = StartStateStopped" and "mgr_Start env wait mgr = Some (mgr', err)"
  shows "case err of
    None \<Rightarrow> mgr_state mgr' = StartStateStarted \<and> allBoxesStarted mgr' \<and> abs_queue (mgr_idxAr mgr') = (ReloadRequested, {})
  | Some e \<Rightarrow> mgr_state mgr' = StartStateStopped \<and>
      (\<exists>pre bx post a. mgr_boxes mgr = pre @ bx # post \<and> xb_startstop bx = Some a \<and> (\<exists>t. snd (ss_Start a t) = Some e) \<and>
        (\<forall>b \<in> set post. \<forall>a. xb_startstop b = Some a \<longrightarrow> ss_State a (mgr_sys mgr') = StartStateStopped))"
proof -
  obtain s e where l: "start_loop (rev (mgr_boxes mgr)) [] (mgr_sys mgr) = (s, e)" by (rule prod.exhaust)
  show ?thesis
  proof (cases e)
    case (Some x)
    then have "mgr' = mgr\<lparr>mgr_state := StartStateStopped, mgr_sys := s\<rparr>" "err = Some x"
      using assms(3,4) l by (simp_all add: mgr_Start_def)
    then show ?thesis using startable_boxes.start_loop_fails [OF assms(1) _ assms(2), of "rev (mgr_boxes mgr)" "[]" s x] l Some by simp
  next
    case None
    let ?mgr = "mgr\<lparr>mgr_state := StartStateStarting, mgr_sys := wait s, mgr_idxAr := Reset (mgr_idxAr mgr)\<rparr>"
    note r = assms(4) [unfolded mgr_Start_def l None prod.case option.case Let_def assms(3)]
    have started: "allBoxesStarted ?mgr" using r by (auto split: if_splits)
    then obtain mgr1 where m: "setupIdentifierMapping env ?mgr = Some mgr1" "err = None"
        "mgr' = mgr1\<lparr>mgr_state := StartStateStarted, mgr_notified := mgr_notified mgr1 @ [\<lparr>ui_Reason = OnReady, ui_Zid = Invalid\<rparr>]\<rparr>"
      using r by (auto split: if_splits)
    obtain k zm where "mgr1 = ?mgr\<lparr>mgr_idxStore := (mgr_idxStore ?mgr)\<lparr>ms_updates := k\<rparr>, mgr_zidMapper := zm\<rparr>"
      using setup_changes [OF _ m(1)] by auto
    then have m': "mgr_boxes mgr' = mgr_boxes ?mgr" "mgr_sys mgr' = mgr_sys ?mgr" "mgr_state mgr' = StartStateStarted"
        "mgr_idxAr mgr' = Reset (mgr_idxAr mgr)" using m(3) by simp_all
    have "allBoxesStarted mgr' = allBoxesStarted ?mgr" unfolding allBoxesStarted_def m'(1,2) ..
    then show ?thesis using m(2) m'(3,4) started Reset_refines by simp
  qed
qed

lemma Start_all_or_nothing_witness:
  "\<exists>mgr'. mgr_Start doc_env (\<lambda>s. s) (doc_mgr\<lparr>mgr_state := StartStateStopped\<rparr>) = Some (mgr', None) \<and>
    mgr_state mgr' = StartStateStarted \<and> allBoxesStarted mgr'"
proof -
  let ?mgr = "doc_mgr\<lparr>mgr_state := StartStateStopped\<rparr>"
  have b: "mgr_boxes ?mgr = mem_boxes (\<lambda>i. ''mem:'') (\<lambda>i k b. []) 2" "length (mgr_sys ?mgr) = 2"
    by (simp_all add: doc_mgr_def doc_sys_def)
  obtain mgr' where r: "mgr_Start doc_env (\<lambda>s. s) ?mgr = Some (mgr', None)"
    by (simp add: mgr_Start_def doc_mgr_def mem_boxes_def mem_managed_def numeral_2_eq_2 doc_sys_def mem_Start_def allBoxesStarted_def
        setupIdentifierMapping_def mgr_getZettel_def mem_GetZettel_def mem_map_def is_not_found_def)
  show ?thesis
    using Start_all_or_nothing [of ?mgr "\<lambda>s. length s = 2", OF _ _ _ r] memstart.startable_boxes_axioms r b by auto
qed

section \<open>All operations together\<close>

text \<open>
  The managers that can be reached: by the operations, the rounds of the indexer and the notifier, and by changes that happen to the
  boxes from outside.
\<close>

inductive mgr_reach :: "mgrEnv \<Rightarrow> 's manager \<Rightarrow> bool" for env where
  reach_New: "manager_New (me_zsc env) boxes s = Some mgr \<Longrightarrow> mgr_reach env mgr"
| reach_boxes: "mgr_reach env mgr \<Longrightarrow> mgr_reach env (mgr\<lparr>mgr_sys := s\<rparr>)"
| reach_Get: "mgr_reach env mgr \<Longrightarrow> mgr_GetZettel env ctx zid mgr = Some (mgr', zt) \<Longrightarrow> mgr_reach env mgr'"
| reach_Select: "mgr_reach env mgr \<Longrightarrow> mgr_SelectMeta env ctx ms q mgr = Some (mgr', res) \<Longrightarrow> mgr_reach env mgr'"
| reach_Create: "mgr_reach env mgr \<Longrightarrow> mgr_CreateZettel env ctx zt mgr = Some (mgr', zid, err) \<Longrightarrow> mgr_reach env mgr'"
| reach_Update: "mgr_reach env mgr \<Longrightarrow> mgr_UpdateZettel env ctx zt mgr = Some (mgr', err) \<Longrightarrow> mgr_reach env mgr'"
| reach_Delete: "mgr_reach env mgr \<Longrightarrow> mgr_DeleteZettel env ctx zid mgr = Some (mgr', err) \<Longrightarrow> mgr_reach env mgr'"
| reach_index: "mgr_reach env mgr \<Longrightarrow> idx_step env ctx mgr = Some (mgr', goes) \<Longrightarrow> mgr_reach env mgr'"
| reach_notify: "mgr_reach env mgr \<Longrightarrow> notifier_step env now ci (mgr, cache, ts) = Some (mgr', st) \<Longrightarrow> mgr_reach env mgr'"
| reach_Start: "mgr_reach env mgr \<Longrightarrow> mgr_Start env wait mgr = Some (mgr', err) \<Longrightarrow> mgr_reach env mgr'"
| reach_Stop: "mgr_reach env mgr \<Longrightarrow> mgr_reach env (mgr_Stop ctx mgr)"
| reach_Refresh: "mgr_reach env mgr \<Longrightarrow> mgr_reach env (fst (mgr_Refresh ctx mgr))"
| reach_ReIndex: "mgr_reach env mgr \<Longrightarrow> mgr_reach env (fst (mgr_ReIndex ctx zid mgr))"

lemma Start_ok:
  assumes "mgr_ok mgr" and "mgr_Start env wait mgr = Some (mgr', err)"
  shows "mgr_ok mgr'"
proof (cases "mgr_state mgr = StartStateStopped")
  case False
  then show ?thesis using assms by (simp add: mgr_Start_def)
next
  case True
  obtain s e where l: "start_loop (rev (mgr_boxes mgr)) [] (mgr_sys mgr) = (s, e)" by (rule prod.exhaust)
  note r = assms(2) [unfolded mgr_Start_def l prod.case Let_def True]
  show ?thesis
  proof (cases e)
    case (Some x)
    then have "mgr' = mgr\<lparr>mgr_state := StartStateStopped, mgr_sys := s\<rparr>" using r by simp
    then show ?thesis using assms(1) by simp
  next
    case None
    let ?mgr = "mgr\<lparr>mgr_state := StartStateStarting, mgr_sys := wait s, mgr_idxAr := Reset (mgr_idxAr mgr)\<rparr>"
    have ok: "mgr_ok ?mgr" using assms(1) Reset_refines by (simp add: mgr_ok_def)
    obtain mgr1 where m: "setupIdentifierMapping env ?mgr = Some mgr1"
        "mgr' = mgr1\<lparr>mgr_state := StartStateStarted, mgr_notified := mgr_notified mgr1 @ [\<lparr>ui_Reason = OnReady, ui_Zid = Invalid\<rparr>]\<rparr>"
      using r None by (auto split: if_splits)
    obtain k zm where "mgr1 = ?mgr\<lparr>mgr_idxStore := (mgr_idxStore ?mgr)\<lparr>ms_updates := k\<rparr>, mgr_zidMapper := zm\<rparr>"
      using setup_changes [OF _ m(1)] by auto
    then have "mgr_ok mgr1" using ok by (simp add: mgr_ok_def)
    then show ?thesis using m(2) by simp
  qed
qed

lemma reach_ok: "mgr_reach env mgr \<Longrightarrow> mgr_ok mgr"
proof (induction rule: mgr_reach.induct)
  case (reach_New boxes s mgr)
  then show ?case using ms_inv_New by (auto simp: manager_New_def mgr_ok_def newAnteroomQueue_def ar_inv_def)
next
  case (reach_Stop mgr ctx)
  then show ?case by (simp add: mgr_Stop_def)
next
  case (reach_Refresh mgr ctx)
  then show ?case by (simp add: mgr_Refresh_def split: option.splits)
next
  case (reach_ReIndex mgr ctx zid)
  then show ?case by (simp add: mgr_ReIndex_def split: option.splits)
next
  case reach_Get
  from reach_Get.IH reach_Get.hyps(2) show ?case by (rule GetZettel_ok)
next
  case reach_Select
  from reach_Select.IH reach_Select.hyps(2) show ?case by (rule SelectMeta_ok)
next
  case reach_Create
  from reach_Create.IH reach_Create.hyps(2) show ?case by (rule Create_ok)
next
  case reach_Update
  from reach_Update.IH reach_Update.hyps(2) show ?case by (rule Update_ok)
next
  case reach_Delete
  from reach_Delete.IH reach_Delete.hyps(2) show ?case by (rule Delete_ok)
next
  case reach_index
  from reach_index.IH reach_index.hyps(2) show ?case by (rule idx_step_ok)
next
  case reach_notify
  from reach_notify.IH reach_notify.hyps(2) show ?case by (rule notifier_ok)
next
  case reach_Start
  from reach_Start.IH reach_Start.hyps(2) show ?case by (rule Start_ok)
qed simp

text \<open>
  C38: Whatever operations, notifications, rounds of the indexer and changes from outside happen in which order: the index and the queue
  are well-formed and consistent, so that a search finds exactly the zettel recorded for a word.
\<close>

theorem manager_invariant:
  assumes "mgr_reach env mgr"
  shows "consistent (mgr_idxStore mgr) \<and> ar_inv (mgr_idxAr mgr) \<and>
    elems (SearchEqual (mgr_idxStore mgr) w) = search_spec (mgr_idxStore mgr) (\<lambda>v. v = w) (\<lambda>z. Parse w = Inr z)"
  using reach_ok [OF assms] SearchEqual_correct [of "mgr_idxStore mgr" w] by (simp add: mgr_ok_def ms_inv_def)

lemma manager_invariant_witness: "\<exists>mgr :: memBox list manager. mgr_reach doc_env mgr \<and> consistent (mgr_idxStore mgr)"
proof -
  obtain zm where zm: "NewZidMapper = Some zm" using NewZidMapper_ok by blast
  have "\<exists>mgr :: memBox list manager. manager_New (me_zsc doc_env) [] [] = Some mgr"
    unfolding manager_New_def zm by simp
  then obtain mgr :: "memBox list manager" where "manager_New (me_zsc doc_env) [] [] = Some mgr" by blast
  then have "mgr_reach doc_env mgr" by (rule reach_New)
  then show ?thesis using manager_invariant [of doc_env mgr] by blast
qed

end
