(* ===== verification/Loops.thy ===== *)
theory Loops
  imports Prelude
begin

text \<open>
  Loops \<open>for { ... }\<close> that end by \<open>break\<close> or \<open>return\<close>. The body is a step that either goes on with a new
  state or leaves the loop with a result; a step that panics is \<open>None\<close>. A loop that never ends is \<open>None\<close> too,
  so that a theorem with a result \<open>Some\<close> says that the loop returns and does not panic.
\<close>

partial_function (option) go_loop :: "('s \<Rightarrow> ('s + 'r) option) \<Rightarrow> 's \<Rightarrow> 'r option" where
  "go_loop step s = Option.bind (step s) (\<lambda>r. case r of Inl s' \<Rightarrow> go_loop step s' | Inr x \<Rightarrow> Some x)"

lemma go_loop_panic: "step s = None \<Longrightarrow> go_loop step s = None"
  by (subst go_loop.simps) simp

lemma go_loop_next: "step s = Some (Inl s') \<Longrightarrow> go_loop step s = go_loop step s'"
  by (subst go_loop.simps) simp

lemma go_loop_done: "step s = Some (Inr x) \<Longrightarrow> go_loop step s = Some x"
  by (subst go_loop.simps) simp

text \<open>
  A loop whose step keeps an invariant and decreases a measure returns, and its result has the property that the
  last step gives it.
\<close>

lemma go_loop_returns:
  assumes "good s"
    and step: "\<And>s. good s \<Longrightarrow> \<exists>r. step s = Some r \<and>
      (case r of Inl s' \<Rightarrow> good s' \<and> m s' < (m s :: nat) | Inr x \<Rightarrow> post x)"
  shows "\<exists>x. go_loop step s = Some x \<and> post x"
  using assms(1)
proof (induction "m s" arbitrary: s rule: less_induct)
  case less
  obtain r where r: "step s = Some r" "case r of Inl s' \<Rightarrow> good s' \<and> m s' < m s | Inr x \<Rightarrow> post x"
    using step [OF less.prems] by blast
  show ?case
  proof (cases r)
    case (Inl s')
    then show ?thesis using r less.hyps [of s'] by (simp add: go_loop_next)
  next
    case (Inr x)
    then show ?thesis using r by (simp add: go_loop_done)
  qed
qed

end
