(* ===== verification/Input.thy ===== *)
theory Input
  imports Meta Loops
begin

text \<open>
  The input of the scanners, type \<open>input.Input\<close> of the client library \<open>t73f.de/r/zsc/input\<close>: a byte sequence with
  a position and the character at this position. Its operations are a parameter of the model; what the scanners
  rely on is the contract \<open>input_ok\<close>.
\<close>

record 'i input =
  inp_New :: "string \<Rightarrow> 'i"
  inp_Src :: "'i \<Rightarrow> string"
  inp_Pos :: "'i \<Rightarrow> nat"
  inp_Ch :: "'i \<Rightarrow> int"
  inp_Next :: "'i \<Rightarrow> 'i"
  inp_SetPos :: "'i \<Rightarrow> nat \<Rightarrow> 'i"
  inp_SkipSpace :: "'i \<Rightarrow> 'i"
  inp_SkipToEOL :: "'i \<Rightarrow> 'i"
  inp_Accept :: "'i \<Rightarrow> string \<Rightarrow> bool \<times> 'i"
  inp_ScanLineContent :: "'i \<Rightarrow> string"
  inp_EOS :: int
  inp_isSpace :: "int \<Rightarrow> bool"
  inp_isEOLEOS :: "int \<Rightarrow> bool"

definition inp_IsSpace :: "'i input \<Rightarrow> 'i \<Rightarrow> bool" where
  "inp_IsSpace ops i = inp_isSpace ops (inp_Ch ops i)"

text \<open>The code of an ASCII character as a rune, and the slice \<open>Src[pos:Pos]\<close>.\<close>

abbreviation rune :: "char \<Rightarrow> int" where
  "rune c \<equiv> int (byte_code c)"

definition src_from :: "'i input \<Rightarrow> nat \<Rightarrow> 'i \<Rightarrow> string" where
  "src_from ops pos i = take (inp_Pos ops i - pos) (drop pos (inp_Src ops i))"

definition inp_rest :: "'i input \<Rightarrow> 'i \<Rightarrow> string" where
  "inp_rest ops i = drop (inp_Pos ops i) (inp_Src ops i)"

section \<open>The contract\<close>

text \<open>
  At the end the character is \<open>EOS\<close>, which is no character, and \<open>Next\<close> stays there. A byte below 128 is a character of
  its own; another byte starts a character that is at least 128 and has one or more bytes. \<open>SkipSpace\<close> stops
  at the first character that is no space; spaces are ASCII. \<open>Accept\<close> moves behind a text that comes next.
\<close>

definition input_ok :: "'i input \<Rightarrow> bool" where
  "input_ok ops \<longleftrightarrow>
     (\<forall>s. inp_Src ops (inp_New ops s) = s \<and> inp_Pos ops (inp_New ops s) = 0) \<and>
     (\<forall>i. inp_Pos ops i \<le> length (inp_Src ops i)) \<and>
     (\<forall>i. inp_Src ops (inp_Next ops i) = inp_Src ops i \<and> inp_Src ops (inp_SkipSpace ops i) = inp_Src ops i) \<and>
     (\<forall>i p. p \<le> length (inp_Src ops i) \<longrightarrow> inp_Src ops (inp_SetPos ops i p) = inp_Src ops i \<and> inp_Pos ops (inp_SetPos ops i p) = p) \<and>
     (\<forall>i s. inp_Src ops (snd (inp_Accept ops i s)) = inp_Src ops i) \<and>
     inp_EOS ops < 0 \<and> (\<forall>c. inp_isSpace ops c \<longrightarrow> 0 \<le> c \<and> c < 128) \<and> inp_isSpace ops (rune (CHR '' '')) \<and>
     (\<forall>c. inp_isSpace ops c \<longrightarrow> \<not> (33 \<le> c \<and> c < 127)) \<and>
     (\<forall>i. inp_rest ops i = [] \<longrightarrow> inp_Ch ops i = inp_EOS ops \<and> inp_Pos ops (inp_Next ops i) = inp_Pos ops i \<and>
        inp_SkipSpace ops i = i) \<and>
     (\<forall>i c r. inp_rest ops i = c # r \<longrightarrow> byte_code c < 128 \<longrightarrow>
        inp_Ch ops i = rune c \<and> inp_Pos ops (inp_Next ops i) = inp_Pos ops i + 1) \<and>
     (\<forall>i c r. inp_rest ops i = c # r \<longrightarrow> 128 \<le> byte_code c \<longrightarrow>
        128 \<le> inp_Ch ops i \<and> inp_Pos ops i < inp_Pos ops (inp_Next ops i)) \<and>
     (\<forall>i. inp_isSpace ops (inp_Ch ops i) \<longrightarrow> inp_SkipSpace ops i = inp_SkipSpace ops (inp_Next ops i)) \<and>
     (\<forall>i. \<not> inp_isSpace ops (inp_Ch ops i) \<longrightarrow> inp_SkipSpace ops i = i) \<and>
     (\<forall>i s. s \<noteq> [] \<longrightarrow> fst (inp_Accept ops i s) = prefix s (inp_rest ops i)) \<and>
     (\<forall>i s. s \<noteq> [] \<longrightarrow> inp_Pos ops (snd (inp_Accept ops i s)) =
        (if prefix s (inp_rest ops i) then inp_Pos ops i + length s else inp_Pos ops i))"

end
