(* ===== verification/InputLaws.thy ===== *)
theory InputLaws
  imports Input
begin

text \<open>What follows from the contract of the input, and an input over plain bytes that meets it.\<close>

section \<open>The contract, law by law\<close>

lemma input_okD:
  assumes "input_ok ops"
  shows in_New: "\<forall>s. inp_Src ops (inp_New ops s) = s \<and> inp_Pos ops (inp_New ops s) = 0"
    and in_le: "\<forall>i. inp_Pos ops i \<le> length (inp_Src ops i)"
    and in_same: "\<forall>i. inp_Src ops (inp_Next ops i) = inp_Src ops i \<and> inp_Src ops (inp_SkipSpace ops i) = inp_Src ops i"
    and in_Set: "\<forall>i p. p \<le> length (inp_Src ops i) \<longrightarrow> inp_Src ops (inp_SetPos ops i p) = inp_Src ops i \<and> inp_Pos ops (inp_SetPos ops i p) = p"
    and in_Acc_Src: "\<forall>i s. inp_Src ops (snd (inp_Accept ops i s)) = inp_Src ops i"
    and in_EOS: "inp_EOS ops < 0"
    and in_space: "\<forall>c. inp_isSpace ops c \<longrightarrow> 0 \<le> c \<and> c < 128"
    and in_blank: "inp_isSpace ops (rune (CHR '' ''))"
    and in_graph: "\<forall>c. inp_isSpace ops c \<longrightarrow> \<not> (33 \<le> c \<and> c < 127)"
    and in_end: "\<forall>i. inp_rest ops i = [] \<longrightarrow> inp_Ch ops i = inp_EOS ops \<and> inp_Pos ops (inp_Next ops i) = inp_Pos ops i \<and>
        inp_SkipSpace ops i = i"
    and in_ascii: "\<forall>i c r. inp_rest ops i = c # r \<longrightarrow> byte_code c < 128 \<longrightarrow>
        inp_Ch ops i = rune c \<and> inp_Pos ops (inp_Next ops i) = inp_Pos ops i + 1"
    and in_wide: "\<forall>i c r. inp_rest ops i = c # r \<longrightarrow> 128 \<le> byte_code c \<longrightarrow>
        128 \<le> inp_Ch ops i \<and> inp_Pos ops i < inp_Pos ops (inp_Next ops i)"
    and in_Skip: "\<forall>i. inp_isSpace ops (inp_Ch ops i) \<longrightarrow> inp_SkipSpace ops i = inp_SkipSpace ops (inp_Next ops i)"
    and in_Skip_id: "\<forall>i. \<not> inp_isSpace ops (inp_Ch ops i) \<longrightarrow> inp_SkipSpace ops i = i"
    and in_Acc: "\<forall>i s. s \<noteq> [] \<longrightarrow> fst (inp_Accept ops i s) = prefix s (inp_rest ops i)"
    and in_Acc_Pos: "\<forall>i s. s \<noteq> [] \<longrightarrow> inp_Pos ops (snd (inp_Accept ops i s)) =
        (if prefix s (inp_rest ops i) then inp_Pos ops i + length s else inp_Pos ops i)"
  using assms [unfolded input_ok_def] by - (elim conjE, assumption)+

section \<open>What comes next\<close>

text \<open>\<open>at_text ops src s i\<close>: the input \<open>i\<close> reads \<open>src\<close>, and \<open>s\<close> is what is left of it.\<close>

definition at_text :: "'i input \<Rightarrow> string \<Rightarrow> string \<Rightarrow> 'i \<Rightarrow> bool" where
  "at_text ops src s i \<longleftrightarrow> inp_Src ops i = src \<and> inp_rest ops i = s"

lemma at_New: "input_ok ops \<Longrightarrow> at_text ops s s (inp_New ops s)"
  using in_New [of ops] by (simp add: at_text_def inp_rest_def)

lemma in_Pos_le: "input_ok ops \<Longrightarrow> inp_Pos ops i \<le> length (inp_Src ops i)"
  using in_le [of ops] by simp

lemma at_Pos: "input_ok ops \<Longrightarrow> at_text ops src s i \<Longrightarrow> inp_Pos ops i + length s = length src"
  using in_Pos_le [of ops i] by (auto simp: at_text_def inp_rest_def)

lemma in_Src [simp]: "input_ok ops \<Longrightarrow> inp_Src ops (inp_Next ops i) = inp_Src ops i"
    "input_ok ops \<Longrightarrow> inp_Src ops (inp_SkipSpace ops i) = inp_Src ops i"
    "input_ok ops \<Longrightarrow> inp_Src ops (snd (inp_Accept ops i s)) = inp_Src ops i"
  using in_same [of ops] in_Acc_Src [of ops] by simp_all

lemma at_same: "at_text ops src s i \<Longrightarrow> at_text ops src s j \<Longrightarrow> input_ok ops \<Longrightarrow> inp_Pos ops i = inp_Pos ops j"
  using at_Pos [of ops src s i] at_Pos [of ops src s j] by linarith

lemma drop_rest: "input_ok ops \<Longrightarrow> inp_rest ops i = w @ t \<Longrightarrow> inp_Src ops j = inp_Src ops i \<Longrightarrow>
    inp_Pos ops j = inp_Pos ops i + length w \<Longrightarrow> inp_rest ops j = t"
  unfolding inp_rest_def by (metis add.commute append_eq_conv_conj drop_drop)

lemma at_step: "input_ok ops \<Longrightarrow> at_text ops src (w @ t) i \<Longrightarrow> inp_Src ops j = inp_Src ops i \<Longrightarrow>
    inp_Pos ops j = inp_Pos ops i + length w \<Longrightarrow> at_text ops src t j"
  using drop_rest [of ops i w t j] by (simp add: at_text_def)

lemma at_src_from: "input_ok ops \<Longrightarrow> at_text ops src (w @ t) i \<Longrightarrow> at_text ops src t j \<Longrightarrow>
    src_from ops (inp_Pos ops i) j = w"
  using at_Pos [of ops src "w @ t" i] at_Pos [of ops src t j]
  unfolding src_from_def by (simp add: at_text_def inp_rest_def) (metis add_diff_cancel_left' add_diff_cancel_right' append_eq_conv_conj add.assoc)

lemma at_SetPos: "input_ok ops \<Longrightarrow> at_text ops src s i \<Longrightarrow> inp_Src ops j = src \<Longrightarrow>
    at_text ops src s (inp_SetPos ops j (inp_Pos ops i))"
  using in_Pos_le [of ops i] in_Set [of ops] by (auto simp: at_text_def inp_rest_def)

lemma at_Nil: "input_ok ops \<Longrightarrow> at_text ops src [] i \<Longrightarrow> inp_Ch ops i = inp_EOS ops"
  using in_end [of ops] by (simp add: at_text_def)

lemma at_Ch: "input_ok ops \<Longrightarrow> at_text ops src (c # t) i \<Longrightarrow> byte_code c < 128 \<Longrightarrow> inp_Ch ops i = rune c"
  using in_ascii [of ops] by (simp add: at_text_def)

lemma at_Next:
  assumes "input_ok ops" "at_text ops src (c # t) i" "byte_code c < 128"
  shows "at_text ops src t (inp_Next ops i)"
proof -
  have "inp_Pos ops (inp_Next ops i) = inp_Pos ops i + 1"
    using assms in_ascii [of ops] by (simp add: at_text_def)
  then show ?thesis using assms(1,2) at_step [of ops src "[c]" t i "inp_Next ops i"] by simp
qed

lemma Next_advances:
  assumes "input_ok ops" "inp_Ch ops i \<noteq> inp_EOS ops"
  shows "inp_Pos ops i < inp_Pos ops (inp_Next ops i)"
proof (cases "inp_rest ops i")
  case Nil
  then show ?thesis using assms in_end [of ops] by simp
next
  case (Cons c t)
  then show ?thesis
  proof (cases "byte_code c < 128")
    case True
    then have "inp_Pos ops (inp_Next ops i) = inp_Pos ops i + 1" using Cons assms(1) in_ascii [of ops] by simp
    then show ?thesis by simp
  next
    case False
    then have "128 \<le> byte_code c" by simp
    then show ?thesis using Cons assms(1) in_wide [of ops] by simp
  qed
qed

lemma EOS_neg: "input_ok ops \<Longrightarrow> inp_EOS ops < 0"
  by (rule in_EOS)

lemma space_not_EOS: "input_ok ops \<Longrightarrow> inp_isSpace ops (inp_Ch ops i) \<Longrightarrow> inp_Ch ops i \<noteq> inp_EOS ops"
  using in_space [of ops] in_EOS [of ops] by (metis not_le)

lemma Skip_space: "input_ok ops \<Longrightarrow> inp_isSpace ops (inp_Ch ops i) \<Longrightarrow> inp_SkipSpace ops i = inp_SkipSpace ops (inp_Next ops i)"
  using in_Skip [of ops] by blast

lemma Skip_id: "input_ok ops \<Longrightarrow> \<not> inp_isSpace ops (inp_Ch ops i) \<Longrightarrow> inp_SkipSpace ops i = i"
  using in_Skip_id [of ops] by blast

text \<open>Skipping never goes back, and does not stop at a space.\<close>

lemma Skip_spec:
  assumes ok: "input_ok ops"
  shows "inp_Pos ops i \<le> inp_Pos ops (inp_SkipSpace ops i) \<and> \<not> inp_isSpace ops (inp_Ch ops (inp_SkipSpace ops i))"
proof (induction "length (inp_Src ops i) - inp_Pos ops i" arbitrary: i rule: less_induct)
  case less
  show ?case
  proof (cases "inp_isSpace ops (inp_Ch ops i)")
    case True
    have a: "inp_Pos ops i < inp_Pos ops (inp_Next ops i)"
      using Next_advances [OF ok space_not_EOS [OF ok True]] .
    have "inp_Pos ops (inp_Next ops i) \<le> length (inp_Src ops (inp_Next ops i))" by (rule in_Pos_le [OF ok])
    then have "length (inp_Src ops (inp_Next ops i)) - inp_Pos ops (inp_Next ops i) < length (inp_Src ops i) - inp_Pos ops i"
      using a ok by simp
    note ih = less.hyps [OF this]
    show ?thesis unfolding Skip_space [OF ok True] using ih a by linarith
  qed (simp add: Skip_id [OF ok])
qed

lemma Accept_iff: "input_ok ops \<Longrightarrow> s \<noteq> [] \<Longrightarrow> fst (inp_Accept ops i s) \<longleftrightarrow> prefix s (inp_rest ops i)"
  using in_Acc [of ops] by blast

lemma Accept_Pos: "input_ok ops \<Longrightarrow> s \<noteq> [] \<Longrightarrow> inp_Pos ops (snd (inp_Accept ops i s)) =
    (if prefix s (inp_rest ops i) then inp_Pos ops i + length s else inp_Pos ops i)"
  using in_Acc_Pos [of ops] by blast

lemma at_Accept: "input_ok ops \<Longrightarrow> s \<noteq> [] \<Longrightarrow> at_text ops src (s @ t) i \<Longrightarrow>
    fst (inp_Accept ops i s) \<and> at_text ops src t (snd (inp_Accept ops i s))"
  using at_step [of ops src s t i "snd (inp_Accept ops i s)"] by (simp add: Accept_iff Accept_Pos at_text_def)

section \<open>An input over bytes\<close>

text \<open>
  An instance of the contract: the input is the source and the position, each byte is a character, the spaces are
  those of ASCII.
\<close>

definition byte_at :: "string \<times> nat \<Rightarrow> int" where
  "byte_at i = (case drop (snd i) (fst i) of [] \<Rightarrow> -1 | c # _ \<Rightarrow> rune c)"

definition space_rune :: "int \<Rightarrow> bool" where
  "space_rune c \<longleftrightarrow> c = 32 \<or> (9 \<le> c \<and> c \<le> 13)"

definition byte_skip :: "string \<times> nat \<Rightarrow> string \<times> nat" where
  "byte_skip i = (fst i, snd i + length (takeWhile (\<lambda>c. space_rune (rune c)) (drop (snd i) (fst i))))"

definition byte_input :: "(string \<times> nat) input" where
  "byte_input =
     \<lparr>inp_New = (\<lambda>s. (s, 0)), inp_Src = fst, inp_Pos = (\<lambda>i. min (snd i) (length (fst i))), inp_Ch = byte_at,
      inp_Next = (\<lambda>i. if snd i < length (fst i) then (fst i, snd i + 1) else i),
      inp_SetPos = (\<lambda>i p. (fst i, p)),
      inp_SkipSpace = byte_skip,
      inp_SkipToEOL = (\<lambda>i. (fst i, snd i + length (takeWhile (\<lambda>c. c \<noteq> CHR 0x0A) (drop (snd i) (fst i))))),
      inp_Accept = (\<lambda>i s. if s \<noteq> [] \<and> prefix s (drop (snd i) (fst i)) then (True, (fst i, snd i + length s)) else (False, i)),
      inp_ScanLineContent = (\<lambda>i. drop (snd i) (fst i)),
      inp_EOS = -1, inp_isSpace = space_rune, inp_isEOLEOS = (\<lambda>c. c = 10 \<or> c = -1)\<rparr>"

lemma byte_rest: "inp_rest byte_input i = drop (snd i) (fst i)"
  by (simp add: inp_rest_def byte_input_def min_def)

lemma byte_skip_space:
  assumes "space_rune (byte_at i)"
  shows "byte_skip i = byte_skip (fst i, snd i + 1)" and "snd i < length (fst i)"
proof -
  obtain c t where d: "drop (snd i) (fst i) = c # t" "space_rune (rune c)"
    using assms by (auto simp: byte_at_def space_rune_def split: list.splits)
  then have "drop (snd i + 1) (fst i) = t" by (metis add.commute drop0 drop_Suc_Cons drop_drop plus_1_eq_Suc)
  then show "byte_skip i = byte_skip (fst i, snd i + 1)" using d by (simp add: byte_skip_def)
  show "snd i < length (fst i)" using d(1) by (metis drop_eq_Nil linorder_not_le list.distinct(1))
qed

lemma byte_skip_id: "\<not> space_rune (byte_at i) \<Longrightarrow> byte_skip i = i"
  by (cases i, cases "drop (snd i) (fst i)") (simp_all add: byte_skip_def byte_at_def)

lemma byte_input_ok: "input_ok byte_input"
  unfolding input_ok_def byte_rest
proof (intro conjI allI impI)
  fix i :: "string \<times> nat" and c r
  assume d: "drop (snd i) (fst i) = c # r"
  then have l: "snd i < length (fst i)" by (metis drop_eq_Nil linorder_not_le list.distinct(1))
  show "inp_Ch byte_input i = rune c" using d by (simp add: byte_input_def byte_at_def)
  show "inp_Pos byte_input (inp_Next byte_input i) = inp_Pos byte_input i + 1" using l by (simp add: byte_input_def)
  show "inp_Pos byte_input i < inp_Pos byte_input (inp_Next byte_input i)" using l by (simp add: byte_input_def)
  show "128 \<le> inp_Ch byte_input i" if "128 \<le> byte_code c" using d that by (simp add: byte_input_def byte_at_def)
next
  fix i :: "string \<times> nat"
  assume "inp_isSpace byte_input (inp_Ch byte_input i)"
  then show "inp_SkipSpace byte_input i = inp_SkipSpace byte_input (inp_Next byte_input i)"
    using byte_skip_space [of i] by (simp add: byte_input_def)
next
  fix i :: "string \<times> nat"
  assume "\<not> inp_isSpace byte_input (inp_Ch byte_input i)"
  then show "inp_SkipSpace byte_input i = i" by (simp add: byte_input_def byte_skip_id)
next
  fix i :: "string \<times> nat" and s :: string
  assume "s \<noteq> []"
  moreover have "prefix s (drop (snd i) (fst i)) \<Longrightarrow> snd i + length s \<le> length (fst i)"
    using prefix_length_le [of s "drop (snd i) (fst i)"] \<open>s \<noteq> []\<close> by (cases s) auto
  ultimately show "inp_Pos byte_input (snd (inp_Accept byte_input i s)) =
      (if prefix s (drop (snd i) (fst i)) then inp_Pos byte_input i + length s else inp_Pos byte_input i)"
    by (auto simp: byte_input_def min_def)
qed (auto simp: byte_input_def byte_at_def byte_code_def space_rune_def byte_skip_def)

end
