(* ===== verification/QueryPrint.thy ===== *)
theory QueryPrint
  imports Query Words
begin

text \<open>
  Printing a query (\<open>query/print.go\<close>, and the \<open>Print\<close> methods of the directives in \<open>context.go\<close>, \<open>specs.go\<close>,
  \<open>unlinked.go\<close>): the text that the parser reads again, and a text for humans.
\<close>

section \<open>Words of the query language\<close>

text \<open>
  The words of directives and the operator texts are constants of the client library; \<open>api_op\<close> gives the text
  of an operator, \<open>api_not\<close> the short form of "no match".
\<close>

datatype qword = ContextDirective | FullDirective | BackwardDirective | ForwardDirective | CostDirective
  | MaxDirective | IdentDirective | ItemsDirective | UnlinkedDirective | PhraseDirective | OrDirective
  | RandomDirective | PickDirective | OrderDirective | ReverseDirective | OffsetDirective | LimitDirective

record query_lang =
  api_word :: "qword \<Rightarrow> string"
  api_op :: "compareOp \<Rightarrow> string"
  api_not :: string

text \<open>\<open>op2string\<close> has an entry for every operation but \<open>cmpUnknown\<close>.\<close>

definition op2string :: "query_lang \<Rightarrow> compareOp \<Rightarrow> string option" where
  "op2string ql op = (if op = cmpUnknown then None else Some (api_op ql op))"

text \<open>The operation \<open>cmpUnknown\<close> is the number 0.\<close>

definition op_string :: "query_lang \<Rightarrow> compareOp \<Rightarrow> string" where
  "op_string ql op = (case op2string ql op of Some s \<Rightarrow> s | None \<Rightarrow> ''%'' @ strconv_Itoa 0)"

section \<open>The environment\<close>

text \<open>What was written, and whether a space comes before the next word. The errors of the writer are ignored.\<close>

record PrintEnv =
  pe_w :: string
  pe_space :: bool

definition pe_writeString :: "string \<Rightarrow> PrintEnv \<Rightarrow> PrintEnv" where
  "pe_writeString s pe = pe\<lparr>pe_w := pe_w pe @ s\<rparr>"

definition pe_write :: "char \<Rightarrow> PrintEnv \<Rightarrow> PrintEnv" where
  "pe_write c pe = pe\<lparr>pe_w := pe_w pe @ [c]\<rparr>"

definition writeStrings :: "string list \<Rightarrow> PrintEnv \<Rightarrow> PrintEnv" where
  "writeStrings ss pe = fold pe_writeString ss pe"

definition printSpace :: "PrintEnv \<Rightarrow> PrintEnv" where
  "printSpace pe = (if pe_space pe then pe_writeString '' '' pe else pe\<lparr>pe_space := True\<rparr>)"

fun printZids_loop :: "bool \<Rightarrow> zid list \<Rightarrow> PrintEnv \<Rightarrow> PrintEnv" where
  "printZids_loop first [] pe = pe"
| "printZids_loop first (zid # zids) pe =
     (let pe = (if first then pe else printSpace pe);
          pe = pe_writeString (zid_String zid) pe
      in printZids_loop False zids (pe\<lparr>pe_space := True\<rparr>))"

definition printZids :: "zid list \<Rightarrow> PrintEnv \<Rightarrow> PrintEnv" where
  "printZids zids pe = printZids_loop True zids pe"

definition print_op :: "query_lang \<Rightarrow> string \<Rightarrow> compareOp \<Rightarrow> PrintEnv \<Rightarrow> PrintEnv" where
  "print_op ql key op pe =
     (if op = cmpMatch then (if key \<noteq> [] then pe_writeString (api_op ql cmpMatch) pe else pe)
      else if op = cmpNoMatch then
        (if key = [] then pe_writeString (api_not ql) pe else pe_writeString (api_op ql cmpNoMatch) pe)
      else pe_writeString (op_string ql op) pe)"

definition printExprValue :: "query_lang \<Rightarrow> string \<Rightarrow> expValue \<Rightarrow> PrintEnv \<Rightarrow> PrintEnv" where
  "printExprValue ql key val pe =
     (let pe = print_op ql key (ev_op val) (pe_writeString key (printSpace pe)) in
      if ev_value val \<noteq> [] then pe_writeString (ev_value val) pe else pe)"

definition printExprValues :: "query_lang \<Rightarrow> string \<Rightarrow> expValue list \<Rightarrow> PrintEnv \<Rightarrow> PrintEnv" where
  "printExprValues ql key values pe = fold (printExprValue ql key) values pe"

definition printOrder1 :: "query_lang \<Rightarrow> sortOrder \<Rightarrow> PrintEnv \<Rightarrow> PrintEnv" where
  "printOrder1 ql o' pe =
     (if isRandom o' then pe_writeString (api_word ql RandomDirective) (printSpace pe)
      else
        let pe = pe_writeString (api_word ql OrderDirective) (printSpace pe);
            pe = (if so_descending o' then pe_writeString (api_word ql ReverseDirective) (printSpace pe) else pe)
        in pe_writeString (so_key o') (printSpace pe))"

definition printOrder :: "query_lang \<Rightarrow> sortOrder list \<Rightarrow> PrintEnv \<Rightarrow> PrintEnv" where
  "printOrder ql order pe = fold (printOrder1 ql) order pe"

definition printPosInt :: "string \<Rightarrow> int \<Rightarrow> PrintEnv \<Rightarrow> PrintEnv" where
  "printPosInt key val pe =
     (if 0 < val then writeStrings [key, '' '', strconv_Itoa val] (printSpace pe) else pe)"

definition printActions :: "string list \<Rightarrow> PrintEnv \<Rightarrow> PrintEnv" where
  "printActions words pe =
     (if words \<noteq> [] then
        fold (\<lambda>word pe. pe_writeString word (printSpace pe)) words (pe_write (CHR ''|'') (printSpace pe))
      else pe)"

section \<open>Directives\<close>

definition printContext :: "query_lang \<Rightarrow> ContextSpec \<Rightarrow> PrintEnv \<Rightarrow> PrintEnv" where
  "printContext ql spec pe =
     (let pe = pe_writeString (api_word ql ContextDirective) (printSpace pe);
          pe = (if FullContext spec then pe_writeString (api_word ql FullDirective) (printSpace pe) else pe);
          pe = (case Direction spec of
                  ContextDirBackward \<Rightarrow> pe_writeString (api_word ql BackwardDirective) (printSpace pe)
                | ContextDirForward \<Rightarrow> pe_writeString (api_word ql ForwardDirective) (printSpace pe)
                | ContextDirBoth \<Rightarrow> pe);
          pe = printPosInt (api_word ql CostDirective) (MaxCost spec) pe
      in printPosInt (api_word ql MaxDirective) (MaxCount spec) pe)"

definition printUnlinked :: "query_lang \<Rightarrow> string list \<Rightarrow> PrintEnv \<Rightarrow> PrintEnv" where
  "printUnlinked ql words pe =
     fold (\<lambda>word. writeStrings ['' '', api_word ql PhraseDirective, '' '', word]) words
       (pe_writeString (api_word ql UnlinkedDirective) (printSpace pe))"

fun printDirective :: "query_lang \<Rightarrow> Directive \<Rightarrow> PrintEnv \<Rightarrow> PrintEnv" where
  "printDirective ql (DirContext spec) pe = printContext ql spec pe"
| "printDirective ql DirIdent pe = pe_writeString (api_word ql IdentDirective) (printSpace pe)"
| "printDirective ql DirItems pe = pe_writeString (api_word ql ItemsDirective) (printSpace pe)"
| "printDirective ql (DirUnlinked words) pe = printUnlinked ql words pe"

section \<open>The parseable form\<close>

definition value_at :: "('k, 'v) gomap \<Rightarrow> 'k \<Rightarrow> 'v \<Rightarrow> 'v" where
  "value_at m k d = (case gm_get m k of Some v \<Rightarrow> v | None \<Rightarrow> d)"

definition printKey :: "query_lang \<Rightarrow> keyExistMap \<Rightarrow> string \<Rightarrow> PrintEnv \<Rightarrow> PrintEnv" where
  "printKey ql keys name pe =
     (let pe = pe_writeString name (printSpace pe); op = value_at keys name cmpUnknown in
      if op = cmpExist \<or> op = cmpNotExist then pe_writeString (op_string ql op) pe
      else writeStrings [api_op ql cmpExist, '' '', name, api_op ql cmpNotExist] pe)"

definition printTerm :: "zsc \<Rightarrow> query_lang \<Rightarrow> conjTerms \<Rightarrow> PrintEnv \<Rightarrow> PrintEnv" where
  "printTerm z ql term pe =
     (let pe = fold (printKey ql (ct_keys term)) (maps_Keys z (gm_keys (ct_keys term))) pe;
          pe = fold (\<lambda>name. printExprValues ql name (value_at (ct_mvals term) name [])) (maps_Keys z (gm_keys (ct_mvals term))) pe
      in if 0 < length (ct_search term) then printExprValues ql [] (ct_search term) pe else pe)"

fun printTerms :: "zsc \<Rightarrow> query_lang \<Rightarrow> bool \<Rightarrow> conjTerms list \<Rightarrow> PrintEnv \<Rightarrow> PrintEnv" where
  "printTerms z ql first [] pe = pe"
| "printTerms z ql first (term # terms) pe =
     printTerms z ql False terms
       (printTerm z ql term (if first then pe else pe_writeString ('' '' @ api_word ql OrDirective) pe))"

definition q_Print :: "zsc \<Rightarrow> query_lang \<Rightarrow> query option \<Rightarrow> string" where
  "q_Print z ql q =
     (case q of
        None \<Rightarrow> []
      | Some q \<Rightarrow>
          let pe = \<lparr>pe_w = [], pe_space = False\<rparr>;
              pe = printZids (q_zids q) pe;
              pe = fold (printDirective ql) (q_directives q) pe;
              pe = printTerms z ql True (q_terms q) pe;
              pe = printPosInt (api_word ql PickDirective) (q_pick q) pe;
              pe = printOrder ql (q_order q) pe;
              pe = printPosInt (api_word ql OffsetDirective) (q_offset q) pe;
              pe = printPosInt (api_word ql LimitDirective) (q_limit q) pe
          in pe_w (printActions (q_actions q) pe))"

definition q_String :: "zsc \<Rightarrow> query_lang \<Rightarrow> query option \<Rightarrow> string" where
  "q_String z ql q = q_Print z ql q"

section \<open>The form for humans\<close>

definition human_op :: "compareOp \<Rightarrow> string" where
  "human_op op =
     (case op of
        cmpEqual \<Rightarrow> '' EQUALS '' | cmpNotEqual \<Rightarrow> '' EQUALS NOT ''
      | cmpHas \<Rightarrow> '' HAS '' | cmpHasNot \<Rightarrow> '' HAS NOT ''
      | cmpPrefix \<Rightarrow> '' PREFIX '' | cmpNoPrefix \<Rightarrow> '' NOT PREFIX ''
      | cmpSuffix \<Rightarrow> '' SUFFIX '' | cmpNoSuffix \<Rightarrow> '' NOT SUFFIX ''
      | cmpMatch \<Rightarrow> '' MATCH '' | cmpNoMatch \<Rightarrow> '' NOT MATCH ''
      | cmpLess \<Rightarrow> '' LESS '' | cmpNoLess \<Rightarrow> '' NOT LESS ''
      | cmpGreater \<Rightarrow> '' GREATER '' | cmpNoGreater \<Rightarrow> '' NOT GREATER ''
      | _ \<Rightarrow> '' MaTcH '')"

definition human_value :: "expValue \<Rightarrow> string" where
  "human_value val = human_op (ev_op val) @ (if ev_value val = [] then ''NOTHING'' else ev_value val)"

fun human_values :: "bool \<Rightarrow> expValue list \<Rightarrow> PrintEnv \<Rightarrow> PrintEnv" where
  "human_values first [] pe = pe"
| "human_values first (val # values) pe =
     human_values False values
       (pe_writeString (human_value val) (if first then pe else pe_writeString '' AND'' pe))"

definition printHumanSelectExprValues :: "expValue list \<Rightarrow> PrintEnv \<Rightarrow> PrintEnv" where
  "printHumanSelectExprValues values pe =
     (if values = [] then pe_writeString '' MATCH ANY'' pe else human_values True values pe)"

definition and_if :: "string \<Rightarrow> PrintEnv \<Rightarrow> PrintEnv" where
  "and_if s pe = (if pe_space pe then pe_writeString s pe else pe)"

text \<open>The cat is spelled in UTF-8.\<close>

definition human_key :: "keyExistMap \<Rightarrow> string \<Rightarrow> PrintEnv \<Rightarrow> PrintEnv" where
  "human_key keys name pe =
     (let pe = pe_writeString name (and_if '' AND '' pe);
          pe = pe_writeString
            (case value_at keys name cmpUnknown of
               cmpExist \<Rightarrow> '' EXIST''
             | cmpNotExist \<Rightarrow> '' NOT EXIST''
             | _ \<Rightarrow> '' IS SCHR'' @ [CHR 0xC3, CHR 0x96] @ ''DINGER'' @ [CHR 0x27] @ ''S CAT'') pe
      in pe\<lparr>pe_space := True\<rparr>)"

definition human_mvals :: "expMetaValues \<Rightarrow> string \<Rightarrow> PrintEnv \<Rightarrow> PrintEnv" where
  "human_mvals mvals name pe =
     (let pe = pe_writeString name (and_if '' AND '' pe);
          pe = printHumanSelectExprValues (value_at mvals name []) pe
      in pe\<lparr>pe_space := True\<rparr>)"

definition human_search :: "expValue list \<Rightarrow> PrintEnv \<Rightarrow> PrintEnv" where
  "human_search search pe =
     (if 0 < length search then
        (printHumanSelectExprValues search (pe_writeString ''ANY'' (and_if '' '' pe)))\<lparr>pe_space := True\<rparr>
      else pe)"

fun human_terms :: "zsc \<Rightarrow> bool \<Rightarrow> conjTerms list \<Rightarrow> PrintEnv \<Rightarrow> PrintEnv" where
  "human_terms z first [] pe = pe"
| "human_terms z first (term # terms) pe =
     (let pe = (if first then pe else (pe_writeString '' OR '' pe)\<lparr>pe_space := False\<rparr>);
          pe = fold (human_key (ct_keys term)) (maps_Keys z (gm_keys (ct_keys term))) pe;
          pe = fold (human_mvals (ct_mvals term)) (maps_Keys z (gm_keys (ct_mvals term))) pe
      in human_terms z False terms (human_search (ct_search term) pe))"

definition PrintHuman :: "zsc \<Rightarrow> query_lang \<Rightarrow> query option \<Rightarrow> string" where
  "PrintHuman z ql q =
     (case q of
        None \<Rightarrow> []
      | Some q \<Rightarrow>
          let pe = \<lparr>pe_w = [], pe_space = False\<rparr>;
              pe = printZids (q_zids q) pe;
              pe = fold (printDirective ql) (q_directives q) pe;
              pe = human_terms z True (q_terms q) pe;
              pe = printPosInt (api_word ql PickDirective) (q_pick q) pe;
              pe = printOrder ql (q_order q) pe;
              pe = printPosInt (api_word ql OffsetDirective) (q_offset q) pe;
              pe = printPosInt (api_word ql LimitDirective) (q_limit q) pe
          in pe_w (printActions (q_actions q) pe))"

definition q_Human :: "zsc \<Rightarrow> query_lang \<Rightarrow> query option \<Rightarrow> string" where
  "q_Human z ql q = PrintHuman z ql q"

section \<open>Unlinked references\<close>

definition GetWords :: "unicode \<Rightarrow> zsc \<Rightarrow> string list \<Rightarrow> meta list \<Rightarrow> string list" where
  "GetWords u z words metaSeq =
     (if 0 < length words then words
      else concat (map (\<lambda>m. case meta_Get z m (api_key z KeyTitle) of None \<Rightarrow> [] | Some title \<Rightarrow> MakeWords u title) metaSeq))"

end
