(* ===== verification/QueryParse.thy ===== *)
theory QueryParse
  imports QueryPrint QueryLaws Input
begin

text \<open>
  The query parser (\<open>query/parser.go\<close>). The parser state is the input, the query may be \<open>nil\<close>; \<open>None\<close> is a
  loop without end or a panic, such as the one of \<open>q.terms[len(q.terms)-1]\<close> without a term.
\<close>

section \<open>Scanning\<close>

definition mustStop :: "'i input \<Rightarrow> 'i \<Rightarrow> bool" where
  "mustStop ops i \<longleftrightarrow> inp_Ch ops i = inp_EOS ops"

definition isActionSep :: "'i input \<Rightarrow> 'i \<Rightarrow> bool" where
  "isActionSep ops i \<longleftrightarrow> inp_Ch ops i = rune (CHR ''|'')"

definition word_end :: "'i input \<Rightarrow> 'i \<Rightarrow> bool" where
  "word_end ops i \<longleftrightarrow> inp_IsSpace ops i \<or> isActionSep ops i \<or> mustStop ops i"

definition acceptSingleKw :: "'i input \<Rightarrow> 'i \<Rightarrow> string \<Rightarrow> bool \<times> 'i" where
  "acceptSingleKw ops i s = (case inp_Accept ops i s of (ok, i) \<Rightarrow> (ok \<and> word_end ops i, i))"

definition acceptKwArgs :: "'i input \<Rightarrow> 'i \<Rightarrow> string \<Rightarrow> bool \<times> 'i" where
  "acceptKwArgs ops i s =
     (case inp_Accept ops i s of (ok, i) \<Rightarrow> if ok \<and> inp_IsSpace ops i then (True, inp_SkipSpace ops i) else (False, i))"

definition word_step :: "'i input \<Rightarrow> 'i \<Rightarrow> ('i + 'i) option" where
  "word_step ops i = Some (if \<not> word_end ops i then Inl (inp_Next ops i) else Inr i)"

definition scanWord :: "'i input \<Rightarrow> 'i \<Rightarrow> (string \<times> 'i) option" where
  "scanWord ops i = map_option (\<lambda>j. (src_from ops (inp_Pos ops i) j, j)) (go_loop (word_step ops) i)"

definition scanPosInt :: "'i input \<Rightarrow> 'i \<Rightarrow> (int option \<times> 'i) option" where
  "scanPosInt ops i =
     map_option (\<lambda>(word, i).
       (if length word = 0 then None
        else case strconv_ParseUint word 10 63 of Inl e \<Rightarrow> None | Inr uval \<Rightarrow> Some (int uval), i)) (scanWord ops i)"

definition scanZid :: "'i input \<Rightarrow> 'i \<Rightarrow> ((zid \<times> bool) \<times> 'i) option" where
  "scanZid ops i =
     map_option (\<lambda>(word, i).
       (if length word = 0 then (Invalid, False)
        else case ParseUint word of
            Inl e \<Rightarrow> (Invalid, False)
          | Inr uval \<Rightarrow> let zid = word_of_nat uval in (zid, IsValid zid), i)) (scanWord ops i)"

definition op_of_char :: "int \<Rightarrow> compareOp option" where
  "op_of_char ch =
     (if ch = rune (CHR ''?'') then Some cmpExist
      else if ch = rune (CHR ''='') then Some cmpEqual
      else if ch = rune (CHR '':'') then Some cmpHas
      else if ch = rune (CHR '']'') then Some cmpSuffix
      else if ch = rune (CHR ''['') then Some cmpPrefix
      else if ch = rune (CHR ''~'') then Some cmpMatch
      else if ch = rune (CHR ''<'') then Some cmpLess
      else if ch = rune (CHR ''>'') then Some cmpGreater
      else None)"

definition scanSearchOp :: "'i input \<Rightarrow> 'i \<Rightarrow> (compareOp \<times> bool) \<times> 'i" where
  "scanSearchOp ops i =
     (let negated = (inp_Ch ops i = rune (CHR ''!''));
          i = (if negated then inp_Next ops i else i)
      in case op_of_char (inp_Ch ops i) of
          None \<Rightarrow> (if negated then (cmpNoMatch, True) else (cmpUnknown, False), i)
        | Some op \<Rightarrow> ((if negated then negate op else op, True), inp_Next ops i))"

definition op_char :: "int \<Rightarrow> bool" where
  "op_char ch \<longleftrightarrow> ch = rune (CHR ''!'') \<or> op_of_char ch \<noteq> None"

text \<open>The result is a text and a key; the key is \<open>nil\<close> or not empty.\<close>

definition text_step :: "'i input \<Rightarrow> nat \<Rightarrow> bool \<times> 'i \<Rightarrow> ((bool \<times> 'i) + (string \<times> string option \<times> 'i)) option" where
  "text_step ops pos st =
     (case st of (allowKey, i) \<Rightarrow>
        if word_end ops i then Some (Inr (src_from ops pos i, None, i))
        else if allowKey \<and> op_char (inp_Ch ops i) then
          (let key = src_from ops pos i in
           if KeyIsValid key then Some (Inr ([], Some key, i)) else Some (Inl (False, inp_Next ops i)))
        else Some (Inl (allowKey, inp_Next ops i)))"

definition scanSearchTextOrKey :: "'i input \<Rightarrow> bool \<Rightarrow> 'i \<Rightarrow> (string \<times> string option \<times> 'i) option" where
  "scanSearchTextOrKey ops hasOp i = go_loop (text_step ops (inp_Pos ops i)) (\<not> hasOp, i)"

section \<open>Numbers and orders\<close>

type_synonym 'i parsed = "(query option \<times> bool \<times> 'i) option"

definition parse_num :: "'i input \<Rightarrow> (int \<Rightarrow> query \<Rightarrow> query) \<Rightarrow> query option \<Rightarrow> 'i \<Rightarrow> 'i parsed" where
  "parse_num ops upd q i =
     map_option (\<lambda>(num, i). case num of None \<Rightarrow> (q, False, i) | Some n \<Rightarrow> (Some (upd n (createIfNeeded q)), True, i))
       (scanPosInt ops i)"

definition parsePick :: "'i input \<Rightarrow> query option \<Rightarrow> 'i \<Rightarrow> 'i parsed" where
  "parsePick ops = parse_num ops (\<lambda>num q. if q_pick q = 0 \<or> num \<le> q_pick q then q\<lparr>q_pick := num\<rparr> else q)"

definition parseOffset :: "'i input \<Rightarrow> query option \<Rightarrow> 'i \<Rightarrow> 'i parsed" where
  "parseOffset ops = parse_num ops (\<lambda>num q. if q_offset q \<le> num then q\<lparr>q_offset := num\<rparr> else q)"

definition parseLimit :: "'i input \<Rightarrow> query option \<Rightarrow> 'i \<Rightarrow> 'i parsed" where
  "parseLimit ops = parse_num ops (\<lambda>num q. if q_limit q = 0 \<or> num \<le> q_limit q then q\<lparr>q_limit := num\<rparr> else q)"

definition add_order :: "sortOrder \<Rightarrow> query \<Rightarrow> query" where
  "add_order so q =
     (let q = (case q_order q of [o'] \<Rightarrow> if isRandom o' then q\<lparr>q_order := []\<rparr> else q | _ \<Rightarrow> q)
      in q\<lparr>q_order := q_order q @ [so]\<rparr>)"

definition parseOrder :: "'i input \<Rightarrow> query_lang \<Rightarrow> query option \<Rightarrow> 'i \<Rightarrow> 'i parsed" where
  "parseOrder ops ql q i =
     (case acceptKwArgs ops i (api_word ql ReverseDirective) of (reverse, i) \<Rightarrow>
        map_option (\<lambda>(word, i).
          if length word = 0 then (q, False, i)
          else if KeyIsValid word then
            (Some (add_order \<lparr>so_key = word, so_descending = reverse\<rparr> (createIfNeeded q)), True, i)
          else (q, False, i)) (scanWord ops i))"

section \<open>Directives\<close>

definition least_num :: "int \<Rightarrow> int \<Rightarrow> int" where
  "least_num old num = (if old = 0 \<or> num \<le> old then num else old)"

definition parseCost :: "'i input \<Rightarrow> ContextSpec \<Rightarrow> 'i \<Rightarrow> (ContextSpec \<times> bool \<times> 'i) option" where
  "parseCost ops spec i =
     map_option (\<lambda>(num, i). case num of
         None \<Rightarrow> (spec, False, i)
       | Some n \<Rightarrow> (spec\<lparr>MaxCost := least_num (MaxCost spec) n\<rparr>, True, i)) (scanPosInt ops i)"

definition parseCount :: "'i input \<Rightarrow> ContextSpec \<Rightarrow> 'i \<Rightarrow> (ContextSpec \<times> bool \<times> 'i) option" where
  "parseCount ops spec i =
     map_option (\<lambda>(num, i). case num of
         None \<Rightarrow> (spec, False, i)
       | Some n \<Rightarrow> (spec\<lparr>MaxCount := least_num (MaxCount spec) n\<rparr>, True, i)) (scanPosInt ops i)"

text \<open>
  One alternative of a scanner: when the word is accepted and its arguments are read, the alternative has a
  result, otherwise the next one starts again at \<open>pos\<close>.
\<close>

definition try_single :: "'i input \<Rightarrow> 'i \<Rightarrow> string \<Rightarrow> ('i \<Rightarrow> 'r option) \<Rightarrow> ('i \<Rightarrow> 'r option) \<Rightarrow> 'r option" where
  "try_single ops i s found otherwise =
     (case acceptSingleKw ops i s of (ok, j) \<Rightarrow>
        if ok then found j else otherwise (inp_SetPos ops j (inp_Pos ops i)))"

definition try_args :: "'i input \<Rightarrow> 'i \<Rightarrow> string \<Rightarrow> ('i \<Rightarrow> ('a \<times> bool \<times> 'i) option) \<Rightarrow> ('a \<times> 'i \<Rightarrow> 'r option) \<Rightarrow>
    ('i \<Rightarrow> 'r option) \<Rightarrow> 'r option" where
  "try_args ops i s args found otherwise =
     (case acceptKwArgs ops i s of (ok, j) \<Rightarrow>
        if ok then
          (case args j of
             None \<Rightarrow> None
           | Some (a, True, k) \<Rightarrow> found (a, k)
           | Some (a, False, k) \<Rightarrow> otherwise (inp_SetPos ops k (inp_Pos ops i)))
        else otherwise (inp_SetPos ops j (inp_Pos ops i)))"

definition context_step :: "'i input \<Rightarrow> query_lang \<Rightarrow> ContextSpec \<times> 'i \<Rightarrow> ((ContextSpec \<times> 'i) + (ContextSpec \<times> 'i)) option" where
  "context_step ops ql st =
     (case st of (spec, i) \<Rightarrow>
      let i = inp_SkipSpace ops i in
      if mustStop ops i then Some (Inr (spec, i))
      else
        try_single ops i (api_word ql FullDirective) (\<lambda>i. Some (Inl (spec\<lparr>FullContext := True\<rparr>, i))) (\<lambda>i.
        try_single ops i (api_word ql BackwardDirective) (\<lambda>i. Some (Inl (spec\<lparr>Direction := ContextDirBackward\<rparr>, i))) (\<lambda>i.
        try_single ops i (api_word ql ForwardDirective) (\<lambda>i. Some (Inl (spec\<lparr>Direction := ContextDirForward\<rparr>, i))) (\<lambda>i.
        try_args ops i (api_word ql CostDirective) (parseCost ops spec) (\<lambda>r. Some (Inl r)) (\<lambda>i.
        try_args ops i (api_word ql MaxDirective) (parseCount ops spec) (\<lambda>r. Some (Inl r)) (\<lambda>i.
        Some (Inr (spec, i))))))))"

definition add_directive :: "Directive \<Rightarrow> query \<Rightarrow> query" where
  "add_directive d q = q\<lparr>q_directives := q_directives q @ [d]\<rparr>"

definition parseContext :: "'i input \<Rightarrow> query_lang \<Rightarrow> query option \<Rightarrow> 'i \<Rightarrow> (query \<times> 'i) option" where
  "parseContext ops ql q i =
     map_option (\<lambda>(spec, i). (add_directive (DirContext spec) (createIfNeeded q), i))
       (go_loop (context_step ops ql)
         (\<lparr>Direction = ContextDirBoth, MaxCost = 0, MaxCount = 0, FullContext = False\<rparr>, i))"

definition unlinked_step :: "'i input \<Rightarrow> query_lang \<Rightarrow> string list \<times> 'i \<Rightarrow> ((string list \<times> 'i) + (string list \<times> 'i)) option" where
  "unlinked_step ops ql st =
     (case st of (words, i) \<Rightarrow>
      let i = inp_SkipSpace ops i in
      if mustStop ops i then Some (Inr (words, i))
      else
        try_args ops i (api_word ql PhraseDirective)
          (\<lambda>i. map_option (\<lambda>(word, i). if 0 < length word then (words @ [word], True, i) else (words, False, i)) (scanWord ops i))
          (\<lambda>r. Some (Inl r)) (\<lambda>i. Some (Inr (words, i))))"

definition parseUnlinked :: "'i input \<Rightarrow> query_lang \<Rightarrow> query \<Rightarrow> 'i \<Rightarrow> (query \<times> 'i) option" where
  "parseUnlinked ops ql q i =
     map_option (\<lambda>(words, i). (add_directive (DirUnlinked words) q, i)) (go_loop (unlinked_step ops ql) ([], i))"

section \<open>Actions and search texts\<close>

definition actions_step :: "'i input \<Rightarrow> string list \<times> 'i \<Rightarrow> ((string list \<times> 'i) + (string list \<times> 'i)) option" where
  "actions_step ops st =
     (case st of (words, i) \<Rightarrow>
        map_option (\<lambda>(word, i). if length word = 0 then Inr (words, i) else Inl (words @ [word], i))
          (scanWord ops (inp_SkipSpace ops i)))"

definition parseActions :: "'i input \<Rightarrow> query option \<Rightarrow> 'i \<Rightarrow> (query option \<times> 'i) option" where
  "parseActions ops q i =
     map_option (\<lambda>(words, i). (if 0 < length words then Some ((createIfNeeded q)\<lparr>q_actions := words\<rparr>) else q, i))
       (go_loop (actions_step ops) ([], inp_Next ops i))"

definition ct_addValue :: "string \<Rightarrow> expValue \<Rightarrow> conjTerms \<Rightarrow> conjTerms" where
  "ct_addValue key val ct =
     (if ct_mvals ct = [] then ct\<lparr>ct_mvals := [(key, [val])]\<rparr>
      else ct\<lparr>ct_mvals := gm_put (ct_mvals ct) key (value_at (ct_mvals ct) key [] @ [val])\<rparr>)"

definition q_addValue :: "query \<Rightarrow> string \<Rightarrow> expValue \<Rightarrow> query option" where
  "q_addValue q key val = map_option (\<lambda>ts. q\<lparr>q_terms := ts\<rparr>) (update_last (ct_addValue key val) (q_terms q))"

definition parseText :: "'i input \<Rightarrow> query option \<Rightarrow> 'i \<Rightarrow> (query option \<times> 'i) option" where
  "parseText ops q i =
     (let pos = inp_Pos ops i in
      case scanSearchOp ops i of ((op, hasOp), j) \<Rightarrow>
      let exist = hasOp \<and> (op = cmpExist \<or> op = cmpNotExist);
          j = (if exist then inp_SetPos ops j pos else j);
          hasOp = (hasOp \<and> \<not> exist)
      in case scanSearchTextOrKey ops hasOp j of
          None \<Rightarrow> None
        | Some (text, Some key, k) \<Rightarrow>
            (case scanSearchOp ops k of ((op, hasOp'), l) \<Rightarrow>
             if op = cmpExist \<or> op = cmpNotExist then
               if word_end ops l then map_option (\<lambda>q. (Some q, l)) (q_addKey q key op)
               else
                 (case scanWord ops (inp_SetPos ops l pos) of
                    None \<Rightarrow> None
                  | Some (text, l) \<Rightarrow>
                      map_option (\<lambda>q. (Some q, l))
                        (q_addSearch (createIfNeeded q) \<lparr>ev_value = text, ev_op = cmpMatch\<rparr>))
             else
               (case scanWord ops l of
                  None \<Rightarrow> None
                | Some (text, l) \<Rightarrow>
                    map_option (\<lambda>q. (Some q, l))
                      (if hasOp' then q_addValue (createIfNeeded q) key \<lparr>ev_value = text, ev_op = op\<rparr>
                       else q_addSearch (createIfNeeded q) \<lparr>ev_value = text, ev_op = cmpMatch\<rparr>)))
        | Some (text, None, k) \<Rightarrow>
            if length text = 0 then Some (q, k)
            else
              map_option (\<lambda>q. (Some q, k))
                (q_addSearch (createIfNeeded q) \<lparr>ev_value = text, ev_op = (if hasOp then op else cmpMatch)\<rparr>))"

section \<open>The query\<close>

definition zids_step :: "'i input \<Rightarrow> (query option \<times> idset) \<times> 'i \<Rightarrow> (((query option \<times> idset) \<times> 'i) + (query option \<times> 'i)) option" where
  "zids_step ops st =
     (case st of ((q, zidSet), i) \<Rightarrow>
      case scanZid ops i of
        None \<Rightarrow> None
      | Some ((zid, found), j) \<Rightarrow>
          if \<not> found then Some (Inr (q, inp_SetPos ops j (inp_Pos ops i)))
          else
            let (q, zidSet) =
                  (if \<not> Set_Contains zidSet zid then
                     (let q = createIfNeeded q in (Some (q\<lparr>q_zids := q_zids q @ [zid]\<rparr>), Set_Add zidSet zid))
                   else (q, zidSet));
                j = inp_SkipSpace ops j
            in if mustStop ops j then
                 (case q of None \<Rightarrow> None | Some q \<Rightarrow> Some (Inr (Some (q\<lparr>q_zids := []\<rparr>), j)))
               else Some (Inl ((q, zidSet), j)))"

definition directives_step :: "'i input \<Rightarrow> query_lang \<Rightarrow> (query option \<times> bool) \<times> 'i \<Rightarrow>
    (((query option \<times> bool) \<times> 'i) + (query option \<times> 'i)) option" where
  "directives_step ops ql st =
     (case st of ((q, hasContext), i) \<Rightarrow>
      let i = inp_SkipSpace ops i; pos = inp_Pos ops i in
      if mustStop ops i then Some (Inr (q, i))
      else
        try_single ops i (api_word ql ContextDirective)
          (\<lambda>j. if hasContext then Some (Inr (q, inp_SetPos ops j pos))
                else map_option (\<lambda>(q, j). Inl ((Some q, True), j)) (parseContext ops ql q j)) (\<lambda>i.
        case q of
          None \<Rightarrow> Some (Inr (q, i))
        | Some qq \<Rightarrow>
            if length (q_zids qq) = 0 then Some (Inr (q, i))
            else
              try_single ops i (api_word ql IdentDirective) (\<lambda>j. Some (Inl ((Some (add_directive DirIdent qq), hasContext), j))) (\<lambda>i.
              try_single ops i (api_word ql ItemsDirective) (\<lambda>j. Some (Inl ((Some (add_directive DirItems qq), hasContext), j))) (\<lambda>i.
              try_single ops i (api_word ql UnlinkedDirective)
                (\<lambda>j. map_option (\<lambda>(q, j). Inl ((Some q, hasContext), j)) (parseUnlinked ops ql qq j)) (\<lambda>i.
              Some (Inr (q, i)))))))"

text \<open>\<open>OR\<close> starts a new term unless the last one is empty; \<open>None\<close> is the panic without a term.\<close>

definition start_term :: "query \<Rightarrow> query option" where
  "start_term q =
     (if q_terms q = [] then None
      else Some (if \<not> ct_isEmpty (last (q_terms q)) then q\<lparr>q_terms := q_terms q @ [ct_zero]\<rparr> else q))"

definition set_random :: "query \<Rightarrow> query" where
  "set_random q = (if length (q_order q) = 0 then q\<lparr>q_order := [\<lparr>so_key = [], so_descending = False\<rparr>]\<rparr> else q)"

definition main_step :: "'i input \<Rightarrow> query_lang \<Rightarrow> query option \<times> 'i \<Rightarrow> ((query option \<times> 'i) + (query option \<times> 'i)) option" where
  "main_step ops ql st =
     (case st of (q, i) \<Rightarrow>
      let i = inp_SkipSpace ops i in
      if mustStop ops i then Some (Inr (q, i))
      else
        try_single ops i (api_word ql OrDirective) (\<lambda>i. map_option (\<lambda>q. Inl (Some q, i)) (start_term (createIfNeeded q))) (\<lambda>i.
        try_single ops i (api_word ql RandomDirective) (\<lambda>i. Some (Inl (Some (set_random (createIfNeeded q)), i))) (\<lambda>i.
        try_args ops i (api_word ql PickDirective) (parsePick ops q) (\<lambda>r. Some (Inl r)) (\<lambda>i.
        try_args ops i (api_word ql OrderDirective) (parseOrder ops ql q) (\<lambda>r. Some (Inl r)) (\<lambda>i.
        try_args ops i (api_word ql OffsetDirective) (parseOffset ops q) (\<lambda>r. Some (Inl r)) (\<lambda>i.
        try_args ops i (api_word ql LimitDirective) (parseLimit ops q) (\<lambda>r. Some (Inl r)) (\<lambda>i.
        if isActionSep ops i then map_option Inr (parseActions ops q i)
        else map_option Inl (parseText ops q i))))))))"

definition ps_parse :: "'i input \<Rightarrow> query_lang \<Rightarrow> query option \<Rightarrow> 'i \<Rightarrow> query option option" where
  "ps_parse ops ql q i =
     (let i = inp_SkipSpace ops i; firstPos = inp_Pos ops i in
      if mustStop ops i then Some q
      else
        Option.bind (go_loop (zids_step ops) ((q, NewSet []), i)) (\<lambda>(q, i).
        Option.bind (go_loop (directives_step ops ql) ((q, False), i)) (\<lambda>(q, i).
        let (q, i) =
              (case q of
                 Some qq \<Rightarrow>
                   if length (q_directives qq) = 0 then (Some (qq\<lparr>q_zids := []\<rparr>), inp_SetPos ops i firstPos) else (q, i)
               | None \<Rightarrow> (q, i))
        in map_option fst (go_loop (main_step ops ql) (q, i)))))"

text \<open>Empty terms at the end are dropped, but for the first one.\<close>

fun drop_empty :: "conjTerms list \<Rightarrow> conjTerms list" where
  "drop_empty (t # u # ts) = (if ct_isEmpty t then drop_empty (u # ts) else t # u # ts)"
| "drop_empty ts = ts"

definition trim_terms :: "query \<Rightarrow> query" where
  "trim_terms q = q\<lparr>q_terms := rev (drop_empty (rev (q_terms q)))\<rparr>"

definition q_Parse :: "'i input \<Rightarrow> query_lang \<Rightarrow> query option \<Rightarrow> string \<Rightarrow> query option option" where
  "q_Parse ops ql q spec = map_option (map_option trim_terms) (ps_parse ops ql q (inp_New ops spec))"

definition ParseQuery :: "'i input \<Rightarrow> query_lang \<Rightarrow> string \<Rightarrow> query option option" where
  "ParseQuery ops ql spec = q_Parse ops ql None spec"

end
