(* ===== verification/QueryParseLaws.thy ===== *)
theory QueryParseLaws
  imports QueryParse InputLaws
begin

text \<open>
  The query parser returns: every loop of the scanner makes progress on every input, and no index expression panics.
\<close>

section \<open>Results\<close>

definition returns :: "'a option \<Rightarrow> ('a \<Rightarrow> bool) \<Rightarrow> bool" where
  "returns x P \<longleftrightarrow> (\<exists>r. x = Some r \<and> P r)"

lemma returns_Some [simp]: "returns (Some r) P \<longleftrightarrow> P r"
  by (simp add: returns_def)

lemma returns_mono: "returns x P \<Longrightarrow> (\<And>r. P r \<Longrightarrow> Q r) \<Longrightarrow> returns x Q"
  by (auto simp: returns_def)

lemma returns_map [simp]: "returns (map_option f x) P \<longleftrightarrow> returns x (\<lambda>r. P (f r))"
  by (auto simp: returns_def)

lemma returns_bind [simp]: "returns (Option.bind x f) P \<longleftrightarrow> returns x (\<lambda>r. returns (f r) P)"
  by (cases x) (auto simp: returns_def)

lemma returns_case: "returns (case x of None \<Rightarrow> None | Some r \<Rightarrow> f r) P \<longleftrightarrow> returns x (\<lambda>r. returns (f r) P)"
  by (cases x) (auto simp: returns_def)

lemma returns_go_loop:
  assumes "good s"
    and "\<And>s. good s \<Longrightarrow> returns (step s) (\<lambda>r. case r of Inl s' \<Rightarrow> good s' \<and> m s' < (m s :: nat) | Inr x \<Rightarrow> post x)"
  shows "returns (go_loop step s) post"
  using go_loop_returns [of good s step m post] assms unfolding returns_def by blast

section \<open>Progress of the scanner\<close>

text \<open>The same position, a later one, and one that is strictly later in the same source.\<close>

definition same_pos :: "'i input \<Rightarrow> 'i \<Rightarrow> 'i \<Rightarrow> bool" where
  "same_pos ops i j \<longleftrightarrow> inp_Src ops j = inp_Src ops i \<and> inp_Pos ops j = inp_Pos ops i"

definition later :: "'i input \<Rightarrow> 'i \<Rightarrow> 'i \<Rightarrow> bool" where
  "later ops i j \<longleftrightarrow> inp_Src ops j = inp_Src ops i \<and> inp_Pos ops i \<le> inp_Pos ops j"

definition after_pos :: "'i input \<Rightarrow> 'i \<Rightarrow> 'i \<Rightarrow> bool" where
  "after_pos ops i j \<longleftrightarrow> inp_Src ops j = inp_Src ops i \<and> inp_Pos ops i < inp_Pos ops j"

lemmas pos_defs = same_pos_def later_def after_pos_def

lemma pos_trans [trans]:
  "later ops i j \<Longrightarrow> later ops j k \<Longrightarrow> later ops i k"
  "after_pos ops i j \<Longrightarrow> later ops j k \<Longrightarrow> after_pos ops i k"
  "later ops i j \<Longrightarrow> after_pos ops j k \<Longrightarrow> after_pos ops i k"
  "same_pos ops i j \<Longrightarrow> later ops j k \<Longrightarrow> later ops i k"
  "same_pos ops i j \<Longrightarrow> after_pos ops j k \<Longrightarrow> after_pos ops i k"
  "same_pos ops i j \<Longrightarrow> same_pos ops j k \<Longrightarrow> same_pos ops i k"
  "after_pos ops i j \<Longrightarrow> after_pos ops j k \<Longrightarrow> after_pos ops i k"
  by (auto simp: pos_defs)

lemma later_refl [simp]: "later ops i i" "same_pos ops i i"
  by (simp_all add: pos_defs)

lemma after_later: "after_pos ops i j \<Longrightarrow> later ops i j" "same_pos ops i j \<Longrightarrow> later ops i j"
  by (simp_all add: pos_defs)

definition left :: "'i input \<Rightarrow> 'i \<Rightarrow> nat" where
  "left ops i = length (inp_Src ops i) - inp_Pos ops i"

lemma after_left: "input_ok ops \<Longrightarrow> after_pos ops i j \<Longrightarrow> left ops j < left ops i"
  using in_Pos_le [of ops j] unfolding after_pos_def left_def by (metis diff_less_mono2 order_less_le_trans)

lemma same_rest: "same_pos ops i j \<Longrightarrow> inp_rest ops j = inp_rest ops i"
  by (simp add: same_pos_def inp_rest_def)

lemma mustStop_iff: "input_ok ops \<Longrightarrow> mustStop ops i \<longleftrightarrow> inp_rest ops i = []"
proof -
  assume ok: "input_ok ops"
  note e = in_EOS [OF ok]
  show ?thesis
  proof (cases "inp_rest ops i")
    case Nil
    then show ?thesis using in_end [OF ok] by (simp add: mustStop_def)
  next
    case (Cons c r)
    then have "byte_code c < 128 \<Longrightarrow> inp_Ch ops i = rune c" "128 \<le> byte_code c \<Longrightarrow> 128 \<le> inp_Ch ops i"
      using in_ascii [OF ok] in_wide [OF ok] by blast+
    then show ?thesis using Cons e by (cases "byte_code c < 128") (auto simp: mustStop_def)
  qed
qed

lemma Ch_cong:
  assumes "input_ok ops" "inp_rest ops j = inp_rest ops i"
  shows "inp_Ch ops j = inp_Ch ops i \<or> (128 \<le> inp_Ch ops i \<and> 128 \<le> inp_Ch ops j)"
proof (cases "inp_rest ops i")
  case Nil
  then show ?thesis using assms in_end [OF assms(1)] by simp
next
  case (Cons c r)
  then show ?thesis using assms in_ascii [OF assms(1)] in_wide [OF assms(1)]
    by (cases "byte_code c < 128") (metis, metis not_less)
qed

lemma word_end_cong: "input_ok ops \<Longrightarrow> same_pos ops i j \<Longrightarrow> word_end ops j = word_end ops i"
  using Ch_cong [of ops j i] same_rest [of ops i j] in_space [of ops] in_EOS [of ops]
  unfolding word_end_def inp_IsSpace_def isActionSep_def mustStop_def
  by (auto simp: byte_code_def)

lemma sep_cong: "input_ok ops \<Longrightarrow> same_pos ops i j \<Longrightarrow> isActionSep ops j = isActionSep ops i"
  using Ch_cong [of ops j i] same_rest [of ops i j] unfolding isActionSep_def by (auto simp: byte_code_def)

lemma Next_after: "input_ok ops \<Longrightarrow> \<not> mustStop ops i \<Longrightarrow> after_pos ops i (inp_Next ops i)"
  using Next_advances [of ops i] by (simp add: after_pos_def mustStop_def)

lemma Next_later: "input_ok ops \<Longrightarrow> later ops i (inp_Next ops i)"
proof (cases "mustStop ops i")
  case True
  moreover assume "input_ok ops"
  ultimately show ?thesis using in_end [of ops] by (simp add: later_def mustStop_iff)
qed (simp add: Next_after after_later)

lemma Skip_later: "input_ok ops \<Longrightarrow> later ops i (inp_SkipSpace ops i)"
  using Skip_spec [of ops i] by (simp add: later_def)

lemma SetPos_same: "input_ok ops \<Longrightarrow> later ops i j \<Longrightarrow> same_pos ops i (inp_SetPos ops j (inp_Pos ops i))"
  using in_Set [of ops] in_Pos_le [of ops i] by (simp add: pos_defs)

lemma Accept_later:
  "input_ok ops \<Longrightarrow> s \<noteq> [] \<Longrightarrow> inp_Accept ops i s = (b, j) \<Longrightarrow> later ops i j \<and> (b \<longrightarrow> after_pos ops i j)"
  using Accept_iff [of ops s i] Accept_Pos [of ops s i] in_Src(3) [of ops i s] by (auto simp: pos_defs split: if_splits)

lemma single_later:
  "input_ok ops \<Longrightarrow> s \<noteq> [] \<Longrightarrow> acceptSingleKw ops i s = (b, j) \<Longrightarrow> later ops i j \<and> (b \<longrightarrow> after_pos ops i j)"
  using Accept_later [of ops s i] by (auto simp: acceptSingleKw_def split: prod.splits)

lemma args_later:
  "input_ok ops \<Longrightarrow> s \<noteq> [] \<Longrightarrow> acceptKwArgs ops i s = (b, j) \<Longrightarrow> later ops i j \<and> (b \<longrightarrow> after_pos ops i j)"
  using Accept_later [of ops s i] Skip_later [of ops]
  by (auto simp: acceptKwArgs_def split: prod.splits if_splits intro: pos_trans after_later)

section \<open>Words and numbers\<close>

lemma scanWord_returns:
  assumes ok: "input_ok ops"
  shows "returns (scanWord ops i) (\<lambda>(w, j). later ops i j \<and> (\<not> word_end ops i \<longrightarrow> after_pos ops i j) \<and>
    length w = inp_Pos ops j - inp_Pos ops i)"
proof -
  have "returns (go_loop (word_step ops) i) (\<lambda>j. later ops i j \<and> word_end ops j)"
  proof (rule returns_go_loop [where good = "later ops i" and m = "left ops"])
    fix k assume k: "later ops i k"
    show "returns (word_step ops k) (\<lambda>r. case r of Inl j \<Rightarrow> later ops i j \<and> left ops j < left ops k
        | Inr j \<Rightarrow> later ops i j \<and> word_end ops j)"
      using k Next_after [OF ok, of k] after_left [OF ok, of k]
      by (auto simp: word_step_def word_end_def intro: pos_trans after_later)
  qed simp
  moreover have "length (src_from ops (inp_Pos ops i) j) = inp_Pos ops j - inp_Pos ops i" if "later ops i j" for j
    using that in_Pos_le [OF ok, of j] by (simp add: src_from_def)
  moreover have "after_pos ops i j" if "later ops i j" "word_end ops j" "\<not> word_end ops i" for j
    using that word_end_cong [OF ok, of i j] unfolding pos_defs by (metis le_neq_implies_less)
  ultimately show ?thesis unfolding scanWord_def returns_map by - (erule returns_mono, auto)
qed

lemma scanPosInt_returns: "input_ok ops \<Longrightarrow> returns (scanPosInt ops i) (\<lambda>(n, j). later ops i j)"
  unfolding scanPosInt_def returns_map by (rule returns_mono [OF scanWord_returns]) auto

lemma scanZid_returns:
  assumes "input_ok ops"
  shows "returns (scanZid ops i) (\<lambda>((zid, found), j). later ops i j \<and> (found \<longrightarrow> after_pos ops i j))"
proof -
  have "after_pos ops i j" if "later ops i j" "length w = inp_Pos ops j - inp_Pos ops i" "w \<noteq> []" for w :: string and j
    using that by (cases w) (simp_all add: pos_defs)
  then show ?thesis
    unfolding scanZid_def returns_map
    by (intro returns_mono [OF scanWord_returns [OF assms]]) (auto simp: Let_def split: sum.splits if_splits)
qed

lemma scanSearchOp_later:
  assumes "input_ok ops" "scanSearchOp ops i = ((op, hasOp), j)"
  shows "later ops i j" and "\<not> mustStop ops i \<Longrightarrow> hasOp \<Longrightarrow> after_pos ops i j"
proof -
  let ?k = "if inp_Ch ops i = rune (CHR ''!'') then inp_Next ops i else i"
  have j: "j = (case op_of_char (inp_Ch ops ?k) of None \<Rightarrow> ?k | Some op \<Rightarrow> inp_Next ops ?k)"
    "hasOp \<longleftrightarrow> inp_Ch ops i = rune (CHR ''!'') \<or> op_of_char (inp_Ch ops ?k) \<noteq> None"
    using assms(2) by (auto simp: scanSearchOp_def Let_def split: option.splits if_splits)
  have k: "later ops i ?k" using Next_later [OF assms(1), of i] by simp
  have n: "later ops ?k (inp_Next ops ?k)" by (rule Next_later [OF assms(1)])
  have kn: "later ops i (inp_Next ops ?k)" by (rule pos_trans(1) [OF k n])
  show "later ops i j"
    using k kn unfolding j(1) by (cases "op_of_char (inp_Ch ops ?k)") simp_all
  assume s: "\<not> mustStop ops i" and h: "hasOp"
  note a = Next_after [OF assms(1) s]
  show "after_pos ops i j"
  proof (cases "inp_Ch ops i = rune (CHR ''!'')")
    case True
    then have e: "?k = inp_Next ops i" by simp
    have k': "after_pos ops i ?k" unfolding e by (rule a)
    have "after_pos ops i (inp_Next ops ?k)" by (rule pos_trans(2) [OF k' n])
    then show ?thesis using k' unfolding j(1) by (cases "op_of_char (inp_Ch ops ?k)") simp_all
  next
    case False
    then show ?thesis using j h a by auto
  qed
qed

text \<open>Unless the input is at the end of a word, a text has characters and a key has an operator behind it.\<close>

lemma scanText_returns:
  assumes ok: "input_ok ops"
  shows "returns (scanSearchTextOrKey ops hasOp i) (\<lambda>(text, key, j). later ops i j \<and> (\<not> word_end ops i \<longrightarrow> after_pos ops i j) \<and>
    (key = None \<longrightarrow> length text = inp_Pos ops j - inp_Pos ops i) \<and> (key \<noteq> None \<longrightarrow> \<not> mustStop ops j))"
proof -
  let ?post = "\<lambda>(text :: string, key :: string option, j). later ops i j \<and> (word_end ops j \<or> after_pos ops i j) \<and>
    (key = None \<longrightarrow> length text = inp_Pos ops j - inp_Pos ops i) \<and> (key \<noteq> None \<longrightarrow> \<not> mustStop ops j)"
  have "returns (scanSearchTextOrKey ops hasOp i) ?post"
    unfolding scanSearchTextOrKey_def
  proof (rule returns_go_loop [where good = "\<lambda>(a, k). later ops i k" and m = "\<lambda>(a, k). left ops k"])
    fix s :: "bool \<times> 'a" assume g: "(\<lambda>(a, k). later ops i k) s"
    obtain a k where s: "s = (a, k)" by (cases s)
    have k: "later ops i k" using g s by simp
    have len: "length (src_from ops (inp_Pos ops i) k) = inp_Pos ops k - inp_Pos ops i"
      using k in_Pos_le [OF ok, of k] by (simp add: src_from_def pos_defs)
    have key: "after_pos ops i k" if "KeyIsValid (src_from ops (inp_Pos ops i) k)"
      using that len k by (cases "src_from ops (inp_Pos ops i) k") (auto simp: KeyIsValid_def pos_defs)
    show "returns (text_step ops (inp_Pos ops i) s) (\<lambda>r. case r of
        Inl s' \<Rightarrow> (\<lambda>(a, k). later ops i k) s' \<and> (\<lambda>(a, k). left ops k) s' < (\<lambda>(a, k). left ops k) s
      | Inr x \<Rightarrow> ?post x)"
      using k len key Next_after [OF ok, of k] after_left [OF ok, of k]
      unfolding s by (auto simp: text_step_def Let_def word_end_def intro: pos_trans after_later)
  qed simp
  moreover have "after_pos ops i j" if "later ops i j" "word_end ops j \<or> after_pos ops i j" "\<not> word_end ops i" for j
    using that word_end_cong [OF ok, of i j] unfolding pos_defs by (metis le_neq_implies_less)
  ultimately show ?thesis by - (erule returns_mono, auto)
qed

section \<open>Alternatives\<close>

lemma try_single_returns:
  assumes "input_ok ops" "s \<noteq> []"
    and "\<And>j. after_pos ops i j \<Longrightarrow> returns (found j) P" and "\<And>j. same_pos ops i j \<Longrightarrow> returns (other j) P"
  shows "returns (try_single ops i s found other) P"
proof -
  obtain b j where a: "acceptSingleKw ops i s = (b, j)" by fastforce
  then show ?thesis
    using single_later [OF assms(1,2) a] SetPos_same [OF assms(1)] assms(3,4) by (auto simp: try_single_def)
qed

lemma try_args_returns:
  assumes "input_ok ops" "s \<noteq> []"
    and "\<And>j. after_pos ops i j \<Longrightarrow> returns (args j) (\<lambda>(a, ok, k). later ops j k \<and> (ok \<longrightarrow> Q a))"
    and "\<And>a j. after_pos ops i j \<Longrightarrow> Q a \<Longrightarrow> returns (found (a, j)) P" and "\<And>j. same_pos ops i j \<Longrightarrow> returns (other j) P"
  shows "returns (try_args ops i s args found other) P"
proof -
  obtain b j where a: "acceptKwArgs ops i s = (b, j)" by fastforce
  note l = args_later [OF assms(1,2) a]
  show ?thesis
  proof (cases b)
    case True
    then have j: "after_pos ops i j" using l by simp
    obtain x ok k where r: "args j = Some (x, ok, k)" "later ops j k" "ok \<longrightarrow> Q x"
      using assms(3) [OF j] by (auto simp: returns_def)
    have k: "after_pos ops i k" by (rule pos_trans(2) [OF j r(2)])
    show ?thesis
    proof (cases ok)
      case True
      then show ?thesis using \<open>b\<close> a r assms(4) [OF k, of x] by (simp add: try_args_def)
    next
      case False
      then show ?thesis
        using \<open>b\<close> a r assms(5) [OF SetPos_same [OF assms(1) after_later(1) [OF k]]] by (simp add: try_args_def)
    qed
  next
    case False
    then show ?thesis using a l assms(5) [OF SetPos_same [OF assms(1)]] by (simp add: try_args_def)
  qed
qed

section \<open>The parts of a query\<close>

text \<open>A query that exists has a term.\<close>

definition has_term :: "query option \<Rightarrow> bool" where
  "has_term q \<longleftrightarrow> (\<forall>q'. q = Some q' \<longrightarrow> q_terms q' \<noteq> [])"

lemma has_term_simps [simp]: "has_term None" "has_term (Some q) \<longleftrightarrow> q_terms q \<noteq> []"
  by (simp_all add: has_term_def)

lemma has_term_create [simp]: "has_term q \<Longrightarrow> q_terms (createIfNeeded q) \<noteq> []"
  by (cases q) (simp_all add: createIfNeeded_def)

lemma update_last_returns: "xs \<noteq> [] \<Longrightarrow> returns (update_last f xs) (\<lambda>ys. ys \<noteq> [])"
  by (simp add: update_last_Some)

lemma parse_num_returns:
  assumes "input_ok ops" "has_term q" "\<And>n q. q_terms (upd n q) = q_terms q"
  shows "returns (parse_num ops upd q i) (\<lambda>(q', ok, j). later ops i j \<and> (ok \<longrightarrow> has_term q'))"
  unfolding parse_num_def returns_map
  by (rule returns_mono [OF scanPosInt_returns [OF assms(1)]]) (use assms(2,3) in \<open>auto split: option.splits\<close>)

lemma add_order_terms [simp]: "q_terms (add_order so q) = q_terms q"
  by (auto simp: add_order_def Let_def split: list.splits)

lemma parseOrder_returns:
  assumes "input_ok ops" "has_term q" "api_word ql ReverseDirective \<noteq> []"
  shows "returns (parseOrder ops ql q i) (\<lambda>(q', ok, j). later ops i j \<and> (ok \<longrightarrow> has_term q'))"
proof -
  obtain b j where a: "acceptKwArgs ops i (api_word ql ReverseDirective) = (b, j)" by fastforce
  have j: "later ops i j" using args_later [OF assms(1,3) a] by simp
  show ?thesis
    unfolding parseOrder_def a prod.case returns_map
    by (rule returns_mono [OF scanWord_returns [OF assms(1)]])
      (use assms(2) in \<open>auto split: if_splits intro: pos_trans(1) [OF j]\<close>)
qed

lemmas parse_nums_return =
  parse_num_returns [where upd = "\<lambda>num q. if q_pick q = 0 \<or> num \<le> q_pick q then q\<lparr>q_pick := num\<rparr> else q", folded parsePick_def]
  parse_num_returns [where upd = "\<lambda>num q. if q_offset q \<le> num then q\<lparr>q_offset := num\<rparr> else q", folded parseOffset_def]
  parse_num_returns [where upd = "\<lambda>num q. if q_limit q = 0 \<or> num \<le> q_limit q then q\<lparr>q_limit := num\<rparr> else q", folded parseLimit_def]

lemma parseActions_returns:
  assumes ok: "input_ok ops" and q: "has_term q"
  shows "returns (parseActions ops q i) (\<lambda>(q', j). has_term q')"
proof -
  have "returns (go_loop (actions_step ops) ([], inp_Next ops i)) (\<lambda>x. True)"
  proof (rule returns_go_loop [where good = "\<lambda>s. True" and m = "\<lambda>(w, j). left ops j"])
    fix s :: "string list \<times> 'a"
    obtain ws j where s: "s = (ws, j)" by (cases s)
    let ?k = "inp_SkipSpace ops j"
    have "left ops l < left ops j" if "later ops ?k l" "length w = inp_Pos ops l - inp_Pos ops ?k" "w \<noteq> []" for w :: string and l
    proof -
      have "after_pos ops ?k l" using that by (cases w) (simp_all add: pos_defs)
      then show ?thesis by (rule after_left [OF ok pos_trans(3) [OF Skip_later [OF ok]]])
    qed
    then show "returns (actions_step ops s) (\<lambda>r. case r of Inl s' \<Rightarrow> True \<and> (\<lambda>(w, j). left ops j) s' < (\<lambda>(w, j). left ops j) s | Inr x \<Rightarrow> True)"
      unfolding s actions_step_def prod.case returns_map
      by (intro returns_mono [OF scanWord_returns [OF ok]]) (auto split: sum.splits if_splits)
  qed simp
  then show ?thesis unfolding parseActions_def returns_map by - (erule returns_mono, use q in auto)
qed

lemma parseText_returns:
  assumes ok: "input_ok ops" and q: "has_term q" and w: "\<not> word_end ops i"
  shows "returns (parseText ops q i) (\<lambda>(q', j). has_term q' \<and> after_pos ops i j)"
proof -
  have ns: "\<not> mustStop ops i" using w by (simp add: word_end_def)
  obtain op hasOp j where s1: "scanSearchOp ops i = ((op, hasOp), j)" by (metis surj_pair)
  note l1 = scanSearchOp_later [OF ok s1]
  let ?e = "hasOp \<and> (op = cmpExist \<or> op = cmpNotExist)"
  define j' where "j' = (if ?e then inp_SetPos ops j (inp_Pos ops i) else j)"
  have j': "later ops i j'" "?e \<Longrightarrow> same_pos ops i j'"
    using l1(1) SetPos_same [OF ok l1(1)] after_later(2) by (auto simp: j'_def)
  obtain tx key k where s2: "scanSearchTextOrKey ops (hasOp \<and> \<not> ?e) j' = Some (tx, key, k)"
    and l2: "later ops j' k" "\<not> word_end ops j' \<longrightarrow> after_pos ops j' k" "key = None \<longrightarrow> length tx = inp_Pos ops k - inp_Pos ops j'"
      "key \<noteq> None \<longrightarrow> \<not> mustStop ops k"
    using scanText_returns [OF ok, of "hasOp \<and> \<not> ?e" j'] by (auto simp: returns_def)
  have k: "after_pos ops i k"
  proof (cases "hasOp \<and> \<not> ?e")
    case True
    then have "after_pos ops i j'" using l1(2) [OF ns] by (simp add: j'_def)
    then show ?thesis by (rule pos_trans(2) [OF _ l2(1)])
  next
    case False
    have "same_pos ops i j'"
    proof (cases hasOp)
      case True
      then show ?thesis using j'(2) False by blast
    next
      case False
      then have "j = i \<or> hasOp" using s1 by (auto simp: scanSearchOp_def Let_def split: option.splits if_splits)
      then show ?thesis using False by (simp add: j'_def)
    qed
    moreover from this have "after_pos ops j' k" using l2(2) w word_end_cong [OF ok] by blast
    ultimately show ?thesis by (rule pos_trans(5))
  qed
  have add: "returns (map_option (\<lambda>q. (Some q, l)) (q_addSearch (createIfNeeded q) v)) (\<lambda>(q', j). has_term q' \<and> after_pos ops i j)"
    if "after_pos ops i l" for l v
    using that q by (simp add: q_addSearch_def update_last_Some)
  have addv: "returns (map_option (\<lambda>q. (Some q, l)) (q_addValue (createIfNeeded q) kk v)) (\<lambda>(q', j). has_term q' \<and> after_pos ops i j)"
    if "after_pos ops i l" for l v kk
    using that q by (simp add: q_addValue_def update_last_Some)
  have addk: "returns (map_option (\<lambda>q. (Some q, l)) (q_addKey q kk op)) (\<lambda>(q', j). has_term q' \<and> after_pos ops i j)"
    if "after_pos ops i l" for l kk op
    using that q by (simp add: q_addKey_def Let_def update_last_Some)
  have head: "parseText ops q i = (case Some (tx, key, k) of
          None \<Rightarrow> None
        | Some (text, Some key, k) \<Rightarrow>
            (case scanSearchOp ops k of ((op, hasOp'), l) \<Rightarrow>
             if op = cmpExist \<or> op = cmpNotExist then
               if word_end ops l then map_option (\<lambda>q. (Some q, l)) (q_addKey q key op)
               else
                 (case scanWord ops (inp_SetPos ops l (inp_Pos ops i)) of
                    None \<Rightarrow> None
                  | Some (text, l) \<Rightarrow>
                      map_option (\<lambda>q. (Some q, l))
                        (q_addSearch (createIfNeeded q) \<lparr>ev_value = text, ev_op = cmpMatch\<rparr>))
             else
               (case scanWord ops l of
                  None \<Rightarrow> None
                | Some (text, l) \<Rightarrow>
                    map_option (\<lambda>q. (Some q, l))
                      (if hasOp' then q_addValue (createIfNeeded q) key \<lparr>ev_value = text, ev_op = op\<rparr>
                       else q_addSearch (createIfNeeded q) \<lparr>ev_value = text, ev_op = cmpMatch\<rparr>)))
        | Some (text, None, k) \<Rightarrow>
            if length text = 0 then Some (q, k)
            else
              map_option (\<lambda>q. (Some q, k))
                (q_addSearch (createIfNeeded q) \<lparr>ev_value = text, ev_op = (if hasOp \<and> \<not> ?e then op else cmpMatch)\<rparr>))"
    unfolding parseText_def Let_def s1 prod.case s2 [unfolded j'_def] ..
  show ?thesis
  proof (cases key)
    case None
    then show ?thesis using head add [OF k] k q by (simp add: returns_map [symmetric] del: returns_map)
  next
    case (Some kk)
    obtain op' hasOp' l where s3: "scanSearchOp ops k = ((op', hasOp'), l)" by (metis surj_pair)
    have l: "after_pos ops i l" by (rule pos_trans(2) [OF k scanSearchOp_later(1) [OF ok s3]])
    let ?m = "inp_SetPos ops l (inp_Pos ops i)"
    have m: "same_pos ops i ?m" by (rule SetPos_same [OF ok after_later(1) [OF l]])
    obtain t1 n1 where w1: "scanWord ops l = Some (t1, n1)" "later ops l n1"
      using scanWord_returns [OF ok, of l] by (auto simp: returns_def)
    obtain t2 n2 where w2: "scanWord ops ?m = Some (t2, n2)" "\<not> word_end ops ?m \<longrightarrow> after_pos ops ?m n2"
      using scanWord_returns [OF ok, of ?m] by (auto simp: returns_def)
    have n1: "after_pos ops i n1" by (rule pos_trans(2) [OF l w1(2)])
    have n2: "after_pos ops i n2" using w2(2) w word_end_cong [OF ok m] pos_trans(5) [OF m] by blast
    show ?thesis
      unfolding head Some option.case prod.case s3 w1(1) w2(1)
      using add [OF n1] add [OF n2] addv [OF n1] addk [OF l] by (simp only: split: if_split) simp
  qed
qed

section \<open>The loops\<close>

definition some_words :: "query_lang \<Rightarrow> bool" where
  "some_words ql \<longleftrightarrow> (\<forall>w. api_word ql w \<noteq> [])"

lemma parseCost_returns: "input_ok ops \<Longrightarrow> returns (parseCost ops spec i) (\<lambda>(spec', ok, j). later ops i j \<and> (ok \<longrightarrow> True))"
  unfolding parseCost_def returns_map by (rule returns_mono [OF scanPosInt_returns]) (auto split: option.splits)

lemma parseCount_returns: "input_ok ops \<Longrightarrow> returns (parseCount ops spec i) (\<lambda>(spec', ok, j). later ops i j \<and> (ok \<longrightarrow> True))"
  unfolding parseCount_def returns_map by (rule returns_mono [OF scanPosInt_returns]) (auto split: option.splits)

lemma parseContext_returns:
  assumes ok: "input_ok ops" and ql: "some_words ql" and q: "has_term q"
  shows "returns (parseContext ops ql q i) (\<lambda>(q', j). q_terms q' \<noteq> [] \<and> later ops i j)"
proof -
  have w: "api_word ql x \<noteq> []" for x using ql by (simp add: some_words_def)
  have "returns (go_loop (context_step ops ql) (sp, i)) (\<lambda>(spec, j). later ops i j)" for sp
  proof (rule returns_go_loop [where good = "\<lambda>(spec, j). later ops i j" and m = "\<lambda>(spec, j). left ops j"])
    fix s :: "ContextSpec \<times> 'a" assume g: "(\<lambda>(spec, j). later ops i j) s"
    obtain spec j where s: "s = (spec, j)" by (cases s)
    let ?k = "inp_SkipSpace ops j"
    let ?P = "\<lambda>r. case r of Inl s' \<Rightarrow> (\<lambda>(spec, j). later ops i j) s' \<and> (\<lambda>(spec, j). left ops j) s' < (\<lambda>(spec, j). left ops j) s
        | Inr x \<Rightarrow> (\<lambda>(spec, j). later ops i j) x"
    have j: "later ops i j" using g s by simp
    have k: "later ops j ?k" by (rule Skip_later [OF ok])
    have ik: "later ops i ?k" by (rule pos_trans(1) [OF j k])
    have go: "returns (Some (Inl (sp', l))) ?P" if "after_pos ops m l" "same_pos ops ?k m" for sp' l m
      using that pos_trans(1) [OF ik after_later(1)] after_left [OF ok pos_trans(3) [OF k]] pos_trans(5)
      unfolding s by fastforce
    show "returns (context_step ops ql s) ?P"
    proof (cases "mustStop ops ?k")
      case True
      then show ?thesis using ik by (simp add: s context_step_def)
    next
      case False
      have "returns (context_step ops ql (spec, j)) ?P"
        unfolding context_step_def prod.case Let_def if_not_P [OF False]
        apply (rule try_single_returns [OF ok w], rule go, assumption, rule later_refl)
        apply (rule try_single_returns [OF ok w], rule go, assumption, assumption)
        apply (rule try_single_returns [OF ok w], rule go, assumption, erule (1) pos_trans(6))
        apply (rule try_args_returns [OF ok w], rule parseCost_returns [OF ok], rule go, assumption, blast intro: pos_trans(6))
        apply (rule try_args_returns [OF ok w], rule parseCount_returns [OF ok], rule go, assumption, blast intro: pos_trans(6))
        using ik by (auto simp: pos_defs)
      then show ?thesis by (simp add: s)
    qed
  qed simp
  then show ?thesis unfolding parseContext_def returns_map
    by (rule returns_mono) (use q in \<open>auto simp: add_directive_def\<close>)
qed

lemma parseUnlinked_returns:
  assumes ok: "input_ok ops" and ql: "some_words ql" and q: "q_terms q \<noteq> []"
  shows "returns (parseUnlinked ops ql q i) (\<lambda>(q', j). q_terms q' \<noteq> [] \<and> later ops i j)"
proof -
  have w: "api_word ql x \<noteq> []" for x using ql by (simp add: some_words_def)
  have "returns (go_loop (unlinked_step ops ql) ([], i)) (\<lambda>(ws, j). later ops i j)"
  proof (rule returns_go_loop [where good = "\<lambda>(ws, j). later ops i j" and m = "\<lambda>(ws, j). left ops j"])
    fix s :: "string list \<times> 'a" assume g: "(\<lambda>(ws, j). later ops i j) s"
    obtain ws j where s: "s = (ws, j)" by (cases s)
    let ?k = "inp_SkipSpace ops j"
    have j: "later ops i j" using g s by simp
    have k: "later ops j ?k" by (rule Skip_later [OF ok])
    have ik: "later ops i ?k" by (rule pos_trans(1) [OF j k])
    let ?P = "\<lambda>r. case r of Inl s' \<Rightarrow> (\<lambda>(ws, j). later ops i j) s' \<and> (\<lambda>(ws, j). left ops j) s' < (\<lambda>(ws, j). left ops j) s
        | Inr x \<Rightarrow> (\<lambda>(ws, j). later ops i j) x"
    have go: "returns (Some (Inl (ws', l))) ?P" if "after_pos ops ?k l" for ws' l
      using pos_trans(1) [OF ik after_later(1) [OF that]] after_left [OF ok pos_trans(3) [OF k that]] unfolding s by simp
    have args: "returns (map_option (\<lambda>(word, i). if 0 < length word then (ws @ [word], True, i) else (ws, False, i)) (scanWord ops l))
        (\<lambda>(a, ok, m). later ops l m \<and> (ok \<longrightarrow> True))" for l
      unfolding returns_map by (rule returns_mono [OF scanWord_returns [OF ok]]) (auto split: if_splits)
    show "returns (unlinked_step ops ql s) ?P"
    proof (cases "mustStop ops ?k")
      case True
      then show ?thesis using ik by (simp add: s unlinked_step_def)
    next
      case False
      have "returns (unlinked_step ops ql (ws, j)) ?P"
        unfolding unlinked_step_def prod.case Let_def if_not_P [OF False]
        apply (rule try_args_returns [OF ok w], rule args, erule go)
        using ik by (auto simp: pos_defs)
      then show ?thesis by (simp add: s)
    qed
  qed simp
  then show ?thesis unfolding parseUnlinked_def returns_map
    by (rule returns_mono) (use q in \<open>auto simp: add_directive_def\<close>)
qed

lemma zids_returns:
  assumes ok: "input_ok ops" and q: "has_term q"
  shows "returns (go_loop (zids_step ops) ((q, NewSet []), i)) (\<lambda>(q', j). has_term q' \<and> later ops i j)"
proof (rule returns_go_loop [where good = "\<lambda>((q, zs), j). has_term q \<and> (q = None \<longrightarrow> zs = NewSet []) \<and> later ops i j"
      and m = "\<lambda>(x, j). left ops j"])
  fix s :: "(query option \<times> idset) \<times> 'a"
  assume g: "(\<lambda>((q, zs), j). has_term q \<and> (q = None \<longrightarrow> zs = NewSet []) \<and> later ops i j) s"
  obtain q zs j where s: "s = ((q, zs), j)" by (metis surj_pair)
  have q: "has_term q" "q = None \<longrightarrow> zs = NewSet []" and j: "later ops i j" using g s by auto
  let ?P = "\<lambda>r. case r of
        Inl s' \<Rightarrow> (\<lambda>((q, zs), j). has_term q \<and> (q = None \<longrightarrow> zs = NewSet []) \<and> later ops i j) s' \<and>
          (\<lambda>(x, j). left ops j) s' < (\<lambda>(x, j). left ops j) s
      | Inr x \<Rightarrow> (\<lambda>(q', j). has_term q' \<and> later ops i j) x"
  obtain zid found k where z: "scanZid ops j = Some ((zid, found), k)" "later ops j k" "found \<longrightarrow> after_pos ops j k"
    using scanZid_returns [OF ok, of j] by (auto simp: returns_def)
  show "returns (zids_step ops s) ?P"
  proof (cases found)
    case False
    have "later ops i (inp_SetPos ops k (inp_Pos ops j))"
      by (rule pos_trans(1) [OF j after_later(2) [OF SetPos_same [OF ok z(2)]]])
    then show ?thesis using False z(1) q(1) by (simp add: zids_step_def s)
  next
    case True
    let ?l = "inp_SkipSpace ops k"
    have kl: "after_pos ops j ?l" using pos_trans(2) [OF _ Skip_later [OF ok]] z(3) True by blast
    have l: "later ops i ?l" by (rule pos_trans(1) [OF j after_later(1) [OF kl]])
    have m: "left ops ?l < left ops j" by (rule after_left [OF ok kl])
    define qz where "qz = (if \<not> Set_Contains zs zid then
         (let q = createIfNeeded q in (Some (q\<lparr>q_zids := q_zids q @ [zid]\<rparr>), Set_Add zs zid)) else (q, zs))"
    obtain q1 zs1 where qz1: "qz = (Some q1, zs1)" "q_terms q1 \<noteq> []"
    proof (cases "Set_Contains zs zid")
      case True
      have "\<not> Set_Contains (NewSet []) zid" by (simp add: idset_correct)
      then have "q \<noteq> None" using True q(2) by metis
      then show ?thesis using that True q(1) by (auto simp: qz_def)
    next
      case False
      then show ?thesis using that q(1) by (simp add: qz_def Let_def)
    qed
    show ?thesis
      unfolding zids_step_def s prod.case z(1) option.case
      using True qz1 l m by (simp add: qz_def [symmetric] Let_def)
  qed
qed (use q in simp)

lemma directives_return:
  assumes ok: "input_ok ops" and ql: "some_words ql" and q: "has_term q"
  shows "returns (go_loop (directives_step ops ql) ((q, b), i)) (\<lambda>(q', j). has_term q' \<and> later ops i j)"
proof (rule returns_go_loop [where good = "\<lambda>((q, b), j). has_term q \<and> later ops i j" and m = "\<lambda>(x, j). left ops j"])
  have w: "api_word ql x \<noteq> []" for x using ql by (simp add: some_words_def)
  fix s :: "(query option \<times> bool) \<times> 'a"
  assume g: "(\<lambda>((q, b), j). has_term q \<and> later ops i j) s"
  obtain q b j where s: "s = ((q, b), j)" by (metis surj_pair)
  have q: "has_term q" and j: "later ops i j" using g s by auto
  let ?P = "\<lambda>r. case r of
        Inl s' \<Rightarrow> (\<lambda>((q, b), j). has_term q \<and> later ops i j) s' \<and> (\<lambda>(x, j). left ops j) s' < (\<lambda>(x, j). left ops j) s
      | Inr x \<Rightarrow> (\<lambda>(q', j). has_term q' \<and> later ops i j) x"
  let ?k = "inp_SkipSpace ops j"
  have k: "later ops j ?k" by (rule Skip_later [OF ok])
  have ik: "later ops i ?k" by (rule pos_trans(1) [OF j k])
  have go1: "later ops i l \<and> left ops l < left ops j" if "after_pos ops ?k l" for l
    using pos_trans(1) [OF ik after_later(1) [OF that]] after_left [OF ok pos_trans(3) [OF k that]] by simp
  have go: "?P (Inl ((q', b'), l))" if "after_pos ops ?k l" "has_term q'" for q' b' l
    using go1 [OF that(1)] that(2) unfolding s by auto
  have stop: "?P (Inr (q, l))" if "same_pos ops ?k l" for l
    using that q ik pos_trans(1) [OF ik after_later(2) [OF that]] by simp
  show "returns (directives_step ops ql s) ?P"
  proof (cases "mustStop ops ?k")
    case True
    then show ?thesis using ik q by (simp add: s directives_step_def)
  next
    case False
    have c: "returns (if b then Some (Inr (q, inp_SetPos ops l (inp_Pos ops ?k)))
          else map_option (\<lambda>(q, j). Inl ((Some q, True), j)) (parseContext ops ql q l)) ?P" if "after_pos ops ?k l" for l
    proof (cases b)
      case True
      then show ?thesis using stop SetPos_same [OF ok after_later(1) [OF that]] by simp
    next
      case False
      have "returns (map_option (\<lambda>(q, j). Inl ((Some q, True), j)) (parseContext ops ql q l)) ?P"
        unfolding returns_map
        by (rule returns_mono [OF parseContext_returns [OF ok ql q]])
          (use go1 pos_trans(2) [OF that] in \<open>auto simp: s\<close>)
      then show ?thesis using False by simp
    qed
    have u: "returns (map_option (\<lambda>(q, j). Inl ((Some q, b), j)) (parseUnlinked ops ql qq l)) ?P"
      if "after_pos ops ?k l" "q = Some qq" for l qq
      unfolding returns_map
      by (rule returns_mono [OF parseUnlinked_returns [OF ok ql]])
        (use q go1 pos_trans(2) [OF that(1)] that(2) in \<open>auto simp: s\<close>)
    have "returns (directives_step ops ql ((q, b), j)) ?P"
    proof (cases q)
      case None
      show ?thesis
        unfolding directives_step_def prod.case Let_def if_not_P [OF False]
        by (rule try_single_returns [OF ok w], erule c) (use stop in \<open>simp add: None\<close>)
    next
      case (Some qq)
      have t: "returns (Some (Inl ((Some (add_directive d qq), b), l))) ?P" if "after_pos ops m l" "same_pos ops ?k m" for d l m
        using go [OF pos_trans(5) [OF that(2,1)], of "Some (add_directive d qq)" b] q by (simp add: add_directive_def Some)
      show ?thesis
        unfolding directives_step_def prod.case Let_def if_not_P [OF False]
      proof (rule try_single_returns [OF ok w], erule c)
        fix l assume l: "same_pos ops ?k l"
        show "returns (case q of None \<Rightarrow> Some (Inr (q, l))
          | Some qq \<Rightarrow>
            if length (q_zids qq) = 0 then Some (Inr (q, l))
            else
              try_single ops l (api_word ql IdentDirective) (\<lambda>j. Some (Inl ((Some (add_directive DirIdent qq), b), j))) (\<lambda>i.
              try_single ops i (api_word ql ItemsDirective) (\<lambda>j. Some (Inl ((Some (add_directive DirItems qq), b), j))) (\<lambda>i.
              try_single ops i (api_word ql UnlinkedDirective)
                (\<lambda>j. map_option (\<lambda>(q, j). Inl ((Some q, b), j)) (parseUnlinked ops ql qq j)) (\<lambda>i.
              Some (Inr (q, i)))))) ?P"
        proof (cases "length (q_zids qq) = 0")
          case True
          then show ?thesis using stop [OF l] by (simp add: Some)
        next
          case False
          show ?thesis
            unfolding Some option.case if_not_P [OF False]
            apply (rule try_single_returns [OF ok w], rule t, assumption, rule l)
            apply (rule try_single_returns [OF ok w], rule t, assumption, erule pos_trans(6) [OF l])
            apply (rule try_single_returns [OF ok w], rule u, blast intro: pos_trans(5) pos_trans(6) l, rule Some)
            apply (simp only: returns_Some)
            apply (rule stop [unfolded Some])
            apply (blast intro: pos_trans(6) l)
            done
        qed
      qed
    qed
    then show ?thesis by (simp add: s)
  qed
qed (use q in simp)

lemma start_term_returns: "q_terms q \<noteq> [] \<Longrightarrow> returns (start_term q) (\<lambda>q'. q_terms q' \<noteq> [])"
  by (simp add: start_term_def)

lemma main_returns:
  assumes ok: "input_ok ops" and ql: "some_words ql" and q: "has_term q"
  shows "returns (go_loop (main_step ops ql) (q, i)) (\<lambda>(q', j). has_term q')"
proof (rule returns_go_loop [where good = "\<lambda>(q, j). has_term q" and m = "\<lambda>(x, j). left ops j"])
  have w: "api_word ql x \<noteq> []" for x using ql by (simp add: some_words_def)
  fix s :: "query option \<times> 'a"
  assume g: "(\<lambda>(q, j). has_term q) s"
  obtain q j where s: "s = (q, j)" by (cases s)
  have q: "has_term q" using g s by simp
  let ?P = "\<lambda>r. case r of
        Inl s' \<Rightarrow> (\<lambda>(q, j). has_term q) s' \<and> (\<lambda>(x, j). left ops j) s' < (\<lambda>(x, j). left ops j) s
      | Inr x \<Rightarrow> (\<lambda>(q', j). has_term q') x"
  let ?k = "inp_SkipSpace ops j"
  have k: "later ops j ?k" by (rule Skip_later [OF ok])
  have sp: "\<not> inp_IsSpace ops ?k" using Skip_spec [OF ok, of j] by (simp add: inp_IsSpace_def)
  have go: "?P (Inl (q', l))" if "same_pos ops ?k m" "after_pos ops m l" "has_term q'" for q' l m
    using that(3) after_left [OF ok pos_trans(3) [OF k pos_trans(5) [OF that(1,2)]]] unfolding s by simp
  have go': "returns (Some (Inl (q', l))) ?P" if "same_pos ops ?k m" "after_pos ops m l" "has_term q'" for q' l m
    using go [OF that] by (simp only: returns_Some)
  show "returns (main_step ops ql s) ?P"
  proof (cases "mustStop ops ?k")
    case True
    then show ?thesis using q by (simp add: s main_step_def)
  next
    case False
    have r: "returns (map_option (\<lambda>q. Inl (Some q, l)) (start_term (createIfNeeded q))) ?P" if "after_pos ops ?k l" for l
      unfolding returns_map by (rule returns_mono [OF start_term_returns])
        (use q go [OF later_refl(2) that] in \<open>auto\<close>)
    have rest: "returns (if isActionSep ops l then map_option Inr (parseActions ops q l) else map_option Inl (parseText ops q l)) ?P"
      if l: "same_pos ops ?k l" for l
    proof (cases "isActionSep ops l")
      case True
      have "returns (map_option Inr (parseActions ops q l)) ?P"
        unfolding returns_map by (rule returns_mono [OF parseActions_returns [OF ok q]]) simp
      then show ?thesis using True by simp
    next
      case False
      have "\<not> word_end ops ?k"
        using sp \<open>\<not> mustStop ops ?k\<close> sep_cong [OF ok l] False by (simp add: word_end_def)
      then have "\<not> word_end ops l" using word_end_cong [OF ok l] by simp
      then have "returns (map_option Inl (parseText ops q l)) ?P"
        unfolding returns_map
        by (intro returns_mono [OF parseText_returns [OF ok q]]) (use go [OF l] in \<open>auto\<close>)
      then show ?thesis using False by simp
    qed
    have random: "has_term (Some (set_random (createIfNeeded q)))" using q by (simp add: set_random_def)
    have "returns (main_step ops ql (q, j)) ?P"
      unfolding main_step_def prod.case Let_def if_not_P [OF False]
      apply (rule try_single_returns [OF ok w], erule r)
      apply (rule try_single_returns [OF ok w], rule go', assumption, assumption, rule random)
      apply (rule try_args_returns [OF ok w, where Q = has_term], rule parse_nums_return [OF ok q], simp)
        apply (rule go' [rotated], assumption, assumption, blast intro: pos_trans(6))
      apply (rule try_args_returns [OF ok w, where Q = has_term], rule parseOrder_returns [OF ok q w])
        apply (rule go' [rotated], assumption, assumption, blast intro: pos_trans(6))
      apply (rule try_args_returns [OF ok w, where Q = has_term], rule parse_nums_return [OF ok q], simp)
        apply (rule go' [rotated], assumption, assumption, blast intro: pos_trans(6))
      apply (rule try_args_returns [OF ok w, where Q = has_term], rule parse_nums_return [OF ok q], simp)
        apply (rule go' [rotated], assumption, assumption, blast intro: pos_trans(6))
      apply (rule rest, blast intro: pos_trans(6))
      done
    then show ?thesis by (simp add: s)
  qed
qed (use q in simp)

lemma ps_parse_returns:
  assumes ok: "input_ok ops" and ql: "some_words ql" and q: "has_term q"
  shows "returns (ps_parse ops ql q i) has_term"
proof (cases "mustStop ops (inp_SkipSpace ops i)")
  case True
  then show ?thesis using q by (simp add: ps_parse_def)
next
  case False
  have m: "returns (case (case q' of
              Some qq \<Rightarrow> if length (q_directives qq) = 0 then (Some (qq\<lparr>q_zids := []\<rparr>), inp_SetPos ops k p) else (q', k)
            | None \<Rightarrow> (q', k)) of (q, i) \<Rightarrow> map_option fst (go_loop (main_step ops ql) (q, i))) has_term"
    if "has_term q'" for q' k p
  proof -
    have "returns (go_loop (main_step ops ql) (q2, k2)) (\<lambda>r. has_term (fst r))" if "has_term q2" for q2 k2
      by (rule returns_mono [OF main_returns [OF ok ql that]]) auto
    then show ?thesis using that by (cases q') simp_all
  qed
  have d: "returns (Option.bind (go_loop (directives_step ops ql) ((q', False), k)) (\<lambda>(q', k). case (case q' of
              Some qq \<Rightarrow> if length (q_directives qq) = 0 then (Some (qq\<lparr>q_zids := []\<rparr>), inp_SetPos ops k p) else (q', k)
            | None \<Rightarrow> (q', k)) of (q, i) \<Rightarrow> map_option fst (go_loop (main_step ops ql) (q, i)))) has_term"
    if "has_term q'" for q' k p
    unfolding returns_bind by (rule returns_mono [OF directives_return [OF ok ql that]]) (use m in auto)
  show ?thesis
    unfolding ps_parse_def Let_def if_not_P [OF False] returns_bind
    by (rule returns_mono [OF zids_returns [OF ok q]]) (use d in \<open>auto simp del: returns_bind\<close>)
qed

lemma drop_empty_nonempty [simp]: "drop_empty ts = [] \<longleftrightarrow> ts = []"
  by (induction ts rule: drop_empty.induct) simp_all


text \<open>The words that the client library documents.\<close>

fun doc_word :: "qword \<Rightarrow> string" where
  "doc_word ContextDirective = ''CONTEXT''" | "doc_word FullDirective = ''FULL''"
| "doc_word BackwardDirective = ''BACKWARD''" | "doc_word ForwardDirective = ''FORWARD''"
| "doc_word CostDirective = ''COST''" | "doc_word MaxDirective = ''MAX''"
| "doc_word IdentDirective = ''IDENT''" | "doc_word ItemsDirective = ''ITEMS''"
| "doc_word UnlinkedDirective = ''UNLINKED''" | "doc_word PhraseDirective = ''PHRASE''"
| "doc_word OrDirective = ''OR''" | "doc_word RandomDirective = ''RANDOM''"
| "doc_word PickDirective = ''PICK''" | "doc_word OrderDirective = ''ORDER''"
| "doc_word ReverseDirective = ''REVERSE''" | "doc_word OffsetDirective = ''OFFSET''"
| "doc_word LimitDirective = ''LIMIT''"

fun doc_op :: "compareOp \<Rightarrow> string" where
  "doc_op cmpUnknown = []" | "doc_op cmpExist = ''?''" | "doc_op cmpNotExist = ''!?''"
| "doc_op cmpEqual = ''=''" | "doc_op cmpNotEqual = ''!=''" | "doc_op cmpHas = '':''" | "doc_op cmpHasNot = ''!:''"
| "doc_op cmpPrefix = ''[''" | "doc_op cmpNoPrefix = ''![''" | "doc_op cmpSuffix = '']''" | "doc_op cmpNoSuffix = ''!]''"
| "doc_op cmpMatch = ''~''" | "doc_op cmpNoMatch = ''!~''" | "doc_op cmpLess = ''<''" | "doc_op cmpNoLess = ''!<''"
| "doc_op cmpGreater = ''>''" | "doc_op cmpNoGreater = ''!>''"

definition doc_lang :: query_lang where
  "doc_lang = \<lparr>api_word = doc_word, api_op = doc_op, api_not = ''!''\<rparr>"

lemma doc_lang_words: "some_words doc_lang"
proof -
  have "doc_word w \<noteq> []" for w by (cases w) simp_all
  then show ?thesis by (simp add: some_words_def doc_lang_def)
qed


end
