(* ===== verification/QueryRound.thy ===== *)
theory QueryRound
  imports QueryParseLaws
begin

text \<open>
  The round trip of queries: a query that is printed and parsed again is the same query. The printed text is a
  sequence of pieces separated by spaces; the scanner reads each piece in one step of its main loop.
\<close>

section \<open>Texts that the scanner reads as one word\<close>

definition graphic :: "char \<Rightarrow> bool" where
  "graphic c \<longleftrightarrow> 33 \<le> byte_code c \<and> byte_code c < 127 \<and> c \<noteq> CHR ''|''"

definition graphic_text :: "string \<Rightarrow> bool" where
  "graphic_text w \<longleftrightarrow> (\<forall>c \<in> set w. graphic c)"

lemma graphic_text_simps [simp]: "graphic_text []" "graphic_text (c # w) \<longleftrightarrow> graphic c \<and> graphic_text w"
    "graphic_text (v @ w) \<longleftrightarrow> graphic_text v \<and> graphic_text w"
  by (auto simp: graphic_text_def)

text \<open>A word ends where the text ends or a space comes.\<close>

definition bnd :: "string \<Rightarrow> bool" where
  "bnd t \<longleftrightarrow> t = [] \<or> (\<exists>u. t = CHR '' '' # u)"

lemma bnd_simps [simp]: "bnd []" "bnd (CHR '' '' # u)"
  by (simp_all add: bnd_def)

lemma byte_code_inject [simp]: "byte_code c = byte_code d \<longleftrightarrow> c = d"
  by (simp add: byte_code_def)

lemma at_graphic:
  assumes ok: "input_ok ops" and a: "at_text ops src (c # t) i" and c: "graphic c"
  shows "inp_Ch ops i = rune c" and "\<not> word_end ops i" and "inp_SkipSpace ops i = i" and "\<not> mustStop ops i"
    and "\<not> isActionSep ops i" and "at_text ops src t (inp_Next ops i)"
proof -
  have b: "byte_code c < 128" using c by (simp add: graphic_def)
  show ch: "inp_Ch ops i = rune c" by (rule at_Ch [OF ok a b])
  have "\<not> inp_isSpace ops (rune c)" using spec [OF in_graph [OF ok], of "rune c"] c by (auto simp: graphic_def)
  then have s: "\<not> inp_IsSpace ops i" using ch by (simp add: inp_IsSpace_def)
  show m: "\<not> mustStop ops i" using in_EOS [OF ok] ch by (simp add: mustStop_def)
  show p: "\<not> isActionSep ops i" using c by (simp add: isActionSep_def ch graphic_def)
  show "\<not> word_end ops i" using s m p by (simp add: word_end_def)
  show "inp_SkipSpace ops i = i" using Skip_id [OF ok] s by (simp add: inp_IsSpace_def)
  show "at_text ops src t (inp_Next ops i)" by (rule at_Next [OF ok a b])
qed

lemma at_bnd:
  assumes ok: "input_ok ops" and a: "at_text ops src t i" and b: "bnd t"
  shows "word_end ops i"
proof (cases t)
  case Nil
  then show ?thesis using at_Nil [OF ok] a by (simp add: word_end_def mustStop_def)
next
  case (Cons c u)
  then have "c = CHR '' ''" using b by (simp add: bnd_def)
  then have "inp_Ch ops i = rune (CHR '' '')" using at_Ch [OF ok a [unfolded Cons]] by (simp add: byte_code_def)
  then show ?thesis using in_blank [OF ok] by (simp add: word_end_def inp_IsSpace_def)
qed

lemma at_blank:
  assumes ok: "input_ok ops" and a: "at_text ops src (CHR '' '' # u) i"
  shows "inp_IsSpace ops i" and "inp_SkipSpace ops i = inp_SkipSpace ops (inp_Next ops i)" and "at_text ops src u (inp_Next ops i)"
proof -
  have b: "byte_code (CHR '' '') < 128" by (simp add: byte_code_def)
  have ch: "inp_Ch ops i = rune (CHR '' '')" by (rule at_Ch [OF ok a b])
  then show "inp_IsSpace ops i" using in_blank [OF ok] by (simp add: inp_IsSpace_def)
  then show "inp_SkipSpace ops i = inp_SkipSpace ops (inp_Next ops i)" using Skip_space [OF ok] by (simp add: inp_IsSpace_def)
  show "at_text ops src u (inp_Next ops i)" by (rule at_Next [OF ok a b])
qed

lemma word_loop_at:
  assumes ok: "input_ok ops" and "graphic_text w" "bnd t" "at_text ops src (w @ t) i"
  shows "\<exists>j. go_loop (word_step ops) i = Some j \<and> at_text ops src t j"
  using assms(2-)
proof (induction w arbitrary: i)
  case Nil
  then show ?case using at_bnd [OF ok, of src t i] by (intro exI [of _ i]) (simp add: go_loop_done word_step_def)
next
  case (Cons c w)
  have "\<not> word_end ops i" "at_text ops src (w @ t) (inp_Next ops i)"
    using at_graphic [OF ok, of src c "w @ t" i] Cons.prems by auto
  moreover from this(1) have "go_loop (word_step ops) i = go_loop (word_step ops) (inp_Next ops i)"
    by (intro go_loop_next) (simp add: word_step_def)
  ultimately show ?case using Cons by simp
qed

lemma scanWord_at:
  assumes ok: "input_ok ops" and "graphic_text w" "bnd t" "at_text ops src (w @ t) i"
  shows "\<exists>j. scanWord ops i = Some (w, j) \<and> at_text ops src t j"
  using word_loop_at [OF assms] at_src_from [OF ok assms(4)] by (auto simp: scanWord_def)

section \<open>Accepted and refused words\<close>

lemma prefix_word: "graphic_text s \<Longrightarrow> bnd t \<Longrightarrow> prefix s (w @ t) \<Longrightarrow> prefix s w"
proof (induction s arbitrary: w)
  case (Cons c s)
  show ?case
  proof (cases w)
    case Nil
    then have "\<exists>u. t = c # u" using Cons.prems(3) by (cases t) auto
    then have "c = CHR '' ''" using Cons.prems(2) by (auto simp: bnd_def)
    then show ?thesis using Cons.prems(1) by (simp add: graphic_def byte_code_def)
  next
    case (Cons d w')
    then show ?thesis using Cons.IH [of w'] Cons.prems by simp
  qed
qed simp

lemma single_at:
  assumes ok: "input_ok ops" and "s \<noteq> []" "bnd t" "at_text ops src (s @ t) i"
  shows "\<exists>j. acceptSingleKw ops i s = (True, j) \<and> at_text ops src t j"
  using at_Accept [OF ok assms(2,4)] at_bnd [OF ok _ assms(3)] by (auto simp: acceptSingleKw_def split: prod.splits)

lemma refused_at:
  assumes ok: "input_ok ops" and s: "s \<noteq> []" "graphic_text s" and w: "graphic_text w" "bnd t" "w \<noteq> s"
    and a: "at_text ops src (w @ t) i" and acc: "inp_Accept ops i s = (True, j)"
  shows "\<not> word_end ops j"
proof -
  have "prefix s (w @ t)" using Accept_iff [OF ok s(1), of i] acc a by (simp add: at_text_def)
  then obtain v where v: "w = s @ v" using prefix_word [OF s(2) w(2)] by (auto simp: prefix_def)
  then obtain c v' where cv: "v = c # v'" using w(3) by (cases v) auto
  have "at_text ops src (c # v' @ t) j"
    using at_Accept [OF ok s(1), of src "v @ t" i] a acc by (simp add: v cv)
  then show ?thesis using at_graphic(2) [OF ok] w(1) v cv by auto
qed

lemma single_refused:
  assumes ok: "input_ok ops" and s: "s \<noteq> []" "graphic_text s" and w: "graphic_text w" "bnd t" "w \<noteq> s"
    and a: "at_text ops src (w @ t) i"
  shows "\<exists>j. acceptSingleKw ops i s = (False, j) \<and> inp_Src ops j = src"
proof -
  obtain b j where acc: "inp_Accept ops i s = (b, j)" by fastforce
  then have "inp_Src ops j = src" using in_Src(3) [OF ok, of i s] a by (simp add: at_text_def)
  then show ?thesis using refused_at [OF assms] acc by (cases b) (simp_all add: acceptSingleKw_def)
qed

lemma args_refused:
  assumes ok: "input_ok ops" and s: "s \<noteq> []" "graphic_text s" and w: "graphic_text w" "bnd t" "w \<noteq> s"
    and a: "at_text ops src (w @ t) i"
  shows "\<exists>j. acceptKwArgs ops i s = (False, j) \<and> inp_Src ops j = src"
proof -
  obtain b j where acc: "inp_Accept ops i s = (b, j)" by fastforce
  then have "inp_Src ops j = src" using in_Src(3) [OF ok, of i s] a by (simp add: at_text_def)
  then show ?thesis using refused_at [OF assms] acc by (cases b) (simp_all add: acceptKwArgs_def word_end_def)
qed

lemma args_at:
  assumes ok: "input_ok ops" and "s \<noteq> []" "graphic c" "at_text ops src (s @ CHR '' '' # c # t) i"
  shows "\<exists>j. acceptKwArgs ops i s = (True, j) \<and> at_text ops src (c # t) j"
proof -
  obtain j where j: "inp_Accept ops i s = (True, j)" "at_text ops src (CHR '' '' # c # t) j"
    using at_Accept [OF ok assms(2,4)] by (cases "inp_Accept ops i s") auto
  note b = at_blank [OF ok j(2)]
  have "inp_SkipSpace ops (inp_Next ops j) = inp_Next ops j" by (rule at_graphic(3) [OF ok b(3) assms(3)])
  then show ?thesis using j(1) b by (simp add: acceptKwArgs_def)
qed

lemma try_single_refused:
  assumes "input_ok ops" "s \<noteq> []" "graphic_text s" "graphic_text w" "bnd t" "w \<noteq> s" "at_text ops src (w @ t) i"
  shows "\<exists>j. try_single ops i s f g = g j \<and> at_text ops src (w @ t) j"
  using single_refused [OF assms] at_SetPos [OF assms(1,7)] by (auto simp: try_single_def)

lemma try_args_refused:
  assumes "input_ok ops" "s \<noteq> []" "graphic_text s" "graphic_text w" "bnd t" "w \<noteq> s" "at_text ops src (w @ t) i"
  shows "\<exists>j. try_args ops i s a f g = g j \<and> at_text ops src (w @ t) j"
  using args_refused [OF assms] at_SetPos [OF assms(1,7)] by (auto simp: try_args_def)

lemma try_single_taken:
  assumes "input_ok ops" "s \<noteq> []" "bnd t" "at_text ops src (s @ t) i"
  shows "\<exists>j. try_single ops i s f g = f j \<and> at_text ops src t j"
  using single_at [OF assms] by (auto simp: try_single_def)

text \<open>The same as rules for a chain of alternatives.\<close>

lemma skip_single:
  assumes "input_ok ops" "s \<noteq> []" "graphic_text s" "graphic_text w" "bnd t" "w \<noteq> s" "at_text ops src (w @ t) i"
    and "\<And>j. at_text ops src (w @ t) j \<Longrightarrow> \<exists>k. g j = R k \<and> P k"
  shows "\<exists>k. try_single ops i s f g = R k \<and> P k"
  using try_single_refused [OF assms(1-7), of f g] assms(8) by force

lemma skip_args:
  assumes "input_ok ops" "s \<noteq> []" "graphic_text s" "graphic_text w" "bnd t" "w \<noteq> s" "at_text ops src (w @ t) i"
    and "\<And>j. at_text ops src (w @ t) j \<Longrightarrow> \<exists>k. g j = R k \<and> P k"
  shows "\<exists>k. try_args ops i s a f g = R k \<and> P k"
  using try_args_refused [OF assms(1-7), of a f g] assms(8) by force

section \<open>The query language\<close>

text \<open>Different words in capital letters, and the documented operators.\<close>

definition capital :: "char \<Rightarrow> bool" where
  "capital c \<longleftrightarrow> 65 \<le> byte_code c \<and> byte_code c \<le> 90"

definition lang_ok :: "query_lang \<Rightarrow> bool" where
  "lang_ok ql \<longleftrightarrow> inj (api_word ql) \<and> (\<forall>w. api_word ql w \<noteq> [] \<and> (\<forall>c \<in> set (api_word ql w). capital c)) \<and>
     (\<forall>op. api_op ql op = doc_op op) \<and> api_not ql = ''!''"

lemma capital_graphic: "capital c \<Longrightarrow> graphic c"
  by (auto simp: capital_def graphic_def byte_code_def)

lemma lang_words:
  assumes "lang_ok ql"
  shows "api_word ql w \<noteq> []" and "graphic_text (api_word ql w)" and "api_word ql v = api_word ql w \<longleftrightarrow> v = w"
  using assms capital_graphic by (auto simp: lang_ok_def graphic_text_def inj_def)

lemma lang_some: "lang_ok ql \<Longrightarrow> some_words ql"
  by (simp add: lang_ok_def some_words_def)

definition no_word :: "query_lang \<Rightarrow> string \<Rightarrow> bool" where
  "no_word ql w \<longleftrightarrow> w \<notin> range (api_word ql)"

lemma no_word_D: "no_word ql w \<Longrightarrow> w \<noteq> api_word ql x"
  by (auto simp: no_word_def)

text \<open>A word that is no word of the language reaches the scanner of search texts.\<close>

lemma main_text:
  assumes ok: "input_ok ops" and ql: "lang_ok ql" and w: "graphic_text w" "w \<noteq> []" "no_word ql w" "bnd t"
    and a: "at_text ops src (w @ t) i"
  shows "\<exists>j. main_step ops ql (q, i) = map_option Inl (parseText ops q j) \<and> at_text ops src (w @ t) j"
proof -
  obtain c w' where c: "w = c # w'" "graphic c" using w(1,2) by (cases w) auto
  have a': "at_text ops src (c # w' @ t) i" using a c by simp
  note g = at_graphic [OF ok a' c(2)]
  note rs = skip_single [OF ok lang_words(1,2) [OF ql] w(1,4) no_word_D [OF w(3)]]
  note ra = skip_args [OF ok lang_words(1,2) [OF ql] w(1,4) no_word_D [OF w(3)]]
  have sep: "\<not> isActionSep ops j" if "at_text ops src (w @ t) j" for j
    using at_graphic(5) [OF ok _ c(2), of src "w' @ t" j] that c(1) by simp
  show ?thesis
    unfolding main_step_def prod.case Let_def g(3) if_not_P [OF g(4)]
    apply (rule rs [OF a], erule rs, erule ra, erule ra, erule ra, erule ra)
    using sep by auto
qed

section \<open>Search texts\<close>

definition op_start :: "char \<Rightarrow> bool" where
  "op_start c \<longleftrightarrow> c \<in> {CHR ''!'', CHR ''?'', CHR ''='', CHR '':'', CHR '']'', CHR ''['', CHR ''~'', CHR ''<'', CHR ''>''}"

lemma op_of_rune: "op_of_char (rune c) = None \<longleftrightarrow> \<not> (op_start c \<and> c \<noteq> CHR ''!'')"
  by (auto simp: op_of_char_def op_start_def)

lemma op_char_rune: "op_char (rune c) \<longleftrightarrow> op_start c"
  by (auto simp: op_char_def op_of_rune op_start_def)

lemma text_loop_at:
  assumes ok: "input_ok ops" and "graphic_text w" "bnd t" "\<forall>c \<in> set w. a \<longrightarrow> \<not> op_start c"
    and "at_text ops src (w @ t) i" and "inp_Pos ops i0 = pos" "at_text ops src (u @ w @ t) i0"
  shows "\<exists>j. go_loop (text_step ops pos) (a, i) = Some (u @ w, None, j) \<and> at_text ops src t j"
  using assms(2-)
proof (induction w arbitrary: i u)
  case Nil
  have "src_from ops pos i = u" using at_src_from [OF ok, of src u t i0 i] Nil by simp
  then have "text_step ops pos (a, i) = Some (Inr (u, None, i))"
    using at_bnd [OF ok, of src t i] Nil by (simp add: text_step_def)
  then show ?case using go_loop_done Nil by fastforce
next
  case (Cons c w)
  note g = at_graphic [OF ok, of src c "w @ t" i]
  have "text_step ops pos (a, i) = Some (Inl (a, inp_Next ops i))"
    using g Cons.prems by (auto simp: text_step_def op_char_rune)
  then have "go_loop (text_step ops pos) (a, i) = go_loop (text_step ops pos) (a, inp_Next ops i)" by (rule go_loop_next)
  then show ?case using Cons.IH [of "inp_Next ops i" "u @ [c]"] g(6) Cons.prems by simp
qed

lemma key_chars: "KeyIsValid k \<Longrightarrow> \<forall>c \<in> set k. graphic c \<and> \<not> op_start c \<and> \<not> capital c"
  by (cases k) (auto simp: KeyIsValid_def key_start_def graphic_def op_start_def capital_def list_all_iff byte_code_def)

lemma key_loop_at:
  assumes ok: "input_ok ops" and "KeyIsValid (u @ k)" "op_start c"
    and "at_text ops src (k @ c # r) i" and "inp_Pos ops i0 = pos" "at_text ops src (u @ k @ c # r) i0"
  shows "\<exists>j. go_loop (text_step ops pos) (True, i) = Some ([], Some (u @ k), j) \<and> at_text ops src (c # r) j"
  using assms(2-)
proof (induction k arbitrary: i u)
  case Nil
  have "src_from ops pos i = u" using at_src_from [OF ok, of src u "c # r" i0 i] Nil by simp
  moreover have g: "graphic c" using Nil by (auto simp: op_start_def graphic_def byte_code_def)
  moreover have "inp_Ch ops i = rune c" "\<not> word_end ops i" using at_graphic [OF ok, of src c r i] g Nil by auto
  ultimately have "text_step ops pos (True, i) = Some (Inr ([], Some u, i))"
    using Nil by (simp add: text_step_def op_char_rune)
  then show ?case using go_loop_done Nil by fastforce
next
  case (Cons d k)
  have d: "graphic d" "\<not> op_start d" using key_chars [OF Cons.prems(1)] by auto
  note g = at_graphic [OF ok, of src d "k @ c # r" i]
  have "text_step ops pos (True, i) = Some (Inl (True, inp_Next ops i))"
    using g Cons.prems d by (auto simp: text_step_def op_char_rune)
  then have "go_loop (text_step ops pos) (True, i) = go_loop (text_step ops pos) (True, inp_Next ops i)" by (rule go_loop_next)
  then show ?case using Cons.IH [of "u @ [d]" "inp_Next ops i"] g(6) Cons.prems d by simp
qed

lemma scanOp_at:
  assumes ok: "input_ok ops" and o: "op \<noteq> cmpUnknown" and a: "at_text ops src (doc_op op @ r) i"
  shows "\<exists>j. scanSearchOp ops i = ((op, True), j) \<and> at_text ops src r j"
proof -
  have g: "graphic c" if "op_start c" for c using that by (auto simp: op_start_def graphic_def byte_code_def)
  have one: "\<exists>j. scanSearchOp ops i = ((o1, True), j) \<and> at_text ops src r j"
    if a: "at_text ops src (c # r) i" and c: "op_of_char (rune c) = Some o1" "c \<noteq> CHR ''!''" for c o1
  proof -
    have "op_start c" using c op_of_rune [of c] by simp
    note g = at_graphic [OF ok a g [OF this]]
    show ?thesis using g(1,6) c by (simp add: scanSearchOp_def Let_def)
  qed
  have two: "\<exists>j. scanSearchOp ops i = ((negate o1, True), j) \<and> at_text ops src r j"
    if a: "at_text ops src (CHR ''!'' # c # r) i" and c: "op_of_char (rune c) = Some o1" for c o1
  proof -
    have "op_start (CHR ''!'')" by (simp add: op_start_def)
    note g1 = at_graphic [OF ok a g [OF this]]
    have "op_start c" using c op_of_rune [of c] by simp
    note g2 = at_graphic [OF ok g1(6) g [OF this]]
    show ?thesis using g1(1) g2(1,6) c by (simp add: scanSearchOp_def Let_def)
  qed
  have ch: "op_of_char (rune (CHR ''?'')) = Some cmpExist" "op_of_char (rune (CHR ''='')) = Some cmpEqual"
    "op_of_char (rune (CHR '':'')) = Some cmpHas" "op_of_char (rune (CHR '']'')) = Some cmpSuffix"
    "op_of_char (rune (CHR ''['')) = Some cmpPrefix" "op_of_char (rune (CHR ''~'')) = Some cmpMatch"
    "op_of_char (rune (CHR ''<'')) = Some cmpLess" "op_of_char (rune (CHR ''>'')) = Some cmpGreater"
    by (simp_all add: op_of_char_def)
  show ?thesis
    using a o one [OF _ ch(1)] one [OF _ ch(2)] one [OF _ ch(3)] one [OF _ ch(4)] one [OF _ ch(5)] one [OF _ ch(6)]
      one [OF _ ch(7)] one [OF _ ch(8)] two [OF _ ch(1)] two [OF _ ch(2)] two [OF _ ch(3)] two [OF _ ch(4)] two [OF _ ch(5)]
      two [OF _ ch(6)] two [OF _ ch(7)] two [OF _ ch(8)]
    by (cases op) simp_all
qed

lemma no_op_at:
  assumes ok: "input_ok ops" and a: "at_text ops src (c # r) i" and c: "graphic c" "\<not> op_start c"
  shows "scanSearchOp ops i = ((cmpUnknown, False), i)"
proof -
  have n: "op_of_char (rune c) = None" "c \<noteq> CHR ''!''" using c(2) op_of_rune [of c] by (auto simp: op_start_def)
  then show ?thesis using at_graphic(1) [OF ok a c(1)] by (simp add: scanSearchOp_def Let_def)
qed

lemma not_op_at:
  assumes ok: "input_ok ops" and a: "at_text ops src (CHR ''!'' # c # r) i" and c: "graphic c" "op_start c \<longrightarrow> c = CHR ''!''"
  shows "\<exists>j. scanSearchOp ops i = ((cmpNoMatch, True), j) \<and> at_text ops src (c # r) j"
proof -
  have "graphic (CHR ''!'')" by (simp add: graphic_def byte_code_def)
  note g1 = at_graphic [OF ok a this]
  have "op_of_char (rune c) = None" using c(2) op_of_rune [of c] by auto
  then show ?thesis using g1(1,6) at_graphic(1) [OF ok g1(6) c(1)] by (simp add: scanSearchOp_def Let_def)
qed

section \<open>The pieces of a term\<close>

definition upd_last :: "(conjTerms \<Rightarrow> conjTerms) \<Rightarrow> query \<Rightarrow> query" where
  "upd_last f q = q\<lparr>q_terms := butlast (q_terms q) @ [f (last (q_terms q))]\<rparr>"

lemma adds_last:
  assumes "has_term q"
  shows "q_addSearch (createIfNeeded q) v = Some (upd_last (\<lambda>ct. ct_addSearch ct v) (createIfNeeded q))"
    and "q_addValue (createIfNeeded q) k v = Some (upd_last (ct_addValue k v) (createIfNeeded q))"
    and "q_addKey q k op = Some (upd_last (\<lambda>ct. ct_addKey ct k op) (createIfNeeded q))"
  using has_term_create [OF assms]
  by (simp_all add: q_addSearch_def q_addValue_def q_addKey_def Let_def update_last_Some upd_last_def)

text \<open>The operations of a search value, and those of a value for a key.\<close>

definition search_op :: "compareOp \<Rightarrow> bool" where
  "search_op op \<longleftrightarrow> op \<notin> {cmpUnknown, cmpExist, cmpNotExist, cmpMatch, cmpNoMatch}"

definition value_op :: "compareOp \<Rightarrow> bool" where
  "value_op op \<longleftrightarrow> op \<notin> {cmpUnknown, cmpExist, cmpNotExist}"

lemma doc_op_start: "op \<noteq> cmpUnknown \<Longrightarrow> \<exists>c r. doc_op op = c # r \<and> op_start c \<and> graphic_text (c # r)"
  by (cases op) (auto simp: op_start_def graphic_def byte_code_def)

lemma scan_text:
  assumes "input_ok ops" "graphic_text w" "bnd t" "\<forall>c \<in> set w. \<not> hasOp \<longrightarrow> \<not> op_start c" "at_text ops src (w @ t) i"
  shows "\<exists>j. scanSearchTextOrKey ops hasOp i = Some (w, None, j) \<and> at_text ops src t j"
  using text_loop_at [OF assms(1-3), of "\<not> hasOp" src i i "inp_Pos ops i" "[]"] assms(4,5)
  by (simp add: scanSearchTextOrKey_def)

lemma scan_key:
  assumes "input_ok ops" "KeyIsValid k" "op_start c" "at_text ops src (k @ c # r) i"
  shows "\<exists>j. scanSearchTextOrKey ops False i = Some ([], Some k, j) \<and> at_text ops src (c # r) j"
  using key_loop_at [OF assms(1), of "[]" k c src r i i "inp_Pos ops i"] assms(2-)
  by (simp add: scanSearchTextOrKey_def)

lemma parse_search:
  assumes ok: "input_ok ops" and q: "has_term q" and v: "graphic_text v" "v \<noteq> []" "bnd t" and o: "search_op op"
    and a: "at_text ops src ((doc_op op @ v) @ t) i"
  shows "\<exists>j. parseText ops q i = Some (Some (upd_last (\<lambda>ct. ct_addSearch ct \<lparr>ev_value = v, ev_op = op\<rparr>) (createIfNeeded q)), j) \<and>
    at_text ops src t j"
proof -
  obtain j where j: "scanSearchOp ops i = ((op, True), j)" "at_text ops src (v @ t) j"
    using scanOp_at [OF ok, of op src "v @ t" i] o a by (auto simp: search_op_def)
  obtain k where k: "scanSearchTextOrKey ops True j = Some (v, None, k)" "at_text ops src t k"
    using scan_text [OF ok v(1,3) _ j(2), of True] by auto
  have "op \<noteq> cmpExist" "op \<noteq> cmpNotExist" using o by (auto simp: search_op_def)
  then show ?thesis using j k v(2) by (simp add: parseText_def adds_last [OF q])
qed

lemma parse_nomatch:
  assumes ok: "input_ok ops" and q: "has_term q" and v: "graphic_text (c # v)" "bnd t" "op_start c \<longrightarrow> c = CHR ''!''"
    and a: "at_text ops src ((CHR ''!'' # c # v) @ t) i"
  shows "\<exists>j. parseText ops q i = Some (Some (upd_last (\<lambda>ct. ct_addSearch ct \<lparr>ev_value = c # v, ev_op = cmpNoMatch\<rparr>) (createIfNeeded q)), j) \<and>
    at_text ops src t j"
proof -
  obtain j where j: "scanSearchOp ops i = ((cmpNoMatch, True), j)" "at_text ops src ((c # v) @ t) j"
    using not_op_at [OF ok, of src c "v @ t" i] v a by auto
  obtain k where k: "scanSearchTextOrKey ops True j = Some (c # v, None, k)" "at_text ops src t k"
    using scan_text [OF ok v(1,2) _ j(2), of True] by auto
  show ?thesis using j k by (simp add: parseText_def adds_last [OF q])
qed

lemma parse_match:
  assumes ok: "input_ok ops" and q: "has_term q" and v: "graphic_text v" "v \<noteq> []" "bnd t" "\<forall>c \<in> set v. \<not> op_start c"
    and a: "at_text ops src (v @ t) i"
  shows "\<exists>j. parseText ops q i = Some (Some (upd_last (\<lambda>ct. ct_addSearch ct \<lparr>ev_value = v, ev_op = cmpMatch\<rparr>) (createIfNeeded q)), j) \<and>
    at_text ops src t j"
proof -
  obtain c w where c: "v = c # w" using v(2) by (cases v) auto
  have j: "scanSearchOp ops i = ((cmpUnknown, False), i)"
    using no_op_at [OF ok, of src c "w @ t" i] v a by (simp add: c)
  obtain k where k: "scanSearchTextOrKey ops False i = Some (v, None, k)" "at_text ops src t k"
    using scan_text [OF ok v(1,3) _ a, of False] v(4) by auto
  show ?thesis using j k v(2) by (simp add: parseText_def adds_last [OF q])
qed

lemma key_first:
  assumes ok: "input_ok ops" and k: "KeyIsValid k" and o: "op \<noteq> cmpUnknown" and a: "at_text ops src (k @ doc_op op @ r) i"
  shows "scanSearchOp ops i = ((cmpUnknown, False), i)"
    and "\<exists>j l. scanSearchTextOrKey ops False i = Some ([], Some k, j) \<and> scanSearchOp ops j = ((op, True), l) \<and> at_text ops src r l"
proof -
  obtain c w where c: "k = c # w" using k by (cases k) (auto simp: KeyIsValid_def)
  show "scanSearchOp ops i = ((cmpUnknown, False), i)"
    using no_op_at [OF ok, of src c "w @ doc_op op @ r" i] key_chars [OF k] a by (simp add: c)
  obtain d u where d: "doc_op op = d # u" "op_start d" using doc_op_start [OF o] by auto
  obtain j where j: "scanSearchTextOrKey ops False i = Some ([], Some k, j)" "at_text ops src (d # u @ r) j"
    using scan_key [OF ok k d(2), of src "u @ r" i] a d(1) by auto
  then show "\<exists>j l. scanSearchTextOrKey ops False i = Some ([], Some k, j) \<and> scanSearchOp ops j = ((op, True), l) \<and> at_text ops src r l"
    using scanOp_at [OF ok o, of src r j] d(1) by auto
qed

lemma parse_value:
  assumes ok: "input_ok ops" and q: "has_term q" and k: "KeyIsValid k" and v: "graphic_text v" "bnd t" and o: "value_op op"
    and a: "at_text ops src ((k @ doc_op op @ v) @ t) i"
  shows "\<exists>j. parseText ops q i = Some (Some (upd_last (ct_addValue k \<lparr>ev_value = v, ev_op = op\<rparr>) (createIfNeeded q)), j) \<and>
    at_text ops src t j"
proof -
  have o': "op \<noteq> cmpUnknown" "op \<noteq> cmpExist" "op \<noteq> cmpNotExist" using o by (auto simp: value_op_def)
  have a': "at_text ops src (k @ doc_op op @ v @ t) i" using a by simp
  obtain j l where j: "scanSearchTextOrKey ops False i = Some ([], Some k, j)" "scanSearchOp ops j = ((op, True), l)" "at_text ops src (v @ t) l"
    using key_first(2) [OF ok k o'(1) a'] by blast
  obtain m where m: "scanWord ops l = Some (v, m)" "at_text ops src t m" using scanWord_at [OF ok v j(3)] by blast
  show ?thesis using key_first(1) [OF ok k o'(1) a'] j m o' by (simp add: parseText_def adds_last [OF q])
qed

lemma parse_exist:
  assumes ok: "input_ok ops" and q: "has_term q" and k: "KeyIsValid k" and t: "bnd t" and o: "op = cmpExist \<or> op = cmpNotExist"
    and a: "at_text ops src ((k @ doc_op op) @ t) i"
  shows "\<exists>j. parseText ops q i = Some (Some (upd_last (\<lambda>ct. ct_addKey ct k op) (createIfNeeded q)), j) \<and> at_text ops src t j"
proof -
  have o': "op \<noteq> cmpUnknown" using o by auto
  have a': "at_text ops src (k @ doc_op op @ t) i" using a by simp
  obtain j l where j: "scanSearchTextOrKey ops False i = Some ([], Some k, j)" "scanSearchOp ops j = ((op, True), l)" "at_text ops src t l"
    using key_first(2) [OF ok k o' a'] by blast
  show ?thesis using key_first(1) [OF ok k o' a'] j o at_bnd [OF ok j(3) t] by (auto simp: parseText_def adds_last [OF q])
qed

section \<open>Pieces of text\<close>

text \<open>A piece is read in one step of the main loop and changes the query by \<open>f\<close>.\<close>

definition reads :: "'i input \<Rightarrow> query_lang \<Rightarrow> string \<Rightarrow> (query \<Rightarrow> query) \<Rightarrow> bool" where
  "reads ops ql g f \<longleftrightarrow> g \<noteq> [] \<and> (\<forall>q t src i. has_term q \<longrightarrow> bnd t \<longrightarrow> at_text ops src (g @ t) i \<longrightarrow>
     (\<exists>j. main_step ops ql (q, i) = Some (Inl (Some (f (createIfNeeded q)), j)) \<and> at_text ops src t j))"

lemma readsI:
  assumes "input_ok ops" "lang_ok ql" "graphic_text g" "g \<noteq> []" "no_word ql g"
    and "\<And>q t src i. has_term q \<Longrightarrow> bnd t \<Longrightarrow> at_text ops src (g @ t) i \<Longrightarrow>
      \<exists>j. parseText ops q i = Some (Some (f (createIfNeeded q)), j) \<and> at_text ops src t j"
  shows "reads ops ql g f"
  unfolding reads_def
proof (intro conjI allI impI)
  fix q t src i assume a: "has_term q" "bnd t" "at_text ops src (g @ t) i"
  obtain j where j: "main_step ops ql (q, i) = map_option Inl (parseText ops q j)" "at_text ops src (g @ t) j"
    using main_text [OF assms(1-5) a(2,3)] by blast
  then show "\<exists>j. main_step ops ql (q, i) = Some (Inl (Some (f (createIfNeeded q)), j)) \<and> at_text ops src t j"
    using assms(6) [OF a(1,2) j(2)] by auto
qed (rule assms(4))

lemma no_word_char: "lang_ok ql \<Longrightarrow> c \<in> set w \<Longrightarrow> \<not> capital c \<Longrightarrow> no_word ql w"
  by (auto simp: lang_ok_def no_word_def)

lemma op_not_capital: "op_start c \<Longrightarrow> \<not> capital c"
  by (auto simp: op_start_def capital_def byte_code_def)

lemma key_graphic: "KeyIsValid k \<Longrightarrow> graphic_text k"
  using key_chars by (auto simp: graphic_text_def)

text \<open>The texts of a search value that are read as they are printed.\<close>

definition search_text :: "query_lang \<Rightarrow> expValue \<Rightarrow> bool" where
  "search_text ql v \<longleftrightarrow> graphic_text (ev_value v) \<and> ev_value v \<noteq> [] \<and>
     (search_op (ev_op v) \<or>
      (ev_op v = cmpNoMatch \<and> (op_start (hd (ev_value v)) \<longrightarrow> hd (ev_value v) = CHR ''!'')) \<or>
      (ev_op v = cmpMatch \<and> (\<forall>c \<in> set (ev_value v). \<not> op_start c) \<and> no_word ql (ev_value v)))"

definition search_piece :: "expValue \<Rightarrow> string" where
  "search_piece v = (if ev_op v = cmpMatch then [] else if ev_op v = cmpNoMatch then ''!'' else doc_op (ev_op v)) @ ev_value v"

lemma reads_search:
  assumes ok: "input_ok ops" and ql: "lang_ok ql" and v: "search_text ql v"
  shows "reads ops ql (search_piece v) (upd_last (\<lambda>ct. ct_addSearch ct v))"
proof -
  have g: "graphic_text (ev_value v)" "ev_value v \<noteq> []" using v by (simp_all add: search_text_def)
  have ev: "\<lparr>ev_value = ev_value v, ev_op = ev_op v\<rparr> = v" by simp
  consider (op) "search_op (ev_op v)" | (no) "ev_op v = cmpNoMatch" "op_start (hd (ev_value v)) \<longrightarrow> hd (ev_value v) = CHR ''!''"
    | (yes) "ev_op v = cmpMatch" "\<forall>c \<in> set (ev_value v). \<not> op_start c" "no_word ql (ev_value v)"
    using v by (auto simp: search_text_def)
  then show ?thesis
  proof cases
    case op
    then have o: "ev_op v \<noteq> cmpUnknown" "ev_op v \<noteq> cmpMatch" "ev_op v \<noteq> cmpNoMatch" by (auto simp: search_op_def)
    obtain c r where c: "doc_op (ev_op v) = c # r" "op_start c" "graphic_text (c # r)" using doc_op_start [OF o(1)] by blast
    have p: "search_piece v = doc_op (ev_op v) @ ev_value v" using o by (simp add: search_piece_def)
    show ?thesis
      unfolding p
      by (rule readsI [OF ok ql])
        (use g c no_word_char [OF ql _ op_not_capital [OF c(2)]] parse_search [OF ok _ g _ op, unfolded ev] in auto)
  next
    case no
    obtain c w where c: "ev_value v = c # w" using g by (cases "ev_value v") auto
    have p: "search_piece v = CHR ''!'' # c # w" using no c by (simp add: search_piece_def)
    have "graphic (CHR ''!'')" "\<not> capital (CHR ''!'')" by (simp_all add: graphic_def capital_def byte_code_def)
    note b = this
    have e: "\<lparr>ev_value = c # w, ev_op = cmpNoMatch\<rparr> = v" using ev c no by simp
    have cw: "graphic_text (c # w)" "op_start c \<longrightarrow> c = CHR ''!''" using g no(2) by (simp_all add: c)
    show ?thesis
      unfolding p
    proof (rule readsI [OF ok ql])
      show "graphic_text (CHR ''!'' # c # w)" using b(1) cw(1) by simp
      show "no_word ql (CHR ''!'' # c # w)" using b(2) by (intro no_word_char [OF ql]) auto
    qed (simp, rule parse_nomatch [OF ok _ cw(1) _ cw(2), unfolded e])
  next
    case yes
    have p: "search_piece v = ev_value v" using yes by (simp add: search_piece_def)
    have e: "\<lparr>ev_value = ev_value v, ev_op = cmpMatch\<rparr> = v" using ev yes by simp
    show ?thesis
      unfolding p by (rule readsI [OF ok ql g yes(3)]) (rule parse_match [OF ok _ g _ yes(2), unfolded e])
  qed
qed

lemma reads_value:
  assumes ok: "input_ok ops" and ql: "lang_ok ql" and k: "KeyIsValid k" and v: "graphic_text (ev_value v)" "value_op (ev_op v)"
  shows "reads ops ql (k @ doc_op (ev_op v) @ ev_value v) (upd_last (ct_addValue k v))"
proof -
  have ev: "\<lparr>ev_value = ev_value v, ev_op = ev_op v\<rparr> = v" by simp
  have o: "ev_op v \<noteq> cmpUnknown" using v(2) by (auto simp: value_op_def)
  obtain c r where c: "doc_op (ev_op v) = c # r" "op_start c" "graphic_text (c # r)" using doc_op_start [OF o] by blast
  show ?thesis
    by (rule readsI [OF ok ql])
      (use c v key_graphic [OF k] no_word_char [OF ql _ op_not_capital [OF c(2)]]
        parse_value [OF ok _ k v(1) _ v(2), unfolded ev] in auto)
qed

lemma reads_exist:
  assumes ok: "input_ok ops" and ql: "lang_ok ql" and k: "KeyIsValid k" and o: "op = cmpExist \<or> op = cmpNotExist"
  shows "reads ops ql (k @ doc_op op) (upd_last (\<lambda>ct. ct_addKey ct k op))"
proof -
  have "op \<noteq> cmpUnknown" using o by auto
  then obtain c r where c: "doc_op op = c # r" "op_start c" "graphic_text (c # r)" using doc_op_start by blast
  show ?thesis
    by (rule readsI [OF ok ql])
      (use c key_graphic [OF k] no_word_char [OF ql _ op_not_capital [OF c(2)]] parse_exist [OF ok _ k _ o] in auto)
qed

section \<open>Numbers\<close>

lemma parse_loop_append:
  "parse_uint_loop b mx n (s @ t) = (case parse_uint_loop b mx n s of Inl e \<Rightarrow> Inl e | Inr m \<Rightarrow> parse_uint_loop b mx m t)"
  by (induction b mx n s rule: parse_uint_loop.induct) (auto split: option.splits)

lemma parse_decimal: "n \<le> mx \<Longrightarrow> parse_uint_loop 10 mx 0 (decimal_string n) = Inr n"
proof (induction n rule: decimal_string.induct)
  case (1 n)
  have d: "digit_val (char_of (48 + d)) = Some d" if "d < 10" for d
    using that by (simp add: digit_val_def)
  show ?case
  proof (cases "n < 10")
    case True
    then show ?thesis using 1 d [of n] by (subst decimal_string.simps) simp
  next
    case False
    have "10 * (n div 10) + n mod 10 = n" by simp
    then show ?thesis using False 1 d [of "n mod 10"]
      by (subst decimal_string.simps) (simp add: parse_loop_append mult.commute)
  qed
qed

lemma decimal_graphic: "c \<in> set (decimal_string n) \<Longrightarrow> graphic c \<and> \<not> capital c"
proof (induction n rule: decimal_string.induct)
  case (1 n)
  have "graphic (char_of (48 + d)) \<and> \<not> capital (char_of (48 + d))" if "d < 10" for d :: nat
  proof -
    have b: "byte_code (char_of (48 + d)) = 48 + d" using that by (intro byte_code_char_of) simp
    moreover have "byte_code (CHR ''|'') = 124" by (simp add: byte_code_def)
    ultimately have "char_of (48 + d) \<noteq> CHR ''|''" using that by auto
    then show ?thesis using b that by (simp add: graphic_def capital_def)
  qed
  then show ?case using 1 by (subst (asm) decimal_string.simps) (auto split: if_splits)
qed

lemma Itoa_graphic: "0 \<le> n \<Longrightarrow> graphic_text (strconv_Itoa n)"
  using decimal_graphic by (auto simp: strconv_Itoa_def graphic_text_def)

lemma Itoa_nonempty: "0 \<le> n \<Longrightarrow> strconv_Itoa n \<noteq> []"
  by (simp add: strconv_Itoa_def decimal_string_nonempty)

lemma ParseUint_Itoa: "0 \<le> n \<Longrightarrow> n < 2 ^ 63 \<Longrightarrow> strconv_ParseUint (strconv_Itoa n) 10 63 = Inr (nat n)"
  using Itoa_nonempty [of n] parse_decimal [of "nat n" "2 ^ 63 - 1"]
  by (simp add: strconv_ParseUint_def strconv_Itoa_def nat_le_iff)

lemma scanPosInt_at:
  assumes ok: "input_ok ops" and n: "0 \<le> n" "n < 2 ^ 63" and t: "bnd t" and a: "at_text ops src (strconv_Itoa n @ t) i"
  shows "\<exists>j. scanPosInt ops i = Some (Some n, j) \<and> at_text ops src t j"
proof -
  obtain j where "scanWord ops i = Some (strconv_Itoa n, j)" "at_text ops src t j"
    using scanWord_at [OF ok Itoa_graphic [OF n(1)] t a] by blast
  then show ?thesis using Itoa_nonempty [OF n(1)] ParseUint_Itoa [OF n] n(1) by (simp add: scanPosInt_def)
qed

section \<open>The pieces of the other parts\<close>

definition open_term :: "query \<Rightarrow> query" where
  "open_term q = (if \<not> ct_isEmpty (last (q_terms q)) then q\<lparr>q_terms := q_terms q @ [ct_zero]\<rparr> else q)"

text \<open>A taken alternative, and refused ones before it.\<close>

lemma skip_single':
  assumes "input_ok ops" "lang_ok ql" "bnd t" "at_text ops src (api_word ql y @ t) i" "x \<noteq> y"
    and "\<And>j. at_text ops src (api_word ql y @ t) j \<Longrightarrow> \<exists>k. g j = R k \<and> P k"
  shows "\<exists>k. try_single ops i (api_word ql x) f g = R k \<and> P k"
proof (rule skip_single [OF assms(1) lang_words(1,2) [OF assms(2)] lang_words(2) [OF assms(2)] assms(3) _ assms(4)])
  show "api_word ql y \<noteq> api_word ql x" using lang_words(3) [OF assms(2)] assms(5) by simp
qed (rule assms(6))

lemma skip_args':
  assumes "input_ok ops" "lang_ok ql" "bnd t" "at_text ops src (api_word ql y @ t) i" "x \<noteq> y"
    and "\<And>j. at_text ops src (api_word ql y @ t) j \<Longrightarrow> \<exists>k. g j = R k \<and> P k"
  shows "\<exists>k. try_args ops i (api_word ql x) a f g = R k \<and> P k"
proof (rule skip_args [OF assms(1) lang_words(1,2) [OF assms(2)] lang_words(2) [OF assms(2)] assms(3) _ assms(4)])
  show "api_word ql y \<noteq> api_word ql x" using lang_words(3) [OF assms(2)] assms(5) by simp
qed (rule assms(6))

lemma take_single:
  assumes "input_ok ops" "lang_ok ql" "bnd t" "at_text ops src (api_word ql x @ t) i"
    and "\<And>j. at_text ops src t j \<Longrightarrow> \<exists>k. f j = R k \<and> P k"
  shows "\<exists>k. try_single ops i (api_word ql x) f g = R k \<and> P k"
  using try_single_taken [OF assms(1) lang_words(1) [OF assms(2)] assms(3,4), of f g] assms(5) by force

lemma take_args:
  assumes "input_ok ops" "lang_ok ql" "graphic c" "at_text ops src (api_word ql x @ CHR '' '' # c # t) i"
    and "\<And>j. at_text ops src (c # t) j \<Longrightarrow> \<exists>r k. a j = Some (r, True, k) \<and> (\<exists>l. f (r, k) = R l \<and> P l)"
  shows "\<exists>k. try_args ops i (api_word ql x) a f g = R k \<and> P k"
proof -
  obtain j where j: "acceptKwArgs ops i (api_word ql x) = (True, j)" "at_text ops src (c # t) j"
    using args_at [OF assms(1) lang_words(1) [OF assms(2)] assms(3,4)] by blast
  obtain r k l where r: "a j = Some (r, True, k)" "f (r, k) = R l" "P l" using assms(5) [OF j(2)] by blast
  then show ?thesis using j(1) by (auto simp: try_args_def)
qed

lemma main_word:
  assumes ok: "input_ok ops" and ql: "lang_ok ql" and a: "at_text ops src (api_word ql x @ t) i"
  shows "inp_SkipSpace ops i = i" and "\<not> mustStop ops i"
proof -
  obtain c w where c: "api_word ql x = c # w" "graphic c" using lang_words(1,2) [OF ql, of x] by (cases "api_word ql x") auto
  then show "inp_SkipSpace ops i = i" "\<not> mustStop ops i" using at_graphic(3,4) [OF ok, of src c "w @ t" i] a by simp_all
qed

lemma reads_or:
  assumes ok: "input_ok ops" and ql: "lang_ok ql"
  shows "reads ops ql (api_word ql OrDirective) open_term"
  unfolding reads_def
proof (intro conjI allI impI)
  fix q t src i assume q: "has_term q" and t: "bnd t" and a: "at_text ops src (api_word ql OrDirective @ t) i"
  show "\<exists>j. main_step ops ql (q, i) = Some (Inl (Some (open_term (createIfNeeded q)), j)) \<and> at_text ops src t j"
    unfolding main_step_def prod.case Let_def main_word(1) [OF ok ql a] if_not_P [OF main_word(2) [OF ok ql a]]
    by (rule take_single [OF ok ql t a]) (use has_term_create [OF q] in \<open>auto simp: start_term_def open_term_def\<close>)
qed (rule lang_words(1) [OF ql])

lemma reads_random:
  assumes ok: "input_ok ops" and ql: "lang_ok ql"
  shows "reads ops ql (api_word ql RandomDirective) set_random"
  unfolding reads_def
proof (intro conjI allI impI)
  fix q t src i assume t: "bnd t" and a: "at_text ops src (api_word ql RandomDirective @ t) i"
  show "\<exists>j. main_step ops ql (q, i) = Some (Inl (Some (set_random (createIfNeeded q)), j)) \<and> at_text ops src t j"
    unfolding main_step_def prod.case Let_def main_word(1) [OF ok ql a] if_not_P [OF main_word(2) [OF ok ql a]]
    apply (rule skip_single' [OF ok ql t a], simp)
    apply (erule take_single [OF ok ql t], blast)
    done
qed (rule lang_words(1) [OF ql])

lemma parse_num_at:
  assumes ok: "input_ok ops" and n: "0 \<le> n" "n < 2 ^ 63" and t: "bnd t" and a: "at_text ops src (strconv_Itoa n @ t) i"
  shows "\<exists>j. parse_num ops upd q i = Some (Some (upd n (createIfNeeded q)), True, j) \<and> at_text ops src t j"
  using scanPosInt_at [OF assms] by (auto simp: parse_num_def)

definition num_word :: "qword \<Rightarrow> (int \<Rightarrow> query \<Rightarrow> query) option" where
  "num_word x =
     (case x of
        PickDirective \<Rightarrow> Some (\<lambda>num q. if q_pick q = 0 \<or> num \<le> q_pick q then q\<lparr>q_pick := num\<rparr> else q)
      | OffsetDirective \<Rightarrow> Some (\<lambda>num q. if q_offset q \<le> num then q\<lparr>q_offset := num\<rparr> else q)
      | LimitDirective \<Rightarrow> Some (\<lambda>num q. if q_limit q = 0 \<or> num \<le> q_limit q then q\<lparr>q_limit := num\<rparr> else q)
      | _ \<Rightarrow> None)"

lemma reads_num:
  assumes ok: "input_ok ops" and ql: "lang_ok ql" and n: "0 \<le> n" "n < 2 ^ 63" and x: "num_word x = Some upd"
  shows "reads ops ql (api_word ql x @ '' '' @ strconv_Itoa n) (upd n)"
  unfolding reads_def
proof (intro conjI allI impI)
  fix q t src i assume t: "bnd t" and a: "at_text ops src ((api_word ql x @ '' '' @ strconv_Itoa n) @ t) i"
  obtain c w where c: "strconv_Itoa n = c # w" "graphic c"
    using Itoa_nonempty [OF n(1)] Itoa_graphic [OF n(1)] by (cases "strconv_Itoa n") auto
  have a1: "at_text ops src (api_word ql x @ CHR '' '' # c # w @ t) i" using a c by simp
  note b = bnd_simps(2)
  have p: "\<exists>r k. parse_num ops upd q j = Some (r, True, k) \<and>
      (\<exists>l. Some (Inl (r, k)) = Some (Inl (Some (upd n (createIfNeeded q)), l)) \<and> at_text ops src t l)"
    if "at_text ops src (c # w @ t) j" for j
    using parse_num_at [OF ok n t, of src j upd q] that c(1) by auto
  consider "x = PickDirective" "parsePick ops = parse_num ops upd" | "x = OffsetDirective" "parseOffset ops = parse_num ops upd"
    | "x = LimitDirective" "parseLimit ops = parse_num ops upd"
    using x by (auto simp: num_word_def parsePick_def parseOffset_def parseLimit_def split: qword.splits)
  then show "\<exists>j. main_step ops ql (q, i) = Some (Inl (Some (upd n (createIfNeeded q)), j)) \<and> at_text ops src t j"
  proof cases
    case 1
    show ?thesis
      unfolding main_step_def prod.case Let_def main_word(1) [OF ok ql a1] if_not_P [OF main_word(2) [OF ok ql a1]] 1(2)
      apply (rule skip_single' [OF ok ql b a1], simp add: 1(1))
      apply (erule skip_single' [OF ok ql b], simp add: 1(1))
      apply (rule take_args [OF ok ql c(2)], simp add: 1(1), erule p)
      done
  next
    case 2
    show ?thesis
      unfolding main_step_def prod.case Let_def main_word(1) [OF ok ql a1] if_not_P [OF main_word(2) [OF ok ql a1]] 2(2)
      apply (rule skip_single' [OF ok ql b a1], simp add: 2(1))
      apply (erule skip_single' [OF ok ql b], simp add: 2(1))
      apply (erule skip_args' [OF ok ql b], simp add: 2(1))
      apply (erule skip_args' [OF ok ql b], simp add: 2(1))
      apply (rule take_args [OF ok ql c(2)], simp add: 2(1), erule p)
      done
  next
    case 3
    show ?thesis
      unfolding main_step_def prod.case Let_def main_word(1) [OF ok ql a1] if_not_P [OF main_word(2) [OF ok ql a1]] 3(2)
      apply (rule skip_single' [OF ok ql b a1], simp add: 3(1))
      apply (erule skip_single' [OF ok ql b], simp add: 3(1))
      apply (erule skip_args' [OF ok ql b], simp add: 3(1))
      apply (erule skip_args' [OF ok ql b], simp add: 3(1))
      apply (erule skip_args' [OF ok ql b], simp add: 3(1))
      apply (rule take_args [OF ok ql c(2)], simp add: 3(1), erule p)
      done
  qed
qed (simp add: lang_words(1) [OF ql])

section \<open>Orders and actions\<close>

lemma Accept_other:
  assumes ok: "input_ok ops" and s: "s \<noteq> []" and a: "at_text ops src r i" and p: "\<not> prefix s r"
  shows "\<exists>j. inp_Accept ops i s = (False, j) \<and> at_text ops src r j"
proof -
  obtain b j where j: "inp_Accept ops i s = (b, j)" by fastforce
  have "\<not> b" using Accept_iff [OF ok s, of i] j a p by (simp add: at_text_def)
  moreover have "inp_Pos ops j = inp_Pos ops i" using Accept_Pos [OF ok s, of i] j a p by (simp add: at_text_def)
  moreover have "inp_Src ops j = inp_Src ops i" using in_Src(3) [OF ok, of i s] j by simp
  ultimately show ?thesis using j a at_step [OF ok, of src "[]" r i j] by simp
qed

lemma capital_prefix: "lang_ok ql \<Longrightarrow> r = c # r' \<Longrightarrow> \<not> capital c \<Longrightarrow> \<not> prefix (api_word ql x) r"
proof -
  assume ql: "lang_ok ql" and r: "r = c # r'" "\<not> capital c"
  obtain d u where d: "api_word ql x = d # u" using lang_words(1) [OF ql] by (cases "api_word ql x") auto
  have "\<forall>c \<in> set (api_word ql x). capital c" using ql by (simp add: lang_ok_def)
  then show ?thesis using r d by auto
qed

lemma order_key_at:
  assumes ok: "input_ok ops" and k: "KeyIsValid k" and t: "bnd t" and a: "at_text ops src (k @ t) j"
  shows "\<exists>l. map_option (\<lambda>(word, i). if length word = 0 then (q, False, i)
          else if KeyIsValid word then (Some (add_order \<lparr>so_key = word, so_descending = b\<rparr> (createIfNeeded q)), True, i)
          else (q, False, i)) (scanWord ops j) = Some (Some (add_order \<lparr>so_key = k, so_descending = b\<rparr> (createIfNeeded q)), True, l) \<and>
      at_text ops src t l"
proof -
  obtain l where "scanWord ops j = Some (k, l)" "at_text ops src t l" using scanWord_at [OF ok key_graphic [OF k] t a] by blast
  moreover have "k \<noteq> []" using k by (auto simp: KeyIsValid_def)
  ultimately show ?thesis using k by simp
qed

lemma parseOrder_at:
  assumes ok: "input_ok ops" and ql: "lang_ok ql" and k: "KeyIsValid k" and t: "bnd t"
    and a: "at_text ops src ((if b then api_word ql ReverseDirective @ '' '' else []) @ k @ t) i"
  shows "\<exists>j. parseOrder ops ql q i = Some (Some (add_order \<lparr>so_key = k, so_descending = b\<rparr> (createIfNeeded q)), True, j) \<and>
    at_text ops src t j"
proof -
  obtain c w where c: "k = c # w" "graphic c" "\<not> capital c"
    using key_chars [OF k] k by (cases k) (auto simp: KeyIsValid_def)
  obtain j where j: "acceptKwArgs ops i (api_word ql ReverseDirective) = (b, j)" "at_text ops src (k @ t) j"
  proof (cases b)
    case True
    then show ?thesis using that args_at [OF ok lang_words(1) [OF ql] c(2), of src ReverseDirective "w @ t" i] a c by auto
  next
    case False
    then have a': "at_text ops src (k @ t) i" using a by simp
    obtain j where "inp_Accept ops i (api_word ql ReverseDirective) = (False, j)" "at_text ops src (k @ t) j"
      using Accept_other [OF ok lang_words(1) [OF ql] a' capital_prefix [OF ql, of _ c "w @ t"]] c by auto
    then show ?thesis using that False by (simp add: acceptKwArgs_def)
  qed
  show ?thesis unfolding parseOrder_def j(1) prod.case by (rule order_key_at [OF ok k t j(2)])
qed

definition order_piece :: "query_lang \<Rightarrow> sortOrder \<Rightarrow> string" where
  "order_piece ql so = api_word ql OrderDirective @ '' '' @
     (if so_descending so then api_word ql ReverseDirective @ '' '' else []) @ so_key so"

lemma reads_order:
  assumes ok: "input_ok ops" and ql: "lang_ok ql" and k: "KeyIsValid (so_key so)"
  shows "reads ops ql (order_piece ql so) (add_order so)"
  unfolding reads_def
proof (intro conjI allI impI)
  fix q t src i assume t: "bnd t" and a: "at_text ops src (order_piece ql so @ t) i"
  let ?r = "(if so_descending so then api_word ql ReverseDirective @ '' '' else []) @ so_key so @ t"
  have so: "\<lparr>so_key = so_key so, so_descending = so_descending so\<rparr> = so" by simp
  obtain c w where c: "?r = c # w" "graphic c"
  proof -
    obtain a u where a: "so_key so = a # u" "graphic a" using key_chars [OF k] k by (cases "so_key so") (auto simp: KeyIsValid_def)
    obtain d v where d: "api_word ql ReverseDirective = d # v" "graphic d"
      using lang_words(1,2) [OF ql, of ReverseDirective] by (cases "api_word ql ReverseDirective") auto
    show ?thesis using that a d by (cases "so_descending so") auto
  qed
  have a1: "at_text ops src (api_word ql OrderDirective @ CHR '' '' # c # w) i" using a c(1) by (simp add: order_piece_def)
  note b = bnd_simps(2)
  have p: "\<exists>r k. parseOrder ops ql q j = Some (r, True, k) \<and>
      (\<exists>l. Some (Inl (r, k)) = Some (Inl (Some (add_order so (createIfNeeded q)), l)) \<and> at_text ops src t l)"
    if "at_text ops src (c # w) j" for j
    using parseOrder_at [OF ok ql k t, of src "so_descending so" j q, unfolded so] that c(1) by auto
  show "\<exists>j. main_step ops ql (q, i) = Some (Inl (Some (add_order so (createIfNeeded q)), j)) \<and> at_text ops src t j"
    unfolding main_step_def prod.case Let_def main_word(1) [OF ok ql a1] if_not_P [OF main_word(2) [OF ok ql a1]]
    apply (rule skip_single' [OF ok ql b a1], simp)
    apply (erule skip_single' [OF ok ql b], simp)
    apply (erule skip_args' [OF ok ql b], simp)
    apply (rule take_args [OF ok ql c(2)], assumption, erule p)
    done
qed (simp add: order_piece_def lang_words(1) [OF ql])

text \<open>What the main loop makes of a text.\<close>

definition parses :: "'i input \<Rightarrow> query_lang \<Rightarrow> query option \<Rightarrow> string \<Rightarrow> query option \<Rightarrow> bool" where
  "parses ops ql q s q' \<longleftrightarrow>
     (\<forall>src i. at_text ops src s i \<longrightarrow> map_option fst (go_loop (main_step ops ql) (q, i)) = Some q')"

lemma parses_piece:
  assumes "reads ops ql g f" "has_term q" "bnd t" "parses ops ql (Some (f (createIfNeeded q))) t q'"
  shows "parses ops ql q (g @ t) q'"
  unfolding parses_def
proof (intro allI impI)
  fix src i assume "at_text ops src (g @ t) i"
  then obtain j where j: "main_step ops ql (q, i) = Some (Inl (Some (f (createIfNeeded q)), j))" "at_text ops src t j"
    using assms(1-3) unfolding reads_def by blast
  then show "map_option fst (go_loop (main_step ops ql) (q, i)) = Some q'"
    using assms(4) unfolding parses_def go_loop_next [of "main_step ops ql", OF j(1)] by blast
qed

lemma main_step_skip: "input_ok ops \<Longrightarrow> main_step ops ql (q, i) = main_step ops ql (q, inp_SkipSpace ops i)"
  using Skip_id [of ops "inp_SkipSpace ops i"] Skip_spec [of ops i] by (simp add: main_step_def)

lemma parses_blank:
  assumes ok: "input_ok ops" and p: "parses ops ql q s q'"
  shows "parses ops ql q (CHR '' '' # s) q'"
  unfolding parses_def
proof (intro allI impI)
  fix src i assume "at_text ops src (CHR '' '' # s) i"
  note b = at_blank [OF ok this]
  have "main_step ops ql (q, i) = main_step ops ql (q, inp_Next ops i)"
    using main_step_skip [OF ok, of ql q i] main_step_skip [OF ok, of ql q "inp_Next ops i"] b(2) by simp
  then have "go_loop (main_step ops ql) (q, i) = go_loop (main_step ops ql) (q, inp_Next ops i)"
    by (subst (1 2) go_loop.simps) simp
  then show "map_option fst (go_loop (main_step ops ql) (q, i)) = Some q'" using p b(3) unfolding parses_def by auto
qed

lemma parses_end:
  assumes ok: "input_ok ops"
  shows "parses ops ql q [] q"
  unfolding parses_def
proof (intro allI impI)
  fix src i assume a: "at_text ops src [] i"
  have "inp_SkipSpace ops i = i" using in_end [OF ok] a by (simp add: at_text_def)
  moreover have "mustStop ops i" using at_Nil [OF ok a] by (simp add: mustStop_def)
  ultimately have "main_step ops ql (q, i) = Some (Inr (q, i))" by (simp add: main_step_def)
  then show "map_option fst (go_loop (main_step ops ql) (q, i)) = Some q" by (simp add: go_loop_done)
qed

definition text_of :: "string list \<Rightarrow> string" where
  "text_of gs = concat (map (Cons (CHR '' '')) gs)"

lemma text_of_simps [simp]: "text_of [] = []" "text_of (g # gs) = CHR '' '' # g @ text_of gs"
    "text_of (gs @ hs) = text_of gs @ text_of hs"
  by (simp_all add: text_of_def)

lemma bnd_text_of [simp]: "bnd t \<Longrightarrow> bnd (text_of gs @ t)" "bnd (text_of gs)"
  by (cases gs; simp)+

definition pieces_ok :: "'i input \<Rightarrow> query_lang \<Rightarrow> (string \<times> (query \<Rightarrow> query)) list \<Rightarrow> bool" where
  "pieces_ok ops ql ps \<longleftrightarrow> (\<forall>(g, f) \<in> set ps. reads ops ql g f \<and> (\<forall>q. q_terms q \<noteq> [] \<longrightarrow> q_terms (f q) \<noteq> []))"

lemma parses_pieces:
  assumes ok: "input_ok ops"
  shows "pieces_ok ops ql ps \<Longrightarrow> bnd t \<Longrightarrow> q_terms q \<noteq> [] \<Longrightarrow> parses ops ql (Some (fold snd ps q)) t q' \<Longrightarrow>
    parses ops ql (Some q) (text_of (map fst ps) @ t) q'"
proof (induction ps arbitrary: q)
  case (Cons p ps)
  obtain g f where p: "p = (g, f)" by fastforce
  have gf: "reads ops ql g f" "q_terms (f q) \<noteq> []" using Cons.prems p by (auto simp: pieces_ok_def)
  have "parses ops ql (Some (f q)) (text_of (map fst ps) @ t) q'"
    using Cons p gf by (simp add: pieces_ok_def)
  then have "parses ops ql (Some q) (g @ text_of (map fst ps) @ t) q'"
    using parses_piece [OF gf(1), of "Some q"] Cons.prems by (simp add: createIfNeeded_def)
  then show ?case using parses_blank [OF ok] p by simp
qed simp

text \<open>Actions come last.\<close>

lemma actions_at:
  assumes ok: "input_ok ops"
  shows "\<forall>w \<in> set ws. graphic_text w \<and> w \<noteq> [] \<Longrightarrow> at_text ops src (text_of ws) i \<Longrightarrow>
    \<exists>j. go_loop (actions_step ops) (us, i) = Some (us @ ws, j)"
proof (induction ws arbitrary: us i)
  case Nil
  have "inp_SkipSpace ops i = i" using in_end [OF ok] Nil by (simp add: at_text_def)
  moreover obtain j where "scanWord ops i = Some ([], j)" using scanWord_at [OF ok, of "[]" "[]" src i] Nil by auto
  ultimately have "actions_step ops (us, i) = Some (Inr (us, j))" by (simp add: actions_step_def)
  then show ?case using go_loop_done by fastforce
next
  case (Cons w ws)
  obtain c v where c: "w = c # v" "graphic c" using Cons.prems(1) by (cases w) auto
  have a: "at_text ops src (CHR '' '' # w @ text_of ws) i" using Cons.prems(2) by simp
  note b = at_blank [OF ok a]
  have "inp_SkipSpace ops i = inp_Next ops i"
    using b(2) at_graphic(3) [OF ok, of src c "v @ text_of ws" "inp_Next ops i"] b(3) c by simp
  moreover obtain j where j: "scanWord ops (inp_Next ops i) = Some (w, j)" "at_text ops src (text_of ws) j"
    using scanWord_at [OF ok _ _ b(3)] Cons.prems(1) by auto
  ultimately have "actions_step ops (us, i) = Some (Inl (us @ [w], j))" using c by (simp add: actions_step_def)
  then show ?case using go_loop_next Cons.IH [of j "us @ [w]"] Cons.prems(1) j(2) by fastforce
qed

lemma skip_single_bar:
  assumes ok: "input_ok ops" and ql: "lang_ok ql" and a: "at_text ops src (CHR ''|'' # r) i"
    and "\<And>j. at_text ops src (CHR ''|'' # r) j \<Longrightarrow> P (g j)"
  shows "P (try_single ops i (api_word ql x) f g)" and "P (try_args ops i (api_word ql x) af f' g)"
proof -
  have "\<not> capital (CHR ''|'')" by (simp add: capital_def byte_code_def)
  then obtain j where j: "inp_Accept ops i (api_word ql x) = (False, j)" "at_text ops src (CHR ''|'' # r) j"
    using Accept_other [OF ok lang_words(1) [OF ql] a capital_prefix [OF ql]] by blast
  have "at_text ops src (CHR ''|'' # r) (inp_SetPos ops j (inp_Pos ops i))"
    using at_SetPos [OF ok a] j(2) by (simp add: at_text_def)
  then have g: "P (g (inp_SetPos ops j (inp_Pos ops i)))" by (rule assms(4))
  then show "P (try_single ops i (api_word ql x) f g)" using j by (simp add: try_single_def acceptSingleKw_def)
  show "P (try_args ops i (api_word ql x) af f' g)" using g j by (simp add: try_args_def acceptKwArgs_def)
qed

lemma parses_actions:
  assumes ok: "input_ok ops" and ql: "lang_ok ql" and ws: "\<forall>w \<in> set ws. graphic_text w \<and> w \<noteq> []" "ws \<noteq> []"
  shows "parses ops ql q (CHR ''|'' # text_of ws) (Some ((createIfNeeded q)\<lparr>q_actions := ws\<rparr>))"
  unfolding parses_def
proof (intro allI impI)
  fix src i assume a: "at_text ops src (CHR ''|'' # text_of ws) i"
  have bar: "inp_Ch ops j = rune (CHR ''|'')" if "at_text ops src (CHR ''|'' # text_of ws) j" for j
    using at_Ch [OF ok that] by (simp add: byte_code_def)
  have next': "at_text ops src (text_of ws) (inp_Next ops j)" if "at_text ops src (CHR ''|'' # text_of ws) j" for j
    using at_Next [OF ok that] by (simp add: byte_code_def)
  have "\<not> inp_isSpace ops (rune (CHR ''|''))" using spec [OF in_graph [OF ok], of "rune (CHR ''|'')"] by (auto simp: byte_code_def)
  then have sk: "inp_SkipSpace ops i = i" using Skip_id [OF ok] bar [OF a] by simp
  have ns: "\<not> mustStop ops i" using in_EOS [OF ok] bar [OF a] by (simp add: mustStop_def)
  have "\<exists>j. main_step ops ql (q, i) = Some (Inr (Some ((createIfNeeded q)\<lparr>q_actions := ws\<rparr>), j))"
    unfolding main_step_def prod.case Let_def sk if_not_P [OF ns]
    apply (rule skip_single_bar(1) [OF ok ql a], erule skip_single_bar(1) [OF ok ql], erule skip_single_bar(2) [OF ok ql],
      erule skip_single_bar(2) [OF ok ql], erule skip_single_bar(2) [OF ok ql], erule skip_single_bar(2) [OF ok ql])
    subgoal premises p for j1 j2 j3 j4 j5 j6
    proof -
      note l = p(1)
      show ?thesis using bar [OF l] actions_at [OF ok ws(1) next' [OF l], of "[]"] ws(2)
        by (auto simp: isActionSep_def parseActions_def)
    qed
    done
  then show "map_option fst (go_loop (main_step ops ql) (q, i)) = Some (Some ((createIfNeeded q)\<lparr>q_actions := ws\<rparr>))"
    using go_loop_done by fastforce
qed

end
