(* ===== verification/QueryRoundTrip.thy ===== *)
theory QueryRoundTrip
  imports QueryRound
begin

text \<open>
  The printed form of a query as a sequence of pieces, what the pieces do together, and the round trip.
\<close>

section \<open>Printing pieces\<close>

definition put :: "string \<Rightarrow> PrintEnv \<Rightarrow> PrintEnv" where
  "put g pe = \<lparr>pe_w = pe_w pe @ (if pe_space pe then '' '' else []) @ g, pe_space = True\<rparr>"

lemma put_space [simp]: "pe_space (put g pe)"
  by (simp add: put_def)

lemma print_put: "pe_writeString g (printSpace pe) = put g pe"
  by (simp add: put_def printSpace_def pe_writeString_def)

lemma write_put: "pe_writeString h (put g pe) = put (g @ h) pe"
  by (simp add: put_def pe_writeString_def)

lemma put_put: "put h (put g pe) = put (g @ '' '' @ h) pe"
  by (simp add: put_def)

lemma fold_put_True: "pe_space pe \<Longrightarrow> fold put gs pe = \<lparr>pe_w = pe_w pe @ text_of gs, pe_space = True\<rparr>"
  by (induction gs arbitrary: pe) (simp_all add: put_def)

definition joined :: "string list \<Rightarrow> string" where
  "joined gs = (case gs of [] \<Rightarrow> [] | g # gs \<Rightarrow> g @ text_of gs)"

lemma fold_put: "pe_w (fold put gs \<lparr>pe_w = [], pe_space = False\<rparr>) = joined gs"
  by (cases gs) (simp_all add: joined_def fold_put_True put_def)

lemma fold_put_space: "pe_space (fold put gs pe) \<longleftrightarrow> pe_space pe \<or> gs \<noteq> []"
proof (induction gs arbitrary: pe)
  case (Cons g gs)
  then show ?case using Cons.IH [of "put g pe"] by simp
qed simp

section \<open>The pieces of a query\<close>

type_synonym piece = "string \<times> (query \<Rightarrow> query)"

definition key_pieces :: "string \<times> compareOp \<Rightarrow> (string \<times> (conjTerms \<Rightarrow> conjTerms)) list" where
  "key_pieces kv = (case kv of (k, op) \<Rightarrow>
     if op = cmpExist \<or> op = cmpNotExist then [(k @ doc_op op, \<lambda>ct. ct_addKey ct k op)]
     else [(k @ doc_op cmpExist, \<lambda>ct. ct_addKey ct k cmpExist), (k @ doc_op cmpNotExist, \<lambda>ct. ct_addKey ct k cmpNotExist)])"

definition value_pieces :: "string \<times> expValue list \<Rightarrow> (string \<times> (conjTerms \<Rightarrow> conjTerms)) list" where
  "value_pieces kv = (case kv of (k, vs) \<Rightarrow> map (\<lambda>v. (k @ doc_op (ev_op v) @ ev_value v, ct_addValue k v)) vs)"

definition term_pieces :: "conjTerms \<Rightarrow> (string \<times> (conjTerms \<Rightarrow> conjTerms)) list" where
  "term_pieces ct =
     concat (map key_pieces (ct_keys ct)) @ concat (map value_pieces (ct_mvals ct)) @
     map (\<lambda>v. (search_piece v, \<lambda>ct. ct_addSearch ct v)) (ct_search ct)"

definition on_last :: "(string \<times> (conjTerms \<Rightarrow> conjTerms)) list \<Rightarrow> piece list" where
  "on_last = map (\<lambda>(g, f). (g, upd_last f))"

definition terms_pieces :: "query_lang \<Rightarrow> conjTerms list \<Rightarrow> piece list" where
  "terms_pieces ql cts = concat (map (\<lambda>ct. (api_word ql OrDirective, open_term) # on_last (term_pieces ct)) cts)"

definition num_pieces :: "query_lang \<Rightarrow> qword \<Rightarrow> int \<Rightarrow> piece list" where
  "num_pieces ql x n =
     (case num_word x of None \<Rightarrow> [] | Some upd \<Rightarrow> if 0 < n then [(api_word ql x @ '' '' @ strconv_Itoa n, upd n)] else [])"

definition order_pieces :: "query_lang \<Rightarrow> sortOrder list \<Rightarrow> piece list" where
  "order_pieces ql os =
     map (\<lambda>so. if isRandom so then (api_word ql RandomDirective, set_random) else (order_piece ql so, add_order so)) os"

definition query_pieces :: "query_lang \<Rightarrow> query \<Rightarrow> piece list" where
  "query_pieces ql q =
     on_last (term_pieces (hd (q_terms q))) @ terms_pieces ql (tl (q_terms q)) @
     num_pieces ql PickDirective (q_pick q) @ order_pieces ql (q_order q) @
     num_pieces ql OffsetDirective (q_offset q) @ num_pieces ql LimitDirective (q_limit q)"

section \<open>Printable queries\<close>

text \<open>
  A query without identifiers and directives: at most the only term is empty, keys are valid, the maps are in the order
  in which they are printed, the values are words that the parser takes for what they are, and the numbers fit.
\<close>

definition term_ok :: "zsc \<Rightarrow> query_lang \<Rightarrow> conjTerms \<Rightarrow> bool" where
  "term_ok z ql ct \<longleftrightarrow>
     gm_inv (ct_keys ct) \<and> maps_Keys z (gm_keys (ct_keys ct)) = gm_keys (ct_keys ct) \<and>
     (\<forall>(k, op) \<in> set (ct_keys ct). KeyIsValid k \<and> op \<in> {cmpExist, cmpNotExist, cmpUnknown}) \<and>
     gm_inv (ct_mvals ct) \<and> maps_Keys z (gm_keys (ct_mvals ct)) = gm_keys (ct_mvals ct) \<and>
     (\<forall>(k, vs) \<in> set (ct_mvals ct). KeyIsValid k \<and> vs \<noteq> [] \<and> (\<forall>v \<in> set vs. graphic_text (ev_value v) \<and> value_op (ev_op v))) \<and>
     (\<forall>v \<in> set (ct_search ct). search_text ql v)"

definition printable :: "zsc \<Rightarrow> query_lang \<Rightarrow> query \<Rightarrow> bool" where
  "printable z ql q \<longleftrightarrow>
     q_zids q = [] \<and> q_directives q = [] \<and> q_preMatch q = None \<and> q_seed q = 0 \<and>
     q_terms q \<noteq> [] \<and> (\<forall>ct \<in> set (q_terms q). term_ok z ql ct) \<and>
     (1 < length (q_terms q) \<longrightarrow> (\<forall>ct \<in> set (q_terms q). \<not> ct_isEmpty ct)) \<and>
     0 \<le> q_pick q \<and> q_pick q < 2 ^ 63 \<and> 0 \<le> q_offset q \<and> q_offset q < 2 ^ 63 \<and> 0 \<le> q_limit q \<and> q_limit q < 2 ^ 63 \<and>
     (q_order q = [\<lparr>so_key = [], so_descending = False\<rparr>] \<or> (\<forall>so \<in> set (q_order q). KeyIsValid (so_key so))) \<and>
     (\<forall>w \<in> set (q_actions q). graphic_text w \<and> w \<noteq> [])"

section \<open>What is printed\<close>

lemma fold_concat: "fold f (concat xss) s = fold (\<lambda>xs. fold f xs) xss s"
  by (induction xss arbitrary: s) simp_all

lemma fold_map_keys:
  assumes "distinct (map fst m)" "\<And>k v s. (k, v) \<in> set m \<Longrightarrow> f (value_at m k d) k s = g (k, v) s"
  shows "fold (\<lambda>k. f (value_at m k d) k) (map fst m) s = fold g m s"
proof -
  have "fold (\<lambda>k. f (value_at m k d) k) (map fst m) s = fold (\<lambda>kv. f (value_at m (fst kv) d) (fst kv)) m s"
    by (simp add: fold_map comp_def)
  also have "\<dots> = fold g m s" using assms(2) by (intro fold_cong) (auto simp: fun_eq_iff)
  finally show ?thesis .
qed

lemma printKey_put:
  assumes "lang_ok ql"
  shows "printKey ql keys k pe = fold put (map fst (key_pieces (k, value_at keys k cmpUnknown))) pe"
proof -
  have o: "api_op ql op = doc_op op" for op using assms by (simp add: lang_ok_def)
  show ?thesis
    by (auto simp: printKey_def Let_def key_pieces_def print_put write_put put_put op_string_def op2string_def o writeStrings_def)
qed

lemma printExprValue_put:
  assumes "lang_ok ql" "value_op (ev_op v)" "k \<noteq> []"
  shows "printExprValue ql k v pe = put (k @ doc_op (ev_op v) @ ev_value v) pe"
  using assms by (auto simp: printExprValue_def Let_def print_op_def print_put write_put op_string_def op2string_def
      value_op_def lang_ok_def)

lemma printSearch_put:
  assumes "lang_ok ql" "search_text ql v"
  shows "printExprValue ql [] v pe = put (search_piece v) pe"
  using assms by (auto simp: printExprValue_def Let_def print_op_def print_put write_put op_string_def op2string_def
      search_text_def search_op_def lang_ok_def search_piece_def)

lemma value_at_in: "gm_inv m \<Longrightarrow> (k, v) \<in> set m \<Longrightarrow> value_at m k d = v"
  by (simp add: value_at_def gm_get_Some_iff [symmetric])

lemma printTerm_put:
  assumes ql: "lang_ok ql" and t: "term_ok z ql ct"
  shows "printTerm z ql ct pe = fold put (map fst (term_pieces ct)) pe"
proof -
  note t' = t [unfolded term_ok_def]
  have 1: "fold (printKey ql (ct_keys ct)) (maps_Keys z (gm_keys (ct_keys ct))) pe =
      fold put (map fst (concat (map key_pieces (ct_keys ct)))) pe" for pe
  proof -
    have "fold (\<lambda>k. printKey ql (ct_keys ct) k) (gm_keys (ct_keys ct)) pe =
        fold (\<lambda>kv. fold put (map fst (key_pieces kv))) (ct_keys ct) pe"
      using t' by (intro fold_map_keys [where f = "\<lambda>op k. printKey ql (ct_keys ct) k" and d = cmpUnknown])
        (auto simp: gm_inv_def printKey_put [OF ql] value_at_in)
    then show ?thesis using t' by (simp add: map_concat fold_concat fold_map comp_def)
  qed
  have 2: "fold (\<lambda>name. printExprValues ql name (value_at (ct_mvals ct) name [])) (maps_Keys z (gm_keys (ct_mvals ct))) pe =
      fold put (map fst (concat (map value_pieces (ct_mvals ct)))) pe" for pe
  proof -
    have v: "printExprValues ql k vs s = fold put (map fst (value_pieces (k, vs))) s" if "(k, vs) \<in> set (ct_mvals ct)" for k vs s
    proof -
      have kv: "k \<noteq> []" "\<forall>v \<in> set vs. value_op (ev_op v)" using t' that by (auto simp: KeyIsValid_def)
      have "fold (printExprValue ql k) vs s = fold (\<lambda>v. put (k @ doc_op (ev_op v) @ ev_value v)) vs s"
        using kv by (intro fold_cong) (auto simp: fun_eq_iff printExprValue_put [OF ql])
      then show ?thesis by (simp add: printExprValues_def value_pieces_def fold_map comp_def)
    qed
    have "fold (\<lambda>name. printExprValues ql name (value_at (ct_mvals ct) name [])) (gm_keys (ct_mvals ct)) pe =
        fold (\<lambda>kv. fold put (map fst (value_pieces kv))) (ct_mvals ct) pe"
      using t' v by (intro fold_map_keys [where f = "\<lambda>vs k. printExprValues ql k vs" and d = "[]"])
        (auto simp: gm_inv_def value_at_in)
    then show ?thesis using t' by (simp add: map_concat fold_concat fold_map comp_def)
  qed
  have 3: "(if 0 < length (ct_search ct) then printExprValues ql [] (ct_search ct) pe else pe) =
      fold put (map search_piece (ct_search ct)) pe" for pe
  proof -
    have "fold (printExprValue ql []) (ct_search ct) pe = fold (\<lambda>v. put (search_piece v)) (ct_search ct) pe"
      using t' by (intro fold_cong) (auto simp: fun_eq_iff printSearch_put [OF ql])
    then show ?thesis by (simp add: printExprValues_def fold_map comp_def)
  qed
  show ?thesis unfolding printTerm_def Let_def 1 2 3 by (simp add: term_pieces_def comp_def)
qed

lemma term_pieces_empty:
  assumes "term_ok z ql ct"
  shows "term_pieces ct = [] \<longleftrightarrow> ct_isEmpty ct"
proof -
  have k: "key_pieces kv \<noteq> []" for kv by (cases kv) (simp add: key_pieces_def)
  have v: "value_pieces kv \<noteq> []" if "kv \<in> set (ct_mvals ct)" for kv
    using assms that by (cases kv) (auto simp: value_pieces_def term_ok_def)
  have "concat (map key_pieces (ct_keys ct)) = [] \<longleftrightarrow> ct_keys ct = []" using k by (cases "ct_keys ct") simp_all
  moreover have "concat (map value_pieces (ct_mvals ct)) = [] \<longleftrightarrow> ct_mvals ct = []" using v by (cases "ct_mvals ct") simp_all
  ultimately show ?thesis by (auto simp: term_pieces_def ct_isEmpty_def simp del: concat_eq_Nil_conv)
qed

lemma fst_on_last [simp]: "map fst (on_last ps) = map fst ps"
  by (induction ps) (auto simp: on_last_def)

lemma printTerms_put:
  assumes ql: "lang_ok ql"
  shows "\<forall>ct \<in> set cts. term_ok z ql ct \<and> \<not> ct_isEmpty ct \<Longrightarrow> pe_space pe \<Longrightarrow>
    printTerms z ql False cts pe = fold put (map fst (terms_pieces ql cts)) pe"
proof (induction cts arbitrary: pe)
  case (Cons ct cts)
  have w: "pe_writeString ('' '' @ api_word ql OrDirective) pe = put (api_word ql OrDirective) pe"
    using Cons.prems(2) by (simp add: pe_writeString_def put_def)
  have t: "printTerm z ql ct (put (api_word ql OrDirective) pe) = fold put (map fst (term_pieces ct)) (put (api_word ql OrDirective) pe)"
    using printTerm_put [OF ql] Cons.prems(1) by simp
  then show ?case
    using Cons.IH [of "fold put (map fst (term_pieces ct)) (put (api_word ql OrDirective) pe)"] Cons.prems w
    by (simp add: terms_pieces_def fold_put_space)
qed (simp add: terms_pieces_def)

lemma printPosInt_put: "num_word x \<noteq> None \<Longrightarrow> printPosInt (api_word ql x) n pe = fold put (map fst (num_pieces ql x n)) pe"
proof -
  assume x: "num_word x \<noteq> None"
  have "writeStrings [a, b, c] (printSpace pe) = put (a @ b @ c) pe" for a b c
    by (simp add: writeStrings_def print_put write_put)
  then show ?thesis using x by (auto simp: printPosInt_def num_pieces_def)
qed

lemma printOrder_put: "printOrder ql os pe = fold put (map fst (order_pieces ql os)) pe"
proof -
  have e: "printOrder1 ql = (\<lambda>so. put (fst (if isRandom so then (api_word ql RandomDirective, set_random) else (order_piece ql so, add_order so))))"
    by (auto simp: printOrder1_def Let_def print_put put_put order_piece_def fun_eq_iff)
  show ?thesis unfolding printOrder_def e by (simp add: order_pieces_def fold_map comp_def)
qed

lemma printActions_put: "printActions ws pe = fold put (if ws = [] then [] else ''|'' # ws) pe"
proof -
  have "pe_write (CHR ''|'') (printSpace pe) = put ''|'' pe"
    by (simp add: print_put [symmetric] pe_write_def pe_writeString_def)
  then show ?thesis by (simp add: printActions_def print_put)
qed

lemma q_String_joined:
  assumes ql: "lang_ok ql" and q: "printable z ql q"
  shows "q_String z ql (Some q) = joined (map fst (query_pieces ql q) @ (if q_actions q = [] then [] else ''|'' # q_actions q))"
proof -
  note q' = q [unfolded printable_def]
  obtain ct cts where c: "q_terms q = ct # cts" using q' by (cases "q_terms q") auto
  let ?pe = "\<lparr>pe_w = [], pe_space = False\<rparr>"
  have t: "printTerms z ql True (ct # cts) ?pe = fold put (map fst (on_last (term_pieces ct) @ terms_pieces ql cts)) ?pe"
  proof (cases cts)
    case Nil
    then show ?thesis using printTerm_put [OF ql, of z ct] q' c by (simp add: terms_pieces_def)
  next
    case (Cons d ds)
    then have ne: "\<forall>ct \<in> set (q_terms q). term_ok z ql ct \<and> \<not> ct_isEmpty ct" using q' c by simp
    then have "pe_space (fold put (map fst (term_pieces ct)) ?pe)"
      using term_pieces_empty [of z ql ct] c by (simp add: fold_put_space)
    then show ?thesis
      using printTerm_put [OF ql, of z ct] printTerms_put [OF ql, of cts z] ne c by simp
  qed
  have n: "num_word PickDirective \<noteq> None" "num_word OffsetDirective \<noteq> None" "num_word LimitDirective \<noteq> None"
    by (simp_all add: num_word_def)
  show ?thesis
    using q' c
    by (simp add: q_String_def q_Print_def Let_def printZids_def t [simplified] printPosInt_put [OF n(1)] printPosInt_put [OF n(2)]
        printPosInt_put [OF n(3)] printOrder_put printActions_put query_pieces_def fold_put [symmetric])
qed

section \<open>What the pieces do\<close>

lemma upd_last_fold:
  "q_terms q \<noteq> [] \<Longrightarrow> fold snd (on_last ps) q = upd_last (fold snd ps) q"
proof (induction ps arbitrary: q)
  case Nil
  then show ?case by (simp add: on_last_def upd_last_def)
next
  case (Cons p ps)
  then show ?case using Cons.IH [of "upd_last (snd p) q"]
    by (cases p) (simp add: on_last_def upd_last_def comp_def)
qed

lemma gm_put_fresh: "k \<notin> fst ` set m \<Longrightarrow> gm_put m k v = m @ [(k, v)]"
  by (induction m) (auto simp: gm_put_def)

lemma gm_put_end: "k \<notin> fst ` set m \<Longrightarrow> gm_put (m @ [(k, u)]) k v = m @ [(k, v)]"
  by (induction m) (auto simp: gm_put_def)

lemma gm_get_end: "k \<notin> fst ` set m \<Longrightarrow> gm_get (m @ [(k, u)]) k = Some u"
  by (induction m) auto

lemma addKey_new: "k \<notin> fst ` set m \<Longrightarrow> ct_addKey (ct\<lparr>ct_keys := m\<rparr>) k op = ct\<lparr>ct_keys := m @ [(k, op)]\<rparr>"
  by (simp add: ct_addKey_def gm_put_fresh map_of_eq_None_iff [THEN iffD2])

lemma addKey_again: "k \<notin> fst ` set m \<Longrightarrow> op \<noteq> op' \<Longrightarrow>
    ct_addKey (ct\<lparr>ct_keys := m @ [(k, op)]\<rparr>) k op' = ct\<lparr>ct_keys := m @ [(k, cmpUnknown)]\<rparr>"
  by (simp add: ct_addKey_def gm_put_end gm_get_end del: map_of_append)

lemma keys_fold:
  assumes "\<forall>(k, op) \<in> set ks. op \<in> {cmpExist, cmpNotExist, cmpUnknown}"
  shows "distinct (map fst (m @ ks)) \<Longrightarrow>
    fold snd (concat (map key_pieces ks)) (ct\<lparr>ct_keys := m\<rparr>) = ct\<lparr>ct_keys := m @ ks\<rparr>"
  using assms
proof (induction ks arbitrary: m)
  case (Cons kv ks)
  obtain k op where kv: "kv = (k, op)" by fastforce
  have n: "k \<notin> fst ` set m" using Cons.prems(1) kv by auto
  have "op = cmpExist \<or> op = cmpNotExist \<or> op = cmpUnknown" using Cons.prems(2) kv by auto
  then have "fold snd (key_pieces kv) (ct\<lparr>ct_keys := m\<rparr>) = ct\<lparr>ct_keys := m @ [(k, op)]\<rparr>"
    by (auto simp: kv key_pieces_def addKey_new [OF n] addKey_again [OF n])
  then show ?case using Cons.IH [of "m @ [kv]"] Cons.prems by (simp add: kv)
qed simp

lemma addValue_eq: "ct_addValue k v ct = ct\<lparr>ct_mvals := gm_put (ct_mvals ct) k (value_at (ct_mvals ct) k [] @ [v])\<rparr>"
  by (simp add: ct_addValue_def gm_put_def value_at_def)

lemma value_fold:
  assumes "k \<notin> fst ` set m"
  shows "fold snd (value_pieces (k, vs)) (ct\<lparr>ct_mvals := m @ [(k, us)]\<rparr>) = ct\<lparr>ct_mvals := m @ [(k, us @ vs)]\<rparr>"
proof (induction vs arbitrary: us)
  case (Cons v vs)
  have "value_at (m @ [(k, us)]) k [] = us"
    using gm_get_end [OF assms] by (simp add: value_at_def del: map_of_append)
  then show ?case using Cons.IH [of "us @ [v]"] assms
    by (simp add: value_pieces_def addValue_eq gm_put_end)
qed (simp add: value_pieces_def)

lemma values_fold:
  assumes "\<forall>(k, vs) \<in> set kvs. vs \<noteq> []"
  shows "distinct (map fst (m @ kvs)) \<Longrightarrow>
    fold snd (concat (map value_pieces kvs)) (ct\<lparr>ct_mvals := m\<rparr>) = ct\<lparr>ct_mvals := m @ kvs\<rparr>"
  using assms
proof (induction kvs arbitrary: m)
  case (Cons kv kvs)
  obtain k v vs where kv: "kv = (k, v # vs)" using Cons.prems(2) by (cases kv; cases "snd kv") auto
  have n: "k \<notin> fst ` set m" using Cons.prems(1) kv by auto
  then have "value_at m k [] = []" by (simp add: value_at_def map_of_eq_None_iff [symmetric])
  then have "fold snd (value_pieces kv) (ct\<lparr>ct_mvals := m\<rparr>) = ct\<lparr>ct_mvals := m @ [kv]\<rparr>"
    using value_fold [OF n, where vs = vs and ct = ct and us = "[v]"] n by (simp add: kv value_pieces_def addValue_eq gm_put_fresh)
  then show ?case using Cons.IH [of "m @ [kv]"] Cons.prems by simp
qed simp

lemma search_fold: "fold snd (map (\<lambda>v. (search_piece v, \<lambda>ct. ct_addSearch ct v)) vs) ct = ct\<lparr>ct_search := ct_search ct @ vs\<rparr>"
  by (induction vs arbitrary: ct) (simp_all add: ct_addSearch_def)

text \<open>The pieces of a term build it from the empty one.\<close>

lemma term_fold:
  assumes "term_ok z ql ct"
  shows "fold snd (term_pieces ct) ct_zero = ct"
proof -
  have 1: "fold snd (concat (map key_pieces (ct_keys ct))) ct_zero = ct_zero\<lparr>ct_keys := ct_keys ct\<rparr>"
    using keys_fold [of "ct_keys ct" "[]" ct_zero] assms by (fastforce simp: term_ok_def gm_inv_def ct_zero_def)
  have 2: "fold snd (concat (map value_pieces (ct_mvals ct))) (c\<lparr>ct_mvals := []\<rparr>) = c\<lparr>ct_mvals := ct_mvals ct\<rparr>" for c
    using values_fold [of "ct_mvals ct" "[]" c] assms by (fastforce simp: term_ok_def gm_inv_def)
  show ?thesis
    using 2 [of "ct_zero\<lparr>ct_keys := ct_keys ct\<rparr>"] by (simp add: term_pieces_def 1 search_fold) (simp add: ct_zero_def)
qed

definition fresh_query :: query where
  "fresh_query = q_zero\<lparr>q_terms := [ct_zero]\<rparr>"

lemma terms_fold:
  "\<forall>ct \<in> set cts. term_ok z ql ct \<and> \<not> ct_isEmpty ct \<Longrightarrow> q_terms q \<noteq> [] \<Longrightarrow> \<not> ct_isEmpty (last (q_terms q)) \<Longrightarrow>
    fold snd (terms_pieces ql cts) q = q\<lparr>q_terms := q_terms q @ cts\<rparr>"
proof (induction cts arbitrary: q)
  case (Cons ct cts)
  have o: "open_term q = q\<lparr>q_terms := q_terms q @ [ct_zero]\<rparr>" using Cons.prems(3) by (simp add: open_term_def)
  have "fold snd (on_last (term_pieces ct)) (open_term q) = q\<lparr>q_terms := q_terms q @ [ct]\<rparr>"
    using upd_last_fold [of "open_term q" "term_pieces ct"] term_fold [of z ql ct] Cons.prems(1) by (simp add: o upd_last_def)
  then show ?case using Cons.IH [of "q\<lparr>q_terms := q_terms q @ [ct]\<rparr>"] Cons.prems by (simp add: terms_pieces_def)
qed (simp add: terms_pieces_def)

lemma order_fold:
  assumes "os = [\<lparr>so_key = [], so_descending = False\<rparr>] \<or> (\<forall>so \<in> set os. KeyIsValid (so_key so))" "q_order q = []"
  shows "fold snd (order_pieces ql os) q = q\<lparr>q_order := os\<rparr>"
proof -
  have nr: "\<not> isRandom so" if "KeyIsValid (so_key so)" for so using that by (auto simp: isRandom_def KeyIsValid_def)
  have "\<forall>so \<in> set os. KeyIsValid (so_key so) \<Longrightarrow> \<forall>so \<in> set (q_order q). \<not> isRandom so \<Longrightarrow>
      fold snd (order_pieces ql os) q = q\<lparr>q_order := q_order q @ os\<rparr>" for q
  proof (induction os arbitrary: q)
    case (Cons so os)
    have "add_order so q = q\<lparr>q_order := q_order q @ [so]\<rparr>" using Cons.prems(2) by (auto simp: add_order_def split: list.split)
    then show ?case using Cons.IH [of "q\<lparr>q_order := q_order q @ [so]\<rparr>"] Cons.prems nr by (simp add: order_pieces_def)
  qed (simp add: order_pieces_def)
  then show ?thesis using assms by (auto simp: order_pieces_def isRandom_def set_random_def)
qed

lemma query_fold:
  assumes "printable z ql q"
  shows "fold snd (query_pieces ql q) fresh_query = q\<lparr>q_actions := []\<rparr>"
proof -
  note q' = assms [unfolded printable_def]
  obtain ct cts where c: "q_terms q = ct # cts" using q' by (cases "q_terms q") auto
  have 1: "fold snd (on_last (term_pieces ct)) fresh_query = fresh_query\<lparr>q_terms := [ct]\<rparr>"
    using upd_last_fold [of fresh_query "term_pieces ct"] term_fold [of z ql ct] q' c
    by (simp add: fresh_query_def upd_last_def)
  have 2: "fold snd (terms_pieces ql cts) (fresh_query\<lparr>q_terms := [ct]\<rparr>) = fresh_query\<lparr>q_terms := q_terms q\<rparr>"
  proof (cases cts)
    case Nil
    then show ?thesis using c by (simp add: terms_pieces_def)
  next
    case (Cons d ds)
    then show ?thesis using terms_fold [of cts z ql "fresh_query\<lparr>q_terms := [ct]\<rparr>"] q' c by simp
  qed
  have num: "fold snd (num_pieces ql PickDirective n) r = r\<lparr>q_pick := n\<rparr>" if "q_pick r = 0" "0 \<le> n" for n r
    using that by (auto simp: num_pieces_def num_word_def)
  have off: "fold snd (num_pieces ql OffsetDirective n) r = r\<lparr>q_offset := n\<rparr>" if "q_offset r = 0" "0 \<le> n" for n r
    using that by (auto simp: num_pieces_def num_word_def)
  have lim: "fold snd (num_pieces ql LimitDirective n) r = r\<lparr>q_limit := n\<rparr>" if "q_limit r = 0" "0 \<le> n" for n r
    using that by (auto simp: num_pieces_def num_word_def)
  have z: "q_pick fresh_query = 0" "q_order fresh_query = []" "q_offset fresh_query = 0" "q_limit fresh_query = 0"
    by (simp_all add: fresh_query_def q_zero_def)
  have "fold snd (query_pieces ql q) fresh_query =
      fresh_query\<lparr>q_terms := q_terms q, q_pick := q_pick q, q_order := q_order q, q_offset := q_offset q, q_limit := q_limit q\<rparr>"
    using q' z by (simp add: query_pieces_def c 1 2 [simplified c] num off lim order_fold)
  then show ?thesis using q' by (simp add: fresh_query_def q_zero_def)
qed

lemma pieces_ok_append [simp]: "pieces_ok ops ql [] " "pieces_ok ops ql (ps @ rs) \<longleftrightarrow> pieces_ok ops ql ps \<and> pieces_ok ops ql rs"
    "pieces_ok ops ql ((g, f) # ps) \<longleftrightarrow> reads ops ql g f \<and> (\<forall>q. q_terms q \<noteq> [] \<longrightarrow> q_terms (f q) \<noteq> []) \<and> pieces_ok ops ql ps"
  by (auto simp: pieces_ok_def)

lemma pieces_ok_last:
  assumes "\<And>g f. (g, f) \<in> set ps \<Longrightarrow> reads ops ql g (upd_last f)"
  shows "pieces_ok ops ql (on_last ps)"
  using assms by (auto simp: pieces_ok_def on_last_def upd_last_def)

lemma term_pieces_ok:
  assumes ok: "input_ok ops" and ql: "lang_ok ql" and t: "term_ok z ql ct"
  shows "pieces_ok ops ql (on_last (term_pieces ct))"
proof (rule pieces_ok_last)
  fix g f assume "(g, f) \<in> set (term_pieces ct)"
  then consider (k) k op where "(k, op) \<in> set (ct_keys ct)" "(g, f) \<in> set (key_pieces (k, op))"
    | (v) k vs where "(k, vs) \<in> set (ct_mvals ct)" "(g, f) \<in> set (value_pieces (k, vs))"
    | (s) v where "v \<in> set (ct_search ct)" "g = search_piece v" "f = (\<lambda>ct. ct_addSearch ct v)"
    by (auto simp: term_pieces_def)
  then show "reads ops ql g (upd_last f)"
  proof cases
    case k
    then have "KeyIsValid k" using t by (auto simp: term_ok_def)
    note r = reads_exist [OF ok ql this]
    show ?thesis using k(2) r [of cmpExist] r [of cmpNotExist] by (auto simp: key_pieces_def split: if_splits)
  next
    case v
    then have "KeyIsValid k" "\<forall>v \<in> set vs. graphic_text (ev_value v) \<and> value_op (ev_op v)" using t by (auto simp: term_ok_def)
    then show ?thesis using v(2) reads_value [OF ok ql] by (auto simp: value_pieces_def)
  next
    case s
    then show ?thesis using t reads_search [OF ok ql] by (auto simp: term_ok_def)
  qed
qed

lemma query_pieces_ok:
  assumes ok: "input_ok ops" and ql: "lang_ok ql" and q: "printable z ql q"
  shows "pieces_ok ops ql (query_pieces ql q)"
proof -
  note q' = q [unfolded printable_def]
  have t: "pieces_ok ops ql (terms_pieces ql cts)" if "\<forall>ct \<in> set cts. term_ok z ql ct" for cts
    using that
  proof (induction cts)
    case (Cons ct cts)
    have "pieces_ok ops ql (terms_pieces ql cts)" using Cons by simp
    moreover have "\<forall>q. q_terms q \<noteq> [] \<longrightarrow> q_terms (open_term q) \<noteq> []" by (simp add: open_term_def)
    ultimately show ?case
      using Cons.prems reads_or [OF ok ql] term_pieces_ok [OF ok ql, of z ct] by (simp add: terms_pieces_def)
  qed (simp add: terms_pieces_def)
  have n: "pieces_ok ops ql (num_pieces ql x n)" if "0 \<le> n" "n < 2 ^ 63" for x n
  proof (cases "num_word x")
    case (Some upd)
    then have "q_terms (upd m r) = q_terms r" for m r by (auto simp: num_word_def split: qword.splits)
    then show ?thesis using Some reads_num [OF ok ql that Some] by (simp add: num_pieces_def)
  qed (simp add: num_pieces_def)
  have r: "reads ops ql (api_word ql RandomDirective) set_random" "\<And>q. q_terms (set_random q) = q_terms q"
    using reads_random [OF ok ql] by (simp_all add: set_random_def)
  have o: "pieces_ok ops ql (order_pieces ql (q_order q))"
    using q' r reads_order [OF ok ql] by (auto simp: pieces_ok_def order_pieces_def isRandom_def split: if_splits)
  have c: "q_terms q = hd (q_terms q) # tl (q_terms q)" using q' by simp
  have h: "term_ok z ql (hd (q_terms q))" "\<forall>ct \<in> set (tl (q_terms q)). term_ok z ql ct"
    using q' by (auto dest: list.set_sel)
  show ?thesis using q' t [OF h(2)] n o term_pieces_ok [OF ok ql h(1)] by (simp add: query_pieces_def)
qed

section \<open>Texts without directives\<close>

text \<open>A sequence of words, none of which starts a directive, up to the actions.\<close>

definition dir_word :: "query_lang \<Rightarrow> string \<Rightarrow> bool" where
  "dir_word ql w \<longleftrightarrow> w \<in> api_word ql ` {ContextDirective, IdentDirective, ItemsDirective, UnlinkedDirective}"

inductive safe :: "query_lang \<Rightarrow> string \<Rightarrow> bool" for ql where
  safe_end: "safe ql []"
| safe_bar: "safe ql (CHR ''|'' # s)"
| safe_last: "graphic_text w \<Longrightarrow> w \<noteq> [] \<Longrightarrow> \<not> dir_word ql w \<Longrightarrow> safe ql w"
| safe_next: "graphic_text w \<Longrightarrow> w \<noteq> [] \<Longrightarrow> \<not> dir_word ql w \<Longrightarrow> safe ql u \<Longrightarrow> safe ql (w @ CHR '' '' # u)"

lemma at_bar:
  assumes ok: "input_ok ops" and a: "at_text ops src (CHR ''|'' # s) i"
  shows "word_end ops i" and "inp_SkipSpace ops i = i" and "\<not> mustStop ops i"
proof -
  have ch: "inp_Ch ops i = rune (CHR ''|'')" using at_Ch [OF ok a] by (simp add: byte_code_def)
  then show "word_end ops i" by (simp add: word_end_def isActionSep_def)
  show "\<not> mustStop ops i" using in_EOS [OF ok] ch by (simp add: mustStop_def)
  have "\<not> inp_isSpace ops (rune (CHR ''|''))" using spec [OF in_graph [OF ok], of "rune (CHR ''|'')"] by (auto simp: byte_code_def)
  then show "inp_SkipSpace ops i = i" using Skip_id [OF ok] ch by simp
qed

lemma at_safe:
  assumes ok: "input_ok ops" and s: "safe ql s" and a: "at_text ops src s i"
  shows "inp_SkipSpace ops i = i" and "mustStop ops i \<longleftrightarrow> s = []"
proof -
  have g: "inp_SkipSpace ops i = i \<and> \<not> mustStop ops i" if "graphic_text w" "w \<noteq> []" "at_text ops src (w @ t) i" for w t
    using that at_graphic(3,4) [OF ok] by (cases w) auto
  have e: "inp_SkipSpace ops i = i" if "s = []" using in_end [OF ok] a that by (simp add: at_text_def)
  show "inp_SkipSpace ops i = i"
    using s a e g [of s "[]"] g at_bar(2) [OF ok] by (cases rule: safe.cases) auto
  show "mustStop ops i \<longleftrightarrow> s = []" using mustStop_iff [OF ok, of i] a by (simp add: at_text_def)
qed

lemma scanZid_none:
  assumes ok: "input_ok ops" and a: "at_text ops src s i" and e: "word_end ops i"
  shows "\<exists>zid j. scanZid ops i = Some ((zid, False), j) \<and> at_text ops src s (inp_SetPos ops j (inp_Pos ops i))"
proof -
  have l: "go_loop (word_step ops) i = Some i" using e by (simp add: go_loop_done word_step_def)
  then have "scanZid ops i = Some ((Invalid, False), i)" by (simp add: scanZid_def scanWord_def src_from_def)
  then show ?thesis using at_SetPos [OF ok a, of i] a by (auto simp: at_text_def)
qed

lemma scanZid_word:
  assumes ok: "input_ok ops" and w: "graphic_text w" "bnd t" and a: "at_text ops src (w @ t) i"
  shows "\<exists>zid found j. scanZid ops i = Some ((zid, found), j) \<and> at_text ops src t j \<and>
    at_text ops src (w @ t) (inp_SetPos ops j (inp_Pos ops i))"
proof -
  obtain j where j: "scanWord ops i = Some (w, j)" "at_text ops src t j" using scanWord_at [OF ok w a] by blast
  have "at_text ops src (w @ t) (inp_SetPos ops j (inp_Pos ops i))" using at_SetPos [OF ok a] j(2) by (simp add: at_text_def)
  then show ?thesis using j by (cases "if length w = 0 then (Invalid, False) else case ParseUint w of Inl e \<Rightarrow> (Invalid, False)
          | Inr uval \<Rightarrow> let zid = word_of_nat uval in (zid, IsValid zid)") (auto simp: scanZid_def)
qed

definition only_zids :: "query option \<Rightarrow> bool" where
  "only_zids q \<longleftrightarrow> (\<exists>zs. q = Some (fresh_query\<lparr>q_zids := zs\<rparr>))"

lemma only_zids_set: "q = None \<or> only_zids q \<Longrightarrow> only_zids (Some ((createIfNeeded q)\<lparr>q_zids := zs\<rparr>))"
proof (cases q)
  case None
  have "(createIfNeeded q)\<lparr>q_zids := zs\<rparr> = fresh_query\<lparr>q_zids := zs\<rparr>" by (simp add: None createIfNeeded_def fresh_query_def)
  then show ?thesis unfolding only_zids_def by metis
next
  case (Some qq)
  assume "q = None \<or> only_zids q"
  then obtain zs' where "qq = fresh_query\<lparr>q_zids := zs'\<rparr>" using Some by (auto simp: only_zids_def)
  then have "(createIfNeeded q)\<lparr>q_zids := zs\<rparr> = fresh_query\<lparr>q_zids := zs\<rparr>" by (simp add: Some createIfNeeded_def)
  then show ?thesis unfolding only_zids_def by metis
qed

lemma zids_stop:
  assumes "safe ql s" "(q = None \<and> zs = NewSet []) \<or> only_zids q" "scanZid ops i = Some ((zid, False), j)"
    "at_text ops src s (inp_SetPos ops j (inp_Pos ops i))"
  shows "\<exists>q1 j s1. go_loop (zids_step ops) ((q, zs), i) = Some (q1, j) \<and> safe ql s1 \<and> at_text ops src s1 j \<and>
      ((q = None \<and> q1 = None \<and> s1 = s) \<or> only_zids q1)"
proof -
  have "zids_step ops ((q, zs), i) = Some (Inr (q, inp_SetPos ops j (inp_Pos ops i)))" using assms(3) by (simp add: zids_step_def)
  then show ?thesis using go_loop_done [of "zids_step ops"] assms by blast
qed

lemma zids_word:
  assumes ok: "input_ok ops" and w: "graphic_text w" and s: "safe ql (w @ t)"
    and t: "t = [] \<and> u = [] \<or> t = CHR '' '' # u" and su: "safe ql u"
    and a: "at_text ops src (w @ t) i" and q: "(q = None \<and> zs = NewSet []) \<or> only_zids q"
    and ih: "\<And>i q zs. at_text ops src u i \<Longrightarrow> only_zids q \<Longrightarrow>
       \<exists>q1 j s1. go_loop (zids_step ops) ((q, zs), i) = Some (q1, j) \<and> safe ql s1 \<and> at_text ops src s1 j \<and> only_zids q1"
  shows "\<exists>q1 j s1. go_loop (zids_step ops) ((q, zs), i) = Some (q1, j) \<and> safe ql s1 \<and> at_text ops src s1 j \<and>
      ((q = None \<and> q1 = None \<and> s1 = w @ t) \<or> only_zids q1)"
proof -
  have b: "bnd t" using t by auto
  obtain zid found j where z: "scanZid ops i = Some ((zid, found), j)" "at_text ops src t j"
    "at_text ops src (w @ t) (inp_SetPos ops j (inp_Pos ops i))"
    using scanZid_word [OF ok w b a] by blast
  show ?thesis
  proof (cases found)
    case False
    then show ?thesis using zids_stop [OF s q] z by auto
  next
    case True
    have k: "at_text ops src u (inp_SkipSpace ops j)"
      using t
    proof
      assume "t = CHR '' '' # u"
      note b = at_blank [OF ok z(2) [unfolded this]]
      then show ?thesis using at_safe(1) [OF ok su b(3)] by simp
    next
      assume "t = [] \<and> u = []"
      then show ?thesis using at_safe(1) [OF ok su, of src j] z(2) by simp
    qed
    define qz where "qz = (if \<not> Set_Contains zs zid then
         (let q = createIfNeeded q in (Some (q\<lparr>q_zids := q_zids q @ [zid]\<rparr>), Set_Add zs zid)) else (q, zs))"
    obtain qq zs1 where qz1: "qz = (Some qq, zs1)" "only_zids (Some qq)"
    proof (cases "Set_Contains zs zid")
      case True
      have "\<not> Set_Contains (NewSet []) zid" by (simp add: idset_correct)
      then show ?thesis using that q True by (auto simp: qz_def only_zids_def)
    next
      case False
      then show ?thesis using that only_zids_set [of q] q by (auto simp: qz_def Let_def)
    qed
    have st: "zids_step ops ((q, zs), i) =
        (if mustStop ops (inp_SkipSpace ops j) then Some (Inr (Some (qq\<lparr>q_zids := []\<rparr>), inp_SkipSpace ops j))
         else Some (Inl ((Some qq, zs1), inp_SkipSpace ops j)))"
      unfolding zids_step_def prod.case z(1) option.case using True qz1(1) by (simp add: qz_def [symmetric] Let_def)
    have oz: "only_zids (Some (qq\<lparr>q_zids := []\<rparr>))" using qz1(2) by (auto simp: only_zids_def)
    show ?thesis
    proof (cases "mustStop ops (inp_SkipSpace ops j)")
      case True
      then show ?thesis using st go_loop_done [of "zids_step ops"] oz su k by auto
    next
      case False
      then show ?thesis using st go_loop_next [of "zids_step ops"] ih [OF k qz1(2)] by fastforce
    qed
  qed
qed

lemma zids_at:
  assumes ok: "input_ok ops"
  shows "safe ql s \<Longrightarrow> at_text ops src s i \<Longrightarrow> (q = None \<and> zs = NewSet []) \<or> only_zids q \<Longrightarrow>
    \<exists>q1 j s1. go_loop (zids_step ops) ((q, zs), i) = Some (q1, j) \<and> safe ql s1 \<and> at_text ops src s1 j \<and>
      ((q = None \<and> q1 = None \<and> s1 = s) \<or> only_zids q1)"
proof (induction arbitrary: i q zs rule: safe.induct)
  case safe_end
  obtain zid j where "scanZid ops i = Some ((zid, False), j)" "at_text ops src [] (inp_SetPos ops j (inp_Pos ops i))"
    using scanZid_none [OF ok safe_end(1) at_bnd [OF ok safe_end(1) bnd_simps(1)]] by blast
  then show ?case by (rule zids_stop [OF safe.safe_end safe_end(2)])
next
  case (safe_bar s)
  obtain zid j where "scanZid ops i = Some ((zid, False), j)" "at_text ops src (CHR ''|'' # s) (inp_SetPos ops j (inp_Pos ops i))"
    using scanZid_none [OF ok safe_bar(1) at_bar(1) [OF ok safe_bar(1)]] by blast
  then show ?case by (rule zids_stop [OF safe.safe_bar safe_bar(2)])
next
  case (safe_last w)
  have "\<exists>q1 j s1. go_loop (zids_step ops) ((q, zs), i) = Some (q1, j) \<and> safe ql s1 \<and> at_text ops src s1 j \<and> only_zids q1"
    if l: "at_text ops src [] i" "only_zids q" for i q zs
  proof -
    obtain zid j where z: "scanZid ops i = Some ((zid, False), j)" "at_text ops src [] (inp_SetPos ops j (inp_Pos ops i))"
      using scanZid_none [OF ok l(1) at_bnd [OF ok l(1) bnd_simps(1)]] by blast
    have "q \<noteq> None" using l(2) by (auto simp: only_zids_def)
    then show ?thesis using zids_stop [OF safe.safe_end disjI2 [OF l(2)] z, where ql = ql and zs = zs] by auto
  qed
  note ih = this
  have w: "safe ql (w @ [])" using safe_last safe.safe_last [of w ql] by simp
  have a: "at_text ops src (w @ []) i" using safe_last by simp
  have t: "[] = [] \<and> [] = [] \<or> [] = CHR '' '' # []" by simp
  show ?case using zids_word [OF ok safe_last(1) w t safe.safe_end a safe_last(5) ih] by simp
next
  case (safe_next w u)
  have w: "safe ql (w @ CHR '' '' # u)" using safe_next safe.safe_next [of w ql u] by simp
  have ih: "\<exists>q1 j s1. go_loop (zids_step ops) ((q, zs), i) = Some (q1, j) \<and> safe ql s1 \<and> at_text ops src s1 j \<and> only_zids q1"
    if l: "at_text ops src u i" "only_zids q" for i q zs
  proof -
    have "q \<noteq> None" using l(2) by (auto simp: only_zids_def)
    then show ?thesis using safe_next.IH [OF l(1) disjI2 [OF l(2)], where zs = zs] by auto
  qed
  have t: "CHR '' '' # u = [] \<and> u = [] \<or> CHR '' '' # u = CHR '' '' # u" by simp
  show ?case by (rule zids_word [OF ok safe_next(1) w t safe_next(4) safe_next(6,7) ih])
qed

lemma not_dir_word: "\<not> dir_word ql w \<Longrightarrow> w \<noteq> api_word ql ContextDirective \<and> w \<noteq> api_word ql IdentDirective \<and>
    w \<noteq> api_word ql ItemsDirective \<and> w \<noteq> api_word ql UnlinkedDirective"
  by (auto simp: dir_word_def)

lemma skip_safe:
  assumes ok: "input_ok ops" and ql: "lang_ok ql" and s: "safe ql s" "s \<noteq> []" and a: "at_text ops src s i"
    and x: "x \<in> {ContextDirective, IdentDirective, ItemsDirective, UnlinkedDirective}"
    and g: "\<And>j. at_text ops src s j \<Longrightarrow> \<exists>k. g j = R k \<and> P k"
  shows "\<exists>k. try_single ops i (api_word ql x) f g = R k \<and> P k"
  using s(1)
proof (cases rule: safe.cases)
  case safe_end
  then show ?thesis using s(2) by simp
next
  case (safe_bar r)
  show ?thesis
    by (rule skip_single_bar(1) [OF ok ql a [unfolded safe_bar]]) (rule g [unfolded safe_bar])
next
  case safe_last
  have a': "at_text ops src (s @ []) i" using a by simp
  have w: "s \<noteq> api_word ql x" using not_dir_word [OF safe_last(3)] x by auto
  show ?thesis
    by (rule skip_single [OF ok lang_words(1,2) [OF ql] safe_last(1) bnd_simps(1) w a']) (use g in simp)
next
  case (safe_next w u)
  have w: "w \<noteq> api_word ql x" using not_dir_word [OF safe_next(4)] x by auto
  show ?thesis
    by (rule skip_single [OF ok lang_words(1,2) [OF ql] safe_next(2) bnd_simps(2) w a [unfolded safe_next(1)]])
      (use g safe_next(1) in simp)
qed

lemma directives_at:
  assumes ok: "input_ok ops" and ql: "lang_ok ql" and s: "safe ql s" and a: "at_text ops src s i"
  shows "\<exists>j. go_loop (directives_step ops ql) ((q, False), i) = Some (q, j) \<and> at_text ops src s j"
proof -
  note m = at_safe [OF ok s a]
  have "\<exists>j. directives_step ops ql ((q, False), i) = Some (Inr (q, j)) \<and> at_text ops src s j"
  proof (cases "s = []")
    case True
    then show ?thesis using m a by (simp add: directives_step_def)
  next
    case False
    then have ns: "\<not> mustStop ops i" using m(2) by simp
    note sk = skip_safe [OF ok ql s False]
    show ?thesis
    proof (cases q)
      case None
      show ?thesis
        unfolding directives_step_def prod.case Let_def m(1) if_not_P [OF ns] None option.case
        by (rule sk [OF a]) auto
    next
      case (Some qq)
      show ?thesis
      proof (cases "length (q_zids qq) = 0")
        case True
        show ?thesis
          unfolding directives_step_def prod.case Let_def m(1) if_not_P [OF ns] Some option.case if_P [OF True]
          by (rule sk [OF a]) auto
      next
        case False
        show ?thesis
          unfolding directives_step_def prod.case Let_def m(1) if_not_P [OF ns] Some option.case if_not_P [OF False]
          apply (rule sk [OF a], simp, erule sk, simp, erule sk, simp, erule sk, simp)
          apply blast
          done
      qed
    qed
  qed
  then show ?thesis using go_loop_done [of "directives_step ops ql"] by blast
qed

text \<open>A text without directives goes to the main loop.\<close>

lemma ps_parse_at:
  assumes ok: "input_ok ops" and ql: "lang_ok ql" and s: "safe ql s" "s \<noteq> []"
    and p: "\<And>q. q = None \<or> q = Some fresh_query \<Longrightarrow> parses ops ql q s q'"
  shows "ps_parse ops ql None (inp_New ops s) = Some q'"
proof -
  let ?i = "inp_New ops s"
  have a: "at_text ops s s ?i" by (rule at_New [OF ok])
  note m = at_safe [OF ok s(1) a]
  have ns: "\<not> mustStop ops ?i" using m(2) s(2) by simp
  obtain q1 j s1 where z: "go_loop (zids_step ops) ((None, NewSet []), ?i) = Some (q1, j)" "safe ql s1" "at_text ops s s1 j"
      "(q1 = None \<and> s1 = s) \<or> only_zids q1"
    using zids_at [OF ok s(1) a, of None "NewSet []"] by auto
  obtain k where k: "go_loop (directives_step ops ql) ((q1, False), j) = Some (q1, k)" "at_text ops s s1 k"
    using directives_at [OF ok ql z(2,3)] by blast
  show ?thesis
    using z(4)
  proof
    assume q1: "q1 = None \<and> s1 = s"
    then show ?thesis
      using p [of None] k(2) by (simp add: ps_parse_def Let_def m(1) ns z(1) k(1) [simplified q1] parses_def)
  next
    assume "only_zids q1"
    then obtain zs where q1: "q1 = Some (fresh_query\<lparr>q_zids := zs\<rparr>)" by (auto simp: only_zids_def)
    have f: "fresh_query\<lparr>q_zids := []\<rparr> = fresh_query" "q_directives fresh_query = []" by (simp_all add: fresh_query_def q_zero_def)
    have "at_text ops s s (inp_SetPos ops k (inp_Pos ops ?i))" using at_SetPos [OF ok a] k(2) by (simp add: at_text_def)
    then show ?thesis
      using p [of "Some fresh_query"] by (simp add: ps_parse_def Let_def m(1) ns z(1) k(1) [simplified q1] q1 f parses_def)
  qed
qed

section \<open>The printed text has no directives\<close>

definition safe_piece :: "query_lang \<Rightarrow> string \<Rightarrow> bool" where
  "safe_piece ql g \<longleftrightarrow> g \<noteq> [] \<and> safe ql g \<and> (\<forall>u. safe ql u \<longrightarrow> safe ql (g @ CHR '' '' # u))"

lemma safe_word: "graphic_text w \<Longrightarrow> w \<noteq> [] \<Longrightarrow> \<not> dir_word ql w \<Longrightarrow> safe_piece ql w"
  by (simp add: safe_piece_def safe_last safe_next)

lemma safe_words: "safe_piece ql v \<Longrightarrow> safe_piece ql w \<Longrightarrow> safe_piece ql (v @ CHR '' '' # w)"
  by (simp add: safe_piece_def)

lemma dir_word_capital: "lang_ok ql \<Longrightarrow> c \<in> set w \<Longrightarrow> \<not> capital c \<Longrightarrow> \<not> dir_word ql w"
  by (auto simp: dir_word_def lang_ok_def)

lemma safe_api: "lang_ok ql \<Longrightarrow> x \<notin> {ContextDirective, IdentDirective, ItemsDirective, UnlinkedDirective} \<Longrightarrow> safe_piece ql (api_word ql x)"
  using lang_words [of ql] by (intro safe_word) (auto simp: dir_word_def)

lemma safe_key: "lang_ok ql \<Longrightarrow> KeyIsValid k \<Longrightarrow> safe_piece ql k"
  using key_chars [of k] key_graphic [of k] dir_word_capital [of ql "hd k" k]
  by (intro safe_word) (auto simp: KeyIsValid_def split: list.splits)

lemma safe_Itoa: "lang_ok ql \<Longrightarrow> 0 \<le> n \<Longrightarrow> safe_piece ql (strconv_Itoa n)"
proof -
  assume ql: "lang_ok ql" and n: "0 \<le> n"
  obtain c w where c: "strconv_Itoa n = c # w" using Itoa_nonempty [OF n] by (cases "strconv_Itoa n") auto
  have "\<not> capital c" using decimal_graphic [of c "nat n"] c n by (simp add: strconv_Itoa_def)
  then show ?thesis using Itoa_graphic [OF n] dir_word_capital [OF ql, of c] c by (intro safe_word) auto
qed

lemma safe_op: "lang_ok ql \<Longrightarrow> graphic_text (u @ c # v) \<Longrightarrow> op_start c \<Longrightarrow> safe_piece ql (u @ c # v)"
  using dir_word_capital [of ql c] op_not_capital [of c] by (intro safe_word) auto

lemma term_pieces_safe:
  assumes ql: "lang_ok ql" and t: "term_ok z ql ct" and g: "g \<in> set (map fst (term_pieces ct))"
  shows "safe_piece ql g"
proof -
  have key: "safe_piece ql (k @ doc_op op @ v)" if "KeyIsValid k" "op \<noteq> cmpUnknown" "graphic_text v" for k op v
    using doc_op_start [OF that(2)] safe_op [OF ql, of k] key_graphic [OF that(1)] that(3) by fastforce
  obtain f where "(g, f) \<in> set (term_pieces ct)" using g by auto
  then consider (k) k op where "(k, op) \<in> set (ct_keys ct)" "(g, f) \<in> set (key_pieces (k, op))"
    | (v) k vs where "(k, vs) \<in> set (ct_mvals ct)" "(g, f) \<in> set (value_pieces (k, vs))"
    | (s) v where "v \<in> set (ct_search ct)" "g = search_piece v"
    by (auto simp: term_pieces_def)
  then show ?thesis
  proof cases
    case k
    then have "KeyIsValid k" using t by (auto simp: term_ok_def)
    then have p: "safe_piece ql (k @ doc_op op)" if "op \<noteq> cmpUnknown" for op using key [of k op "[]"] that by simp
    have "g = k @ doc_op op \<and> op \<noteq> cmpUnknown \<or> g = k @ doc_op cmpExist \<or> g = k @ doc_op cmpNotExist"
      using k(2) by (auto simp: key_pieces_def split: if_splits)
    then show ?thesis using p [of op] p [of cmpExist] p [of cmpNotExist] by auto
  next
    case v
    then have "KeyIsValid k" "\<forall>v \<in> set vs. graphic_text (ev_value v) \<and> value_op (ev_op v)" using t by (auto simp: term_ok_def)
    then show ?thesis using v(2) key [of k] by (auto simp: value_pieces_def value_op_def)
  next
    case s
    then have st: "search_text ql v" using t by (auto simp: term_ok_def)
    then have gv: "graphic_text (ev_value v)" "ev_value v \<noteq> []" by (simp_all add: search_text_def)
    have bang: "graphic (CHR ''!'')" "op_start (CHR ''!'')" by (simp_all add: graphic_def op_start_def byte_code_def)
    consider "search_op (ev_op v)" | "ev_op v = cmpNoMatch" | "ev_op v = cmpMatch" "no_word ql (ev_value v)"
      using st by (auto simp: search_text_def)
    then show ?thesis
    proof cases
      case 1
      then have o: "ev_op v \<noteq> cmpUnknown" "ev_op v \<noteq> cmpMatch" "ev_op v \<noteq> cmpNoMatch" by (auto simp: search_op_def)
      obtain c r where c: "doc_op (ev_op v) = c # r" "op_start c" "graphic_text (c # r)" using doc_op_start [OF o(1)] by blast
      have "safe_piece ql (c # r @ ev_value v)" using safe_op [OF ql, of "[]" c "r @ ev_value v"] c gv by simp
      then show ?thesis using s(2) o c(1) by (simp add: search_piece_def)
    next
      case 2
      have "safe_piece ql (CHR ''!'' # ev_value v)" using safe_op [OF ql, of "[]" "CHR ''!''" "ev_value v"] bang gv by simp
      then show ?thesis using s(2) 2 by (simp add: search_piece_def)
    next
      case 3
      then have "\<not> dir_word ql (ev_value v)" by (auto simp: no_word_def dir_word_def)
      then show ?thesis using s(2) 3 gv by (simp add: search_piece_def safe_word)
    qed
  qed
qed

lemma query_pieces_safe:
  assumes ql: "lang_ok ql" and q: "printable z ql q" and g: "g \<in> set (map fst (query_pieces ql q))"
  shows "safe_piece ql g"
proof -
  note q' = q [unfolded printable_def]
  have h: "term_ok z ql (hd (q_terms q))" "\<forall>ct \<in> set (tl (q_terms q)). term_ok z ql ct"
    using q' by (auto dest: list.set_sel)
  have n: "safe_piece ql g" if "g \<in> set (map fst (num_pieces ql x n))" "0 \<le> n" for x n
  proof -
    have "num_word x \<noteq> None" "g = api_word ql x @ CHR '' '' # strconv_Itoa n"
      using that(1) by (cases "num_word x"; auto simp: num_pieces_def split: if_splits)+
    moreover from this(1) have "x \<notin> {ContextDirective, IdentDirective, ItemsDirective, UnlinkedDirective}" by (auto simp: num_word_def)
    ultimately show ?thesis using safe_words [OF safe_api [OF ql] safe_Itoa [OF ql that(2)]] by simp
  qed
  have o: "safe_piece ql g" if og: "g \<in> set (map fst (order_pieces ql (q_order q)))"
  proof -
    obtain so where so: "so \<in> set (q_order q)" "g = (if isRandom so then api_word ql RandomDirective else order_piece ql so)"
      using og by (auto simp: order_pieces_def split: if_splits)
    show ?thesis
    proof (cases "isRandom so")
      case True
      then show ?thesis using so(2) safe_api [OF ql, of RandomDirective] by simp
    next
      case False
      then have k: "safe_piece ql (so_key so)" using q' so(1) safe_key [OF ql] by (auto simp: isRandom_def)
      show ?thesis
        using so(2) False safe_words [OF safe_api [OF ql] k, of OrderDirective]
          safe_words [OF safe_api [OF ql] safe_words [OF safe_api [OF ql] k], of OrderDirective ReverseDirective]
        by (auto simp: order_piece_def)
    qed
  qed
  have t: "safe_piece ql g" if tg: "g \<in> set (map fst (terms_pieces ql (tl (q_terms q))))"
  proof -
    have e: "map fst (terms_pieces ql cts) = concat (map (\<lambda>ct. api_word ql OrDirective # map fst (term_pieces ct)) cts)" for cts
      by (simp add: terms_pieces_def map_concat comp_def)
    have "g = api_word ql OrDirective \<or> (\<exists>ct \<in> set (tl (q_terms q)). g \<in> set (map fst (term_pieces ct)))"
      using tg unfolding e by (auto split: if_splits)
    then consider "g = api_word ql OrDirective" | ct where "ct \<in> set (tl (q_terms q))" "g \<in> set (map fst (term_pieces ct))"
      by blast
    then show ?thesis
    proof cases
      case 1
      then show ?thesis using safe_api [OF ql, of OrDirective] by simp
    next
      case 2
      then show ?thesis using h(2) term_pieces_safe [OF ql, of z ct g] by simp
    qed
  qed
  show ?thesis
    using g [unfolded query_pieces_def map_append set_append fst_on_last Un_iff]
  proof (elim disjE)
    assume "g \<in> set (map fst (num_pieces ql PickDirective (q_pick q)))"
    then show ?thesis using n q' by blast
  next
    assume "g \<in> set (map fst (num_pieces ql OffsetDirective (q_offset q)))"
    then show ?thesis using n q' by blast
  next
    assume "g \<in> set (map fst (num_pieces ql LimitDirective (q_limit q)))"
    then show ?thesis using n q' by blast
  qed (rule o t term_pieces_safe [OF ql h(1)], assumption)+
qed

lemma safe_joined:
  assumes "\<forall>g \<in> set gs. safe_piece ql g" "t = [] \<or> (\<exists>u. t = CHR ''|'' # u)"
  shows "safe ql (joined (gs @ (if t = [] then [] else [t])))"
proof -
  have t: "safe ql t" using assms(2) safe_end safe_bar by blast
  have "safe ql (g @ text_of (gs @ (if t = [] then [] else [t])))" if "safe_piece ql g" "\<forall>g \<in> set gs. safe_piece ql g" for g gs
    using that
  proof (induction gs arbitrary: g)
    case Nil
    then show ?case using t by (simp add: safe_piece_def)
  next
    case (Cons h gs)
    then have "safe ql (h @ text_of (gs @ (if t = [] then [] else [t])))" by simp
    then show ?case using Cons.prems by (simp add: safe_piece_def)
  qed
  then show ?thesis using assms(1) t by (cases gs) (auto simp: joined_def safe_end)
qed

section \<open>Round trip\<close>

lemma text_of_append: "text_of (gs @ hs) = text_of gs @ text_of hs"
  by (induction gs) simp_all

lemma createIfNeeded_fresh [simp]: "createIfNeeded None = fresh_query" "createIfNeeded (Some fresh_query) = fresh_query"
  by (simp_all add: createIfNeeded_def fresh_query_def q_zero_def)

lemma parses_joined:
  assumes ok: "input_ok ops" and ps: "pieces_ok ops ql ps" and q0: "q0 = None \<or> q0 = Some fresh_query" and b: "bnd t"
    and p: "\<And>q. q = (if ps = [] then q0 else Some (fold snd ps fresh_query)) \<Longrightarrow> parses ops ql q t q'"
  shows "parses ops ql q0 (joined (map fst ps) @ t) q'"
proof (cases ps)
  case Nil
  then show ?thesis using p [of q0] by (simp add: joined_def)
next
  case (Cons gf ps')
  obtain g f where gf: "gf = (g, f)" by fastforce
  have r: "reads ops ql g f" "pieces_ok ops ql ps'" "q_terms (f fresh_query) \<noteq> []"
    using ps Cons gf by (simp_all add: fresh_query_def)
  have q0': "has_term q0" "createIfNeeded q0 = fresh_query" using q0 by (auto simp: has_term_def) (simp add: fresh_query_def)
  have "parses ops ql (Some (f fresh_query)) (text_of (map fst ps') @ t) q'"
    using parses_pieces [OF ok r(2) b r(3)] p [of "Some (fold snd ps' (f fresh_query))"] Cons gf by simp
  moreover have "bnd (text_of (map fst ps') @ t)" using b by (cases ps') simp_all
  ultimately show ?thesis using parses_piece [OF r(1) q0'(1)] q0'(2) Cons gf by (simp add: joined_def)
qed

lemma trim_printable: "printable z ql q \<Longrightarrow> trim_terms q = q"
proof -
  assume q: "printable z ql q"
  obtain cts ct where c: "q_terms q = cts @ [ct]" using q by (cases "q_terms q" rule: rev_cases) (auto simp: printable_def)
  have "rev (drop_empty (rev (q_terms q))) = q_terms q"
    using q by (cases "rev cts") (auto simp: c printable_def)
  then show ?thesis by (simp add: trim_terms_def)
qed

lemma query_pieces_acts:
  assumes "printable z ql q"
  shows "fold snd (query_pieces ql q) fresh_query = q\<lparr>q_actions := []\<rparr>"
    and "query_pieces ql q = [] \<Longrightarrow> fresh_query = q\<lparr>q_actions := []\<rparr>"
  using query_fold [OF assms] by simp_all


lemma doc_lang_ok: "lang_ok doc_lang"
proof -
  have "inj doc_word"
    by (rule injI) (erule doc_word.elims; erule doc_word.elims; simp)
  moreover have "doc_word w \<noteq> [] \<and> (\<forall>c \<in> set (doc_word w). capital c)" for w
    by (cases w) (simp_all add: capital_def byte_code_def)
  ultimately show ?thesis by (simp add: lang_ok_def doc_lang_def)
qed

definition sample_query :: query where
  "sample_query = fresh_query\<lparr>q_terms := [ct_zero\<lparr>ct_mvals := [(''role'', [\<lparr>ev_value = ''zettel'', ev_op = cmpNotEqual\<rparr>])]\<rparr>,
       ct_zero\<lparr>ct_search := [\<lparr>ev_value = ''word'', ev_op = cmpMatch\<rparr>]\<rparr>],
     q_limit := 12, q_order := [\<lparr>so_key = ''title'', so_descending = True\<rparr>], q_actions := [''N'']\<rparr>"


end
