(* ===== verification/Spec2Isabelle.thy ===== *)
theory Spec2Isabelle
  imports Prelude Zid IdSet Digraph Anteroom GoStrings Meta MetaLaws MapStore MapStoreLaws MapStoreInv
    IndexSearch ZidMapper ZidMapperLaws Policy Box Query QueryLaws QueryResult Words Retrieve
    RetrieveLaws RetrieveSets SearchLaws SearchIndex Select SelectLaws SelectTotal
    Ast Encode Cleaner CleanerLaws Collect Enrich Manager ManagerLaws Indexer IndexerLaws ManagerRun
    MemManaged IndexerRun ManagerRunLaws
    Loops Input InputLaws QueryPrint QueryParse QueryParseLaws QueryRound QueryRoundTrip
begin

text \<open>
  A verification library for the core of Zettelstore, a server for notes ("zettel"), written in Go.

  \<^bold>\<open>The program.\<close> A zettel has an identifier of fourteen digits (\<open>zettel/id\<close>), metadata, which is a
  map of typed keys (\<open>zettel/meta\<close>), and a content (\<open>zettel/content.go\<close>). Boxes store zettel
  (\<open>box/\<close>); the box manager (\<open>box/manager\<close>) combines boxes, queues changes of zettel, and keeps an
  index of references and words. Queries (\<open>query\<close>) are compiled into a full-text search over the
  index and a predicate on metadata; their result is sorted and cut. Every access from outside
  goes through a box that asks a policy (\<open>auth/policy\<close>).

  \<^bold>\<open>Theories and sources.\<close> Each theory models the Go file of the same name; definitions keep the
  names of the functions, methods of a type get its name as prefix where the bare name is taken.
  \<^item> \<open>Prelude\<close>: Go maps as association lists without duplicate keys (\<open>gm_get\<close>, \<open>gm_put\<close>,
    \<open>gm_delete\<close>; the list is the order in which a loop visits the map), loops over slices, the sets
    of rules \<open>gomap_simps\<close> and \<open>asc_simps\<close> that the other theories extend.
  \<^item> \<open>Zid\<close> (\<open>zettel/id/id.go\<close>): both types of identifiers as words of the width the code uses,
    parsing and printing. \<open>IdSet\<close> (\<open>set.go\<close>, \<open>slice.go\<close>): a set is a strictly ascending slice behind
    a pointer, \<open>None\<close> is the nil pointer, which some operations read as the empty and some as the full
    set. \<open>Digraph\<close> (\<open>digraph.go\<close>, \<open>edge.go\<close>): graphs of identifiers.
  \<^item> \<open>GoStrings\<close> (\<open>strfun\<close>, and what the source uses of Go's \<open>strings\<close> and \<open>strconv\<close>), \<open>Words\<close>
    (\<open>strfun/slugify.go\<close>).
  \<^item> \<open>Meta\<close>, \<open>MetaLaws\<close> (\<open>zettel/meta\<close>): the registry of keys and types, the metadata record,
    sanitising, equality, order of keys, header values, arrangements.
  \<^item> \<open>MapStore\<close>, \<open>MapStoreLaws\<close>, \<open>MapStoreInv\<close>, \<open>IndexSearch\<close> (\<open>box/manager/mapstore\<close>,
    \<open>box/manager/store\<close>): the index as a record of four maps, its updates, its invariant, its searches.
  \<^item> \<open>Anteroom\<close> (\<open>box/manager/anteroom.go\<close>): the queue of the indexer. \<open>ZidMapper\<close>,
    \<open>ZidMapperLaws\<close> (\<open>box/manager/zidmapper.go\<close>): the mapping of old to new identifiers.
  \<^item> \<open>Policy\<close> (\<open>auth/policy\<close>, \<open>auth/impl\<close>, \<open>kernel/impl/cfg.go\<close>): a policy is a record of five
    decisions, composed as the code composes them. \<open>Box\<close> (\<open>auth/policy/box.go\<close>,
    \<open>box/membox\<close>, \<open>box/helper.go\<close>): the box that asks the policy, over any box, and the box in memory.
  \<^item> \<open>Query\<close>, \<open>QueryLaws\<close>, \<open>QueryResult\<close> (\<open>query/query.go\<close>, \<open>sorter.go\<close>, \<open>compiled.go\<close>): the query
    value and what happens to a result after the search. \<open>Retrieve\<close>, \<open>RetrieveLaws\<close>, \<open>RetrieveSets\<close>,
    \<open>SearchLaws\<close>, \<open>SearchIndex\<close> (\<open>retrieve.go\<close>): the full-text search; sets are objects of a heap there,
    because the code shares and changes them. \<open>Select\<close>, \<open>SelectLaws\<close>, \<open>SelectTotal\<close> (\<open>select.go\<close>):
    the predicates on metadata and their composition with the search.
  \<^item> \<open>Loops\<close>: loops that may not end, as a partial function over one step. \<open>Input\<close>, \<open>InputLaws\<close>: the
    text that parsers read, an external type with its contract. \<open>QueryPrint\<close> (\<open>print.go\<close>), \<open>QueryParse\<close>,
    \<open>QueryParseLaws\<close> (\<open>parser.go\<close>): printing and parsing of queries; \<open>QueryRound\<close>, \<open>QueryRoundTrip\<close>: a printed
    query is a sequence of pieces, and each piece has its effect when it is parsed.
  \<^item> \<open>Ast\<close> (\<open>ast\<close>): references, the nodes of a parsed zettel, and the walk of a visitor. \<open>Cleaner\<close>,
    \<open>CleanerLaws\<close> (\<open>parser/cleaner\<close>): unique fragments, removal of raw HTML and of links. \<open>Encode\<close>
    (\<open>encoder/write.go\<close>, \<open>encoder/textenc\<close>): the text of a zettel. \<open>Collect\<close> (\<open>collect\<close>,
    \<open>box/manager/collect.go\<close>): references and words of a syntax tree.
  \<^item> \<open>Enrich\<close> (\<open>box/manager/enrich.go\<close>): computed metadata. \<open>Manager\<close>, \<open>ManagerRun\<close> (\<open>box/manager/manager.go\<close>,
    \<open>box.go\<close>): the state of the manager, a record, over boxes that are records of operations on one state;
    reading and selecting, then writing, notifications, start and stop. \<open>Indexer\<close> (\<open>indexer.go\<close>): the
    entry of a zettel and the work loop. Their laws are in \<open>ManagerLaws\<close>, \<open>IndexerLaws\<close>, \<open>MemManaged\<close>
    (managers over in-memory boxes), \<open>IndexerRun\<close> and \<open>ManagerRunLaws\<close>.

  \<^bold>\<open>Interfaces.\<close> A locale states what one part promises another, and is interpreted on the model of
  the part that provides it: sets of identifiers (\<open>zid_set_algebra\<close>), the queue, the searcher that the
  retrieval uses (\<open>index_searcher\<close>, interpreted on the index store), the boxes of a manager
  (\<open>managed_boxes\<close>, \<open>startable_boxes\<close>, interpreted on in-memory boxes), and others.

  \<^bold>\<open>What is shown.\<close> Identifiers: parsing accepts exactly what printing produces. Sets and graphs refine
  mathematical sets and relations; closure, reachability, acyclicity and topological sorting agree with
  their textbook definitions. The index: an invariant of all its maps, what an update records and a
  deletion removes, searches that return exactly the zettel with a matching word. The mapping of
  identifiers: always one to one. The queue: it refines a list of tasks. Policies: nobody writes what
  cannot be read, nobody gains rights by changing the own user zettel, the read-only mode denies changes.
  Boxes: the policy confines reads and writes; the accounting of the memory box is exact. Queries: the
  full-text search of a query, for a single word exactly and for all expressions within bounds; the selection agrees
  with a reference semantics; compilation never fails; a result is sorted, cut and deterministic as asked.
  Parsing a query always returns, and a printed query is parsed as the same query.
  The manager: a zettel comes from the first box that has it, a query gives exactly the zettel that some term
  accepts, a start is all or nothing, the index stays consistent under all operations, and the indexer ends with an
  index that is complete. Syntax trees: fragments are unique after cleaning.

  \<^bold>\<open>Bounds.\<close> Machine integers have the width of the code. Recursions that are not structural have a
  termination proof; there is no fuel. The work loop of the indexer, which may run for ever, is a partial function
  whose rounds are total; so are the loops of the query parser, which are shown to return. Loops over maps take their visiting order as the order of the
  list or as an argument, so a statement over all of them is a statement over all orders.

  \<^bold>\<open>Parameters.\<close> Code outside the repository is an argument: the key names of the api package, Unicode
  tables and normal forms, the clock, the password hash, random generators, the text of parsed
  zettelmarkup. Mutexes are left out: the operations they protect are atomic steps.

  \<^bold>\<open>Not modelled.\<close> Input and output (file system, HTTP, console, logging), HTML generation, the parsers of zettel
  content, tokens, generated and embedded data, tests and tools.
\<close>

end
